(* ===== verification/Prelude.thy ===== *)
theory Prelude
  imports Main "HOL-Library.Word"
begin

text \<open>
  What the components share: the names of the machine integer types, the result types of
  the code (\<^verbatim>\<open>base::Result\<close> becomes a sum with the error on the left,
  \<^verbatim>\<open>diag::Fallible\<close> the sum with the marker \<open>Fatal\<close>), the index loops the C++ code writes
  as \<^verbatim>\<open>while (i < n && P(bytes[i])) ++i\<close>, substrings, separator splitting and joining,
  and decimal printing. The loops keep the shape of the source (an index that moves over the
  bytes); one equation each turns them into \<open>takeWhile\<close> on the rest of the input, which is
  what the proofs of the components use.
\<close>

type_synonym u8 = "8 word"
type_synonym u32 = "32 word"
type_synonym u64 = "64 word"

datatype fatal = Fatal

abbreviation newline :: char where "newline \<equiv> CHR 0x0A"

type_synonym 'a fallible = "fatal + 'a"

named_theorems loop_eqs "closed forms of the index loops"
named_theorems progress "how far an operation moves a cursor"

subsection \<open>Index loops\<close>

function scan_while :: "('a \<Rightarrow> bool) \<Rightarrow> 'a list \<Rightarrow> nat \<Rightarrow> nat" where
  "scan_while P xs i =
     (if i < length xs \<and> P (xs ! i) then scan_while P xs (Suc i) else i)"
  by pat_completeness auto
termination
  by (relation "measure (\<lambda>(P, xs, i). length xs - i)") auto

declare scan_while.simps [simp del]

lemma scan_while_eq [loop_eqs]:
  "scan_while P xs i = i + length (takeWhile P (drop i xs))"
proof (induction P xs i rule: scan_while.induct)
  case (1 P xs i)
  show ?case
  proof (cases "i < length xs \<and> P (xs ! i)")
    case True
    then have "drop i xs = xs ! i # drop (Suc i) xs" by (simp add: Cons_nth_drop_Suc)
    with True "1" show ?thesis by (subst scan_while.simps) simp
  next
    case False
    then have "takeWhile P (drop i xs) = []"
      by (cases "i < length xs") (auto simp: takeWhile_eq_Nil_iff hd_drop_conv_nth)
    with False show ?thesis by (subst scan_while.simps) auto
  qed
qed

lemma scan_while_ge [simp, progress]: "i \<le> scan_while P xs i"
  by (simp add: scan_while_eq)

lemma scan_while_step [progress]:
  "i < length xs \<Longrightarrow> P (xs ! i) \<Longrightarrow> i < scan_while P xs i"
  by (subst scan_while.simps) (simp add: Suc_le_lessD)

lemma scan_while_le: "i \<le> length xs \<Longrightarrow> scan_while P xs i \<le> length xs"
proof -
  assume "i \<le> length xs"
  moreover have "length (takeWhile P (drop i xs)) \<le> length xs - i"
    by (metis length_drop length_takeWhile_le)
  ultimately show ?thesis by (simp add: scan_while_eq)
qed

subsection \<open>Substrings\<close>

definition substr :: "'a list \<Rightarrow> nat \<Rightarrow> nat \<Rightarrow> 'a list" where
  "substr xs i n = take n (drop i xs)"

lemma substr_scan_while:
  "substr xs i (scan_while P xs i - i) = takeWhile P (drop i xs)"
  by (simp add: substr_def scan_while_eq takeWhile_eq_take [symmetric])

lemma length_substr [simp]: "length (substr xs i n) = min n (length xs - i)"
  by (simp add: substr_def)

subsection \<open>Splitting at a separator and joining\<close>

fun split_at :: "'a \<Rightarrow> 'a list \<Rightarrow> 'a list list" where
  "split_at c [] = [[]]"
| "split_at c (x # xs) =
     (if x = c then [] # split_at c xs
      else (case split_at c xs of [] \<Rightarrow> [[x]] | w # ws \<Rightarrow> (x # w) # ws))"

fun join_with :: "'a \<Rightarrow> 'a list list \<Rightarrow> 'a list" where
  "join_with c [] = []"
| "join_with c [x] = x"
| "join_with c (x # y # ys) = x @ c # join_with c (y # ys)"

lemma split_at_nonempty [simp]: "split_at c xs \<noteq> []"
  by (cases xs) (auto split: list.split)

lemma split_at_none: "c \<notin> set xs \<Longrightarrow> split_at c xs = [xs]"
  by (induction xs) auto

lemma split_at_cons: "c \<notin> set xs \<Longrightarrow> split_at c (xs @ c # ys) = xs # split_at c ys"
  by (induction xs) auto

lemma split_at_append: "split_at c (xs @ c # ys) = split_at c xs @ split_at c ys"
proof (induction xs)
  case (Cons x xs)
  then show ?case by (cases "split_at c xs") auto
qed simp

lemma split_at_parts: "p \<in> set (split_at c xs) \<Longrightarrow> c \<notin> set p \<and> set p \<subseteq> set xs"
proof (induction xs arbitrary: p)
  case (Cons x xs)
  from Cons.IH have "\<forall>q \<in> set (split_at c xs). c \<notin> set q \<and> set q \<subseteq> set xs" by blast
  with Cons.prems show ?case by (cases "split_at c xs") (auto split: if_splits)
qed simp

lemma split_at_while:
  "split_at c xs = takeWhile (\<lambda>x. x \<noteq> c) xs #
     (case dropWhile (\<lambda>x. x \<noteq> c) xs of [] \<Rightarrow> [] | _ # r \<Rightarrow> split_at c r)"
  by (induction xs) (auto split: list.splits)

lemma join_with_append_one:
  "join_with c (xs @ [x]) = (if xs = [] then x else join_with c xs @ c # x)"
  by (induction c xs rule: join_with.induct) auto

lemma split_at_join_with:
  "xs \<noteq> [] \<Longrightarrow> \<forall>x \<in> set xs. c \<notin> set x \<Longrightarrow> split_at c (join_with c xs) = xs"
  by (induction c xs rule: join_with.induct) (auto simp: split_at_none split_at_cons)

subsection \<open>Decimal printing\<close>

text \<open>What \<^verbatim>\<open>std::to_string\<close> and a \<^verbatim>\<open>{}\<close> of the formatting library print for an unsigned number.\<close>

definition digit_char :: "nat \<Rightarrow> char" where
  "digit_char d = char_of (48 + d)"

fun dec :: "nat \<Rightarrow> string" where
  "dec n = (if n < 10 then [digit_char n] else dec (n div 10) @ [digit_char (n mod 10)])"

declare dec.simps [simp del]

definition dec32 :: "u32 \<Rightarrow> string" where
  "dec32 w = dec (unat w)"

lemma dec_nonempty [simp]: "dec n \<noteq> []"
  by (subst dec.simps) simp

end
