(* ===== verification/Path.thy ===== *)
theory Path
  imports Prelude
begin

text \<open>
  The path value type (\<^verbatim>\<open>src/path/path.h\<close>, \<^verbatim>\<open>src/path/path.cc\<close>).
  \<open>normalize_canonical\<close> keeps the loop of the source: an index over the bytes, the output
  string that is built up, and the stack of offsets to which a \<^verbatim>\<open>..\<close> truncates it.
  The specification is a structured value \<open>canon\<close>: absolute or not, a number of leading
  \<^verbatim>\<open>..\<close>, and the names. \<open>canon_of\<close> reads it off a string, \<open>show_canon\<close> prints
  it; the code is shown to print exactly \<open>canon_of\<close> of its input, and every fact about
  joining, parents and idempotence is a fact about \<open>canon\<close>. The build flag
  \<^verbatim>\<open>IS_OS_WIN\<close> is the boolean argument \<open>win\<close>.
\<close>

subsection \<open>The code\<close>

definition kDefaultPathSeparator :: char where
  "kDefaultPathSeparator = CHR ''/''"

definition kWindowsPathSeparator :: char where
  "kWindowsPathSeparator = CHR 0x5C"

datatype path_error = ContainsNul

datatype path = Path (as_view: string)

text \<open>\<^verbatim>\<open>std::string::resize\<close>, which pads with NUL when it grows.\<close>

definition resize :: "string \<Rightarrow> nat \<Rightarrow> string" where
  "resize s n = take n s @ replicate (n - length s) (CHR 0x00)"

definition norm_step :: "bool \<Rightarrow> string \<times> nat list \<Rightarrow> string \<Rightarrow> string \<times> nat list" where
  "norm_step absolute st part =
     (case st of (out, starts) \<Rightarrow>
       if part = [] \<or> part = ''.'' then (out, starts)
       else if part = ''..'' then
         (case starts of
            s # rest \<Rightarrow> (resize out s, rest)
          | [] \<Rightarrow>
              if \<not> absolute then
                ((if out \<noteq> [] then out @ [kDefaultPathSeparator] else out) @ ''..'', starts)
              else (out, starts))
       else
         ((if out \<noteq> [] then out @ [kDefaultPathSeparator] else out) @ part,
          length out # starts))"

function norm_loop :: "bool \<Rightarrow> string \<Rightarrow> nat \<Rightarrow> string \<times> nat list \<Rightarrow> string \<times> nat list" where
  "norm_loop absolute path i st =
     (if i \<le> length path then
        let e = scan_while (\<lambda>c. c \<noteq> kDefaultPathSeparator) path i;
            part = substr path i (e - i)
        in norm_loop absolute path (e + 1) (norm_step absolute st part)
      else st)"
  by pat_completeness auto
termination
  by (relation "measure (\<lambda>(a, path, i, st). Suc (length path) - i)")
     (auto simp: Suc_diff_le intro: le_less_trans [OF diff_le_mono2 [OF scan_while_ge]])

declare norm_loop.simps [simp del]

definition normalize_canonical :: "string \<Rightarrow> string" where
  "normalize_canonical path =
     (let absolute = path \<noteq> [] \<and> hd path = kDefaultPathSeparator;
          out = fst (norm_loop absolute path (if absolute then 1 else 0) ([], []))
      in if absolute then kDefaultPathSeparator # out
         else if out = [] then ''.'' else out)"

definition fold_separators :: "string \<Rightarrow> string" where
  "fold_separators path =
     map (\<lambda>c. if c = kWindowsPathSeparator then kDefaultPathSeparator else c) path"

definition from_native :: "bool \<Rightarrow> string \<Rightarrow> path_error + path" where
  "from_native win path =
     (if CHR 0x00 \<in> set path then Inl ContainsNul
      else Inr (Path (normalize_canonical (if win then fold_separators path else path))))"

definition join :: "bool \<Rightarrow> path \<Rightarrow> string \<Rightarrow> path" where
  "join win p child =
     Path (normalize_canonical
       (as_view p @ [kDefaultPathSeparator] @ (if win then fold_separators child else child)))"

text \<open>\<^verbatim>\<open>find_last_of\<close>: the last index holding the character, or \<open>None\<close> for \<^verbatim>\<open>npos\<close>.\<close>

fun find_last_of :: "char \<Rightarrow> string \<Rightarrow> nat option" where
  "find_last_of c [] = None"
| "find_last_of c (x # xs) =
     (case find_last_of c xs of
        Some i \<Rightarrow> Some (Suc i)
      | None \<Rightarrow> if x = c then Some 0 else None)"

definition parent :: "path \<Rightarrow> path" where
  "parent p =
     (case find_last_of kDefaultPathSeparator (as_view p) of
        None \<Rightarrow> Path ''.''
      | Some slash \<Rightarrow>
          if slash = 0 then Path [kDefaultPathSeparator]
          else Path (substr (as_view p) 0 slash))"

definition is_absolute :: "path \<Rightarrow> bool" where
  "is_absolute p \<longleftrightarrow> as_view p \<noteq> [] \<and> hd (as_view p) = kDefaultPathSeparator"

subsection \<open>The structured value behind a canonical path\<close>

datatype canon = Canon (c_abs: bool) (c_ups: nat) (c_names: "string list")

definition valid_name :: "string \<Rightarrow> bool" where
  "valid_name n \<longleftrightarrow> n \<noteq> [] \<and> n \<noteq> ''.'' \<and> n \<noteq> ''..'' \<and> CHR ''/'' \<notin> set n"

definition wf_canon :: "canon \<Rightarrow> bool" where
  "wf_canon c \<longleftrightarrow> (c_abs c \<longrightarrow> c_ups c = 0) \<and> list_all valid_name (c_names c)"

definition canon_step :: "canon \<Rightarrow> string \<Rightarrow> canon" where
  "canon_step c part =
     (if part = [] \<or> part = ''.'' then c
      else if part = ''..'' then
        (if c_names c \<noteq> [] then Canon (c_abs c) (c_ups c) (butlast (c_names c))
         else if \<not> c_abs c then Canon (c_abs c) (Suc (c_ups c)) []
         else c)
      else Canon (c_abs c) (c_ups c) (c_names c @ [part]))"

definition canon_of :: "string \<Rightarrow> canon" where
  "canon_of p =
     (if p \<noteq> [] \<and> hd p = CHR ''/''
      then foldl canon_step (Canon True 0 []) (split_at (CHR ''/'') (tl p))
      else foldl canon_step (Canon False 0 []) (split_at (CHR ''/'') p))"

definition canon_parts :: "canon \<Rightarrow> string list" where
  "canon_parts c = replicate (c_ups c) ''..'' @ c_names c"

definition show_body :: "canon \<Rightarrow> string" where
  "show_body c = join_with (CHR ''/'') (canon_parts c)"

definition show_canon :: "canon \<Rightarrow> string" where
  "show_canon c =
     (if c_abs c then CHR ''/'' # show_body c
      else if show_body c = [] then ''.'' else show_body c)"


lemma slash_eq [simp]: "kDefaultPathSeparator = CHR ''/''"
  by (simp add: kDefaultPathSeparator_def)

subsection \<open>The loop is a fold over the segments\<close>

lemma norm_loop_eq:
  "i \<le> length path \<Longrightarrow>
   norm_loop a path i st = foldl (norm_step a) st (split_at (CHR ''/'') (drop i path))"
proof (induction a path i st rule: norm_loop.induct)
  case (1 a path i st)
  let ?P = "\<lambda>c. c \<noteq> CHR ''/''"
  let ?w = "takeWhile ?P (drop i path)"
  let ?st = "norm_step a st ?w"
  have e: "scan_while ?P path i = i + length ?w" by (rule scan_while_eq)
  have p: "substr path i (length ?w) = ?w"
    by (simp add: substr_def takeWhile_eq_take [symmetric])
  have step: "norm_loop a path i st = norm_loop a path (Suc (i + length ?w)) ?st"
    using "1.prems" p by (subst norm_loop.simps) (simp add: e Let_def)
  have d: "dropWhile ?P (drop i path) = drop (i + length ?w) path"
    by (simp add: dropWhile_eq_drop add.commute)
  show ?case
  proof (cases "i + length ?w < length path")
    case True
    have h: "drop (i + length ?w) path = path ! (i + length ?w) # drop (Suc (i + length ?w)) path"
      using True by (rule Cons_nth_drop_Suc [symmetric])
    have "norm_loop a path (Suc (i + length ?w)) ?st =
      foldl (norm_step a) ?st (split_at (CHR ''/'') (drop (Suc (i + length ?w)) path))"
      using "1.IH" [OF "1.prems"] True by (simp add: e p)
    then show ?thesis by (simp add: step split_at_while [of _ "drop i path"] d h)
  next
    case False
    then have "\<not> Suc (i + length ?w) \<le> length path" by simp
    then have "norm_loop a path (Suc (i + length ?w)) ?st = ?st"
      by (subst norm_loop.simps) (simp only: if_False)
    then show ?thesis using False by (simp add: step split_at_while [of _ "drop i path"] d)
  qed
qed

subsection \<open>Printed bodies\<close>

lemma wf_canon_parts:
  "wf_canon c \<Longrightarrow> p \<in> set (canon_parts c) \<Longrightarrow> p \<noteq> [] \<and> p \<noteq> ''.'' \<and> CHR ''/'' \<notin> set p"
proof -
  assume wf: "wf_canon c" and "p \<in> set (canon_parts c)"
  then have "p = ''..'' \<or> p \<in> set (c_names c)"
    unfolding canon_parts_def by (auto simp: in_set_replicate)
  moreover from wf have "p \<in> set (c_names c) \<Longrightarrow> valid_name p"
    by (simp add: wf_canon_def list_all_iff)
  ultimately show ?thesis unfolding valid_name_def by fastforce
qed

lemma join_with_Nil_iff:
  "\<forall>p \<in> set ps. p \<noteq> [] \<Longrightarrow> join_with c ps = [] \<longleftrightarrow> ps = []"
  by (cases "(c, ps)" rule: join_with.cases) auto

lemma show_body_Nil_iff: "wf_canon c \<Longrightarrow> show_body c = [] \<longleftrightarrow> canon_parts c = []"
  unfolding show_body_def by (rule join_with_Nil_iff) (auto dest: wf_canon_parts)

lemma show_body_snoc:
  "wf_canon (Canon a u ns) \<Longrightarrow>
   show_body (Canon a u (ns @ [n])) =
     (if show_body (Canon a u ns) \<noteq> [] then show_body (Canon a u ns) @ [CHR ''/''] else
        show_body (Canon a u ns)) @ n"
  using show_body_Nil_iff [of "Canon a u ns"]
  by (auto simp: show_body_def canon_parts_def join_with_append_one simp flip: append_assoc)

lemma show_body_up:
  "show_body (Canon False (Suc u) []) =
     (if show_body (Canon False u []) \<noteq> [] then show_body (Canon False u []) @ [CHR ''/''] else
        show_body (Canon False u [])) @ ''..''"
proof -
  have parts: "canon_parts (Canon False (Suc u) []) = canon_parts (Canon False u []) @ [''..'']"
    by (simp add: canon_parts_def replicate_append_same)
  have "wf_canon (Canon False u [])" by (simp add: wf_canon_def)
  then have "show_body (Canon False u []) = [] \<longleftrightarrow> canon_parts (Canon False u []) = []"
    by (rule show_body_Nil_iff)
  then show ?thesis by (auto simp: show_body_def parts join_with_append_one)
qed

subsection \<open>The state of the loop represents a structured path\<close>

definition rep :: "canon \<Rightarrow> string \<times> nat list" where
  "rep c = (show_body c,
     rev (map (\<lambda>k. length (show_body (Canon (c_abs c) (c_ups c) (take k (c_names c)))))
       [0..<length (c_names c)]))"

lemma rep_empty: "rep (Canon a 0 []) = ([], [])"
  by (simp add: rep_def show_body_def canon_parts_def)

lemma wf_canon_take: "wf_canon (Canon a u (ns @ ms)) \<Longrightarrow> wf_canon (Canon a u ns)"
  by (simp add: wf_canon_def)

lemma rep_snoc:
  assumes "wf_canon (Canon a u ns)"
  shows "rep (Canon a u (ns @ [n])) =
    (show_body (Canon a u (ns @ [n])),
     length (show_body (Canon a u ns)) # snd (rep (Canon a u ns)))"
  by (simp add: rep_def)

lemma take_show_body_snoc:
  "wf_canon (Canon a u ns) \<Longrightarrow>
   take (length (show_body (Canon a u ns))) (show_body (Canon a u (ns @ [n]))) =
     show_body (Canon a u ns)"
  by (simp add: show_body_snoc)

lemma canon_step_abs [simp]: "c_abs (canon_step c p) = c_abs c"
  by (simp add: canon_step_def)

lemma canon_step_wf: "wf_canon c \<Longrightarrow> CHR ''/'' \<notin> set p \<Longrightarrow> wf_canon (canon_step c p)"
  by (auto simp: canon_step_def wf_canon_def valid_name_def list_all_iff dest: in_set_butlastD)

lemma norm_step_rep:
  assumes wf: "wf_canon c"
  shows "norm_step (c_abs c) (rep c) part = rep (canon_step c part)"
proof (cases c)
  case (Canon a u ns)
  show ?thesis
  proof (cases "part = ''..''")
    case up: True
    show ?thesis
    proof (cases ns rule: rev_cases)
      case Nil
      have "rep (Canon False u []) = (show_body (Canon False u []), [])" by (simp add: rep_def)
      moreover have "rep (Canon False (Suc u) []) = (show_body (Canon False (Suc u) []), [])"
        by (simp add: rep_def)
      moreover have "rep (Canon True u []) = (show_body (Canon True u []), [])"
        by (simp add: rep_def)
      ultimately show ?thesis
        using up Canon Nil show_body_up [of u]
        by (cases a) (simp_all add: norm_step_def canon_step_def)
    next
      case (snoc ms m)
      from wf Canon snoc have wms: "wf_canon (Canon a u ms)" by (auto intro: wf_canon_take)
      have le: "length (show_body (Canon a u ms)) \<le> length (show_body (Canon a u (ms @ [m])))"
        using wms by (simp add: show_body_snoc)
      have "norm_step a (rep (Canon a u (ms @ [m]))) ''..'' =
        (resize (show_body (Canon a u (ms @ [m]))) (length (show_body (Canon a u ms))),
         snd (rep (Canon a u ms)))"
        by (simp add: norm_step_def rep_snoc [OF wms])
      also have "\<dots> = rep (Canon a u ms)"
        using le by (simp add: resize_def take_show_body_snoc [OF wms] rep_def)
      finally show ?thesis using up Canon snoc by (simp add: canon_step_def)
    qed
  next
    case False
    with wf Canon show ?thesis
      by (auto simp: norm_step_def canon_step_def rep_snoc show_body_snoc rep_def)
  qed
qed

lemma norm_fold_rep:
  "wf_canon c \<Longrightarrow> \<forall>p \<in> set ps. CHR ''/'' \<notin> set p \<Longrightarrow>
   foldl (norm_step (c_abs c)) (rep c) ps = rep (foldl canon_step c ps) \<and>
   wf_canon (foldl canon_step c ps) \<and> c_abs (foldl canon_step c ps) = c_abs c"
proof (induction ps arbitrary: c)
  case (Cons p ps)
  from Cons.prems have "wf_canon (canon_step c p)" by (simp add: canon_step_wf)
  with Cons.IH [of "canon_step c p"] Cons.prems show ?case by (simp add: norm_step_rep)
qed simp


subsection \<open>What the code computes\<close>

lemma canon_fold_wf:
  "wf_canon c \<Longrightarrow> wf_canon (foldl canon_step c (split_at (CHR ''/'') s)) \<and>
     c_abs (foldl canon_step c (split_at (CHR ''/'') s)) = c_abs c"
proof -
  assume "wf_canon c"
  moreover have "\<forall>p \<in> set (split_at (CHR ''/'') s). CHR ''/'' \<notin> set p"
    by (simp add: split_at_parts)
  ultimately show ?thesis using norm_fold_rep by blast
qed

lemma wf_canon_start [simp]: "wf_canon (Canon a 0 [])"
  by (simp add: wf_canon_def)

lemma canon_of_wf [simp]: "wf_canon (canon_of p)"
  by (simp add: canon_of_def canon_fold_wf)

lemma canon_of_abs: "c_abs (canon_of p) \<longleftrightarrow> p \<noteq> [] \<and> hd p = CHR ''/''"
  by (simp add: canon_of_def canon_fold_wf)

lemma fst_norm_loop:
  assumes "i \<le> length p"
  shows "fst (norm_loop a p i ([], [])) =
    show_body (foldl canon_step (Canon a 0 []) (split_at (CHR ''/'') (drop i p)))"
proof -
  have "\<forall>q \<in> set (split_at (CHR ''/'') (drop i p)). CHR ''/'' \<notin> set q"
    by (simp add: split_at_parts)
  from norm_fold_rep [OF wf_canon_start this, of a]
  have "foldl (norm_step a) ([], []) (split_at (CHR ''/'') (drop i p)) =
    rep (foldl canon_step (Canon a 0 []) (split_at (CHR ''/'') (drop i p)))"
    by (simp add: rep_empty)
  with assms show ?thesis by (simp add: norm_loop_eq rep_def)
qed

lemma normalize_eq: "normalize_canonical p = show_canon (canon_of p)"
proof (cases "p \<noteq> [] \<and> hd p = CHR ''/''")
  case True
  then have "1 \<le> length p" by (cases p) auto
  with True show ?thesis
    using canon_fold_wf [OF wf_canon_start, of True]
    by (simp add: normalize_canonical_def fst_norm_loop show_canon_def canon_of_def drop_Suc)
next
  case False
  then show ?thesis
    using canon_fold_wf [OF wf_canon_start, of False]
    by (auto simp: normalize_canonical_def fst_norm_loop show_canon_def canon_of_def Let_def)
qed

subsection \<open>Reading a canonical path back\<close>

lemma foldl_ups: "foldl canon_step (Canon False u []) (replicate k ''..'') = Canon False (u + k) []"
proof (induction k arbitrary: u)
  case (Suc k)
  have "canon_step (Canon False u []) ''..'' = Canon False (Suc u) []"
    by (simp add: canon_step_def)
  with Suc show ?case by simp
qed simp

lemma foldl_names:
  "list_all valid_name ns \<Longrightarrow> foldl canon_step (Canon a u ms) ns = Canon a u (ms @ ns)"
proof (induction ns arbitrary: ms)
  case (Cons n ns)
  then have "canon_step (Canon a u ms) n = Canon a u (ms @ [n])"
    by (simp add: canon_step_def valid_name_def)
  with Cons show ?case by simp
qed simp

lemma foldl_parts:
  "wf_canon c \<Longrightarrow> foldl canon_step (Canon (c_abs c) 0 []) (canon_parts c) = c"
  by (cases c; cases "c_abs c")
     (simp_all add: wf_canon_def canon_parts_def foldl_ups foldl_names)

lemma foldl_body:
  assumes "wf_canon c"
  shows "foldl canon_step (Canon (c_abs c) 0 []) (split_at (CHR ''/'') (show_body c)) = c"
proof (cases "canon_parts c = []")
  case True
  then show ?thesis
    using foldl_parts [OF assms] by (simp add: show_body_def canon_step_def)
next
  case False
  have "\<forall>p \<in> set (canon_parts c). CHR ''/'' \<notin> set p"
    using assms wf_canon_parts by blast
  with False have "split_at (CHR ''/'') (show_body c) = canon_parts c"
    unfolding show_body_def by (rule split_at_join_with)
  then show ?thesis using foldl_parts [OF assms] by simp
qed

lemma hd_show_body:
  assumes "wf_canon c" and "show_body c \<noteq> []"
  shows "hd (show_body c) \<noteq> CHR ''/''"
proof -
  have ne: "canon_parts c \<noteq> []" using assms show_body_Nil_iff by blast
  then obtain p ps where ps: "canon_parts c = p # ps" by (cases "canon_parts c") auto
  then have "p \<noteq> []" and "CHR ''/'' \<notin> set p" using wf_canon_parts [OF assms(1)] by auto
  moreover have "hd (show_body c) = hd p"
    using \<open>p \<noteq> []\<close> by (cases ps) (simp_all add: show_body_def ps)
  ultimately show ?thesis by (metis hd_in_set)
qed

lemma canon_show:
  assumes "wf_canon c"
  shows "canon_of (show_canon c) = c"
  proof (cases "c_abs c")
    case True
    with foldl_body [OF assms] show ?thesis by (simp add: show_canon_def canon_of_def)
  next
    case rel: False
    show ?thesis
    proof (cases "show_body c = []")
      case True
      have "foldl canon_step (Canon False 0 []) (split_at (CHR ''/'') []) = c"
        using foldl_body [OF assms] rel True by simp
      with rel True show ?thesis by (simp add: show_canon_def canon_of_def canon_step_def)
    next
      case False
      with rel foldl_body [OF assms] hd_show_body [OF assms False] show ?thesis
        by (simp add: show_canon_def canon_of_def)
    qed
  qed


subsection \<open>Joining and parents\<close>

definition canonical :: "path \<Rightarrow> bool" where
  "canonical p \<longleftrightarrow> normalize_canonical (as_view p) = as_view p"

text \<open>The separator folding that both \<^verbatim>\<open>from_native\<close> and \<^verbatim>\<open>join\<close> apply on Windows.\<close>

definition native :: "bool \<Rightarrow> string \<Rightarrow> string" where
  "native win s = (if win then fold_separators s else s)"

lemma normalize_idem: "normalize_canonical (normalize_canonical s) = normalize_canonical s"
  by (simp add: normalize_eq canon_show)

lemma canonical_join: "canonical (join win p c)"
  by (simp add: canonical_def join_def normalize_idem)

lemma canonical_ne: "canonical p \<Longrightarrow> as_view p \<noteq> []"
proof -
  assume "canonical p"
  then have "as_view p = show_canon (canon_of (as_view p))"
    by (simp add: canonical_def normalize_eq)
  then show ?thesis by (auto simp: show_canon_def split: if_splits)
qed

lemma canon_of_append:
  "p \<noteq> [] \<Longrightarrow> canon_of (p @ CHR ''/'' # s) = foldl canon_step (canon_of p) (split_at (CHR ''/'') s)"
proof -
  assume "p \<noteq> []"
  then obtain a ps where p: "p = a # ps" by (cases p) auto
  show ?thesis
  proof (cases "a = CHR ''/''")
    case True
    then show ?thesis by (simp add: canon_of_def p split_at_append)
  next
    case False
    then show ?thesis
      using split_at_append [of "CHR ''/''" "a # ps" s]
      by (simp add: canon_of_def p del: split_at.simps)
  qed
qed

lemma canon_of_join:
  "canonical p \<Longrightarrow> canon_of (as_view (join win p s)) =
     foldl canon_step (canon_of (as_view p)) (split_at (CHR ''/'') (native win s))"
  using canonical_ne [of p] canon_fold_wf [OF canon_of_wf, THEN conjunct1]
  by (simp add: join_def normalize_eq canon_show canon_of_append native_def)

lemma canonical_eqI:
  "canonical p \<Longrightarrow> canonical q \<Longrightarrow> canon_of (as_view p) = canon_of (as_view q) \<Longrightarrow> p = q"
  by (metis canonical_def normalize_eq path.expand)


lemma native_append: "native win (a @ CHR ''/'' # b) = native win a @ CHR ''/'' # native win b"
  by (simp add: native_def fold_separators_def kWindowsPathSeparator_def)

lemma join_join:
  assumes "canonical p"
  shows "join win (join win p a) b = join win p (a @ CHR ''/'' # b)"
  by (rule canonical_eqI)
     (simp_all add: canonical_join canon_of_join assms native_append split_at_append)

lemma native_valid: "valid_name n \<Longrightarrow> kWindowsPathSeparator \<notin> set n \<Longrightarrow> native win n = n"
  by (auto simp: native_def fold_separators_def intro!: map_idI)

lemma canon_of_join_name:
  assumes "canonical p" and "valid_name n" and "kWindowsPathSeparator \<notin> set n"
  shows "canon_of (as_view (join win p n)) =
    (case canon_of (as_view p) of Canon a u ns \<Rightarrow> Canon a u (ns @ [n]))"
proof -
  have "split_at (CHR ''/'') n = [n]" using assms(2) by (simp add: valid_name_def split_at_none)
  then show ?thesis
    using assms
    by (simp add: canon_of_join native_valid canon_step_def valid_name_def split: canon.split)
qed

lemma find_last_of_None: "find_last_of c xs = None \<longleftrightarrow> c \<notin> set xs"
  by (induction xs) (auto split: option.split)

lemma find_last_of_append:
  "c \<notin> set ys \<Longrightarrow> find_last_of c (xs @ c # ys) = Some (length xs)"
  by (induction xs) (auto simp: find_last_of_None split: option.split)

lemma parent_join_name:
  assumes can: "canonical p" and n: "valid_name n" and w: "kWindowsPathSeparator \<notin> set n"
  shows "parent (join win p n) = p"
proof -
  obtain a u ns where c: "canon_of (as_view p) = Canon a u ns" by (cases "canon_of (as_view p)")
  have wf: "wf_canon (Canon a u ns)" using canon_of_wf [of "as_view p"] c by simp
  define b where "b = show_body (Canon a u ns)"
  define b' where "b' = show_body (Canon a u (ns @ [n]))"
  have b': "b' = (if b \<noteq> [] then b @ [CHR ''/''] else b) @ n"
    unfolding b_def b'_def by (rule show_body_snoc [OF wf])
  have n0: "n \<noteq> []" using n by (simp add: valid_name_def)
  have sc: "show_canon (Canon a u ms) =
      (if a then CHR ''/'' # show_body (Canon a u ms)
       else if show_body (Canon a u ms) = [] then ''.'' else show_body (Canon a u ms))" for ms
    by (simp only: show_canon_def canon.sel)
  have p: "as_view p = (if a then CHR ''/'' # b else if b = [] then ''.'' else b)"
    unfolding b_def sc [symmetric] using can c by (simp add: canonical_def normalize_eq)
  have "canonical (join win p n)" by (rule canonical_join)
  then have "as_view (join win p n) = (if a then CHR ''/'' # b' else if b' = [] then ''.'' else b')"
    unfolding b'_def sc [symmetric] using canon_of_join_name [OF assms, of win] c
    by (simp add: canonical_def normalize_eq)
  then have j: "as_view (join win p n) =
      (if a then [CHR ''/''] else []) @ (if b \<noteq> [] then b @ [CHR ''/''] else b) @ n"
    using n0 by (simp add: b')
  have sl: "CHR ''/'' \<notin> set n" using n by (simp add: valid_name_def)
  have "as_view (parent (join win p n)) = as_view p"
  proof (cases "b = []")
    case True
    then show ?thesis
      using sl j p find_last_of_None [THEN iffD2, OF sl]
      by (cases a) (simp_all add: parent_def)
  next
    case False
    then have f: "find_last_of (CHR ''/'') (as_view (join win p n)) =
        Some (length ((if a then [CHR ''/''] else []) @ b))"
      using find_last_of_append [OF sl, of "(if a then [CHR ''/''] else []) @ b"] j by simp
    show ?thesis
      using False j p f by (simp add: parent_def substr_def)
  qed
  then show ?thesis by (rule path.expand)
qed


subsection \<open>The interface the package and module resolvers use\<close>

text \<open>
  The clients of paths (package directories, module directories, source files) never look
  at the bytes of a path: they join names, go back up, and compare. This is what they rely on.
\<close>

locale canonical_paths =
  fixes pjoin :: "'p \<Rightarrow> string \<Rightarrow> 'p"
    and up :: "'p \<Rightarrow> 'p"
    and ok :: "'p \<Rightarrow> bool"
    and name_ok :: "string \<Rightarrow> bool"
  assumes ok_join: "ok p \<Longrightarrow> ok (pjoin p s)"
    and up_join: "ok p \<Longrightarrow> name_ok n \<Longrightarrow> up (pjoin p n) = p"
    and join_nested: "ok p \<Longrightarrow> pjoin (pjoin p a) b = pjoin p (a @ CHR ''/'' # b)"
begin

lemma chain_ok: "ok p \<Longrightarrow> ok (foldl pjoin p ns)"
  by (induction ns arbitrary: p) (simp_all add: ok_join)

lemma up_chain:
  "ok p \<Longrightarrow> list_all name_ok ns \<Longrightarrow> (up ^^ length ns) (foldl pjoin p ns) = p"
proof (induction ns rule: rev_induct)
  case (snoc n ns)
  then have "up (foldl pjoin p (ns @ [n])) = foldl pjoin p ns"
    by (simp add: chain_ok up_join)
  with snoc show ?case by (simp add: funpow_swap1)
qed simp

lemma chain_join:
  "ok p \<Longrightarrow> foldl pjoin (pjoin p n) ns = pjoin p (join_with (CHR ''/'') (n # ns))"
proof (induction ns arbitrary: n)
  case (Cons m ns)
  have "foldl pjoin (pjoin p n) (m # ns) = foldl pjoin (pjoin p (n @ CHR ''/'' # m)) ns"
    by (simp add: join_nested Cons.prems)
  also have "\<dots> = pjoin p (join_with (CHR ''/'') ((n @ CHR ''/'' # m) # ns))"
    by (rule Cons.IH [OF Cons.prems])
  finally show ?case by (cases ns) simp_all
qed simp

lemma siblings_differ:
  "ok p \<Longrightarrow> ok q \<Longrightarrow> name_ok n \<Longrightarrow> name_ok m \<Longrightarrow> pjoin p n = pjoin q m \<Longrightarrow> p = q"
  by (metis up_join)

end

definition simple_name :: "string \<Rightarrow> bool" where
  "simple_name n \<longleftrightarrow> valid_name n \<and> kWindowsPathSeparator \<notin> set n"

interpretation paths: canonical_paths "join win" parent canonical simple_name for win
  by unfold_locales
     (simp_all add: canonical_join join_join parent_join_name simple_name_def)

subsection \<open>The properties\<close>

text \<open>
  C20. \<^verbatim>\<open>normalize_canonical\<close> prints the structured value of its input: the loop with its
  output string and offset stack computes exactly the fold of \<open>canon_step\<close> over the
  segments, for absolute and relative inputs alike, and that value is well formed (no empty,
  \<^verbatim>\<open>.\<close> or inner \<^verbatim>\<open>..\<close> segment survives, and an absolute path keeps no \<^verbatim>\<open>..\<close> at all).
\<close>

theorem normalize_canonical_spec:
  "normalize_canonical p = show_canon (canon_of p) \<and> wf_canon (canon_of p)"
  by (simp add: normalize_eq)



text \<open>
  \<^verbatim>\<open>Path::join\<close> continues the segment fold of the base with the segments of the child
  (so an absolute-looking child never resets the base), keeps the base absolute or relative,
  and nested joins are one join of the slash-separated children.
\<close>

theorem join_spec:
  assumes "canonical p"
  shows "canonical (join win p s) \<and>
    canon_of (as_view (join win p s)) =
      foldl canon_step (canon_of (as_view p)) (split_at (CHR ''/'') (native win s)) \<and>
    is_absolute (join win p s) = is_absolute p \<and>
    join win (join win p s) t = join win p (s @ CHR ''/'' # t)"
proof -
  have abs: "is_absolute q \<longleftrightarrow> c_abs (canon_of (as_view q))" for q
    by (simp add: is_absolute_def canon_of_abs)
  show ?thesis
    using assms canon_fold_wf [OF canon_of_wf]
    by (simp add: abs canonical_join canon_of_join paths.join_nested)
qed

theorem join_spec_witness:
  "join False (join False (Path ''/pkg'') ''../dep'') ''alcy.toml''
     = join False (Path ''/pkg'') (''../dep'' @ CHR ''/'' # ''alcy.toml'')"
proof -
  have "canonical (Path ''/pkg'')" unfolding canonical_def by code_simp
  from join_spec [OF this] show ?thesis by blast
qed

text \<open>
  Going up undoes going down: from any canonical directory, joining a chain of simple
  names and taking \<^verbatim>\<open>parent\<close> once per name returns the directory, on either platform.
\<close>

theorem parent_chain:
  assumes "canonical p" and "list_all simple_name ns"
  shows "(parent ^^ length ns) (foldl (join win) p ns) = p"
  using assms by (rule paths.up_chain)

theorem parent_chain_witness:
  "(parent ^^ 2) (foldl (join True) (Path ''..'') [''src'', ''main.al'']) = Path ''..''"
proof -
  have "canonical (Path ''..'')" unfolding canonical_def by code_simp
  moreover have "list_all simple_name [''src'', ''main.al'']"
    by (simp add: simple_name_def valid_name_def kWindowsPathSeparator_def)
  ultimately show ?thesis
    using parent_chain [of "Path ''..''" "[''src'', ''main.al'']" True]
    by (simp add: numeral_2_eq_2)
qed

end
