(* ===== verification/Source_Files.thy ===== *)
theory Source_Files
  imports Prelude
begin

text \<open>
  The source file registry (\<^verbatim>\<open>src/source/source.h\<close>, \<^verbatim>\<open>src/source/source.cc\<close>): a table of
  loaded files with stable ids. The file handles and memory maps come from a library that is
  not part of the repository, so they are the record \<open>io\<close> of three parameters: opening a
  path, the size of a handle, and mapping a number of bytes of it. A file of size zero is
  never mapped. The C++ member \<^verbatim>\<open>load\<close> mutates the table; here it returns the new one.
\<close>

type_synonym file_id = u32

definition kUnknownFile :: file_id where
  "kUnknownFile = - 1"

datatype source_error = OpenFailed | MapFailed

record 'h io =
  io_open :: "string \<Rightarrow> 'h option"
  io_size :: "'h \<Rightarrow> nat"
  io_map :: "'h \<Rightarrow> nat \<Rightarrow> string option"

record entry =
  mapping :: "string option"
  entry_path :: string

type_synonym source_manager = "entry list"

fun find_entry :: "entry list \<Rightarrow> string \<Rightarrow> nat \<Rightarrow> nat option" where
  "find_entry [] path i = None"
| "find_entry (e # es) path i =
     (if entry_path e = path then Some i else find_entry es path (Suc i))"

definition load ::
  "'h io \<Rightarrow> source_manager \<Rightarrow> string \<Rightarrow> (source_error + file_id) \<times> source_manager" where
  "load fs sm path =
     (case find_entry (take (unat (of_nat (length sm) :: file_id)) sm) path 0 of
        Some i \<Rightarrow> (Inr (of_nat i), sm)
      | None \<Rightarrow>
         (case io_open fs path of
            None \<Rightarrow> (Inl OpenFailed, sm)
          | Some h \<Rightarrow>
             (let size = io_size fs h in
              if size > 0 then
                (case io_map fs h size of
                   None \<Rightarrow> (Inl MapFailed, sm)
                 | Some b \<Rightarrow>
                     (Inr (of_nat (length sm)), sm @ [\<lparr>mapping = Some b, entry_path = path\<rparr>]))
              else (Inr (of_nat (length sm)), sm @ [\<lparr>mapping = None, entry_path = path\<rparr>]))))"

definition bytes_of :: "source_manager \<Rightarrow> file_id \<Rightarrow> string" where
  "bytes_of sm fid =
     (if unat fid \<ge> length sm then []
      else (case mapping (sm ! unat fid) of None \<Rightarrow> [] | Some b \<Rightarrow> b))"

definition name_of :: "source_manager \<Rightarrow> file_id \<Rightarrow> string" where
  "name_of sm fid = (if unat fid \<ge> length sm then [] else entry_path (sm ! unat fid))"

definition file_count :: "source_manager \<Rightarrow> nat" where
  "file_count sm = length sm"

subsection \<open>Facts about the table\<close>

text \<open>The invariant: no path is listed twice, and every id fits.\<close>

definition sm_inv :: "source_manager \<Rightarrow> bool" where
  "sm_inv sm \<longleftrightarrow> distinct (map entry_path sm) \<and> length sm < 2 ^ 32"

lemma find_entry_Some:
  "find_entry es p i = Some j \<Longrightarrow> i \<le> j \<and> j < i + length es \<and> entry_path (es ! (j - i)) = p"
proof (induction es p i rule: find_entry.induct)
  case (2 e es p i)
  show ?case
  proof (cases "entry_path e = p")
    case False
    with 2 have "Suc i \<le> j \<and> j < Suc i + length es \<and> entry_path (es ! (j - Suc i)) = p" by simp
    moreover from this obtain m where "j = Suc i + m" using le_Suc_ex by blast
    ultimately show ?thesis by simp
  qed (use 2 in auto)
qed simp

lemma find_entry_None: "find_entry es p i = None \<longleftrightarrow> p \<notin> set (map entry_path es)"
  by (induction es p i rule: find_entry.induct) auto

lemma find_entry_nth:
  "distinct (map entry_path es) \<Longrightarrow> k < length es \<Longrightarrow> find_entry es (entry_path (es ! k)) i = Some (i + k)"
proof (induction es arbitrary: i k)
  case (Cons e es)
  show ?case
  proof (cases k)
    case (Suc k')
    with Cons.prems have "entry_path e \<noteq> entry_path (es ! k')" by auto
    with Suc Cons show ?thesis by simp
  qed simp
qed simp

lemma unat_of_nat_len [simp]: "n < 2 ^ 32 \<Longrightarrow> unat (of_nat n :: u32) = n"
  by (simp add: unat_of_nat)

lemma load_hit:
  "sm_inv sm \<Longrightarrow> k < length sm \<Longrightarrow> load fs sm (entry_path (sm ! k)) = (Inr (of_nat k), sm)"
  by (simp add: load_def sm_inv_def find_entry_nth)

lemma load_cases:
  assumes "sm_inv sm" and "load fs sm path = (r, sm')"
  shows "(\<exists>k < length sm. entry_path (sm ! k) = path \<and> r = Inr (of_nat k) \<and> sm' = sm) \<or>
    (path \<notin> set (map entry_path sm) \<and> (\<exists>e. r = Inl e) \<and> sm' = sm) \<or>
    (path \<notin> set (map entry_path sm) \<and> r = Inr (of_nat (length sm)) \<and>
     (\<exists>b. sm' = sm @ [\<lparr>mapping = b, entry_path = path\<rparr>]))"
proof (cases "path \<in> set (map entry_path sm)")
  case True
  then obtain k where "k < length sm" and "entry_path (sm ! k) = path"
    by (auto simp: in_set_conv_nth)
  with load_hit [OF assms(1), of k fs] assms(2) show ?thesis by auto
next
  case False
  then have "find_entry sm path 0 = None" by (simp add: find_entry_None)
  with assms False show ?thesis
    by (auto simp: load_def sm_inv_def Let_def split: option.splits if_splits)
qed

lemma load_ext: "sm_inv sm \<Longrightarrow> load fs sm path = (r, sm') \<Longrightarrow> \<exists>es. sm' = sm @ es"
  by (drule load_cases) auto

lemma load_ok:
  assumes "sm_inv sm" and "load fs sm path = (Inr fid, sm')" and "length sm < 2 ^ 32 - 1"
  shows "sm_inv sm' \<and> name_of sm' fid = path \<and> unat fid < length sm'"
  using load_cases [OF assms(1,2)] assms(1,3)
  by (auto simp: sm_inv_def name_of_def)

text \<open>
  A load that succeeds returns the id under which the path is registered: the name of
  that id is the path, loading the path again, even from a changed file system, returns the
  same id and touches nothing, and the names and bytes of all older ids stay as they were. A
  path that was not registered gets the next free id.
\<close>

theorem load_registers:
  assumes "sm_inv sm" and "file_count sm < 2 ^ 32 - 1" and "load fs sm path = (Inr fid, sm')"
  shows "sm_inv sm' \<and> name_of sm' fid = path \<and> load fs' sm' path = (Inr fid, sm') \<and>
    (\<forall>i. unat i < file_count sm \<longrightarrow> name_of sm' i = name_of sm i \<and> bytes_of sm' i = bytes_of sm i) \<and>
    (path \<notin> set (map entry_path sm) \<longrightarrow>
       unat fid = file_count sm \<and> file_count sm' = Suc (file_count sm))"
proof -
  have ok: "sm_inv sm'" "name_of sm' fid = path" "unat fid < length sm'"
    using load_ok [OF assms(1,3)] assms(2) by (auto simp: file_count_def)
  obtain es where es: "sm' = sm @ es" using load_ext [OF assms(1,3)] by blast
  have "entry_path (sm' ! unat fid) = path" using ok(2,3) by (simp add: name_of_def)
  with load_hit [OF ok(1,3), of fs'] have again: "load fs' sm' path = (Inr fid, sm')" by simp
  have "unat fid = length sm \<and> length sm' = Suc (length sm)" if "path \<notin> set (map entry_path sm)"
    using load_cases [OF assms(1,3)] that assms(2) by (auto simp: file_count_def)
  with ok again show ?thesis
    by (auto simp: es name_of_def bytes_of_def file_count_def nth_append)
qed

definition demo_io :: "string io" where
  "demo_io = \<lparr>io_open = (\<lambda>p. if p = ''a.alcy'' then Some ''fn'' else None), io_size = length,
     io_map = (\<lambda>h n. Some (take n h))\<rparr>"

theorem load_registers_witness:
  "name_of [\<lparr>mapping = Some ''fn'', entry_path = ''a.alcy''\<rparr>] 0 = ''a.alcy'' \<and>
   load demo_io [\<lparr>mapping = Some ''fn'', entry_path = ''a.alcy''\<rparr>] ''a.alcy'' =
     (Inr 0, [\<lparr>mapping = Some ''fn'', entry_path = ''a.alcy''\<rparr>])"
proof -
  have "load demo_io [] ''a.alcy'' = (Inr 0, [\<lparr>mapping = Some ''fn'', entry_path = ''a.alcy''\<rparr>])"
    by (simp add: load_def demo_io_def)
  from load_registers [OF _ _ this, of demo_io] show ?thesis by (simp add: sm_inv_def file_count_def)
qed

end
