(* ===== verification/Diag.thy ===== *)
theory Diag
  imports Source_Files "HOL-Library.Sublist"
begin

text \<open>
  Spans, diagnostics and the bag that gathers them (\<^verbatim>\<open>src/diag/span.h\<close>,
  \<^verbatim>\<open>src/diag/diagnostic.h\<close>, \<^verbatim>\<open>src/diag/bag.h\<close>, \<^verbatim>\<open>src/diag/bag.cc\<close>). The arena
  that backs the bag is caller-reserved library code and its allocations do not fail, so the
  entries are a list in emission order; the capacity that the array grows by doubling and the
  two counters keep their 32-bit width. The size is the length of the list at that width.
  Messages arrive composed: the formatting library only substitutes strings and decimals.
\<close>

record span =
  span_file :: file_id
  span_offset :: u32
  span_length :: u32

definition empty_span :: span where
  "empty_span = \<lparr>span_file = kUnknownFile, span_offset = 0, span_length = 0\<rparr>"

datatype severity = SevNote | SevWarning | SevError

record label =
  label_span :: span
  label_message :: string

record diagnostic =
  diag_severity :: severity
  diag_code :: u32
  diag_message :: string
  has_primary_span :: bool
  primary_span :: span
  diag_labels :: "label list"

record diag_bag =
  entries :: "diagnostic list"
  bag_capacity :: u32
  error_count :: u32
  warning_count :: u32

definition empty_bag :: diag_bag where
  "empty_bag = \<lparr>entries = [], bag_capacity = 0, error_count = 0, warning_count = 0\<rparr>"

definition kInitialCapacity :: u32 where
  "kInitialCapacity = 8"

definition bag_size :: "diag_bag \<Rightarrow> u32" where
  "bag_size b = of_nat (length (entries b))"

definition push :: "severity \<Rightarrow> u32 \<Rightarrow> span \<Rightarrow> bool \<Rightarrow> string \<Rightarrow> diag_bag \<Rightarrow> u32 \<times> diag_bag" where
  "push sev code primary has_primary message b =
     (let grown = (if bag_capacity b = 0 then kInitialCapacity else bag_capacity b * 2);
          cap = (if bag_size b = bag_capacity b then grown else bag_capacity b);
          slot = \<lparr>diag_severity = sev, diag_code = code, diag_message = message,
                  has_primary_span = has_primary, primary_span = primary, diag_labels = []\<rparr>
      in (bag_size b,
          b\<lparr>entries := entries b @ [slot], bag_capacity := cap,
            error_count := (if sev = SevError then error_count b + 1 else error_count b),
            warning_count :=
              (if sev = SevError then warning_count b
               else if sev = SevWarning then warning_count b + 1 else warning_count b)\<rparr>))"

text \<open>The two overloads of \<^verbatim>\<open>emit\<close>: without and with a primary span.\<close>

definition emit :: "severity \<Rightarrow> u32 \<Rightarrow> string \<Rightarrow> diag_bag \<Rightarrow> diag_bag" where
  "emit sev code message b = snd (push sev code empty_span False message b)"

definition emit_at :: "severity \<Rightarrow> u32 \<Rightarrow> span \<Rightarrow> string \<Rightarrow> diag_bag \<Rightarrow> diag_bag" where
  "emit_at sev code primary message b = snd (push sev code primary True message b)"

text \<open>An index past the end is the \<^verbatim>\<open>DCHECK\<close> failure \<open>None\<close>.\<close>

definition diag_at :: "diag_bag \<Rightarrow> u32 \<Rightarrow> diagnostic option" where
  "diag_at b i = (if i < bag_size b then Some (entries b ! unat i) else None)"

definition add_labels :: "diag_bag \<Rightarrow> u32 \<Rightarrow> label list \<Rightarrow> diag_bag option" where
  "add_labels b i ls =
     (if \<not> i < bag_size b then None
      else if ls = [] then Some b
      else Some (b\<lparr>entries := (entries b)[unat i := (entries b ! unat i)\<lparr>diag_labels := ls\<rparr>]\<rparr>))"

definition has_errors :: "diag_bag \<Rightarrow> bool" where
  "has_errors b \<longleftrightarrow> error_count b > 0"

subsection \<open>The invariant of a bag\<close>

definition is_error :: "diagnostic \<Rightarrow> bool" where
  "is_error d \<longleftrightarrow> diag_severity d = SevError"

definition is_warning :: "diagnostic \<Rightarrow> bool" where
  "is_warning d \<longleftrightarrow> diag_severity d = SevWarning"

definition bag_inv :: "diag_bag \<Rightarrow> bool" where
  "bag_inv b \<longleftrightarrow>
     error_count b = of_nat (length (filter is_error (entries b))) \<and>
     warning_count b = of_nat (length (filter is_warning (entries b)))"

text \<open>
  The capacity: while fewer than \<open>2 ^ 31\<close> diagnostics were emitted, the array always has
  room for what it holds, and the capacity is zero or a power of two times eight.
\<close>

definition bag_cap_inv :: "diag_bag \<Rightarrow> bool" where
  "bag_cap_inv b \<longleftrightarrow> length (entries b) \<le> unat (bag_capacity b) \<and>
     (unat (bag_capacity b) = 0 \<or> (\<exists>k \<le> 28. unat (bag_capacity b) = 8 * 2 ^ k))"

definition mk_diag :: "severity \<Rightarrow> u32 \<Rightarrow> span option \<Rightarrow> string \<Rightarrow> diagnostic" where
  "mk_diag sev code sp message =
     \<lparr>diag_severity = sev, diag_code = code, diag_message = message,
      has_primary_span = (sp \<noteq> None),
      primary_span = (case sp of None \<Rightarrow> empty_span | Some s \<Rightarrow> s), diag_labels = []\<rparr>"

lemma entries_push [simp]:
  "entries (snd (push sev code sp h m b)) = entries b @
     [\<lparr>diag_severity = sev, diag_code = code, diag_message = m,
       has_primary_span = h, primary_span = sp, diag_labels = []\<rparr>]"
  by (simp add: push_def Let_def)

lemma entries_emit [simp]: "entries (emit sev code m b) = entries b @ [mk_diag sev code None m]"
  by (simp add: emit_def mk_diag_def)

lemma entries_emit_at [simp]:
  "entries (emit_at sev code sp m b) = entries b @ [mk_diag sev code (Some sp) m]"
  by (simp add: emit_at_def mk_diag_def)

lemma mk_diag_sel [simp]:
  "diag_severity (mk_diag sev code sp m) = sev" "diag_code (mk_diag sev code sp m) = code"
  "diag_message (mk_diag sev code sp m) = m"
  "has_primary_span (mk_diag sev code sp m) = (sp \<noteq> None)"
  "primary_span (mk_diag sev code (Some s) m) = s"
  by (simp_all add: mk_diag_def)

lemma is_error_mk [simp]: "is_error (mk_diag sev code sp m) \<longleftrightarrow> sev = SevError"
  by (simp add: is_error_def)

lemma is_warning_mk [simp]: "is_warning (mk_diag sev code sp m) \<longleftrightarrow> sev = SevWarning"
  by (simp add: is_warning_def)

lemma bag_inv_empty [simp]: "bag_inv empty_bag"
  by (simp add: bag_inv_def empty_bag_def)

lemma bag_inv_push: "bag_inv b \<Longrightarrow> bag_inv (snd (push sev code sp h m b))"
  by (cases sev) (simp_all add: bag_inv_def push_def Let_def is_error_def is_warning_def)

lemma bag_inv_emit [simp, intro]: "bag_inv b \<Longrightarrow> bag_inv (emit sev code m b)"
  by (simp add: emit_def bag_inv_push)

lemma bag_inv_emit_at [simp, intro]: "bag_inv b \<Longrightarrow> bag_inv (emit_at sev code sp m b)"
  by (simp add: emit_at_def bag_inv_push)

lemma filter_relabel:
  "i < length ds \<Longrightarrow> length (filter P (ds[i := d])) = length (filter P ds)"
  if "P d = P (ds ! i)" for P
  using that
proof (induction ds arbitrary: i)
  case (Cons x ds)
  then show ?case by (cases i) auto
qed simp

lemma bag_inv_add_labels: "bag_inv b \<Longrightarrow> add_labels b i ls = Some b' \<Longrightarrow> length (entries b) < 2 ^ 32 \<Longrightarrow> bag_inv b'"
proof -
  assume inv: "bag_inv b" and "add_labels b i ls = Some b'" and n: "length (entries b) < 2 ^ 32"
  then have "b' = b \<or> (i < bag_size b \<and>
      b' = b\<lparr>entries := (entries b)[unat i := (entries b ! unat i)\<lparr>diag_labels := ls\<rparr>]\<rparr>)"
    by (auto simp: add_labels_def split: if_splits)
  then show ?thesis
  proof
    assume h: "i < bag_size b \<and>
      b' = b\<lparr>entries := (entries b)[unat i := (entries b ! unat i)\<lparr>diag_labels := ls\<rparr>]\<rparr>"
    then have "unat i < length (entries b)"
      using n by (simp add: bag_size_def word_less_nat_alt)
    with h inv show ?thesis
      by (simp add: bag_inv_def filter_relabel is_error_def is_warning_def)
  qed (use inv in simp)
qed


lemma bag_cap_inv_empty [simp]: "bag_cap_inv empty_bag"
  by (simp add: bag_cap_inv_def empty_bag_def)

lemma bag_cap_inv_push:
  assumes inv: "bag_cap_inv b" and n: "length (entries b) < 2 ^ 31"
  shows "bag_cap_inv (snd (push sev code sp h m b))"
proof -
  let ?n = "length (entries b)" and ?c = "bag_capacity b"
  have cap: "bag_capacity (snd (push sev code sp h m b)) =
      (if of_nat ?n = ?c then (if ?c = 0 then 8 else ?c * 2) else ?c)"
    by (simp add: push_def Let_def bag_size_def kInitialCapacity_def)
  have len: "length (entries (snd (push sev code sp h m b))) = Suc ?n" by simp
  have le: "?n \<le> unat ?c" using inv by (simp add: bag_cap_inv_def)
  show ?thesis
  proof (cases "of_nat ?n = ?c")
    case False
    then have "?n \<noteq> unat ?c" by auto
    with le have "Suc ?n \<le> unat ?c" by simp
    with False inv show ?thesis unfolding bag_cap_inv_def cap len by simp
  next
    case full: True
    have "?n < 2 ^ 32" using n by simp
    then have "unat (of_nat ?n :: u32) = ?n" by (rule unat_of_nat_len)
    with full have nc: "?n = unat ?c" by simp
    show ?thesis
    proof (cases "?c = 0")
      case True
      then have "(\<exists>k \<le> 28. unat (8 :: u32) = 8 * 2 ^ k)" by (intro exI [of _ 0]) simp
      with True full nc show ?thesis unfolding bag_cap_inv_def cap len by simp
    next
      case False
      then have "unat ?c \<noteq> 0" by (simp add: unat_eq_zero)
      with inv obtain k where k: "k \<le> 28" "unat ?c = 8 * 2 ^ k" by (auto simp: bag_cap_inv_def)
      have "(8::nat) * 2 ^ k < 8 * 2 ^ 28" using n nc k(2) by simp
      then have "(2::nat) ^ k < 2 ^ 28" by simp
      then have "k < 28" by (rule power_less_imp_less_exp [rotated]) simp
      then have k28: "(2::nat) ^ k \<le> 2 ^ 27" by (intro power_increasing) simp_all
      have "unat (?c * 2) = unat ?c * 2"
        using k28 k(2) by (simp add: unat_word_ariths)
      then have "unat (?c * 2) = 8 * 2 ^ Suc k" and "Suc ?n \<le> unat (?c * 2)"
        using k(2) nc by (simp_all add: Suc_le_eq)
      moreover have "Suc k \<le> 28" using \<open>k < 28\<close> by simp
      ultimately have "bag_cap_inv (b\<lparr>bag_capacity := ?c * 2\<rparr>)" and "Suc ?n \<le> unat (?c * 2)"
        using nc unfolding bag_cap_inv_def by (auto intro: exI [of _ "Suc k"])
      then show ?thesis using False full unfolding bag_cap_inv_def cap len by simp
    qed
  qed
qed

subsection \<open>What the phases rely on\<close>

text \<open>
  A phase only ever reports: it never looks into the bag, removes or reorders. One report
  appends one diagnostic, so a phase leaves what was there before as a prefix, and an error
  reported anywhere on the way is still there at the end.
\<close>

locale diag_sink =
  fixes report :: "severity \<Rightarrow> u32 \<Rightarrow> span option \<Rightarrow> string \<Rightarrow> 'b \<Rightarrow> 'b"
    and reported :: "'b \<Rightarrow> diagnostic list"
  assumes reported_report: "reported (report sev code sp m b) = reported b @ [mk_diag sev code sp m]"
begin

lemma report_prefix: "prefix (reported b) (reported (report sev code sp m b))"
  by (simp add: reported_report)

lemma report_extends: "prefix ds (reported b) \<Longrightarrow> prefix ds (reported (report sev code sp m b))"
  by (simp add: reported_report)

lemma errors_stay:
  "prefix (reported b) (reported b') \<Longrightarrow> \<exists>d \<in> set (reported b). is_error d \<Longrightarrow>
   \<exists>d \<in> set (reported b'). is_error d"
  by (meson set_mono_prefix subsetD)

lemma report_error: "\<exists>d \<in> set (reported (report SevError code sp m b)). is_error d"
  by (simp add: reported_report)

lemma report_all:
  "reported (fold (\<lambda>(sev, code, sp, m). report sev code sp m) rs b) =
   reported b @ map (\<lambda>(sev, code, sp, m). mk_diag sev code sp m) rs"
  by (induction rs arbitrary: b) (auto simp: reported_report)

end

text \<open>The one function behind both overloads, and the bag as a sink.\<close>

definition emit_opt :: "severity \<Rightarrow> u32 \<Rightarrow> span option \<Rightarrow> string \<Rightarrow> diag_bag \<Rightarrow> diag_bag" where
  "emit_opt sev code sp m b =
     (case sp of None \<Rightarrow> emit sev code m b | Some s \<Rightarrow> emit_at sev code s m b)"

interpretation bag: diag_sink emit_opt entries
  by unfold_locales (simp add: emit_opt_def split: option.split)

lemma has_errors_iff:
  assumes "bag_inv b" and "length (entries b) < 2 ^ 32"
  shows "has_errors b \<longleftrightarrow> (\<exists>d \<in> set (entries b). is_error d)"
proof -
  let ?k = "length (filter is_error (entries b))"
  have "?k < 2 ^ 32"
    using assms(2) length_filter_le [of is_error "entries b"] by linarith
  then have k: "unat (of_nat ?k :: u32) = ?k" by (rule unat_of_nat_len)
  have "error_count b = of_nat ?k" using assms(1) by (simp add: bag_inv_def)
  then have "has_errors b \<longleftrightarrow> ?k \<noteq> 0"
    using k by (metis has_errors_def neq0_conv unat_0 unat_gt_0 word_neq_0_conv)
  then show ?thesis by (auto simp: filter_empty_conv)
qed


subsection \<open>The property\<close>

text \<open>
  Emitting into the bag: the returned index addresses exactly the new diagnostic, every
  index handed out before still addresses the same diagnostic, both counters agree with the
  list, and the doubling array has room for it. This is what lets callers keep bare
  \<^verbatim>\<open>u32\<close> indices across reallocation.
\<close>

theorem push_spec:
  assumes "bag_inv b" and "bag_cap_inv b" and "length (entries b) < 2 ^ 31"
  shows "diag_at (snd (push sev code sp h m b)) (fst (push sev code sp h m b)) =
      Some \<lparr>diag_severity = sev, diag_code = code, diag_message = m,
            has_primary_span = h, primary_span = sp, diag_labels = []\<rparr> \<and>
    (\<forall>i d. diag_at b i = Some d \<longrightarrow> diag_at (snd (push sev code sp h m b)) i = Some d) \<and>
    bag_inv (snd (push sev code sp h m b)) \<and> bag_cap_inv (snd (push sev code sp h m b))"
proof -
  let ?n = "length (entries b)" and ?b' = "snd (push sev code sp h m b)"
  have n: "unat (of_nat ?n :: u32) = ?n" "unat (of_nat (Suc ?n) :: u32) = Suc ?n"
    using assms(3) by (intro unat_of_nat_len, simp)+
  have sz: "bag_size b = of_nat ?n" "bag_size ?b' = of_nat (Suc ?n)"
    by (simp_all add: bag_size_def)
  have fst: "fst (push sev code sp h m b) = of_nat ?n" by (simp add: push_def Let_def bag_size_def)
  have lt: "(of_nat ?n :: u32) < of_nat (Suc ?n)" unfolding word_less_nat_alt n by simp
  then have new: "diag_at ?b' (of_nat ?n) = Some (entries ?b' ! ?n)"
    by (simp only: diag_at_def sz n if_True)
  have old: "diag_at b i = Some d \<longrightarrow> diag_at ?b' i = Some d" for i d
  proof
    assume "diag_at b i = Some d"
    then have "unat i < ?n" and d: "d = entries b ! unat i"
      unfolding diag_at_def sz word_less_nat_alt n by (auto split: if_splits)
    moreover from this have "i < of_nat (Suc ?n)" unfolding word_less_nat_alt n by simp
    ultimately show "diag_at ?b' i = Some d"
      unfolding diag_at_def sz by (simp add: nth_append)
  qed
  show ?thesis
    unfolding fst new using old bag_inv_push [OF assms(1)] bag_cap_inv_push [OF assms(2,3)]
    by simp
qed

theorem push_spec_witness:
  "diag_at (snd (push SevWarning 4204 empty_span False ''w'' (emit SevError 7 ''e'' empty_bag))) 0
     = Some (mk_diag SevError 7 None ''e'')"
proof -
  let ?b = "emit SevError 7 ''e'' empty_bag"
  have "bag_inv ?b" "bag_cap_inv ?b" "length (entries ?b) < 2 ^ 31"
    by (simp_all add: emit_def bag_inv_push bag_cap_inv_push empty_bag_def)
       (simp_all add: bag_inv_def bag_cap_inv_push bag_cap_inv_def push_def Let_def bag_size_def
         kInitialCapacity_def is_error_def is_warning_def exI [of _ 0])
  from push_spec [OF this, of SevWarning 4204 empty_span False "''w''"]
  show ?thesis by (simp add: diag_at_def bag_size_def empty_bag_def)
qed

end
