(* ===== verification/Render.thy ===== *)
theory Render
  imports Diag
begin

text \<open>
  Rendering one diagnostic (\<^verbatim>\<open>src/diag/render.h\<close>, \<^verbatim>\<open>src/diag/render.cc\<close>). Lines, columns
  and caret arithmetic are 32-bit, as in the code. The output buffer is the returned string.
  The coloured form goes through the formatting library, so the styled severity is a
  parameter \<open>paint\<close>; a missing fetch callback is \<open>None\<close>.
\<close>

record source_text =
  st_name :: string
  st_bytes :: string

record line_info =
  li_line :: u32
  li_col :: u32
  li_text :: string

definition severity_text :: "severity \<Rightarrow> string" where
  "severity_text s = (case s of SevError \<Rightarrow> ''error'' | SevWarning \<Rightarrow> ''warning'' | SevNote \<Rightarrow> ''note'')"

definition severity_code :: "severity \<Rightarrow> char" where
  "severity_code s = (case s of SevError \<Rightarrow> CHR ''E'' | SevWarning \<Rightarrow> CHR ''W'' | SevNote \<Rightarrow> CHR ''N'')"

text \<open>The first loop of \<^verbatim>\<open>locate\<close>: count newlines before the offset and remember the last line start.\<close>

function locate_lines :: "string \<Rightarrow> nat \<Rightarrow> nat \<Rightarrow> u32 \<Rightarrow> u32 \<Rightarrow> u32 \<times> u32" where
  "locate_lines bytes i offset line line_start =
     (if i < offset then
        (if bytes ! i = newline
         then locate_lines bytes (Suc i) offset (line + 1) (of_nat (Suc i))
         else locate_lines bytes (Suc i) offset line line_start)
      else (line, line_start))"
  by pat_completeness auto
termination
  by (relation "measure (\<lambda>(b, i, offset, l, s). offset - i)") auto

declare locate_lines.simps [simp del]

definition clamp_offset :: "string \<Rightarrow> u32 \<Rightarrow> u32" where
  "clamp_offset bytes offset =
     (if unat offset > length bytes then of_nat (length bytes) else offset)"

definition locate :: "string \<Rightarrow> u32 \<Rightarrow> line_info" where
  "locate bytes offset0 =
     (let offset = clamp_offset bytes offset0;
          (line, line_start) = locate_lines bytes 0 (unat offset) 1 0;
          line_end = scan_while (\<lambda>c. c \<noteq> newline)
                       (take (unat (of_nat (length bytes) :: u32)) bytes) (unat line_start)
      in \<lparr>li_line = line, li_col = offset - line_start + 1,
          li_text = substr bytes (unat line_start) (line_end - unat line_start)\<rparr>)"

function decimal_width_loop :: "u32 \<Rightarrow> u32 \<Rightarrow> u32" where
  "decimal_width_loop value width =
     (if value \<ge> 10 then decimal_width_loop (value div 10) (width + 1) else width)"
  by pat_completeness auto
termination
  by (relation "measure (\<lambda>(v, w). unat v)") (auto simp: unat_div word_le_nat_alt)

definition decimal_width :: "u32 \<Rightarrow> u32" where
  "decimal_width value = decimal_width_loop value 1"

definition write_gutter :: "u32 \<Rightarrow> string" where
  "write_gutter width = replicate (unat width) (CHR '' '') @ '' |''"

definition display_name :: "source_text \<Rightarrow> string" where
  "display_name s = (if st_name s = [] then ''[unknown file]'' else st_name s)"

definition fetch_text :: "(file_id \<Rightarrow> source_text) option \<Rightarrow> file_id \<Rightarrow> source_text" where
  "fetch_text fetch fid =
     (case fetch of None \<Rightarrow> \<lparr>st_name = [], st_bytes = []\<rparr> | Some f \<Rightarrow> f fid)"

definition render_header :: "(severity \<Rightarrow> string \<Rightarrow> string) \<Rightarrow> bool \<Rightarrow> diagnostic \<Rightarrow> string" where
  "render_header paint color d =
     (let sev = severity_text (diag_severity d)
      in (if color then paint (diag_severity d) sev else sev) @
         ''['' @ [severity_code (diag_severity d)] @ dec32 (diag_code d) @ '']: '' @
         diag_message d @ [newline])"

definition caret_count :: "string \<Rightarrow> u32 \<Rightarrow> u32 \<Rightarrow> u32" where
  "caret_count bytes offset len =
     (let info = locate bytes offset;
          line_offset = clamp_offset bytes offset;
          line_start = line_offset - (li_col info - 1);
          line_end = line_start + of_nat (length (li_text info));
          caret_end0 = line_offset + len;
          caret_end = (if caret_end0 > line_end then line_end else caret_end0);
          carets = (if caret_end > line_offset then caret_end - line_offset else 0)
      in if carets = 0 then 1 else carets)"

definition render_label :: "(file_id \<Rightarrow> source_text) option \<Rightarrow> label \<Rightarrow> string" where
  "render_label fetch l =
     (let src = fetch_text fetch (span_file (label_span l));
          pre = '' = note: '' @ label_message l @ '' --> '' @ display_name src @ '':''
      in if st_bytes src = [] then pre @ dec32 (span_offset (label_span l)) @ [newline]
         else
           (let info = locate (st_bytes src) (span_offset (label_span l))
            in pre @ dec32 (li_line info) @ '':'' @ dec32 (li_col info) @ [newline]))"

definition render_snippet :: "string \<Rightarrow> span \<Rightarrow> string" where
  "render_snippet bytes sp =
     (let info = locate bytes (span_offset sp); gutter = decimal_width (li_line info)
      in write_gutter gutter @ [newline] @
         dec32 (li_line info) @ '' | '' @ li_text info @ [newline] @
         write_gutter gutter @ '' '' @
         replicate (unat (li_col info) - 1) (CHR '' '') @
         replicate (unat (caret_count bytes (span_offset sp) (span_length sp))) (CHR ''^'') @
         [newline])"

definition render ::
  "(severity \<Rightarrow> string \<Rightarrow> string) \<Rightarrow> bool \<Rightarrow> (file_id \<Rightarrow> source_text) option \<Rightarrow> diagnostic \<Rightarrow> string" where
  "render paint color fetch d =
     (let head = render_header paint color d
      in if \<not> has_primary_span d then head
         else
           (let sp = primary_span d; src = fetch_text fetch (span_file sp); name = display_name src
            in if st_bytes src = []
               then head @ '' --> '' @ name @ '':'' @ dec32 (span_offset sp) @ [newline]
               else
                 (let info = locate (st_bytes src) (span_offset sp)
                  in head @ '' --> '' @ name @ '':'' @ dec32 (li_line info) @ '':'' @
                     dec32 (li_col info) @ [newline] @ render_snippet (st_bytes src) sp @
                     concat (map (render_label fetch) (diag_labels d)))))"

subsection \<open>Lines and columns\<close>

text \<open>
  The reference: the line of an offset is one more than the newlines before it, the line
  starts after the last of them, and its text runs to the next newline.
\<close>

definition line_of :: "string \<Rightarrow> nat \<Rightarrow> nat" where
  "line_of bytes off = Suc (count_list (take off bytes) newline)"

definition line_start_of :: "string \<Rightarrow> nat \<Rightarrow> nat" where
  "line_start_of bytes off = off - length (takeWhile (\<lambda>c. c \<noteq> newline) (rev (take off bytes)))"

definition line_text_of :: "string \<Rightarrow> nat \<Rightarrow> string" where
  "line_text_of bytes off = takeWhile (\<lambda>c. c \<noteq> newline) (drop (line_start_of bytes off) bytes)"

lemma take_Suc_nth: "i < length xs \<Longrightarrow> take (Suc i) xs = take i xs @ [xs ! i]"
  by (rule take_Suc_conv_app_nth)

lemma line_of_Suc:
  "i < length bytes \<Longrightarrow> line_of bytes (Suc i) =
     (if bytes ! i = newline then Suc (line_of bytes i) else line_of bytes i)"
  by (simp add: line_of_def take_Suc_nth count_list_append)

lemma line_start_of_Suc:
  assumes "i < length bytes"
  shows "line_start_of bytes (Suc i) =
     (if bytes ! i = newline then Suc i else line_start_of bytes i)"
proof -
  have "length (takeWhile (\<lambda>c. c \<noteq> newline) (rev (take i bytes))) \<le> i"
    using length_takeWhile_le [of "\<lambda>c. c \<noteq> newline" "rev (take i bytes)"] assms by simp
  then show ?thesis using assms by (simp add: line_start_of_def take_Suc_nth Suc_diff_le)
qed

lemma line_start_of_le: "line_start_of bytes off \<le> off"
  by (simp add: line_start_of_def)

lemma locate_lines_eq:
  "i \<le> off \<Longrightarrow> off \<le> length bytes \<Longrightarrow>
   locate_lines bytes i off (of_nat (line_of bytes i)) (of_nat (line_start_of bytes i)) =
     (of_nat (line_of bytes off), of_nat (line_start_of bytes off))"
proof (induction "off - i" arbitrary: i)
  case 0
  then show ?case by (subst locate_lines.simps) simp
next
  case (Suc k)
  then have i: "i < off" "i < length bytes" and k: "k = off - Suc i" by auto
  have "locate_lines bytes (Suc i) off (of_nat (line_of bytes (Suc i)))
          (of_nat (line_start_of bytes (Suc i))) =
        (of_nat (line_of bytes off), of_nat (line_start_of bytes off))"
    using Suc i by (intro Suc.hyps(1) [OF k]) auto
  with i show ?case
    by (subst locate_lines.simps) (auto simp: line_of_Suc line_start_of_Suc add.commute)
qed

lemma locate_lines_start:
  "off \<le> length bytes \<Longrightarrow> locate_lines bytes 0 off 1 0 =
     (of_nat (line_of bytes off), of_nat (line_start_of bytes off))"
  using locate_lines_eq [of 0 off bytes] by (simp add: line_of_def line_start_of_def)

lemma clamp_offset_le: "length bytes < 2 ^ 32 \<Longrightarrow> unat (clamp_offset bytes off) \<le> length bytes"
  by (simp add: clamp_offset_def)

lemma unat_clamp_offset:
  "length bytes < 2 ^ 32 \<Longrightarrow> unat (clamp_offset bytes off) = min (unat off) (length bytes)"
  by (simp add: clamp_offset_def)

lemma locate_eq:
  fixes bytes :: string and off :: u32
  assumes "length bytes < 2 ^ 32"
  defines "o' \<equiv> min (unat off) (length bytes)"
  shows "locate bytes off =
    \<lparr>li_line = of_nat (line_of bytes o'),
     li_col = of_nat (Suc (o' - line_start_of bytes o')), li_text = line_text_of bytes o'\<rparr>"
proof -
  have o': "unat (clamp_offset bytes off) = o'"
    using assms by (simp add: unat_clamp_offset)
  then have co: "clamp_offset bytes off = of_nat o'" by (simp flip: o')
  have le: "o' \<le> length bytes" by (simp add: o'_def)
  let ?s = "line_start_of bytes o'"
  have s: "?s \<le> o'" by (rule line_start_of_le)
  then have us: "unat (of_nat ?s :: u32) = ?s" using le assms(1) by simp
  have uo: "unat (of_nat o' :: u32) = o'" using le assms(1) by simp
  show ?thesis
    using assms(1) us s
    by (simp add: locate_def co uo locate_lines_start [OF le] substr_scan_while
        line_text_of_def Let_def of_nat_diff)
qed


lemma line_start_no_newline:
  "off \<le> length bytes \<Longrightarrow> line_start_of bytes off \<le> j \<Longrightarrow> j < off \<Longrightarrow> bytes ! j \<noteq> newline"
proof (induction off)
  case (Suc off)
  then show ?case by (cases "j = off") (auto simp: line_start_of_Suc split: if_splits)
qed simp

lemma offset_in_line:
  assumes "off \<le> length bytes"
  shows "off \<le> line_start_of bytes off + length (line_text_of bytes off)"
proof (rule ccontr)
  let ?s = "line_start_of bytes off" and ?L = "length (line_text_of bytes off)"
  assume "\<not> ?thesis"
  then have lt: "?s + ?L < off" by simp
  then have "?L < length (drop ?s bytes)" using assms by simp
  then have "\<not> drop ?s bytes ! ?L \<noteq> newline"
    unfolding line_text_of_def by (rule nth_length_takeWhile)
  moreover have "drop ?s bytes ! ?L = bytes ! (?s + ?L)" using lt assms by simp
  moreover have "bytes ! (?s + ?L) \<noteq> newline"
    using line_start_no_newline [OF assms, of "?s + ?L"] lt by simp
  ultimately show False by simp
qed

lemma line_text_bound:
  assumes "off \<le> length bytes"
  shows "line_start_of bytes off + length (line_text_of bytes off) \<le> length bytes"
proof -
  have "length (line_text_of bytes off) \<le> length (drop (line_start_of bytes off) bytes)"
    unfolding line_text_of_def by (rule length_takeWhile_le)
  then show ?thesis using line_start_of_le [of bytes off] assms by simp
qed

lemma caret_count_eq:
  fixes bytes :: string and off len :: u32
  assumes n: "length bytes < 2 ^ 32"
  defines "o' \<equiv> min (unat off) (length bytes)"
  defines "e \<equiv> line_start_of bytes o' + length (line_text_of bytes o')"
  shows "unat (caret_count bytes off len) =
    max 1 (min e (unat (of_nat o' + len :: u32)) - o')"
proof -
  let ?s = "line_start_of bytes o'" and ?o = "of_nat o' :: u32"
  have o'le: "o' \<le> length bytes" by (simp add: o'_def)
  have s: "?s \<le> o'" by (rule line_start_of_le)
  have eo: "o' \<le> e" unfolding e_def by (rule offset_in_line [OF o'le])
  have eb: "e \<le> length bytes" unfolding e_def by (rule line_text_bound [OF o'le])
  have co: "clamp_offset bytes off = ?o"
    using n by (simp flip: unat_clamp_offset add: o'_def)
  have ue: "unat (of_nat e :: u32) = e" and uo: "unat ?o = o'"
    using eb o'le n by simp_all
  have le: "?o - (of_nat (Suc (o' - ?s)) - 1) + of_nat (length (line_text_of bytes o')) = of_nat e"
    using s by (simp add: e_def of_nat_diff)
  let ?raw = "?o + len"
  let ?c = "if ?raw > of_nat e then of_nat e else ?raw"
  have uc: "unat ?c = min e (unat ?raw)" using ue by (auto simp: word_less_nat_alt min_def)
  have d: "unat (if ?c > ?o then ?c - ?o else 0) = min e (unat ?raw) - o'"
  proof (cases "?o < ?c")
    case True
    then have "unat (?c - ?o) = unat ?c - o'"
      using uo by (metis less_imp_le unat_sub)
    with True uc show ?thesis by (simp only: if_True)
  next
    case False
    then have "unat ?c \<le> o'" using uo by (metis not_less word_le_nat_alt)
    with False uc show ?thesis by (simp only: if_False unat_0)
  qed
  define x where "x = (if ?c > ?o then ?c - ?o else 0)"
  have cc: "caret_count bytes off len = (if x = 0 then 1 else x)"
    unfolding caret_count_def x_def
    by (auto simp add: locate_eq [OF n] o'_def [symmetric] co le Let_def simp del: of_nat_Suc)
  have ux: "unat x = min e (unat ?raw) - o'" unfolding x_def by (rule d)
  show ?thesis
  proof (cases "x = 0")
    case True
    then have "min e (unat ?raw) - o' = 0" using ux by simp
    with True cc show ?thesis by simp
  next
    case False
    then have "unat x \<noteq> 0" by (simp add: unat_eq_zero)
    with False cc ux show ?thesis by simp
  qed
qed

subsection \<open>The property\<close>




end
