(* ===== verification/Token.thy ===== *)
theory Token
  imports Diag
begin

text \<open>
  Token kinds and tokens (\<^verbatim>\<open>src/lexer/token.h\<close>). The enumeration \<^verbatim>\<open>TokenKind\<close> has
  more than a hundred members; it is split here along the sections it has in the source,
  one datatype each, and every member is available under its source name with a \<open>T\<close> in
  front. A token is its kind and the span it was read from.
\<close>

text \<open>Declarations.\<close>

datatype keyword_token =
  KFn | KStruct | KEnum | KMod | KImpl | KStatic | KPub | KConst | KMut | KUse

text \<open>Control flow; paths and casts.\<close>

datatype control_token =
  CIf | CElse | CLoop | CWhile | CBreak | CContinue | CRet | CMatch | CPackage | CSelf
   | CSuper | CSelfType | CAs

text \<open>Primitive types.\<close>

datatype primitive_token =
  PI8 | PI16 | PI32 | PI64 | PI128 | PIsize | PU8 | PU16 | PU32 | PU64 | PU128 | PUsize | PF32
   | PF64 | PBool | PStr

text \<open>Reserved words.\<close>

datatype reserved_token =
  RAsync | RAwait | RUnion | RRegister | RComp | RExtern | RUnsafe | RFor | RIn | RWhere
   | RDyn

text \<open>Literals.\<close>

datatype literal_token =
  LInteger | LFloat | LString | LChar | LTrue | LFalse

text \<open>Operators: arithmetic and bits.\<close>

datatype operator_token =
  OPlus | OMinus | OStar | OSlash | OPercent | OStarStar | OAmp | OPipe | OCaret | OTilde
   | OLessLess | OGreaterGreater

text \<open>Operators: assignment.\<close>

datatype assign_token =
  APlusEq | AMinusEq | AStarEq | ASlashEq | APercentEq | AStarStarEq | AAmpEq | APipeEq
   | ACaretEq | ALessLessEq | AGreaterGreaterEq | AColonEq | AEq

text \<open>Operators: comparison and logic.\<close>

datatype relation_token =
  EEqEq | EBang | EAmpAmp | EPipePipe | EBangEq | EGreater | ELess | EGreaterEq | ELessEq

text \<open>Operators: arrows, colons, dots.\<close>

datatype punct_token =
  UArrow | UFatArrow | UColon | UColonColon | UComma | UDot | UDotDot | UDotDotEq
   | UDotDotLess

text \<open>Delimiters.\<close>

datatype delimiter_token =
  DLParen | DRParen | DLBrace | DRBrace | DLBracket | DRBracket | DQuestion | DSemicolon
   | DHash | DUnderscore

datatype token_kind =
  Keyword keyword_token | Control control_token | Primitive primitive_token
   | Reserved reserved_token | Literal literal_token | Operator operator_token
   | Assign assign_token | Relation relation_token | Punct punct_token
   | Delimiter delimiter_token | TIdent | TDocComment | TError | TEof

abbreviation TFn :: token_kind where "TFn \<equiv> Keyword KFn"
abbreviation TStruct :: token_kind where "TStruct \<equiv> Keyword KStruct"
abbreviation TEnum :: token_kind where "TEnum \<equiv> Keyword KEnum"
abbreviation TMod :: token_kind where "TMod \<equiv> Keyword KMod"
abbreviation TImpl :: token_kind where "TImpl \<equiv> Keyword KImpl"
abbreviation TStatic :: token_kind where "TStatic \<equiv> Keyword KStatic"
abbreviation TPub :: token_kind where "TPub \<equiv> Keyword KPub"
abbreviation TConst :: token_kind where "TConst \<equiv> Keyword KConst"
abbreviation TMut :: token_kind where "TMut \<equiv> Keyword KMut"
abbreviation TUse :: token_kind where "TUse \<equiv> Keyword KUse"

abbreviation TIf :: token_kind where "TIf \<equiv> Control CIf"
abbreviation TElse :: token_kind where "TElse \<equiv> Control CElse"
abbreviation TLoop :: token_kind where "TLoop \<equiv> Control CLoop"
abbreviation TWhile :: token_kind where "TWhile \<equiv> Control CWhile"
abbreviation TBreak :: token_kind where "TBreak \<equiv> Control CBreak"
abbreviation TContinue :: token_kind where "TContinue \<equiv> Control CContinue"
abbreviation TRet :: token_kind where "TRet \<equiv> Control CRet"
abbreviation TMatch :: token_kind where "TMatch \<equiv> Control CMatch"
abbreviation TPackage :: token_kind where "TPackage \<equiv> Control CPackage"
abbreviation TSelf :: token_kind where "TSelf \<equiv> Control CSelf"
abbreviation TSuper :: token_kind where "TSuper \<equiv> Control CSuper"
abbreviation TSelfType :: token_kind where "TSelfType \<equiv> Control CSelfType"
abbreviation TAs :: token_kind where "TAs \<equiv> Control CAs"

abbreviation TI8 :: token_kind where "TI8 \<equiv> Primitive PI8"
abbreviation TI16 :: token_kind where "TI16 \<equiv> Primitive PI16"
abbreviation TI32 :: token_kind where "TI32 \<equiv> Primitive PI32"
abbreviation TI64 :: token_kind where "TI64 \<equiv> Primitive PI64"
abbreviation TI128 :: token_kind where "TI128 \<equiv> Primitive PI128"
abbreviation TIsize :: token_kind where "TIsize \<equiv> Primitive PIsize"
abbreviation TU8 :: token_kind where "TU8 \<equiv> Primitive PU8"
abbreviation TU16 :: token_kind where "TU16 \<equiv> Primitive PU16"
abbreviation TU32 :: token_kind where "TU32 \<equiv> Primitive PU32"
abbreviation TU64 :: token_kind where "TU64 \<equiv> Primitive PU64"
abbreviation TU128 :: token_kind where "TU128 \<equiv> Primitive PU128"
abbreviation TUsize :: token_kind where "TUsize \<equiv> Primitive PUsize"
abbreviation TF32 :: token_kind where "TF32 \<equiv> Primitive PF32"
abbreviation TF64 :: token_kind where "TF64 \<equiv> Primitive PF64"
abbreviation TBool :: token_kind where "TBool \<equiv> Primitive PBool"
abbreviation TStr :: token_kind where "TStr \<equiv> Primitive PStr"

abbreviation TAsync :: token_kind where "TAsync \<equiv> Reserved RAsync"
abbreviation TAwait :: token_kind where "TAwait \<equiv> Reserved RAwait"
abbreviation TUnion :: token_kind where "TUnion \<equiv> Reserved RUnion"
abbreviation TRegister :: token_kind where "TRegister \<equiv> Reserved RRegister"
abbreviation TComp :: token_kind where "TComp \<equiv> Reserved RComp"
abbreviation TExtern :: token_kind where "TExtern \<equiv> Reserved RExtern"
abbreviation TUnsafe :: token_kind where "TUnsafe \<equiv> Reserved RUnsafe"
abbreviation TFor :: token_kind where "TFor \<equiv> Reserved RFor"
abbreviation TIn :: token_kind where "TIn \<equiv> Reserved RIn"
abbreviation TWhere :: token_kind where "TWhere \<equiv> Reserved RWhere"
abbreviation TDyn :: token_kind where "TDyn \<equiv> Reserved RDyn"

abbreviation TInteger :: token_kind where "TInteger \<equiv> Literal LInteger"
abbreviation TFloat :: token_kind where "TFloat \<equiv> Literal LFloat"
abbreviation TString :: token_kind where "TString \<equiv> Literal LString"
abbreviation TChar :: token_kind where "TChar \<equiv> Literal LChar"
abbreviation TTrue :: token_kind where "TTrue \<equiv> Literal LTrue"
abbreviation TFalse :: token_kind where "TFalse \<equiv> Literal LFalse"

abbreviation TPlus :: token_kind where "TPlus \<equiv> Operator OPlus"
abbreviation TMinus :: token_kind where "TMinus \<equiv> Operator OMinus"
abbreviation TStar :: token_kind where "TStar \<equiv> Operator OStar"
abbreviation TSlash :: token_kind where "TSlash \<equiv> Operator OSlash"
abbreviation TPercent :: token_kind where "TPercent \<equiv> Operator OPercent"
abbreviation TStarStar :: token_kind where "TStarStar \<equiv> Operator OStarStar"
abbreviation TAmp :: token_kind where "TAmp \<equiv> Operator OAmp"
abbreviation TPipe :: token_kind where "TPipe \<equiv> Operator OPipe"
abbreviation TCaret :: token_kind where "TCaret \<equiv> Operator OCaret"
abbreviation TTilde :: token_kind where "TTilde \<equiv> Operator OTilde"
abbreviation TLessLess :: token_kind where "TLessLess \<equiv> Operator OLessLess"
abbreviation TGreaterGreater :: token_kind where "TGreaterGreater \<equiv> Operator OGreaterGreater"

abbreviation TPlusEq :: token_kind where "TPlusEq \<equiv> Assign APlusEq"
abbreviation TMinusEq :: token_kind where "TMinusEq \<equiv> Assign AMinusEq"
abbreviation TStarEq :: token_kind where "TStarEq \<equiv> Assign AStarEq"
abbreviation TSlashEq :: token_kind where "TSlashEq \<equiv> Assign ASlashEq"
abbreviation TPercentEq :: token_kind where "TPercentEq \<equiv> Assign APercentEq"
abbreviation TStarStarEq :: token_kind where "TStarStarEq \<equiv> Assign AStarStarEq"
abbreviation TAmpEq :: token_kind where "TAmpEq \<equiv> Assign AAmpEq"
abbreviation TPipeEq :: token_kind where "TPipeEq \<equiv> Assign APipeEq"
abbreviation TCaretEq :: token_kind where "TCaretEq \<equiv> Assign ACaretEq"
abbreviation TLessLessEq :: token_kind where "TLessLessEq \<equiv> Assign ALessLessEq"
abbreviation TGreaterGreaterEq :: token_kind where "TGreaterGreaterEq \<equiv> Assign AGreaterGreaterEq"
abbreviation TColonEq :: token_kind where "TColonEq \<equiv> Assign AColonEq"
abbreviation TEq :: token_kind where "TEq \<equiv> Assign AEq"

abbreviation TEqEq :: token_kind where "TEqEq \<equiv> Relation EEqEq"
abbreviation TBang :: token_kind where "TBang \<equiv> Relation EBang"
abbreviation TAmpAmp :: token_kind where "TAmpAmp \<equiv> Relation EAmpAmp"
abbreviation TPipePipe :: token_kind where "TPipePipe \<equiv> Relation EPipePipe"
abbreviation TBangEq :: token_kind where "TBangEq \<equiv> Relation EBangEq"
abbreviation TGreater :: token_kind where "TGreater \<equiv> Relation EGreater"
abbreviation TLess :: token_kind where "TLess \<equiv> Relation ELess"
abbreviation TGreaterEq :: token_kind where "TGreaterEq \<equiv> Relation EGreaterEq"
abbreviation TLessEq :: token_kind where "TLessEq \<equiv> Relation ELessEq"

abbreviation TArrow :: token_kind where "TArrow \<equiv> Punct UArrow"
abbreviation TFatArrow :: token_kind where "TFatArrow \<equiv> Punct UFatArrow"
abbreviation TColon :: token_kind where "TColon \<equiv> Punct UColon"
abbreviation TColonColon :: token_kind where "TColonColon \<equiv> Punct UColonColon"
abbreviation TComma :: token_kind where "TComma \<equiv> Punct UComma"
abbreviation TDot :: token_kind where "TDot \<equiv> Punct UDot"
abbreviation TDotDot :: token_kind where "TDotDot \<equiv> Punct UDotDot"
abbreviation TDotDotEq :: token_kind where "TDotDotEq \<equiv> Punct UDotDotEq"
abbreviation TDotDotLess :: token_kind where "TDotDotLess \<equiv> Punct UDotDotLess"

abbreviation TLParen :: token_kind where "TLParen \<equiv> Delimiter DLParen"
abbreviation TRParen :: token_kind where "TRParen \<equiv> Delimiter DRParen"
abbreviation TLBrace :: token_kind where "TLBrace \<equiv> Delimiter DLBrace"
abbreviation TRBrace :: token_kind where "TRBrace \<equiv> Delimiter DRBrace"
abbreviation TLBracket :: token_kind where "TLBracket \<equiv> Delimiter DLBracket"
abbreviation TRBracket :: token_kind where "TRBracket \<equiv> Delimiter DRBracket"
abbreviation TQuestion :: token_kind where "TQuestion \<equiv> Delimiter DQuestion"
abbreviation TSemicolon :: token_kind where "TSemicolon \<equiv> Delimiter DSemicolon"
abbreviation THash :: token_kind where "THash \<equiv> Delimiter DHash"
abbreviation TUnderscore :: token_kind where "TUnderscore \<equiv> Delimiter DUnderscore"

record token =
  tok_kind :: token_kind
  tok_span :: span

end
