(* ===== verification/Lexer.thy ===== *)
theory Lexer
  imports Token
begin

text \<open>
  The lexer (\<^verbatim>\<open>src/lexer/lexer.h\<close>, \<^verbatim>\<open>src/lexer/lexer.cc\<close>). The members that change
  (\<^verbatim>\<open>pos_\<close>, \<^verbatim>\<open>last_significant_\<close>, the bag behind the reference and the output
  vector) are the record \<open>lexer\<close>; the bytes and the file id are arguments. Every
  \<^verbatim>\<open>while\<close> loop is a recursive function on the index it moves; each is total, and so is
  \<open>tokenize\<close>: no fuel is needed. Positions are \<^verbatim>\<open>usize\<close> and kept as \<open>nat\<close> (they never
  exceed the input by more than one); they are cut to 32 bits where the source casts them,
  in \<open>span_at\<close>. Bytes compare unsigned here and possibly signed in C++, but every comparison
  of the lexer is with an ASCII bound on both sides, so the two agree.
\<close>

unbundle bit_operations_syntax

subsection \<open>Tables and character classes\<close>

definition kLexerInvalidChar :: u32 where "kLexerInvalidChar = 4000"
definition kLexerUnterminatedString :: u32 where "kLexerUnterminatedString = 4001"
definition kLexerUnterminatedChar :: u32 where "kLexerUnterminatedChar = 4002"
definition kLexerInvalidNumber :: u32 where "kLexerInvalidNumber = 4003"
definition kLexerUnterminatedBlockComment :: u32 where "kLexerUnterminatedBlockComment = 4004"
definition kLexerInvalidEscape :: u32 where "kLexerInvalidEscape = 4005"

abbreviation byte :: "char \<Rightarrow> nat" where "byte c \<equiv> of_char c"

definition is_alpha :: "char \<Rightarrow> bool" where
  "is_alpha c \<longleftrightarrow> (97 \<le> byte c \<and> byte c \<le> 122) \<or> (65 \<le> byte c \<and> byte c \<le> 90)"

definition is_digit :: "char \<Rightarrow> bool" where
  "is_digit c \<longleftrightarrow> 48 \<le> byte c \<and> byte c \<le> 57"

definition is_alnum_or_underscore :: "char \<Rightarrow> bool" where
  "is_alnum_or_underscore c \<longleftrightarrow> is_alpha c \<or> is_digit c \<or> c = CHR ''_''"

definition inserts_semi :: "token_kind \<Rightarrow> bool" where
  "inserts_semi kind \<longleftrightarrow> kind \<in> set
     [TIdent, TUnderscore, TInteger, TFloat, TString, TChar, TTrue, TFalse, TRParen, TRBracket,
      TRBrace, TBreak, TContinue, TRet, TQuestion, TSelf, TSelfType, TI8, TI16, TI32, TI64,
      TI128, TIsize, TU8, TU16, TU32, TU64, TU128, TUsize, TF32, TF64, TBool, TStr]"

definition suppress_semi :: "token_kind \<Rightarrow> bool" where
  "suppress_semi next \<longleftrightarrow> next \<in> set [TElse, TComma, TRParen, TRBracket, TRBrace, TDot, TEof]"

definition kKeywords :: "(string \<times> token_kind) list" where
  "kKeywords = [
   (''Self'', TSelfType), (''as'', TAs), (''async'', TAsync), (''await'', TAwait),
   (''bool'', TBool), (''break'', TBreak), (''comp'', TComp), (''const'', TConst),
   (''continue'', TContinue), (''dyn'', TDyn), (''else'', TElse), (''enum'', TEnum),
   (''extern'', TExtern), (''f32'', TF32), (''f64'', TF64), (''false'', TFalse),
   (''fn'', TFn), (''for'', TFor), (''i128'', TI128), (''i16'', TI16), (''i32'', TI32),
   (''i64'', TI64), (''i8'', TI8), (''if'', TIf), (''impl'', TImpl), (''in'', TIn),
   (''isize'', TIsize), (''loop'', TLoop), (''match'', TMatch), (''mod'', TMod),
   (''mut'', TMut), (''package'', TPackage), (''pub'', TPub), (''register'', TRegister),
   (''ret'', TRet), (''self'', TSelf), (''static'', TStatic), (''str'', TStr),
   (''struct'', TStruct), (''super'', TSuper), (''true'', TTrue), (''u128'', TU128),
   (''u16'', TU16), (''u32'', TU32), (''u64'', TU64), (''u8'', TU8), (''union'', TUnion),
   (''unsafe'', TUnsafe), (''use'', TUse), (''usize'', TUsize), (''where'', TWhere),
   (''while'', TWhile)]"

fun keyword_scan :: "(string \<times> token_kind) list \<Rightarrow> string \<Rightarrow> token_kind" where
  "keyword_scan [] word = TIdent"
| "keyword_scan ((spelling, kind) # rest) word =
     (if spelling = word then kind else keyword_scan rest word)"

definition lookup_keyword :: "string \<Rightarrow> token_kind" where
  "lookup_keyword word = keyword_scan kKeywords word"

definition is_valid_escape :: "char \<Rightarrow> bool" where
  "is_valid_escape c \<longleftrightarrow> c \<in> set
     [CHR ''n'', CHR ''t'', CHR ''r'', CHR 0x5C, CHR 0x22, CHR 0x27, CHR ''0'']"

definition is_hex_digit :: "char \<Rightarrow> bool" where
  "is_hex_digit c \<longleftrightarrow> is_digit c \<or> (97 \<le> byte c \<and> byte c \<le> 102) \<or> (65 \<le> byte c \<and> byte c \<le> 70)"

subsection \<open>State, cursor and errors\<close>

record lexer =
  lx_pos :: nat
  lx_last :: token_kind
  lx_bag :: diag_bag
  lx_out :: "token list"

definition peek_at :: "string \<Rightarrow> nat \<Rightarrow> char" where
  "peek_at bytes i = (if i \<ge> length bytes then CHR 0x00 else bytes ! i)"

definition span_at :: "file_id \<Rightarrow> nat \<Rightarrow> nat \<Rightarrow> span" where
  "span_at fid start len =
     \<lparr>span_file = fid, span_offset = of_nat start, span_length = of_nat len\<rparr>"

definition put_token :: "file_id \<Rightarrow> token_kind \<Rightarrow> nat \<Rightarrow> nat \<Rightarrow> lexer \<Rightarrow> lexer" where
  "put_token fid kind start len s =
     s\<lparr>lx_last := kind,
       lx_out := lx_out s @ [\<lparr>tok_kind = kind, tok_span = span_at fid start len\<rparr>]\<rparr>"

definition emit_error :: "file_id \<Rightarrow> nat \<Rightarrow> nat \<Rightarrow> u32 \<Rightarrow> string \<Rightarrow> lexer \<Rightarrow> lexer" where
  "emit_error fid start len code message s =
     s\<lparr>lx_bag := emit_at SevError code (span_at fid start len) message (lx_bag s),
       lx_out := lx_out s @ [\<lparr>tok_kind = TError, tok_span = span_at fid start len\<rparr>]\<rparr>"

definition set_pos :: "nat \<Rightarrow> lexer \<Rightarrow> lexer" where
  "set_pos i s = s\<lparr>lx_pos := i\<rparr>"

subsection \<open>Trivia and semicolon insertion\<close>

text \<open>The nesting loop of a block comment, from behind its opening: end position and open depth.\<close>

function block_comment :: "string \<Rightarrow> nat \<Rightarrow> u32 \<Rightarrow> nat \<times> u32" where
  "block_comment bytes i depth =
     (if i < length bytes \<and> depth > 0 then
        (if peek_at bytes i = CHR ''/'' \<and> peek_at bytes (i + 1) = CHR ''*''
         then block_comment bytes (i + 2) (depth + 1)
         else if peek_at bytes i = CHR ''*'' \<and> peek_at bytes (i + 1) = CHR ''/''
         then block_comment bytes (i + 2) (depth - 1)
         else block_comment bytes (i + 1) depth)
      else (i, depth))"
  by pat_completeness auto
termination
  by (relation "measure (\<lambda>(bytes, i, depth). length bytes - i)") auto

declare block_comment.simps [simp del]

definition is_space :: "char \<Rightarrow> bool" where
  "is_space c \<longleftrightarrow> c = CHR '' '' \<or> c = CHR 0x09 \<or> c = CHR 0x0D"

lemma block_comment_ge [simp]: "i \<le> fst (block_comment bytes i depth)"
proof (induction bytes i depth rule: block_comment.induct)
  case (1 bytes i depth)
  then show ?case by (subst block_comment.simps) (auto intro: add_leD1)
qed

text \<open>The lookahead of \<^verbatim>\<open>peek_next_kind\<close> first passes all trivia, newlines included.\<close>

function lookahead_skip :: "string \<Rightarrow> nat \<Rightarrow> nat" where
  "lookahead_skip bytes i0 =
     (let i = scan_while (\<lambda>c. is_space c \<or> c = newline) bytes i0
      in if peek_at bytes i = CHR ''/'' \<and> peek_at bytes (i + 1) = CHR ''/''
         then lookahead_skip bytes (scan_while (\<lambda>c. c \<noteq> newline) bytes (i + 2))
         else if peek_at bytes i = CHR ''/'' \<and> peek_at bytes (i + 1) = CHR ''*''
         then lookahead_skip bytes (fst (block_comment bytes (i + 2) 1))
         else i)"
  by pat_completeness auto

lemma peek_at_in: "peek_at bytes i = c \<Longrightarrow> c \<noteq> CHR 0x00 \<Longrightarrow> i < length bytes"
  by (auto simp: peek_at_def split: if_splits)

termination lookahead_skip
proof (relation "measure (\<lambda>(bytes, i). length bytes - i)", goal_cases)
  case 1
  show ?case by simp
next
  case (2 bytes i0 i)
  then have "i0 \<le> i" and "i < length bytes" by (auto dest: peek_at_in)
  moreover have "i < scan_while (\<lambda>c. c \<noteq> newline) bytes (Suc (Suc i))"
    by (rule less_le_trans [OF _ scan_while_ge]) simp
  ultimately show ?case by simp
next
  case (3 bytes i0 i)
  then have "i0 \<le> i" and "i < length bytes" by (auto dest: peek_at_in)
  moreover have "i < fst (block_comment bytes (Suc (Suc i)) 1)"
    by (rule less_le_trans [OF _ block_comment_ge]) simp
  ultimately show ?case by simp
qed

declare lookahead_skip.simps [simp del]

definition peek_next_kind :: "string \<Rightarrow> nat \<Rightarrow> token_kind" where
  "peek_next_kind bytes pos =
     (let i = lookahead_skip bytes pos
      in if i \<ge> length bytes then TEof
         else
           (let c = bytes ! i
            in if is_alpha c \<or> c = CHR ''_'' then
                 (let e = scan_while is_alnum_or_underscore bytes (i + 1)
                  in if substr bytes i (e - i) = ''else'' then TElse else TIdent)
               else if c = CHR '','' then TComma
               else if c = CHR '')'' then TRParen
               else if c = CHR '']'' then TRBracket
               else if c = CHR ''}'' then TRBrace
               else if c = CHR ''.'' then TDot
               else TIdent))"

function skip_trivia :: "string \<Rightarrow> file_id \<Rightarrow> lexer \<Rightarrow> lexer" where
  "skip_trivia bytes fid s =
     (if lx_pos s \<ge> length bytes then s
      else
        (let pos = lx_pos s; c = peek_at bytes pos
         in if is_space c then skip_trivia bytes fid (set_pos (pos + 1) s)
            else if c = newline then
              (if inserts_semi (lx_last s) \<and> \<not> suppress_semi (peek_next_kind bytes (pos + 1))
               then skip_trivia bytes fid
                      (put_token fid TSemicolon pos 1 (set_pos (pos + 1) s))
               else skip_trivia bytes fid (set_pos (pos + 1) s))
            else if c = CHR ''/'' \<and> peek_at bytes (pos + 1) = CHR ''/'' then
              (if peek_at bytes (pos + 2) = CHR ''/'' \<and> peek_at bytes (pos + 3) \<noteq> CHR ''/''
               then
                 (let e = scan_while (\<lambda>c. c \<noteq> newline) bytes (pos + 3)
                  in skip_trivia bytes fid
                       (put_token fid TDocComment pos (e - pos) (set_pos e s)))
               else
                 skip_trivia bytes fid (set_pos (scan_while (\<lambda>c. c \<noteq> newline) bytes pos) s))
            else if c = CHR ''/'' \<and> peek_at bytes (pos + 1) = CHR ''*'' then
              (let (e, depth) = block_comment bytes (pos + 2) 1
               in if depth > 0 then
                    skip_trivia bytes fid
                      (emit_error fid pos (e - pos) kLexerUnterminatedBlockComment
                         ''unterminated block comment'' (set_pos e s))
                  else skip_trivia bytes fid (set_pos e s))
            else s))"
  by pat_completeness auto


lemma put_token_sel [simp]:
  "lx_pos (put_token fid k st ln s) = lx_pos s"
  "lx_bag (put_token fid k st ln s) = lx_bag s"
  "lx_last (put_token fid k st ln s) = k"
  by (simp_all add: put_token_def)

lemma emit_error_sel [simp]:
  "lx_pos (emit_error fid st ln code m s) = lx_pos s"
  "lx_last (emit_error fid st ln code m s) = lx_last s"
  by (simp_all add: emit_error_def)

lemma set_pos_sel [simp]:
  "lx_pos (set_pos i s) = i" "lx_last (set_pos i s) = lx_last s"
  "lx_bag (set_pos i s) = lx_bag s" "lx_out (set_pos i s) = lx_out s"
  by (simp_all add: set_pos_def)

termination skip_trivia
proof (relation "measure (\<lambda>(bytes, fid, s). length bytes - lx_pos s)", goal_cases)
  case (6 bytes fid s pos c)
  then have "pos + 1 \<le> scan_while (\<lambda>c. c \<noteq> newline) bytes pos"
    by (subst scan_while.simps) (auto simp: peek_at_def)
  with 6 show ?case by simp
next
  case (5 bytes fid s pos c e)
  have "pos < e" unfolding 5 by (rule less_le_trans [OF _ scan_while_ge]) simp
  with 5 show ?case by simp
next
  case (7 bytes fid s pos c x e depth)
  then have "pos + 2 \<le> e" by (metis block_comment_ge fst_conv)
  with 7 show ?case by simp
next
  case (8 bytes fid s pos c x e depth)
  then have "pos + 2 \<le> e" by (metis block_comment_ge fst_conv)
  with 8 show ?case by simp
qed auto

declare skip_trivia.simps [simp del]

subsection \<open>Identifiers and numbers\<close>

definition lex_identifier :: "string \<Rightarrow> file_id \<Rightarrow> lexer \<Rightarrow> lexer" where
  "lex_identifier bytes fid s =
     (let start = lx_pos s;
          e = scan_while is_alnum_or_underscore bytes start;
          word = substr bytes start (e - start);
          kind = (if word = ''_'' then TUnderscore else lookup_keyword word)
      in put_token fid kind start (e - start) (set_pos e s))"

definition in_base :: "char \<Rightarrow> char \<Rightarrow> bool" where
  "in_base base d \<longleftrightarrow>
     (if d = CHR ''_'' then True
      else if base = CHR ''b'' \<or> base = CHR ''B'' then d = CHR ''0'' \<or> d = CHR ''1''
      else if base = CHR ''o'' \<or> base = CHR ''O'' then 48 \<le> byte d \<and> byte d \<le> 55
      else is_hex_digit d)"

text \<open>The digits behind a base prefix: end, number of digits, and whether the last was \<^verbatim>\<open>_\<close>.\<close>

function base_digits :: "string \<Rightarrow> char \<Rightarrow> nat \<Rightarrow> nat \<Rightarrow> bool \<Rightarrow> nat \<times> nat \<times> bool" where
  "base_digits bytes base i digit_count trailing_underscore =
     (if i < length bytes \<and> in_base base (peek_at bytes i) then
        (let d = peek_at bytes i
         in base_digits bytes base (i + 1)
              (if d \<noteq> CHR ''_'' then digit_count + 1 else digit_count) (d = CHR ''_''))
      else (i, digit_count, trailing_underscore))"
  by pat_completeness auto
termination
  by (relation "measure (\<lambda>(bytes, base, i, n, t). length bytes - i)") auto

declare base_digits.simps [simp del]

definition alnum_run :: "string \<Rightarrow> nat \<Rightarrow> nat" where
  "alnum_run bytes i = scan_while is_alnum_or_underscore bytes i"

definition digit_run :: "string \<Rightarrow> nat \<Rightarrow> nat" where
  "digit_run bytes i = scan_while (\<lambda>c. is_digit c \<or> c = CHR ''_'') bytes i"

definition invalid_number :: "file_id \<Rightarrow> nat \<Rightarrow> nat \<Rightarrow> lexer \<Rightarrow> lexer" where
  "invalid_number fid start e s =
     emit_error fid start (e - start) kLexerInvalidNumber ''invalid number literal'' (set_pos e s)"

text \<open>The shared tail of a good number: the suffix, then the token.\<close>

definition finish_number :: "string \<Rightarrow> file_id \<Rightarrow> nat \<Rightarrow> nat \<Rightarrow> bool \<Rightarrow> lexer \<Rightarrow> lexer" where
  "finish_number bytes fid start i is_float s =
     (let e = (if i < length bytes \<and> (is_alpha (peek_at bytes i) \<or> peek_at bytes i = CHR ''_'')
               then alnum_run bytes (i + 1) else i)
      in put_token fid (if is_float then TFloat else TInteger) start (e - start) (set_pos e s))"

text \<open>The fraction and the exponent of a decimal literal: new end, and whether it was there.\<close>

definition fraction_end :: "string \<Rightarrow> nat \<Rightarrow> nat \<times> bool" where
  "fraction_end bytes i =
     (if peek_at bytes i = CHR ''.'' \<and> peek_at bytes (i + 1) \<noteq> CHR ''.''
      then (digit_run bytes (i + 1), True) else (i, False))"

definition exponent_end :: "string \<Rightarrow> nat \<Rightarrow> nat \<times> bool" where
  "exponent_end bytes i =
     (let sign = (\<lambda>c. c = CHR ''+'' \<or> c = CHR ''-'')
      in if (peek_at bytes i = CHR ''e'' \<or> peek_at bytes i = CHR ''E'') \<and>
            (is_digit (peek_at bytes (i + 1)) \<or>
             (sign (peek_at bytes (i + 1)) \<and> is_digit (peek_at bytes (i + 2))))
         then (digit_run bytes (if sign (peek_at bytes (i + 1)) then i + 2 else i + 1), True)
         else (i, False))"

definition lex_number :: "string \<Rightarrow> file_id \<Rightarrow> lexer \<Rightarrow> lexer" where
  "lex_number bytes fid s =
     (let start = lx_pos s; base = peek_at bytes (start + 1)
      in if peek_at bytes start = CHR ''0'' \<and>
            base \<in> set [CHR ''b'', CHR ''B'', CHR ''o'', CHR ''O'', CHR ''x'', CHR ''X'']
         then
           (let (i, digit_count, trailing_underscore) = base_digits bytes base (start + 2) 0 False
            in if digit_count = 0 then invalid_number fid start (alnum_run bytes i) s
               else if trailing_underscore \<and> \<not> is_alpha (peek_at bytes i)
               then invalid_number fid start i s
               else if is_digit (peek_at bytes i)
               then invalid_number fid start (alnum_run bytes i) s
               else finish_number bytes fid start (alnum_run bytes i) False s)
         else
           (let i1 = digit_run bytes start;
                (i2, float1) = fraction_end bytes i1;
                (i3, float2) = exponent_end bytes i2
            in if bytes ! (i3 - 1) = CHR ''_'' \<and> \<not> is_alpha (peek_at bytes i3)
               then invalid_number fid start i3 s
               else finish_number bytes fid start i3 (float1 \<or> float2) s))"

subsection \<open>Strings and characters\<close>

text \<open>
  A \<^verbatim>\<open>\u{...}\<close> escape whose backslash is at \<open>i\<close>: the position behind its closing brace,
  when it is well formed.
\<close>

definition unicode_escape :: "string \<Rightarrow> nat \<Rightarrow> nat option" where
  "unicode_escape bytes i =
     (let h = i + 3; e = scan_while is_hex_digit bytes h
      in if i + 2 < length bytes \<and> bytes ! (i + 2) = CHR ''{'' \<and> e \<noteq> h \<and>
            e < length bytes \<and> bytes ! e = CHR ''}''
         then Some (e + 1) else None)"

text \<open>
  The loop of \<^verbatim>\<open>lex_string\<close> and \<^verbatim>\<open>lex_char\<close>: end position, whether the closing quote
  was read, whether an escape was bad, and whether the literal is still empty (which the
  string lexer does not look at).
\<close>

function quoted_loop :: "char \<Rightarrow> string \<Rightarrow> nat \<Rightarrow> bool \<Rightarrow> bool \<Rightarrow> nat \<times> bool \<times> bool \<times> bool" where
  "quoted_loop quote bytes i bad_escape is_empty =
     (if i \<ge> length bytes then (i, False, bad_escape, is_empty)
      else
        (let c = peek_at bytes i; n = peek_at bytes (i + 1)
         in if c = quote then (i + 1, True, bad_escape, is_empty)
            else if c = newline then (i, False, bad_escape, is_empty)
            else if c = CHR 0x5C then
              (if n = newline then (i, False, bad_escape, is_empty)
               else if n = CHR ''u'' then
                 (case unicode_escape bytes i of
                    Some e \<Rightarrow> quoted_loop quote bytes e bad_escape False
                  | None \<Rightarrow> quoted_loop quote bytes (i + 2) True False)
               else if \<not> is_valid_escape n then quoted_loop quote bytes (i + 2) True False
               else quoted_loop quote bytes (i + 2) bad_escape False)
            else quoted_loop quote bytes (i + 1) bad_escape False))"
  by pat_completeness auto

lemma unicode_escape_gt: "unicode_escape bytes i = Some e \<Longrightarrow> i + 3 < e \<and> e \<le> length bytes"
proof -
  assume "unicode_escape bytes i = Some e"
  moreover have "Suc (Suc i) < scan_while is_hex_digit bytes (i + 3)"
    by (rule less_le_trans [OF _ scan_while_ge]) simp
  ultimately show ?thesis by (auto simp: unicode_escape_def Let_def split: if_splits)
qed

termination quoted_loop
  by (relation "measure (\<lambda>(q, bytes, i, b, e). length bytes - i)")
     (auto dest: unicode_escape_gt)

declare quoted_loop.simps [simp del]

definition lex_string :: "string \<Rightarrow> file_id \<Rightarrow> lexer \<Rightarrow> lexer" where
  "lex_string bytes fid s =
     (let start = lx_pos s;
          (e, terminated, bad_escape, _) = quoted_loop (CHR 0x22) bytes (start + 1) False True
      in if \<not> terminated then
           emit_error fid start (e - start) kLexerUnterminatedString
             ''unterminated string literal'' (set_pos e s)
         else if bad_escape then
           emit_error fid start (e - start) kLexerInvalidEscape
             ''invalid escape in string literal'' (set_pos e s)
         else put_token fid TString start (e - start) (set_pos e s))"

definition lex_char :: "string \<Rightarrow> file_id \<Rightarrow> lexer \<Rightarrow> lexer" where
  "lex_char bytes fid s =
     (let start = lx_pos s;
          (e, terminated, bad_escape, is_empty) = quoted_loop (CHR 0x27) bytes (start + 1) False True
      in if \<not> terminated then
           emit_error fid start (e - start) kLexerUnterminatedChar
             ''unterminated character literal'' (set_pos e s)
         else if is_empty then
           emit_error fid start (e - start) kLexerInvalidChar
             ''empty character literal'' (set_pos e s)
         else if bad_escape then
           emit_error fid start (e - start) kLexerInvalidEscape
             ''invalid escape in character literal'' (set_pos e s)
         else put_token fid TChar start (e - start) (set_pos e s))"


subsection \<open>Operators, delimiters and stray bytes\<close>

text \<open>
  The switch of \<^verbatim>\<open>lex_symbol\<close> on the current byte \<open>c\<close> and the two bytes \<open>n\<close> and \<open>m\<close>
  behind it: the kind and the width, \<open>TError\<close> when no case applies.
\<close>

definition symbol_kind :: "char \<Rightarrow> char \<Rightarrow> char \<Rightarrow> token_kind \<times> nat" where
  "symbol_kind c n m =
     (let eq = CHR ''='' in
      if c = CHR ''('' then (TLParen, 1)
      else if c = CHR '')'' then (TRParen, 1)
      else if c = CHR ''{'' then (TLBrace, 1)
      else if c = CHR ''}'' then (TRBrace, 1)
      else if c = CHR ''['' then (TLBracket, 1)
      else if c = CHR '']'' then (TRBracket, 1)
      else if c = CHR '','' then (TComma, 1)
      else if c = CHR '';'' then (TSemicolon, 1)
      else if c = CHR ''?'' then (TQuestion, 1)
      else if c = CHR ''#'' then (THash, 1)
      else if c = CHR ''~'' then (TTilde, 1)
      else if c = CHR ''.'' then
        (if n = CHR ''.'' \<and> m = eq then (TDotDotEq, 3)
         else if n = CHR ''.'' \<and> m = CHR ''<'' then (TDotDotLess, 3)
         else if n = CHR ''.'' then (TDotDot, 2)
         else (TDot, 1))
      else if c = CHR '':'' then
        (if n = CHR '':'' then (TColonColon, 2)
         else if n = eq then (TColonEq, 2)
         else (TColon, 1))
      else if c = CHR ''='' then
        (if n = eq then (TEqEq, 2)
         else if n = CHR ''>'' then (TFatArrow, 2)
         else (TEq, 1))
      else if c = CHR ''!'' then (if n = eq then (TBangEq, 2) else (TBang, 1))
      else if c = CHR ''>'' then
        (if n = CHR ''>'' \<and> m = eq then (TGreaterGreaterEq, 3)
         else if n = CHR ''>'' then (TGreaterGreater, 2)
         else if n = eq then (TGreaterEq, 2)
         else (TGreater, 1))
      else if c = CHR ''<'' then
        (if n = CHR ''<'' \<and> m = eq then (TLessLessEq, 3)
         else if n = CHR ''<'' then (TLessLess, 2)
         else if n = eq then (TLessEq, 2)
         else (TLess, 1))
      else if c = CHR ''+'' then (if n = eq then (TPlusEq, 2) else (TPlus, 1))
      else if c = CHR ''-'' then
        (if n = eq then (TMinusEq, 2)
         else if n = CHR ''>'' then (TArrow, 2)
         else (TMinus, 1))
      else if c = CHR ''*'' then
        (if n = CHR ''*'' \<and> m = eq then (TStarStarEq, 3)
         else if n = CHR ''*'' then (TStarStar, 2)
         else if n = eq then (TStarEq, 2)
         else (TStar, 1))
      else if c = CHR ''/'' then (if n = eq then (TSlashEq, 2) else (TSlash, 1))
      else if c = CHR ''%'' then (if n = eq then (TPercentEq, 2) else (TPercent, 1))
      else if c = CHR ''&'' then
        (if n = CHR ''&'' then (TAmpAmp, 2)
         else if n = eq then (TAmpEq, 2)
         else (TAmp, 1))
      else if c = CHR ''|'' then
        (if n = CHR ''|'' then (TPipePipe, 2)
         else if n = eq then (TPipeEq, 2)
         else (TPipe, 1))
      else if c = CHR ''^'' then (if n = eq then (TCaretEq, 2) else (TCaret, 1))
      else (TError, 1))"

text \<open>The length of the UTF-8 scalar that a stray byte leads, by its high bits.\<close>

definition scalar_width :: "char \<Rightarrow> nat" where
  "scalar_width c =
     (let lead = (of_nat (byte c) :: u8)
      in if lead AND 0xE0 = 0xC0 then 2
         else if lead AND 0xF0 = 0xE0 then 3
         else if lead AND 0xF8 = 0xF0 then 4
         else 1)"

definition lex_symbol :: "string \<Rightarrow> file_id \<Rightarrow> lexer \<Rightarrow> lexer" where
  "lex_symbol bytes fid s =
     (let start = lx_pos s; c = peek_at bytes start;
          (kind, width) = symbol_kind c (peek_at bytes (start + 1)) (peek_at bytes (start + 2))
      in if kind = TError then
           (let w = scalar_width c;
                scalar = (if start + w > length bytes then length bytes - start else w)
            in set_pos (start + scalar)
                 (emit_error fid start scalar kLexerInvalidChar ''invalid character'' s))
         else put_token fid kind start width (set_pos (start + width) s))"

subsection \<open>The token loop\<close>

text \<open>One turn of the loop of \<^verbatim>\<open>tokenize\<close> behind the trivia: dispatch on the current byte.\<close>

definition lex_token :: "string \<Rightarrow> file_id \<Rightarrow> lexer \<Rightarrow> lexer" where
  "lex_token bytes fid s =
     (let c = peek_at bytes (lx_pos s)
      in if c = CHR 0x00 then
           set_pos (lx_pos s + 1)
             (emit_error fid (lx_pos s) 1 kLexerInvalidChar ''invalid character'' s)
         else if is_alpha c \<or> c = CHR ''_'' then lex_identifier bytes fid s
         else if is_digit c then lex_number bytes fid s
         else if c = CHR 0x22 then lex_string bytes fid s
         else if c = CHR 0x27 then lex_char bytes fid s
         else lex_symbol bytes fid s)"


subsection \<open>What one step of the lexer does\<close>

text \<open>
  A step appends tokens that lie in order between the old and the new position, and reports
  exactly the error tokens among them. Token positions are tracked as natural numbers
  (\<open>raw\<close> tokens) and only cut to 32 bits by \<open>mk_tok\<close>.
\<close>

type_synonym raw = "token_kind \<times> nat \<times> nat"

definition mk_tok :: "file_id \<Rightarrow> raw \<Rightarrow> token" where
  "mk_tok fid r = (case r of (k, st, ln) \<Rightarrow> \<lparr>tok_kind = k, tok_span = span_at fid st ln\<rparr>)"

fun ordered :: "nat \<Rightarrow> raw list \<Rightarrow> nat \<Rightarrow> bool" where
  "ordered lo [] hi \<longleftrightarrow> lo \<le> hi"
| "ordered lo ((k, st, ln) # rs) hi \<longleftrightarrow> lo \<le> st \<and> 0 < ln \<and> ordered (st + ln) rs hi"

definition lexer_diag :: "file_id \<Rightarrow> raw \<Rightarrow> diagnostic \<Rightarrow> bool" where
  "lexer_diag fid r d \<longleftrightarrow> is_error d \<and> has_primary_span d \<and>
     primary_span d = tok_span (mk_tok fid r) \<and> 4000 \<le> diag_code d \<and> diag_code d \<le> 4005"

definition error_raws :: "raw list \<Rightarrow> raw list" where
  "error_raws rs = filter (\<lambda>r. fst r = TError) rs"

definition lexes :: "file_id \<Rightarrow> lexer \<Rightarrow> raw list \<Rightarrow> lexer \<Rightarrow> bool" where
  "lexes fid s rs s' \<longleftrightarrow>
     lx_out s' = lx_out s @ map (mk_tok fid) rs \<and>
     ordered (lx_pos s) rs (lx_pos s') \<and>
     TEof \<notin> fst ` set rs \<and>
     (bag_inv (lx_bag s) \<longrightarrow> bag_inv (lx_bag s')) \<and>
     (\<exists>ds. entries (lx_bag s') = entries (lx_bag s) @ ds \<and>
        list_all2 (lexer_diag fid) (error_raws rs) ds)"

lemma ordered_le: "ordered lo rs hi \<Longrightarrow> lo \<le> hi"
  by (induction lo rs hi rule: ordered.induct) auto

lemma ordered_weaken: "ordered lo rs hi \<Longrightarrow> lo' \<le> lo \<Longrightarrow> ordered lo' rs hi"
  by (cases rs) (auto intro: le_trans)

lemma ordered_append: "ordered lo rs mid \<Longrightarrow> ordered mid rs' hi \<Longrightarrow> ordered lo (rs @ rs') hi"
  by (induction lo rs mid rule: ordered.induct) (auto intro: ordered_weaken)

lemma lexes_trans: "lexes fid s rs s' \<Longrightarrow> lexes fid s' rs' s'' \<Longrightarrow> lexes fid s (rs @ rs') s''"
  unfolding lexes_def error_raws_def
  by (auto intro: ordered_append list_all2_appendI)

lemma lexes_move: "lx_pos s \<le> i \<Longrightarrow> lexes fid s [] (set_pos i s)"
  by (simp add: lexes_def error_raws_def)

lemma lexes_refl [simp]: "lexes fid s [] s"
  by (simp add: lexes_def error_raws_def)

lemma lexes_pos: "lexes fid s rs s' \<Longrightarrow> lx_pos s \<le> lx_pos s'"
  by (auto simp: lexes_def dest: ordered_le)

lemma lexes_put:
  assumes "lx_pos s \<le> st" and "0 < ln" and "st + ln \<le> i" and "k \<noteq> TEof" and "k \<noteq> TError"
  shows "lexes fid s [(k, st, ln)] (put_token fid k st ln (set_pos i s))"
  using assms by (simp add: lexes_def error_raws_def mk_tok_def put_token_def)

lemma lexes_error:
  assumes "lx_pos s \<le> st" and "0 < ln" and "st + ln \<le> i" and "4000 \<le> code" and "code \<le> 4005"
  shows "lexes fid s [(TError, st, ln)] (emit_error fid st ln code m (set_pos i s))"
  using assms by (simp add: lexes_def error_raws_def mk_tok_def emit_error_def lexer_diag_def)

lemma set_pos_emit_error:
  "set_pos i (emit_error fid st ln code m s) = emit_error fid st ln code m (set_pos i s)"
  by (simp add: set_pos_def emit_error_def)

text \<open>
  The furthest a step may go: the end of the input, and one further when the last byte is a
  backslash, since the escape branches of the quoted literals always skip two bytes.
\<close>

definition lex_bound :: "string \<Rightarrow> nat" where
  "lex_bound bytes =
     length bytes + (if bytes \<noteq> [] \<and> last bytes = CHR 0x5C then 1 else 0)"

lemma lex_bound_ge: "length bytes \<le> lex_bound bytes"
  by (simp add: lex_bound_def)

text \<open>One token starting at the current position, recorded as the last significant one unless it is an error.\<close>

definition lexes_one :: "string \<Rightarrow> file_id \<Rightarrow> lexer \<Rightarrow> lexer \<Rightarrow> bool" where
  "lexes_one bytes fid s s' \<longleftrightarrow>
     (\<exists>k ln. lexes fid s [(k, lx_pos s, ln)] s' \<and> lx_pos s' = lx_pos s + ln \<and> 0 < ln \<and>
        lx_pos s' \<le> lex_bound bytes \<and> lx_last s' = (if k = TError then lx_last s else k))"

lemma lexes_one_put:
  assumes "lx_pos s < i" and "i \<le> lex_bound bytes" and "k \<noteq> TEof" and "k \<noteq> TError"
  shows "lexes_one bytes fid s (put_token fid k (lx_pos s) (i - lx_pos s) (set_pos i s))"
  unfolding lexes_one_def
  using assms by (intro exI [of _ k] exI [of _ "i - lx_pos s"]) (auto intro: lexes_put)

lemma lexes_one_error:
  assumes "lx_pos s < i" and "i \<le> lex_bound bytes" and "4000 \<le> code" and "code \<le> 4005"
  shows "lexes_one bytes fid s (emit_error fid (lx_pos s) (i - lx_pos s) code m (set_pos i s))"
  unfolding lexes_one_def
  using assms by (intro exI [of _ TError] exI [of _ "i - lx_pos s"]) (auto intro: lexes_error)

lemmas code_defs = kLexerInvalidChar_def kLexerUnterminatedString_def
  kLexerUnterminatedChar_def kLexerInvalidNumber_def kLexerUnterminatedBlockComment_def
  kLexerInvalidEscape_def

subsection \<open>Each operation makes progress\<close>

lemma keyword_scan_in: "keyword_scan t w = TIdent \<or> keyword_scan t w \<in> snd ` set t"
  by (induction t w rule: keyword_scan.induct) auto

lemma lookup_keyword_ok [simp]: "lookup_keyword w \<noteq> TEof" "lookup_keyword w \<noteq> TError"
proof -
  have t: "list_all (\<lambda>k. k \<noteq> TEof \<and> k \<noteq> TError) (map snd kKeywords)"
    by (simp add: kKeywords_def)
  have "lookup_keyword w = TIdent \<or> lookup_keyword w \<in> set (map snd kKeywords)"
    using keyword_scan_in [of kKeywords w] by (simp add: lookup_keyword_def)
  with t have "lookup_keyword w \<noteq> TEof \<and> lookup_keyword w \<noteq> TError"
    unfolding list_all_iff by auto
  then show "lookup_keyword w \<noteq> TEof" "lookup_keyword w \<noteq> TError" by simp_all
qed

lemma lex_identifier_one:
  assumes "lx_pos s < length bytes"
    and "is_alpha (peek_at bytes (lx_pos s)) \<or> peek_at bytes (lx_pos s) = CHR ''_''"
  shows "lexes_one bytes fid s (lex_identifier bytes fid s)"
proof -
  have "lx_pos s < scan_while is_alnum_or_underscore bytes (lx_pos s)"
    using assms by (intro scan_while_step) (auto simp: is_alnum_or_underscore_def peek_at_def)
  moreover have "scan_while is_alnum_or_underscore bytes (lx_pos s) \<le> lex_bound bytes"
    using assms(1) by (intro le_trans [OF scan_while_le lex_bound_ge]) simp
  ultimately show ?thesis
    unfolding lex_identifier_def Let_def by (intro lexes_one_put) simp_all
qed

lemma base_digits_range:
  "i \<le> length bytes \<Longrightarrow> base_digits bytes base i n t = (e, n', t') \<Longrightarrow> i \<le> e \<and> e \<le> length bytes"
proof (induction bytes base i n t rule: base_digits.induct)
  case (1 bytes base i n t)
  then show ?case
    by (subst (asm) (2) base_digits.simps) (auto simp: Let_def split: if_splits)
qed

lemma alnum_run_range: "i \<le> length bytes \<Longrightarrow> i \<le> alnum_run bytes i \<and> alnum_run bytes i \<le> length bytes"
  by (simp add: alnum_run_def scan_while_le)

lemma digit_run_range: "i \<le> length bytes \<Longrightarrow> i \<le> digit_run bytes i \<and> digit_run bytes i \<le> length bytes"
  by (simp add: digit_run_def scan_while_le)

lemma fraction_end_range:
  "i \<le> length bytes \<Longrightarrow> fraction_end bytes i = (e, f) \<Longrightarrow> i \<le> e \<and> e \<le> length bytes"
  using digit_run_range [of "i + 1" bytes]
  by (auto simp: fraction_end_def split: if_splits dest: peek_at_in)

lemma digit_in: "is_digit (peek_at bytes i) \<Longrightarrow> i < length bytes"
  by (auto simp: is_digit_def peek_at_def split: if_splits)

lemma exponent_end_range:
  "i \<le> length bytes \<Longrightarrow> exponent_end bytes i = (e, f) \<Longrightarrow> i \<le> e \<and> e \<le> length bytes"
  using digit_run_range [of "i + 1" bytes] digit_run_range [of "i + 2" bytes]
  by (auto simp: exponent_end_def Let_def split: if_splits dest: digit_in)

lemma invalid_number_one:
  assumes "lx_pos s < e" and "e \<le> length bytes"
  shows "lexes_one bytes fid s (invalid_number fid (lx_pos s) e s)"
  unfolding invalid_number_def using assms le_trans [OF _ lex_bound_ge]
  by (intro lexes_one_error) (simp_all add: code_defs)

lemma finish_number_one:
  assumes "lx_pos s < i" and "i \<le> length bytes"
  shows "lexes_one bytes fid s (finish_number bytes fid (lx_pos s) i f s)"
proof -
  let ?e = "if i < length bytes \<and> (is_alpha (peek_at bytes i) \<or> peek_at bytes i = CHR ''_'')
            then alnum_run bytes (i + 1) else i"
  have "i \<le> ?e \<and> ?e \<le> length bytes"
    using assms alnum_run_range [of "i + 1" bytes] by auto
  then have "lx_pos s < ?e" and "?e \<le> lex_bound bytes"
    using assms(1) le_trans [OF _ lex_bound_ge] by auto
  then show ?thesis unfolding finish_number_def Let_def by (intro lexes_one_put) simp_all
qed

lemma lex_number_one:
  assumes pos: "lx_pos s < length bytes" and dig: "is_digit (peek_at bytes (lx_pos s))"
  shows "lexes_one bytes fid s (lex_number bytes fid s)"
proof (cases "peek_at bytes (lx_pos s) = CHR ''0'' \<and> peek_at bytes (lx_pos s + 1) \<in> set
    [CHR ''b'', CHR ''B'', CHR ''o'', CHR ''O'', CHR ''x'', CHR ''X'']")
  case True
  obtain i n t where b: "base_digits bytes (peek_at bytes (lx_pos s + 1)) (lx_pos s + 2) 0 False
      = (i, n, t)" by (metis prod_cases3)
  from True have "lx_pos s + 1 < length bytes" by (auto dest: peek_at_in)
  then have i: "lx_pos s + 2 \<le> i" "i \<le> length bytes" using base_digits_range [OF _ b] by auto
  have r: "i \<le> alnum_run bytes i" "alnum_run bytes i \<le> length bytes"
    using alnum_run_range [OF i(2)] by auto
  have "lex_number bytes fid s =
    (if n = 0 then invalid_number fid (lx_pos s) (alnum_run bytes i) s
     else if t \<and> \<not> is_alpha (peek_at bytes i) then invalid_number fid (lx_pos s) i s
     else if is_digit (peek_at bytes i) then invalid_number fid (lx_pos s) (alnum_run bytes i) s
     else finish_number bytes fid (lx_pos s) (alnum_run bytes i) False s)"
    using True unfolding lex_number_def Let_def by (simp only: b if_True simp_thms prod.case)
  then show ?thesis using i r by (auto intro: invalid_number_one finish_number_one)
next
  case False
  obtain i2 f1 where f: "fraction_end bytes (digit_run bytes (lx_pos s)) = (i2, f1)" by force
  obtain i3 f2 where e: "exponent_end bytes i2 = (i3, f2)" by force
  have "lx_pos s < digit_run bytes (lx_pos s)"
    unfolding digit_run_def using pos dig by (intro scan_while_step) (simp_all add: peek_at_def)
  moreover have "digit_run bytes (lx_pos s) \<le> length bytes"
    using digit_run_range [of "lx_pos s" bytes] pos by simp
  ultimately have i3: "lx_pos s < i3" "i3 \<le> length bytes"
    using fraction_end_range [OF _ f] exponent_end_range [OF _ e] by auto
  have "lex_number bytes fid s =
    (if bytes ! (i3 - 1) = CHR ''_'' \<and> \<not> is_alpha (peek_at bytes i3)
     then invalid_number fid (lx_pos s) i3 s
     else finish_number bytes fid (lx_pos s) i3 (f1 \<or> f2) s)"
    using False unfolding lex_number_def Let_def by (simp only: f e if_False prod.case)
  then show ?thesis using i3 by (auto intro: invalid_number_one finish_number_one)
qed


lemma backslash_last:
  assumes "i < length bytes" and "peek_at bytes i = CHR 0x5C"
  shows "i + 2 \<le> lex_bound bytes"
proof (cases "i + 1 < length bytes")
  case True
  then show ?thesis using lex_bound_ge [of bytes] by linarith
next
  case False
  then have "i = length bytes - 1" and "bytes \<noteq> []" using assms(1) by auto
  moreover have "bytes ! i = CHR 0x5C" using assms by (simp add: peek_at_def)
  ultimately have "last bytes = CHR 0x5C" by (simp add: last_conv_nth)
  with \<open>bytes \<noteq> []\<close> False assms(1) show ?thesis by (simp add: lex_bound_def)
qed

lemma quoted_loop_range:
  "i \<le> lex_bound bytes \<Longrightarrow> i \<le> fst (quoted_loop q bytes i b e) \<and>
     fst (quoted_loop q bytes i b e) \<le> lex_bound bytes"
proof (induction "lex_bound bytes - i" arbitrary: i b e rule: less_induct)
  case less
  have step: "i \<le> fst (quoted_loop q bytes j b' e')" "fst (quoted_loop q bytes j b' e') \<le> lex_bound bytes"
    if "i < j" and "j \<le> lex_bound bytes" for j b' e'
  proof -
    have "lex_bound bytes - j < lex_bound bytes - i" using that by linarith
    from less.hyps [OF this that(2), of b' e'] that(1)
    show "i \<le> fst (quoted_loop q bytes j b' e')" "fst (quoted_loop q bytes j b' e') \<le> lex_bound bytes"
      by linarith+
  qed
  show ?case
  proof (cases "i < length bytes")
    case False
    then show ?thesis using less.prems by (subst (1 2) quoted_loop.simps) simp
  next
    case True
    have one: "i + 1 \<le> lex_bound bytes" using True lex_bound_ge [of bytes] by simp
    have two: "peek_at bytes i = CHR 0x5C \<Longrightarrow> i + 2 \<le> lex_bound bytes"
      by (rule backslash_last [OF True])
    have uni: "unicode_escape bytes i = Some u \<Longrightarrow> i < u \<and> u \<le> lex_bound bytes" for u
      using unicode_escape_gt [of bytes i u] lex_bound_ge [of bytes] by auto
    note s1 = step [of "i + 1", OF _ one] and s2 = step [of "i + 2", OF _ two]
    show ?thesis
    proof (cases "peek_at bytes i = CHR 0x5C \<and> peek_at bytes i \<noteq> q \<and> peek_at bytes (i + 1) \<noteq> newline")
      case esc: True
      have eq: "quoted_loop q bytes i b e =
        (case (if peek_at bytes (i + 1) = CHR ''u'' then unicode_escape bytes i else None) of
           Some u \<Rightarrow> quoted_loop q bytes u b False
         | None \<Rightarrow> quoted_loop q bytes (i + 2)
             (b \<or> peek_at bytes (i + 1) = CHR ''u'' \<or> \<not> is_valid_escape (peek_at bytes (i + 1))) False)"
        using esc True by (subst quoted_loop.simps) (auto simp: Let_def split: option.split)
      obtain j b' e' where j: "quoted_loop q bytes i b e = quoted_loop q bytes j b' e'"
          and "j = i + 2 \<or> unicode_escape bytes i = Some j"
      proof (cases "if peek_at bytes (i + 1) = CHR ''u'' then unicode_escape bytes i else None")
        case None
        show thesis by (rule that [OF eq [unfolded None option.case]]) simp
      next
        case (Some u)
        show thesis
          by (rule that [OF eq [unfolded Some option.case]]) (use Some in \<open>simp split: if_splits\<close>)
      qed
      then have "i < j \<and> j \<le> lex_bound bytes" using two uni esc by auto
      then show ?thesis unfolding j using step [of j b' e'] by simp
    next
      case False
      then show ?thesis using True one step [of "i + 1" b False]
        by (subst (1 2) quoted_loop.simps) (auto simp: Let_def)
    qed
  qed
qed

lemma quoted_one:
  assumes "lx_pos s < length bytes"
    and "quoted_loop q bytes (lx_pos s + 1) False True = (e, t, b, m)"
  shows "lx_pos s < e \<and> e \<le> lex_bound bytes"
  using quoted_loop_range [of "lx_pos s + 1" bytes q False True] assms lex_bound_ge [of bytes]
  by simp

lemma lex_string_one:
  assumes "lx_pos s < length bytes"
  shows "lexes_one bytes fid s (lex_string bytes fid s)"
proof -
  obtain e t b m where q: "quoted_loop (CHR 0x22) bytes (lx_pos s + 1) False True = (e, t, b, m)"
    by (metis prod_cases4)
  from quoted_one [OF assms q] show ?thesis
    unfolding lex_string_def Let_def q
    by (auto intro!: lexes_one_put lexes_one_error simp: code_defs)
qed

lemma lex_char_one:
  assumes "lx_pos s < length bytes"
  shows "lexes_one bytes fid s (lex_char bytes fid s)"
proof -
  obtain e t b m where q: "quoted_loop (CHR 0x27) bytes (lx_pos s + 1) False True = (e, t, b, m)"
    by (metis prod_cases4)
  from quoted_one [OF assms q] show ?thesis
    unfolding lex_char_def Let_def q
    by (auto intro!: lexes_one_put lexes_one_error simp: code_defs)
qed

text \<open>A symbol of two or three bytes was read byte by byte, so it lies inside the input.\<close>

lemma symbol_kind_width:
  assumes "symbol_kind c n m = (k, w)"
  shows "k \<noteq> TEof \<and> 0 < w \<and> (w = 1 \<or> (w = 2 \<and> n \<noteq> CHR 0x00) \<or> (w = 3 \<and> m \<noteq> CHR 0x00))"
  using assms unfolding symbol_kind_def Let_def by (auto split: if_splits)

lemma scalar_width_pos: "0 < scalar_width c"
  by (simp add: scalar_width_def Let_def)

lemma lex_symbol_one:
  assumes "lx_pos s < length bytes"
  shows "lexes_one bytes fid s (lex_symbol bytes fid s)"
proof -
  let ?p = "lx_pos s" and ?c = "peek_at bytes (lx_pos s)"
  obtain k w where k: "symbol_kind ?c (peek_at bytes (?p + 1)) (peek_at bytes (?p + 2)) = (k, w)"
    by force
  have w: "k \<noteq> TEof" "0 < w" "?p + w \<le> length bytes"
    using symbol_kind_width [OF k] assms by (auto simp: peek_at_def split: if_splits)
  show ?thesis
  proof (cases "k = TError")
    case False
    have "lexes_one bytes fid s (put_token fid k ?p (?p + w - ?p) (set_pos (?p + w) s))"
      using w False le_trans [OF w(3) lex_bound_ge] by (intro lexes_one_put) auto
    then show ?thesis using False by (simp add: lex_symbol_def Let_def k [simplified])
  next
    case True
    let ?u = "scalar_width ?c"
    let ?sc = "if ?p + ?u > length bytes then length bytes - ?p else ?u"
    have sc: "?p < ?p + ?sc" "?p + ?sc \<le> lex_bound bytes"
      using assms scalar_width_pos [of ?c] lex_bound_ge [of bytes] by auto
    have "lexes_one bytes fid s (emit_error fid ?p (?p + ?sc - ?p) kLexerInvalidChar
        ''invalid character'' (set_pos (?p + ?sc) s))"
      by (intro lexes_one_error sc) (simp_all add: code_defs)
    then show ?thesis using True
      by (simp add: lex_symbol_def Let_def k [simplified] set_pos_emit_error)
  qed
qed

lemma lex_token_one:
  assumes "lx_pos s < length bytes"
  shows "lexes_one bytes fid s (lex_token bytes fid s)"
proof -
  have "lexes_one bytes fid s (emit_error fid (lx_pos s) (lx_pos s + 1 - lx_pos s)
      kLexerInvalidChar ''invalid character'' (set_pos (lx_pos s + 1) s))"
    using assms lex_bound_ge [of bytes]
    by (intro lexes_one_error) (simp_all add: code_defs)
  then have "lexes_one bytes fid s (set_pos (lx_pos s + 1)
      (emit_error fid (lx_pos s) 1 kLexerInvalidChar ''invalid character'' s))"
    by (simp add: set_pos_emit_error)
  then show ?thesis unfolding lex_token_def Let_def
    using assms by (auto intro: lex_identifier_one lex_number_one lex_string_one lex_char_one
        lex_symbol_one)
qed

lemma lex_token_progress [progress]:
  "lx_pos s < length bytes \<Longrightarrow> lx_pos s < lx_pos (lex_token bytes fid s)"
  using lex_token_one [of s bytes fid] by (auto simp: lexes_one_def)


text \<open>
  Where the trivia loop stops: at the end, or on a byte that starts no trivia.
\<close>

definition at_trivia :: "string \<Rightarrow> nat \<Rightarrow> bool" where
  "at_trivia bytes i \<longleftrightarrow> i < length bytes \<and>
     (is_space (peek_at bytes i) \<or> peek_at bytes i = newline \<or>
      (peek_at bytes i = CHR ''/'' \<and>
       (peek_at bytes (i + 1) = CHR ''/'' \<or> peek_at bytes (i + 1) = CHR ''*'')))"

lemma block_comment_le:
  "i \<le> length bytes \<Longrightarrow> fst (block_comment bytes i d) \<le> length bytes"
proof (induction bytes i d rule: block_comment.induct)
  case (1 bytes i d)
  show ?case
  proof (cases "i < length bytes \<and> d > 0")
    case True
    have two: "c \<noteq> CHR 0x00 \<Longrightarrow> peek_at bytes (i + 1) = c \<Longrightarrow> i + 2 \<le> length bytes" for c
      using peek_at_in [of bytes "i + 1" c] by simp
    show ?thesis using True "1.IH" two
      by (subst block_comment.simps) auto
  qed (use "1.prems" in \<open>subst block_comment.simps; auto\<close>)
qed

text \<open>The loop body as one step: what it did, and the state it goes on from, or \<open>None\<close> to stop.\<close>

definition trivia_step :: "string \<Rightarrow> file_id \<Rightarrow> lexer \<Rightarrow> lexer option" where
  "trivia_step bytes fid s =
     (let pos = lx_pos s; c = peek_at bytes pos
      in if \<not> at_trivia bytes pos then None
         else if is_space c then Some (set_pos (pos + 1) s)
         else if c = newline then
           (if inserts_semi (lx_last s) \<and> \<not> suppress_semi (peek_next_kind bytes (pos + 1))
            then Some (put_token fid TSemicolon pos 1 (set_pos (pos + 1) s))
            else Some (set_pos (pos + 1) s))
         else if peek_at bytes (pos + 1) = CHR ''/'' then
           (if peek_at bytes (pos + 2) = CHR ''/'' \<and> peek_at bytes (pos + 3) \<noteq> CHR ''/''
            then (let e = scan_while (\<lambda>c. c \<noteq> newline) bytes (pos + 3)
                  in Some (put_token fid TDocComment pos (e - pos) (set_pos e s)))
            else Some (set_pos (scan_while (\<lambda>c. c \<noteq> newline) bytes pos) s))
         else
           (let (e, depth) = block_comment bytes (pos + 2) 1
            in if depth > 0 then
                 Some (emit_error fid pos (e - pos) kLexerUnterminatedBlockComment
                   ''unterminated block comment'' (set_pos e s))
               else Some (set_pos e s)))"

lemma skip_trivia_step:
  "skip_trivia bytes fid s =
     (case trivia_step bytes fid s of None \<Rightarrow> s | Some s' \<Rightarrow> skip_trivia bytes fid s')"
proof (cases "lx_pos s < length bytes")
  case False
  then show ?thesis
    by (subst skip_trivia.simps) (simp add: trivia_step_def at_trivia_def Let_def)
next
  case True
  then show ?thesis
    by (subst skip_trivia.simps)
       (auto simp: trivia_step_def at_trivia_def Let_def is_space_def split: prod.split)
qed

lemma trivia_step_lexes:
  assumes "trivia_step bytes fid s = Some s'"
  shows "(\<exists>rs. lexes fid s rs s') \<and> lx_pos s < lx_pos s' \<and> lx_pos s' \<le> length bytes"
proof -
  let ?p = "lx_pos s" and ?nl = "\<lambda>c. c \<noteq> newline"
  have at: "at_trivia bytes ?p" using assms by (auto simp: trivia_step_def Let_def split: if_splits)
  then have p: "?p < length bytes" by (simp add: at_trivia_def)
  obtain e d where b: "block_comment bytes (?p + 2) 1 = (e, d)" by force
  have e2: "?p + 2 \<le> e" by (metis b block_comment_ge fst_conv)
  have sl: "peek_at bytes (?p + 1) = CHR ''/'' \<Longrightarrow> ?p + 1 < length bytes"
    "peek_at bytes (?p + 1) = CHR ''*'' \<Longrightarrow> ?p + 1 < length bytes"
    "peek_at bytes (?p + 2) = CHR ''/'' \<Longrightarrow> ?p + 2 < length bytes"
    by (auto dest: peek_at_in)
  consider (sp) "s' = set_pos (?p + 1) s"
    | (semi) "s' = put_token fid TSemicolon ?p 1 (set_pos (?p + 1) s)"
    | (doc) u where "?p + 2 < length bytes" "u = scan_while ?nl bytes (?p + 3)"
        "s' = put_token fid TDocComment ?p (u - ?p) (set_pos u s)"
    | (line) "peek_at bytes ?p = CHR ''/''" "s' = set_pos (scan_while ?nl bytes ?p) s"
    | (bad) "?p + 1 < length bytes" "s' = emit_error fid ?p (e - ?p)
        kLexerUnterminatedBlockComment ''unterminated block comment'' (set_pos e s)"
    | (block) "?p + 1 < length bytes" "s' = set_pos e s"
    using assms at sl unfolding trivia_step_def at_trivia_def Let_def b
    by (auto split: if_splits)
  then show ?thesis
  proof cases
    case sp
    then show ?thesis using p lexes_move [of s "?p + 1" fid] by auto
  next
    case semi
    then show ?thesis using p lexes_put [of s ?p 1 "?p + 1" TSemicolon fid] by auto
  next
    case doc
    then have "?p < u" and "u \<le> length bytes"
      using less_le_trans [OF _ scan_while_ge, of ?p "?p + 3" ?nl bytes] scan_while_le [of "?p + 3" bytes ?nl]
      by auto
    then show ?thesis using doc lexes_put [of s ?p "u - ?p" u TDocComment fid] by auto
  next
    case line
    have "?p < scan_while ?nl bytes ?p"
      using p line by (intro scan_while_step) (auto simp: peek_at_def)
    then show ?thesis
      using p line lexes_move [of s "scan_while ?nl bytes ?p" fid] scan_while_le [of ?p bytes ?nl] by auto
  next
    case bad
    then have "?p < e" and "e \<le> length bytes"
      using e2 block_comment_le [of "?p + 2" bytes 1] b by auto
    then show ?thesis
      using bad lexes_error [of s ?p "e - ?p" e kLexerUnterminatedBlockComment fid] by (auto simp: code_defs)
  next
    case block
    then have "?p < e" and "e \<le> length bytes"
      using e2 block_comment_le [of "?p + 2" bytes 1] b by auto
    then show ?thesis using block lexes_move [of s e fid] by auto
  qed
qed

lemma skip_trivia_lexes:
  "(\<exists>rs. lexes fid s rs (skip_trivia bytes fid s)) \<and>
   (lx_pos s \<le> length bytes \<longrightarrow> lx_pos (skip_trivia bytes fid s) \<le> length bytes) \<and>
   \<not> at_trivia bytes (lx_pos (skip_trivia bytes fid s))"
proof (induction "length bytes - lx_pos s" arbitrary: s rule: less_induct)
  case less
  show ?case
  proof (cases "trivia_step bytes fid s")
    case None
    then have "\<not> at_trivia bytes (lx_pos s)"
      by (auto simp: trivia_step_def Let_def split: if_splits prod.splits)
    then show ?thesis using None skip_trivia_step [of bytes fid s] by (auto intro: exI [of _ "[]"])
  next
    case (Some s')
    from trivia_step_lexes [OF Some] obtain rs where
      rs: "lexes fid s rs s'" and pos: "lx_pos s < lx_pos s'" "lx_pos s' \<le> length bytes" by blast
    then have "length bytes - lx_pos s' < length bytes - lx_pos s" by linarith
    from less.hyps [OF this] pos(2) obtain rs' where
      "lexes fid s' rs' (skip_trivia bytes fid s')"
      "lx_pos (skip_trivia bytes fid s') \<le> length bytes"
      "\<not> at_trivia bytes (lx_pos (skip_trivia bytes fid s'))" by blast
    then show ?thesis
      using Some rs skip_trivia_step [of bytes fid s] by (auto intro: lexes_trans)
  qed
qed

lemma skip_trivia_pos [progress]: "lx_pos s \<le> lx_pos (skip_trivia bytes fid s)"
  using skip_trivia_lexes [of fid s bytes] by (auto dest: lexes_pos)

function lex_loop :: "string \<Rightarrow> file_id \<Rightarrow> lexer \<Rightarrow> lexer" where
  "lex_loop bytes fid s =
     (let s1 = skip_trivia bytes fid s
      in if lx_pos s1 \<ge> length bytes then s1
         else lex_loop bytes fid (lex_token bytes fid s1))"
  by pat_completeness auto
termination
proof (relation "measure (\<lambda>(bytes, fid, s). length bytes - lx_pos s)", goal_cases)
  case (2 bytes fid s s1)
  then have "lx_pos s \<le> lx_pos s1" and "lx_pos s1 < lx_pos (lex_token bytes fid s1)"
    using skip_trivia_pos lex_token_progress by auto
  with 2 show ?case by simp
qed simp

declare lex_loop.simps [simp del]

definition tokenize :: "string \<Rightarrow> file_id \<Rightarrow> diag_bag \<Rightarrow> token list \<Rightarrow> diag_bag \<times> token list" where
  "tokenize bytes fid bag out =
     (let s = lex_loop bytes fid
            \<lparr>lx_pos = 0, lx_last = TEof, lx_bag = bag, lx_out = out\<rparr>;
          s' = put_token fid TEof (lx_pos s) 0 s
      in (lx_bag s', lx_out s'))"

end
