(* ===== verification/Lexer_Spec.thy ===== *)
theory Lexer_Spec
  imports Lexer
begin

text \<open>
  What \<^verbatim>\<open>Lexer::tokenize\<close> promises: one end marker, tokens in order and inside the
  input, an error token for each diagnostic, and token texts that spell their kinds.
\<close>

subsection \<open>The whole run\<close>

lemma skip_trivia_end: "length bytes \<le> lx_pos s \<Longrightarrow> skip_trivia bytes fid s = s"
  by (subst skip_trivia.simps) simp

lemma skip_trivia_bound:
  "lx_pos s \<le> lex_bound bytes \<Longrightarrow> lx_pos (skip_trivia bytes fid s) \<le> lex_bound bytes"
  using skip_trivia_lexes [of fid s bytes] skip_trivia_end [of bytes s fid] lex_bound_ge [of bytes]
  by (cases "lx_pos s \<le> length bytes") auto

lemma lex_loop_lexes:
  "lx_pos s \<le> lex_bound bytes \<Longrightarrow>
     \<exists>rs. lexes fid s rs (lex_loop bytes fid s) \<and> length bytes \<le> lx_pos (lex_loop bytes fid s) \<and>
       lx_pos (lex_loop bytes fid s) \<le> lex_bound bytes"
proof (induction bytes fid s rule: lex_loop.induct)
  case (1 bytes fid s)
  let ?s1 = "skip_trivia bytes fid s"
  obtain rs where rs: "lexes fid s rs ?s1" using skip_trivia_lexes by blast
  have b: "lx_pos ?s1 \<le> lex_bound bytes" by (rule skip_trivia_bound [OF "1.prems"])
  show ?case
  proof (cases "length bytes \<le> lx_pos ?s1")
    case True
    then show ?thesis using rs b by (subst (1 2 3) lex_loop.simps) (auto simp: Let_def)
  next
    case False
    let ?s2 = "lex_token bytes fid ?s1"
    from False have "lexes_one bytes fid ?s1 ?s2" by (intro lex_token_one) simp
    then obtain r where r: "lexes fid ?s1 [r] ?s2" and p: "lx_pos ?s2 \<le> lex_bound bytes"
      by (auto simp: lexes_one_def)
    from "1.IH" [OF refl False p] obtain rs' where
      rs': "lexes fid ?s2 rs' (lex_loop bytes fid ?s2)"
        "length bytes \<le> lx_pos (lex_loop bytes fid ?s2)"
        "lx_pos (lex_loop bytes fid ?s2) \<le> lex_bound bytes" by blast
    have eq: "lex_loop bytes fid s = lex_loop bytes fid ?s2"
      using False by (subst lex_loop.simps) (simp add: Let_def)
    have "lexes fid s (rs @ [r] @ rs') (lex_loop bytes fid ?s2)"
      by (intro lexes_trans [OF rs] lexes_trans [OF r] rs')
    then show ?thesis unfolding eq using rs' by blast
  qed
qed

definition start_state :: "diag_bag \<Rightarrow> token list \<Rightarrow> lexer" where
  "start_state bag out = \<lparr>lx_pos = 0, lx_last = TEof, lx_bag = bag, lx_out = out\<rparr>"

lemma start_state_sel [simp]:
  "lx_pos (start_state bag out) = 0" "lx_bag (start_state bag out) = bag"
  "lx_out (start_state bag out) = out" "lx_last (start_state bag out) = TEof"
  by (simp_all add: start_state_def)

lemma tokenize_run:
  "\<exists>rs e. lexes fid (start_state bag out) rs (lex_loop bytes fid (start_state bag out)) \<and>
     e = lx_pos (lex_loop bytes fid (start_state bag out)) \<and>
     length bytes \<le> e \<and> e \<le> lex_bound bytes \<and>
     fst (tokenize bytes fid bag out) = lx_bag (lex_loop bytes fid (start_state bag out)) \<and>
     snd (tokenize bytes fid bag out) = out @ map (mk_tok fid) (rs @ [(TEof, e, 0)])"
proof -
  obtain rs where rs: "lexes fid (start_state bag out) rs (lex_loop bytes fid (start_state bag out))"
    "length bytes \<le> lx_pos (lex_loop bytes fid (start_state bag out))"
    "lx_pos (lex_loop bytes fid (start_state bag out)) \<le> lex_bound bytes"
    using lex_loop_lexes [of "start_state bag out" bytes fid] by auto
  have "fst (tokenize bytes fid bag out) = lx_bag (lex_loop bytes fid (start_state bag out))"
    "snd (tokenize bytes fid bag out) = lx_out (lex_loop bytes fid (start_state bag out)) @
       [mk_tok fid (TEof, lx_pos (lex_loop bytes fid (start_state bag out)), 0)]"
    by (simp_all add: tokenize_def Let_def start_state_def put_token_def mk_tok_def)
  with rs show ?thesis
    by (intro exI [of _ rs] exI [of _ "lx_pos (lex_loop bytes fid (start_state bag out))"])
       (auto simp: lexes_def)
qed

lemma ordered_within: "ordered lo rs hi \<Longrightarrow> (k, st, ln) \<in> set rs \<Longrightarrow> lo \<le> st \<and> st + ln \<le> hi"
  by (induction lo rs hi rule: ordered.induct) (auto dest: ordered_le)

text \<open>
  C5. Running the lexer only appends to the output and to the bag. The appended tokens are
  in source order without overlap, each covers at least one byte, none is an end marker, and
  exactly one end marker follows them, at the position where the input was used up. Every
  error token has its own diagnostic, with the same span and a lexer code, in the same order,
  and the lexer reports nothing else.
\<close>

theorem tokenize_spec:
  "\<exists>rs e ds.
     snd (tokenize bytes fid bag out) = out @ map (mk_tok fid) (rs @ [(TEof, e, 0)]) \<and>
     ordered 0 rs e \<and> TEof \<notin> fst ` set rs \<and> length bytes \<le> e \<and> e \<le> lex_bound bytes \<and>
     entries (fst (tokenize bytes fid bag out)) = entries bag @ ds \<and>
     list_all2 (lexer_diag fid) (error_raws rs) ds"
proof -
  obtain rs e where
    l: "lexes fid (start_state bag out) rs (lex_loop bytes fid (start_state bag out))" and
    e: "e = lx_pos (lex_loop bytes fid (start_state bag out))" "length bytes \<le> e" "e \<le> lex_bound bytes" and
    t: "fst (tokenize bytes fid bag out) = lx_bag (lex_loop bytes fid (start_state bag out))"
      "snd (tokenize bytes fid bag out) = out @ map (mk_tok fid) (rs @ [(TEof, e, 0)])"
    using tokenize_run by blast
  from l obtain ds where
    "entries (lx_bag (lex_loop bytes fid (start_state bag out))) = entries bag @ ds"
    "list_all2 (lexer_diag fid) (error_raws rs) ds" by (auto simp: lexes_def)
  moreover have "ordered 0 rs e" "TEof \<notin> fst ` set rs" using l e(1) by (auto simp: lexes_def)
  ultimately show ?thesis using t e by metis
qed

definition tok_end :: "token \<Rightarrow> nat" where
  "tok_end t = unat (span_offset (tok_span t)) + unat (span_length (tok_span t))"

text \<open>
  C24. In a file below four gigabytes whose last byte is not a backslash every token span,
  the end marker's included, stays inside the file, and no offset is cut by the 32-bit casts.
\<close>

theorem tokenize_in_bounds:
  assumes "length bytes < 2 ^ 32" and "bytes = [] \<or> last bytes \<noteq> CHR 0x5C"
    and "t \<in> set (snd (tokenize bytes fid bag []))"
  shows "tok_end t \<le> length bytes \<and> span_file (tok_span t) = fid"
proof -
  obtain rs e where
    l: "lexes fid (start_state bag []) rs (lex_loop bytes fid (start_state bag []))" and
    e: "e = lx_pos (lex_loop bytes fid (start_state bag []))" "e \<le> lex_bound bytes" and
    t: "snd (tokenize bytes fid bag []) = [] @ map (mk_tok fid) (rs @ [(TEof, e, 0)])"
    using tokenize_run [of fid bag "[]" bytes] by blast
  have le: "e \<le> length bytes" using e(2) assms(2) by (auto simp: lex_bound_def split: if_splits)
  have "ordered 0 rs e" using l e(1) by (auto simp: lexes_def)
  then have r: "st + ln \<le> e" if "(k, st, ln) \<in> set rs" for k st ln
    using ordered_within that by blast
  from assms(3) t obtain k st ln where
    m: "t = mk_tok fid (k, st, ln)" and i: "(k, st, ln) \<in> set rs \<or> (k, st, ln) = (TEof, e, 0)" by auto
  have b: "st + ln \<le> length bytes" using i r le by (auto intro: le_trans)
  then have "st < 2 ^ 32" "ln < 2 ^ 32" using assms(1) by linarith+
  then show ?thesis using b by (simp add: m mk_tok_def tok_end_def span_at_def)
qed

theorem tokenize_in_bounds_witness:
  "tok_end (last (snd (tokenize ''( '' 7 empty_bag []))) \<le> length ''( '' \<and>
   span_file (tok_span (last (snd (tokenize ''( '' 7 empty_bag [])))) = 7"
proof (rule tokenize_in_bounds [of _ _ 7 empty_bag])
  show "last (snd (tokenize ''( '' 7 empty_bag [])) \<in> set (snd (tokenize ''( '' 7 empty_bag []))"
    by code_simp
qed simp_all

text \<open>
  The exception: an unfinished literal whose last byte is a backslash yields an error
  token, a diagnostic and an end marker that reach one byte past the end of the file.
\<close>

theorem tokenize_past_end:
  "map tok_end (snd (tokenize [CHR 0x22, CHR 0x5C] 7 empty_bag [])) = [3, 3]"
  by code_simp

subsection \<open>Texts and kinds\<close>

text \<open>The spelling of every kind that has only one.\<close>

definition kSymbols :: "(string \<times> token_kind) list" where
  "kSymbols = [
   (''('', TLParen), ('')'', TRParen), (''{'', TLBrace), (''}'', TRBrace), (''['', TLBracket),
   ('']'', TRBracket), ('','', TComma), ('';'', TSemicolon), (''?'', TQuestion), (''#'', THash),
   (''~'', TTilde), (''..='', TDotDotEq), (''..<'', TDotDotLess), (''..'', TDotDot), (''.'', TDot),
   (''::'', TColonColon), ('':='', TColonEq), ('':'', TColon), (''=='', TEqEq),
   (''=>'', TFatArrow), (''='', TEq), (''!='', TBangEq), (''!'', TBang),
   (''>>='', TGreaterGreaterEq), (''>>'', TGreaterGreater), (''>='', TGreaterEq),
   (''>'', TGreater), (''<<='', TLessLessEq), (''<<'', TLessLess), (''<='', TLessEq),
   (''<'', TLess), (''+='', TPlusEq), (''+'', TPlus), (''-='', TMinusEq), (''->'', TArrow),
   (''-'', TMinus), (''**='', TStarStarEq), (''**'', TStarStar), (''*='', TStarEq),
   (''*'', TStar), (''/='', TSlashEq), (''/'', TSlash), (''%='', TPercentEq), (''%'', TPercent),
   (''&&'', TAmpAmp), (''&='', TAmpEq), (''&'', TAmp), (''||'', TPipePipe), (''|='', TPipeEq),
   (''|'', TPipe), (''^='', TCaretEq), (''^'', TCaret)]"

lemma skip_trivia_none: "\<not> at_trivia bytes (lx_pos s) \<Longrightarrow> skip_trivia bytes fid s = s"
  by (subst skip_trivia_step) (simp add: trivia_step_def Let_def)

text \<open>An input that one call of \<open>lex_token\<close> turns into one token.\<close>

lemma tokenize_single:
  assumes "bytes \<noteq> []" and "\<not> at_trivia bytes 0"
    and "lex_token bytes fid (start_state bag out) =
      put_token fid k 0 (length bytes) (set_pos (length bytes) (start_state bag out))"
  shows "tokenize bytes fid bag out =
    (bag, out @ map (mk_tok fid) [(k, 0, length bytes), (TEof, length bytes, 0)])"
proof -
  let ?s = "start_state bag out"
  let ?s1 = "put_token fid k 0 (length bytes) (set_pos (length bytes) ?s)"
  have sk: "skip_trivia bytes fid ?s = ?s" by (rule skip_trivia_none) (simp add: assms(2))
  have "lex_loop bytes fid ?s = lex_loop bytes fid ?s1"
    using assms(1,3) by (subst lex_loop.simps) (simp add: sk Let_def)
  also have "\<dots> = ?s1" by (subst lex_loop.simps) (simp add: skip_trivia_end Let_def)
  finally have run: "lex_loop bytes fid ?s = ?s1" .
  show ?thesis
    unfolding tokenize_def Let_def start_state_def [symmetric] run
    by (simp add: put_token_def mk_tok_def set_pos_def)
qed

definition is_word :: "string \<Rightarrow> bool" where
  "is_word w \<longleftrightarrow> w \<noteq> [] \<and> (is_alpha (hd w) \<or> hd w = CHR ''_'') \<and> list_all is_alnum_or_underscore w"

definition word_kind :: "string \<Rightarrow> token_kind" where
  "word_kind w = (if w = ''_'' then TUnderscore
     else case map_of kKeywords w of Some k \<Rightarrow> k | None \<Rightarrow> TIdent)"

lemma keyword_scan_map_of:
  "keyword_scan t w = (case map_of t w of Some k \<Rightarrow> k | None \<Rightarrow> TIdent)"
  by (induction t w rule: keyword_scan.induct) auto

lemma scan_while_all: "list_all p w \<Longrightarrow> scan_while p w 0 = length w"
  by (simp add: scan_while_eq list_all_iff takeWhile_eq_all_conv [THEN iffD2])

lemma lead_classes:
  "is_alpha c \<or> c = CHR ''_'' \<Longrightarrow> c \<noteq> CHR 0x00 \<and> \<not> is_space c \<and> c \<noteq> newline \<and> c \<noteq> CHR ''/''"
  by (auto simp: is_alpha_def is_space_def)

text \<open>
  C23. An identifier, a keyword or an underscore is one token that covers the whole word,
  whose kind is the table's: a keyword when the table has the word, else an identifier. No
  diagnostic is added.
\<close>

theorem word_roundtrip:
  assumes "is_word w"
  shows "tokenize w fid bag out =
    (bag, out @ map (mk_tok fid) [(word_kind w, 0, length w), (TEof, length w, 0)])"
proof (rule tokenize_single)
  have h: "peek_at w 0 = hd w" "w \<noteq> []" "list_all is_alnum_or_underscore w"
      "is_alpha (hd w) \<or> hd w = CHR ''_''"
    using assms by (auto simp: is_word_def peek_at_def hd_conv_nth)
  then show "w \<noteq> []" "\<not> at_trivia w 0"
    using lead_classes [of "hd w"] by (auto simp: at_trivia_def)
  have "lex_token w fid (start_state bag out) = lex_identifier w fid (start_state bag out)"
    using h lead_classes [of "hd w"] by (simp add: lex_token_def Let_def)
  also have "\<dots> = put_token fid (word_kind w) 0 (length w) (set_pos (length w) (start_state bag out))"
    using scan_while_all [OF h(3)]
    by (simp add: lex_identifier_def Let_def substr_def word_kind_def lookup_keyword_def keyword_scan_map_of)
  finally show "lex_token w fid (start_state bag out) = \<dots>" .
qed

theorem word_roundtrip_witness:
  "tokenize ''while'' 0 empty_bag [] =
     (empty_bag, [] @ map (mk_tok 0) [(word_kind ''while'', 0, length ''while''), (TEof, length ''while'', 0)])"
  by (rule word_roundtrip) code_simp

lemma symbol_table:
  "list_all (\<lambda>(w, k). w \<noteq> [] \<and> \<not> at_trivia w 0 \<and> k \<noteq> TError \<and>
     symbol_kind (peek_at w 0) (peek_at w 1) (peek_at w 2) = (k, length w) \<and>
     \<not> is_alpha (hd w) \<and> \<not> is_digit (hd w) \<and> hd w \<notin> {CHR 0x00, CHR ''_'', CHR 0x22, CHR 0x27})
     kSymbols"
  by code_simp

text \<open>
  C22. Every operator and delimiter is one token of its kind that covers it, however many
  bytes it has, also when a prefix of it is another symbol.
\<close>

theorem symbol_roundtrip:
  assumes "(w, k) \<in> set kSymbols"
  shows "tokenize w fid bag out =
    (bag, out @ map (mk_tok fid) [(k, 0, length w), (TEof, length w, 0)])"
proof (rule tokenize_single)
  have h: "w \<noteq> []" "\<not> at_trivia w 0" "k \<noteq> TError"
      "symbol_kind (peek_at w 0) (peek_at w 1) (peek_at w 2) = (k, length w)"
      "\<not> is_alpha (hd w)" "\<not> is_digit (hd w)" "hd w \<noteq> CHR 0x00" "hd w \<noteq> CHR ''_''"
      "hd w \<noteq> CHR 0x22" "hd w \<noteq> CHR 0x27"
    using symbol_table assms by (auto simp: list_all_iff)
  then show "w \<noteq> []" "\<not> at_trivia w 0" by simp_all
  have "peek_at w 0 = hd w" using h(1) by (simp add: peek_at_def hd_conv_nth)
  then show "lex_token w fid (start_state bag out) =
      put_token fid k 0 (length w) (set_pos (length w) (start_state bag out))"
    using h by (simp add: lex_token_def lex_symbol_def Let_def numeral_2_eq_2)
qed

theorem symbol_roundtrip_witness:
  "tokenize ''>>='' 0 empty_bag [] =
     (empty_bag, [] @ map (mk_tok 0) [(TGreaterGreaterEq, 0, length ''>>=''), (TEof, length ''>>='', 0)])"
  by (rule symbol_roundtrip) (simp add: kSymbols_def)

subsection \<open>Every token spells its kind\<close>

definition spelled :: "string \<Rightarrow> raw \<Rightarrow> bool" where
  "spelled bytes r = (case r of (k, st, ln) \<Rightarrow>
     let w = substr bytes st ln
     in if k = TError then True
        else if k = TInteger \<or> k = TFloat then w \<noteq> [] \<and> is_digit (hd w)
        else if k = TString then 2 \<le> length w \<and> hd w = CHR 0x22 \<and> last w = CHR 0x22
        else if k = TChar then 3 \<le> length w \<and> hd w = CHR 0x27 \<and> last w = CHR 0x27
        else if k = TDocComment then take 3 w = ''///'' \<and> newline \<notin> set w
        else (w, k) \<in> set kSymbols \<or> (is_word w \<and> k = word_kind w) \<or> (k = TSemicolon \<and> w = [newline]))"

text \<open>
  A semicolon read from a newline follows a token that can end a statement and precedes
  nothing that continues it. \<open>prev\<close> is the kind of the token before the list.
\<close>

fun readable :: "string \<Rightarrow> token_kind \<Rightarrow> raw list \<Rightarrow> bool" where
  "readable bytes prev [] = True"
| "readable bytes prev ((k, st, ln) # rs) \<longleftrightarrow>
     spelled bytes (k, st, ln) \<and>
     (k = TSemicolon \<and> substr bytes st ln = [newline] \<longrightarrow>
        inserts_semi prev \<and> \<not> suppress_semi (peek_next_kind bytes (st + 1))) \<and>
     readable bytes (if k = TError then prev else k) rs"

definition last_kind :: "token_kind \<Rightarrow> raw list \<Rightarrow> token_kind" where
  "last_kind prev rs = fold (\<lambda>r l. if fst r = TError then l else fst r) rs prev"

definition grows :: "string \<Rightarrow> file_id \<Rightarrow> lexer \<Rightarrow> lexer \<Rightarrow> bool" where
  "grows bytes fid s s' \<longleftrightarrow> (\<exists>rs. lx_out s' = lx_out s @ map (mk_tok fid) rs \<and>
     readable bytes (lx_last s) rs \<and> lx_last s' = last_kind (lx_last s) rs)"

lemma readable_append:
  "readable bytes l (rs @ rs') \<longleftrightarrow> readable bytes l rs \<and> readable bytes (last_kind l rs) rs'"
  by (induction bytes l rs rule: readable.induct) (auto simp: last_kind_def)

lemma grows_refl: "grows bytes fid s s"
  unfolding grows_def by (intro exI [of _ "[]"]) (simp add: last_kind_def)

lemma grows_move: "grows bytes fid s (set_pos i s)"
  unfolding grows_def by (intro exI [of _ "[]"]) (simp add: last_kind_def)

lemma grows_trans: "grows bytes fid s s' \<Longrightarrow> grows bytes fid s' s'' \<Longrightarrow> grows bytes fid s s''"
proof -
  assume "grows bytes fid s s'" "grows bytes fid s' s''"
  then obtain rs rs' where "lx_out s' = lx_out s @ map (mk_tok fid) rs" "readable bytes (lx_last s) rs"
    "lx_last s' = last_kind (lx_last s) rs" "lx_out s'' = lx_out s' @ map (mk_tok fid) rs'"
    "readable bytes (lx_last s') rs'" "lx_last s'' = last_kind (lx_last s') rs'"
    by (auto simp: grows_def)
  then show ?thesis unfolding grows_def
    by (intro exI [of _ "rs @ rs'"]) (simp add: readable_append last_kind_def)
qed

lemma grows_put:
  assumes "spelled bytes (k, st, ln)" and "k \<noteq> TError"
    and "k = TSemicolon \<Longrightarrow> substr bytes st ln = [newline] \<Longrightarrow>
      inserts_semi (lx_last s) \<and> \<not> suppress_semi (peek_next_kind bytes (st + 1))"
  shows "grows bytes fid s (put_token fid k st ln (set_pos i s))"
  unfolding grows_def using assms
  by (intro exI [of _ "[(k, st, ln)]"]) (auto simp: put_token_def last_kind_def mk_tok_def)

lemma grows_error: "grows bytes fid s (emit_error fid st ln code m (set_pos i s))"
  unfolding grows_def
  by (intro exI [of _ "[(TError, st, ln)]"]) (simp add: emit_error_def last_kind_def mk_tok_def spelled_def)

subsection \<open>Each operation reads a spelling\<close>

lemma word_kind_cases:
  "word_kind w = TUnderscore \<or> word_kind w = TIdent \<or> word_kind w \<in> snd ` set kKeywords"
  using map_of_SomeD [of kKeywords w] by (force simp: word_kind_def split: option.split)

lemma word_kind_plain:
  "word_kind w \<noteq> TError \<and> word_kind w \<noteq> TInteger \<and> word_kind w \<noteq> TFloat \<and> word_kind w \<noteq> TString \<and>
   word_kind w \<noteq> TChar \<and> word_kind w \<noteq> TDocComment \<and> word_kind w \<noteq> TSemicolon"
proof -
  have "list_all (\<lambda>k. k \<noteq> TError \<and> k \<noteq> TInteger \<and> k \<noteq> TFloat \<and> k \<noteq> TString \<and> k \<noteq> TChar \<and>
      k \<noteq> TDocComment \<and> k \<noteq> TSemicolon) (TUnderscore # TIdent # map snd kKeywords)"
    by (simp add: kKeywords_def)
  then show ?thesis using word_kind_cases [of w] unfolding list_all_iff by auto
qed

lemma grows_word:
  assumes "is_word (substr bytes st ln)"
  shows "grows bytes fid s (put_token fid (word_kind (substr bytes st ln)) st ln (set_pos i s))"
  using assms word_kind_plain [of "substr bytes st ln"]
  by (intro grows_put) (simp_all add: spelled_def Let_def)

lemma takeWhile_hd: "xs \<noteq> [] \<Longrightarrow> P (hd xs) \<Longrightarrow> takeWhile P xs \<noteq> [] \<and> hd (takeWhile P xs) = hd xs"
  by (cases xs) auto

lemma lex_identifier_grows:
  assumes "lx_pos s < length bytes"
    and "is_alpha (peek_at bytes (lx_pos s)) \<or> peek_at bytes (lx_pos s) = CHR ''_''"
  shows "grows bytes fid s (lex_identifier bytes fid s)"
proof -
  let ?e = "scan_while is_alnum_or_underscore bytes (lx_pos s)"
  let ?w = "substr bytes (lx_pos s) (?e - lx_pos s)"
  have "hd (drop (lx_pos s) bytes) = peek_at bytes (lx_pos s)" "drop (lx_pos s) bytes \<noteq> []"
    using assms(1) by (simp_all add: hd_drop_conv_nth peek_at_def)
  then have "is_word ?w"
    using takeWhile_hd [of "drop (lx_pos s) bytes" is_alnum_or_underscore] assms(2)
    by (auto simp: is_word_def substr_scan_while is_alnum_or_underscore_def list_all_iff dest: set_takeWhileD)
  from grows_word [OF this, of fid s ?e] show ?thesis
    by (simp only: lex_identifier_def Let_def word_kind_def lookup_keyword_def keyword_scan_map_of)
qed

lemma substr_hd: "i < length bytes \<Longrightarrow> 0 < n \<Longrightarrow> substr bytes i n \<noteq> [] \<and> hd (substr bytes i n) = bytes ! i"
  by (cases n) (auto simp: substr_def hd_drop_conv_nth neq_Nil_conv Cons_nth_drop_Suc [symmetric])

lemma substr_last: "i < e \<Longrightarrow> e \<le> length bytes \<Longrightarrow> last (substr bytes i (e - i)) = bytes ! (e - 1)"
proof -
  assume "i < e" "e \<le> length bytes"
  then have "substr bytes i (e - i) \<noteq> []" by (simp add: substr_def)
  then show ?thesis using \<open>i < e\<close> \<open>e \<le> length bytes\<close>
    by (simp add: last_conv_nth) (simp add: substr_def)
qed

definition number_shape :: "string \<Rightarrow> file_id \<Rightarrow> lexer \<Rightarrow> lexer \<Rightarrow> bool" where
  "number_shape bytes fid s s' \<longleftrightarrow> (\<exists>e. s' = invalid_number fid (lx_pos s) e s) \<or>
     (\<exists>i f. s' = finish_number bytes fid (lx_pos s) i f s)"

lemma lex_number_shape: "number_shape bytes fid s (lex_number bytes fid s)"
proof -
  have "number_shape bytes fid s (invalid_number fid (lx_pos s) e s)"
    "number_shape bytes fid s (finish_number bytes fid (lx_pos s) i f s)" for e i f
    by (auto simp: number_shape_def)
  then show ?thesis unfolding lex_number_def Let_def by (simp split: prod.split)
qed

lemma lex_number_grows:
  assumes "lx_pos s < length bytes" and "is_digit (peek_at bytes (lx_pos s))"
  shows "grows bytes fid s (lex_number bytes fid s)"
  using lex_number_shape [of bytes fid s] unfolding number_shape_def
proof (elim disjE exE)
  fix e
  assume "lex_number bytes fid s = invalid_number fid (lx_pos s) e s"
  then show ?thesis by (simp add: invalid_number_def grows_error)
next
  fix i f
  assume fin: "lex_number bytes fid s = finish_number bytes fid (lx_pos s) i f s"
  let ?k = "if f then TFloat else TInteger"
  let ?e = "if i < length bytes \<and> (is_alpha (peek_at bytes i) \<or> peek_at bytes i = CHR ''_'')
            then alnum_run bytes (i + 1) else i"
  have eq: "lex_number bytes fid s =
      put_token fid ?k (lx_pos s) (?e - lx_pos s) (set_pos ?e s)"
    by (simp add: fin finish_number_def Let_def)
  have "lx_pos s < ?e"
    using lex_number_one [OF assms, of fid] unfolding eq by (auto simp: lexes_one_def)
  then have "spelled bytes (?k, lx_pos s, ?e - lx_pos s)"
    using substr_hd [of "lx_pos s" bytes "?e - lx_pos s"] assms by (simp add: spelled_def Let_def peek_at_def)
  then show ?thesis unfolding eq by (intro grows_put) (simp_all split: if_splits)
qed

text \<open>A literal that was closed ends with its quote, and a non-empty one has a byte inside.\<close>

lemma quoted_loop_step:
  assumes "i < length bytes" and "peek_at bytes i \<noteq> q"
  shows "(\<exists>b'. quoted_loop q bytes i b m = (i, False, b', m)) \<or>
    (\<exists>j b'. i < j \<and> quoted_loop q bytes i b m = quoted_loop q bytes j b' False)"
proof (cases "peek_at bytes i = CHR 0x5C \<and> peek_at bytes (i + 1) = CHR ''u''")
  case True
  show ?thesis
  proof (cases "unicode_escape bytes i")
    case None
    then have "quoted_loop q bytes i b m = quoted_loop q bytes (i + 2) True False"
      using True assms by (subst quoted_loop.simps) (simp add: Let_def)
    then show ?thesis by (intro disjI2 exI [of _ "i + 2"] exI [of _ True]) simp
  next
    case (Some u)
    then have "quoted_loop q bytes i b m = quoted_loop q bytes u b False"
      using True assms by (subst quoted_loop.simps) (simp add: Let_def)
    then show ?thesis using unicode_escape_gt [OF Some]
      by (intro disjI2 exI [of _ u] exI [of _ b]) simp
  qed
next
  case False
  let ?c = "peek_at bytes i" and ?n = "peek_at bytes (i + 1)"
  have "quoted_loop q bytes i b m =
    (if ?c = newline \<or> (?c = CHR 0x5C \<and> ?n = newline) then (i, False, b, m)
     else quoted_loop q bytes (if ?c = CHR 0x5C then i + 2 else i + 1)
       (b \<or> (?c = CHR 0x5C \<and> \<not> is_valid_escape ?n)) False)"
    using False assms by (subst quoted_loop.simps) (simp add: Let_def)
  moreover have "i < (if ?c = CHR 0x5C then i + 2 else i + 1)" by simp
  ultimately show ?thesis
    by (cases "?c = newline \<or> (?c = CHR 0x5C \<and> ?n = newline)") (auto simp only: if_True if_False)
qed

lemma quoted_loop_closed:
  "quoted_loop q bytes i b m = (e, True, b', m') \<Longrightarrow>
     i < e \<and> e \<le> length bytes \<and> bytes ! (e - 1) = q \<and> (m \<and> \<not> m' \<longrightarrow> i + 1 < e)"
proof (induction "length bytes - i" arbitrary: i b m rule: less_induct)
  case less
  have i: "i < length bytes"
    using less.prems by (subst (asm) quoted_loop.simps) (simp split: if_splits)
  show ?case
  proof (cases "peek_at bytes i = q")
    case True
    then have "quoted_loop q bytes i b m = (i + 1, True, b, m)"
      using i by (subst quoted_loop.simps) (simp add: Let_def)
    then show ?thesis using less.prems True i by (simp add: peek_at_def)
  next
    case False
    from quoted_loop_step [OF i this, of b m] less.prems obtain j b2 where
      j: "i < j" "quoted_loop q bytes j b2 False = (e, True, b', m')" by auto
    with i have "length bytes - j < length bytes - i" by linarith
    from less.hyps [OF this j(2)] j(1) show ?thesis by auto
  qed
qed

lemma lex_string_grows:
  assumes "lx_pos s < length bytes" and "peek_at bytes (lx_pos s) = CHR 0x22"
  shows "grows bytes fid s (lex_string bytes fid s)"
proof -
  obtain e t b m where q: "quoted_loop (CHR 0x22) bytes (lx_pos s + 1) False True = (e, t, b, m)"
    by (metis prod_cases4)
  show ?thesis
  proof (cases "t \<and> \<not> b")
    case False
    then show ?thesis unfolding lex_string_def Let_def q by (auto intro: grows_error)
  next
    case True
    then have "spelled bytes (TString, lx_pos s, e - lx_pos s)"
      using quoted_loop_closed [of "CHR 0x22" bytes "lx_pos s + 1" False True e b m] q assms
        substr_hd [of "lx_pos s" bytes "e - lx_pos s"] substr_last [of "lx_pos s" e bytes]
      by (auto simp: spelled_def Let_def peek_at_def)
    then show ?thesis using True unfolding lex_string_def Let_def q by (auto intro: grows_put)
  qed
qed

lemma lex_char_grows:
  assumes "lx_pos s < length bytes" and "peek_at bytes (lx_pos s) = CHR 0x27"
  shows "grows bytes fid s (lex_char bytes fid s)"
proof -
  obtain e t b m where q: "quoted_loop (CHR 0x27) bytes (lx_pos s + 1) False True = (e, t, b, m)"
    by (metis prod_cases4)
  show ?thesis
  proof (cases "t \<and> \<not> b \<and> \<not> m")
    case False
    then show ?thesis unfolding lex_char_def Let_def q by (auto intro: grows_error)
  next
    case True
    then have "spelled bytes (TChar, lx_pos s, e - lx_pos s)"
      using quoted_loop_closed [of "CHR 0x27" bytes "lx_pos s + 1" False True e b m] q assms
        substr_hd [of "lx_pos s" bytes "e - lx_pos s"] substr_last [of "lx_pos s" e bytes]
      by (auto simp: spelled_def Let_def peek_at_def)
    then show ?thesis using True unfolding lex_char_def Let_def q by (auto intro: grows_put)
  qed
qed

lemma symbol_kind_in:
  assumes "set kSymbols \<subseteq> S" and "symbol_kind c n m = (k, w)" and "k \<noteq> TError"
  shows "(take w [c, n, m], k) \<in> S \<and> w \<le> 3"
proof -
  note mem = assms(1) [unfolded kSymbols_def list.set insert_subset]
  from assms(2,3) show ?thesis
    unfolding symbol_kind_def Let_def
    by (auto simp: mem split: if_splits)
qed

lemmas symbol_kind_spelling = symbol_kind_in [OF subset_refl]

lemma substr_chars:
  assumes "i + w \<le> length bytes" and "w \<le> 3"
  shows "substr bytes i w = take w [peek_at bytes i, peek_at bytes (i + 1), peek_at bytes (i + 2)]"
  using assms
  by (intro nth_equalityI) (auto simp: substr_def peek_at_def nth_Cons split: nat.split)

lemma kSymbols_plain:
  assumes "(w, k) \<in> set kSymbols"
  shows "k \<noteq> TError \<and> k \<noteq> TInteger \<and> k \<noteq> TFloat \<and> k \<noteq> TString \<and> k \<noteq> TChar \<and> k \<noteq> TDocComment \<and>
    w \<noteq> [newline]"
proof -
  have "list_all (\<lambda>(w, k). k \<noteq> TError \<and> k \<noteq> TInteger \<and> k \<noteq> TFloat \<and> k \<noteq> TString \<and> k \<noteq> TChar \<and>
      k \<noteq> TDocComment \<and> w \<noteq> [newline]) kSymbols"
    by (simp add: kSymbols_def)
  then show ?thesis using assms unfolding list_all_iff by auto
qed

lemma lex_symbol_grows:
  assumes "lx_pos s < length bytes"
  shows "grows bytes fid s (lex_symbol bytes fid s)"
proof -
  let ?p = "lx_pos s" and ?c = "peek_at bytes (lx_pos s)"
  let ?n = "peek_at bytes (?p + 1)" and ?m = "peek_at bytes (?p + 2)"
  obtain k w where k: "symbol_kind ?c ?n ?m = (k, w)" by force
  show ?thesis
  proof (cases "k = TError")
    case True
    then show ?thesis by (simp add: lex_symbol_def Let_def k [simplified] set_pos_emit_error grows_error)
  next
    case False
    from symbol_kind_spelling [OF k False]
    have m: "(take w [?c, ?n, ?m], k) \<in> set kSymbols" "w \<le> 3" by simp_all
    have "?p + w \<le> length bytes"
      using symbol_kind_width [OF k] assms by (auto simp: peek_at_def split: if_splits)
    then have t: "substr bytes ?p w = take w [?c, ?n, ?m]" by (rule substr_chars [OF _ m(2)])
    have "grows bytes fid s (put_token fid k ?p w (set_pos (?p + w) s))"
      using m(1) kSymbols_plain [OF m(1)] unfolding t [symmetric]
      by (intro grows_put) (simp_all add: spelled_def Let_def)
    then show ?thesis using False by (simp add: lex_symbol_def Let_def k [simplified])
  qed
qed

lemma lex_token_grows:
  assumes "lx_pos s < length bytes"
  shows "grows bytes fid s (lex_token bytes fid s)"
  unfolding lex_token_def Let_def using assms
  by (auto intro: lex_identifier_grows lex_number_grows lex_string_grows lex_char_grows
      lex_symbol_grows grows_error simp: set_pos_emit_error)

lemma substr_split:
  "i \<le> j \<Longrightarrow> j \<le> k \<Longrightarrow> substr xs i (k - i) = substr xs i (j - i) @ substr xs j (k - j)"
proof -
  assume "i \<le> j" "j \<le> k"
  then have "k - i = (j - i) + (k - j)" and "j - i + i = j" by simp_all
  then show ?thesis unfolding substr_def by (simp only: take_add drop_drop)
qed

lemma doc_comment_grows:
  assumes "peek_at bytes i = CHR ''/''" and "peek_at bytes (i + 1) = CHR ''/''"
    and "peek_at bytes (i + 2) = CHR ''/''" and "e = scan_while (\<lambda>c. c \<noteq> newline) bytes (i + 3)"
  shows "grows bytes fid s (put_token fid TDocComment i (e - i) (set_pos e s))"
proof -
  have "i + 2 < length bytes" using assms(3) peek_at_in by fastforce
  then have three: "substr bytes i 3 = ''///''"
    using substr_chars [of i 3 bytes] assms by simp
  have "i + 3 \<le> e" unfolding assms(4) by (rule scan_while_ge)
  then have "substr bytes i (e - i) = ''///'' @ takeWhile (\<lambda>c. c \<noteq> newline) (drop (i + 3) bytes)"
    using substr_split [of i "i + 3" e bytes] three substr_scan_while [of bytes "i + 3" "\<lambda>c. c \<noteq> newline"]
    by (simp add: assms(4))
  then have "spelled bytes (TDocComment, i, e - i)"
    by (auto simp: spelled_def Let_def dest: set_takeWhileD)
  then show ?thesis by (intro grows_put) simp_all
qed

lemma trivia_step_grows:
  assumes "trivia_step bytes fid s = Some s'"
  shows "grows bytes fid s s'"
proof -
  have at: "at_trivia bytes (lx_pos s)" using assms by (auto simp: trivia_step_def Let_def split: if_splits)
  have semi: "grows bytes fid s (put_token fid TSemicolon (lx_pos s) 1 (set_pos (lx_pos s + 1) s))"
    if "peek_at bytes (lx_pos s) = newline" "inserts_semi (lx_last s)"
      "\<not> suppress_semi (peek_next_kind bytes (lx_pos s + 1))"
  proof (rule grows_put)
    have "substr bytes (lx_pos s) 1 = [newline]"
      using substr_chars [of "lx_pos s" 1 bytes] at that(1) by (simp add: at_trivia_def)
    then show "spelled bytes (TSemicolon, lx_pos s, 1)" by (simp add: spelled_def)
  qed (use that in simp_all)
  obtain e d where b: "block_comment bytes (lx_pos s + 2) 1 = (e, d)" by force
  from assms at semi show ?thesis
    unfolding trivia_step_def at_trivia_def Let_def b
    by (auto simp: is_space_def split: if_splits intro: grows_move grows_error doc_comment_grows)
qed

lemma skip_trivia_grows: "grows bytes fid s (skip_trivia bytes fid s)"
proof (induction "length bytes - lx_pos s" arbitrary: s rule: less_induct)
  case less
  show ?case
  proof (cases "trivia_step bytes fid s")
    case None
    then show ?thesis using skip_trivia_step [of bytes fid s] by (simp add: grows_refl)
  next
    case (Some s')
    from trivia_step_lexes [OF Some] have "length bytes - lx_pos s' < length bytes - lx_pos s" by auto
    from grows_trans [OF trivia_step_grows [OF Some] less.hyps [OF this]]
    show ?thesis using Some skip_trivia_step [of bytes fid s] by simp
  qed
qed

lemma lex_loop_grows: "grows bytes fid s (lex_loop bytes fid s)"
proof (induction bytes fid s rule: lex_loop.induct)
  case (1 bytes fid s)
  let ?s1 = "skip_trivia bytes fid s"
  show ?case
  proof (cases "length bytes \<le> lx_pos ?s1")
    case True
    then show ?thesis by (subst lex_loop.simps) (simp add: Let_def skip_trivia_grows)
  next
    case False
    then have "grows bytes fid ?s1 (lex_token bytes fid ?s1)" by (intro lex_token_grows) simp
    with "1.IH" [OF refl False] show ?thesis using False
      by (subst lex_loop.simps) (auto simp: Let_def intro: grows_trans skip_trivia_grows)
  qed
qed

text \<open>
  C16. The text under every token spells its kind: a symbol or keyword covers exactly its
  spelling, an identifier a word outside the keyword table, a literal its quotes or digits, a
  documentation comment one line behind three slashes. A semicolon that the source does not
  write stands on a newline, behind a token that can end a statement, with nothing ahead that
  would continue the statement.
\<close>

theorem tokenize_readable:
  "\<exists>rs e. snd (tokenize bytes fid bag out) = out @ map (mk_tok fid) (rs @ [(TEof, e, 0)]) \<and>
     readable bytes TEof rs"
proof -
  obtain rs where
    "lx_out (lex_loop bytes fid (start_state bag out)) = out @ map (mk_tok fid) rs" "readable bytes TEof rs"
    using lex_loop_grows [of bytes fid "start_state bag out"] by (auto simp: grows_def)
  then show ?thesis
    by (intro exI [of _ rs] exI [of _ "lx_pos (lex_loop bytes fid (start_state bag out))"])
       (simp add: tokenize_def Let_def start_state_def [symmetric] put_token_def mk_tok_def)
qed

end
