(* ===== verification/Ir.thy ===== *)
theory Ir
  imports Prelude
begin

text \<open>
  The typed intermediate representation: the type table, operands, instructions and the
  storage that holds them in parallel tables (\<^verbatim>\<open>src/ir/\<close>). Entities refer to each other by
  32-bit indices into the tables, and a range is a head index and a size. The tables never
  reach \<open>2 ^ 32\<close> entries and every range is compared at 64 bits before it is used, so
  indices are natural numbers here. The invalid register is \<open>None\<close>. Names are opaque ids of
  the string pool, a library.
\<close>

subsection \<open>The type table (\<^verbatim>\<open>type.h\<close>)\<close>

datatype type_tag =
  TyVoid | TyI1 | TyI8 | TyI16 | TyI32 | TyI64 | TyU8 | TyU16 | TyU32 | TyU64 | TyF32 | TyF64
  | TyStr | TyPtr | TyRef | TyMutRef | TyStruct | TyArray | TyFunction | TyEnum | TyNever
  | TyTuple | TyError

datatype pointer_width = W32 | W64

text \<open>The numeric value of an enumerator, as \<^verbatim>\<open>static_cast<u32>(tag)\<close>.\<close>

fun tag_value :: "type_tag \<Rightarrow> nat" where
  "tag_value TyVoid = 0" | "tag_value TyI1 = 1" | "tag_value TyI8 = 2" | "tag_value TyI16 = 3"
| "tag_value TyI32 = 4" | "tag_value TyI64 = 5" | "tag_value TyU8 = 6" | "tag_value TyU16 = 7"
| "tag_value TyU32 = 8" | "tag_value TyU64 = 9" | "tag_value TyF32 = 10" | "tag_value TyF64 = 11"
| "tag_value TyStr = 12" | "tag_value TyPtr = 13" | "tag_value TyRef = 14" | "tag_value TyMutRef = 15"
| "tag_value TyStruct = 16" | "tag_value TyArray = 17" | "tag_value TyFunction = 18"
| "tag_value TyEnum = 19" | "tag_value TyNever = 20" | "tag_value TyTuple = 21" | "tag_value TyError = 22"

definition kPrimitiveTypeCount :: nat where
  "kPrimitiveTypeCount = tag_value TyStruct"

definition primitive_idx :: "type_tag \<Rightarrow> nat" where
  "primitive_idx tag = (if tag = TyFunction then kPrimitiveTypeCount else tag_value tag)"

type_synonym name_id = nat

record idx_range =
  range_head :: nat
  range_size :: nat

definition mk_range :: "nat \<Rightarrow> nat \<Rightarrow> idx_range" where
  "mk_range h n = \<lparr>range_head = h, range_size = n\<rparr>"

definition indices :: "idx_range \<Rightarrow> nat list" where
  "indices r = [range_head r ..< range_head r + range_size r]"

record struct_info =
  struct_name :: name_id
  struct_fields :: idx_range

record array_info =
  array_element :: nat
  array_count :: u64

record enum_variant_info =
  variant_name :: name_id
  variant_fields :: idx_range

record enum_info =
  enum_name :: name_id
  enum_variants :: idx_range

record ref_info =
  ref_pointee :: nat

record tuple_info =
  tuple_elements :: idx_range

text \<open>
  A node of the table. The payload is a union of five 32-bit index types, of which the tag
  selects one; a node made without one is zero-initialised.
\<close>

record type_node =
  node_tag :: type_tag
  node_data :: nat

definition as_struct :: "type_node \<Rightarrow> nat option" where
  "as_struct node = (if node_tag node = TyStruct then Some (node_data node) else None)"

definition as_array :: "type_node \<Rightarrow> nat option" where
  "as_array node = (if node_tag node = TyArray then Some (node_data node) else None)"

definition as_enum :: "type_node \<Rightarrow> nat option" where
  "as_enum node = (if node_tag node = TyEnum then Some (node_data node) else None)"

definition as_ref :: "type_node \<Rightarrow> nat option" where
  "as_ref node =
     (if node_tag node = TyRef \<or> node_tag node = TyMutRef then Some (node_data node) else None)"

definition as_tuple :: "type_node \<Rightarrow> nat option" where
  "as_tuple node = (if node_tag node = TyTuple then Some (node_data node) else None)"

fun type_to_str :: "type_tag \<Rightarrow> string" where
  "type_to_str TyVoid = ''void''" | "type_to_str TyI1 = ''i1''" | "type_to_str TyI8 = ''i8''"
| "type_to_str TyI16 = ''i16''" | "type_to_str TyI32 = ''i32''" | "type_to_str TyI64 = ''i64''"
| "type_to_str TyU8 = ''u8''" | "type_to_str TyU16 = ''u16''" | "type_to_str TyU32 = ''u32''"
| "type_to_str TyU64 = ''u64''" | "type_to_str TyF32 = ''f32''" | "type_to_str TyF64 = ''f64''"
| "type_to_str TyStr = ''str''" | "type_to_str TyPtr = ''ptr''" | "type_to_str TyRef = ''ref''"
| "type_to_str TyMutRef = ''mut_ref''" | "type_to_str TyStruct = ''struct''"
| "type_to_str TyArray = ''array''" | "type_to_str TyFunction = ''function''"
| "type_to_str TyEnum = ''enum''" | "type_to_str TyNever = ''never''"
| "type_to_str TyTuple = ''tuple''" | "type_to_str TyError = ''error''"

definition is_integer_type :: "type_tag \<Rightarrow> bool" where
  "is_integer_type tag \<longleftrightarrow>
     tag \<in> set [TyI1, TyI8, TyI16, TyI32, TyI64, TyU8, TyU16, TyU32, TyU64]"

definition is_signed_integer_type :: "type_tag \<Rightarrow> bool" where
  "is_signed_integer_type tag \<longleftrightarrow> tag \<in> set [TyI8, TyI16, TyI32, TyI64]"

definition is_float_type :: "type_tag \<Rightarrow> bool" where
  "is_float_type tag \<longleftrightarrow> tag \<in> set [TyF32, TyF64]"

subsection \<open>Immediates (\<^verbatim>\<open>immutable.h\<close>)\<close>

text \<open>
  The data of an immediate is a C++ union; the constructor is its active member. Floating
  point values are kept as their bit patterns. Reading an inactive member is undefined in
  C++ and \<open>None\<close> here, as is the failed \<^verbatim>\<open>DCHECK\<close>.
\<close>

datatype imm_data =
  ImmI1 bool | ImmI8 "8 word" | ImmI16 "16 word" | ImmI32 "32 word" | ImmI64 "64 word"
  | ImmU8 u8 | ImmU16 "16 word" | ImmU32 u32 | ImmU64 u64
  | ImmF32 "32 word" | ImmF64 "64 word" | ImmStr name_id | ImmPtr u64 | ImmMutPtr u64
  | ImmRef u64 | ImmMutRef u64

record immutable =
  imm_type :: nat
  imm_value :: imm_data

definition as_u64_integer :: "type_tag \<Rightarrow> imm_data \<Rightarrow> u64 option" where
  "as_u64_integer tag d =
     (case d of
        ImmI1 b \<Rightarrow> if tag = TyI1 then Some (if b then 1 else 0) else None
      | ImmI8 v \<Rightarrow> if tag = TyI8 then Some (scast v) else None
      | ImmI16 v \<Rightarrow> if tag = TyI16 then Some (scast v) else None
      | ImmI32 v \<Rightarrow> if tag = TyI32 then Some (scast v) else None
      | ImmI64 v \<Rightarrow> if tag = TyI64 then Some v else None
      | ImmU8 v \<Rightarrow> if tag = TyU8 then Some (ucast v) else None
      | ImmU16 v \<Rightarrow> if tag = TyU16 then Some (ucast v) else None
      | ImmU32 v \<Rightarrow> if tag = TyU32 then Some (ucast v) else None
      | ImmU64 v \<Rightarrow> if tag = TyU64 then Some v else None
      | _ \<Rightarrow> None)"

subsection \<open>Opcodes, operands, instructions\<close>

datatype opcode =
  Noop | Alloca | Load | Store | GetElementPtr | ExtractValue | InsertValue
  | IntAdd | IntSub | IntMul | IntDiv | UintDiv | IntRem | UintRem
  | And | Or | Xor | ShiftLeft | ArithmeticShiftRight | LogicalShiftRight | Not | BitReverse
  | Eq | Ne | Le | Lt | Ge | Gt | TypeCast | Select
  | Br | CondBr | Switch | Call | Ret | Unreachable
  | AtomicLoad | AtomicStore | AtomicRmw | AtomicCompareExchange | Fence | Move | Drop

fun opcode_to_str :: "opcode \<Rightarrow> string" where
  "opcode_to_str Noop = ''Noop''" | "opcode_to_str Alloca = ''Alloca''"
| "opcode_to_str Load = ''Load''" | "opcode_to_str Store = ''Store''"
| "opcode_to_str GetElementPtr = ''GetElementPtr''" | "opcode_to_str ExtractValue = ''ExtractValue''"
| "opcode_to_str InsertValue = ''InsertValue''" | "opcode_to_str IntAdd = ''IntAdd''"
| "opcode_to_str IntSub = ''IntSub''" | "opcode_to_str IntMul = ''IntMul''"
| "opcode_to_str IntDiv = ''IntDiv''" | "opcode_to_str UintDiv = ''UintDiv''"
| "opcode_to_str IntRem = ''IntRem''" | "opcode_to_str UintRem = ''UintRem''"
| "opcode_to_str And = ''And''" | "opcode_to_str Or = ''Or''" | "opcode_to_str Xor = ''Xor''"
| "opcode_to_str ShiftLeft = ''ShiftLeft''"
| "opcode_to_str ArithmeticShiftRight = ''ArithmeticShiftRight''"
| "opcode_to_str LogicalShiftRight = ''LogicalShiftRight''" | "opcode_to_str Not = ''Not''"
| "opcode_to_str BitReverse = ''BitReverse''" | "opcode_to_str Eq = ''Eq''"
| "opcode_to_str Ne = ''Ne''" | "opcode_to_str Le = ''Le''" | "opcode_to_str Lt = ''Lt''"
| "opcode_to_str Ge = ''Ge''" | "opcode_to_str Gt = ''Gt''"
| "opcode_to_str TypeCast = ''TypeCast''" | "opcode_to_str Select = ''Select''"
| "opcode_to_str Br = ''Br''" | "opcode_to_str CondBr = ''CondBr''"
| "opcode_to_str Switch = ''Switch''" | "opcode_to_str Call = ''Call''"
| "opcode_to_str Ret = ''Ret''" | "opcode_to_str Unreachable = ''Unreachable''"
| "opcode_to_str AtomicLoad = ''AtomicLoad''" | "opcode_to_str AtomicStore = ''AtomicStore''"
| "opcode_to_str AtomicRmw = ''AtomicRmw''"
| "opcode_to_str AtomicCompareExchange = ''AtomicCompareExchange''"
| "opcode_to_str Fence = ''Fence''" | "opcode_to_str Move = ''Move''" | "opcode_to_str Drop = ''Drop''"

datatype operand_data =
  OpRegister nat | OpFunction nat | OpBlock nat | OpImmutable nat | OpExternal nat | OpVoid

record operand =
  op_data :: operand_data
  op_type :: nat

definition kInvalidOperand :: operand where
  "kInvalidOperand = \<lparr>op_data = OpVoid, op_type = primitive_idx TyVoid\<rparr>"

datatype atomic_rmw_op = RmwAdd | RmwSub | RmwAnd | RmwOr | RmwXor | RmwExchange

record instruction_flags =
  rmw_op :: atomic_rmw_op
  some_flag :: bool

definition default_flags :: instruction_flags where
  "default_flags = \<lparr>rmw_op = RmwAdd, some_flag = False\<rparr>"

record instruction =
  instr_op :: opcode
  instr_flags :: instruction_flags
  instr_dst :: "nat option"
  instr_operands :: idx_range

record block_param =
  param_type :: nat
  param_reg :: nat

record block =
  block_instrs :: idx_range
  block_params :: idx_range

record register =
  reg_type :: nat
  reg_def :: nat

record function_meta =
  return_type :: nat
  param_types :: idx_range
  meta_name :: name_id

record ir_function =
  fn_meta :: function_meta
  fn_blocks :: idx_range

datatype calling_convention = CallC

record external_function =
  ext_meta :: function_meta
  ext_conv :: calling_convention

record storage =
  function_table :: "ir_function list"
  blocks :: "block list"
  block_param_table :: "block_param list"
  instrs :: "instruction list"
  immutables :: "immutable list"
  registers :: "register list"
  external_functions :: "external_function list"
  operands :: "operand list"
  types :: "type_node list"
  struct_types :: "struct_info list"
  array_types :: "array_info list"
  enum_types :: "enum_info list"
  enum_variant_types :: "enum_variant_info list"
  ref_types :: "ref_info list"
  tuple_types :: "tuple_info list"

subsection \<open>First facts\<close>

lemma mk_range_sel [simp]: "range_head (mk_range h n) = h" "range_size (mk_range h n) = n"
  by (simp_all add: mk_range_def)

lemma set_indices [simp]: "set (indices r) = {range_head r ..< range_head r + range_size r}"
  by (simp add: indices_def)

lemma length_indices [simp]: "length (indices r) = range_size r"
  by (simp add: indices_def)

lemma nth_indices [simp]: "i < range_size r \<Longrightarrow> indices r ! i = range_head r + i"
  by (simp add: indices_def)

lemma indices_zero [simp]: "range_size r = 0 \<Longrightarrow> indices r = []"
  by (simp add: indices_def)

text \<open>Reading an integer immediate keeps its value: sign-extended when the tag is signed.\<close>

lemma as_u64_integer_kind: "as_u64_integer tag d = Some v \<Longrightarrow> is_integer_type tag"
  by (auto simp: as_u64_integer_def is_integer_type_def split: imm_data.splits if_splits)

end
