(* ===== verification/Ir_Verifier.thy ===== *)
theory Ir_Verifier
  imports Ir
begin

text \<open>
  The structural verifier of the IR (\<^verbatim>\<open>src/ir/verifier.h\<close>, \<^verbatim>\<open>src/ir/verifier.cc\<close>): one
  definition per loop body, composed in the order of \<^verbatim>\<open>verify_storage\<close>, the first error
  wins. Every table access is checked: \<open>Trap\<close> is an access outside a table, which C++ leaves
  undefined. The declarative \<open>wf_storage\<close> says what an accepted storage satisfies.
\<close>

subsection \<open>Errors and checked steps\<close>

datatype verify_error_kind =
  FunctionBlocksOutOfRange | FunctionParamTypesOutOfRange | BlockInstrsOutOfRange
  | BlockParamsOutOfRange | BlockParamRegOutOfRange | InstrOperandsOutOfRange
  | InstrDstOutOfRange | UnknownOperandTag | OperandIdxOutOfRange | TypeIdxOutOfRange
  | StructFieldsOutOfRange | TypeMetadataOutOfRange | UndefinedRegister | RedefinedRegister
  | UnterminatedBlock | MisplacedTerminator | InvalidCallee | InvalidBranchTarget
  | InvalidCondBr | InvalidSwitch | InvalidGetElementPtr | InvalidExtractInsert
  | EnumFieldsOutOfRange | TupleFieldsOutOfRange

datatype check_error = Reject verify_error_kind nat | Trap

type_synonym 'a checked = "check_error + 'a"

definition reject :: "verify_error_kind \<Rightarrow> nat \<Rightarrow> 'a checked" where
  "reject kind i = Inl (Reject kind i)"

definition require :: "bool \<Rightarrow> verify_error_kind \<Rightarrow> nat \<Rightarrow> unit checked" where
  "require c kind i = (if c then Inr () else reject kind i)"

definition and_then :: "'a checked \<Rightarrow> ('a \<Rightarrow> 'b checked) \<Rightarrow> 'b checked" where
  "and_then r f = (case r of Inl e \<Rightarrow> Inl e | Inr x \<Rightarrow> f x)"

definition at :: "'a list \<Rightarrow> nat \<Rightarrow> 'a checked" where
  "at xs i = (if i < length xs then Inr (xs ! i) else Inl Trap)"

fun each :: "'a list \<Rightarrow> ('a \<Rightarrow> unit checked) \<Rightarrow> unit checked" where
  "each [] f = Inr ()"
| "each (x # xs) f = and_then (f x) (\<lambda>_. each xs f)"

fun each_with :: "'a list \<Rightarrow> ('a \<Rightarrow> 's \<Rightarrow> 's checked) \<Rightarrow> 's \<Rightarrow> 's checked" where
  "each_with [] f s = Inr s"
| "each_with (x # xs) f s = and_then (f x s) (each_with xs f)"

definition is_terminator :: "opcode \<Rightarrow> bool" where
  "is_terminator op \<longleftrightarrow> op = Br \<or> op = CondBr \<or> op = Switch \<or> op = Ret \<or> op = Unreachable"

definition range_in_bounds :: "idx_range \<Rightarrow> nat \<Rightarrow> bool" where
  "range_in_bounds r vec_size \<longleftrightarrow> range_head r + range_size r \<le> vec_size"

subsection \<open>Types, registers, immediates, functions\<close>

definition verify_type_node :: "storage \<Rightarrow> nat \<Rightarrow> unit checked" where
  "verify_type_node st tidx =
     and_then (at (types st) tidx) (\<lambda>node.
       let d = node_data node
       in if node_tag node = TyStruct then
            and_then (require (d < length (struct_types st)) TypeMetadataOutOfRange tidx) (\<lambda>_.
            and_then (at (struct_types st) d) (\<lambda>struct_type.
              require (range_in_bounds (struct_fields struct_type) (length (types st)))
                StructFieldsOutOfRange d))
          else if node_tag node = TyArray then
            and_then (require (d < length (array_types st)) TypeMetadataOutOfRange tidx) (\<lambda>_.
            and_then (at (array_types st) d) (\<lambda>array_type.
              require (array_element array_type < length (types st))
                TypeIdxOutOfRange (array_element array_type)))
          else if node_tag node = TyEnum then
            and_then (require (d < length (enum_types st)) TypeMetadataOutOfRange tidx) (\<lambda>_.
            and_then (at (enum_types st) d) (\<lambda>enum_type.
            and_then (require (range_in_bounds (enum_variants enum_type)
                        (length (enum_variant_types st))) TypeMetadataOutOfRange tidx) (\<lambda>_.
              each (indices (enum_variants enum_type)) (\<lambda>vidx.
                and_then (at (enum_variant_types st) vidx) (\<lambda>variant.
                  require (range_in_bounds (variant_fields variant) (length (types st)))
                    EnumFieldsOutOfRange vidx)))))
          else if node_tag node = TyTuple then
            and_then (require (d < length (tuple_types st)) TypeMetadataOutOfRange tidx) (\<lambda>_.
            and_then (at (tuple_types st) d) (\<lambda>tuple.
              require (range_in_bounds (tuple_elements tuple) (length (types st)))
                TupleFieldsOutOfRange d))
          else Inr ())"

definition verify_register :: "storage \<Rightarrow> nat \<Rightarrow> unit checked" where
  "verify_register st ridx =
     and_then (at (registers st) ridx) (\<lambda>r.
       require (reg_type r < length (types st)) TypeIdxOutOfRange ridx)"

definition verify_immutable :: "storage \<Rightarrow> nat \<Rightarrow> unit checked" where
  "verify_immutable st iidx =
     and_then (at (immutables st) iidx) (\<lambda>i.
       require (imm_type i < length (types st)) TypeIdxOutOfRange iidx)"

definition verify_function :: "storage \<Rightarrow> nat \<Rightarrow> unit checked" where
  "verify_function st fidx =
     and_then (at (function_table st) fidx) (\<lambda>func.
     and_then (require (range_in_bounds (fn_blocks func) (length (blocks st)))
                FunctionBlocksOutOfRange fidx) (\<lambda>_.
     and_then (require (return_type (fn_meta func) < length (types st))
                TypeIdxOutOfRange fidx) (\<lambda>_.
       each (indices (param_types (fn_meta func))) (\<lambda>tidx.
         require (tidx < length (types st)) TypeIdxOutOfRange tidx))))"

subsection \<open>Register definitions\<close>

text \<open>\<open>defined\<close> is the bit vector of registers defined so far; it is read and written at \<open>reg\<close>.\<close>

definition define_register :: "nat \<Rightarrow> bool list \<Rightarrow> bool list checked" where
  "define_register reg defined =
     and_then (at defined reg) (\<lambda>already.
       if already then reject RedefinedRegister reg else Inr (defined[reg := True]))"

definition define_param :: "storage \<Rightarrow> nat \<Rightarrow> bool list \<Rightarrow> bool list checked" where
  "define_param st pidx defined =
     and_then (at (block_param_table st) pidx) (\<lambda>param.
     and_then (require (param_type param < length (types st)) TypeIdxOutOfRange pidx) (\<lambda>_.
     and_then (require (param_reg param < length (registers st))
                BlockParamRegOutOfRange (param_reg param)) (\<lambda>_.
       define_register (param_reg param) defined)))"

definition define_dst :: "storage \<Rightarrow> nat \<Rightarrow> bool list \<Rightarrow> bool list checked" where
  "define_dst st iidx defined =
     and_then (at (instrs st) iidx) (\<lambda>instr.
       case instr_dst instr of
         None \<Rightarrow> Inr defined
       | Some dst \<Rightarrow>
           and_then (require (dst < length (registers st)) InstrDstOutOfRange iidx) (\<lambda>_.
             define_register dst defined))"

definition define_block :: "storage \<Rightarrow> nat \<Rightarrow> bool list \<Rightarrow> bool list checked" where
  "define_block st bidx defined =
     and_then (at (blocks st) bidx) (\<lambda>block.
     and_then (require (range_in_bounds (block_instrs block) (length (instrs st)))
                BlockInstrsOutOfRange bidx) (\<lambda>_.
     and_then (require (range_in_bounds (block_params block) (length (block_param_table st)))
                BlockParamsOutOfRange bidx) (\<lambda>_.
     and_then (each_with (indices (block_params block)) (define_param st) defined) (\<lambda>defined'.
       each_with (indices (block_instrs block)) (define_dst st) defined'))))"

subsection \<open>Operands and instruction shapes\<close>

definition verify_operand :: "storage \<Rightarrow> bool list \<Rightarrow> nat \<Rightarrow> unit checked" where
  "verify_operand st defined oidx =
     and_then (at (operands st) oidx) (\<lambda>operand.
     and_then (require (op_type operand < length (types st)) TypeIdxOutOfRange oidx) (\<lambda>_.
       case op_data operand of
         OpRegister r \<Rightarrow>
           and_then (require (r < length (registers st)) OperandIdxOutOfRange oidx) (\<lambda>_.
           and_then (at defined r) (\<lambda>d. require d UndefinedRegister r))
       | OpFunction f \<Rightarrow> require (f < length (function_table st)) OperandIdxOutOfRange oidx
       | OpBlock b \<Rightarrow> require (b < length (blocks st)) OperandIdxOutOfRange oidx
       | OpImmutable i \<Rightarrow> require (i < length (immutables st)) OperandIdxOutOfRange oidx
       | OpExternal e \<Rightarrow> require (e < length (external_functions st)) OperandIdxOutOfRange oidx
       | OpVoid \<Rightarrow> reject UnknownOperandTag oidx))"

definition callee_meta :: "storage \<Rightarrow> operand \<Rightarrow> nat \<Rightarrow> function_meta checked" where
  "callee_meta st callee iidx =
     (case op_data callee of
        OpFunction f \<Rightarrow> and_then (at (function_table st) f) (\<lambda>fn. Inr (fn_meta fn))
      | OpExternal e \<Rightarrow> and_then (at (external_functions st) e) (\<lambda>fn. Inr (ext_meta fn))
      | _ \<Rightarrow> reject InvalidCallee iidx)"

definition verify_call :: "storage \<Rightarrow> nat \<Rightarrow> instruction \<Rightarrow> unit checked" where
  "verify_call st iidx instr =
     (let r = instr_operands instr
      in and_then (require (range_size r \<noteq> 0) InvalidCallee iidx) (\<lambda>_.
         and_then (at (operands st) (range_head r)) (\<lambda>callee.
         and_then (callee_meta st callee iidx) (\<lambda>meta.
           require (range_size r - 1 = range_size (param_types meta)) InvalidCallee iidx))))"

definition is_block_operand :: "operand \<Rightarrow> bool" where
  "is_block_operand operand \<longleftrightarrow> (case op_data operand of OpBlock b \<Rightarrow> True | _ \<Rightarrow> False)"

definition is_register_operand :: "operand \<Rightarrow> bool" where
  "is_register_operand operand \<longleftrightarrow> (case op_data operand of OpRegister r \<Rightarrow> True | _ \<Rightarrow> False)"

definition is_immutable_operand :: "operand \<Rightarrow> bool" where
  "is_immutable_operand operand \<longleftrightarrow> (case op_data operand of OpImmutable i \<Rightarrow> True | _ \<Rightarrow> False)"

definition verify_br :: "storage \<Rightarrow> nat \<Rightarrow> instruction \<Rightarrow> unit checked" where
  "verify_br st iidx instr =
     (let r = instr_operands instr
      in and_then (require (range_size r \<noteq> 0) InvalidBranchTarget iidx) (\<lambda>_.
         and_then (at (operands st) (range_head r)) (\<lambda>target.
           require (is_block_operand target) InvalidBranchTarget iidx)))"

text \<open>A branch target that must name a block without parameters.\<close>

definition verify_plain_target ::
  "storage \<Rightarrow> operand \<Rightarrow> verify_error_kind \<Rightarrow> nat \<Rightarrow> unit checked" where
  "verify_plain_target st target kind iidx =
     (case op_data target of
        OpBlock b \<Rightarrow>
          and_then (at (blocks st) b) (\<lambda>block.
            require (range_size (block_params block) = 0) kind iidx)
      | _ \<Rightarrow> reject kind iidx)"

definition verify_cond_br :: "storage \<Rightarrow> nat \<Rightarrow> instruction \<Rightarrow> unit checked" where
  "verify_cond_br st iidx instr =
     (let r = instr_operands instr; h = range_head r
      in and_then (require (range_size r = 3) InvalidCondBr iidx) (\<lambda>_.
         and_then (at (operands st) h) (\<lambda>cond.
         and_then (at (types st) (op_type cond)) (\<lambda>node.
         and_then (require (node_tag node = TyI1) InvalidCondBr iidx) (\<lambda>_.
           each [1, 2] (\<lambda>offset.
             and_then (at (operands st) (h + offset)) (\<lambda>target.
               verify_plain_target st target InvalidCondBr iidx)))))))"

text \<open>The case loop of a switch, which advances its offset by two.\<close>

function verify_cases :: "storage \<Rightarrow> nat \<Rightarrow> nat \<Rightarrow> nat \<Rightarrow> nat \<Rightarrow> unit checked" where
  "verify_cases st iidx h n offset =
     (if offset < n then
        and_then (at (operands st) (h + offset)) (\<lambda>case_value.
        and_then (at (operands st) (h + offset + 1)) (\<lambda>case_target.
        and_then (require (is_immutable_operand case_value \<and> is_block_operand case_target)
                   InvalidSwitch iidx) (\<lambda>_.
        and_then (verify_plain_target st case_target InvalidSwitch iidx) (\<lambda>_.
          verify_cases st iidx h n (offset + 2)))))
      else Inr ())"
  by pat_completeness auto
termination
  by (relation "measure (\<lambda>(st, iidx, h, n, offset). n - offset)") auto

declare verify_cases.simps [simp del]

definition verify_switch :: "storage \<Rightarrow> nat \<Rightarrow> instruction \<Rightarrow> unit checked" where
  "verify_switch st iidx instr =
     (let r = instr_operands instr; h = range_head r
      in and_then (require (\<not> (range_size r < 2 \<or> range_size r mod 2 \<noteq> 0)) InvalidSwitch iidx) (\<lambda>_.
         and_then (at (operands st) h) (\<lambda>val.
         and_then (at (types st) (op_type val)) (\<lambda>node.
         and_then (require (is_integer_type (node_tag node)) InvalidSwitch iidx) (\<lambda>_.
         and_then (at (operands st) (h + 1)) (\<lambda>default_target.
         and_then (verify_plain_target st default_target InvalidSwitch iidx) (\<lambda>_.
           verify_cases st iidx h (range_size r) 2)))))))"

definition verify_index ::
  "storage \<Rightarrow> verify_error_kind \<Rightarrow> nat \<Rightarrow> bool \<Rightarrow> nat \<Rightarrow> unit checked" where
  "verify_index st kind iidx immediate oidx =
     and_then (at (operands st) oidx) (\<lambda>index.
       if immediate \<and> \<not> is_immutable_operand index then reject kind iidx
       else and_then (at (types st) (op_type index)) (\<lambda>node.
              require (is_integer_type (node_tag node)) kind iidx))"

definition verify_gep :: "storage \<Rightarrow> nat \<Rightarrow> instruction \<Rightarrow> unit checked" where
  "verify_gep st iidx instr =
     (let r = instr_operands instr; h = range_head r
      in and_then (require (\<not> range_size r < 2) InvalidGetElementPtr iidx) (\<lambda>_.
         and_then (at (operands st) h) (\<lambda>base.
         and_then (require (is_register_operand base) InvalidGetElementPtr iidx) (\<lambda>_.
           each [1 ..< range_size r] (\<lambda>offset.
             verify_index st InvalidGetElementPtr iidx False (h + offset))))))"

definition verify_extract_insert :: "storage \<Rightarrow> nat \<Rightarrow> instruction \<Rightarrow> unit checked" where
  "verify_extract_insert st iidx instr =
     (let r = instr_operands instr; h = range_head r;
          first_index = (if instr_op instr = ExtractValue then 1 else 2)
      in and_then (require (\<not> range_size r < first_index + 1) InvalidExtractInsert iidx) (\<lambda>_.
           each [first_index ..< range_size r] (\<lambda>offset.
             verify_index st InvalidExtractInsert iidx True (h + offset))))"

subsection \<open>Instructions, blocks, storage\<close>

definition when_op :: "bool \<Rightarrow> unit checked \<Rightarrow> unit checked" where
  "when_op c r = (if c then r else Inr ())"

definition verify_instr ::
  "storage \<Rightarrow> bool list \<Rightarrow> nat \<Rightarrow> idx_range \<Rightarrow> nat \<Rightarrow> unit checked" where
  "verify_instr st defined bidx rng iidx =
     and_then (at (instrs st) iidx) (\<lambda>instr.
       let op = instr_op instr;
           is_last = (iidx + 1 = range_head rng + range_size rng)
       in and_then (if is_terminator op \<noteq> is_last
                    then if is_last then reject UnterminatedBlock bidx
                         else reject MisplacedTerminator iidx
                    else Inr ()) (\<lambda>_.
          and_then (require (range_in_bounds (instr_operands instr) (length (operands st)))
                     InstrOperandsOutOfRange iidx) (\<lambda>_.
          and_then (each (indices (instr_operands instr)) (verify_operand st defined)) (\<lambda>_.
          and_then (when_op (op = Call) (verify_call st iidx instr)) (\<lambda>_.
          and_then (when_op (op = Br) (verify_br st iidx instr)) (\<lambda>_.
          and_then (when_op (op = CondBr) (verify_cond_br st iidx instr)) (\<lambda>_.
          and_then (when_op (op = Switch) (verify_switch st iidx instr)) (\<lambda>_.
          and_then (when_op (op = GetElementPtr) (verify_gep st iidx instr)) (\<lambda>_.
            when_op (op = ExtractValue \<or> op = InsertValue)
              (verify_extract_insert st iidx instr))))))))))"

definition verify_block :: "storage \<Rightarrow> bool list \<Rightarrow> nat \<Rightarrow> unit checked" where
  "verify_block st defined bidx =
     and_then (at (blocks st) bidx) (\<lambda>block.
     and_then (require (range_size (block_instrs block) \<noteq> 0) UnterminatedBlock bidx) (\<lambda>_.
       each (indices (block_instrs block)) (verify_instr st defined bidx (block_instrs block))))"

definition verify_has_block :: "storage \<Rightarrow> nat \<Rightarrow> unit checked" where
  "verify_has_block st fidx =
     and_then (at (function_table st) fidx) (\<lambda>func.
       require (range_size (fn_blocks func) \<noteq> 0) UnterminatedBlock fidx)"

definition verify_storage :: "storage \<Rightarrow> unit checked" where
  "verify_storage st =
     and_then (each [0 ..< length (types st)] (verify_type_node st)) (\<lambda>_.
     and_then (each [0 ..< length (registers st)] (verify_register st)) (\<lambda>_.
     and_then (each [0 ..< length (immutables st)] (verify_immutable st)) (\<lambda>_.
     and_then (each [0 ..< length (function_table st)] (verify_function st)) (\<lambda>_.
     and_then (each_with [0 ..< length (blocks st)] (define_block st)
                (replicate (length (registers st)) False)) (\<lambda>defined.
     and_then (each [0 ..< length (blocks st)] (verify_block st defined)) (\<lambda>_.
       each [0 ..< length (function_table st)] (verify_has_block st)))))))"

end
