(* ===== verification/Ir_Wf.thy ===== *)
theory Ir_Wf
  imports Ir_Verifier
begin

text \<open>
  What the verifier decides: a declarative well-formedness of IR storage, stated over operand
  lists instead of index loops, and the proof that the verifier accepts exactly the
  well-formed storages and never reads outside a table, whatever storage it is given.
\<close>

subsection \<open>Checked steps\<close>

named_theorems checked

lemma require_ok [checked]: "require c k i = Inr () \<longleftrightarrow> c"
  by (simp add: require_def reject_def)

lemma reject_not_ok [checked]: "reject k i \<noteq> Inr x"
  by (simp add: reject_def)

lemma at_ok [checked]: "at xs i = Inr x \<longleftrightarrow> i < length xs \<and> xs ! i = x"
  by (simp add: at_def)

lemma and_then_ok [checked]: "and_then r f = Inr y \<longleftrightarrow> (\<exists>x. r = Inr x \<and> f x = Inr y)"
  by (simp add: and_then_def split: sum.split)

lemma and_then_Inr: "and_then (Inr x) f = f x"
  by (simp add: and_then_def)

text \<open>Sequences of checks that pass nothing on.\<close>

lemma unit_chain: "and_then r (\<lambda>_. t) = Inr y \<longleftrightarrow> r = Inr () \<and> t = Inr y"
  by (simp add: and_then_def split: sum.split)

lemma at_in: "i < length xs \<Longrightarrow> at xs i = Inr (xs ! i)"
  by (simp add: at_def)

lemma require_true: "require True k i = Inr ()"
  by (simp add: require_def)

lemma when_op_ok [checked]: "when_op c r = Inr () \<longleftrightarrow> (c \<longrightarrow> r = Inr ())"
  by (simp add: when_op_def)

lemma each_ok [checked]: "each xs f = Inr () \<longleftrightarrow> (\<forall>x \<in> set xs. f x = Inr ())"
  by (induction xs) (auto simp: and_then_ok)

text \<open>A step is safe when it does not read outside a table.\<close>

definition safe :: "'a checked \<Rightarrow> bool" where
  "safe r \<longleftrightarrow> r \<noteq> Inl Trap"

named_theorems safety

lemma safe_Inr [safety]: "safe (Inr x)"
  by (simp add: safe_def)

lemma safe_reject [safety]: "safe (reject k i)"
  by (simp add: safe_def reject_def)

lemma safe_require [safety]: "safe (require c k i)"
  by (simp add: safe_def require_def reject_def)

lemma safe_at [safety]: "safe (at xs i) \<longleftrightarrow> i < length xs"
  by (simp add: safe_def at_def)

lemma safe_and_then [safety]:
  "safe (and_then r f) \<longleftrightarrow> safe r \<and> (\<forall>x. r = Inr x \<longrightarrow> safe (f x))"
  by (auto simp: safe_def and_then_def split: sum.split)

lemma safe_unit_chain: "safe (and_then r (\<lambda>_. t)) \<longleftrightarrow> safe r \<and> (r = Inr () \<longrightarrow> safe t)"
  by (simp add: safe_and_then)

lemma safe_when_op [safety]: "safe (when_op c r) \<longleftrightarrow> (c \<longrightarrow> safe r)"
  by (simp add: safe_def when_op_def)

lemma safe_each: "(\<And>x. x \<in> set xs \<Longrightarrow> safe (f x)) \<Longrightarrow> safe (each xs f)"
  by (induction xs) (auto simp: safety)

lemma each_with_inv:
  assumes "\<And>x s. x \<in> set xs \<Longrightarrow> I s \<Longrightarrow> safe (f x s) \<and> (\<forall>s'. f x s = Inr s' \<longrightarrow> I s')" and "I s"
  shows "safe (each_with xs f s) \<and> (\<forall>s'. each_with xs f s = Inr s' \<longrightarrow> I s')"
  using assms
proof (induction xs arbitrary: s)
  case (Cons x xs)
  then show ?case by (simp add: safety checked) blast
qed (simp add: safety)

subsection \<open>Well-formed types, registers, functions\<close>

definition wf_type_node :: "storage \<Rightarrow> type_node \<Rightarrow> bool" where
  "wf_type_node st node \<longleftrightarrow>
     (case node_tag node of
        TyStruct \<Rightarrow> node_data node < length (struct_types st) \<and>
          range_in_bounds (struct_fields (struct_types st ! node_data node)) (length (types st))
      | TyArray \<Rightarrow> node_data node < length (array_types st) \<and>
          array_element (array_types st ! node_data node) < length (types st)
      | TyEnum \<Rightarrow> node_data node < length (enum_types st) \<and>
          range_in_bounds (enum_variants (enum_types st ! node_data node)) (length (enum_variant_types st)) \<and>
          (\<forall>v \<in> set (indices (enum_variants (enum_types st ! node_data node))).
             range_in_bounds (variant_fields (enum_variant_types st ! v)) (length (types st)))
      | TyTuple \<Rightarrow> node_data node < length (tuple_types st) \<and>
          range_in_bounds (tuple_elements (tuple_types st ! node_data node)) (length (types st))
      | _ \<Rightarrow> True)"

definition wf_function :: "storage \<Rightarrow> ir_function \<Rightarrow> bool" where
  "wf_function st fn \<longleftrightarrow> fn_blocks fn \<noteq> mk_range (range_head (fn_blocks fn)) 0 \<and>
     range_in_bounds (fn_blocks fn) (length (blocks st)) \<and>
     return_type (fn_meta fn) < length (types st) \<and>
     (\<forall>t \<in> set (indices (param_types (fn_meta fn))). t < length (types st))"

lemma verify_type_node_iff:
  "i < length (types st) \<Longrightarrow> verify_type_node st i = Inr () \<longleftrightarrow> wf_type_node st (types st ! i)"
  unfolding verify_type_node_def wf_type_node_def Let_def
  by (cases "node_tag (types st ! i)")
     (auto simp: checked range_in_bounds_def)

lemma safe_verify_type_node: "i < length (types st) \<Longrightarrow> safe (verify_type_node st i)"
  unfolding verify_type_node_def Let_def
  by (auto simp: safety checked range_in_bounds_def intro!: safe_each)

lemma verify_tables_iff:
  "i < length (registers st) \<Longrightarrow> verify_register st i = Inr () \<longleftrightarrow> reg_type (registers st ! i) < length (types st)"
  "j < length (immutables st) \<Longrightarrow> verify_immutable st j = Inr () \<longleftrightarrow> imm_type (immutables st ! j) < length (types st)"
  by (simp_all add: verify_register_def verify_immutable_def checked)

lemma safe_verify_tables:
  "i < length (registers st) \<Longrightarrow> safe (verify_register st i)"
  "j < length (immutables st) \<Longrightarrow> safe (verify_immutable st j)"
  by (simp_all add: verify_register_def verify_immutable_def safety)

lemma verify_function_iff:
  "i < length (function_table st) \<Longrightarrow> verify_function st i = Inr () \<and> verify_has_block st i = Inr () \<longleftrightarrow>
     wf_function st (function_table st ! i)"
  by (cases "fn_blocks (function_table st ! i)")
     (auto simp: verify_function_def verify_has_block_def wf_function_def checked mk_range_def)

lemma safe_verify_function:
  "i < length (function_table st) \<Longrightarrow> safe (verify_function st i) \<and> safe (verify_has_block st i)"
  by (auto simp: verify_function_def verify_has_block_def safety intro!: safe_each)

subsection \<open>Single definitions\<close>

text \<open>The registers a block marks, in the order the verifier meets them.\<close>

definition dst_list :: "instruction \<Rightarrow> nat list" where
  "dst_list i = (case instr_dst i of None \<Rightarrow> [] | Some r \<Rightarrow> [r])"

definition block_defs :: "storage \<Rightarrow> block \<Rightarrow> nat list" where
  "block_defs st b =
     map (\<lambda>p. param_reg (block_param_table st ! p)) (indices (block_params b)) @
     concat (map (\<lambda>i. dst_list (instrs st ! i)) (indices (block_instrs b)))"

definition all_defs :: "storage \<Rightarrow> nat list" where
  "all_defs st = concat (map (block_defs st) (blocks st))"

definition wf_block_ranges :: "storage \<Rightarrow> block \<Rightarrow> bool" where
  "wf_block_ranges st b \<longleftrightarrow>
     range_in_bounds (block_instrs b) (length (instrs st)) \<and>
     range_in_bounds (block_params b) (length (block_param_table st)) \<and>
     (\<forall>p \<in> set (indices (block_params b)). param_type (block_param_table st ! p) < length (types st))"

text \<open>
  Defining a list of registers in a bit vector: it succeeds exactly when none is out of range
  or already defined and none occurs twice, and it adds exactly those.
\<close>

definition marked :: "bool list \<Rightarrow> nat set" where
  "marked d = {i. i < length d \<and> d ! i}"

definition marks :: "bool \<Rightarrow> nat list \<Rightarrow> bool list \<Rightarrow> bool list checked \<Rightarrow> bool" where
  "marks c rs d r \<longleftrightarrow>
     (if c \<and> distinct rs \<and> set rs \<subseteq> {..< length d} \<and> set rs \<inter> marked d = {}
      then \<exists>d'. r = Inr d' \<and> length d' = length d \<and> marked d' = marked d \<union> set rs
      else \<forall>d'. r \<noteq> Inr d')"

lemma marksD:
  "marks c rs d r \<Longrightarrow> r = Inr d' \<Longrightarrow> c \<and> distinct rs \<and> set rs \<subseteq> {..< length d} \<and>
     set rs \<inter> marked d = {} \<and> length d' = length d \<and> marked d' = marked d \<union> set rs"
  by (auto simp: marks_def split: if_splits)

lemma marks_nil [simp]: "marks True [] d (Inr d)"
  by (simp add: marks_def)

lemma marks_fail: "\<not> c \<Longrightarrow> (\<And>d'. r \<noteq> Inr d') \<Longrightarrow> marks c rs d r"
  by (simp add: marks_def)

lemma marks_then:
  assumes r: "marks c rs d r"
    and f: "\<And>d'. c \<Longrightarrow> length d' = length d \<Longrightarrow> marks c' rs' d' (f d')"
  shows "marks (c \<and> c') (rs @ rs') d (and_then r f)"
proof (cases "\<exists>d'. r = Inr d'")
  case True
  then obtain d' where d': "r = Inr d'" ..
  from marksD [OF r d'] have *: "c" "distinct rs" "set rs \<subseteq> {..< length d}" "set rs \<inter> marked d = {}"
    "length d' = length d" "marked d' = marked d \<union> set rs" by auto
  show ?thesis using f [OF *(1,5)] *
    unfolding marks_def d' and_then_def by (auto simp: Un_assoc split: if_splits)
next
  case False
  then have "\<forall>d'. and_then r f \<noteq> Inr d'" by (simp add: and_then_ok)
  moreover have "\<not> (c \<and> distinct rs \<and> set rs \<subseteq> {..< length d} \<and> set rs \<inter> marked d = {})"
    using r False by (auto simp: marks_def split: if_splits)
  ultimately show ?thesis by (auto simp: marks_def)
qed

lemma marks_each:
  assumes "\<And>x d. x \<in> set xs \<Longrightarrow> length d = n \<Longrightarrow> marks (C x) (R x) d (f x d)" and "length d = n"
  shows "marks (\<forall>x \<in> set xs. C x) (concat (map R xs)) d (each_with xs f d)"
  using assms
proof (induction xs arbitrary: d)
  case (Cons x xs)
  have "marks (C x \<and> (\<forall>x \<in> set xs. C x)) (R x @ concat (map R xs)) d (and_then (f x d) (each_with xs f))"
    using Cons by (intro marks_then) auto
  then show ?case by simp
qed simp

lemma define_register_marks: "marks True [reg] d (define_register reg d)"
  by (auto simp: define_register_def marks_def marked_def at_def and_then_def reject_def nth_list_update)

lemma define_param_marks:
  assumes "p < length (block_param_table st)" and "length d = length (registers st)"
  shows "marks (param_type (block_param_table st ! p) < length (types st))
    [param_reg (block_param_table st ! p)] d (define_param st p d)"
  using assms define_register_marks [of "param_reg (block_param_table st ! p)" d]
  by (auto simp: define_param_def marks_def at_def and_then_def require_def reject_def)

lemma define_dst_marks:
  assumes "i < length (instrs st)" and "length d = length (registers st)"
  shows "marks True (dst_list (instrs st ! i)) d (define_dst st i d)"
proof (cases "instr_dst (instrs st ! i)")
  case None
  then show ?thesis using assms by (simp add: define_dst_def dst_list_def at_def and_then_def)
next
  case (Some r)
  then show ?thesis using assms define_register_marks [of r d]
    by (auto simp: define_dst_def dst_list_def marks_def at_def and_then_def require_def reject_def)
qed

lemma define_block_marks:
  assumes "b < length (blocks st)" and d: "length d = length (registers st)"
  shows "marks (wf_block_ranges st (blocks st ! b)) (block_defs st (blocks st ! b)) d (define_block st b d)"
proof (cases "range_in_bounds (block_instrs (blocks st ! b)) (length (instrs st)) \<and>
    range_in_bounds (block_params (blocks st ! b)) (length (block_param_table st))")
  case False
  then show ?thesis using assms(1)
    by (intro marks_fail) (auto simp: wf_block_ranges_def define_block_def checked)
next
  case True
  let ?B = "blocks st ! b"
  let ?C = "\<lambda>p. param_type (block_param_table st ! p) < length (types st)"
  have eq: "define_block st b d =
      and_then (each_with (indices (block_params ?B)) (define_param st) d)
        (each_with (indices (block_instrs ?B)) (define_dst st))"
    using True assms(1) by (simp add: define_block_def at_def and_then_def require_def)
  have "marks (\<forall>p \<in> set (indices (block_params ?B)). ?C p)
      (concat (map (\<lambda>p. [param_reg (block_param_table st ! p)]) (indices (block_params ?B)))) d
      (each_with (indices (block_params ?B)) (define_param st) d)"
    using True by (intro marks_each [where n = "length (registers st)"] define_param_marks d)
      (auto simp: range_in_bounds_def)
  moreover have "marks (\<forall>i \<in> set (indices (block_instrs ?B)). True)
      (concat (map (\<lambda>i. dst_list (instrs st ! i)) (indices (block_instrs ?B)))) d'
      (each_with (indices (block_instrs ?B)) (define_dst st) d')" if "length d' = length d" for d'
    using True that d by (intro marks_each [where n = "length (registers st)"] define_dst_marks)
      (auto simp: range_in_bounds_def)
  ultimately have "marks ((\<forall>p \<in> set (indices (block_params ?B)). ?C p) \<and> (\<forall>i \<in> set (indices (block_instrs ?B)). True))
      (concat (map (\<lambda>p. [param_reg (block_param_table st ! p)]) (indices (block_params ?B))) @
       concat (map (\<lambda>i. dst_list (instrs st ! i)) (indices (block_instrs ?B)))) d (define_block st b d)"
    unfolding eq by (rule marks_then)
  then show ?thesis using True by (simp add: wf_block_ranges_def block_defs_def)
qed

lemma map_nth_upt: "map (\<lambda>i. f (xs ! i)) [0 ..< length xs] = map f xs"
  by (rule nth_equalityI) simp_all

lemma all_defs_marks:
  "marks (\<forall>b \<in> set (blocks st). wf_block_ranges st b) (all_defs st)
     (replicate (length (registers st)) False)
     (each_with [0 ..< length (blocks st)] (define_block st) (replicate (length (registers st)) False))"
proof -
  have "marks (\<forall>b \<in> set [0 ..< length (blocks st)]. wf_block_ranges st (blocks st ! b))
      (concat (map (\<lambda>b. block_defs st (blocks st ! b)) [0 ..< length (blocks st)]))
      (replicate (length (registers st)) False)
      (each_with [0 ..< length (blocks st)] (define_block st) (replicate (length (registers st)) False))"
    by (intro marks_each [where n = "length (registers st)"] define_block_marks) auto
  moreover have "(\<forall>b \<in> set [0 ..< length (blocks st)]. wf_block_ranges st (blocks st ! b)) \<longleftrightarrow>
      (\<forall>b \<in> set (blocks st). wf_block_ranges st b)"
    by (auto simp: all_set_conv_all_nth)
  ultimately show ?thesis by (simp only: map_nth_upt all_defs_def)
qed

subsection \<open>Well-formed instructions\<close>

definition wf_operand :: "storage \<Rightarrow> nat set \<Rightarrow> operand \<Rightarrow> bool" where
  "wf_operand st defs o1 \<longleftrightarrow> op_type o1 < length (types st) \<and>
     (case op_data o1 of
        OpRegister r \<Rightarrow> r < length (registers st) \<and> r \<in> defs
      | OpFunction f \<Rightarrow> f < length (function_table st)
      | OpBlock b \<Rightarrow> b < length (blocks st)
      | OpImmutable i \<Rightarrow> i < length (immutables st)
      | OpExternal e \<Rightarrow> e < length (external_functions st)
      | OpVoid \<Rightarrow> False)"

definition plain_target :: "storage \<Rightarrow> operand \<Rightarrow> bool" where
  "plain_target st o1 \<longleftrightarrow>
     (case op_data o1 of OpBlock b \<Rightarrow> range_size (block_params (blocks st ! b)) = 0 | _ \<Rightarrow> False)"

definition type_of_operand :: "storage \<Rightarrow> operand \<Rightarrow> type_tag" where
  "type_of_operand st o1 = node_tag (types st ! op_type o1)"

definition callee_arity :: "storage \<Rightarrow> operand \<Rightarrow> nat option" where
  "callee_arity st o1 =
     (case op_data o1 of
        OpFunction f \<Rightarrow> Some (range_size (param_types (fn_meta (function_table st ! f))))
      | OpExternal e \<Rightarrow> Some (range_size (param_types (ext_meta (external_functions st ! e))))
      | _ \<Rightarrow> None)"

fun wf_cases :: "storage \<Rightarrow> operand list \<Rightarrow> bool" where
  "wf_cases st [] = True"
| "wf_cases st [v] = False"
| "wf_cases st (v # t # rest) \<longleftrightarrow> is_immutable_operand v \<and> plain_target st t \<and> wf_cases st rest"

text \<open>The shape that an opcode demands of its operand list.\<close>

definition wf_shape :: "storage \<Rightarrow> opcode \<Rightarrow> operand list \<Rightarrow> bool" where
  "wf_shape st op ops \<longleftrightarrow>
     (op = Call \<longrightarrow> ops \<noteq> [] \<and> callee_arity st (hd ops) = Some (length (tl ops))) \<and>
     (op = Br \<longrightarrow> ops \<noteq> [] \<and> is_block_operand (hd ops)) \<and>
     (op = CondBr \<longrightarrow> (\<exists>c t e. ops = [c, t, e] \<and> type_of_operand st c = TyI1 \<and>
        plain_target st t \<and> plain_target st e)) \<and>
     (op = Switch \<longrightarrow> (\<exists>v d rest. ops = v # d # rest \<and> is_integer_type (type_of_operand st v) \<and>
        plain_target st d \<and> wf_cases st rest)) \<and>
     (op = GetElementPtr \<longrightarrow> (\<exists>b ixs. ops = b # ixs \<and> ixs \<noteq> [] \<and> is_register_operand b \<and>
        (\<forall>i \<in> set ixs. is_integer_type (type_of_operand st i)))) \<and>
     (op = ExtractValue \<longrightarrow> (\<exists>a ixs. ops = a # ixs \<and> ixs \<noteq> [] \<and>
        (\<forall>i \<in> set ixs. is_immutable_operand i \<and> is_integer_type (type_of_operand st i)))) \<and>
     (op = InsertValue \<longrightarrow> (\<exists>a v ixs. ops = a # v # ixs \<and> ixs \<noteq> [] \<and>
        (\<forall>i \<in> set ixs. is_immutable_operand i \<and> is_integer_type (type_of_operand st i))))"

definition operand_list :: "storage \<Rightarrow> instruction \<Rightarrow> operand list" where
  "operand_list st i = map (\<lambda>k. operands st ! k) (indices (instr_operands i))"

definition wf_instr :: "storage \<Rightarrow> nat set \<Rightarrow> instruction \<Rightarrow> bool" where
  "wf_instr st defs i \<longleftrightarrow> range_in_bounds (instr_operands i) (length (operands st)) \<and>
     (\<forall>o1 \<in> set (operand_list st i). wf_operand st defs o1) \<and>
     wf_shape st (instr_op i) (operand_list st i)"

definition instr_list :: "storage \<Rightarrow> block \<Rightarrow> instruction list" where
  "instr_list st b = map (\<lambda>k. instrs st ! k) (indices (block_instrs b))"

text \<open>A block: at least one instruction, the last and only the last a terminator.\<close>

definition wf_block :: "storage \<Rightarrow> nat set \<Rightarrow> block \<Rightarrow> bool" where
  "wf_block st defs b \<longleftrightarrow>
     (let is = instr_list st b
      in is \<noteq> [] \<and> is_terminator (instr_op (last is)) \<and>
         (\<forall>i \<in> set (butlast is). \<not> is_terminator (instr_op i)) \<and>
         (\<forall>i \<in> set is. wf_instr st defs i))"

definition wf_storage :: "storage \<Rightarrow> bool" where
  "wf_storage st \<longleftrightarrow>
     (\<forall>n \<in> set (types st). wf_type_node st n) \<and>
     (\<forall>r \<in> set (registers st). reg_type r < length (types st)) \<and>
     (\<forall>i \<in> set (immutables st). imm_type i < length (types st)) \<and>
     (\<forall>f \<in> set (function_table st). wf_function st f) \<and>
     (\<forall>b \<in> set (blocks st). wf_block_ranges st b) \<and>
     distinct (all_defs st) \<and> set (all_defs st) \<subseteq> {..< length (registers st)} \<and>
     (\<forall>b \<in> set (blocks st). wf_block st (set (all_defs st)) b)"

subsection \<open>The verifier decides the shapes\<close>

text \<open>From here on the operand range is in bounds, the operands of the instruction are checked.\<close>

lemma verify_operand_iff:
  assumes "k < length (operands st)" and "length d = length (registers st)"
  shows "verify_operand st d k = Inr () \<longleftrightarrow> wf_operand st (marked d) (operands st ! k)"
  using assms
  by (auto simp: verify_operand_def wf_operand_def checked marked_def split: operand_data.split)

lemma safe_verify_operand:
  "k < length (operands st) \<Longrightarrow> length d = length (registers st) \<Longrightarrow> safe (verify_operand st d k)"
  by (auto simp: verify_operand_def safety checked split: operand_data.split)

lemma verify_plain_target_iff:
  "wf_operand st defs t \<Longrightarrow> verify_plain_target st t k i = Inr () \<longleftrightarrow> plain_target st t"
  by (auto simp: verify_plain_target_def plain_target_def wf_operand_def checked split: operand_data.split)

lemma safe_verify_plain_target: "wf_operand st defs t \<Longrightarrow> safe (verify_plain_target st t k i)"
  by (auto simp: verify_plain_target_def wf_operand_def safety split: operand_data.split)

lemma verify_index_iff:
  assumes "wf_operand st defs (operands st ! k)" and "k < length (operands st)"
  shows "verify_index st kind i im k = Inr () \<longleftrightarrow>
    (im \<longrightarrow> is_immutable_operand (operands st ! k)) \<and> is_integer_type (type_of_operand st (operands st ! k))"
  using assms by (auto simp: verify_index_def checked type_of_operand_def wf_operand_def)

lemma safe_verify_index:
  "wf_operand st defs (operands st ! k) \<Longrightarrow> k < length (operands st) \<Longrightarrow> safe (verify_index st kind i im k)"
  by (simp add: verify_index_def safety checked wf_operand_def)

text \<open>What holds of an instruction once its operands were checked.\<close>

definition checked_operands :: "storage \<Rightarrow> nat set \<Rightarrow> instruction \<Rightarrow> bool" where
  "checked_operands st defs i \<longleftrightarrow> range_in_bounds (instr_operands i) (length (operands st)) \<and>
     (\<forall>o1 \<in> set (operand_list st i). wf_operand st defs o1)"

lemma length_operand_list [simp]: "length (operand_list st i) = range_size (instr_operands i)"
  by (simp add: operand_list_def)

lemma operand_list_Nil [simp]: "operand_list st i = [] \<longleftrightarrow> range_size (instr_operands i) = 0"
  by (metis length_0_conv length_operand_list)

lemma checked_nth:
  assumes "checked_operands st defs i" and "j < range_size (instr_operands i)"
  shows "range_head (instr_operands i) + j < length (operands st)"
    and "wf_operand st defs (operands st ! (range_head (instr_operands i) + j))"
    and "operand_list st i ! j = operands st ! (range_head (instr_operands i) + j)"
proof -
  show nth: "operand_list st i ! j = operands st ! (range_head (instr_operands i) + j)"
    using assms(2) by (simp add: operand_list_def)
  then show "wf_operand st defs (operands st ! (range_head (instr_operands i) + j))"
    using assms nth_mem [of j "operand_list st i"] by (simp add: checked_operands_def)
  show "range_head (instr_operands i) + j < length (operands st)"
    using assms by (simp add: checked_operands_def range_in_bounds_def)
qed

lemmas checked_hd = checked_nth [where j = 0, simplified]

lemma hd_operands: "range_size (instr_operands i) \<noteq> 0 \<Longrightarrow> hd (operand_list st i) = operand_list st i ! 0"
  by (cases "operand_list st i") (use length_operand_list [of st i] in auto)

lemma verify_call_iff:
  assumes c: "checked_operands st defs i"
  shows "verify_call st k i = Inr () \<longleftrightarrow> operand_list st i \<noteq> [] \<and>
    callee_arity st (hd (operand_list st i)) = Some (length (tl (operand_list st i)))"
proof (cases "range_size (instr_operands i) = 0")
  case False
  then show ?thesis using checked_hd [OF c] hd_operands [OF False, of st]
    by (auto simp: verify_call_def Let_def checked callee_meta_def callee_arity_def wf_operand_def
        split: operand_data.splits)
qed (simp add: verify_call_def Let_def checked)

lemma safe_verify_call: "checked_operands st defs i \<Longrightarrow> safe (verify_call st k i)"
  using checked_hd [of st defs i]
  by (auto simp: verify_call_def Let_def safety checked callee_meta_def wf_operand_def split: operand_data.splits)

lemma verify_br_iff:
  assumes c: "checked_operands st defs i"
  shows "verify_br st k i = Inr () \<longleftrightarrow> operand_list st i \<noteq> [] \<and> is_block_operand (hd (operand_list st i))"
proof (cases "range_size (instr_operands i) = 0")
  case False
  then show ?thesis using checked_hd [OF c] hd_operands [OF False, of st]
    by (auto simp: verify_br_def Let_def checked)
qed (simp add: verify_br_def Let_def checked)

lemma safe_verify_br: "checked_operands st defs i \<Longrightarrow> safe (verify_br st k i)"
  using checked_hd [of st defs i] by (simp add: verify_br_def Let_def safety checked)

text \<open>Lists of a given length by their elements.\<close>

lemma three_elements: "(\<exists>a b c. xs = [a, b, c] \<and> P a b c) \<longleftrightarrow> length xs = 3 \<and> P (xs ! 0) (xs ! 1) (xs ! 2)"
  by (auto simp: length_Suc_conv numeral_3_eq_3)

lemma one_then:
  "(\<exists>a rest. xs = a # rest \<and> rest \<noteq> [] \<and> P a rest) \<longleftrightarrow> 2 \<le> length xs \<and> P (xs ! 0) (drop 1 xs)"
  by (cases xs; cases "tl xs") auto

lemma two_then_some:
  "(\<exists>a b rest. xs = a # b # rest \<and> rest \<noteq> [] \<and> P rest) \<longleftrightarrow> 3 \<le> length xs \<and> P (drop 2 xs)"
  by (cases xs; cases "tl xs"; cases "tl (tl xs)") (auto simp: numeral_2_eq_2 numeral_3_eq_3)

lemma two_then:
  "(\<exists>a b rest. xs = a # b # rest \<and> P a b rest) \<longleftrightarrow> 2 \<le> length xs \<and> P (xs ! 0) (xs ! 1) (drop 2 xs)"
  by (cases xs; cases "tl xs") (auto simp: numeral_2_eq_2)

lemma all_drop: "(\<forall>x \<in> set (drop k xs). P x) \<longleftrightarrow> (\<forall>j \<in> set [k ..< length xs]. P (xs ! j))"
proof -
  have "set (drop k xs) = (\<lambda>j. xs ! j) ` set [k ..< length xs]"
    by (metis drop_upt image_set map_nth drop_map add_0)
  then show ?thesis by simp
qed

lemma verify_cond_br_iff:
  assumes c: "checked_operands st defs i"
  shows "verify_cond_br st k i = Inr () \<longleftrightarrow>
    (\<exists>c t e. operand_list st i = [c, t, e] \<and> type_of_operand st c = TyI1 \<and> plain_target st t \<and> plain_target st e)"
proof (cases "range_size (instr_operands i) = 3")
  case True
  note n = checked_nth [OF c, of 0] checked_nth [OF c, of 1] checked_nth [OF c, of 2]
  show ?thesis using True n unfolding three_elements
    by (auto simp: verify_cond_br_def Let_def checked verify_plain_target_iff type_of_operand_def
        wf_operand_def [of st defs "operands st ! range_head (instr_operands i)"])
qed (auto simp: three_elements verify_cond_br_def Let_def checked)

lemma safe_verify_cond_br: "checked_operands st defs i \<Longrightarrow> safe (verify_cond_br st k i)"
  using checked_nth [of st defs i 0] checked_nth [of st defs i 1] checked_nth [of st defs i 2]
  by (auto simp: verify_cond_br_def Let_def safety checked wf_operand_def
      intro!: safe_each safe_verify_plain_target)

lemma verify_cases_iff:
  assumes c: "checked_operands st defs i" and "h = range_head (instr_operands i)"
    and "n = range_size (instr_operands i)" and "even n" and "even off" and "off \<le> n"
  shows "(verify_cases st k h n off = Inr () \<longleftrightarrow> wf_cases st (drop off (operand_list st i))) \<and>
    safe (verify_cases st k h n off)"
  using assms(4-)
proof (induction "n - off" arbitrary: off rule: less_induct)
  case less
  show ?case
  proof (cases "off < n")
    case False
    then show ?thesis using less.prems assms(3)
      by (subst (1 2) verify_cases.simps) (simp add: safety)
  next
    case True
    then have lt: "off + 1 < n" using less.prems by presburger
    note a = checked_nth [OF c, of off] and b = checked_nth [OF c, of "off + 1"]
    have d: "drop off (operand_list st i) = operand_list st i ! off # operand_list st i ! (off + 1) #
        drop (off + 2) (operand_list st i)"
      using lt assms(3) by (simp add: Cons_nth_drop_Suc)
    have ih: "(verify_cases st k h n (off + 2) = Inr () \<longleftrightarrow> wf_cases st (drop (off + 2) (operand_list st i))) \<and>
        safe (verify_cases st k h n (off + 2))"
      using less.prems lt by (intro less.hyps) auto
    show ?thesis unfolding d using a b ih True lt assms(2,3)
      by (subst (1 2) verify_cases.simps)
         (auto simp: checked safety verify_plain_target_iff safe_verify_plain_target plain_target_def
            is_block_operand_def add.assoc split: operand_data.splits)
  qed
qed

lemma verify_switch_iff:
  assumes c: "checked_operands st defs i"
  shows "(verify_switch st k i = Inr () \<longleftrightarrow>
    (\<exists>v d rest. operand_list st i = v # d # rest \<and> is_integer_type (type_of_operand st v) \<and>
       plain_target st d \<and> wf_cases st rest)) \<and> safe (verify_switch st k i)"
proof (cases "2 \<le> range_size (instr_operands i) \<and> even (range_size (instr_operands i))")
  case True
  then have n: "0 < range_size (instr_operands i)" "1 < range_size (instr_operands i)" by auto
  note a = checked_nth [OF c n(1)] and b = checked_nth [OF c n(2)]
    and cs = verify_cases_iff [OF c refl refl, of 2 k]
  show ?thesis using True a b cs unfolding two_then
    by (auto simp: verify_switch_def Let_def checked safety verify_plain_target_iff
        safe_verify_plain_target type_of_operand_def wf_operand_def [of st defs "operands st ! range_head (instr_operands i)"])
next
  case False
  have even_cases: "wf_cases st xs \<Longrightarrow> even (length xs)" for xs
    by (induction st xs rule: wf_cases.induct) auto
  have "\<not> (\<exists>v d rest. operand_list st i = v # d # rest \<and> is_integer_type (type_of_operand st v) \<and>
      plain_target st d \<and> wf_cases st rest)"
  proof
    assume "\<exists>v d rest. operand_list st i = v # d # rest \<and> is_integer_type (type_of_operand st v) \<and>
      plain_target st d \<and> wf_cases st rest"
    then obtain v d rest where "operand_list st i = v # d # rest" "wf_cases st rest" by blast
    then have "2 \<le> length (operand_list st i) \<and> even (length (operand_list st i))"
      using even_cases by simp
    with False show False by simp
  qed
  moreover have "verify_switch st k i = reject InvalidSwitch k"
    using False by (auto simp: verify_switch_def Let_def require_def and_then_def reject_def)
  ultimately show ?thesis by (simp add: checked safety)
qed

lemma index_loop:
  assumes c: "checked_operands st defs i" and "h = range_head (instr_operands i)"
  shows "(each [f ..< range_size (instr_operands i)] (\<lambda>j. verify_index st kind k im (h + j)) = Inr () \<longleftrightarrow>
      (\<forall>x \<in> set (drop f (operand_list st i)).
         (im \<longrightarrow> is_immutable_operand x) \<and> is_integer_type (type_of_operand st x))) \<and>
    safe (each [f ..< range_size (instr_operands i)] (\<lambda>j. verify_index st kind k im (h + j)))"
proof
  have one: "verify_index st kind k im (h + j) = Inr () \<longleftrightarrow>
      (im \<longrightarrow> is_immutable_operand (operand_list st i ! j)) \<and>
      is_integer_type (type_of_operand st (operand_list st i ! j))"
    if "j < range_size (instr_operands i)" for j
    using checked_nth [OF c that] verify_index_iff [of st defs "h + j" kind k im] assms(2) by simp
  then show "each [f ..< range_size (instr_operands i)] (\<lambda>j. verify_index st kind k im (h + j)) = Inr () \<longleftrightarrow>
      (\<forall>x \<in> set (drop f (operand_list st i)).
         (im \<longrightarrow> is_immutable_operand x) \<and> is_integer_type (type_of_operand st x))"
    unfolding all_drop by (simp add: each_ok)
  show "safe (each [f ..< range_size (instr_operands i)] (\<lambda>j. verify_index st kind k im (h + j)))"
  proof (rule safe_each)
    fix j
    assume "j \<in> set [f ..< range_size (instr_operands i)]"
    then show "safe (verify_index st kind k im (h + j))"
      using checked_nth [OF c, of j] assms(2) by (simp add: safe_verify_index)
  qed
qed

lemma verify_gep_iff:
  assumes c: "checked_operands st defs i"
  shows "(verify_gep st k i = Inr () \<longleftrightarrow>
    (\<exists>b ixs. operand_list st i = b # ixs \<and> ixs \<noteq> [] \<and> is_register_operand b \<and>
        (\<forall>x \<in> set ixs. is_integer_type (type_of_operand st x)))) \<and> safe (verify_gep st k i)"
  unfolding one_then
  using checked_nth [OF c, of 0] index_loop [OF c refl, of 1 InvalidGetElementPtr k False]
  by (auto simp: verify_gep_def Let_def checked safety)

lemma verify_extract_insert_iff:
  assumes c: "checked_operands st defs i" and "instr_op i = ExtractValue \<or> instr_op i = InsertValue"
  shows "(verify_extract_insert st k i = Inr () \<longleftrightarrow>
    (let f = (if instr_op i = ExtractValue then 1 else 2)
     in f + 1 \<le> length (operand_list st i) \<and> (\<forall>x \<in> set (drop f (operand_list st i)).
          is_immutable_operand x \<and> is_integer_type (type_of_operand st x)))) \<and>
    safe (verify_extract_insert st k i)"
  using index_loop [OF c refl, of "if instr_op i = ExtractValue then 1 else 2" InvalidExtractInsert k True]
  by (auto simp: verify_extract_insert_def Let_def checked safety)

lemma verify_shape_iff:
  assumes c: "checked_operands st defs i"
  shows "when_op (instr_op i = Call) (verify_call st k i) = Inr () \<and>
     when_op (instr_op i = Br) (verify_br st k i) = Inr () \<and>
     when_op (instr_op i = CondBr) (verify_cond_br st k i) = Inr () \<and>
     when_op (instr_op i = Switch) (verify_switch st k i) = Inr () \<and>
     when_op (instr_op i = GetElementPtr) (verify_gep st k i) = Inr () \<and>
     when_op (instr_op i = ExtractValue \<or> instr_op i = InsertValue) (verify_extract_insert st k i) = Inr ()
   \<longleftrightarrow> wf_shape st (instr_op i) (operand_list st i)"
  unfolding wf_shape_def when_op_ok one_then two_then_some
  using verify_call_iff [OF c, of k] verify_br_iff [OF c, of k] verify_cond_br_iff [OF c, of k]
    verify_switch_iff [OF c, of k] verify_gep_iff [OF c, of k, unfolded one_then]
    verify_extract_insert_iff [OF c, of k]
  by (cases "instr_op i") (simp_all add: Let_def numeral_2_eq_2 numeral_3_eq_3)

lemma safe_shapes:
  "checked_operands st defs i \<Longrightarrow> safe (when_op (instr_op i = Call) (verify_call st k i)) \<and>
     safe (when_op (instr_op i = Br) (verify_br st k i)) \<and>
     safe (when_op (instr_op i = CondBr) (verify_cond_br st k i)) \<and>
     safe (when_op (instr_op i = Switch) (verify_switch st k i)) \<and>
     safe (when_op (instr_op i = GetElementPtr) (verify_gep st k i)) \<and>
     safe (when_op (instr_op i = ExtractValue \<or> instr_op i = InsertValue) (verify_extract_insert st k i))"
  using verify_switch_iff [of st defs i k] verify_gep_iff [of st defs i k]
    verify_extract_insert_iff [of st defs i k]
  by (auto simp: safety safe_verify_call safe_verify_br safe_verify_cond_br)

lemma each_operands:
  assumes "range_in_bounds (instr_operands i) (length (operands st))" and "length d = length (registers st)"
  shows "each (indices (instr_operands i)) (verify_operand st d) = Inr () \<longleftrightarrow> checked_operands st (marked d) i"
    and "safe (each (indices (instr_operands i)) (verify_operand st d))"
proof -
  have lt: "k < length (operands st)" if "k \<in> set (indices (instr_operands i))" for k
    using assms(1) that by (simp add: range_in_bounds_def)
  show "each (indices (instr_operands i)) (verify_operand st d) = Inr () \<longleftrightarrow> checked_operands st (marked d) i"
    using assms lt by (simp add: each_ok checked_operands_def operand_list_def verify_operand_iff)
  show "safe (each (indices (instr_operands i)) (verify_operand st d))"
    using lt assms(2) by (intro safe_each safe_verify_operand)
qed

lemma verify_instr_iff:
  assumes k: "k < length (instrs st)" and d: "length d = length (registers st)"
  shows "(verify_instr st d bidx rng k = Inr () \<longleftrightarrow>
      (is_terminator (instr_op (instrs st ! k)) \<longleftrightarrow> k + 1 = range_head rng + range_size rng) \<and>
      wf_instr st (marked d) (instrs st ! k)) \<and> safe (verify_instr st d bidx rng k)"
proof (cases "range_in_bounds (instr_operands (instrs st ! k)) (length (operands st))")
  case False
  then show ?thesis using k
    by (auto simp: verify_instr_def Let_def wf_instr_def safe_def at_def and_then_def require_def reject_def)
next
  case True
  let ?i = "instrs st ! k"
  note e = each_operands [OF True d]
  have w: "wf_instr st (marked d) ?i \<longleftrightarrow> checked_operands st (marked d) ?i \<and>
      wf_shape st (instr_op ?i) (operand_list st ?i)"
    using True by (auto simp: wf_instr_def checked_operands_def)
  have eq: "verify_instr st d bidx rng k =
      and_then (if is_terminator (instr_op ?i) \<noteq> (k + 1 = range_head rng + range_size rng)
                then if k + 1 = range_head rng + range_size rng then reject UnterminatedBlock bidx
                     else reject MisplacedTerminator k
                else Inr ()) (\<lambda>_.
      and_then (each (indices (instr_operands ?i)) (verify_operand st d)) (\<lambda>_.
      and_then (when_op (instr_op ?i = Call) (verify_call st k ?i)) (\<lambda>_.
      and_then (when_op (instr_op ?i = Br) (verify_br st k ?i)) (\<lambda>_.
      and_then (when_op (instr_op ?i = CondBr) (verify_cond_br st k ?i)) (\<lambda>_.
      and_then (when_op (instr_op ?i = Switch) (verify_switch st k ?i)) (\<lambda>_.
      and_then (when_op (instr_op ?i = GetElementPtr) (verify_gep st k ?i)) (\<lambda>_.
        when_op (instr_op ?i = ExtractValue \<or> instr_op ?i = InsertValue)
          (verify_extract_insert st k ?i))))))))"
    using True k by (simp add: verify_instr_def Let_def at_in and_then_Inr require_true cong: if_cong)
  define sh where "sh \<longleftrightarrow> wf_shape st (instr_op ?i) (operand_list st ?i)"
  have t: "(if c then if b then reject UnterminatedBlock bidx else reject MisplacedTerminator k else Inr ()) = Inr () \<longleftrightarrow> \<not> c"
    "safe (if c then if b then reject UnterminatedBlock bidx else reject MisplacedTerminator k else (Inr () :: unit checked))"
    for c b by (simp_all add: checked safety)
  show ?thesis
  proof (cases "checked_operands st (marked d) ?i")
    case cop: True
    show ?thesis unfolding eq w unit_chain safe_unit_chain t e(1) sh_def [symmetric]
      using verify_shape_iff [OF cop, of k, folded sh_def] safe_shapes [OF cop, of k] cop e(2) t(2)
      by blast
  next
    case False
    then show ?thesis unfolding eq w unit_chain safe_unit_chain t e(1)
      using e(2) t(2) by simp
  qed
qed

lemma butlast_last_upt:
  assumes "0 < range_size r"
  shows "(\<forall>k \<in> set (indices r). P k \<longleftrightarrow> k + 1 = range_head r + range_size r) \<longleftrightarrow>
    P (last (indices r)) \<and> (\<forall>k \<in> set (butlast (indices r)). \<not> P k)"
proof -
  obtain n where n: "range_size r = Suc n" using assms by (cases "range_size r") auto
  have "indices r = [range_head r ..< range_head r + n] @ [range_head r + n]"
    by (simp add: indices_def n)
  then show ?thesis by (auto simp: n butlast_append)
qed

lemma verify_block_iff:
  assumes b: "b < length (blocks st)" and d: "length d = length (registers st)"
    and r: "wf_block_ranges st (blocks st ! b)"
  shows "(verify_block st d b = Inr () \<longleftrightarrow> wf_block st (marked d) (blocks st ! b)) \<and>
    safe (verify_block st d b)"
proof (cases "range_size (block_instrs (blocks st ! b)) = 0")
  case True
  then show ?thesis using b
    by (simp add: verify_block_def wf_block_def instr_list_def checked safety Let_def)
next
  case False
  let ?r = "block_instrs (blocks st ! b)"
  have lt: "k < length (instrs st)" if "k \<in> set (indices ?r)" for k
    using r that by (simp add: wf_block_ranges_def range_in_bounds_def)
  note vi = verify_instr_iff [OF lt d]
  have ne: "indices ?r \<noteq> []" using False by (metis length_0_conv length_indices)
  have "verify_block st d b = Inr () \<longleftrightarrow>
      (\<forall>k \<in> set (indices ?r). is_terminator (instr_op (instrs st ! k)) \<longleftrightarrow> k + 1 = range_head ?r + range_size ?r) \<and>
      (\<forall>k \<in> set (indices ?r). wf_instr st (marked d) (instrs st ! k))"
    using b False vi by (auto simp: verify_block_def checked)
  also have "\<dots> \<longleftrightarrow> wf_block st (marked d) (blocks st ! b)"
    using False ne
    by (subst butlast_last_upt)
       (simp_all add: wf_block_def instr_list_def Let_def last_map map_butlast [symmetric])
  finally show ?thesis using b vi
    by (auto simp: verify_block_def safety checked intro!: safe_each)
qed

lemma marked_replicate: "marked (replicate n False) = {}"
  by (auto simp: marked_def)

lemma each_upt: "each [0 ..< length xs] f = Inr () \<longleftrightarrow> (\<forall>i < length xs. f i = Inr ())"
  by (auto simp: each_ok)

lemma safe_define_register: "reg < length d \<Longrightarrow> safe (define_register reg d)"
  by (simp add: define_register_def safety)

lemma safe_define_param:
  "p < length (block_param_table st) \<Longrightarrow> length d = length (registers st) \<Longrightarrow> safe (define_param st p d)"
  by (simp add: define_param_def safety checked safe_define_register)

lemma safe_define_dst:
  "i < length (instrs st) \<Longrightarrow> length d = length (registers st) \<Longrightarrow> safe (define_dst st i d)"
  by (simp add: define_dst_def safety checked safe_define_register split: option.split)

lemma define_length:
  "define_param st p d = Inr d' \<Longrightarrow> p < length (block_param_table st) \<Longrightarrow>
     length d = length (registers st) \<Longrightarrow> length d' = length (registers st)"
  "define_dst st i d = Inr d' \<Longrightarrow> i < length (instrs st) \<Longrightarrow>
     length d = length (registers st) \<Longrightarrow> length d' = length (registers st)"
  "define_block st b d = Inr d' \<Longrightarrow> b < length (blocks st) \<Longrightarrow>
     length d = length (registers st) \<Longrightarrow> length d' = length (registers st)"
  using marksD [OF define_param_marks] marksD [OF define_dst_marks] marksD [OF define_block_marks]
  by metis+

lemma safe_define_block:
  assumes b: "b < length (blocks st)" and d: "length d = length (registers st)"
  shows "safe (define_block st b d)"
proof -
  let ?B = "blocks st ! b"
  let ?I = "\<lambda>d. length d = length (registers st)"
  have p: "safe (each_with (indices (block_params ?B)) (define_param st) d) \<and>
      (\<forall>d'. each_with (indices (block_params ?B)) (define_param st) d = Inr d' \<longrightarrow> ?I d')"
    if "range_in_bounds (block_params ?B) (length (block_param_table st))"
    using that d
    by (intro each_with_inv) (auto simp: range_in_bounds_def safe_define_param intro: define_length)
  have i: "safe (each_with (indices (block_instrs ?B)) (define_dst st) d') \<and>
      (\<forall>d''. each_with (indices (block_instrs ?B)) (define_dst st) d' = Inr d'' \<longrightarrow> ?I d'')"
    if "range_in_bounds (block_instrs ?B) (length (instrs st))" and "?I d'" for d'
    using that
    by (intro each_with_inv) (auto simp: range_in_bounds_def safe_define_dst intro: define_length)
  show ?thesis using b p i by (auto simp: define_block_def safety checked)
qed

lemma define_blocks_result:
  assumes "each_with [0 ..< length (blocks st)] (define_block st) (replicate (length (registers st)) False) = Inr d"
  shows "length d = length (registers st) \<and> marked d = set (all_defs st) \<and>
    (\<forall>b \<in> set (blocks st). wf_block_ranges st b)"
  using marksD [OF all_defs_marks assms] by (simp add: marked_replicate)

lemma define_blocks_iff:
  "(\<exists>d. each_with [0 ..< length (blocks st)] (define_block st) (replicate (length (registers st)) False) = Inr d) \<longleftrightarrow>
     (\<forall>b \<in> set (blocks st). wf_block_ranges st b) \<and> distinct (all_defs st) \<and>
     set (all_defs st) \<subseteq> {..< length (registers st)}"
  using all_defs_marks [of st] unfolding marks_def marked_replicate length_replicate
  by (simp split: if_splits) blast+

lemma safe_define_blocks:
  "safe (each_with [0 ..< length (blocks st)] (define_block st) (replicate (length (registers st)) False))"
  by (rule each_with_inv [where I = "\<lambda>d. length d = length (registers st)", THEN conjunct1])
     (auto intro: safe_define_block define_length)

lemma verify_blocks_iff:
  assumes "each_with [0 ..< length (blocks st)] (define_block st) (replicate (length (registers st)) False) = Inr d"
  shows "each [0 ..< length (blocks st)] (verify_block st d) = Inr () \<longleftrightarrow>
      (\<forall>b \<in> set (blocks st). wf_block st (set (all_defs st)) b)"
    and "safe (each [0 ..< length (blocks st)] (verify_block st d))"
proof -
  have vb: "(verify_block st d i = Inr () \<longleftrightarrow> wf_block st (set (all_defs st)) (blocks st ! i)) \<and>
      safe (verify_block st d i)" if "i < length (blocks st)" for i
    using verify_block_iff [OF that, of d] define_blocks_result [OF assms] that by simp
  then show "each [0 ..< length (blocks st)] (verify_block st d) = Inr () \<longleftrightarrow>
      (\<forall>b \<in> set (blocks st). wf_block st (set (all_defs st)) b)"
    unfolding each_upt all_set_conv_all_nth by simp
  show "safe (each [0 ..< length (blocks st)] (verify_block st d))"
    using vb by (intro safe_each) simp
qed

lemma wf_storage_split:
  "verify_storage st = Inr () \<longleftrightarrow> wf_storage st"
proof -
  have f: "(\<forall>i < length (function_table st). verify_function st i = Inr ()) \<and>
      (\<forall>i < length (function_table st). verify_has_block st i = Inr ()) \<longleftrightarrow>
      (\<forall>f \<in> set (function_table st). wf_function st f)"
    using verify_function_iff [of _ st] unfolding all_set_conv_all_nth by blast
  have t: "(\<forall>i < length (types st). verify_type_node st i = Inr ()) \<longleftrightarrow>
      (\<forall>n \<in> set (types st). wf_type_node st n)"
    unfolding all_set_conv_all_nth by (simp add: verify_type_node_iff)
  have r: "(\<forall>i < length (registers st). verify_register st i = Inr ()) \<longleftrightarrow>
      (\<forall>r \<in> set (registers st). reg_type r < length (types st))"
    and i: "(\<forall>i < length (immutables st). verify_immutable st i = Inr ()) \<longleftrightarrow>
      (\<forall>r \<in> set (immutables st). imm_type r < length (types st))"
    unfolding all_set_conv_all_nth by (simp_all add: verify_tables_iff)
  have d: "(\<exists>d. each_with [0 ..< length (blocks st)] (define_block st) (replicate (length (registers st)) False) = Inr d \<and>
        each [0 ..< length (blocks st)] (verify_block st d) = Inr ()) \<longleftrightarrow>
      ((\<forall>b \<in> set (blocks st). wf_block_ranges st b) \<and> distinct (all_defs st) \<and>
       set (all_defs st) \<subseteq> {..< length (registers st)}) \<and>
      (\<forall>b \<in> set (blocks st). wf_block st (set (all_defs st)) b)"
    unfolding define_blocks_iff [symmetric] using verify_blocks_iff(1) [of st] by blast
  show ?thesis
    unfolding verify_storage_def unit_chain and_then_ok wf_storage_def t [symmetric] r [symmetric]
      i [symmetric] f [symmetric] each_upt [of "types st"] each_upt [of "registers st"]
      each_upt [of "immutables st"] each_upt [of "function_table st"]
    using d by blast
qed

lemma safe_verify_storage: "safe (verify_storage st)"
  unfolding verify_storage_def
  using verify_blocks_iff(2) [of st]
  by (auto simp: safety safe_define_blocks intro!: safe_each safe_verify_type_node safe_verify_tables
      safe_verify_function [THEN conjunct1] safe_verify_function [THEN conjunct2])

subsection \<open>The verifier's contract\<close>

text \<open>
  C1. The verifier returns success exactly for the well-formed storages: all type metadata,
  register, immediate, function and block ranges are in bounds, every register is defined at
  most once, every block is non-empty with its one terminator at the end, every operand names
  an entity that exists (registers one that some block defines), and calls, branches,
  switches, address computations and aggregate accesses have the operand lists their opcodes
  demand.
\<close>

theorem verify_storage_spec: "verify_storage st = Inr () \<longleftrightarrow> wf_storage st"
  by (rule wf_storage_split)

text \<open>
  C17. Whatever storage it is given, ill-formed ones included, the verifier never reads outside
  a table: each index it follows was checked by an earlier step.
\<close>

theorem verify_storage_never_traps: "verify_storage st \<noteq> Inl Trap"
  using safe_verify_storage [of st] by (simp add: safe_def)

text \<open>A storage that is accepted: one function whose only block returns a register it defines.\<close>

definition demo_storage :: storage where
  "demo_storage =
     \<lparr>function_table = [\<lparr>fn_meta = \<lparr>return_type = 0, param_types = mk_range 0 1, meta_name = 0\<rparr>,
        fn_blocks = mk_range 0 1\<rparr>],
      blocks = [\<lparr>block_instrs = mk_range 0 2, block_params = mk_range 0 1\<rparr>],
      block_param_table = [\<lparr>param_type = 0, param_reg = 0\<rparr>],
      instrs = [\<lparr>instr_op = Not, instr_flags = default_flags, instr_dst = Some 1, instr_operands = mk_range 0 1\<rparr>,
        \<lparr>instr_op = Ret, instr_flags = default_flags, instr_dst = None, instr_operands = mk_range 1 1\<rparr>],
      immutables = [], registers = [\<lparr>reg_type = 0, reg_def = 0\<rparr>, \<lparr>reg_type = 0, reg_def = 0\<rparr>],
      external_functions = [], operands = [\<lparr>op_data = OpRegister 0, op_type = 0\<rparr>, \<lparr>op_data = OpRegister 1, op_type = 0\<rparr>],
      types = [\<lparr>node_tag = TyI1, node_data = 0\<rparr>], struct_types = [], array_types = [], enum_types = [],
      enum_variant_types = [], ref_types = [], tuple_types = []\<rparr>"

lemma demo_storage_ok: "verify_storage demo_storage = Inr ()"
  by code_simp

lemma demo_storage_redefined:
  "verify_storage (demo_storage\<lparr>block_param_table := [\<lparr>param_type = 0, param_reg = 1\<rparr>]\<rparr>) =
     reject RedefinedRegister 1"
  by code_simp

end
