(* ===== verification/Ir_Builder.thy ===== *)
theory Ir_Builder
  imports Ir
begin

text \<open>
  Building IR storage (\<^verbatim>\<open>src/ir/storage_builder.h\<close>, \<^verbatim>\<open>src/ir/seq_builder.h\<close>, the copy
  predicate of \<^verbatim>\<open>src/ir/storage.h\<close>). Each member function returns the new index and the new
  storage; a failed \<^verbatim>\<open>DCHECK\<close> is \<open>None\<close>. The locale \<open>interning\<close> is the contract of the
  factories that look a shape up before they append it: equal indices mean equal shapes.
\<close>

subsection \<open>Contiguous ranges\<close>

record seq_builder =
  seq_head :: nat
  seq_count :: nat

definition empty_seq :: seq_builder where
  "empty_seq = \<lparr>seq_head = 0, seq_count = 0\<rparr>"

definition seq_push :: "nat \<Rightarrow> seq_builder \<Rightarrow> seq_builder option" where
  "seq_push idx q =
     (let head = (if seq_count q = 0 then idx else seq_head q)
      in if idx = head + seq_count q
         then Some \<lparr>seq_head = head, seq_count = seq_count q + 1\<rparr> else None)"

definition seq_finish :: "seq_builder \<Rightarrow> idx_range" where
  "seq_finish q = mk_range (seq_head q) (seq_count q)"

fun seq_push_all :: "nat list \<Rightarrow> seq_builder \<Rightarrow> seq_builder option" where
  "seq_push_all [] q = Some q"
| "seq_push_all (i # is) q =
     (case seq_push i q of None \<Rightarrow> None | Some q' \<Rightarrow> seq_push_all is q')"

subsection \<open>Appending entities\<close>

type_synonym 'a building = "storage \<Rightarrow> 'a \<times> storage"

definition add_function :: "ir_function \<Rightarrow> nat building" where
  "add_function x st = (length (function_table st), st\<lparr>function_table := function_table st @ [x]\<rparr>)"

definition add_block :: "block \<Rightarrow> nat building" where
  "add_block x st = (length (blocks st), st\<lparr>blocks := blocks st @ [x]\<rparr>)"

text \<open>The setters that replace a whole table.\<close>

definition set_functions :: "ir_function list \<Rightarrow> storage \<Rightarrow> storage" where
  "set_functions xs st = st\<lparr>function_table := xs\<rparr>"

definition set_blocks :: "block list \<Rightarrow> storage \<Rightarrow> storage" where
  "set_blocks xs st = st\<lparr>blocks := xs\<rparr>"

definition set_block_param_table :: "block_param list \<Rightarrow> storage \<Rightarrow> storage" where
  "set_block_param_table xs st = st\<lparr>block_param_table := xs\<rparr>"

definition set_instrs :: "instruction list \<Rightarrow> storage \<Rightarrow> storage" where
  "set_instrs xs st = st\<lparr>instrs := xs\<rparr>"

definition set_immutables :: "immutable list \<Rightarrow> storage \<Rightarrow> storage" where
  "set_immutables xs st = st\<lparr>immutables := xs\<rparr>"

definition set_registers :: "register list \<Rightarrow> storage \<Rightarrow> storage" where
  "set_registers xs st = st\<lparr>registers := xs\<rparr>"

definition set_external_functions :: "external_function list \<Rightarrow> storage \<Rightarrow> storage" where
  "set_external_functions xs st = st\<lparr>external_functions := xs\<rparr>"

definition set_operands :: "operand list \<Rightarrow> storage \<Rightarrow> storage" where
  "set_operands xs st = st\<lparr>operands := xs\<rparr>"

definition set_types :: "type_node list \<Rightarrow> storage \<Rightarrow> storage" where
  "set_types xs st = st\<lparr>types := xs\<rparr>"

definition set_block_instrs :: "nat \<Rightarrow> idx_range \<Rightarrow> storage \<Rightarrow> storage option" where
  "set_block_instrs idx r st =
     (if idx < length (blocks st)
      then Some (st\<lparr>blocks := (blocks st)[idx := (blocks st ! idx)\<lparr>block_instrs := r\<rparr>]\<rparr>) else None)"

definition set_block_params :: "nat \<Rightarrow> idx_range \<Rightarrow> storage \<Rightarrow> storage option" where
  "set_block_params idx r st =
     (if idx < length (blocks st)
      then Some (st\<lparr>blocks := (blocks st)[idx := (blocks st ! idx)\<lparr>block_params := r\<rparr>]\<rparr>) else None)"

definition add_block_param :: "block_param \<Rightarrow> nat building" where
  "add_block_param x st =
     (length (block_param_table st), st\<lparr>block_param_table := block_param_table st @ [x]\<rparr>)"

definition add_instr :: "instruction \<Rightarrow> nat building" where
  "add_instr x st = (length (instrs st), st\<lparr>instrs := instrs st @ [x]\<rparr>)"

definition add_immutable :: "immutable \<Rightarrow> nat building" where
  "add_immutable x st = (length (immutables st), st\<lparr>immutables := immutables st @ [x]\<rparr>)"

definition add_register :: "register \<Rightarrow> nat building" where
  "add_register x st = (length (registers st), st\<lparr>registers := registers st @ [x]\<rparr>)"

definition add_external_function :: "external_function \<Rightarrow> nat building" where
  "add_external_function x st =
     (length (external_functions st), st\<lparr>external_functions := external_functions st @ [x]\<rparr>)"

definition add_operand :: "operand \<Rightarrow> nat building" where
  "add_operand x st = (length (operands st), st\<lparr>operands := operands st @ [x]\<rparr>)"

subsection \<open>The type table\<close>

definition add_node :: "type_tag \<Rightarrow> nat \<Rightarrow> nat building" where
  "add_node tag d st =
     (length (types st), st\<lparr>types := types st @ [\<lparr>node_tag = tag, node_data = d\<rparr>]\<rparr>)"

definition composite_tags :: "type_tag list" where
  "composite_tags = [TyStruct, TyArray, TyEnum, TyNever, TyTuple, TyError]"

definition primitive :: "type_tag \<Rightarrow> nat option" where
  "primitive tag = (if tag \<in> set composite_tags then None else Some (primitive_idx tag))"

definition primitive_tags :: "type_tag list" where
  "primitive_tags = [TyVoid, TyI1, TyI8, TyI16, TyI32, TyI64, TyU8, TyU16, TyU32, TyU64, TyF32,
     TyF64, TyStr, TyPtr, TyRef, TyMutRef]"

text \<open>The constructor: the tags below \<open>TyStruct\<close> in order, then \<open>TyFunction\<close>.\<close>

definition intern_primitives :: "storage \<Rightarrow> storage" where
  "intern_primitives st =
     st\<lparr>types := types st @
       map (\<lambda>t. \<lparr>node_tag = t, node_data = 0\<rparr>) primitive_tags @ [\<lparr>node_tag = TyFunction, node_data = 0\<rparr>]\<rparr>"

definition empty_storage :: storage where
  "empty_storage = \<lparr>function_table = [], blocks = [], block_param_table = [], instrs = [],
     immutables = [], registers = [], external_functions = [], operands = [], types = [],
     struct_types = [], array_types = [], enum_types = [], enum_variant_types = [],
     ref_types = [], tuple_types = []\<rparr>"

definition new_builder :: storage where
  "new_builder = intern_primitives empty_storage"

definition struct_type :: "name_id \<Rightarrow> idx_range \<Rightarrow> nat building" where
  "struct_type name fs st =
     add_node TyStruct (length (struct_types st))
       (st\<lparr>struct_types := struct_types st @ [\<lparr>struct_name = name, struct_fields = fs\<rparr>]\<rparr>)"

definition reserve_struct :: "name_id \<Rightarrow> nat building" where
  "reserve_struct name st = struct_type name (mk_range 0 0) st"

text \<open>\<^verbatim>\<open>state_.struct_types[node.as_struct()]\<close> is an unchecked access; here it is checked.\<close>

definition fill_struct :: "nat \<Rightarrow> idx_range \<Rightarrow> storage \<Rightarrow> storage option" where
  "fill_struct idx fs st =
     (if idx < length (types st) \<and> node_tag (types st ! idx) = TyStruct \<and>
         node_data (types st ! idx) < length (struct_types st)
      then Some (let s = node_data (types st ! idx)
                 in st\<lparr>struct_types := (struct_types st)[s := (struct_types st ! s)\<lparr>struct_fields := fs\<rparr>]\<rparr>)
      else None)"

text \<open>The linear scans start behind the pre-interned block.\<close>

definition scan_types :: "(type_node \<Rightarrow> bool) \<Rightarrow> storage \<Rightarrow> nat option" where
  "scan_types P st = find (\<lambda>idx. P (types st ! idx)) [kPrimitiveTypeCount + 1 ..< length (types st)]"

definition array_node_is :: "storage \<Rightarrow> nat \<Rightarrow> u64 \<Rightarrow> type_node \<Rightarrow> bool" where
  "array_node_is st element count node \<longleftrightarrow>
     node_tag node = TyArray \<and> node_data node < length (array_types st) \<and>
     array_element (array_types st ! node_data node) = element \<and>
     array_count (array_types st ! node_data node) = count"

definition array_type :: "nat \<Rightarrow> u64 \<Rightarrow> nat building" where
  "array_type element count st =
     (case scan_types (array_node_is st element count) st of
        Some idx \<Rightarrow> (idx, st)
      | None \<Rightarrow> add_node TyArray (length (array_types st))
          (st\<lparr>array_types := array_types st @ [\<lparr>array_element = element, array_count = count\<rparr>]\<rparr>))"

definition ref_tag :: "bool \<Rightarrow> type_tag" where
  "ref_tag is_mut = (if is_mut then TyMutRef else TyRef)"

definition ref_node_is :: "storage \<Rightarrow> nat \<Rightarrow> bool \<Rightarrow> type_node \<Rightarrow> bool" where
  "ref_node_is st pointee is_mut node \<longleftrightarrow>
     node_tag node = ref_tag is_mut \<and> node_data node < length (ref_types st) \<and>
     ref_pointee (ref_types st ! node_data node) = pointee"

definition reference_type :: "nat \<Rightarrow> bool \<Rightarrow> nat building" where
  "reference_type pointee is_mut st =
     (case scan_types (ref_node_is st pointee is_mut) st of
        Some idx \<Rightarrow> (idx, st)
      | None \<Rightarrow> add_node (ref_tag is_mut) (length (ref_types st))
          (st\<lparr>ref_types := ref_types st @ [\<lparr>ref_pointee = pointee\<rparr>]\<rparr>))"

definition same_elements :: "idx_range \<Rightarrow> idx_range \<Rightarrow> bool" where
  "same_elements a b \<longleftrightarrow> range_size a = range_size b \<and>
     list_all (\<lambda>i. range_head a + i = range_head b + i) [0 ..< range_size b]"

definition tuple_node_is :: "storage \<Rightarrow> idx_range \<Rightarrow> type_node \<Rightarrow> bool" where
  "tuple_node_is st elements node \<longleftrightarrow>
     node_tag node = TyTuple \<and> node_data node < length (tuple_types st) \<and>
     same_elements (tuple_elements (tuple_types st ! node_data node)) elements"

definition tuple_type :: "idx_range \<Rightarrow> nat building" where
  "tuple_type elements st =
     (case scan_types (tuple_node_is st elements) st of
        Some idx \<Rightarrow> (idx, st)
      | None \<Rightarrow> add_node TyTuple (length (tuple_types st))
          (st\<lparr>tuple_types := tuple_types st @ [\<lparr>tuple_elements = elements\<rparr>]\<rparr>))"

definition never_type :: "nat building" where
  "never_type st =
     (case scan_types (\<lambda>node. node_tag node = TyNever) st of
        Some idx \<Rightarrow> (idx, st) | None \<Rightarrow> add_node TyNever 0 st)"

definition error_type :: "nat building" where
  "error_type st =
     (case scan_types (\<lambda>node. node_tag node = TyError) st of
        Some idx \<Rightarrow> (idx, st) | None \<Rightarrow> add_node TyError 0 st)"

definition enum_variant :: "name_id \<Rightarrow> idx_range \<Rightarrow> nat building" where
  "enum_variant name fs st =
     (length (enum_variant_types st),
      st\<lparr>enum_variant_types := enum_variant_types st @ [\<lparr>variant_name = name, variant_fields = fs\<rparr>]\<rparr>)"

definition enum_type :: "name_id \<Rightarrow> idx_range \<Rightarrow> nat building" where
  "enum_type name variants st =
     add_node TyEnum (length (enum_types st))
       (st\<lparr>enum_types := enum_types st @ [\<lparr>enum_name = name, enum_variants = variants\<rparr>]\<rparr>)"

definition reserve_enum :: "name_id \<Rightarrow> nat building" where
  "reserve_enum name st = enum_type name (mk_range 0 0) st"

definition fill_enum :: "nat \<Rightarrow> idx_range \<Rightarrow> storage \<Rightarrow> storage option" where
  "fill_enum idx variants st =
     (if idx < length (types st) \<and> node_tag (types st ! idx) = TyEnum \<and>
         node_data (types st ! idx) < length (enum_types st)
      then Some (let e = node_data (types st ! idx)
                 in st\<lparr>enum_types := (enum_types st)[e := (enum_types st ! e)\<lparr>enum_variants := variants\<rparr>]\<rparr>)
      else None)"

definition ref_type :: "nat \<Rightarrow> storage \<Rightarrow> (nat \<times> storage) option" where
  "ref_type idx st =
     (if idx < length (types st)
      then Some (length (types st), st\<lparr>types := types st @ [types st ! idx]\<rparr>) else None)"

text \<open>The loops of the callers: a copy of each type in a row, collected into a range.\<close>

fun copy_types :: "nat list \<Rightarrow> seq_builder \<Rightarrow> storage \<Rightarrow> (idx_range \<times> storage) option" where
  "copy_types [] q st = Some (seq_finish q, st)"
| "copy_types (t # ts) q st =
     (case ref_type t st of
        None \<Rightarrow> None
      | Some (i, st') \<Rightarrow> (case seq_push i q of None \<Rightarrow> None | Some q' \<Rightarrow> copy_types ts q' st'))"

end
