(* ===== verification/Ir_Types.thy ===== *)
theory Ir_Types
  imports Ir_Builder "HOL-Library.Sublist"
begin

text \<open>
  What the builder guarantees of the type table: it only grows, its structural nodes point
  backwards, factories that look a shape up give equal indices to equal shapes, and copied
  rows are contiguous.
\<close>

subsection \<open>Growth and the table invariant\<close>

definition grown :: "storage \<Rightarrow> storage \<Rightarrow> bool" where
  "grown st st' \<longleftrightarrow> prefix (types st) (types st') \<and> prefix (array_types st) (array_types st') \<and>
     prefix (ref_types st) (ref_types st') \<and> prefix (tuple_types st) (tuple_types st')"

lemma grown_refl [simp]: "grown st st"
  by (simp add: grown_def)

lemma grown_trans: "grown a b \<Longrightarrow> grown b c \<Longrightarrow> grown a c"
  by (auto simp: grown_def intro: prefix_order.trans)

lemma prefix_nth: "prefix xs ys \<Longrightarrow> i < length xs \<Longrightarrow> i < length ys \<and> ys ! i = xs ! i"
  by (auto simp: prefix_def nth_append)

lemma grown_types:
  "grown st st' \<Longrightarrow> i < length (types st) \<Longrightarrow> i < length (types st') \<and> types st' ! i = types st ! i"
  using prefix_nth [of "types st" "types st'" i] by (simp add: grown_def)

lemma grown_length: "grown st st' \<Longrightarrow> length (types st) \<le> length (types st')"
  by (auto simp: grown_def dest: prefix_length_le)

lemma grown_tables:
  assumes "grown st st'"
  shows "d < length (ref_types st) \<Longrightarrow> d < length (ref_types st') \<and> ref_types st' ! d = ref_types st ! d"
    and "d < length (array_types st) \<Longrightarrow> d < length (array_types st') \<and> array_types st' ! d = array_types st ! d"
    and "d < length (tuple_types st) \<Longrightarrow> d < length (tuple_types st') \<and> tuple_types st' ! d = tuple_types st ! d"
  using assms prefix_nth [of "ref_types st" "ref_types st'" d]
    prefix_nth [of "array_types st" "array_types st'" d]
    prefix_nth [of "tuple_types st" "tuple_types st'" d] by (simp_all add: grown_def)

text \<open>
  A structural node behind the pre-interned block has a payload whose components lie before
  the node; a nominal node has a payload.
\<close>

definition node_ok :: "storage \<Rightarrow> nat \<Rightarrow> bool" where
  "node_ok st i \<longleftrightarrow>
     (let n = types st ! i; d = node_data n; t = node_tag n
      in (t = TyRef \<or> t = TyMutRef \<longrightarrow> d < length (ref_types st) \<and> ref_pointee (ref_types st ! d) < i) \<and>
         (t = TyArray \<longrightarrow> d < length (array_types st) \<and> array_element (array_types st ! d) < i) \<and>
         (t = TyTuple \<longrightarrow> d < length (tuple_types st) \<and>
            range_head (tuple_elements (tuple_types st ! d)) + range_size (tuple_elements (tuple_types st ! d)) \<le> i) \<and>
         (t = TyStruct \<longrightarrow> d < length (struct_types st)) \<and> (t = TyEnum \<longrightarrow> d < length (enum_types st)))"

definition kPrefix :: "type_node list" where
  "kPrefix = types new_builder"

definition table_ok :: "storage \<Rightarrow> bool" where
  "table_ok st \<longleftrightarrow> prefix kPrefix (types st) \<and>
     (\<forall>i \<in> set [length kPrefix ..< length (types st)]. node_ok st i)"

lemma length_kPrefix [simp]: "length kPrefix = kPrimitiveTypeCount + 1"
  by (simp add: kPrefix_def new_builder_def intern_primitives_def empty_storage_def primitive_tags_def
      kPrimitiveTypeCount_def)

lemma table_ok_new: "table_ok new_builder"
  by (simp add: table_ok_def kPrefix_def)

lemma table_okD: "table_ok st \<Longrightarrow> kPrimitiveTypeCount + 1 \<le> i \<Longrightarrow> i < length (types st) \<Longrightarrow> node_ok st i"
  by (simp add: table_ok_def)

lemma node_ok_grown:
  assumes "node_ok st i" and "grown st st'" and "i < length (types st)"
    and "length (struct_types st) \<le> length (struct_types st')" and "length (enum_types st) \<le> length (enum_types st')"
  shows "node_ok st' i"
  using assms(1,4,5) grown_types [OF assms(2,3)] grown_tables [OF assms(2), of "node_data (types st ! i)"]
  unfolding node_ok_def Let_def by auto

text \<open>Appending one good node keeps the table good.\<close>

lemma table_ok_add:
  assumes ok: "table_ok st" and g: "grown st st'" and l: "length (types st') = Suc (length (types st))"
    and n: "node_ok st' (length (types st))"
    and "length (struct_types st) \<le> length (struct_types st')" and "length (enum_types st) \<le> length (enum_types st')"
  shows "table_ok st'"
proof -
  have "node_ok st' i" if "kPrimitiveTypeCount + 1 \<le> i" "i < Suc (length (types st))" for i
    using that n node_ok_grown [OF table_okD [OF ok] g] assms(5,6) by (cases "i = length (types st)") auto
  moreover have "prefix kPrefix (types st')"
    using ok g by (auto simp: table_ok_def grown_def intro: prefix_order.trans)
  ultimately show ?thesis using l by (auto simp: table_ok_def)
qed

subsection \<open>The interning contract\<close>

lemma find_upt_grown:
  assumes "find P [k ..< n] = Some i" and "n \<le> m" and "\<And>j. k \<le> j \<Longrightarrow> j < n \<Longrightarrow> Q j = P j"
  shows "find Q [k ..< m] = Some i"
proof -
  obtain j where j: "j < n - k" "P (k + j)" "i = k + j" "\<And>l. l < j \<Longrightarrow> \<not> P (k + l)"
    using assms(1) by (auto simp: find_Some_iff)
  then show ?thesis using assms(2,3)
    by (auto simp: find_Some_iff intro!: exI [of _ j])
qed

lemma find_upt_first:
  "k \<le> i \<Longrightarrow> i < n \<Longrightarrow> P i \<Longrightarrow> (\<And>j. k \<le> j \<Longrightarrow> j < i \<Longrightarrow> \<not> P j) \<Longrightarrow> find P [k ..< n] = Some i"
  by (auto simp: find_Some_iff intro!: exI [of _ "i - k"])

text \<open>
  \<open>node_is\<close> recognises a shape, \<open>intern\<close> looks it up or appends it. The laws: what a node is
  recognised as does not change when the table grows and determines the shape, and an
  appended node is recognised.
\<close>

locale interning =
  fixes node_is :: "storage \<Rightarrow> 'k \<Rightarrow> type_node \<Rightarrow> bool"
    and append_shape :: "'k \<Rightarrow> nat building"
    and valid :: "storage \<Rightarrow> 'k \<Rightarrow> bool"
    and intern :: "'k \<Rightarrow> nat building"
  assumes stable: "table_ok st \<Longrightarrow> grown st st' \<Longrightarrow> kPrimitiveTypeCount + 1 \<le> i \<Longrightarrow> i < length (types st) \<Longrightarrow>
      node_is st' k (types st ! i) = node_is st k (types st ! i)"
    and unique: "valid st k \<Longrightarrow> node_is st k n \<Longrightarrow> node_is st k' n \<Longrightarrow> k = k'"
    and appended: "table_ok st \<Longrightarrow> valid st k \<Longrightarrow> append_shape k st = (i, st') \<Longrightarrow>
      i = length (types st) \<and> length (types st') = Suc i \<and> grown st st' \<and> table_ok st' \<and>
      node_is st' k (types st' ! i)"
    and valid_grown: "valid st k \<Longrightarrow> grown st st' \<Longrightarrow> valid st' k"
    and intern_eq: "intern k st = (case scan_types (node_is st k) st of
      Some idx \<Rightarrow> (idx, st) | None \<Rightarrow> append_shape k st)"
begin

lemma scan_grown:
  assumes "table_ok st" and "grown st st'" and "scan_types (node_is st k) st = Some i"
  shows "scan_types (node_is st' k) st' = Some i"
  unfolding scan_types_def
proof (rule find_upt_grown [OF assms(3) [unfolded scan_types_def]])
  show "length (types st) \<le> length (types st')"
    using assms(2) by (auto simp: grown_def dest: prefix_length_le)
  show "node_is st' k (types st' ! j) = node_is st k (types st ! j)"
    if "kPrimitiveTypeCount + 1 \<le> j" "j < length (types st)" for j
    using stable [OF assms(1,2) that] grown_types [OF assms(2) that(2)] by simp
qed

lemma intern_found:
  assumes ok: "table_ok st" and v: "valid st k" and i: "intern k st = (i, st')"
  shows "scan_types (node_is st' k) st' = Some i \<and> table_ok st' \<and> grown st st'"
proof (cases "scan_types (node_is st k) st")
  case (Some j)
  then show ?thesis using i ok by (simp add: intern_eq)
next
  case None
  with i have a: "append_shape k st = (i, st')" by (simp add: intern_eq)
  note ap = appended [OF ok v a]
  have no: "\<not> node_is st' k (types st' ! j)" if "kPrimitiveTypeCount + 1 \<le> j" "j < i" for j
    using None that ap stable [OF ok, of st' j k] grown_types [of st st' j]
    by (auto simp: scan_types_def find_None_iff)
  have "kPrimitiveTypeCount + 1 \<le> i"
    using ok ap by (auto simp: table_ok_def dest: prefix_length_le)
  then have "scan_types (node_is st' k) st' = Some i"
    using ap no unfolding scan_types_def by (intro find_upt_first) auto
  then show ?thesis using ap by simp
qed

lemma scan_is: "scan_types (node_is st k) st = Some i \<Longrightarrow> node_is st k (types st ! i)"
  by (auto simp: scan_types_def find_Some_iff)

lemma intern_index_eq:
  assumes ok: "table_ok st" and v: "valid st k" "valid st2 k'" and i: "intern k st = (i, st1)"
    and g: "grown st1 st2" and ok2: "table_ok st2" and j: "intern k' st2 = (j, st3)"
  shows "(i = j \<longleftrightarrow> k = k') \<and> (k = k' \<longrightarrow> st3 = st2) \<and> table_ok st1 \<and> grown st st1"
proof -
  note f1 = intern_found [OF ok v(1) i] and f2 = intern_found [OF ok2 v(2) j]
  have s2: "scan_types (node_is st2 k) st2 = Some i" using f1 scan_grown [OF _ g] by blast
  have s3: "scan_types (node_is st3 k) st3 = Some i" using f2 s2 scan_grown [OF ok2] by blast
  have "k = k'" if "i = j"
    using scan_is [OF s3] f2 that unique [of st3 k' _ k] scan_is [of st3 k' j]
      valid_grown [OF v(2)] by auto
  moreover have "i = j \<and> st3 = st2" if "k = k'"
    using j s2 that by (simp add: intern_eq)
  ultimately show ?thesis using f1 by blast
qed

end

subsection \<open>The factories keep the contract\<close>

lemma ref_appended:
  assumes ok: "table_ok st" and v: "p < length (types st)"
    and a: "add_node (ref_tag m) (length (ref_types st)) (st\<lparr>ref_types := ref_types st @ [\<lparr>ref_pointee = p\<rparr>]\<rparr>) = (i, st')"
  shows "i = length (types st) \<and> length (types st') = Suc i \<and> grown st st' \<and> table_ok st' \<and>
    ref_node_is st' p m (types st' ! i)"
proof -
  have st': "st' = st\<lparr>ref_types := ref_types st @ [\<lparr>ref_pointee = p\<rparr>],
      types := types st @ [\<lparr>node_tag = ref_tag m, node_data = length (ref_types st)\<rparr>]\<rparr>" "i = length (types st)"
    using a by (auto simp: add_node_def)
  then have g: "grown st st'" by (simp add: grown_def)
  have "node_ok st' (length (types st))" using v st' by (auto simp: node_ok_def ref_tag_def)
  then have "table_ok st'" by (intro table_ok_add [OF ok g]) (simp_all add: st')
  with g show ?thesis by (simp add: st' ref_node_is_def)
qed

lemma array_appended:
  assumes ok: "table_ok st" and v: "e < length (types st)"
    and a: "add_node TyArray (length (array_types st))
      (st\<lparr>array_types := array_types st @ [\<lparr>array_element = e, array_count = c\<rparr>]\<rparr>) = (i, st')"
  shows "i = length (types st) \<and> length (types st') = Suc i \<and> grown st st' \<and> table_ok st' \<and>
    array_node_is st' e c (types st' ! i)"
proof -
  have st': "st' = st\<lparr>array_types := array_types st @ [\<lparr>array_element = e, array_count = c\<rparr>],
      types := types st @ [\<lparr>node_tag = TyArray, node_data = length (array_types st)\<rparr>]\<rparr>" "i = length (types st)"
    using a by (auto simp: add_node_def)
  then have g: "grown st st'" by (simp add: grown_def)
  have "node_ok st' (length (types st))" using v st' by (auto simp: node_ok_def)
  then have "table_ok st'" by (intro table_ok_add [OF ok g]) (simp_all add: st')
  with g show ?thesis by (simp add: st' array_node_is_def)
qed

text \<open>References, by pointee and mutability.\<close>

interpretation refs: interning "\<lambda>st (p, m). ref_node_is st p m"
  "\<lambda>(p, m) st. add_node (ref_tag m) (length (ref_types st)) (st\<lparr>ref_types := ref_types st @ [\<lparr>ref_pointee = p\<rparr>]\<rparr>)"
  "\<lambda>st (p, m). p < length (types st)" "\<lambda>(p, m). reference_type p m"
proof (unfold_locales, goal_cases)
  case (1 st st' i k)
  then show ?case
    using grown_tables(1) [OF 1(2), of "node_data (types st ! i)"] table_okD [OF 1(1,3,4)]
    by (auto simp: ref_node_is_def node_ok_def Let_def ref_tag_def split: prod.splits)
next
  case (2 st k n k')
  then show ?case by (auto simp: ref_node_is_def ref_tag_def split: prod.splits if_splits)
next
  case (3 st k i st')
  then show ?case by (cases k) (simp only: prod.case, erule (2) ref_appended)
next
  case (4 st k st')
  then show ?case using grown_length [OF 4(2)] by (auto split: prod.splits)
next
  case (5 k st)
  then show ?case by (simp add: reference_type_def split: prod.splits)
qed

text \<open>Arrays, by element and count.\<close>

interpretation arrays: interning "\<lambda>st (e, c). array_node_is st e c"
  "\<lambda>(e, c) st. add_node TyArray (length (array_types st))
      (st\<lparr>array_types := array_types st @ [\<lparr>array_element = e, array_count = c\<rparr>]\<rparr>)"
  "\<lambda>st (e, c). e < length (types st)" "\<lambda>(e, c). array_type e c"
proof (unfold_locales, goal_cases)
  case (1 st st' i k)
  then show ?case
    using grown_tables(2) [OF 1(2), of "node_data (types st ! i)"] table_okD [OF 1(1,3,4)]
    by (auto simp: array_node_is_def node_ok_def Let_def split: prod.splits)
next
  case (2 st k n k')
  then show ?case by (auto simp: array_node_is_def split: prod.splits)
next
  case (3 st k i st')
  then show ?case by (cases k) (simp only: prod.case, erule (2) array_appended)
next
  case (4 st k st')
  then show ?case using grown_length [OF 4(2)] by (auto split: prod.splits)
next
  case (5 k st)
  then show ?case by (simp add: array_type_def split: prod.splits)
qed

text \<open>
  C21. Identical reference shapes share one index: after a reference type was interned, and
  whatever well-formed entries were appended since, interning a reference again gives the
  same index exactly when pointee and mutability are the same, and then appends nothing.
\<close>

theorem reference_type_identity:
  assumes "table_ok st" and "p < length (types st)" and "reference_type p m st = (i, st1)"
    and "grown st1 st2" and "table_ok st2" and "p' < length (types st2)"
    and "reference_type p' m' st2 = (j, st3)"
  shows "(i = j \<longleftrightarrow> p = p' \<and> m = m') \<and> (p = p' \<and> m = m' \<longrightarrow> st3 = st2) \<and> table_ok st1 \<and> grown st st1"
  using refs.intern_index_eq [of st "(p, m)" st2 "(p', m')" i st1 j st3] assms by simp

theorem reference_type_identity_witness:
  "fst (reference_type 4 True (snd (reference_type 4 True new_builder))) = fst (reference_type 4 True new_builder)"
proof -
  obtain i st1 where a: "reference_type 4 True new_builder = (i, st1)" by force
  obtain j st3 where b: "reference_type 4 True st1 = (j, st3)" by force
  have l: "4 < length (types new_builder)" by code_simp
  note r = refs.intern_found [of new_builder "(4, True)" i st1, OF table_ok_new]
  have "table_ok st1" "4 < length (types st1)" using r l a grown_length [of new_builder st1] by auto
  from reference_type_identity [OF table_ok_new l a grown_refl this b] show ?thesis by (simp add: a b)
qed

text \<open>
  The same for array types: one index for each pair of element index and count.
\<close>

theorem array_type_identity:
  assumes "table_ok st" and "e < length (types st)" and "array_type e c st = (i, st1)"
    and "grown st1 st2" and "table_ok st2" and "e' < length (types st2)"
    and "array_type e' c' st2 = (j, st3)"
  shows "(i = j \<longleftrightarrow> e = e' \<and> c = c') \<and> (e = e' \<and> c = c' \<longrightarrow> st3 = st2) \<and> table_ok st1 \<and> grown st st1"
  using arrays.intern_index_eq [of st "(e, c)" st2 "(e', c')" i st1 j st3] assms by simp

theorem array_type_identity_witness:
  "fst (array_type 4 8 new_builder) \<noteq> fst (array_type 4 9 (snd (array_type 4 8 new_builder)))"
proof -
  obtain i st1 where a: "array_type 4 8 new_builder = (i, st1)" by force
  obtain j st3 where b: "array_type 4 9 st1 = (j, st3)" by force
  have l: "4 < length (types new_builder)" by code_simp
  note r = arrays.intern_found [of new_builder "(4, 8)" i st1, OF table_ok_new]
  have "table_ok st1" "4 < length (types st1)" using r l a grown_length [of new_builder st1] by auto
  from array_type_identity [OF table_ok_new l a grown_refl this b] show ?thesis by (simp add: a b)
qed

subsection \<open>Primitive tags\<close>

text \<open>
  The table-free lookup agrees with the table: for every tag with a pre-interned node,
  the index that \<^verbatim>\<open>primitive\<close> computes carries that tag in every builder, and every other
  tag is refused.
\<close>

theorem primitive_in_table:
  "(case primitive tag of
      Some i \<Rightarrow> \<forall>st. table_ok st \<longrightarrow> i < length (types st) \<and> node_tag (types st ! i) = tag
    | None \<Rightarrow> tag \<in> set composite_tags)"
proof (cases "tag \<in> set composite_tags")
  case False
  have k: "primitive_idx tag < length kPrefix \<and> node_tag (kPrefix ! primitive_idx tag) = tag"
    using False unfolding kPrefix_def
    by (cases tag) (simp_all add: composite_tags_def primitive_idx_def kPrimitiveTypeCount_def new_builder_def
        intern_primitives_def empty_storage_def primitive_tags_def)
  have "primitive_idx tag < length (types st) \<and> node_tag (types st ! primitive_idx tag) = tag"
    if "table_ok st" for st
    using prefix_nth [of kPrefix "types st" "primitive_idx tag"] that k by (simp add: table_ok_def)
  then show ?thesis using False by (simp add: primitive_def)
qed (simp add: primitive_def)

theorem primitive_in_table_witness:
  "node_tag (types new_builder ! 4) = TyI32"
proof -
  have "primitive TyI32 = Some 4" by code_simp
  then show ?thesis using primitive_in_table [of TyI32] table_ok_new by simp
qed

subsection \<open>Contiguous rows of copies\<close>

lemma seq_push_next:
  "seq_count q = 0 \<or> i = seq_head q + seq_count q \<Longrightarrow>
     seq_push i q = Some \<lparr>seq_head = (if seq_count q = 0 then i else seq_head q), seq_count = Suc (seq_count q)\<rparr>"
  by (auto simp: seq_push_def Let_def)

text \<open>A row of consecutive indices.\<close>

definition consecutive :: "nat \<Rightarrow> nat list \<Rightarrow> bool" where
  "consecutive a is \<longleftrightarrow> is = [a ..< a + length is]"

lemma consecutive_simps [simp]:
  "consecutive a []" "consecutive a (i # is) \<longleftrightarrow> i = a \<and> consecutive (Suc a) is"
  by (auto simp: consecutive_def upt_conv_Cons simp del: upt_Suc)

lemma seq_push_all_gen:
  "seq_count q \<noteq> 0 \<Longrightarrow> seq_push_all is q =
     (if consecutive (seq_head q + seq_count q) is
      then Some (q\<lparr>seq_count := seq_count q + length is\<rparr>) else None)"
proof (induction "is" arbitrary: q)
  case (Cons i "is")
  show ?case
  proof (cases "i = seq_head q + seq_count q")
    case True
    with Cons show ?thesis by (simp add: seq_push_next)
  next
    case False
    with Cons.prems show ?thesis by (simp add: seq_push_def Let_def)
  qed
qed simp

text \<open>
  A sequence of pushes is accepted exactly when the indices are consecutive, and the
  finished range then enumerates them.
\<close>

theorem seq_builder_spec:
  "(case seq_push_all is empty_seq of
      Some q \<Rightarrow> indices (seq_finish q) = is
    | None \<Rightarrow> is \<noteq> [hd is ..< hd is + length is])"
proof (cases "is")
  case (Cons i rest)
  have "seq_push i empty_seq = Some \<lparr>seq_head = i, seq_count = 1\<rparr>"
    by (simp add: seq_push_def empty_seq_def)
  then have "seq_push_all is empty_seq =
      (if consecutive (Suc i) rest then Some \<lparr>seq_head = i, seq_count = Suc (length rest)\<rparr> else None)"
    by (simp add: Cons seq_push_all_gen)
  moreover have "consecutive (Suc i) rest \<longleftrightarrow> is = [hd is ..< hd is + length is]"
    using consecutive_simps(2) [of i i rest] unfolding Cons consecutive_def [of i] by (simp del: upt_Suc)
  ultimately show ?thesis
    using Cons by (auto simp: seq_finish_def indices_def simp del: upt_Suc)
qed (simp add: empty_seq_def seq_finish_def indices_def)

lemma ref_type_result:
  "t < length (types st) \<Longrightarrow> ref_type t st = Some (length (types st), st\<lparr>types := types st @ [types st ! t]\<rparr>)"
  by (simp add: ref_type_def)

lemma copy_types_gen:
  "list_all (\<lambda>t. t < length (types st)) ts \<Longrightarrow>
     seq_count q = 0 \<or> length (types st) = seq_head q + seq_count q \<Longrightarrow>
     copy_types ts q st = Some
       (mk_range (if seq_count q = 0 \<and> ts \<noteq> [] then length (types st) else seq_head q) (seq_count q + length ts),
        st\<lparr>types := types st @ map (\<lambda>t. types st ! t) ts\<rparr>)"
proof (induction ts arbitrary: q st)
  case (Cons t ts)
  let ?st = "st\<lparr>types := types st @ [types st ! t]\<rparr>"
  let ?q = "\<lparr>seq_head = (if seq_count q = 0 then length (types st) else seq_head q), seq_count = Suc (seq_count q)\<rparr>"
  have lt: "list_all (\<lambda>t. t < length (types st)) ts" "t < length (types st)" using Cons.prems by auto
  then have le: "list_all (\<lambda>t. t < length (types ?st)) ts" by (auto simp: list_all_iff)
  have "copy_types (t # ts) q st = copy_types ts ?q ?st"
    using Cons.prems by (simp add: ref_type_result seq_push_next)
  also have "\<dots> = Some (mk_range (seq_head ?q) (Suc (seq_count q) + length ts),
      ?st\<lparr>types := types ?st @ map (\<lambda>t. types ?st ! t) ts\<rparr>)"
    using Cons.IH [OF le, of ?q] Cons.prems by auto
  finally show ?case using lt by (simp add: nth_append list_all_iff)
qed (simp add: seq_finish_def)

text \<open>
  Copying a row of existing types never fails: the copies are appended in order, their
  range is contiguous, and nothing else in the storage changes. So a field list may repeat a
  type, and every entry of the range has the node of the type it was copied from.
\<close>

theorem copy_types_spec:
  assumes "list_all (\<lambda>t. t < length (types st)) ts"
  shows "\<exists>r. copy_types ts empty_seq st = Some (r, st\<lparr>types := types st @ map (\<lambda>t. types st ! t) ts\<rparr>) \<and>
    range_size r = length ts \<and> (ts \<noteq> [] \<longrightarrow> range_head r = length (types st))"
  using copy_types_gen [OF assms, of empty_seq] by (simp add: empty_seq_def)

theorem copy_types_spec_witness:
  "\<exists>r. copy_types [4, 4] empty_seq new_builder =
     Some (r, new_builder\<lparr>types := types new_builder @ map (\<lambda>t. types new_builder ! t) [4, 4]\<rparr>) \<and>
     range_size r = length [4 :: nat, 4] \<and> ([4 :: nat, 4] \<noteq> [] \<longrightarrow> range_head r = length (types new_builder))"
  by (rule copy_types_spec) code_simp

end
