(* ===== verification/Type_Equality.thy ===== *)
theory Type_Equality
  imports Ir_Types Diag
begin

text \<open>
  Type equality and unification of the analyzer (\<^verbatim>\<open>types_equal\<close> and \<^verbatim>\<open>unify\<close> in
  \<^verbatim>\<open>src/analyzer/types.cc\<close>) over the type table of the builder, and the copy predicate of
  \<^verbatim>\<open>src/ir/storage.h\<close>. Both recursions follow the table and carry fuel; running out is
  \<open>None\<close>. The comparison threads its list of seen pairs through every call, as the reference
  parameter does.
\<close>

subsection \<open>The comparison\<close>

definition tag_of :: "storage \<Rightarrow> nat \<Rightarrow> type_tag" where
  "tag_of st i = node_tag (types st ! i)"

definition is_never :: "storage \<Rightarrow> nat \<Rightarrow> bool" where
  "is_never st i \<longleftrightarrow> tag_of st i = TyNever"

definition is_error_idx :: "storage \<Rightarrow> nat \<Rightarrow> bool" where
  "is_error_idx st i \<longleftrightarrow> tag_of st i = TyError"

definition pretty_tag :: "type_tag \<Rightarrow> string" where
  "pretty_tag tag =
     (if tag = TyVoid then ''()'' else if tag = TyI1 then ''bool''
      else if tag = TyNever then [CHR 0x21] else if tag = TyStr then ''str''
      else type_to_str tag)"

definition pointee_of :: "storage \<Rightarrow> nat \<Rightarrow> nat" where
  "pointee_of st i = ref_pointee (ref_types st ! node_data (types st ! i))"

definition array_of :: "storage \<Rightarrow> nat \<Rightarrow> array_info" where
  "array_of st i = array_types st ! node_data (types st ! i)"

definition elements_of :: "storage \<Rightarrow> nat \<Rightarrow> idx_range" where
  "elements_of st i = tuple_elements (tuple_types st ! node_data (types st ! i))"

type_synonym seen_pairs = "(nat \<times> nat) list"

text \<open>The element loop: it stops at the first unequal pair.\<close>

fun all_equal ::
  "(nat \<Rightarrow> nat \<Rightarrow> seen_pairs \<Rightarrow> (bool \<times> seen_pairs) option) \<Rightarrow> (nat \<times> nat) list \<Rightarrow> seen_pairs \<Rightarrow>
     (bool \<times> seen_pairs) option" where
  "all_equal r [] seen = Some (True, seen)"
| "all_equal r ((x, y) # ps) seen =
     (case r x y seen of
        None \<Rightarrow> None
      | Some (False, s) \<Rightarrow> Some (False, s)
      | Some (True, s) \<Rightarrow> all_equal r ps s)"

fun types_equal_inner ::
  "nat \<Rightarrow> storage \<Rightarrow> nat \<Rightarrow> nat \<Rightarrow> seen_pairs \<Rightarrow> (bool \<times> seen_pairs) option" where
  "types_equal_inner 0 st a b seen = None"
| "types_equal_inner (Suc fuel) st a b seen =
     (if a = b then Some (True, seen)
      else if (a, b) \<in> set seen then Some (True, seen)
      else
        (let seen' = seen @ [(a, b)]; ta = tag_of st a; tb = tag_of st b
         in if ta \<noteq> tb then Some (False, seen')
            else if ta = TyRef \<or> ta = TyMutRef then
              types_equal_inner fuel st (pointee_of st a) (pointee_of st b) seen'
            else if ta = TyArray then
              (if array_count (array_of st a) = array_count (array_of st b)
               then types_equal_inner fuel st (array_element (array_of st a))
                      (array_element (array_of st b)) seen'
               else Some (False, seen'))
            else if ta = TyTuple then
              (if range_size (elements_of st a) \<noteq> range_size (elements_of st b) then Some (False, seen')
               else all_equal (types_equal_inner fuel st)
                      (zip (indices (elements_of st a)) (indices (elements_of st b))) seen')
            else Some (\<not> (ta = TyStruct \<or> ta = TyEnum), seen')))"

definition types_equal :: "nat \<Rightarrow> storage \<Rightarrow> nat \<Rightarrow> nat \<Rightarrow> bool option" where
  "types_equal fuel st a b = map_option fst (types_equal_inner fuel st a b [])"

definition kAnalyzerTypeMismatch :: u32 where "kAnalyzerTypeMismatch = 4220"

text \<open>Unification: the resulting type, the storage (which \<open>error_type\<close> may extend), the bag.\<close>

definition unify ::
  "nat \<Rightarrow> nat \<Rightarrow> nat \<Rightarrow> span \<Rightarrow> string \<Rightarrow> storage \<Rightarrow> diag_bag \<Rightarrow> (nat \<times> storage \<times> diag_bag) option" where
  "unify fuel expected actual sp what st bag =
     (if is_error_idx st expected then Some (actual, st, bag)
      else if is_error_idx st actual then Some (expected, st, bag)
      else
        (case types_equal fuel st expected actual of
           None \<Rightarrow> None
         | Some eq \<Rightarrow>
             (if eq then Some (actual, st, bag)
              else if is_never st expected then Some (actual, st, bag)
              else if is_never st actual then Some (expected, st, bag)
              else
                (let bag' = emit_at SevError kAnalyzerTypeMismatch sp
                       (''type mismatch in '' @ what @ '': expected '' @ [CHR 0x27] @
                        pretty_tag (tag_of st expected) @ [CHR 0x27] @ '', found '' @ [CHR 0x27] @
                        pretty_tag (tag_of st actual) @ [CHR 0x27]) bag;
                     (err, st') = error_type st
                 in Some (err, st', bag')))))"

subsection \<open>The shape of a type\<close>

text \<open>
  A type as a tree: structural nodes are unfolded, nominal ones are leaves named by their
  index. Fuel above the index is always enough in a clean table, where the components of a
  structural node lie before it.
\<close>

datatype shape =
  Leaf type_tag | Nominal nat | Pointer type_tag shape | ArrayShape u64 shape | TupleShape "shape list"

fun shape_f :: "nat \<Rightarrow> storage \<Rightarrow> nat \<Rightarrow> shape" where
  "shape_f 0 st i = Leaf TyError"
| "shape_f (Suc n) st i =
     (let t = tag_of st i
      in if t = TyRef \<or> t = TyMutRef then Pointer t (shape_f n st (pointee_of st i))
         else if t = TyArray then ArrayShape (array_count (array_of st i)) (shape_f n st (array_element (array_of st i)))
         else if t = TyTuple then TupleShape (map (shape_f n st) (indices (elements_of st i)))
         else if t = TyStruct \<or> t = TyEnum then Nominal i
         else Leaf t)"

definition shape :: "storage \<Rightarrow> nat \<Rightarrow> shape" where
  "shape st i = shape_f (Suc i) st i"

definition components :: "storage \<Rightarrow> nat \<Rightarrow> nat list" where
  "components st i =
     (let t = tag_of st i
      in if t = TyRef \<or> t = TyMutRef then [pointee_of st i]
         else if t = TyArray then [array_element (array_of st i)]
         else if t = TyTuple then indices (elements_of st i)
         else [])"

text \<open>
  A type without the two placeholder nodes of the pre-interned block: it and everything it is
  built from lies in the table, components before composites.
\<close>

inductive clean :: "storage \<Rightarrow> nat \<Rightarrow> bool" for st where
  cleanI: "i < length (types st) \<Longrightarrow> (\<forall>c \<in> set (components st i). c < i \<and> clean st c) \<Longrightarrow> clean st i"

inductive_cases cleanE: "clean st i"

lemma clean_component: "clean st i \<Longrightarrow> c \<in> set (components st i) \<Longrightarrow> c < i \<and> clean st c"
  by (auto elim: cleanE)

lemma shape_f_enough: "clean st i \<Longrightarrow> i < n \<Longrightarrow> shape_f n st i = shape st i"
proof (induction i arbitrary: n rule: less_induct)
  case (less i)
  have c: "shape_f m st c = shape_f i st c" if "c \<in> set (components st i)" "i \<le> m" for c m
  proof -
    from clean_component [OF less.prems(1) that(1)] have "c < i" "clean st c" by auto
    with less.IH [of c m] less.IH [of c i] that(2) show ?thesis by simp
  qed
  obtain m where m: "n = Suc m" "i \<le> m" using less.prems(2) by (cases n) auto
  show ?case unfolding shape_def m(1)
    using c [OF _ m(2)] by (auto simp: components_def Let_def)
qed

lemma shape_unfold:
  assumes "clean st i"
  shows "shape st i =
    (let t = tag_of st i
      in if t = TyRef \<or> t = TyMutRef then Pointer t (shape st (pointee_of st i))
         else if t = TyArray then ArrayShape (array_count (array_of st i)) (shape st (array_element (array_of st i)))
         else if t = TyTuple then TupleShape (map (shape st) (indices (elements_of st i)))
         else if t = TyStruct \<or> t = TyEnum then Nominal i
         else Leaf t)"
proof -
  have c: "shape_f i st c = shape st c" if "c \<in> set (components st i)" for c
    using clean_component [OF assms that] shape_f_enough by blast
  show ?thesis
    using c by (subst shape_def) (auto simp: components_def Let_def)
qed

subsection \<open>The comparison decides equality of shapes\<close>

definition same_shape :: "storage \<Rightarrow> nat \<times> nat \<Rightarrow> bool" where
  "same_shape st p \<longleftrightarrow> shape st (fst p) = shape st (snd p)"

text \<open>
  What a call promises when the seen pairs at or below its first argument have equal shapes:
  it decides the shapes, and when it says yes the pairs it recorded are equal, too.
\<close>

definition decides :: "storage \<Rightarrow> seen_pairs \<Rightarrow> bool \<Rightarrow> (bool \<times> seen_pairs) option \<Rightarrow> bool" where
  "decides st seen eq res \<longleftrightarrow>
     (\<exists>s. res = Some (eq, seen @ s) \<and> (eq \<longrightarrow> (\<forall>p \<in> set s. same_shape st p)))"

definition seen_ok :: "storage \<Rightarrow> nat \<Rightarrow> seen_pairs \<Rightarrow> bool" where
  "seen_ok st a seen \<longleftrightarrow> (\<forall>p \<in> set seen. fst p \<le> a \<longrightarrow> same_shape st p)"

lemma all_equal_decides:
  assumes "\<And>x y seen. (x, y) \<in> set ps \<Longrightarrow> seen_ok st x seen \<Longrightarrow> decides st seen (same_shape st (x, y)) (r x y seen)"
    and "\<And>x y. (x, y) \<in> set ps \<Longrightarrow> seen_ok st x seen"
  shows "decides st seen (\<forall>p \<in> set ps. same_shape st p) (all_equal r ps seen)"
  using assms
proof (induction ps arbitrary: seen)
  case Nil
  then show ?case by (simp add: decides_def)
next
  case (Cons p ps)
  obtain x y where p: "p = (x, y)" by force
  have "decides st seen (same_shape st (x, y)) (r x y seen)"
    using Cons.prems(1) [of x y] Cons.prems(2) [of x y] by (simp add: p)
  then obtain s where s: "r x y seen = Some (same_shape st (x, y), seen @ s)"
      "same_shape st (x, y) \<longrightarrow> (\<forall>p \<in> set s. same_shape st p)"
    by (auto simp: decides_def)
  show ?case
  proof (cases "same_shape st (x, y)")
    case False
    then show ?thesis using s by (simp add: p decides_def)
  next
    case True
    have "decides st (seen @ s) (\<forall>p \<in> set ps. same_shape st p) (all_equal r ps (seen @ s))"
    proof (rule Cons.IH)
      show "decides st seen' (same_shape st (x', y')) (r x' y' seen')"
        if "(x', y') \<in> set ps" "seen_ok st x' seen'" for x' y' seen'
        using Cons.prems(1) that by simp
      show "seen_ok st x' (seen @ s)" if "(x', y') \<in> set ps" for x' y'
        using Cons.prems(2) [of x' y'] that s(2) True by (auto simp: seen_ok_def)
    qed
    then show ?thesis using True s by (auto simp: p decides_def)
  qed
qed

lemma types_equal_inner_decides:
  "clean st a \<Longrightarrow> clean st b \<Longrightarrow> a < n \<Longrightarrow> seen_ok st a seen \<Longrightarrow>
     decides st seen (same_shape st (a, b)) (types_equal_inner n st a b seen)"
proof (induction n arbitrary: a b seen)
  case (Suc n)
  show ?case
  proof (cases "a = b \<or> (a, b) \<in> set seen")
    case True
    then have "same_shape st (a, b)" using Suc.prems(4) by (auto simp: seen_ok_def same_shape_def)
    moreover have "types_equal_inner (Suc n) st a b seen = Some (True, seen)" using True by auto
    ultimately show ?thesis by (simp add: decides_def)
  next
    case False
    let ?seen = "seen @ [(a, b)]"
    have sub: "decides st ?seen (same_shape st (c, d)) (types_equal_inner n st c d seen')"
      if "c \<in> set (components st a)" "d \<in> set (components st b)" "seen_ok st c seen'" "seen' = ?seen" for c d seen'
      using clean_component [OF Suc.prems(1) that(1)] clean_component [OF Suc.prems(2) that(2)]
        Suc.IH [of c d seen'] Suc.prems(3) that by simp
    have below: "seen_ok st c ?seen" if "c \<in> set (components st a)" for c
      using clean_component [OF Suc.prems(1) that] Suc.prems(4) by (auto simp: seen_ok_def)
    have up: "decides st seen (same_shape st (a, b)) res"
      if "decides st ?seen eq res" "eq = same_shape st (a, b)" for eq res
      using that by (fastforce simp: decides_def)
    note sh = shape_unfold [OF Suc.prems(1)] shape_unfold [OF Suc.prems(2)]
    consider (tag) "tag_of st a \<noteq> tag_of st b"
      | (ptr) "tag_of st a = tag_of st b" "tag_of st a = TyRef \<or> tag_of st a = TyMutRef"
      | (arr) "tag_of st a = tag_of st b" "tag_of st a = TyArray"
      | (tup) "tag_of st a = tag_of st b" "tag_of st a = TyTuple"
      | (rest) "tag_of st a = tag_of st b" "tag_of st a \<notin> {TyRef, TyMutRef, TyArray, TyTuple}"
      by blast
    then show ?thesis
    proof cases
      case tag
      have "\<not> same_shape st (a, b)"
        using tag by (auto simp: same_shape_def sh Let_def split: if_splits)
      then show ?thesis using tag False by (simp add: decides_def Let_def)
    next
      case ptr
      have "same_shape st (a, b) \<longleftrightarrow> same_shape st (pointee_of st a, pointee_of st b)"
        using ptr by (auto simp: same_shape_def sh Let_def)
      moreover have "pointee_of st a \<in> set (components st a)" "pointee_of st b \<in> set (components st b)"
        using ptr by (auto simp: components_def Let_def)
      ultimately have "decides st seen (same_shape st (a, b))
          (types_equal_inner n st (pointee_of st a) (pointee_of st b) ?seen)"
        using sub below by (intro up) auto
      then show ?thesis using ptr False by (auto simp: Let_def)
    next
      case arr
      let ?e = "array_element (array_of st a)" and ?f = "array_element (array_of st b)"
      have "same_shape st (a, b) \<longleftrightarrow>
          array_count (array_of st a) = array_count (array_of st b) \<and> same_shape st (?e, ?f)"
        using arr by (auto simp: same_shape_def sh Let_def)
      moreover have "?e \<in> set (components st a)" "?f \<in> set (components st b)"
        using arr by (auto simp: components_def Let_def)
      moreover have "decides st seen (same_shape st (a, b)) (types_equal_inner n st ?e ?f ?seen)"
        if "array_count (array_of st a) = array_count (array_of st b)"
        using calculation sub below that by (intro up) auto
      ultimately show ?thesis using arr False by (auto simp: Let_def decides_def)
    next
      case tup
      let ?xs = "indices (elements_of st a)" and ?ys = "indices (elements_of st b)"
      have c: "components st a = ?xs" "components st b = ?ys"
        using tup by (simp_all add: components_def Let_def)
      have eq: "same_shape st (a, b) \<longleftrightarrow> length ?xs = length ?ys \<and> (\<forall>p \<in> set (zip ?xs ?ys). same_shape st p)"
        using tup by (auto simp: same_shape_def sh Let_def list_eq_iff_nth_eq all_set_conv_all_nth)
      show ?thesis
      proof (cases "length ?xs = length ?ys")
        case True
        have "decides st ?seen (\<forall>p \<in> set (zip ?xs ?ys). same_shape st p)
            (all_equal (types_equal_inner n st) (zip ?xs ?ys) ?seen)"
        proof (rule all_equal_decides)
          fix x y assume xy: "(x, y) \<in> set (zip ?xs ?ys)"
          then have "x \<in> set (components st a)" "y \<in> set (components st b)"
            unfolding c by (auto dest: set_zip_leftD set_zip_rightD)
          then show "seen_ok st x ?seen" using below by blast
          show "decides st seen' (same_shape st (x, y)) (types_equal_inner n st x y seen')"
            if "seen_ok st x seen'" for seen'
            using clean_component [OF Suc.prems(1), of x] clean_component [OF Suc.prems(2), of y]
              Suc.IH [of x y seen'] Suc.prems(3) that \<open>x \<in> _\<close> \<open>y \<in> _\<close> by simp
        qed
        from up [OF this] show ?thesis using tup False True eq by (simp add: Let_def)
      next
        case ne: False
        then show ?thesis using tup False eq by (auto simp: decides_def Let_def)
      qed
    next
      case rest
      have "same_shape st (a, b) \<longleftrightarrow> \<not> (tag_of st a = TyStruct \<or> tag_of st a = TyEnum)"
        using rest False by (auto simp: same_shape_def sh Let_def)
      then show ?thesis using rest False
        by (auto simp: decides_def Let_def same_shape_def)
    qed
  qed
qed simp

text \<open>
  C2. For types without placeholder nodes the comparison terminates, and it answers yes
  exactly when the two types unfold to the same tree, in which nominal types are told apart by
  their table index. The list of seen pairs, which is there against cycles, never changes the
  answer.
\<close>

theorem types_equal_spec:
  assumes "clean st a" and "clean st b" and "a < fuel"
  shows "types_equal fuel st a b = Some (shape st a = shape st b)"
  using types_equal_inner_decides [OF assms, of "[]"]
  by (auto simp: types_equal_def decides_def seen_ok_def same_shape_def)

theorem types_equal_spec_witness:
  "types_equal 9 new_builder 4 8 = Some False"
proof -
  have c: "clean new_builder 4" "clean new_builder 8"
    by (rule cleanI; code_simp)+
  have "shape new_builder 4 = Leaf TyI32" "shape new_builder 8 = Leaf TyU32" by code_simp+
  then show ?thesis using types_equal_spec [OF c, of 9] by simp
qed

lemma nominal_clean: "i < length (types st) \<Longrightarrow> tag_of st i = TyStruct \<or> tag_of st i = TyEnum \<Longrightarrow> clean st i"
  by (rule cleanI) (auto simp: components_def Let_def)

lemma nominal_shape: "tag_of st i = TyStruct \<or> tag_of st i = TyEnum \<Longrightarrow> shape st i = Nominal i"
  by (auto simp: shape_def Let_def)

lemma nominal_copy:
  assumes "s < length (types st)" and "tag_of st s = TyStruct \<or> tag_of st s = TyEnum"
    and "ref_type s st = Some (c, st')"
  shows "tag_of st' c = tag_of st s \<and> tag_of st' s = tag_of st s \<and> c \<noteq> s \<and>
    types_equal (Suc c) st' c s = Some False"
proof -
  have st': "c = length (types st)" "st' = st\<lparr>types := types st @ [types st ! s]\<rparr>"
    using assms(1,3) by (auto simp: ref_type_def)
  have t: "tag_of st' c = tag_of st s" "tag_of st' s = tag_of st s"
    using assms(1) st' by (simp_all add: tag_of_def nth_append)
  have "clean st' c" "clean st' s" using assms(1,2) t st' by (auto intro!: nominal_clean)
  then have "types_equal (Suc c) st' c s = Some (Nominal c = Nominal s)"
    using types_equal_inner_decides [of st' c s "Suc c" "[]"] nominal_shape [of st'] t assms(2)
    by (auto simp: types_equal_def decides_def seen_ok_def same_shape_def)
  then show ?thesis using t assms(1) st' by simp
qed

text \<open>
  C19. Field slots hold copies of the nodes of their types, made by \<^verbatim>\<open>ref_type\<close>. For a struct
  or enum the copy is not equal to the original: whenever a field slot that was copied from a
  nominal type is unified with a value of that very type, unification reports a type mismatch
  and the result is the error type.
\<close>

theorem copied_nominal_mismatch:
  assumes "s < length (types st)" and "tag_of st s = TyStruct \<or> tag_of st s = TyEnum"
    and "ref_type s st = Some (c, st')"
  shows "\<exists>msg. unify (Suc c) c s sp what st' bag =
    Some (fst (error_type st'), snd (error_type st'), emit_at SevError kAnalyzerTypeMismatch sp msg bag)"
  using nominal_copy [OF assms] assms(2)
  by (auto simp: unify_def is_error_idx_def is_never_def Let_def split: prod.split)

theorem copied_nominal_mismatch_witness:
  "has_errors (snd (snd (the (unify 19 18 17 empty_span ''field''
     (snd (the (ref_type 17 (snd (reserve_struct 0 new_builder))))) empty_bag))))"
proof -
  let ?st = "snd (reserve_struct 0 new_builder)"
  have "17 < length (types ?st)" "tag_of ?st 17 = TyStruct" by code_simp+
  moreover have "ref_type 17 ?st = Some (18, snd (the (ref_type 17 ?st)))" by code_simp
  ultimately obtain m where "unify 19 18 17 empty_span ''field'' (snd (the (ref_type 17 ?st))) empty_bag =
      Some (fst (error_type (snd (the (ref_type 17 ?st)))), snd (error_type (snd (the (ref_type 17 ?st)))),
        emit_at SevError kAnalyzerTypeMismatch empty_span m empty_bag)"
    using copied_nominal_mismatch [of 17 ?st 18 "snd (the (ref_type 17 ?st))" empty_span "''field''" empty_bag]
    by auto
  then show ?thesis by (simp add: has_errors_def emit_at_def push_def empty_bag_def)
qed

subsection \<open>Copy types\<close>

text \<open>The loops over fields stop at the first part that is not Copy.\<close>

fun all_copy :: "(nat \<Rightarrow> bool option) \<Rightarrow> nat list \<Rightarrow> bool option" where
  "all_copy r [] = Some True"
| "all_copy r (i # is) =
     (case r i of None \<Rightarrow> None | Some False \<Rightarrow> Some False | Some True \<Rightarrow> all_copy r is)"

definition variant_fields_of :: "storage \<Rightarrow> nat \<Rightarrow> nat list" where
  "variant_fields_of st i =
     concat (map (\<lambda>v. indices (variant_fields (enum_variant_types st ! v)))
       (indices (enum_variants (enum_types st ! node_data (types st ! i)))))"

definition struct_fields_of :: "storage \<Rightarrow> nat \<Rightarrow> nat list" where
  "struct_fields_of st i = indices (struct_fields (struct_types st ! node_data (types st ! i)))"

fun is_copy_type :: "nat \<Rightarrow> storage \<Rightarrow> nat \<Rightarrow> bool option" where
  "is_copy_type 0 st i = None"
| "is_copy_type (Suc fuel) st i =
     (let t = tag_of st i
      in if t = TyMutRef then Some False
         else if t = TyStruct then all_copy (is_copy_type fuel st) (struct_fields_of st i)
         else if t = TyArray then is_copy_type fuel st (array_element (array_of st i))
         else if t = TyEnum then all_copy (is_copy_type fuel st) (variant_fields_of st i)
         else if t = TyTuple then all_copy (is_copy_type fuel st) (indices (elements_of st i))
         else Some True)"

text \<open>The parts that a value of a type holds by value.\<close>

definition value_parts :: "storage \<Rightarrow> nat \<Rightarrow> nat list" where
  "value_parts st i =
     (let t = tag_of st i
      in if t = TyStruct then struct_fields_of st i
         else if t = TyArray then [array_element (array_of st i)]
         else if t = TyEnum then variant_fields_of st i
         else if t = TyTuple then indices (elements_of st i)
         else [])"

text \<open>Holding an exclusive reference somewhere by value, and having no value cycle.\<close>

inductive owns_mut :: "storage \<Rightarrow> nat \<Rightarrow> bool" for st where
  owns_here: "tag_of st i = TyMutRef \<Longrightarrow> owns_mut st i"
| owns_part: "c \<in> set (value_parts st i) \<Longrightarrow> owns_mut st c \<Longrightarrow> owns_mut st i"

inductive no_value_cycle :: "storage \<Rightarrow> nat \<Rightarrow> bool" for st where
  finite_value: "(\<forall>c \<in> set (value_parts st i). no_value_cycle st c) \<Longrightarrow> no_value_cycle st i"

inductive_cases owns_mutE: "owns_mut st i"

lemma owns_mut_iff: "owns_mut st i \<longleftrightarrow> tag_of st i = TyMutRef \<or> (\<exists>c \<in> set (value_parts st i). owns_mut st c)"
  by (auto elim: owns_mutE intro: owns_mut.intros)

lemma all_copy_spec:
  "(\<And>c. c \<in> set is \<Longrightarrow> r c = Some (P c)) \<Longrightarrow> all_copy r is = Some (\<forall>c \<in> set is. P c)"
  by (induction "is") (auto split: bool.split)

lemma all_copy_one: "all_copy r [c] = r c"
  by (auto split: option.split bool.split)

lemma is_copy_type_parts:
  "is_copy_type (Suc n) st i =
     (if tag_of st i = TyMutRef then Some False else all_copy (is_copy_type n st) (value_parts st i))"
  by (auto simp: Let_def value_parts_def all_copy_one simp del: all_copy.simps(2))

lemma is_copy_type_decides:
  "no_value_cycle st i \<Longrightarrow> \<exists>n. \<forall>m \<ge> n. is_copy_type m st i = Some (\<not> owns_mut st i)"
proof (induction rule: no_value_cycle.induct)
  case (finite_value i)
  then obtain N where N: "\<And>c m. c \<in> set (value_parts st i) \<Longrightarrow> m \<ge> N c \<Longrightarrow>
      is_copy_type m st c = Some (\<not> owns_mut st c)" by metis
  let ?n = "Suc (Max (insert 0 (N ` set (value_parts st i))))"
  have "is_copy_type m st i = Some (\<not> owns_mut st i)" if le: "?n \<le> m" for m
  proof -
    obtain k where k: "m = Suc k" using le by (metis Suc_le_D)
    have "is_copy_type k st c = Some (\<not> owns_mut st c)" if c: "c \<in> set (value_parts st i)" for c
    proof (rule N [OF c])
      show "N c \<le> k" using le c unfolding k by simp
    qed
    then have "all_copy (is_copy_type k st) (value_parts st i) =
        Some (\<forall>c \<in> set (value_parts st i). \<not> owns_mut st c)"
      by (rule all_copy_spec)
    then show ?thesis unfolding k is_copy_type_parts owns_mut_iff [of st i] by simp
  qed
  then show ?case by blast
qed

text \<open>
  C25. On a type without a value cycle the copy predicate terminates, and it says yes exactly
  when no exclusive reference is held by value, at any depth, through fields, elements and
  variant payloads.
\<close>

theorem is_copy_type_spec:
  assumes "no_value_cycle st i"
  shows "\<exists>n. \<forall>m \<ge> n. is_copy_type m st i = Some (\<not> owns_mut st i)"
  using assms by (rule is_copy_type_decides)

theorem is_copy_type_spec_witness:
  "\<exists>n. \<forall>m \<ge> n. is_copy_type m (snd (reference_type 4 True new_builder)) 17 =
     Some (\<not> owns_mut (snd (reference_type 4 True new_builder)) 17)"
proof (rule is_copy_type_spec)
  have "value_parts (snd (reference_type 4 True new_builder)) 17 = []" by code_simp
  then show "no_value_cycle (snd (reference_type 4 True new_builder)) 17" by (intro finite_value) simp
qed

end
