(* ===== verification/Manifest.thy ===== *)
theory Manifest
  imports Render
begin

text \<open>
  Package manifests (\<^verbatim>\<open>src/pkg/manifest.h\<close>, \<^verbatim>\<open>src/pkg/manifest.cc\<close>). The TOML reader is a
  third-party library: it is the parameter \<open>toml_parse\<close>, from the bytes and the file name to a
  syntax error with its region or a root table, whose nodes are seen through the library's
  node interface: tables with their entries in the library's (sorted) order, arrays, strings,
  and all other values. The strings the code copies into its arena are plain values here.
  Offsets are counted for files below 4 GiB, where the 32-bit loop counter cannot wrap.
\<close>

subsection \<open>Versions\<close>

record version =
  major :: u32
  minor :: u32
  patch :: u32

datatype version_error = VersionEmpty | VersionBadFormat

definition is_decimal :: "char \<Rightarrow> bool" where
  "is_decimal c \<longleftrightarrow> 48 \<le> (of_char c :: nat) \<and> (of_char c :: nat) \<le> 57"

definition digits_value :: "string \<Rightarrow> nat" where
  "digits_value s = foldl (\<lambda>v c. 10 * v + (of_char c - 48)) 0 s"

text \<open>
  \<^verbatim>\<open>std::from_chars\<close> on an unsigned 32-bit integer: the longest run of digits, an error when
  there is none or the value does not fit; the result is the value and what was not consumed.
\<close>

definition from_chars :: "string \<Rightarrow> (u32 \<times> string) option" where
  "from_chars s =
     (let ds = takeWhile is_decimal s
      in if ds = [] \<or> digits_value ds \<ge> 2 ^ 32 then None
         else Some (of_nat (digits_value ds), dropWhile is_decimal s))"

definition parse_part :: "string \<Rightarrow> version_error + u32" where
  "parse_part part =
     (if part = [] then Inl VersionBadFormat
      else case from_chars part of
             None \<Rightarrow> Inl VersionBadFormat
           | Some (v, rest) \<Rightarrow> if rest \<noteq> [] then Inl VersionBadFormat else Inr v)"

text \<open>The next dotted part: the text before the first dot and the text behind it.\<close>

definition take_dot :: "string \<Rightarrow> (string \<times> string) option" where
  "take_dot s =
     (case dropWhile (\<lambda>c. c \<noteq> CHR ''.'') s of
        [] \<Rightarrow> None
      | _ # rest \<Rightarrow> Some (takeWhile (\<lambda>c. c \<noteq> CHR ''.'') s, rest))"

text \<open>The loop over the three parts, with the index \<open>i\<close> and the values read so far.\<close>

fun parse_version_loop :: "nat \<Rightarrow> nat \<Rightarrow> string \<Rightarrow> u32 list \<Rightarrow> version_error + u32 list" where
  "parse_version_loop 0 i s acc = Inr acc"
| "parse_version_loop (Suc n) i s acc =
     (let next = (if i < 2 then take_dot s else Some (s, []))
      in case next of
           None \<Rightarrow> Inl VersionBadFormat
         | Some (part, rest) \<Rightarrow>
             (case parse_part part of
                Inl e \<Rightarrow> Inl e
              | Inr v \<Rightarrow> parse_version_loop n (Suc i) rest (acc @ [v])))"

definition parse_version :: "string \<Rightarrow> version_error + version" where
  "parse_version s =
     (if s = [] then Inl VersionEmpty
      else case parse_version_loop 3 0 s [] of
             Inl e \<Rightarrow> Inl e
           | Inr vs \<Rightarrow> Inr \<lparr>major = vs ! 0, minor = vs ! 1, patch = vs ! 2\<rparr>)"

subsection \<open>Positions\<close>

function line_offset_loop :: "string \<Rightarrow> u32 \<Rightarrow> u32 \<Rightarrow> nat \<Rightarrow> nat" where
  "line_offset_loop bytes line current off =
     (if current < line \<and> off < length bytes then
        line_offset_loop bytes line (if bytes ! off = newline then current + 1 else current) (Suc off)
      else off)"
  by pat_completeness auto
termination
  by (relation "measure (\<lambda>(b, l, c, off). length b - off)") auto

declare line_offset_loop.simps [simp del]

definition line_col_to_offset :: "string \<Rightarrow> u32 \<Rightarrow> u32 \<Rightarrow> u32" where
  "line_col_to_offset bytes line column =
     (let off = of_nat (line_offset_loop bytes line 1 0) + (if column > 0 then column - 1 else 0)
      in if unat off > length bytes then of_nat (length bytes) else off)"

record toml_region =
  begin_line :: u32
  begin_column :: u32
  end_line :: u32
  end_column :: u32

definition toml_span :: "string \<Rightarrow> file_id \<Rightarrow> toml_region \<Rightarrow> span" where
  "toml_span bytes fid region =
     (let b = line_col_to_offset bytes (begin_line region) (begin_column region);
          e = line_col_to_offset bytes (end_line region) (end_column region)
      in \<lparr>span_file = fid, span_offset = b, span_length = (if e > b then e - b else 0)\<rparr>)"

subsection \<open>The manifest\<close>

datatype toml =
  TomlTable "(string \<times> toml) list" | TomlArray "toml list" | TomlString string | TomlOther

record toml_error =
  description :: string
  region :: toml_region

type_synonym toml_table = "(string \<times> toml) list"

type_synonym toml_parser = "string \<Rightarrow> string \<Rightarrow> toml_error + toml_table"

fun toml_string :: "toml \<Rightarrow> string option" where
  "toml_string (TomlString s) = Some s"
| "toml_string _ = None"

fun toml_as_table :: "toml \<Rightarrow> toml_table option" where
  "toml_as_table (TomlTable t) = Some t"
| "toml_as_table _ = None"

fun toml_as_array :: "toml \<Rightarrow> toml list option" where
  "toml_as_array (TomlArray a) = Some a"
| "toml_as_array _ = None"

record dependency =
  dep_name :: string
  dep_path :: string

record bin_target =
  bin_name :: string
  bin_path :: string

record package_manifest =
  pkg_name :: string
  pkg_version :: version
  pkg_edition :: string
  pkg_dependencies :: "dependency list"
  pkg_bins :: "bin_target list"

definition kManifestFileName :: string where "kManifestFileName = ''alcy.toml''"
definition kManifestSyntaxError :: u32 where "kManifestSyntaxError = 2000"
definition kManifestSemanticError :: u32 where "kManifestSemanticError = 2001"

definition semantic_error :: "string \<Rightarrow> string \<Rightarrow> diag_bag \<Rightarrow> diag_bag" where
  "semantic_error filename message bag =
     emit SevError kManifestSemanticError
       (''manifest '' @ [CHR 0x27] @ filename @ [CHR 0x27] @ '': '' @ message) bag"

text \<open>
  The stages of \<^verbatim>\<open>parse_manifest\<close> in order. Each yields its part of the manifest, or the
  message with which the function returns early.
\<close>

definition read_name :: "toml_table \<Rightarrow> string + string" where
  "read_name pkg =
     (case map_of pkg ''name'' of
        None \<Rightarrow> Inl ''missing [package] name''
      | Some node \<Rightarrow>
          (case toml_string node of
             None \<Rightarrow> Inl ''[package] name must be a string''
           | Some s \<Rightarrow> if s = [] then Inl ''[package] name must be a string'' else Inr s))"

definition read_version :: "toml_table \<Rightarrow> string + version" where
  "read_version pkg =
     (case map_of pkg ''version'' of
        None \<Rightarrow> Inl ''missing [package] version''
      | Some node \<Rightarrow>
          (case toml_string node of
             None \<Rightarrow> Inl ''[package] version must be a string''
           | Some s \<Rightarrow>
               (case parse_version s of
                  Inl _ \<Rightarrow> Inl ''invalid [package] version''
                | Inr v \<Rightarrow> Inr v)))"

definition read_edition :: "toml_table \<Rightarrow> string + string" where
  "read_edition pkg =
     (case map_of pkg ''edition'' of
        None \<Rightarrow> Inr []
      | Some node \<Rightarrow>
          (case toml_string node of
             None \<Rightarrow> Inl ''[package] edition must be a string''
           | Some s \<Rightarrow> Inr s))"

definition needs_path :: "string \<Rightarrow> string" where
  "needs_path name =
     ''dependency '' @ [CHR 0x27] @ name @ [CHR 0x27] @
     '' needs { path = ... }; registry dependencies are not supported''"

definition read_dependency :: "string \<times> toml \<Rightarrow> string + dependency" where
  "read_dependency kv =
     (case kv of (key, node) \<Rightarrow>
        (case toml_as_table node of
           None \<Rightarrow> Inl (needs_path key)
         | Some t \<Rightarrow>
             (case map_of t ''path'' of
                None \<Rightarrow> Inl (needs_path key)
              | Some p \<Rightarrow>
                  (case toml_string p of
                     None \<Rightarrow> Inl ''dependency path must be a string''
                   | Some s \<Rightarrow>
                       if s = [] then Inl ''dependency path must be a string''
                       else Inr \<lparr>dep_name = key, dep_path = s\<rparr>))))"

text \<open>The filling loops: the first bad entry ends them.\<close>

fun read_all :: "('a \<Rightarrow> 'e + 'b) \<Rightarrow> 'a list \<Rightarrow> 'e + 'b list" where
  "read_all f [] = Inr []"
| "read_all f (x # xs) =
     (case f x of
        Inl e \<Rightarrow> Inl e
      | Inr y \<Rightarrow> (case read_all f xs of Inl e \<Rightarrow> Inl e | Inr ys \<Rightarrow> Inr (y # ys)))"

definition read_dependencies :: "toml_table \<Rightarrow> string + dependency list" where
  "read_dependencies root =
     (case map_of root ''dependencies'' of
        None \<Rightarrow> Inr []
      | Some node \<Rightarrow>
          (case toml_as_table node of
             None \<Rightarrow> Inl ''[dependencies] must be a table''
           | Some t \<Rightarrow> read_all read_dependency t))"

definition read_bin :: "toml \<Rightarrow> string + bin_target" where
  "read_bin node =
     (case toml_as_table node of
        None \<Rightarrow> Inl ''[[bin]] entries must be tables''
      | Some t \<Rightarrow>
          (case map_of t ''path'' of
             None \<Rightarrow> Inl ''[[bin]] entry needs a path''
           | Some p \<Rightarrow>
               (case toml_string p of
                  None \<Rightarrow> Inl ''[[bin]] path must be a string''
                | Some s \<Rightarrow>
                    if s = [] then Inl ''[[bin]] path must be a string''
                    else
                      (case map_of t ''name'' of
                         None \<Rightarrow> Inr \<lparr>bin_name = [], bin_path = s\<rparr>
                       | Some nm \<Rightarrow>
                           (case toml_string nm of
                              None \<Rightarrow> Inl ''[[bin]] name must be a string''
                            | Some n \<Rightarrow>
                                if n = [] then Inl ''[[bin]] name must be a string''
                                else Inr \<lparr>bin_name = n, bin_path = s\<rparr>)))))"

definition read_bins :: "toml_table \<Rightarrow> string + bin_target list" where
  "read_bins root =
     (case map_of root ''bin'' of
        None \<Rightarrow> Inr []
      | Some node \<Rightarrow>
          (case toml_as_array node of
             None \<Rightarrow> Inl ''[[bin]] must be an array of tables''
           | Some a \<Rightarrow> read_all read_bin a))"

definition read_package :: "toml_table \<Rightarrow> string + toml_table" where
  "read_package root =
     (case map_of root ''package'' of
        None \<Rightarrow> Inl ''missing [package] table''
      | Some node \<Rightarrow>
          (case toml_as_table node of None \<Rightarrow> Inl ''missing [package] table'' | Some t \<Rightarrow> Inr t))"

definition then_read :: "'e + 'a \<Rightarrow> ('a \<Rightarrow> 'e + 'b) \<Rightarrow> 'e + 'b" where
  "then_read r f = (case r of Inl e \<Rightarrow> Inl e | Inr x \<Rightarrow> f x)"

definition read_manifest :: "toml_table \<Rightarrow> string + package_manifest" where
  "read_manifest root =
     then_read (read_package root) (\<lambda>pkg.
     then_read (read_name pkg) (\<lambda>name.
     then_read (read_version pkg) (\<lambda>version.
     then_read (read_edition pkg) (\<lambda>edition.
     then_read (read_dependencies root) (\<lambda>deps.
     then_read (read_bins root) (\<lambda>bins.
       Inr \<lparr>pkg_name = name, pkg_version = version, pkg_edition = edition,
            pkg_dependencies = deps, pkg_bins = bins\<rparr>))))))"

definition parse_manifest ::
  "toml_parser \<Rightarrow> string \<Rightarrow> string \<Rightarrow> file_id \<Rightarrow> diag_bag \<Rightarrow> package_manifest fallible \<times> diag_bag" where
  "parse_manifest toml_parse bytes filename fid bag =
     (case toml_parse bytes filename of
        Inl error \<Rightarrow>
          (Inl Fatal, emit_at SevError kManifestSyntaxError (toml_span bytes fid (region error))
             (''TOML syntax error: '' @ description error) bag)
      | Inr root \<Rightarrow>
          (case read_manifest root of
             Inl message \<Rightarrow> (Inl Fatal, semantic_error filename message bag)
           | Inr m \<Rightarrow> (Inr m, bag)))"

subsection \<open>Version numbers\<close>

lemma digit_char_decimal: "d < 10 \<Longrightarrow> is_decimal (digit_char d) \<and> of_char (digit_char d) = 48 + d"
  by (simp add: is_decimal_def digit_char_def)

lemma digits_value_snoc: "digits_value (s @ [c]) = 10 * digits_value s + (of_char c - 48)"
  by (simp add: digits_value_def)

lemma dec_digits: "list_all is_decimal (dec n) \<and> digits_value (dec n) = n"
proof (induction n rule: dec.induct)
  case (1 n)
  show ?case
  proof (cases "n < 10")
    case True
    then show ?thesis
      by (subst (1 2) dec.simps) (simp add: digit_char_decimal digits_value_def)
  next
    case False
    then have ih: "list_all is_decimal (dec (n div 10))" "digits_value (dec (n div 10)) = n div 10"
      using 1 by auto
    from False have "dec n = dec (n div 10) @ [digit_char (n mod 10)]" by (subst dec.simps) simp
    then show ?thesis using ih by (simp add: digits_value_snoc digit_char_decimal)
  qed
qed

text \<open>A part denotes a value when it is a non-empty row of digits whose value fits 32 bits.\<close>

definition denotes :: "string \<Rightarrow> u32 \<Rightarrow> bool" where
  "denotes s v \<longleftrightarrow> s \<noteq> [] \<and> list_all is_decimal s \<and> digits_value s = unat v"

lemma denotes_dec32: "denotes (dec32 v) v"
  using dec_digits [of "unat v"] by (simp add: denotes_def dec32_def)

lemma parse_part_iff: "parse_part s = Inr v \<longleftrightarrow> denotes s v"
proof (cases "list_all is_decimal s")
  case True
  then have t: "takeWhile is_decimal s = s" "dropWhile is_decimal s = []"
    by (auto simp: list_all_iff takeWhile_eq_all_conv)
  show ?thesis
  proof (cases "digits_value s < 2 ^ 32")
    case lt: True
    then have "unat (of_nat (digits_value s) :: u32) = digits_value s" by (simp add: unat_of_nat)
    then show ?thesis using True lt
      by (auto simp: parse_part_def from_chars_def denotes_def Let_def t)
  next
    case False
    have "unat v < 2 ^ 32" using unsigned_less [of v] by simp
    with False show ?thesis by (auto simp: parse_part_def from_chars_def denotes_def Let_def t)
  qed
next
  case False
  then have "dropWhile is_decimal s \<noteq> []" by (auto simp: list_all_iff)
  then show ?thesis using False
    by (auto simp: parse_part_def from_chars_def denotes_def Let_def split: option.splits)
qed

lemma denotes_no_dot: "denotes s v \<Longrightarrow> CHR ''.'' \<notin> set s"
  by (auto simp: denotes_def list_all_iff is_decimal_def)

lemma take_dot_iff: "take_dot s = Some (a, b) \<longleftrightarrow> s = a @ CHR ''.'' # b \<and> CHR ''.'' \<notin> set a"
proof
  assume "take_dot s = Some (a, b)"
  then obtain c where "dropWhile (\<lambda>c. c \<noteq> CHR ''.'') s = c # b" and a: "a = takeWhile (\<lambda>c. c \<noteq> CHR ''.'') s"
    by (auto simp: take_dot_def split: list.splits)
  moreover from this have "c = CHR ''.''" by (metis (mono_tags) hd_dropWhile list.distinct(1) list.sel(1))
  ultimately show "s = a @ CHR ''.'' # b \<and> CHR ''.'' \<notin> set a"
    by (metis (mono_tags) set_takeWhileD takeWhile_dropWhile_id)
next
  assume h: "s = a @ CHR ''.'' # b \<and> CHR ''.'' \<notin> set a"
  then have "\<And>x. x \<in> set a \<Longrightarrow> x \<noteq> CHR ''.''" by auto
  with h show "take_dot s = Some (a, b)"
    by (simp add: take_dot_def dropWhile_append2 takeWhile_append2)
qed

lemma denotes_nonempty: "denotes s v \<Longrightarrow> s \<noteq> []"
  by (simp add: denotes_def)

lemma parse_version_iff:
  "parse_version s = Inr v \<longleftrightarrow>
     (\<exists>a b c. s = a @ CHR ''.'' # b @ CHR ''.'' # c \<and> denotes a (major v) \<and> denotes b (minor v) \<and> denotes c (patch v))"
  (is "?l \<longleftrightarrow> ?r")
proof
  assume ?l
  then obtain a r b c x y z where d: "take_dot s = Some (a, r)" "take_dot r = Some (b, c)"
      and p: "parse_part a = Inr x" "parse_part b = Inr y" "parse_part c = Inr z"
      and v: "v = \<lparr>major = x, minor = y, patch = z\<rparr>"
    by (auto simp: parse_version_def Let_def numeral_3_eq_3 split: if_splits sum.splits option.splits)
  then show ?r
    by (intro exI [of _ a] exI [of _ b] exI [of _ c]) (simp add: take_dot_iff parse_part_iff)
next
  assume ?r
  then obtain a b c where s: "s = a @ CHR ''.'' # b @ CHR ''.'' # c" and
    d: "denotes a (major v)" "denotes b (minor v)" "denotes c (patch v)" by blast
  have "take_dot s = Some (a, b @ CHR ''.'' # c)" "take_dot (b @ CHR ''.'' # c) = Some (b, c)"
    using s d denotes_no_dot by (simp_all add: take_dot_iff)
  moreover have "parse_part a = Inr (major v)" "parse_part b = Inr (minor v)" "parse_part c = Inr (patch v)"
    using d by (simp_all add: parse_part_iff)
  ultimately show ?l using s by (simp add: parse_version_def Let_def numeral_3_eq_3)
qed

text \<open>
  C27. A version parses exactly when it is three rows of decimal digits separated by dots, each
  with a value below \<open>2 ^ 32\<close>, and then to those values. Anything else is refused: missing or
  extra parts, empty parts, signs, blanks, and numbers that do not fit.
\<close>

theorem parse_version_spec:
  "parse_version s = Inr v \<longleftrightarrow>
     (\<exists>a b c. s = a @ CHR ''.'' # b @ CHR ''.'' # c \<and> denotes a (major v) \<and> denotes b (minor v) \<and> denotes c (patch v))"
  by (rule parse_version_iff)

subsection \<open>Positions round-trip\<close>

lemma line_of_mono: "i \<le> j \<Longrightarrow> line_of bytes i \<le> line_of bytes j"
  by (auto simp: line_of_def le_iff_add take_add count_list_append)

lemma line_of_less: "i \<le> length bytes \<Longrightarrow> line_of bytes i \<le> Suc (length bytes)"
  using count_le_length [of "take i bytes" newline] by (simp add: line_of_def)

lemma line_start_line: "line_of bytes (line_start_of bytes off) = line_of bytes off" if "off \<le> length bytes"
  using that
proof (induction off)
  case (Suc off)
  then show ?case by (simp add: line_start_of_Suc line_of_Suc)
qed (simp add: line_start_of_def)

lemma line_start_before: "i < line_start_of bytes off \<Longrightarrow> off \<le> length bytes \<Longrightarrow> line_of bytes i < line_of bytes off"
proof (induction off)
  case (Suc off)
  show ?case
  proof (cases "bytes ! off = newline")
    case True
    then show ?thesis using Suc.prems line_of_mono [of i off bytes]
      by (simp add: line_start_of_Suc line_of_Suc)
  next
    case False
    then show ?thesis using Suc by (simp add: line_start_of_Suc line_of_Suc)
  qed
qed (simp add: line_start_of_def)

lemma line_offset_loop_eq:
  assumes "length bytes < 2 ^ 32 - 1" and "off \<le> length bytes"
  shows "i \<le> line_start_of bytes off \<Longrightarrow>
    line_offset_loop bytes (of_nat (line_of bytes off)) (of_nat (line_of bytes i)) i = line_start_of bytes off"
proof (induction "line_start_of bytes off - i" arbitrary: i)
  case 0
  then have "i = line_start_of bytes off" by simp
  then show ?case using line_start_line [OF assms(2)] by (subst line_offset_loop.simps) simp
next
  case (Suc k)
  then have i: "i < line_start_of bytes off" "k = line_start_of bytes off - Suc i" by auto
  with line_start_of_le [of bytes off] assms have il: "i < length bytes" by simp
  have l: "line_of bytes i < line_of bytes off" by (rule line_start_before [OF i(1) assms(2)])
  have "line_of bytes off < 2 ^ 32" using line_of_less [OF assms(2)] assms(1) by simp
  then have c: "(of_nat (line_of bytes i) :: u32) < of_nat (line_of bytes off)"
    using l by (simp add: word_less_nat_alt)
  have "line_offset_loop bytes (of_nat (line_of bytes off)) (of_nat (line_of bytes i)) i =
      line_offset_loop bytes (of_nat (line_of bytes off)) (of_nat (line_of bytes (Suc i))) (Suc i)"
    using c il by (subst line_offset_loop.simps) (simp add: line_of_Suc add.commute)
  with Suc.hyps(1) [OF i(2)] i(1) show ?case by simp
qed

text \<open>
  C26. The two position conversions are inverse: for a file below 4 GiB, the byte offset
  computed from the line and column that diagnostics print for an offset is that offset.
\<close>

theorem line_col_roundtrip:
  fixes off :: u32
  assumes "length bytes < 2 ^ 32 - 1" and "unat off \<le> length bytes"
  shows "line_col_to_offset bytes (li_line (locate bytes off)) (li_col (locate bytes off)) = off"
proof -
  let ?o = "unat off"
  have loc: "locate bytes off = \<lparr>li_line = of_nat (line_of bytes ?o),
      li_col = of_nat (Suc (?o - line_start_of bytes ?o)), li_text = line_text_of bytes ?o\<rparr>"
    using locate_eq [of bytes off] assms by (simp add: min_absorb1)
  have s: "line_start_of bytes ?o \<le> ?o" by (rule line_start_of_le)
  have l: "line_offset_loop bytes (of_nat (line_of bytes ?o)) 1 0 = line_start_of bytes ?o"
    using line_offset_loop_eq [OF assms, of 0] by (simp add: line_of_def)
  have "Suc (?o - line_start_of bytes ?o) < 2 ^ 32" using assms by simp
  then have col: "(of_nat (Suc (?o - line_start_of bytes ?o)) :: u32) > 0"
    by (simp add: word_less_nat_alt unat_of_nat_len del: of_nat_Suc)
  have "of_nat (line_start_of bytes ?o) + (of_nat (Suc (?o - line_start_of bytes ?o)) - 1) = off"
    using s by (simp flip: of_nat_add)
  then show ?thesis using assms(2) col
    unfolding line_col_to_offset_def loc l line_info.simps Let_def by (simp del: of_nat_Suc)
qed

theorem line_col_roundtrip_witness:
  "line_col_to_offset (''ab'' @ [newline] @ ''cd'') (li_line (locate (''ab'' @ [newline] @ ''cd'') 4))
     (li_col (locate (''ab'' @ [newline] @ ''cd'') 4)) = 4"
  by (rule line_col_roundtrip) simp_all

subsection \<open>Errors are reported\<close>

text \<open>
  Reading a manifest either succeeds and leaves the bag alone, or returns \<open>Fatal\<close> after
  reporting exactly one error, with a code of the manifest's range. In particular a caller
  that sees \<open>Fatal\<close> finds errors in the bag.
\<close>

theorem parse_manifest_reports:
  "(case fst (parse_manifest toml_parse bytes filename fid bag) of
      Inr m \<Rightarrow> snd (parse_manifest toml_parse bytes filename fid bag) = bag
    | Inl _ \<Rightarrow> (\<exists>d. entries (snd (parse_manifest toml_parse bytes filename fid bag)) = entries bag @ [d] \<and>
        is_error d \<and> diag_code d \<in> {kManifestSyntaxError, kManifestSemanticError}))"
  by (auto simp: parse_manifest_def semantic_error_def split: sum.split)

lemma then_read_ok: "then_read r f = Inr y \<longleftrightarrow> (\<exists>x. r = Inr x \<and> f x = Inr y)"
  by (simp add: then_read_def split: sum.split)

lemma read_all_ok:
  "read_all f xs = Inr ys \<longleftrightarrow> list_all2 (\<lambda>x y. f x = Inr y) xs ys"
proof (induction xs arbitrary: ys)
  case (Cons x xs)
  show ?case by (auto simp: list_all2_Cons1 Cons.IH [symmetric] split: sum.split)
qed auto

text \<open>What the dependency table of an accepted manifest looks like.\<close>

definition path_of_entry :: "toml \<Rightarrow> string option" where
  "path_of_entry node =
     (case node of TomlTable t \<Rightarrow> (case map_of t ''path'' of Some (TomlString s) \<Rightarrow> Some s | _ \<Rightarrow> None) | _ \<Rightarrow> None)"

lemma read_dependency_ok:
  "read_dependency (k, node) = Inr d \<longleftrightarrow>
     dep_name d = k \<and> path_of_entry node = Some (dep_path d) \<and> dep_path d \<noteq> []"
  by (cases d) (auto simp: read_dependency_def path_of_entry_def split: toml.split option.split)

text \<open>
  C31. An accepted manifest is what its file says: the name is non-empty, the version text
  parses to the version, and the dependencies are the entries of the dependency table, in
  order, each with the non-empty path of its table; without the table there are none.
\<close>

theorem parse_manifest_content:
  assumes "fst (parse_manifest toml_parse bytes filename fid bag) = Inr m"
  shows "\<exists>root pkg. toml_parse bytes filename = Inr root \<and> map_of root ''package'' = Some (TomlTable pkg) \<and>
    map_of pkg ''name'' = Some (TomlString (pkg_name m)) \<and> pkg_name m \<noteq> [] \<and>
    (\<exists>t. map_of pkg ''version'' = Some (TomlString t) \<and> parse_version t = Inr (pkg_version m)) \<and>
    (case map_of root ''dependencies'' of
       None \<Rightarrow> pkg_dependencies m = []
     | Some node \<Rightarrow> \<exists>t. node = TomlTable t \<and> list_all2 (\<lambda>(k, n) d. dep_name d = k \<and>
         path_of_entry n = Some (dep_path d) \<and> dep_path d \<noteq> []) t (pkg_dependencies m))"
proof -
  from assms obtain root where r: "toml_parse bytes filename = Inr root" "read_manifest root = Inr m"
    by (auto simp: parse_manifest_def split: sum.splits)
  then obtain pkg name v ed deps bins where
    p: "read_package root = Inr pkg" "read_name pkg = Inr name" "read_version pkg = Inr v"
      "read_dependencies root = Inr deps" and
    m: "m = \<lparr>pkg_name = name, pkg_version = v, pkg_edition = ed, pkg_dependencies = deps, pkg_bins = bins\<rparr>"
    by (auto simp: read_manifest_def then_read_ok)
  have "map_of root ''package'' = Some (TomlTable pkg)"
    using p(1) by (auto simp: read_package_def split: option.splits elim: toml_as_table.elims)
  moreover have "map_of pkg ''name'' = Some (TomlString name) \<and> name \<noteq> []"
    using p(2) by (auto simp: read_name_def split: option.splits if_splits elim: toml_string.elims)
  moreover have "\<exists>t. map_of pkg ''version'' = Some (TomlString t) \<and> parse_version t = Inr v"
    using p(3) by (auto simp: read_version_def split: option.splits sum.splits elim: toml_string.elims)
  moreover have "case map_of root ''dependencies'' of
       None \<Rightarrow> deps = []
     | Some node \<Rightarrow> \<exists>t. node = TomlTable t \<and> list_all2 (\<lambda>(k, n) d. dep_name d = k \<and>
         path_of_entry n = Some (dep_path d) \<and> dep_path d \<noteq> []) t deps"
    using p(4) by (auto simp: read_dependencies_def read_all_ok read_dependency_ok split_def
        split: option.splits elim: toml_as_table.elims elim!: list_all2_mono)
  ultimately show ?thesis using r(1) unfolding m package_manifest.simps by blast
qed

definition demo_toml :: toml_parser where
  "demo_toml bytes filename = Inr
     [(''dependencies'', TomlTable [(''lib'', TomlTable [(''path'', TomlString ''../lib'')])]),
      (''package'', TomlTable [(''name'', TomlString ''app''), (''version'', TomlString ''0.1.0'')])]"

lemma demo_version: "parse_version ''0.1.0'' = Inr \<lparr>major = 0, minor = 1, patch = 0\<rparr>"
  unfolding parse_version_iff
  by (intro exI [of _ "''0''"] exI [of _ "''1''"]) (simp add: denotes_def is_decimal_def digits_value_def)

lemma demo_manifest:
  "parse_manifest demo_toml bytes filename fid bag = (Inr
      \<lparr>pkg_name = ''app'', pkg_version = \<lparr>major = 0, minor = 1, patch = 0\<rparr>, pkg_edition = [],
       pkg_dependencies = [\<lparr>dep_name = ''lib'', dep_path = ''../lib''\<rparr>], pkg_bins = []\<rparr>, bag)"
  by (simp add: parse_manifest_def demo_toml_def read_manifest_def then_read_def read_package_def
      read_name_def read_version_def demo_version read_edition_def read_dependencies_def
      read_dependency_def read_bins_def)

theorem parse_manifest_content_witness:
  "\<exists>t. demo_toml [] ''alcy.toml'' = Inr t \<and> map_of t ''package'' \<noteq> None"
proof -
  have "fst (parse_manifest demo_toml [] ''alcy.toml'' 0 empty_bag) = Inr
      \<lparr>pkg_name = ''app'', pkg_version = \<lparr>major = 0, minor = 1, patch = 0\<rparr>, pkg_edition = [],
       pkg_dependencies = [\<lparr>dep_name = ''lib'', dep_path = ''../lib''\<rparr>], pkg_bins = []\<rparr>"
    by (simp add: demo_manifest)
  from parse_manifest_content [OF this] show ?thesis by auto
qed

end
