(* ===== verification/Pkg_Resolve.thy ===== *)
theory Pkg_Resolve
  imports Manifest Path
begin

text \<open>
  Dependency resolution (\<^verbatim>\<open>src/pkg/resolve.h\<close>, \<^verbatim>\<open>src/pkg/resolve.cc\<close>): a depth-first
  walk over path dependencies. The three mutable references of \<^verbatim>\<open>resolve_into\<close> (sources,
  bag, visited) are the record \<open>walk\<close>. The recursion follows the file system, so it carries
  fuel and \<open>None\<close> is running out of it; \<open>resolve_terminates\<close> bounds the fuel by the number of
  directories that can be reached.
\<close>

record resolved_package =
  res_manifest :: package_manifest
  res_dir :: path
  res_file :: file_id

record walk =
  wk_sources :: source_manager
  wk_bag :: diag_bag
  wk_visited :: "path list"

definition kResolveIoError :: u32 where "kResolveIoError = 2100"
definition kResolveCycleError :: u32 where "kResolveCycleError = 2101"

definition quoted :: "string \<Rightarrow> string \<Rightarrow> string" where
  "quoted text name = text @ '' '' @ [CHR 0x27] @ name @ [CHR 0x27]"

definition manifest_path :: "bool \<Rightarrow> path \<Rightarrow> string" where
  "manifest_path win dir = as_view (join win dir kManifestFileName)"

text \<open>The loop over the dependencies, appending each child's packages.\<close>

fun resolve_deps ::
  "(path \<Rightarrow> walk \<Rightarrow> (resolved_package list fallible \<times> walk) option) \<Rightarrow> path list \<Rightarrow>
     resolved_package list \<Rightarrow> walk \<Rightarrow> (resolved_package list fallible \<times> walk) option" where
  "resolve_deps r [] acc w = Some (Inr acc, w)"
| "resolve_deps r (d # ds) acc w =
     (case r d w of
        None \<Rightarrow> None
      | Some (Inl e, w') \<Rightarrow> Some (Inl Fatal, w')
      | Some (Inr ps, w') \<Rightarrow> resolve_deps r ds (acc @ ps) w')"

fun resolve_into ::
  "nat \<Rightarrow> 'h io \<Rightarrow> toml_parser \<Rightarrow> bool \<Rightarrow> path \<Rightarrow> walk \<Rightarrow>
     (resolved_package list fallible \<times> walk) option" where
  "resolve_into 0 fs tp win dir w = None"
| "resolve_into (Suc fuel) fs tp win dir w =
     (if dir \<in> set (wk_visited w) then
        Some (Inl Fatal, w\<lparr>wk_bag := emit SevError kResolveCycleError
          (quoted ''dependency cycle detected at'' (as_view dir)) (wk_bag w)\<rparr>)
      else
        (let w1 = w\<lparr>wk_visited := wk_visited w @ [dir]\<rparr>; mp = manifest_path win dir
         in case load fs (wk_sources w1) mp of
              (Inl e, sm) \<Rightarrow>
                Some (Inl Fatal, w1\<lparr>wk_sources := sm, wk_bag := emit SevError kResolveIoError
                  (quoted ''cannot read manifest'' mp) (wk_bag w1)\<rparr>)
            | (Inr fid, sm) \<Rightarrow>
                (case parse_manifest tp (bytes_of sm fid) mp fid (wk_bag w1) of
                   (Inl e, bag) \<Rightarrow> Some (Inl Fatal, w1\<lparr>wk_sources := sm, wk_bag := bag\<rparr>)
                 | (Inr m, bag) \<Rightarrow>
                     (case resolve_deps (resolve_into fuel fs tp win)
                             (map (\<lambda>d. join win dir (dep_path d)) (pkg_dependencies m))
                             [\<lparr>res_manifest = m, res_dir = dir, res_file = fid\<rparr>]
                             (w1\<lparr>wk_sources := sm, wk_bag := bag\<rparr>) of
                        None \<Rightarrow> None
                      | Some (Inl e, w2) \<Rightarrow> Some (Inl Fatal, w2)
                      | Some (Inr ps, w2) \<Rightarrow>
                          Some (Inr ps, w2\<lparr>wk_visited := butlast (wk_visited w2)\<rparr>)))))"

definition resolve_package ::
  "nat \<Rightarrow> 'h io \<Rightarrow> toml_parser \<Rightarrow> bool \<Rightarrow> string \<Rightarrow> source_manager \<Rightarrow> diag_bag \<Rightarrow>
     (resolved_package list fallible \<times> source_manager \<times> diag_bag) option" where
  "resolve_package fuel fs tp win dir sm bag =
     (case from_native win dir of
        Inl e \<Rightarrow> Some (Inl Fatal, sm,
          emit SevError kResolveIoError (quoted ''invalid package directory'' dir) bag)
      | Inr d \<Rightarrow>
          (case resolve_into fuel fs tp win d \<lparr>wk_sources = sm, wk_bag = bag, wk_visited = []\<rparr> of
             None \<Rightarrow> None
           | Some (r, w) \<Rightarrow> Some (r, wk_sources w, wk_bag w)))"

subsection \<open>Errors\<close>

text \<open>What a call does to the bag: nothing on success, one more error on failure.\<close>

definition reports :: "walk \<Rightarrow> 'a fallible \<Rightarrow> walk \<Rightarrow> bool" where
  "reports w r w' \<longleftrightarrow>
     (case r of
        Inr _ \<Rightarrow> wk_bag w' = wk_bag w
      | Inl _ \<Rightarrow> (\<exists>d. entries (wk_bag w') = entries (wk_bag w) @ [d] \<and> is_error d))"

lemma parse_manifest_bag:
  "parse_manifest tp bytes f fid bag = (Inr m, bag') \<Longrightarrow> bag' = bag"
  "parse_manifest tp bytes f fid bag = (Inl e, bag') \<Longrightarrow> \<exists>d. entries bag' = entries bag @ [d] \<and> is_error d"
  by (auto simp: parse_manifest_def semantic_error_def split: sum.splits)

lemma resolve_deps_reports:
  assumes "\<And>d w res w'. r d w = Some (res, w') \<Longrightarrow> reports w res w'"
  shows "resolve_deps r ds acc w = Some (res, w') \<Longrightarrow> reports w res w'"
proof (induction ds arbitrary: acc w)
  case Nil
  then show ?case by (auto simp: reports_def)
next
  case (Cons d ds)
  then obtain x w1 where x: "r d w = Some (x, w1)" by (auto split: option.splits)
  from assms [OF x] have rp: "reports w x w1" .
  show ?case
  proof (cases x)
    case (Inl e)
    then show ?thesis using Cons.prems x rp by (auto simp: reports_def)
  next
    case (Inr ps)
    then have "resolve_deps r ds (acc @ ps) w1 = Some (res, w')" using Cons.prems x by simp
    from Cons.IH [OF this] show ?thesis using rp Inr by (auto simp: reports_def split: sum.splits)
  qed
qed

text \<open>The three ways a call that returns can go on after the cycle check.\<close>

lemma resolve_into_cases:
  assumes "resolve_into (Suc n) fs tp win d w = Some (res, w')"
  obtains (cycle) "d \<in> set (wk_visited w)" "res = Inl Fatal"
      "w' = w\<lparr>wk_bag := emit SevError kResolveCycleError (quoted ''dependency cycle detected at'' (as_view d)) (wk_bag w)\<rparr>"
    | (unreadable) e sm where "d \<notin> set (wk_visited w)" "load fs (wk_sources w) (manifest_path win d) = (Inl e, sm)"
      "res = Inl Fatal" "wk_bag w' = emit SevError kResolveIoError (quoted ''cannot read manifest'' (manifest_path win d)) (wk_bag w)"
      "wk_sources w' = sm"
    | (bad) fid sm e bag where "d \<notin> set (wk_visited w)" "load fs (wk_sources w) (manifest_path win d) = (Inr fid, sm)"
      "parse_manifest tp (bytes_of sm fid) (manifest_path win d) fid (wk_bag w) = (Inl e, bag)"
      "res = Inl Fatal" "wk_bag w' = bag" "wk_sources w' = sm"
    | (walked) fid sm m res2 w2 where "d \<notin> set (wk_visited w)" "load fs (wk_sources w) (manifest_path win d) = (Inr fid, sm)"
      "parse_manifest tp (bytes_of sm fid) (manifest_path win d) fid (wk_bag w) = (Inr m, wk_bag w)"
      "resolve_deps (resolve_into n fs tp win) (map (\<lambda>d'. join win d (dep_path d')) (pkg_dependencies m))
         [\<lparr>res_manifest = m, res_dir = d, res_file = fid\<rparr>]
         \<lparr>wk_sources = sm, wk_bag = wk_bag w, wk_visited = wk_visited w @ [d]\<rparr> = Some (res2, w2)"
      "(case res2 of Inl _ \<Rightarrow> res = Inl Fatal \<and> w' = w2
        | Inr ps \<Rightarrow> res = Inr ps \<and> w' = w2\<lparr>wk_visited := butlast (wk_visited w2)\<rparr>)"
proof (cases "d \<in> set (wk_visited w)")
  case True
  then show ?thesis using assms cycle by simp
next
  case False
  obtain l sm where l: "load fs (wk_sources w) (manifest_path win d) = (l, sm)" by force
  show ?thesis
  proof (cases l)
    case (Inl e)
    then show ?thesis using assms False l unreadable by (auto simp: Let_def)
  next
    case (Inr fid)
    obtain p bag where p: "parse_manifest tp (bytes_of sm fid) (manifest_path win d) fid (wk_bag w) = (p, bag)" by force
    show ?thesis
    proof (cases p)
      case (Inl e)
      then show ?thesis using assms False l \<open>l = Inr fid\<close> p bad by (auto simp: Let_def)
    next
      case pm: (Inr m)
      with p have b: "bag = wk_bag w" using parse_manifest_bag(1) by blast
      have w1: "w\<lparr>wk_visited := wk_visited w @ [d], wk_sources := sm, wk_bag := wk_bag w\<rparr> =
          \<lparr>wk_sources = sm, wk_bag = wk_bag w, wk_visited = wk_visited w @ [d]\<rparr>" by simp
      from assms False l \<open>l = Inr fid\<close> p pm b obtain res2 w2 where
        dd: "resolve_deps (resolve_into n fs tp win) (map (\<lambda>d'. join win d (dep_path d')) (pkg_dependencies m))
         [\<lparr>res_manifest = m, res_dir = d, res_file = fid\<rparr>]
         \<lparr>wk_sources = sm, wk_bag = wk_bag w, wk_visited = wk_visited w @ [d]\<rparr> = Some (res2, w2)"
        by (auto simp: Let_def w1 split: option.splits)
      show ?thesis
        by (rule walked [OF False l [unfolded \<open>l = Inr fid\<close>] p [unfolded pm b] dd])
           (use assms False l \<open>l = Inr fid\<close> p pm b dd in \<open>auto simp: Let_def w1 split: sum.splits\<close>)
    qed
  qed
qed

lemma resolve_into_reports: "resolve_into n fs tp win d w = Some (res, w') \<Longrightarrow> reports w res w'"
proof (induction n arbitrary: d w res w')
  case (Suc n)
  from Suc.prems show ?case
  proof (cases rule: resolve_into_cases)
    case cycle
    then show ?thesis by (simp add: reports_def)
  next
    case unreadable
    then show ?thesis by (simp add: reports_def)
  next
    case bad
    then show ?thesis using parse_manifest_bag(2) [OF bad(3)] by (simp add: reports_def)
  next
    case walked
    from resolve_deps_reports [OF Suc.IH walked(4)] walked(5)
    show ?thesis by (auto simp: reports_def split: sum.splits)
  qed
qed simp

subsection \<open>Success: a dependency tree\<close>

datatype dep_tree = Dep resolved_package "dep_tree list"

fun tree_package :: "dep_tree \<Rightarrow> resolved_package" where
  "tree_package (Dep p ts) = p"

fun preorder :: "dep_tree \<Rightarrow> resolved_package list" where
  "preorder (Dep p ts) = p # concat (map preorder ts)"

text \<open>The manifest of a package is what its registered bytes parse to.\<close>

definition package_ok :: "toml_parser \<Rightarrow> bool \<Rightarrow> source_manager \<Rightarrow> resolved_package \<Rightarrow> bool" where
  "package_ok tp win sm p \<longleftrightarrow>
     unat (res_file p) < length sm \<and> name_of sm (res_file p) = manifest_path win (res_dir p) \<and>
     fst (parse_manifest tp (bytes_of sm (res_file p)) (manifest_path win (res_dir p)) (res_file p) empty_bag) =
       Inr (res_manifest p)"

definition child_dirs :: "bool \<Rightarrow> resolved_package \<Rightarrow> path list" where
  "child_dirs win p = map (\<lambda>d. join win (res_dir p) (dep_path d)) (pkg_dependencies (res_manifest p))"

fun tree_ok :: "toml_parser \<Rightarrow> bool \<Rightarrow> source_manager \<Rightarrow> path list \<Rightarrow> dep_tree \<Rightarrow> bool" where
  "tree_ok tp win sm anc (Dep p ts) \<longleftrightarrow>
     package_ok tp win sm p \<and> res_dir p \<notin> set anc \<and>
     map (\<lambda>t. res_dir (tree_package t)) ts = child_dirs win p \<and>
     (\<forall>t \<in> set ts. tree_ok tp win sm (anc @ [res_dir p]) t)"

lemma registered_grows:
  "unat f < length sm \<Longrightarrow> name_of (sm @ es) f = name_of sm f \<and> bytes_of (sm @ es) f = bytes_of sm f"
  by (simp add: name_of_def bytes_of_def nth_append)

lemma package_ok_grows: "package_ok tp win sm p \<Longrightarrow> package_ok tp win (sm @ es) p"
  using registered_grows [of "res_file p" sm es] by (simp add: package_ok_def)

lemma tree_ok_grows: "tree_ok tp win sm anc t \<Longrightarrow> tree_ok tp win (sm @ es) anc t"
  by (induction tp win sm anc t rule: tree_ok.induct) (auto intro: package_ok_grows)

lemma parse_manifest_bag_free:
  "fst (parse_manifest tp bytes f fid bag) = fst (parse_manifest tp bytes f fid bag')"
  by (simp add: parse_manifest_def split: sum.split)

text \<open>What a successful call leaves behind.\<close>

definition walks :: "toml_parser \<Rightarrow> bool \<Rightarrow> path list \<Rightarrow> walk \<Rightarrow> resolved_package list \<Rightarrow> walk \<Rightarrow> bool" where
  "walks tp win ds w ps w' \<longleftrightarrow>
     sm_inv (wk_sources w') \<and> (\<exists>es. wk_sources w' = wk_sources w @ es) \<and>
     wk_visited w' = wk_visited w \<and> wk_bag w' = wk_bag w \<and>
     (\<exists>ts. ps = concat (map preorder ts) \<and> map (\<lambda>t. res_dir (tree_package t)) ts = ds \<and>
        (\<forall>t \<in> set ts. tree_ok tp win (wk_sources w') (wk_visited w) t))"

lemma walks_nil: "sm_inv (wk_sources w) \<Longrightarrow> walks tp win [] w [] w"
  by (simp add: walks_def)

lemma walks_append:
  assumes "walks tp win ds w ps w1" and "walks tp win ds' w1 ps' w2"
  shows "walks tp win (ds @ ds') w (ps @ ps') w2"
proof -
  from assms obtain ts ts' where
    t: "ps = concat (map preorder ts)" "map (\<lambda>t. res_dir (tree_package t)) ts = ds"
      "\<forall>t \<in> set ts. tree_ok tp win (wk_sources w1) (wk_visited w) t" and
    t': "ps' = concat (map preorder ts')" "map (\<lambda>t. res_dir (tree_package t)) ts' = ds'"
      "\<forall>t \<in> set ts'. tree_ok tp win (wk_sources w2) (wk_visited w1) t"
    by (auto simp: walks_def)
  moreover obtain es where "wk_sources w2 = wk_sources w1 @ es" using assms(2) by (auto simp: walks_def)
  ultimately show ?thesis using assms unfolding walks_def
    by (intro conjI exI [of _ "ts @ ts'"]) (auto intro: tree_ok_grows)
qed

lemma resolve_deps_walks:
  assumes r: "\<And>d w ps w'. r d w = Some (Inr ps, w') \<Longrightarrow> sm_inv (wk_sources w) \<Longrightarrow>
      length (wk_sources w') < 2 ^ 32 - 1 \<Longrightarrow> walks tp win [d] w ps w'"
    and len: "\<And>d w res w'. r d w = Some (res, w') \<Longrightarrow> length (wk_sources w) \<le> length (wk_sources w')"
  shows "resolve_deps r ds acc w = Some (Inr ps, w') \<Longrightarrow> sm_inv (wk_sources w) \<Longrightarrow>
    length (wk_sources w') < 2 ^ 32 - 1 \<Longrightarrow> \<exists>qs. ps = acc @ qs \<and> walks tp win ds w qs w'"
proof (induction ds arbitrary: acc w)
  case Nil
  then show ?case by (auto intro: walks_nil)
next
  case (Cons d ds)
  then obtain q w1 where q: "r d w = Some (Inr q, w1)" "resolve_deps r ds (acc @ q) w1 = Some (Inr ps, w')"
    by (auto split: option.splits sum.splits)
  have le: "length (wk_sources w1) \<le> length (wk_sources w')"
    using q(2)
  proof (induction ds arbitrary: q w1)
    case (Cons d ds)
    then show ?case by (force split: option.splits sum.splits dest: len intro: le_trans)
  qed simp
  then have w1: "walks tp win [d] w q w1" using r [OF q(1) Cons.prems(2)] Cons.prems(3) by simp
  then have "sm_inv (wk_sources w1)" by (simp add: walks_def)
  from Cons.IH [OF q(2) this Cons.prems(3)] obtain qs where
    "ps = (acc @ q) @ qs" "walks tp win ds w1 qs w'" by blast
  then show ?case using walks_append [OF w1] by (intro exI [of _ "q @ qs"]) simp
qed

lemma load_length: "load fs sm path = (r, sm') \<Longrightarrow> length sm \<le> length sm'"
  by (auto simp: load_def Let_def split: option.splits if_splits)

lemma resolve_deps_length:
  assumes "\<And>d w res w'. r d w = Some (res, w') \<Longrightarrow> length (wk_sources w) \<le> length (wk_sources w')"
  shows "resolve_deps r ds acc w = Some (res, w') \<Longrightarrow> length (wk_sources w) \<le> length (wk_sources w')"
proof (induction ds arbitrary: acc w)
  case (Cons d ds)
  then show ?case by (force split: option.splits sum.splits dest: assms intro: le_trans)
qed simp

lemma resolve_into_length:
  "resolve_into n fs tp win d w = Some (res, w') \<Longrightarrow> length (wk_sources w) \<le> length (wk_sources w')"
proof (induction n arbitrary: d w res w')
  case (Suc n)
  from Suc.prems show ?case
  proof (cases rule: resolve_into_cases)
    case (walked fid sm m res2 w2)
    have "length sm \<le> length (wk_sources w2)"
      using resolve_deps_length [OF Suc.IH walked(4)] by simp
    then show ?thesis using load_length [OF walked(2)] walked(5) by (auto split: sum.splits)
  qed (auto dest: load_length)
qed simp

lemma resolve_into_walks:
  "resolve_into n fs tp win d w = Some (Inr ps, w') \<Longrightarrow> sm_inv (wk_sources w) \<Longrightarrow>
     length (wk_sources w') < 2 ^ 32 - 1 \<Longrightarrow> walks tp win [d] w ps w'"
proof (induction n arbitrary: d w ps w')
  case (Suc n)
  from Suc.prems(1) show ?case
  proof (cases rule: resolve_into_cases)
    case (walked fid sm m res2 w2)
    let ?p = "\<lparr>res_manifest = m, res_dir = d, res_file = fid\<rparr>"
    let ?w1 = "\<lparr>wk_sources = sm, wk_bag = wk_bag w, wk_visited = wk_visited w @ [d]\<rparr>"
    from walked(5) have r2: "res2 = Inr ps" "w' = w2\<lparr>wk_visited := butlast (wk_visited w2)\<rparr>"
      by (auto split: sum.splits)
    note dd = walked(4) [unfolded r2(1)]
    have lsm: "length sm \<le> length (wk_sources w2)"
      using resolve_deps_length [OF resolve_into_length dd] by simp
    have cap: "length (wk_sources w) < 2 ^ 32 - 1"
      using load_length [OF walked(2)] lsm r2(2) Suc.prems(3) by simp
    from load_ok [OF Suc.prems(2) walked(2) cap] load_ext [OF Suc.prems(2) walked(2)] obtain es where
      sm: "sm_inv sm" "name_of sm fid = manifest_path win d" "unat fid < length sm" "sm = wk_sources w @ es"
      by auto
    have "\<exists>qs. ps = [?p] @ qs \<and>
        walks tp win (map (\<lambda>d'. join win d (dep_path d')) (pkg_dependencies m)) ?w1 qs w2"
      using Suc.prems(3) r2(2) sm(1)
      by (intro resolve_deps_walks [OF Suc.IH resolve_into_length dd]) auto
    then obtain qs where qs: "ps = ?p # qs"
        "walks tp win (map (\<lambda>d'. join win d (dep_path d')) (pkg_dependencies m)) ?w1 qs w2" by auto
    then obtain ts es2 where ts: "qs = concat (map preorder ts)"
        "map (\<lambda>t. res_dir (tree_package t)) ts = child_dirs win ?p"
        "\<forall>t \<in> set ts. tree_ok tp win (wk_sources w2) (wk_visited w @ [d]) t"
        "wk_sources w2 = sm @ es2" and
      w2: "sm_inv (wk_sources w2)" "wk_visited w2 = wk_visited w @ [d]" "wk_bag w2 = wk_bag w"
      by (auto simp: walks_def child_dirs_def)
    have "package_ok tp win sm ?p"
      using sm(2,3) walked(3) parse_manifest_bag_free [of tp "bytes_of sm fid" "manifest_path win d" fid "wk_bag w" empty_bag]
      by (simp add: package_ok_def)
    then have "package_ok tp win (wk_sources w2) ?p" unfolding ts(4) by (rule package_ok_grows)
    then have "tree_ok tp win (wk_sources w2) (wk_visited w) (Dep ?p ts)"
      using ts walked(1) by simp
    then show ?thesis unfolding walks_def r2(2)
      using w2 sm(4) ts(1,4) qs(1)
      by (intro conjI exI [of _ "[Dep ?p ts]"]) auto
  qed simp_all
qed simp

subsection \<open>Enough fuel\<close>

text \<open>
  The content that the file system has for a path, and the registries that agree with it:
  every entry holds what loading its path would read.
\<close>

definition file_content :: "'h io \<Rightarrow> string \<Rightarrow> string option" where
  "file_content fs path =
     (case io_open fs path of
        None \<Rightarrow> None
      | Some h \<Rightarrow> if io_size fs h > 0 then io_map fs h (io_size fs h) else Some [])"

definition entry_content :: "entry \<Rightarrow> string" where
  "entry_content e = (case mapping e of None \<Rightarrow> [] | Some b \<Rightarrow> b)"

definition agrees :: "'h io \<Rightarrow> source_manager \<Rightarrow> bool" where
  "agrees fs sm \<longleftrightarrow> (\<forall>e \<in> set sm. file_content fs (entry_path e) = Some (entry_content e))"

text \<open>The directories that the manifest in a directory depends on.\<close>

definition dir_deps :: "'h io \<Rightarrow> toml_parser \<Rightarrow> bool \<Rightarrow> path \<Rightarrow> path list" where
  "dir_deps fs tp win d =
     (case file_content fs (manifest_path win d) of
        None \<Rightarrow> []
      | Some bytes \<Rightarrow>
          (case fst (parse_manifest tp bytes (manifest_path win d) 0 empty_bag) of
             Inl _ \<Rightarrow> []
           | Inr m \<Rightarrow> map (\<lambda>d'. join win d (dep_path d')) (pkg_dependencies m)))"

lemma load_appends:
  assumes "load fs sm path = (r, sm')"
  shows "sm' = sm \<or>
    (\<exists>e. sm' = sm @ [e] \<and> entry_path e = path \<and> file_content fs path = Some (entry_content e))"
  using assms
  by (auto simp: load_def file_content_def entry_content_def Let_def split: option.splits if_splits)

text \<open>
  A registry that a resolution can use: it agrees with the file system and registers paths of
  a set small enough for 32-bit ids only.
\<close>

definition steady :: "'h io \<Rightarrow> string set \<Rightarrow> source_manager \<Rightarrow> bool" where
  "steady fs P sm \<longleftrightarrow> finite P \<and> card P < 2 ^ 32 - 1 \<and> sm_inv sm \<and> agrees fs sm \<and>
     entry_path ` set sm \<subseteq> P"

lemma steady_length: "steady fs P sm \<Longrightarrow> length sm < 2 ^ 32 - 1"
proof -
  assume st: "steady fs P sm"
  then have "length sm = card (entry_path ` set sm)"
    by (simp add: steady_def sm_inv_def distinct_card [of "map entry_path sm", simplified])
  also have "\<dots> \<le> card P" using st by (simp add: steady_def card_mono)
  finally show ?thesis using st by (simp add: steady_def)
qed

lemma steady_load:
  assumes st: "steady fs P sm" and "path \<in> P" and l: "load fs sm path = (r, sm')"
  shows "steady fs P sm' \<and> (\<forall>fid. r = Inr fid \<longrightarrow> file_content fs path = Some (bytes_of sm' fid))"
proof -
  have sm: "sm_inv sm" "length sm < 2 ^ 32 - 1" using st steady_length by (auto simp: steady_def)
  have inv: "sm_inv sm'"
    using load_cases [OF sm(1) l] sm by (auto simp: sm_inv_def)
  have ag: "agrees fs sm'" and sub: "entry_path ` set sm' \<subseteq> P"
    using load_appends [OF l] st assms(2) by (auto simp: agrees_def steady_def image_subset_iff)
  have "file_content fs path = Some (bytes_of sm' fid)" if "r = Inr fid" for fid
  proof -
    from load_ok [OF sm(1) l [unfolded that] sm(2)]
    have f: "name_of sm' fid = path" "unat fid < length sm'" by auto
    then have "sm' ! unat fid \<in> set sm'" "entry_path (sm' ! unat fid) = path"
      by (simp_all add: name_of_def)
    then show ?thesis using ag f(2) by (auto simp: agrees_def bytes_of_def entry_content_def)
  qed
  with inv ag sub st show ?thesis by (simp add: steady_def)
qed

lemma resolve_deps_total:
  assumes "\<And>d w. d \<in> set ds \<Longrightarrow> steady fs P (wk_sources w) \<Longrightarrow> wk_visited w = V \<Longrightarrow>
      \<exists>res w'. r d w = Some (res, w') \<and> steady fs P (wk_sources w') \<and> (\<forall>ps. res = Inr ps \<longrightarrow> wk_visited w' = V)"
    and "steady fs P (wk_sources w)" and "wk_visited w = V"
  shows "\<exists>res w'. resolve_deps r ds acc w = Some (res, w') \<and> steady fs P (wk_sources w') \<and>
    (\<forall>ps. res = Inr ps \<longrightarrow> wk_visited w' = V)"
  using assms
proof (induction ds arbitrary: acc w)
  case (Cons d ds)
  from Cons.prems(1) [of d w] Cons.prems(2,3) obtain res w1 where
    r: "r d w = Some (res, w1)" "steady fs P (wk_sources w1)" "\<forall>ps. res = Inr ps \<longrightarrow> wk_visited w1 = V" by auto
  show ?case
  proof (cases res)
    case (Inl e)
    then show ?thesis using r by simp
  next
    case (Inr ps)
    from Cons.IH [of w1 "acc @ ps"] Cons.prems(1) r Inr show ?thesis by simp
  qed
qed simp

lemma resolve_into_total:
  assumes D: "finite D" "\<forall>d \<in> D. set (dir_deps fs tp win d) \<subseteq> D" "manifest_path win ` D \<subseteq> P"
  shows "card (D - set (wk_visited w)) < n \<Longrightarrow> d \<in> D \<Longrightarrow> steady fs P (wk_sources w) \<Longrightarrow>
    \<exists>res w'. resolve_into n fs tp win d w = Some (res, w') \<and> steady fs P (wk_sources w') \<and>
      (\<forall>ps. res = Inr ps \<longrightarrow> wk_visited w' = wk_visited w)"
proof (induction n arbitrary: d w)
  case (Suc n)
  show ?case
  proof (cases "d \<in> set (wk_visited w)")
    case True
    then show ?thesis using Suc.prems(3) by simp
  next
    case False
    obtain l sm where l: "load fs (wk_sources w) (manifest_path win d) = (l, sm)" by force
    have st: "steady fs P sm" and
      content: "\<And>fid. l = Inr fid \<Longrightarrow> file_content fs (manifest_path win d) = Some (bytes_of sm fid)"
      using steady_load [OF Suc.prems(3) _ l] D(3) Suc.prems(2) by auto
    show ?thesis
    proof (cases l)
      case (Inl e)
      then show ?thesis using False l st by (simp add: Let_def)
    next
      case (Inr fid)
      obtain p bag where p: "parse_manifest tp (bytes_of sm fid) (manifest_path win d) fid (wk_bag w) = (p, bag)"
        by force
      show ?thesis
      proof (cases p)
        case (Inl e)
        then show ?thesis using False l \<open>l = Inr fid\<close> p st by (simp add: Let_def)
      next
        case pm: (Inr m)
        let ?ds = "map (\<lambda>d'. join win d (dep_path d')) (pkg_dependencies m)"
        let ?w1 = "w\<lparr>wk_visited := wk_visited w @ [d], wk_sources := sm, wk_bag := bag\<rparr>"
        have "fst (parse_manifest tp (bytes_of sm fid) (manifest_path win d) 0 empty_bag) = Inr m"
        proof -
          have "fst (parse_manifest tp b f x y) = fst (parse_manifest tp b f x' y')" for b f x y x' y'
            by (simp add: parse_manifest_def split: sum.split)
          from this [of "bytes_of sm fid" "manifest_path win d" 0 empty_bag fid "wk_bag w"] show ?thesis
            using p pm by simp
        qed
        then have "dir_deps fs tp win d = ?ds" using content [OF Inr] by (simp add: dir_deps_def)
        then have sub: "set ?ds \<subseteq> D" using D(2) Suc.prems(2) by metis
        have "D - set (wk_visited w @ [d]) = (D - set (wk_visited w)) - {d}" by auto
        then have lt: "card (D - set (wk_visited w @ [d])) < n"
          using Suc.prems(1,2) False D(1) card_Diff1_less [of "D - set (wk_visited w)" d] by simp
        have "\<exists>res w'. resolve_deps (resolve_into n fs tp win) ?ds
            [\<lparr>res_manifest = m, res_dir = d, res_file = fid\<rparr>] ?w1 = Some (res, w') \<and>
            steady fs P (wk_sources w') \<and> (\<forall>ps. res = Inr ps \<longrightarrow> wk_visited w' = wk_visited w @ [d])"
        proof (rule resolve_deps_total)
          fix d' and w2 :: walk assume "d' \<in> set ?ds" "steady fs P (wk_sources w2)" "wk_visited w2 = wk_visited w @ [d]"
          then show "\<exists>res w'. resolve_into n fs tp win d' w2 = Some (res, w') \<and> steady fs P (wk_sources w') \<and>
              (\<forall>ps. res = Inr ps \<longrightarrow> wk_visited w' = wk_visited w @ [d])"
            using Suc.IH [of w2 d'] lt sub by auto
        qed (use st in simp_all)
        then show ?thesis using False l Inr p pm by (auto simp: Let_def split: sum.split)
      qed
    qed
  qed
qed simp

text \<open>
  C15. A resolution that succeeds returns, in depth-first order, the packages of a dependency
  tree: the root is the package directory, the children of a package are exactly the
  directories its manifest names, in its order, every manifest is what the registered file of
  that directory parses to, and no directory is below itself. The bag is unchanged.
\<close>

theorem resolve_package_spec:
  assumes "resolve_package fuel fs tp win dir sm bag = Some (Inr ps, sm', bag')"
    and "sm_inv sm" and "length sm' < 2 ^ 32 - 1"
  shows "\<exists>d t. from_native win dir = Inr d \<and> ps = preorder t \<and> res_dir (tree_package t) = d \<and>
    tree_ok tp win sm' [] t \<and> bag' = bag"
proof -
  from assms(1) obtain d w where d: "from_native win dir = Inr d"
    and w: "resolve_into fuel fs tp win d \<lparr>wk_sources = sm, wk_bag = bag, wk_visited = []\<rparr> = Some (Inr ps, w)"
      "sm' = wk_sources w" "bag' = wk_bag w"
    by (auto simp: resolve_package_def split: sum.splits option.splits)
  have "walks tp win [d] \<lparr>wk_sources = sm, wk_bag = bag, wk_visited = []\<rparr> ps w"
    using resolve_into_walks [OF w(1)] assms(2,3) w(2) by simp
  then have b: "wk_bag w = bag" and "\<exists>ts. ps = concat (map preorder ts) \<and>
      map (\<lambda>t. res_dir (tree_package t)) ts = [d] \<and> (\<forall>t \<in> set ts. tree_ok tp win (wk_sources w) [] t)"
    unfolding walks_def by simp_all
  then obtain ts where ts: "ps = concat (map preorder ts)" "map (\<lambda>t. res_dir (tree_package t)) ts = [d]"
      "\<forall>t \<in> set ts. tree_ok tp win (wk_sources w) [] t" by (elim exE conjE)
  from ts(2) obtain t where "ts = [t]" "res_dir (tree_package t) = d" by auto
  with d ts b w show ?thesis by (intro exI [of _ d] exI [of _ t]) simp
qed

lemma demo_normal: "normalize_canonical ''p'' = ''p''" "normalize_canonical ''p/alcy.toml'' = ''p/alcy.toml''"
  by code_simp+

definition leaf_toml :: toml_parser where
  "leaf_toml bytes filename = Inr
     [(''package'', TomlTable [(''name'', TomlString ''app''), (''version'', TomlString ''0.1.0'')])]"

definition leaf_io :: "string io" where
  "leaf_io = \<lparr>io_open = (\<lambda>p. Some []), io_size = length, io_map = (\<lambda>h n. None)\<rparr>"

definition leaf_manifest :: package_manifest where
  "leaf_manifest = \<lparr>pkg_name = ''app'', pkg_version = \<lparr>major = 0, minor = 1, patch = 0\<rparr>, pkg_edition = [],
     pkg_dependencies = [], pkg_bins = []\<rparr>"

lemma leaf_parse: "parse_manifest leaf_toml bytes f fid bag = (Inr leaf_manifest, bag)"
  by (simp add: parse_manifest_def leaf_toml_def read_manifest_def then_read_def read_package_def
      read_name_def read_version_def demo_version read_edition_def read_dependencies_def
      read_bins_def leaf_manifest_def)

lemma leaf_resolve:
  "resolve_package 2 leaf_io leaf_toml False ''p'' [] empty_bag =
     Some (Inr [\<lparr>res_manifest = leaf_manifest, res_dir = Path ''p'', res_file = 0\<rparr>],
       [\<lparr>mapping = None, entry_path = ''p/alcy.toml''\<rparr>], empty_bag)"
  by (simp add: resolve_package_def from_native_def demo_normal numeral_2_eq_2 Let_def load_def leaf_io_def
      manifest_path_def join_def kManifestFileName_def kDefaultPathSeparator_def leaf_parse)
    (simp add: leaf_manifest_def)

theorem resolve_package_spec_witness:
  "\<exists>t. [\<lparr>res_manifest = leaf_manifest, res_dir = Path ''p'', res_file = 0\<rparr>] = preorder t \<and>
     tree_ok leaf_toml False [\<lparr>mapping = None, entry_path = ''p/alcy.toml''\<rparr>] [] t"
  using resolve_package_spec [OF leaf_resolve] by (auto simp: sm_inv_def)

text \<open>
  A resolution that fails has said why: \<open>Fatal\<close> comes with exactly one more diagnostic in
  the bag, an error, whether the directory was invalid, a manifest unreadable or malformed, or
  a directory its own dependency.
\<close>

theorem resolve_package_reports:
  assumes "resolve_package fuel fs tp win dir sm bag = Some (Inl Fatal, sm', bag')"
  shows "\<exists>d. entries bag' = entries bag @ [d] \<and> is_error d"
  using assms
  by (auto simp: resolve_package_def reports_def split: sum.splits option.splits
      dest!: resolve_into_reports)

theorem resolve_package_reports_witness:
  "\<exists>d. entries (emit SevError kResolveIoError (quoted ''invalid package directory'' [CHR 0x00]) empty_bag)
     = entries empty_bag @ [d] \<and> is_error d"
proof (rule resolve_package_reports)
  show "resolve_package 1 leaf_io leaf_toml False [CHR 0x00] [] empty_bag =
      Some (Inl Fatal, [], emit SevError kResolveIoError (quoted ''invalid package directory'' [CHR 0x00]) empty_bag)"
    by (simp add: resolve_package_def from_native_def)
qed

text \<open>
  C18. Resolution terminates wherever finitely many directories can be reached: one more unit
  of fuel than there are directories is enough, however the dependencies are linked, cycles
  included, since a directory is never entered below itself. The sources must agree with the
  file system and need room for one id per manifest.
\<close>

theorem resolve_terminates:
  assumes "finite D" and "\<forall>d \<in> D. set (dir_deps fs tp win d) \<subseteq> D"
    and "from_native win dir = Inr d" and "d \<in> D" and "sm_inv sm" and "agrees fs sm"
    and "length sm + card D < 2 ^ 32 - 1" and "card D < fuel"
  shows "\<exists>r. resolve_package fuel fs tp win dir sm bag = Some r"
proof -
  let ?P = "entry_path ` set sm \<union> manifest_path win ` D"
  have "card ?P \<le> length sm + card D"
  proof -
    have "card (entry_path ` set sm) \<le> length sm"
      by (metis card_length image_set length_map)
    moreover have "card (manifest_path win ` D) \<le> card D" by (rule card_image_le [OF assms(1)])
    ultimately show ?thesis using card_Un_le [of "entry_path ` set sm" "manifest_path win ` D"] by linarith
  qed
  then have st: "steady fs ?P sm" using assms by (simp add: steady_def)
  have "card (D - set (wk_visited \<lparr>wk_sources = sm, wk_bag = bag, wk_visited = []\<rparr>)) < fuel" using assms(8) by simp
  from resolve_into_total [OF assms(1,2), of ?P "\<lparr>wk_sources = sm, wk_bag = bag, wk_visited = []\<rparr>" fuel d, OF _ this assms(4)] st
  show ?thesis using assms(3) by (auto simp: resolve_package_def)
qed

theorem resolve_terminates_witness:
  "\<exists>r. resolve_package 2 leaf_io leaf_toml False ''p'' [] empty_bag = Some r"
proof (rule resolve_terminates [where D = "{Path ''p''}" and d = "Path ''p''"])
  show "\<forall>d \<in> {Path ''p''}. set (dir_deps leaf_io leaf_toml False d) \<subseteq> {Path ''p''}"
    by (simp add: dir_deps_def leaf_parse leaf_manifest_def split: option.split)
  show "from_native False ''p'' = Inr (Path ''p'')"
    by (simp add: from_native_def demo_normal)
qed (simp_all add: sm_inv_def agrees_def)

end
