(* ===== verification/Lock.thy ===== *)
theory Lock
  imports Pkg_Resolve
begin

text \<open>
  Lockfiles (\<^verbatim>\<open>src/pkg/lock.h\<close>, \<^verbatim>\<open>src/pkg/lock.cc\<close>): freezing resolved packages and writing
  them as TOML. The buffer is the returned string. A byte is escaped when the signed C++
  comparison puts it between 0 and 31, that is when its value is below 32.
\<close>

subsection \<open>Escaping\<close>

definition kHex :: string where "kHex = ''0123456789abcdef''"

definition backslash :: char where "backslash = CHR 0x5C"
definition dquote :: char where "dquote = CHR 0x22"

definition escape_char :: "char \<Rightarrow> string" where
  "escape_char c =
     (if c = dquote then [backslash, dquote]
      else if c = backslash then [backslash, backslash]
      else if (of_char c :: nat) < 32 then
        [backslash] @ ''u00'' @ [kHex ! (of_char c div 16), kHex ! (of_char c mod 16)]
      else [c])"

definition write_escaped :: "string \<Rightarrow> string" where
  "write_escaped s = concat (map escape_char s)"

subsection \<open>The lockfile\<close>

record locked_package =
  locked_name :: string
  locked_version :: version
  locked_source :: string

definition lock_resolved :: "resolved_package list \<Rightarrow> locked_package list" where
  "lock_resolved resolved =
     map (\<lambda>p. \<lparr>locked_name = pkg_name (res_manifest p), locked_version = pkg_version (res_manifest p),
               locked_source = ''path+file://'' @ as_view (res_dir p)\<rparr>) resolved"

definition show_version :: "version \<Rightarrow> string" where
  "show_version v = dec32 (major v) @ ''.'' @ dec32 (minor v) @ ''.'' @ dec32 (patch v)"

definition write_package :: "locked_package \<Rightarrow> string" where
  "write_package p =
     [newline] @ ''[[package]]'' @ [newline] @ ''name = '' @ [dquote] @ write_escaped (locked_name p) @
     [dquote, newline] @ ''version = '' @ [dquote] @ show_version (locked_version p) @
     [dquote, newline] @ ''source = '' @ [dquote] @ write_escaped (locked_source p) @ [dquote, newline]"

definition serialize_lockfile :: "locked_package list \<Rightarrow> string" where
  "serialize_lockfile packages =
     ''# Generated by alcy. Do not edit.'' @ [newline] @ ''version = 1'' @ [newline] @
     concat (map write_package packages)"

subsection \<open>Reading a written string\<close>

text \<open>
  A reader of the escapes that the writer uses: it reads the body of a quoted string up to the
  closing quote and returns the value and the text behind the quote.
\<close>

definition hex_value :: "char \<Rightarrow> nat option" where
  "hex_value c = find (\<lambda>i. kHex ! i = c) [0 ..< 16]"

fun read_quoted :: "string \<Rightarrow> (string \<times> string) option" where
  "read_quoted [] = None"
| "read_quoted (c # s) =
     (if c = dquote then Some ([], s)
      else if c = backslash then
        (case s of
           e # s1 \<Rightarrow>
             if e = dquote \<or> e = backslash then map_option (apfst (Cons e)) (read_quoted s1)
             else (case s1 of
                     z1 # z2 # h # l # s2 \<Rightarrow>
                       (case (hex_value h, hex_value l) of
                          (Some a, Some b) \<Rightarrow>
                            if e = CHR ''u'' \<and> z1 = CHR ''0'' \<and> z2 = CHR ''0''
                            then map_option (apfst (Cons (char_of (16 * a + b)))) (read_quoted s2)
                            else None
                        | _ \<Rightarrow> None)
                   | _ \<Rightarrow> None)
         | [] \<Rightarrow> None)
      else map_option (apfst (Cons c)) (read_quoted s))"

lemma hex_value_kHex: "n < 16 \<Longrightarrow> hex_value (kHex ! n) = Some n"
proof -
  have "list_all (\<lambda>n. hex_value (kHex ! n) = Some n) [0 ..< 16]" by code_simp
  then show "n < 16 \<Longrightarrow> hex_value (kHex ! n) = Some n" by (simp add: list_all_iff)
qed

lemma quote_backslash [simp]: "dquote \<noteq> backslash" "backslash \<noteq> dquote"
  by (simp_all add: dquote_def backslash_def)

lemma read_escaped_char: "read_quoted (escape_char c @ rest) = map_option (apfst (Cons c)) (read_quoted rest)"
proof (cases "c = dquote \<or> c = backslash")
  case True
  then show ?thesis by (auto simp: escape_char_def)
next
  case False
  show ?thesis
  proof (cases "(of_char c :: nat) < 32")
    case lt: True
    have "(of_char c :: nat) div 16 < 16" "(of_char c :: nat) mod 16 < 16" using lt by auto
    then have h: "hex_value (kHex ! (of_char c div 16)) = Some (of_char c div 16)"
      "hex_value (kHex ! (of_char c mod 16)) = Some (of_char c mod 16)"
      by (simp_all add: hex_value_kHex)
    have "CHR ''u'' \<noteq> dquote" "CHR ''u'' \<noteq> backslash" by (simp_all add: dquote_def backslash_def)
    then show ?thesis using False lt h by (simp add: escape_char_def)
  next
    case False
    then show ?thesis using \<open>\<not> (c = dquote \<or> c = backslash)\<close> by (simp add: escape_char_def)
  qed
qed

lemma read_write_escaped: "read_quoted (write_escaped s @ dquote # rest) = Some (s, rest)"
  by (induction s) (simp_all add: write_escaped_def read_escaped_char)

text \<open>
  Whatever bytes a name or a path has, quotes, backslashes, newlines and other control
  bytes included, the escaped text never ends the string early and reads back as the original.
\<close>

theorem write_escaped_roundtrip: "read_quoted (write_escaped s @ dquote # rest) = Some (s, rest)"
  by (rule read_write_escaped)

lemma show_version_parses: "parse_version (show_version v) = Inr v"
  unfolding parse_version_iff show_version_def
  by (intro exI [of _ "dec32 (major v)"] exI [of _ "dec32 (minor v)"] exI [of _ "dec32 (patch v)"])
     (simp add: denotes_dec32)

text \<open>
  The version in a lockfile is the version of the manifest: the printed text parses back.
\<close>

theorem version_roundtrip: "parse_version (show_version v) = Inr v"
  by (rule show_version_parses)

subsection \<open>Reading a package\<close>

definition strip :: "string \<Rightarrow> string \<Rightarrow> string option" where
  "strip pre s = (if take (length pre) s = pre then Some (drop (length pre) s) else None)"

lemma strip_append [simp]: "strip pre (pre @ s) = Some s"
  by (simp add: strip_def)

definition head_text :: string where
  "head_text = [newline] @ ''[[package]]'' @ [newline] @ ''name = '' @ [dquote]"

definition version_text :: string where
  "version_text = [newline] @ ''version = '' @ [dquote]"

definition source_text_intro :: string where
  "source_text_intro = [newline] @ ''source = '' @ [dquote]"

definition option_then :: "'a option \<Rightarrow> ('a \<Rightarrow> 'b option) \<Rightarrow> 'b option" where
  "option_then x f = (case x of None \<Rightarrow> None | Some y \<Rightarrow> f y)"

lemma option_then_Some [simp]: "option_then (Some x) f = f x"
  by (simp add: option_then_def)

definition read_locked :: "string \<Rightarrow> (locked_package \<times> string) option" where
  "read_locked s =
     option_then (strip head_text s) (\<lambda>s.
     option_then (read_quoted s) (\<lambda>(name, s).
     option_then (strip version_text s) (\<lambda>s.
     option_then (read_quoted s) (\<lambda>(v, s).
     option_then (case parse_version v of Inr v \<Rightarrow> Some v | Inl _ \<Rightarrow> None) (\<lambda>v.
     option_then (strip source_text_intro s) (\<lambda>s.
     option_then (read_quoted s) (\<lambda>(src, s).
     option_then (strip [newline] s) (\<lambda>s.
       Some (\<lparr>locked_name = name, locked_version = v, locked_source = src\<rparr>, s)))))))))"

lemma write_escaped_plain: "\<forall>c \<in> set s. escape_char c = [c] \<Longrightarrow> write_escaped s = s"
  by (induction s) (simp_all add: write_escaped_def)

lemma decimal_plain: "is_decimal c \<or> c = CHR ''.'' \<Longrightarrow> escape_char c = [c]"
  by (auto simp: escape_char_def is_decimal_def dquote_def backslash_def)

lemma show_version_plain: "write_escaped (show_version v) = show_version v"
proof (rule write_escaped_plain, intro ballI decimal_plain)
  fix c assume "c \<in> set (show_version v)"
  moreover have "list_all is_decimal (dec32 w)" for w
    using denotes_dec32 [of w] by (simp add: denotes_def)
  ultimately show "is_decimal c \<or> c = CHR ''.''" by (auto simp: show_version_def list_all_iff)
qed

lemma write_package_texts:
  "write_package p @ rest = head_text @ (write_escaped (locked_name p) @ dquote # (version_text @
     (write_escaped (show_version (locked_version p)) @ dquote # (source_text_intro @
       (write_escaped (locked_source p) @ dquote # ([newline] @ rest))))))"
  by (simp add: write_package_def head_text_def version_text_def source_text_intro_def show_version_plain)

lemma read_written: "read_locked (write_package p @ rest) = Some (p, rest)"
  by (simp only: read_locked_def write_package_texts strip_append option_then_Some read_write_escaped
      prod.case show_version_parses sum.case) simp

lemma write_package_ne: "write_package p @ rest \<noteq> []"
  by (simp add: write_package_def)

lemma packages_inj: "concat (map write_package ps) = concat (map write_package qs) \<Longrightarrow> ps = qs"
proof (induction ps arbitrary: qs)
  case Nil
  then show ?case using write_package_ne by (cases qs) auto
next
  case (Cons p ps)
  then obtain q qs' where qs: "qs = q # qs'" using write_package_ne [of p] by (cases qs) auto
  have "write_package p @ concat (map write_package ps) = write_package q @ concat (map write_package qs')"
    using Cons.prems qs by simp
  then have "Some (p, concat (map write_package ps)) = Some (q, concat (map write_package qs'))"
    by (metis read_written)
  then show ?case using Cons.IH qs by simp
qed

text \<open>
  C30. The lockfile determines what it locks: two lists of locked packages with the same text
  are the same list, so no choice of names, versions or source paths can make one resolution
  look like another.
\<close>

theorem serialize_lockfile_injective:
  assumes "serialize_lockfile ps = serialize_lockfile qs"
  shows "ps = qs"
  using assms packages_inj by (simp add: serialize_lockfile_def)

theorem serialize_lockfile_injective_witness:
  "lock_resolved [\<lparr>res_manifest = leaf_manifest, res_dir = Path ''p'', res_file = 0\<rparr>] =
     [\<lparr>locked_name = ''app'', locked_version = \<lparr>major = 0, minor = 1, patch = 0\<rparr>, locked_source = ''path+file://p''\<rparr>]"
  by (rule serialize_lockfile_injective) (simp add: lock_resolved_def leaf_manifest_def)

text \<open>
  The escaping is not complete: the delete character, which a TOML string may not hold
  unescaped, is written as it is.
\<close>

theorem delete_not_escaped: "write_escaped [CHR 0x7F] = [CHR 0x7F]"
  by (simp add: write_escaped_def escape_char_def dquote_def backslash_def)

end
