(* ===== verification/Ast.thy ===== *)
theory Ast
  imports Diag
begin

text \<open>
  The syntax tree (\<^verbatim>\<open>src/ast/ast.h\<close>). A family of kind-tagged structs becomes a datatype
  with one constructor per kind; the first argument is the span of the base struct. A
  pointer that may be null is an option, a span of pointers a list. The tree is what the
  parser builds in its arena: no node has two parents.
\<close>

subsection \<open>Identifiers and paths\<close>

record ident =
  id_name :: string
  id_span :: span

record ast_path =
  path_segments :: "ident list"
  path_span :: span

definition empty_ident :: ident where
  "empty_ident = \<lparr>id_name = [], id_span = empty_span\<rparr>"

subsection \<open>Types\<close>

datatype primitive_kind =
  PrimI8 | PrimI16 | PrimI32 | PrimI64 | PrimI128 | PrimIsize | PrimU8 | PrimU16 | PrimU32
  | PrimU64 | PrimU128 | PrimUsize | PrimF32 | PrimF64 | PrimBool | PrimStr

datatype type_expr =
  PrimitiveType span primitive_kind
  | UnitType span
  | NeverType span
  | StrType span
  | TupleType span "type_expr list"
  | PathType span ast_path "type_expr list"
  | RefType span bool type_expr

subsection \<open>Literals and patterns\<close>

datatype literal_kind = IntegerLit | FloatLit | StringLit | CharLit | BoolLit

record ast_literal =
  lit_kind :: literal_kind
  lit_span :: span
  lit_spelling :: string

datatype pattern =
  WildcardPattern span
  | IdentPattern span ident
  | MutIdentPattern span ident
  | LiteralPattern span ast_literal
  | TuplePattern span "ast_path option" "pattern list"
  | StructPattern span ast_path "field_pattern list"
  | RefPattern span bool pattern
  | OrPattern span "pattern list"
and field_pattern = FieldPattern ident pattern

subsection \<open>Expressions, conditions, blocks and statements\<close>

datatype unary_op = Neg | Not | BitNot

datatype binary_op =
  Add | Sub | Mul | Div | Mod | Pow | BitAnd | BitOr | BitXor | Shl | Shr | OpEq | NotEq | Gt
  | Lt | GtEq | LtEq | And | Or

datatype expr =
  LiteralExpr span ast_literal
  | PathExpr span ast_path
  | StructExpr span ast_path "field_init list" "expr option"
  | TupleExpr span "expr list"
  | UnaryExpr span unary_op expr
  | BorrowExpr span bool expr
  | BinaryExpr span binary_op expr expr
  | CastExpr span expr type_expr
  | CallExpr span expr "expr list"
  | MethodCallExpr span expr ident "expr list"
  | FieldExpr span expr ident
  | IndexExpr span expr expr
  | QuestionExpr span expr
  | IfExpr span cond block "block option"
  | MatchExpr span expr "match_arm list"
  | LoopExpr span block
  | WhileExpr span cond block
  | BlockExpr span block
  | ReturnExpr span "expr option"
  | RangeExpr span "expr option" "expr option" bool
  | BreakExpr span
  | ContinueExpr span
and field_init = FieldInit ident expr
and match_arm = MatchArm pattern expr
and cond = ValueCond expr | PatternCond pattern expr
and block = Block span "stmt list" "expr option"
and stmt =
  DeclStmt span pattern "type_expr option" expr
  | ReassignStmt span expr bool binary_op expr
  | ExprStmt span expr

subsection \<open>Items\<close>

record fn_param =
  param_pattern :: pattern
  param_type :: type_expr

record fn_item =
  fn_span :: span
  fn_is_pub :: bool
  fn_name :: ident
  fn_params :: "fn_param list"
  fn_return_type :: "type_expr option"
  fn_body :: block

record struct_field =
  field_name :: ident
  field_type :: type_expr

record enum_variant =
  variant_name :: ident
  variant_fields :: "type_expr list"

datatype item =
  FnItem fn_item
  | StructItem span bool ident "struct_field list"
  | EnumItem span bool ident "enum_variant list"
  | ImplItem span bool type_expr "fn_item list"
  | ModItem span bool ident "item list" bool
  | StaticItem span bool ident type_expr expr
  | ConstItem span bool ident type_expr expr
  | UseItem span bool ast_path bool ident

end
