(* ===== verification/Parser.thy ===== *)
theory Parser
  imports Ast Token
begin

text \<open>
  The recursive-descent parser (\<^verbatim>\<open>src/parser/parser.h\<close>, \<^verbatim>\<open>src/parser/parser.cc\<close>): one
  definition per member function over the record \<open>parser\<close> of its members. A null pointer is
  \<open>None\<close>; an early \<^verbatim>\<open>return nullptr\<close> is what \<open>got\<close> and \<open>need\<close> do. Reading the token
  vector outside its bounds, which C++ leaves undefined, is the outcome \<open>Outside\<close>.
  A function that the grammar makes recursive calls the others through the record \<open>calls\<close>,
  and \<open>rec_type\<close> to \<open>rec_item\<close> tie the knot with fuel; a loop carries its own fuel, the
  tokens left. \<open>Out_Of_Fuel\<close> never happens: \<open>Parser_Spec\<close> proves it.
\<close>

subsection \<open>Outcomes and sequencing\<close>

record parser =
  ps_tokens :: "token list"
  ps_bytes :: string
  ps_file :: file_id
  ps_pos :: nat
  ps_previous :: span
  ps_banked :: nat
  ps_struct_lit :: bool
  ps_bag :: diag_bag

datatype stop = Outside | Out_Of_Fuel

type_synonym 'a op = "parser \<Rightarrow> stop + 'a \<times> parser"

definition ret :: "'a \<Rightarrow> 'a op" where
  "ret x s = Inr (x, s)"

definition after :: "'a op \<Rightarrow> ('a \<Rightarrow> 'b op) \<Rightarrow> 'b op" where
  "after m f s = (case m s of Inl e \<Rightarrow> Inl e | Inr (x, s') \<Rightarrow> f x s')"

text \<open>\<^verbatim>\<open>x = m(); if (x == nullptr) return nullptr;\<close> and \<^verbatim>\<open>if (!m()) return nullptr;\<close>\<close>

definition got :: "'a option op \<Rightarrow> ('a \<Rightarrow> 'b option op) \<Rightarrow> 'b option op" where
  "got m f = after m (\<lambda>r. case r of None \<Rightarrow> ret None | Some x \<Rightarrow> f x)"

definition need :: "bool op \<Rightarrow> 'b option op \<Rightarrow> 'b option op" where
  "need m k = after m (\<lambda>b. if b then k else ret None)"

definition reads :: "(parser \<Rightarrow> 'a) \<Rightarrow> ('a \<Rightarrow> 'b op) \<Rightarrow> 'b op" where
  "reads f k s = k (f s) s"

definition if_p :: "(parser \<Rightarrow> bool) \<Rightarrow> 'a op \<Rightarrow> 'a op \<Rightarrow> 'a op" where
  "if_p p a b s = (if p s then a s else b s)"

definition update :: "(parser \<Rightarrow> parser) \<Rightarrow> unit op" where
  "update f s = Inr ((), f s)"

text \<open>
  A loop: the body either continues with new loop variables (\<open>Inl\<close>) or leaves with a result
  (\<open>Inr\<close>). Its fuel is one more than the tokens left.
\<close>

fun loop :: "nat \<Rightarrow> ('a \<Rightarrow> ('a + 'b) op) \<Rightarrow> 'a \<Rightarrow> 'b op" where
  "loop 0 body x s = Inl Out_Of_Fuel"
| "loop (Suc n) body x s =
     (case body x s of
        Inl e \<Rightarrow> Inl e
      | Inr (Inl x', s') \<Rightarrow> loop n body x' s'
      | Inr (Inr y, s') \<Rightarrow> Inr (y, s'))"

definition repeat :: "('a \<Rightarrow> ('a + 'b) op) \<Rightarrow> 'a \<Rightarrow> 'b op" where
  "repeat body x s = loop (Suc (length (ps_tokens s) - ps_pos s)) body x s"

subsection \<open>The token cursor\<close>

definition kParserUnexpectedToken :: u32 where "kParserUnexpectedToken = 4100"
definition kParserReservedWord :: u32 where "kParserReservedWord = 4101"

definition is_reserved :: "token_kind \<Rightarrow> bool" where
  "is_reserved k \<longleftrightarrow> k \<in> {TAsync, TAwait, TUnion, TRegister, TComp, TExtern, TUnsafe, TFor, TIn,
     TWhere, TDyn}"

definition is_compound_assign :: "token_kind \<Rightarrow> bool" where
  "is_compound_assign k \<longleftrightarrow> k \<in> {TPlusEq, TMinusEq, TStarEq, TSlashEq, TPercentEq, TStarStarEq,
     TAmpEq, TPipeEq, TCaretEq, TLessLessEq, TGreaterGreaterEq}"

definition compound_op :: "token_kind \<Rightarrow> binary_op" where
  "compound_op k =
     (if k = TPlusEq then Add else if k = TMinusEq then Sub else if k = TStarEq then Mul
      else if k = TSlashEq then Div else if k = TPercentEq then Mod
      else if k = TStarStarEq then Pow else if k = TAmpEq then BitAnd
      else if k = TPipeEq then BitOr else if k = TCaretEq then BitXor
      else if k = TLessLessEq then Shl else Shr)"

definition is_path_segment :: "token_kind \<Rightarrow> bool" where
  "is_path_segment k \<longleftrightarrow> k \<in> {TIdent, TSelf, TSuper, TPackage, TSelfType}"

definition token_text :: "string \<Rightarrow> span \<Rightarrow> string" where
  "token_text bytes sp = substr bytes (unat (span_offset sp)) (unat (span_length sp))"

definition kind_at :: "parser \<Rightarrow> nat \<Rightarrow> token_kind" where
  "kind_at s i = tok_kind (ps_tokens s ! i)"

definition emit_parser :: "u32 \<Rightarrow> span \<Rightarrow> string \<Rightarrow> parser \<Rightarrow> parser" where
  "emit_parser code sp message s = s\<lparr>ps_bag := emit_at SevError code sp message (ps_bag s)\<rparr>"

function skip_insignificant :: "parser \<Rightarrow> parser" where
  "skip_insignificant s =
     (if ps_pos s < length (ps_tokens s) then
        (let t = ps_tokens s ! ps_pos s
         in if tok_kind t = TError \<or> tok_kind t = TDocComment then
              skip_insignificant (s\<lparr>ps_pos := ps_pos s + 1\<rparr>)
            else if is_reserved (tok_kind t) then
              skip_insignificant ((emit_parser kParserReservedWord (tok_span t)
                (''`'' @ token_text (ps_bytes s) (tok_span t) @ ''` is reserved for future use'') s)
                \<lparr>ps_pos := ps_pos s + 1\<rparr>)
            else s)
      else s)"
  by pat_completeness auto
termination
  by (relation "measure (\<lambda>s. length (ps_tokens s) - ps_pos s)") (auto simp: emit_parser_def)

declare skip_insignificant.simps [simp del]

definition new_parser :: "token list \<Rightarrow> string \<Rightarrow> file_id \<Rightarrow> diag_bag \<Rightarrow> parser" where
  "new_parser tokens bytes fid bag = skip_insignificant
     \<lparr>ps_tokens = tokens, ps_bytes = bytes, ps_file = fid, ps_pos = 0,
      ps_previous = \<lparr>span_file = fid, span_offset = 0, span_length = 0\<rparr>,
      ps_banked = 0, ps_struct_lit = True, ps_bag = bag\<rparr>"

definition at_end :: "parser \<Rightarrow> bool" where
  "at_end s \<longleftrightarrow> length (ps_tokens s) \<le> ps_pos s \<or> kind_at s (ps_pos s) = TEof"

definition peek :: "token op" where
  "peek s = (if ps_pos s < length (ps_tokens s) then Inr (ps_tokens s ! ps_pos s, s)
             else Inl Outside)"

definition peek_kind :: "(token_kind \<Rightarrow> 'a op) \<Rightarrow> 'a op" where
  "peek_kind f = after peek (\<lambda>t. f (tok_kind t))"

definition advance :: "unit op" where
  "advance = after peek (\<lambda>t. update (\<lambda>s. skip_insignificant
     (s\<lparr>ps_previous := tok_span t, ps_pos := ps_pos s + 1\<rparr>)))"

definition check :: "token_kind \<Rightarrow> parser \<Rightarrow> bool" where
  "check k s \<longleftrightarrow> \<not> at_end s \<and> kind_at s (ps_pos s) = k"

definition match :: "token_kind \<Rightarrow> bool op" where
  "match k = if_p (\<lambda>s. \<not> check k s) (ret False) (after advance (\<lambda>_. ret True))"

definition span_from :: "nat \<Rightarrow> span op" where
  "span_from mark s =
     (if mark < length (ps_tokens s) then
        (let start = span_offset (tok_span (ps_tokens s ! mark));
             end = span_offset (ps_previous s) + span_length (ps_previous s)
         in Inr (if end < start then \<lparr>span_file = ps_file s, span_offset = start, span_length = 0\<rparr>
                 else \<lparr>span_file = ps_file s, span_offset = start, span_length = end - start\<rparr>, s))
      else Inl Outside)"

definition expected :: "string \<Rightarrow> bool op" where
  "expected what =
     if_p at_end
       (reads ps_pos (\<lambda>pos. after (span_from pos) (\<lambda>sp.
          after (update (emit_parser kParserUnexpectedToken sp
            (''expected '' @ what @ '', found end of file''))) (\<lambda>_. ret False))))
       (after peek (\<lambda>t. reads ps_bytes (\<lambda>bytes.
          after (update (emit_parser kParserUnexpectedToken (tok_span t)
            (''expected '' @ what @ '', found `'' @ token_text bytes (tok_span t) @ ''`''))) (\<lambda>_.
          ret False))))"

definition expect :: "token_kind \<Rightarrow> string \<Rightarrow> bool op" where
  "expect k what = after (match k) (\<lambda>b. if b then ret True else expected what)"

text \<open>Every node is created at the end of its function, with the span from its mark.\<close>

definition node :: "nat \<Rightarrow> (span \<Rightarrow> 'a) \<Rightarrow> 'a option op" where
  "node mark f = after (span_from mark) (\<lambda>sp. ret (Some (f sp)))"

subsection \<open>Recovery and lookahead\<close>

definition is_closer :: "token_kind \<Rightarrow> bool" where
  "is_closer k \<longleftrightarrow> k = TRBrace \<or> k = TRBracket \<or> k = TRParen"

definition is_opener :: "token_kind \<Rightarrow> bool" where
  "is_opener k \<longleftrightarrow> k = TLBrace \<or> k = TLBracket \<or> k = TLParen"

definition nesting :: "token_kind \<Rightarrow> nat \<Rightarrow> nat" where
  "nesting k depth =
     (if is_opener k then depth + 1 else if is_closer k \<and> 0 < depth then depth - 1 else depth)"

definition sync_step :: "nat \<Rightarrow> (nat + unit) op" where
  "sync_step depth =
     if_p at_end (ret (Inr ()))
       (peek_kind (\<lambda>k.
          if depth = 0 \<and> (k = TSemicolon \<or> k = TComma \<or> is_closer k) then ret (Inr ())
          else after advance (\<lambda>_. ret (Inl (nesting k depth)))))"

definition synchronize :: "unit op" where
  "synchronize = reads ps_pos (\<lambda>start.
     after (repeat sync_step 0) (\<lambda>_.
       if_p (\<lambda>s. ps_pos s = start \<and> \<not> at_end s) advance
         (if_p (\<lambda>s. check TSemicolon s \<or> check TComma s) advance (ret ()))))"

datatype stmt_lead = LeadNone | LeadDecl | LeadReassign

fun scan_kinds :: "token_kind list \<Rightarrow> nat \<Rightarrow> stmt_lead" where
  "scan_kinds [] depth = LeadNone"
| "scan_kinds (k # ks) depth =
     (if k = TError \<or> k = TDocComment \<or> is_reserved k then scan_kinds ks depth
      else if depth = 0 \<and> k = TColonEq then LeadDecl
      else if depth = 0 \<and> (k = TEq \<or> is_compound_assign k) then LeadReassign
      else if depth = 0 \<and> (k = TSemicolon \<or> k = TRBrace \<or> k = TLBrace \<or> k = TEof) then LeadNone
      else scan_kinds ks (nesting k depth))"

definition scan_lead :: "parser \<Rightarrow> stmt_lead" where
  "scan_lead s = scan_kinds (map tok_kind (drop (ps_pos s) (ps_tokens s))) 0"

subsection \<open>Lists\<close>

text \<open>
  The list loops the source writes out: elements with commas between them, tested for the
  closer before the first element and behind every comma; and the form of braces and
  tuples, which also stops at the end of the file.
\<close>

definition comma_list :: "'a option op \<Rightarrow> (parser \<Rightarrow> bool) \<Rightarrow> 'a list option op" where
  "comma_list element closes =
     if_p closes (ret (Some []))
       (repeat (\<lambda>xs. after element (\<lambda>r. case r of
            None \<Rightarrow> ret (Inr None)
          | Some x \<Rightarrow> after (match TComma) (\<lambda>comma.
              if \<not> comma then ret (Inr (Some (xs @ [x])))
              else if_p closes (ret (Inr (Some (xs @ [x])))) (ret (Inl (xs @ [x])))))) [])"

definition comma_until :: "token_kind \<Rightarrow> 'a option op \<Rightarrow> 'a list \<Rightarrow> 'a list option op" where
  "comma_until closer element =
     repeat (\<lambda>xs. if_p (\<lambda>s. check closer s \<or> at_end s) (ret (Inr (Some xs)))
       (after element (\<lambda>r. case r of
            None \<Rightarrow> ret (Inr None)
          | Some x \<Rightarrow> after (match TComma) (\<lambda>comma.
              if \<not> comma then ret (Inr (Some (xs @ [x]))) else ret (Inl (xs @ [x]))))))"

subsection \<open>Names\<close>

definition parse_ident :: "string \<Rightarrow> ident option op" where
  "parse_ident what = peek_kind (\<lambda>k.
     if k \<noteq> TIdent then after (expect TIdent what) (\<lambda>_. ret None)
     else after peek (\<lambda>t. reads ps_bytes (\<lambda>bytes. after advance (\<lambda>_.
       ret (Some \<lparr>id_name = token_text bytes (tok_span t), id_span = tok_span t\<rparr>)))))"

definition path_step :: "ident list \<Rightarrow> (ident list + ident list option) op" where
  "path_step segments = peek_kind (\<lambda>k.
     if \<not> is_path_segment k then
       (if segments = [] then after (expect TIdent ''path'') (\<lambda>_. ret (Inr None))
        else ret (Inr (Some segments)))
     else after peek (\<lambda>t. reads ps_bytes (\<lambda>bytes. after advance (\<lambda>_.
       (let segs = segments @ [\<lparr>id_name = token_text bytes (tok_span t), id_span = tok_span t\<rparr>]
        in after (match TColonColon) (\<lambda>colons.
             if \<not> colons then ret (Inr (Some segs))
             else if_p at_end (after (expect TIdent ''path segment'') (\<lambda>_. ret (Inr None)))
               (ret (Inl segs))))))))"

definition parse_path :: "ast_path option op" where
  "parse_path = reads ps_pos (\<lambda>mark. got (repeat path_step []) (\<lambda>segs.
     node mark (\<lambda>sp. \<lparr>path_segments = segs, path_span = sp\<rparr>)))"

subsection \<open>Recursive calls\<close>

datatype calls = Calls
  (call_type: "type_expr option op")
  (call_pattern: "pattern option op")
  (call_primary_pattern: "pattern option op")
  (call_expr: "expr option op")
  (call_pow: "expr option op")
  (call_unary: "expr option op")
  (call_stmt: "stmt option op")
  (call_item: "item option op")

subsection \<open>Types\<close>

definition consume_gt :: "bool op" where
  "consume_gt =
     if_p (\<lambda>s. 0 < ps_banked s) (after (update (\<lambda>s. s\<lparr>ps_banked := ps_banked s - 1\<rparr>)) (\<lambda>_. ret True))
       (if_p (check TGreater) (after advance (\<lambda>_. ret True))
          (if_p (check TGreaterGreater)
             (after advance (\<lambda>_. after (update (\<lambda>s. s\<lparr>ps_banked := 1\<rparr>)) (\<lambda>_. ret True)))
             (ret False)))"

definition primitive_of :: "token_kind \<Rightarrow> primitive_kind option" where
  "primitive_of k =
     (if k = TI8 then Some PrimI8 else if k = TI16 then Some PrimI16
      else if k = TI32 then Some PrimI32 else if k = TI64 then Some PrimI64
      else if k = TI128 then Some PrimI128 else if k = TIsize then Some PrimIsize
      else if k = TU8 then Some PrimU8 else if k = TU16 then Some PrimU16
      else if k = TU32 then Some PrimU32 else if k = TU64 then Some PrimU64
      else if k = TU128 then Some PrimU128 else if k = TUsize then Some PrimUsize
      else if k = TF32 then Some PrimF32 else if k = TF64 then Some PrimF64
      else if k = TBool then Some PrimBool else None)"

definition closes_args :: "parser \<Rightarrow> bool" where
  "closes_args s \<longleftrightarrow> check TGreater s \<or> check TGreaterGreater s \<or> at_end s"

definition parse_path_type :: "calls \<Rightarrow> nat \<Rightarrow> type_expr option op" where
  "parse_path_type K mark = got parse_path (\<lambda>path. after (match TLess) (\<lambda>less.
     if less then
       got (comma_list (call_type K) closes_args) (\<lambda>args. after consume_gt (\<lambda>closed.
         if \<not> closed then after (expect TGreater ''`>`'') (\<lambda>_. ret None)
         else node mark (\<lambda>sp. PathType sp path args)))
     else node mark (\<lambda>sp. PathType sp path [])))"

definition parse_paren_type :: "calls \<Rightarrow> nat \<Rightarrow> type_expr option op" where
  "parse_paren_type K mark = after advance (\<lambda>_. after (match TRParen) (\<lambda>unit.
     if unit then node mark UnitType
     else got (call_type K) (\<lambda>first. after (match TComma) (\<lambda>comma.
       if \<not> comma then need (expect TRParen ''`)`'') (ret (Some first))
       else got (comma_until TRParen (call_type K) [first]) (\<lambda>elements.
         need (expect TRParen ''`)`'') (node mark (\<lambda>sp. TupleType sp elements)))))))"

definition parse_type :: "calls \<Rightarrow> type_expr option op" where
  "parse_type K = reads ps_pos (\<lambda>mark. peek_kind (\<lambda>k.
     if k = TLParen then parse_paren_type K mark
     else if k = TBang then after advance (\<lambda>_. node mark NeverType)
     else if k = TAmp then after advance (\<lambda>_. after (match TMut) (\<lambda>is_mut.
       got (call_type K) (\<lambda>inner. node mark (\<lambda>sp. RefType sp is_mut inner))))
     else if k = TStr then after advance (\<lambda>_. node mark StrType)
     else (case primitive_of k of
         Some prim \<Rightarrow> after advance (\<lambda>_. node mark (\<lambda>sp. PrimitiveType sp prim))
       | None \<Rightarrow> parse_path_type K mark)))"

definition parse_closed_type :: "calls \<Rightarrow> type_expr option op" where
  "parse_closed_type K = got (parse_type K) (\<lambda>ty.
     if_p (\<lambda>s. 0 < ps_banked s)
       (after (update (\<lambda>s. s\<lparr>ps_banked := 0\<rparr>)) (\<lambda>_.
        after (expect TGreater ''`>`'') (\<lambda>_. ret None)))
       (ret (Some ty)))"

subsection \<open>Patterns\<close>

definition literal_kind_of :: "token_kind \<Rightarrow> literal_kind option" where
  "literal_kind_of k =
     (if k = TInteger then Some IntegerLit else if k = TFloat then Some FloatLit
      else if k = TString then Some StringLit else if k = TChar then Some CharLit
      else if k = TTrue \<or> k = TFalse then Some BoolLit else None)"

text \<open>A literal takes the token at the cursor, kind, span and spelling.\<close>

definition take_literal :: "literal_kind \<Rightarrow> (ast_literal \<Rightarrow> 'a option op) \<Rightarrow> 'a option op" where
  "take_literal kind f = after peek (\<lambda>t. reads ps_bytes (\<lambda>bytes. after advance (\<lambda>_.
     f \<lparr>lit_kind = kind, lit_span = tok_span t, lit_spelling = token_text bytes (tok_span t)\<rparr>)))"

definition binds_variable :: "ast_path \<Rightarrow> bool" where
  "binds_variable path \<longleftrightarrow>
     (case path_segments path of
        [seg] \<Rightarrow> (case id_name seg of
            [] \<Rightarrow> False
          | c # _ \<Rightarrow> c = CHR ''_'' \<or> (97 \<le> (of_char c :: nat) \<and> (of_char c :: nat) \<le> 122))
      | _ \<Rightarrow> False)"

definition field_pattern_step :: "calls \<Rightarrow> field_pattern option op" where
  "field_pattern_step K = got (parse_ident ''field name'') (\<lambda>name. after (match TColon) (\<lambda>colon.
     if colon then got (call_pattern K) (\<lambda>sub. ret (Some (FieldPattern name sub)))
     else ret (Some (FieldPattern name (IdentPattern (id_span name) name)))))"

definition parse_path_pattern :: "calls \<Rightarrow> nat \<Rightarrow> pattern option op" where
  "parse_path_pattern K mark = got parse_path (\<lambda>path.
     if binds_variable path then
       node mark (\<lambda>sp. IdentPattern sp (hd (path_segments path)))
     else after (match TLParen) (\<lambda>paren.
       if paren then
         got (comma_list (call_pattern K) (check TRParen)) (\<lambda>elements.
           need (expect TRParen ''`)`'') (node mark (\<lambda>sp. TuplePattern sp (Some path) elements)))
       else after (match TLBrace) (\<lambda>brace.
         if brace then
           got (comma_until TRBrace (field_pattern_step K) []) (\<lambda>fs.
             need (expect TRBrace ''`}`'') (node mark (\<lambda>sp. StructPattern sp path fs)))
         else node mark (\<lambda>sp. TuplePattern sp (Some path) []))))"

definition parse_negative_pattern :: "nat \<Rightarrow> pattern option op" where
  "parse_negative_pattern mark = after advance (\<lambda>_. peek_kind (\<lambda>k.
     if k \<noteq> TInteger \<and> k \<noteq> TFloat then
       after (expect TInteger ''number literal'') (\<lambda>_. ret None)
     else take_literal (if k = TFloat then FloatLit else IntegerLit) (\<lambda>lit.
       node mark (\<lambda>sp. LiteralPattern sp lit))))"

definition parse_paren_pattern :: "calls \<Rightarrow> nat \<Rightarrow> pattern option op" where
  "parse_paren_pattern K mark = after advance (\<lambda>_. got (call_pattern K) (\<lambda>first.
     after (match TComma) (\<lambda>comma.
       if \<not> comma then need (expect TRParen ''`)`'') (ret (Some first))
       else got (comma_until TRParen (call_pattern K) [first]) (\<lambda>elements.
         need (expect TRParen ''`)`'') (node mark (\<lambda>sp. TuplePattern sp None elements))))))"

definition parse_primary_pattern :: "calls \<Rightarrow> pattern option op" where
  "parse_primary_pattern K = reads ps_pos (\<lambda>mark. peek_kind (\<lambda>k.
     if k = TUnderscore then after advance (\<lambda>_. node mark WildcardPattern)
     else if k = TMut then after advance (\<lambda>_.
       got (parse_ident ''pattern name'') (\<lambda>name. node mark (\<lambda>sp. MutIdentPattern sp name)))
     else (case literal_kind_of k of
         Some kind \<Rightarrow> take_literal kind (\<lambda>lit. node mark (\<lambda>sp. LiteralPattern sp lit))
       | None \<Rightarrow>
           if k = TMinus then parse_negative_pattern mark
           else if k = TAmp then after advance (\<lambda>_. after (match TMut) (\<lambda>is_mut.
             got (call_primary_pattern K) (\<lambda>inner. node mark (\<lambda>sp. RefPattern sp is_mut inner))))
           else if k = TLParen then parse_paren_pattern K mark
           else parse_path_pattern K mark)))"

definition parse_or_pattern :: "calls \<Rightarrow> pattern option op" where
  "parse_or_pattern K = reads ps_pos (\<lambda>mark. got (parse_primary_pattern K) (\<lambda>first.
     after (match TPipe) (\<lambda>bar.
       if \<not> bar then ret (Some first)
       else got (repeat (\<lambda>alts. after (parse_primary_pattern K) (\<lambda>r. case r of
                  None \<Rightarrow> ret (Inr None)
                | Some alt \<Rightarrow> after (match TPipe) (\<lambda>more.
                    if \<not> more then ret (Inr (Some (alts @ [alt])))
                    else ret (Inl (alts @ [alt]))))) [first]) (\<lambda>alternatives.
         node mark (\<lambda>sp. OrPattern sp alternatives)))))"

definition parse_pattern :: "calls \<Rightarrow> pattern option op" where
  "parse_pattern K = parse_or_pattern K"

subsection \<open>Expressions\<close>

text \<open>
  One level of left-associative binary operators: an operand, then operators of the level
  and operands as long as one of the operators matches, tried in the order given.
\<close>

fun match_op :: "(token_kind \<times> binary_op) list \<Rightarrow> binary_op option op" where
  "match_op [] = ret None"
| "match_op ((k, b) # ops) = after (match k) (\<lambda>found. if found then ret (Some b) else match_op ops)"

definition binary_step ::
  "(token_kind \<times> binary_op) list \<Rightarrow> expr option op \<Rightarrow> nat \<Rightarrow> expr \<Rightarrow> (expr + expr option) op" where
  "binary_step ops operand mark lhs = after (match_op ops) (\<lambda>found. case found of
       None \<Rightarrow> ret (Inr (Some lhs))
     | Some b \<Rightarrow> after operand (\<lambda>r. case r of
           None \<Rightarrow> ret (Inr None)
         | Some rhs \<Rightarrow> after (span_from mark) (\<lambda>sp. ret (Inl (BinaryExpr sp b lhs rhs)))))"

definition binary_level ::
  "(token_kind \<times> binary_op) list \<Rightarrow> expr option op \<Rightarrow> expr option op" where
  "binary_level ops operand = reads ps_pos (\<lambda>mark. got operand (\<lambda>lhs.
     repeat (binary_step ops operand mark) lhs))"

definition field_init_step :: "calls \<Rightarrow> field_init option op" where
  "field_init_step K = got (parse_ident ''field name'') (\<lambda>name. need (expect TColon ''`:`'')
     (got (call_expr K) (\<lambda>value. ret (Some (FieldInit name value)))))"

text \<open>The fields read so far and the base expression, when a \<^verbatim>\<open>..\<close> led to one.\<close>

definition struct_fields_step ::
  "calls \<Rightarrow> field_init list \<Rightarrow> (field_init list + (field_init list \<times> expr option) option) op" where
  "struct_fields_step K fs = if_p (\<lambda>s. check TRBrace s \<or> at_end s) (ret (Inr (Some (fs, None))))
     (after (match TDotDot) (\<lambda>dots.
        if dots then after (call_expr K) (\<lambda>r. case r of
            None \<Rightarrow> ret (Inr None)
          | Some e \<Rightarrow> ret (Inr (Some (fs, Some e))))
        else after (field_init_step K) (\<lambda>r. case r of
            None \<Rightarrow> ret (Inr None)
          | Some f \<Rightarrow> after (match TComma) (\<lambda>comma.
              if \<not> comma then ret (Inr (Some (fs @ [f], None))) else ret (Inl (fs @ [f]))))))"

definition parse_struct_literal :: "calls \<Rightarrow> nat \<Rightarrow> ast_path \<Rightarrow> expr option op" where
  "parse_struct_literal K mark path = got (repeat (struct_fields_step K) []) (\<lambda>(fs, base).
     got (if base = None then after (match TDotDot) (\<lambda>dots.
            if dots then got (call_expr K) (\<lambda>e. ret (Some (Some e))) else ret (Some None))
          else ret (Some base)) (\<lambda>base'.
     need (expect TRBrace ''`}`'') (node mark (\<lambda>sp. StructExpr sp path fs base'))))"

definition parse_path_expr :: "calls \<Rightarrow> nat \<Rightarrow> expr option op" where
  "parse_path_expr K mark = got parse_path (\<lambda>path. after (match TLParen) (\<lambda>paren.
     if paren then
       got (comma_list (call_expr K) (check TRParen)) (\<lambda>args. need (expect TRParen ''`)`'')
         (node mark (\<lambda>sp. CallExpr sp (PathExpr (path_span path) path) args)))
     else reads ps_struct_lit (\<lambda>allowed. after (if allowed then match TLBrace else ret False) (\<lambda>brace.
       if brace then parse_struct_literal K mark path
       else node mark (\<lambda>sp. PathExpr sp path)))))"

definition parse_paren_expr :: "calls \<Rightarrow> nat \<Rightarrow> expr option op" where
  "parse_paren_expr K mark = after advance (\<lambda>_. got (call_expr K) (\<lambda>first.
     after (match TComma) (\<lambda>comma.
       if \<not> comma then need (expect TRParen ''`)`'') (ret (Some first))
       else got (comma_until TRParen (call_expr K) [first]) (\<lambda>elements.
         need (expect TRParen ''`)`'') (node mark (\<lambda>sp. TupleExpr sp elements))))))"

definition parse_return :: "calls \<Rightarrow> nat \<Rightarrow> expr option op" where
  "parse_return K mark = after advance (\<lambda>_.
     got (if_p (\<lambda>s. \<not> check TSemicolon s \<and> \<not> check TRBrace s \<and> \<not> at_end s)
            (got (call_expr K) (\<lambda>value. ret (Some (Some value)))) (ret (Some None))) (\<lambda>value.
     node mark (\<lambda>sp. ReturnExpr sp value)))"

subsection \<open>Blocks and conditions\<close>

text \<open>
  A block: the statements so far; the loop leaves with the statements and the value. A
  statement that failed is skipped by \<open>synchronize\<close>. Behind a statement: the value of the
  block, a semicolon, or the error that it is missing.
\<close>

definition stmt_end ::
  "stmt list \<Rightarrow> stmt \<Rightarrow> (stmt list + stmt list \<times> expr option) op" where
  "stmt_end stmts st = reads (\<lambda>s. check TRBrace s \<or> at_end s) (\<lambda>ends.
     case (st, ends) of
       (ExprStmt sp value, True) \<Rightarrow> ret (Inr (stmts, Some value))
     | _ \<Rightarrow> after (match TSemicolon) (\<lambda>semi.
         if \<not> semi \<and> \<not> ends then
           after peek (\<lambda>t. after (update (emit_parser kParserUnexpectedToken (tok_span t)
             ''expected `;`'')) (\<lambda>_. after synchronize (\<lambda>_. ret (Inl (stmts @ [st])))))
         else ret (Inl (stmts @ [st]))))"

definition block_step ::
  "calls \<Rightarrow> stmt list \<Rightarrow> (stmt list + stmt list \<times> expr option) op" where
  "block_step K stmts = if_p (\<lambda>s. check TRBrace s \<or> at_end s) (ret (Inr (stmts, None)))
     (after (match TSemicolon) (\<lambda>semi.
        if semi then ret (Inl stmts)
        else after (call_stmt K) (\<lambda>r. case r of
            None \<Rightarrow> after synchronize (\<lambda>_. ret (Inl stmts))
          | Some st \<Rightarrow> stmt_end stmts st)))"

definition parse_block :: "calls \<Rightarrow> block option op" where
  "parse_block K = reads ps_pos (\<lambda>mark. need (expect TLBrace ''`{`'')
     (after (repeat (block_step K) []) (\<lambda>(stmts, value).
        need (expect TRBrace ''`}`'') (node mark (\<lambda>sp. Block sp stmts value)))))"

definition parse_block_expr :: "calls \<Rightarrow> expr option op" where
  "parse_block_expr K = reads ps_pos (\<lambda>mark. got (parse_block K) (\<lambda>blk.
     node mark (\<lambda>sp. BlockExpr sp blk)))"

text \<open>Scrutinees and conditions are parsed without struct literals; the flag is put back.\<close>

definition without_struct_lit :: "'a op \<Rightarrow> 'a op" where
  "without_struct_lit m = reads ps_struct_lit (\<lambda>saved.
     after (update (\<lambda>s. s\<lparr>ps_struct_lit := False\<rparr>)) (\<lambda>_. after m (\<lambda>r.
     after (update (\<lambda>s. s\<lparr>ps_struct_lit := saved\<rparr>)) (\<lambda>_. ret r))))"

definition parse_cond :: "calls \<Rightarrow> cond option op" where
  "parse_cond K = reads scan_lead (\<lambda>lead.
     if lead \<noteq> LeadDecl then
       got (without_struct_lit (call_expr K)) (\<lambda>value. ret (Some (ValueCond value)))
     else got (call_pattern K) (\<lambda>pattern. need (expect TColonEq ''`:=`'')
       (got (call_expr K) (\<lambda>init. ret (Some (PatternCond pattern init))))))"

definition parse_if :: "calls \<Rightarrow> expr option op" where
  "parse_if K = reads ps_pos (\<lambda>mark. need (expect TIf ''if'')
     (got (parse_cond K) (\<lambda>cond. got (parse_block K) (\<lambda>then_block.
        after (match TElse) (\<lambda>has_else.
          if has_else then got (parse_block K) (\<lambda>else_block.
            node mark (\<lambda>sp. IfExpr sp cond then_block (Some else_block)))
          else node mark (\<lambda>sp. IfExpr sp cond then_block None))))))"

definition match_arm_op :: "calls \<Rightarrow> match_arm option op" where
  "match_arm_op K = got (call_pattern K) (\<lambda>pattern. need (expect TFatArrow ''`=>`'')
     (got (call_expr K) (\<lambda>body. ret (Some (MatchArm pattern body)))))"

definition match_arms_step :: "calls \<Rightarrow> match_arm list \<Rightarrow> (match_arm list + match_arm list) op" where
  "match_arms_step K arms = if_p (\<lambda>s. check TRBrace s \<or> at_end s) (ret (Inr arms))
     (after (match TComma) (\<lambda>comma. if comma then ret (Inl arms)
      else after (match TSemicolon) (\<lambda>semi. if semi then ret (Inl arms)
      else after (match_arm_op K) (\<lambda>r. case r of
          None \<Rightarrow> after synchronize (\<lambda>_. ret (Inl arms))
        | Some arm \<Rightarrow> ret (Inl (arms @ [arm]))))))"

definition parse_match :: "calls \<Rightarrow> expr option op" where
  "parse_match K = reads ps_pos (\<lambda>mark. need (expect TMatch ''match'')
     (got (without_struct_lit (call_expr K)) (\<lambda>scrutinee. need (expect TLBrace ''`{`'')
        (after (repeat (match_arms_step K) []) (\<lambda>arms. need (expect TRBrace ''`}`'')
          (node mark (\<lambda>sp. MatchExpr sp scrutinee arms)))))))"

definition parse_loop :: "calls \<Rightarrow> expr option op" where
  "parse_loop K = reads ps_pos (\<lambda>mark. need (expect TLoop ''loop'')
     (got (parse_block K) (\<lambda>body. node mark (\<lambda>sp. LoopExpr sp body))))"

definition parse_while :: "calls \<Rightarrow> expr option op" where
  "parse_while K = reads ps_pos (\<lambda>mark. need (expect TWhile ''while'')
     (got (parse_cond K) (\<lambda>cond. got (parse_block K) (\<lambda>body.
        node mark (\<lambda>sp. WhileExpr sp cond body)))))"

subsection \<open>Primary and postfix expressions\<close>

definition parse_primary :: "calls \<Rightarrow> expr option op" where
  "parse_primary K = reads ps_pos (\<lambda>mark. peek_kind (\<lambda>k. case literal_kind_of k of
       Some kind \<Rightarrow> take_literal kind (\<lambda>lit. node mark (\<lambda>sp. LiteralExpr sp lit))
     | None \<Rightarrow>
         if k = TLParen then parse_paren_expr K mark
         else if k = TLBrace then parse_block_expr K
         else if k = TIf then parse_if K
         else if k = TMatch then parse_match K
         else if k = TLoop then parse_loop K
         else if k = TWhile then parse_while K
         else if k = TRet then parse_return K mark
         else if k = TBreak then after advance (\<lambda>_. node mark BreakExpr)
         else if k = TContinue then after advance (\<lambda>_. node mark ContinueExpr)
         else parse_path_expr K mark))"

definition call_arguments :: "calls \<Rightarrow> expr list option op" where
  "call_arguments K = got (comma_list (call_expr K) (check TRParen)) (\<lambda>args.
     need (expect TRParen ''`)`'') (ret (Some args)))"

text \<open>What follows a base expression behind a dot: a tuple index, a method call or a field.\<close>

definition postfix_dot :: "calls \<Rightarrow> nat \<Rightarrow> expr \<Rightarrow> expr option op" where
  "postfix_dot K mark base = peek_kind (\<lambda>k.
     if k = TInteger then after peek (\<lambda>t. reads ps_bytes (\<lambda>bytes. after advance (\<lambda>_.
       node mark (\<lambda>sp. FieldExpr sp base
         \<lparr>id_name = token_text bytes (tok_span t), id_span = tok_span t\<rparr>))))
     else got (parse_ident ''field name'') (\<lambda>name. after (match TLParen) (\<lambda>paren.
       if paren then got (call_arguments K) (\<lambda>args.
         node mark (\<lambda>sp. MethodCallExpr sp base name args))
       else node mark (\<lambda>sp. FieldExpr sp base name))))"

definition postfix_step :: "calls \<Rightarrow> nat \<Rightarrow> expr \<Rightarrow> (expr + expr option) op" where
  "postfix_step K mark base =
     (let continue = (\<lambda>m. after m (\<lambda>r. case r of None \<Rightarrow> ret (Inr None) | Some e \<Rightarrow> ret (Inl e)))
      in after (match TLParen) (\<lambda>paren.
        if paren then continue (got (call_arguments K) (\<lambda>args.
          node mark (\<lambda>sp. CallExpr sp base args)))
        else after (match TDot) (\<lambda>dot.
        if dot then continue (postfix_dot K mark base)
        else after (match TLBracket) (\<lambda>bracket.
        if bracket then continue (got (call_expr K) (\<lambda>index. need (expect TRBracket ''`]`'')
          (node mark (\<lambda>sp. IndexExpr sp base index))))
        else after (match TQuestion) (\<lambda>question.
        if question then continue (node mark (\<lambda>sp. QuestionExpr sp base))
        else ret (Inr (Some base)))))))"

definition parse_postfix :: "calls \<Rightarrow> expr option op" where
  "parse_postfix K = reads ps_pos (\<lambda>mark. got (parse_primary K) (\<lambda>base.
     repeat (postfix_step K mark) base))"

subsection \<open>The operator levels\<close>

definition unary_of :: "token_kind \<Rightarrow> unary_op option" where
  "unary_of k = (if k = TMinus then Some Neg else if k = TBang then Some Not
     else if k = TTilde then Some BitNot else None)"

definition parse_unary :: "calls \<Rightarrow> expr option op" where
  "parse_unary K = reads ps_pos (\<lambda>mark. peek_kind (\<lambda>k. case unary_of k of
       Some u \<Rightarrow> after advance (\<lambda>_. got (call_unary K) (\<lambda>inner.
         node mark (\<lambda>sp. UnaryExpr sp u inner)))
     | None \<Rightarrow>
         if k = TAmp then after advance (\<lambda>_. after (match TMut) (\<lambda>is_mut.
           got (call_unary K) (\<lambda>inner. node mark (\<lambda>sp. BorrowExpr sp is_mut inner))))
         else parse_postfix K))"

definition parse_cast :: "calls \<Rightarrow> expr option op" where
  "parse_cast K = reads ps_pos (\<lambda>mark. got (parse_unary K) (\<lambda>inner. after (match TAs) (\<lambda>has_type.
     if \<not> has_type then ret (Some inner)
     else got (parse_closed_type K) (\<lambda>ty. node mark (\<lambda>sp. CastExpr sp inner ty)))))"

definition parse_pow :: "calls \<Rightarrow> expr option op" where
  "parse_pow K = reads ps_pos (\<lambda>mark. got (parse_cast K) (\<lambda>lhs. after (match TStarStar) (\<lambda>pow.
     if \<not> pow then ret (Some lhs)
     else got (call_pow K) (\<lambda>rhs. node mark (\<lambda>sp. BinaryExpr sp Pow lhs rhs)))))"

definition parse_mul :: "calls \<Rightarrow> expr option op" where
  "parse_mul K = binary_level [(TStar, Mul), (TSlash, Div), (TPercent, Mod)] (parse_pow K)"

definition parse_add :: "calls \<Rightarrow> expr option op" where
  "parse_add K = binary_level [(TPlus, Add), (TMinus, Sub)] (parse_mul K)"

definition parse_shift :: "calls \<Rightarrow> expr option op" where
  "parse_shift K = binary_level [(TLessLess, Shl), (TGreaterGreater, Shr)] (parse_add K)"

definition parse_bitand :: "calls \<Rightarrow> expr option op" where
  "parse_bitand K = binary_level [(TAmp, BitAnd)] (parse_shift K)"

definition parse_bitxor :: "calls \<Rightarrow> expr option op" where
  "parse_bitxor K = binary_level [(TCaret, BitXor)] (parse_bitand K)"

definition parse_bitor :: "calls \<Rightarrow> expr option op" where
  "parse_bitor K = binary_level [(TPipe, BitOr)] (parse_bitxor K)"

definition cmp_of :: "token_kind \<Rightarrow> binary_op option" where
  "cmp_of k = (if k = TEqEq then Some OpEq else if k = TBangEq then Some NotEq
     else if k = TGreater then Some Gt else if k = TLess then Some Lt
     else if k = TGreaterEq then Some GtEq else if k = TLessEq then Some LtEq else None)"

definition parse_cmp :: "calls \<Rightarrow> expr option op" where
  "parse_cmp K = reads ps_pos (\<lambda>mark. got (parse_bitor K) (\<lambda>lhs. peek_kind (\<lambda>k. case cmp_of k of
       None \<Rightarrow> ret (Some lhs)
     | Some b \<Rightarrow> after advance (\<lambda>_. got (parse_bitor K) (\<lambda>rhs.
         node mark (\<lambda>sp. BinaryExpr sp b lhs rhs))))))"

definition parse_and :: "calls \<Rightarrow> expr option op" where
  "parse_and K = binary_level [(TAmpAmp, And)] (parse_cmp K)"

definition parse_or :: "calls \<Rightarrow> expr option op" where
  "parse_or K = binary_level [(TPipePipe, Or)] (parse_and K)"

text \<open>The end of a range behind its operator, written twice in the source.\<close>

definition is_range_op :: "parser \<Rightarrow> bool" where
  "is_range_op s \<longleftrightarrow> check TDotDot s \<or> check TDotDotEq s \<or> check TDotDotLess s"

definition closes_range :: "parser \<Rightarrow> bool" where
  "closes_range s \<longleftrightarrow> at_end s \<or> check TRBrace s \<or> check TRBracket s \<or> check TRParen s \<or>
     check TComma s \<or> check TSemicolon s"

definition range_tail :: "calls \<Rightarrow> nat \<Rightarrow> expr option \<Rightarrow> expr option op" where
  "range_tail K mark start = peek_kind (\<lambda>k. after advance (\<lambda>_.
     got (if_p (\<lambda>s. k = TDotDot \<or> closes_range s) (ret (Some None))
            (got (parse_or K) (\<lambda>e. ret (Some (Some e))))) (\<lambda>stop.
     node mark (\<lambda>sp. RangeExpr sp start stop (k = TDotDotEq)))))"

definition parse_range :: "calls \<Rightarrow> expr option op" where
  "parse_range K = reads ps_pos (\<lambda>mark. if_p is_range_op (range_tail K mark None)
     (got (parse_or K) (\<lambda>lhs. if_p is_range_op (range_tail K mark (Some lhs)) (ret (Some lhs)))))"

definition parse_expr :: "calls \<Rightarrow> expr option op" where
  "parse_expr K = parse_range K"

subsection \<open>Statements\<close>

definition parse_decl_stmt :: "calls \<Rightarrow> nat \<Rightarrow> stmt option op" where
  "parse_decl_stmt K mark = got (parse_pattern K) (\<lambda>pattern. after (match TColon) (\<lambda>colon.
     got (if colon then got (parse_closed_type K) (\<lambda>ty. ret (Some (Some ty))) else ret (Some None))
       (\<lambda>ty. need (expect TColonEq ''`:=`'') (got (parse_expr K) (\<lambda>init.
         node mark (\<lambda>sp. DeclStmt sp pattern ty init))))))"

text \<open>The operator of a reassignment: whether it is compound, and which one.\<close>

definition reassign_op :: "(bool \<times> binary_op) option op" where
  "reassign_op = after (match TEq) (\<lambda>plain.
     if plain then ret (Some (False, Add))
     else peek_kind (\<lambda>k.
       if is_compound_assign k then after advance (\<lambda>_. ret (Some (True, compound_op k)))
       else after (expect TEq ''`=`'') (\<lambda>_. ret None)))"

definition parse_reassign_stmt :: "calls \<Rightarrow> nat \<Rightarrow> stmt option op" where
  "parse_reassign_stmt K mark = got (parse_expr K) (\<lambda>place. got reassign_op (\<lambda>(compound, b).
     got (parse_expr K) (\<lambda>value. node mark (\<lambda>sp. ReassignStmt sp place compound b value))))"

definition parse_stmt :: "calls \<Rightarrow> stmt option op" where
  "parse_stmt K = reads ps_pos (\<lambda>mark. reads scan_lead (\<lambda>lead.
     if lead = LeadDecl then parse_decl_stmt K mark
     else if lead = LeadReassign then parse_reassign_stmt K mark
     else got (parse_expr K) (\<lambda>value. node mark (\<lambda>sp. ExprStmt sp value))))"

subsection \<open>Items\<close>

text \<open>
  The loops over items and methods: stray semicolons are skipped, a failed element is
  skipped by \<open>synchronize\<close>, until the closing brace or the end of the file.
\<close>

definition item_list_step ::
  "(parser \<Rightarrow> bool) \<Rightarrow> 'a option op \<Rightarrow> 'a list \<Rightarrow> ('a list + 'a list) op" where
  "item_list_step stops element xs = if_p stops (ret (Inr xs))
     (after (match TSemicolon) (\<lambda>semi. if semi then ret (Inl xs)
      else after element (\<lambda>r. case r of
          None \<Rightarrow> after synchronize (\<lambda>_. ret (Inl xs))
        | Some x \<Rightarrow> ret (Inl (xs @ [x])))))"

definition fn_param_op :: "calls \<Rightarrow> fn_param option op" where
  "fn_param_op K = got (parse_pattern K) (\<lambda>pattern. need (expect TColon ''`:`'')
     (got (parse_closed_type K) (\<lambda>ty.
        ret (Some \<lparr>param_pattern = pattern, param_type = ty\<rparr>))))"

definition parse_fn :: "calls \<Rightarrow> bool \<Rightarrow> fn_item option op" where
  "parse_fn K is_pub = reads ps_pos (\<lambda>mark. need (expect TFn ''function'')
     (got (parse_ident ''function name'') (\<lambda>name. need (expect TLParen ''`(`'')
     (got (comma_list (fn_param_op K) (check TRParen)) (\<lambda>params. need (expect TRParen ''`)`'')
     (after (match TArrow) (\<lambda>arrow.
      got (if arrow then got (parse_closed_type K) (\<lambda>ty. ret (Some (Some ty)))
           else ret (Some None)) (\<lambda>return_type.
      got (parse_block K) (\<lambda>body.
      node mark (\<lambda>sp. \<lparr>fn_span = sp, fn_is_pub = is_pub, fn_name = name, fn_params = params,
        fn_return_type = return_type, fn_body = body\<rparr>))))))))))"

definition struct_field_op :: "calls \<Rightarrow> struct_field option op" where
  "struct_field_op K = got (parse_ident ''field name'') (\<lambda>name. need (expect TColon ''`:`'')
     (got (parse_closed_type K) (\<lambda>ty. ret (Some \<lparr>field_name = name, field_type = ty\<rparr>))))"

definition parse_struct :: "calls \<Rightarrow> bool \<Rightarrow> item option op" where
  "parse_struct K is_pub = reads ps_pos (\<lambda>mark. need (expect TStruct ''struct'')
     (got (parse_ident ''struct name'') (\<lambda>name. need (expect TLBrace ''`{`'')
     (got (comma_until TRBrace (struct_field_op K) []) (\<lambda>fs. need (expect TRBrace ''`}`'')
     (node mark (\<lambda>sp. StructItem sp is_pub name fs)))))))"

definition enum_variant_op :: "calls \<Rightarrow> enum_variant option op" where
  "enum_variant_op K = got (parse_ident ''variant name'') (\<lambda>name. after (match TLParen) (\<lambda>paren.
     if paren then got (comma_list (parse_type K) (check TRParen)) (\<lambda>fs.
       need (expect TRParen ''`)`'') (ret (Some \<lparr>variant_name = name, variant_fields = fs\<rparr>)))
     else ret (Some \<lparr>variant_name = name, variant_fields = []\<rparr>)))"

definition parse_enum :: "calls \<Rightarrow> bool \<Rightarrow> item option op" where
  "parse_enum K is_pub = reads ps_pos (\<lambda>mark. need (expect TEnum ''enum'')
     (got (parse_ident ''enum name'') (\<lambda>name. need (expect TLBrace ''`{`'')
     (got (comma_until TRBrace (enum_variant_op K) []) (\<lambda>vs. need (expect TRBrace ''`}`'')
     (node mark (\<lambda>sp. EnumItem sp is_pub name vs)))))))"

definition ends_items :: "parser \<Rightarrow> bool" where
  "ends_items s \<longleftrightarrow> check TRBrace s \<or> at_end s"

definition parse_impl :: "calls \<Rightarrow> bool \<Rightarrow> item option op" where
  "parse_impl K is_pub = reads ps_pos (\<lambda>mark. need (expect TImpl ''impl'')
     (got (parse_closed_type K) (\<lambda>ty. need (expect TLBrace ''`{`'')
     (after (repeat (item_list_step ends_items (parse_fn K False)) []) (\<lambda>methods.
      need (expect TRBrace ''`}`'') (node mark (\<lambda>sp. ImplItem sp is_pub ty methods)))))))"

definition parse_mod :: "calls \<Rightarrow> bool \<Rightarrow> item option op" where
  "parse_mod K is_pub = reads ps_pos (\<lambda>mark. need (expect TMod ''module'')
     (got (parse_ident ''module name'') (\<lambda>name. after (match TSemicolon) (\<lambda>semi.
      if semi then node mark (\<lambda>sp. ModItem sp is_pub name [] False)
      else need (expect TLBrace ''`{`'')
        (after (repeat (item_list_step ends_items (call_item K)) []) (\<lambda>items.
         need (expect TRBrace ''`}`'') (node mark (\<lambda>sp. ModItem sp is_pub name items True))))))))"

definition parse_static :: "calls \<Rightarrow> bool \<Rightarrow> item option op" where
  "parse_static K is_pub = reads ps_pos (\<lambda>mark. need (expect TStatic ''static'')
     (got (parse_ident ''static name'') (\<lambda>name. need (expect TColon ''`:`'')
     (got (parse_closed_type K) (\<lambda>ty. need (expect TEq ''`=`'') (got (parse_expr K) (\<lambda>init.
      node mark (\<lambda>sp. StaticItem sp is_pub name ty init))))))))"

definition parse_const :: "calls \<Rightarrow> bool \<Rightarrow> item option op" where
  "parse_const K is_pub = reads ps_pos (\<lambda>mark. need (expect TConst ''const'')
     (got (parse_ident ''const name'') (\<lambda>name. need (expect TColon ''`:`'')
     (got (parse_closed_type K) (\<lambda>ty. need (expect TEq ''`=`'') (got (parse_expr K) (\<lambda>init.
      node mark (\<lambda>sp. ConstItem sp is_pub name ty init))))))))"

definition parse_use :: "calls \<Rightarrow> bool \<Rightarrow> item option op" where
  "parse_use K is_pub = reads ps_pos (\<lambda>mark. need (expect TUse ''use'')
     (got parse_path (\<lambda>path. after (match TAs) (\<lambda>has_alias.
      got (if has_alias then parse_ident ''alias'' else ret (Some empty_ident)) (\<lambda>alias.
      need (expect TSemicolon ''`;`'') (node mark (\<lambda>sp. UseItem sp is_pub path has_alias alias)))))))"

definition parse_item :: "calls \<Rightarrow> item option op" where
  "parse_item K = after (match TPub) (\<lambda>is_pub. peek_kind (\<lambda>k.
     if k = TFn then got (parse_fn K is_pub) (\<lambda>f. ret (Some (FnItem f)))
     else if k = TStruct then parse_struct K is_pub
     else if k = TEnum then parse_enum K is_pub
     else if k = TImpl then parse_impl K is_pub
     else if k = TMod then parse_mod K is_pub
     else if k = TStatic then parse_static K is_pub
     else if k = TConst then parse_const K is_pub
     else if k = TUse then parse_use K is_pub
     else after (expected ''item'') (\<lambda>_. ret None)))"

subsection \<open>Tying the knot\<close>

fun rec_type :: "nat \<Rightarrow> type_expr option op"
  and rec_pattern :: "nat \<Rightarrow> pattern option op"
  and rec_primary_pattern :: "nat \<Rightarrow> pattern option op"
  and rec_expr :: "nat \<Rightarrow> expr option op"
  and rec_pow :: "nat \<Rightarrow> expr option op"
  and rec_unary :: "nat \<Rightarrow> expr option op"
  and rec_stmt :: "nat \<Rightarrow> stmt option op"
  and rec_item :: "nat \<Rightarrow> item option op" where
  "rec_type 0 s = Inl Out_Of_Fuel"
| "rec_type (Suc n) s = parse_type (Calls (rec_type n) (rec_pattern n) (rec_primary_pattern n)
     (rec_expr n) (rec_pow n) (rec_unary n) (rec_stmt n) (rec_item n)) s"
| "rec_pattern 0 s = Inl Out_Of_Fuel"
| "rec_pattern (Suc n) s = parse_pattern (Calls (rec_type n) (rec_pattern n) (rec_primary_pattern n)
     (rec_expr n) (rec_pow n) (rec_unary n) (rec_stmt n) (rec_item n)) s"
| "rec_primary_pattern 0 s = Inl Out_Of_Fuel"
| "rec_primary_pattern (Suc n) s = parse_primary_pattern (Calls (rec_type n) (rec_pattern n)
     (rec_primary_pattern n) (rec_expr n) (rec_pow n) (rec_unary n) (rec_stmt n) (rec_item n)) s"
| "rec_expr 0 s = Inl Out_Of_Fuel"
| "rec_expr (Suc n) s = parse_expr (Calls (rec_type n) (rec_pattern n) (rec_primary_pattern n)
     (rec_expr n) (rec_pow n) (rec_unary n) (rec_stmt n) (rec_item n)) s"
| "rec_pow 0 s = Inl Out_Of_Fuel"
| "rec_pow (Suc n) s = parse_pow (Calls (rec_type n) (rec_pattern n) (rec_primary_pattern n)
     (rec_expr n) (rec_pow n) (rec_unary n) (rec_stmt n) (rec_item n)) s"
| "rec_unary 0 s = Inl Out_Of_Fuel"
| "rec_unary (Suc n) s = parse_unary (Calls (rec_type n) (rec_pattern n) (rec_primary_pattern n)
     (rec_expr n) (rec_pow n) (rec_unary n) (rec_stmt n) (rec_item n)) s"
| "rec_stmt 0 s = Inl Out_Of_Fuel"
| "rec_stmt (Suc n) s = parse_stmt (Calls (rec_type n) (rec_pattern n) (rec_primary_pattern n)
     (rec_expr n) (rec_pow n) (rec_unary n) (rec_stmt n) (rec_item n)) s"
| "rec_item 0 s = Inl Out_Of_Fuel"
| "rec_item (Suc n) s = parse_item (Calls (rec_type n) (rec_pattern n) (rec_primary_pattern n)
     (rec_expr n) (rec_pow n) (rec_unary n) (rec_stmt n) (rec_item n)) s"

definition calls_of :: "nat \<Rightarrow> calls" where
  "calls_of n = Calls (rec_type n) (rec_pattern n) (rec_primary_pattern n) (rec_expr n) (rec_pow n)
     (rec_unary n) (rec_stmt n) (rec_item n)"

text \<open>
  A whole file. Every recursive call happens behind at least one token of its caller, so
  the number of tokens is fuel enough.
\<close>

definition parse_items :: "nat \<Rightarrow> item list op" where
  "parse_items n = repeat (item_list_step at_end (parse_item (calls_of n))) []"

definition parse :: "token list \<Rightarrow> string \<Rightarrow> file_id \<Rightarrow> diag_bag \<Rightarrow> stop + item list \<times> parser" where
  "parse tokens bytes fid bag = parse_items (length tokens) (new_parser tokens bytes fid bag)"

end
