(* ===== verification/Parser_Logic.thy ===== *)
theory Parser_Logic
  imports Parser
begin

text \<open>
  A calculus for the parser. \<open>eats s ts s'\<close> says that the cursor moved over the significant
  tokens \<open>ts\<close>, that the diagnostics only grew by parser errors, and that everything else is
  unchanged. A judgement \<open>does n c p H\<close> is total: from every ready state of context \<open>c\<close> with
  at most \<open>n\<close> significant tokens left, \<open>p\<close> returns, neither out of fuel nor outside the
  tokens, having eaten tokens that satisfy \<open>H\<close> together with the result. \<open>step\<close> is the same
  for the middle of a function that began \<open>ts\<close> tokens earlier. The rules follow the
  combinators, so a proof about a function follows its text.
\<close>

subsection \<open>What is left to read\<close>

definition significant :: "token \<Rightarrow> bool" where
  "significant t \<longleftrightarrow> tok_kind t \<noteq> TError \<and> tok_kind t \<noteq> TDocComment \<and> \<not> is_reserved (tok_kind t)"

definition rest :: "parser \<Rightarrow> token list" where
  "rest s = filter significant (drop (ps_pos s) (ps_tokens s))"

definition ready :: "parser \<Rightarrow> bool" where
  "ready s \<longleftrightarrow> ps_pos s < length (ps_tokens s) \<and> tok_kind (last (ps_tokens s)) = TEof \<and>
     significant (ps_tokens s ! ps_pos s)"

text \<open>No closing \<open>>>\<close> can be split: none is in the input and no half is banked.\<close>

definition plain :: "parser \<Rightarrow> bool" where
  "plain s \<longleftrightarrow> ps_banked s = 0 \<and> TGreaterGreater \<notin> tok_kind ` set (ps_tokens s)"

definition parser_error :: "diagnostic \<Rightarrow> bool" where
  "parser_error d \<longleftrightarrow> is_error d \<and> diag_code d \<in> {kParserUnexpectedToken, kParserReservedWord}"

record ctx =
  cx_bytes :: string
  cx_file :: file_id
  cx_struct_lit :: bool

definition ctx_of :: "parser \<Rightarrow> ctx" where
  "ctx_of s = \<lparr>cx_bytes = ps_bytes s, cx_file = ps_file s, cx_struct_lit = ps_struct_lit s\<rparr>"

definition grew :: "parser \<Rightarrow> parser \<Rightarrow> bool" where
  "grew s s' \<longleftrightarrow> (\<exists>new. entries (ps_bag s') = entries (ps_bag s) @ new \<and> list_all parser_error new)"

definition eats :: "parser \<Rightarrow> token list \<Rightarrow> parser \<Rightarrow> bool" where
  "eats s ts s' \<longleftrightarrow> ready s' \<and> ps_tokens s' = ps_tokens s \<and> ctx_of s' = ctx_of s \<and>
     rest s = ts @ rest s' \<and> grew s s' \<and> (plain s \<longrightarrow> plain s') \<and>
     (if ts = [] then ps_pos s' = ps_pos s \<and> ps_previous s' = ps_previous s
      else ps_pos s < ps_pos s' \<and> ps_previous s' = tok_span (last ts))"

definition clean :: "parser \<Rightarrow> parser \<Rightarrow> bool" where
  "clean s s' \<longleftrightarrow> plain s \<and> entries (ps_bag s') = entries (ps_bag s)"

lemma drop_ready: "ready s \<Longrightarrow> drop (ps_pos s) (ps_tokens s) =
    ps_tokens s ! ps_pos s # drop (Suc (ps_pos s)) (ps_tokens s)"
  by (simp add: ready_def Cons_nth_drop_Suc)

lemma rest_ready: "ready s \<Longrightarrow> rest s = ps_tokens s ! ps_pos s #
    filter significant (drop (Suc (ps_pos s)) (ps_tokens s))"
  by (simp add: rest_def drop_ready) (simp add: ready_def)

lemma hd_rest: "ready s \<Longrightarrow> hd (rest s) = ps_tokens s ! ps_pos s"
  by (simp add: rest_ready)

lemma rest_ne: "ready s \<Longrightarrow> rest s \<noteq> []"
  by (simp add: rest_ready)

lemma length_rest: "length (rest s) \<le> length (ps_tokens s) - ps_pos s"
  by (simp add: rest_def) (metis length_drop length_filter_le)

lemma kind_at_ready: "ready s \<Longrightarrow> kind_at s (ps_pos s) = tok_kind (hd (rest s))"
  by (simp add: hd_rest kind_at_def)

lemma at_end_ready: "ready s \<Longrightarrow> at_end s \<longleftrightarrow> tok_kind (hd (rest s)) = TEof"
  by (simp add: at_end_def kind_at_ready ready_def)

lemma check_ready: "ready s \<Longrightarrow> check k s \<longleftrightarrow> k \<noteq> TEof \<and> tok_kind (hd (rest s)) = k"
  by (auto simp: check_def at_end_ready kind_at_ready)

lemma grew_refl [simp]: "grew s s"
  by (simp add: grew_def)

lemma grew_trans: "grew a b \<Longrightarrow> grew b c \<Longrightarrow> grew a c"
  by (auto simp: grew_def)

lemma eats_refl: "ready s \<Longrightarrow> eats s [] s"
  by (simp add: eats_def)

lemma eats_trans: "eats a ts b \<Longrightarrow> eats b us c \<Longrightarrow> eats a (ts @ us) c"
  by (cases "ts = []"; cases "us = []") (auto simp: eats_def intro: grew_trans)

lemma eats_ready: "eats s ts s' \<Longrightarrow> ready s'"
  by (simp add: eats_def)

lemma clean_through:
  assumes "clean a c" "eats a ts b" "eats b us c"
  shows clean_prefix: "clean a b" and clean_suffix: "clean b c"
proof -
  obtain m n where "entries (ps_bag b) = entries (ps_bag a) @ m"
    "entries (ps_bag c) = entries (ps_bag b) @ n"
    using assms(2,3) unfolding eats_def grew_def by blast
  moreover have "entries (ps_bag c) = entries (ps_bag a)" "plain a" "plain b"
    using assms(1,2) unfolding clean_def eats_def by blast+
  ultimately show "clean a b" "clean b c" unfolding clean_def by auto
qed

subsection \<open>Skipping and advancing\<close>

lemma skip_insignificant_run:
  "\<lbrakk>ps_pos s < length (ps_tokens s); tok_kind (last (ps_tokens s)) = TEof\<rbrakk> \<Longrightarrow>
   ready (skip_insignificant s) \<and> ps_tokens (skip_insignificant s) = ps_tokens s \<and>
   ctx_of (skip_insignificant s) = ctx_of s \<and> rest (skip_insignificant s) = rest s \<and>
   grew s (skip_insignificant s) \<and> ps_banked (skip_insignificant s) = ps_banked s \<and>
   ps_pos s \<le> ps_pos (skip_insignificant s) \<and>
   ps_previous (skip_insignificant s) = ps_previous s"
proof (induction s rule: skip_insignificant.induct)
  case (1 s)
  let ?t = "ps_tokens s ! ps_pos s"
  let ?e = "emit_parser kParserReservedWord (tok_span ?t)
    (''`'' @ token_text (ps_bytes s) (tok_span ?t) @ ''` is reserved for future use'') s"
  have here: "drop (ps_pos s) (ps_tokens s) = ?t # drop (Suc (ps_pos s)) (ps_tokens s)"
    using "1.prems" by (simp add: Cons_nth_drop_Suc)
  have more: "Suc (ps_pos s) < length (ps_tokens s)" if "tok_kind ?t \<noteq> TEof"
    using that "1.prems" by (metis Suc_lessI diff_Suc_1 last_conv_nth list.size(3) not_less_zero)
  have same: "ps_tokens (?e\<lparr>ps_pos := k\<rparr>) = ps_tokens s" "ctx_of (?e\<lparr>ps_pos := k\<rparr>) = ctx_of s"
    "ps_banked (?e\<lparr>ps_pos := k\<rparr>) = ps_banked s" "ps_previous (?e\<lparr>ps_pos := k\<rparr>) = ps_previous s"
    "grew s (?e\<lparr>ps_pos := k\<rparr>)" for k
    by (simp_all add: emit_parser_def ctx_of_def grew_def parser_error_def)
  consider "tok_kind ?t = TError \<or> tok_kind ?t = TDocComment"
    | "\<not> (tok_kind ?t = TError \<or> tok_kind ?t = TDocComment)" "is_reserved (tok_kind ?t)"
    | "significant ?t"
    by (auto simp: significant_def)
  then show ?case
  proof cases
    case 1
    then have "tok_kind ?t \<noteq> TEof" by auto
    note IH = "1.IH"(1) [OF "1.prems"(1) refl 1]
    have "skip_insignificant s = skip_insignificant (s\<lparr>ps_pos := ps_pos s + 1\<rparr>)"
      using "1.prems" 1 by (subst skip_insignificant.simps) (simp add: Let_def)
    moreover have "rest (s\<lparr>ps_pos := ps_pos s + 1\<rparr>) = rest s"
      using 1 by (auto simp: rest_def here significant_def)
    moreover have "grew s s'" if "grew (s\<lparr>ps_pos := ps_pos s + 1\<rparr>) s'" for s'
      using that by (simp add: grew_def)
    moreover have "ctx_of (s\<lparr>ps_pos := ps_pos s + 1\<rparr>) = ctx_of s" by (simp add: ctx_of_def)
    ultimately show ?thesis using IH more [OF \<open>tok_kind ?t \<noteq> TEof\<close>] "1.prems" by simp
  next
    case 2
    then have "tok_kind ?t \<noteq> TEof" by (auto simp: is_reserved_def)
    note IH = "1.IH"(2) [OF "1.prems"(1) refl 2]
    have "skip_insignificant s = skip_insignificant (?e\<lparr>ps_pos := ps_pos s + 1\<rparr>)"
      using "1.prems" 2 by (subst skip_insignificant.simps) (simp add: Let_def)
    moreover have "rest (?e\<lparr>ps_pos := ps_pos s + 1\<rparr>) = rest s"
      using 2 by (simp add: rest_def here significant_def emit_parser_def)
    ultimately show ?thesis
      using IH more [OF \<open>tok_kind ?t \<noteq> TEof\<close>] "1.prems" same [of "ps_pos s + 1"]
      by (auto intro: grew_trans)
  next
    case 3
    then have "skip_insignificant s = s"
      by (subst skip_insignificant.simps) (auto simp: Let_def significant_def)
    with 3 "1.prems" show ?thesis by (simp add: ready_def)
  qed
qed

definition advanced :: "parser \<Rightarrow> parser" where
  "advanced s = skip_insignificant
     (s\<lparr>ps_previous := tok_span (ps_tokens s ! ps_pos s), ps_pos := ps_pos s + 1\<rparr>)"

lemma eats_advanced:
  assumes "ready s" "tok_kind (hd (rest s)) \<noteq> TEof"
  shows "eats s [hd (rest s)] (advanced s)"
proof -
  let ?s = "s\<lparr>ps_previous := tok_span (ps_tokens s ! ps_pos s), ps_pos := ps_pos s + 1\<rparr>"
  have "Suc (ps_pos s) < length (ps_tokens s)"
    using assms
    by (metis Suc_lessI diff_Suc_1 hd_rest last_conv_nth list.size(3) not_less_zero ready_def)
  then have "ready (skip_insignificant ?s) \<and> ps_tokens (skip_insignificant ?s) = ps_tokens ?s \<and>
   ctx_of (skip_insignificant ?s) = ctx_of ?s \<and> rest (skip_insignificant ?s) = rest ?s \<and>
   grew ?s (skip_insignificant ?s) \<and> ps_banked (skip_insignificant ?s) = ps_banked ?s \<and>
   ps_pos ?s \<le> ps_pos (skip_insignificant ?s) \<and>
   ps_previous (skip_insignificant ?s) = ps_previous ?s"
    using assms by (intro skip_insignificant_run) (simp_all add: ready_def)
  then show ?thesis
    using assms by (auto simp: eats_def advanced_def rest_ready ctx_of_def grew_def plain_def)
      (simp_all add: rest_def)
qed

lemma peek_ready: "ready s \<Longrightarrow> peek s = Inr (hd (rest s), s)"
  by (simp add: peek_def hd_rest ready_def)

lemma advance_ready: "ready s \<Longrightarrow> advance s = Inr ((), advanced s)"
  by (simp add: advance_def after_def peek_ready update_def advanced_def hd_rest)

subsection \<open>Outcomes\<close>

definition wp :: "'a op \<Rightarrow> ('a \<Rightarrow> parser \<Rightarrow> bool) \<Rightarrow> parser \<Rightarrow> bool" where
  "wp m Q s \<longleftrightarrow> (case m s of Inl e \<Rightarrow> False | Inr (x, s') \<Rightarrow> Q x s')"

lemma wp_iff: "wp m Q s \<longleftrightarrow> (\<exists>x s'. m s = Inr (x, s') \<and> Q x s')"
  by (auto simp: wp_def split: sum.splits)

lemma wp_ret [simp]: "wp (ret x) Q = Q x"
  by (rule ext) (simp add: wp_def ret_def)

lemma wp_after [simp]: "wp (after m f) Q = wp m (\<lambda>x. wp (f x) Q)"
  by (rule ext) (auto simp: wp_def after_def split: sum.splits)

lemma wp_reads [simp]: "wp (reads f k) Q s \<longleftrightarrow> wp (k (f s)) Q s"
  by (simp add: wp_def reads_def)

lemma wp_if_p [simp]: "wp (if_p p a b) Q s \<longleftrightarrow> (if p s then wp a Q s else wp b Q s)"
  by (simp add: wp_def if_p_def)

lemma wp_update [simp]: "wp (update f) Q = (\<lambda>s. Q () (f s))"
  by (rule ext) (simp add: wp_def update_def)

lemma wp_peek: "ready s \<Longrightarrow> wp peek Q s \<longleftrightarrow> Q (hd (rest s)) s"
  by (simp add: wp_def peek_ready)

lemma wp_advance: "ready s \<Longrightarrow> wp advance Q s \<longleftrightarrow> Q () (advanced s)"
  by (simp add: wp_def advance_ready)

lemma wp_mono: "wp m Q s \<Longrightarrow> (\<And>x s'. Q x s' \<Longrightarrow> R x s') \<Longrightarrow> wp m R s"
  by (auto simp: wp_iff)

subsection \<open>The judgements\<close>

text \<open>
  What a function promises: whether the run was clean, the tokens eaten, the result. A
  null pointer is never clean; \<open>parses\<close> also asks for progress.
\<close>

type_synonym 'r promise = "bool \<Rightarrow> token list \<Rightarrow> 'r \<Rightarrow> bool"

definition yields :: "(token list \<Rightarrow> 'x \<Rightarrow> bool) \<Rightarrow> 'x option promise" where
  "yields G cl ts r \<longleftrightarrow> (case r of None \<Rightarrow> \<not> cl | Some x \<Rightarrow> cl \<longrightarrow> G ts x)"

definition parses :: "(token list \<Rightarrow> 'x \<Rightarrow> bool) \<Rightarrow> 'x option promise" where
  "parses G cl ts r \<longleftrightarrow> (case r of None \<Rightarrow> \<not> cl | Some x \<Rightarrow> ts \<noteq> [] \<and> (cl \<longrightarrow> G ts x))"

definition gives :: "(token list \<Rightarrow> 'x \<Rightarrow> bool) \<Rightarrow> 'x promise" where
  "gives G cl ts x \<longleftrightarrow> (cl \<longrightarrow> G ts x)"

text \<open>
  \<open>begun n c mk ts P s0 s\<close>: the function began in \<open>s0\<close> (context \<open>c\<close>, position \<open>mk\<close>, at most
  \<open>n\<close> tokens left), has eaten \<open>ts\<close> to reach \<open>s\<close>, and \<open>P\<close> holds if that was clean.
\<close>

definition begun :: "nat \<Rightarrow> ctx \<Rightarrow> nat \<Rightarrow> token list \<Rightarrow> bool \<Rightarrow> parser \<Rightarrow> parser \<Rightarrow> bool" where
  "begun n c mk ts P s0 s \<longleftrightarrow> ready s0 \<and> ctx_of s0 = c \<and> ps_pos s0 = mk \<and> length (rest s0) \<le> n \<and>
     eats s0 ts s \<and> (clean s0 s \<longrightarrow> P)"

definition keeps :: "parser \<Rightarrow> 'r promise \<Rightarrow> 'r \<Rightarrow> parser \<Rightarrow> bool" where
  "keeps s0 H r s' \<longleftrightarrow> (\<exists>ts b. eats s0 ts s' \<and> (clean s0 s' \<longrightarrow> b) \<and> H b ts r)"

definition step :: "nat \<Rightarrow> ctx \<Rightarrow> nat \<Rightarrow> token list \<Rightarrow> bool \<Rightarrow> 'r op \<Rightarrow> 'r promise \<Rightarrow> bool" where
  "step n c mk ts P m H \<longleftrightarrow> (\<forall>s0 s. begun n c mk ts P s0 s \<longrightarrow> wp m (keeps s0 H) s)"

definition facing ::
  "nat \<Rightarrow> ctx \<Rightarrow> nat \<Rightarrow> token list \<Rightarrow> bool \<Rightarrow> token \<Rightarrow> 'r op \<Rightarrow> 'r promise \<Rightarrow> bool" where
  "facing n c mk ts P t m H \<longleftrightarrow>
     (\<forall>s0 s. begun n c mk ts P s0 s \<longrightarrow> hd (rest s) = t \<longrightarrow> wp m (keeps s0 H) s)"

definition does :: "nat \<Rightarrow> ctx \<Rightarrow> 'r op \<Rightarrow> 'r promise \<Rightarrow> bool" where
  "does n c m H \<longleftrightarrow> (\<forall>s. ready s \<longrightarrow> ctx_of s = c \<longrightarrow> length (rest s) \<le> n \<longrightarrow> wp m (keeps s H) s)"

lemma stepI: "(\<And>s0 s. begun n c mk ts P s0 s \<Longrightarrow> wp m (keeps s0 H) s) \<Longrightarrow> step n c mk ts P m H"
  by (simp add: step_def)

lemma stepD: "step n c mk ts P m H \<Longrightarrow> begun n c mk ts P s0 s \<Longrightarrow> wp m (keeps s0 H) s"
  by (simp add: step_def)

lemma facingI: "(\<And>s0 s. begun n c mk ts P s0 s \<Longrightarrow> hd (rest s) = t \<Longrightarrow> wp m (keeps s0 H) s) \<Longrightarrow>
    facing n c mk ts P t m H"
  by (simp add: facing_def)

lemma facingD: "facing n c mk ts P t m H \<Longrightarrow> begun n c mk ts P s0 s \<Longrightarrow> hd (rest s) = t \<Longrightarrow>
    wp m (keeps s0 H) s"
  by (simp add: facing_def)

lemma facing_step: "step n c mk ts P m H \<Longrightarrow> facing n c mk ts P t m H"
  by (simp add: facing_def step_def)

lemma begun_eats:
  assumes "begun n c mk ts P s0 s" "eats s us s'" "clean s s' \<Longrightarrow> P \<Longrightarrow> Q"
  shows "begun n c mk (ts @ us) Q s0 s'"
  using assms clean_through [of s0 s' ts s us] by (auto simp: begun_def intro: eats_trans)

lemma begun_ready: "begun n c mk ts P s0 s \<Longrightarrow> ready s"
  by (auto simp: begun_def eats_def)

lemma begun_less:
  "begun n c mk ts P s0 s \<Longrightarrow> length (rest s) + length ts \<le> n \<and> ctx_of s = c"
  by (auto simp: begun_def eats_def)

lemma does_step: "(\<And>mk. step n c mk [] True m H) \<Longrightarrow> does n c m H"
  by (auto simp: step_def does_def begun_def eats_refl)

text \<open>The rule for a call: what it promises becomes known, and its tokens are eaten.\<close>

lemma step_call:
  assumes p: "does m c p H'" and n: "n \<le> m + length ts"
    and k: "\<And>r us b. H' b us r \<Longrightarrow> step n c mk (ts @ us) (P \<and> H' True us r) (f r) H"
  shows "step n c mk ts P (after p f) H"
proof (rule stepI)
  fix s0 s
  assume b: "begun n c mk ts P s0 s"
  with n have "wp p (keeps s H') s"
    using p begun_ready begun_less unfolding does_def by fastforce
  then show "wp (after p f) (keeps s0 H) s"
    unfolding wp_after
  proof (rule wp_mono)
    fix r s'
    assume "keeps s H' r s'"
    then obtain us b' where *: "eats s us s'" "clean s s' \<longrightarrow> b'" "H' b' us r"
      by (auto simp: keeps_def)
    have "begun n c mk (ts @ us) (P \<and> H' True us r) s0 s'"
      using b *(1) by (rule begun_eats) (use *(2,3) in auto)
    with k [OF *(3)] show "wp (f r) (keeps s0 H) s'" by (rule stepD)
  qed
qed

text \<open>Sequencing inside one function: the promise of the first part counts from its start.\<close>

lemma step_bind:
  assumes m: "step n c mk ts P m H'"
    and k: "\<And>r us b. H' b us r \<Longrightarrow> step n c mk us (H' True us r) (f r) H"
  shows "step n c mk ts P (after m f) H"
proof (rule stepI)
  fix s0 s
  assume b: "begun n c mk ts P s0 s"
  from stepD [OF m b] show "wp (after m f) (keeps s0 H) s"
    unfolding wp_after
  proof (rule wp_mono)
    fix r s'
    assume "keeps s0 H' r s'"
    then obtain us b' where *: "eats s0 us s'" "clean s0 s' \<longrightarrow> b'" "H' b' us r"
      by (auto simp: keeps_def)
    have "begun n c mk us (H' True us r) s0 s'"
      using b * by (auto simp: begun_def)
    with k [OF *(3)] show "wp (f r) (keeps s0 H) s'" by (rule stepD)
  qed
qed

lemma step_ret: "H P ts x \<Longrightarrow> step n c mk ts P (ret x) H"
  by (auto simp: step_def keeps_def begun_def)

lemma step_weaken: "step n c mk ts Q m H \<Longrightarrow> (P \<Longrightarrow> Q) \<Longrightarrow> step n c mk ts P m H"
  by (auto simp: step_def begun_def)

lemma keeps_mono: "keeps s0 H r s \<Longrightarrow> (\<And>b us. H b us r \<Longrightarrow> H' b us r) \<Longrightarrow> keeps s0 H' r s"
  unfolding keeps_def by blast

lemma step_promise:
  assumes "step n c mk ts P m H" "\<And>b us r. H b us r \<Longrightarrow> H' b us r"
  shows "step n c mk ts P m H'"
  by (rule stepI, rule wp_mono [OF stepD [OF assms(1)]], assumption,
      erule keeps_mono, rule assms(2))

subsection \<open>Rules for the combinators\<close>

text \<open>A promise that allows a null pointer after a noisy run.\<close>

definition nullable :: "'x option promise \<Rightarrow> bool" where
  "nullable H \<longleftrightarrow> (\<forall>ts. H False ts None)"

lemma nullable_yields [simp]: "nullable (yields G)"
  by (simp add: nullable_def yields_def)

lemma nullable_parses [simp]: "nullable (parses G)"
  by (simp add: nullable_def parses_def)

lemma step_null: "nullable H \<Longrightarrow> (P \<Longrightarrow> False) \<Longrightarrow> step n c mk ts P (ret None) H"
  by (rule step_ret) (cases P, auto simp: nullable_def)

lemma step_got_yields:
  assumes "does m c p (yields G)" "n \<le> m + length ts" "nullable H"
    and "\<And>x us. step n c mk (ts @ us) (P \<and> G us x) (f x) H"
  shows "step n c mk ts P (got p f) H"
  unfolding got_def
proof (rule step_call [OF assms(1,2)])
  fix r us b
  show "step n c mk (ts @ us) (P \<and> yields G True us r)
     (case r of None \<Rightarrow> ret None | Some x \<Rightarrow> f x) H"
    using assms(3,4) by (cases r) (auto simp: yields_def intro: step_null)
qed

lemma step_got:
  assumes "does m c p (parses G)" "n \<le> m + length ts" "nullable H"
    and "\<And>x us. us \<noteq> [] \<Longrightarrow> step n c mk (ts @ us) (P \<and> G us x) (f x) H"
  shows "step n c mk ts P (got p f) H"
  unfolding got_def
proof (rule step_call [OF assms(1,2)])
  fix r us b
  assume "parses G b us r"
  then show "step n c mk (ts @ us) (P \<and> parses G True us r)
     (case r of None \<Rightarrow> ret None | Some x \<Rightarrow> f x) H"
    using assms(3,4) by (cases r) (auto simp: parses_def intro: step_null)
qed

lemma step_got_ret: "step n c mk ts P (f x) H \<Longrightarrow> step n c mk ts P (got (ret (Some x)) f) H"
  by (simp add: step_def got_def)

lemma step_got_if:
  "(b \<Longrightarrow> step n c mk ts P (got p f) H) \<Longrightarrow> (\<not> b \<Longrightarrow> step n c mk ts P (got q f) H) \<Longrightarrow>
     step n c mk ts P (got (if b then p else q) f) H"
  by simp

lemma step_got_got: "step n c mk ts P (got p (\<lambda>x. got (q x) f)) H \<Longrightarrow>
    step n c mk ts P (got (got p q) f) H"
  by (simp add: step_def got_def) (smt (verit) wp_mono wp_ret option.case_eq_if wp_after wp_iff)

lemma step_got_if_p: "step n c mk ts P (got a f) H \<Longrightarrow> step n c mk ts P (got b f) H \<Longrightarrow>
    step n c mk ts P (got (if_p q a b) f) H"
  by (auto simp: step_def got_def)

lemma step_got_after: "step n c mk ts P (after m (\<lambda>x. got (g x) f)) H \<Longrightarrow>
    step n c mk ts P (got (after m g) f) H"
  by (simp add: step_def got_def)

lemma step_prod: "(\<And>a b. x = (a, b) \<Longrightarrow> step n c mk ts P (f a b) H) \<Longrightarrow>
    step n c mk ts P (case x of (a, b) \<Rightarrow> f a b) H"
  by (cases x) simp

lemma step_reads_pos: "step n c mk [] P (f mk) H \<Longrightarrow> step n c mk [] P (reads ps_pos f) H"
  by (auto simp: step_def begun_def eats_def)

lemma step_reads: "(\<And>x. step n c mk ts P (f x) H) \<Longrightarrow> step n c mk ts P (reads g f) H"
  by (auto simp: step_def)

lemma step_reads_bytes: "step n c mk ts P (f (cx_bytes c)) H \<Longrightarrow> step n c mk ts P (reads ps_bytes f) H"
  by (auto simp: step_def begun_def eats_def ctx_of_def)

lemma step_reads_lit:
  "step n c mk ts P (f (cx_struct_lit c)) H \<Longrightarrow> step n c mk ts P (reads ps_struct_lit f) H"
  by (auto simp: step_def begun_def eats_def ctx_of_def)

lemma step_if_p: "step n c mk ts P a H \<Longrightarrow> step n c mk ts P b H \<Longrightarrow> step n c mk ts P (if_p p a b) H"
  by (auto simp: step_def)

lemma step_if: "(b \<Longrightarrow> step n c mk ts P x H) \<Longrightarrow> (\<not> b \<Longrightarrow> step n c mk ts P y H) \<Longrightarrow>
    step n c mk ts P (if b then x else y) H"
  by simp

lemma step_peek_kind:
  "(\<And>t. facing n c mk ts P t (f (tok_kind t)) H) \<Longrightarrow> step n c mk ts P (peek_kind f) H"
  by (auto simp: step_def facing_def peek_kind_def wp_peek begun_ready)

lemma facing_peek: "facing n c mk ts P t (f t) H \<Longrightarrow> facing n c mk ts P t (after peek f) H"
  by (auto simp: facing_def wp_peek begun_ready)

lemma facing_reads_bytes:
  "facing n c mk ts P t (f (cx_bytes c)) H \<Longrightarrow> facing n c mk ts P t (reads ps_bytes f) H"
  by (auto simp: facing_def begun_def eats_def ctx_of_def)

lemma facing_if: "(b \<Longrightarrow> facing n c mk ts P t x H) \<Longrightarrow> (\<not> b \<Longrightarrow> facing n c mk ts P t y H) \<Longrightarrow>
    facing n c mk ts P t (if b then x else y) H"
  by simp

lemma facing_advance:
  assumes "tok_kind t \<noteq> TEof" "step n c mk (ts @ [t]) P (f ()) H"
  shows "facing n c mk ts P t (after advance f) H"
proof (rule facingI)
  fix s0 s
  assume b: "begun n c mk ts P s0 s" "hd (rest s) = t"
  then have "eats s [t] (advanced s)"
    using assms(1) eats_advanced [of s] begun_ready [OF b(1)] by simp
  from begun_eats [OF b(1) this, of P] stepD [OF assms(2)]
  show "wp (after advance f) (keeps s0 H) s"
    by (simp add: wp_advance begun_ready [OF b(1)])
qed

lemma step_check:
  assumes "\<And>t. tok_kind t = k \<Longrightarrow> facing n c mk ts P t a H" "step n c mk ts P b H"
  shows "step n c mk ts P (if_p (check k) a b) H"
proof (rule stepI)
  fix s0 s
  assume "begun n c mk ts P s0 s"
  with assms show "wp (if_p (check k) a b) (keeps s0 H) s"
    by (auto simp: check_ready begun_ready intro: stepD facingD)
qed

lemma wp_match: "ready s \<Longrightarrow> wp (match k) Q s \<longleftrightarrow>
    (if k \<noteq> TEof \<and> tok_kind (hd (rest s)) = k then Q True (advanced s) else Q False s)"
  by (auto simp: match_def check_ready wp_advance)

lemma step_match:
  assumes "k \<noteq> TEof" "\<And>t. tok_kind t = k \<Longrightarrow> step n c mk (ts @ [t]) P (f True) H"
    "step n c mk ts P (f False) H"
  shows "step n c mk ts P (after (match k) f) H"
proof (rule stepI)
  fix s0 s
  assume b: "begun n c mk ts P s0 s"
  note r = begun_ready [OF b]
  show "wp (after (match k) f) (keeps s0 H) s"
  proof (cases "tok_kind (hd (rest s)) = k")
    case True
    then have "eats s [hd (rest s)] (advanced s)"
      using assms(1) eats_advanced r by simp
    from begun_eats [OF b this, of P] stepD [OF assms(2) [OF True]] True assms(1)
    show ?thesis by (simp add: wp_match r)
  next
    case False
    with assms(3) b show ?thesis by (simp add: wp_match r stepD)
  qed
qed

subsection \<open>Failing and building nodes\<close>

definition span_of :: "ctx \<Rightarrow> token list \<Rightarrow> span" where
  "span_of c ts =
     (let start = span_offset (tok_span (hd ts));
          end = span_offset (tok_span (last ts)) + span_length (tok_span (last ts))
      in if end < start then \<lparr>span_file = cx_file c, span_offset = start, span_length = 0\<rparr>
         else \<lparr>span_file = cx_file c, span_offset = start, span_length = end - start\<rparr>)"

lemma eats_emit:
  assumes "ready s"
  shows "eats s [] (emit_parser kParserUnexpectedToken sp m s)"
    "\<not> clean s (emit_parser kParserUnexpectedToken sp m s)"
proof -
  let ?s = "emit_parser kParserUnexpectedToken sp m s"
  have "ready ?s" "rest ?s = rest s" "ctx_of ?s = ctx_of s" "plain ?s = plain s"
    using assms by (simp_all add: ready_def rest_def ctx_of_def plain_def emit_parser_def)
  then show "eats s [] ?s" "\<not> clean s ?s"
    by (simp_all add: eats_def grew_def parser_error_def clean_def emit_parser_def)
qed

lemma wp_span_here: "ready s \<Longrightarrow> (\<And>sp. Q sp s) \<Longrightarrow> wp (span_from (ps_pos s)) Q s"
  by (auto simp: wp_def span_from_def ready_def Let_def)

lemma wp_expected:
  assumes "ready s" "\<And>s'. eats s [] s' \<Longrightarrow> \<not> clean s s' \<Longrightarrow> Q False s'"
  shows "wp (expected what) Q s"
  using assms by (auto simp: expected_def wp_peek eats_emit intro!: wp_span_here)

lemma step_expected:
  assumes "step n c mk ts False (f False) H"
  shows "step n c mk ts P (after (expected what) f) H"
proof (rule stepI)
  fix s0 s
  assume b: "begun n c mk ts P s0 s"
  show "wp (after (expected what) f) (keeps s0 H) s"
    unfolding wp_after
  proof (rule wp_expected [OF begun_ready [OF b]])
    fix s'
    assume "eats s [] s'" "\<not> clean s s'"
    with begun_eats [OF b, of "[]" s' False] show "wp (f False) (keeps s0 H) s'"
      by (simp add: stepD [OF assms])
  qed
qed

lemma step_after_ret: "step n c mk ts P (f x) H \<Longrightarrow> step n c mk ts P (after (ret x) f) H"
  by (simp add: step_def)

lemma step_expect:
  assumes "k \<noteq> TEof" "\<And>t. tok_kind t = k \<Longrightarrow> step n c mk (ts @ [t]) P (f True) H"
    "step n c mk ts False (f False) H"
  shows "step n c mk ts P (after (expect k what) f) H"
proof -
  have "step n c mk ts P (after (match k) (\<lambda>b. after (if b then ret True else expected what) f)) H"
    by (rule step_match) (use assms in \<open>auto intro: step_after_ret step_expected\<close>)
  moreover have "after (expect k what) f =
      after (match k) (\<lambda>b. after (if b then ret True else expected what) f)"
    by (rule ext) (simp add: expect_def after_def split: sum.split)
  ultimately show ?thesis by simp
qed

lemma step_need_expect:
  assumes "k \<noteq> TEof" "nullable H" "\<And>t. tok_kind t = k \<Longrightarrow> step n c mk (ts @ [t]) P m H"
  shows "step n c mk ts P (need (expect k what) m) H"
  unfolding need_def using assms by (intro step_expect) (auto intro: step_null)

lemma step_expect_none:
  "k \<noteq> TEof \<Longrightarrow> nullable H \<Longrightarrow> step n c mk ts False (after (expect k what) (\<lambda>_. ret None)) H"
  by (intro step_expect) (auto intro: step_null)

lemma facing_expect:
  assumes "tok_kind t \<noteq> k" "step n c mk ts False (f False) H"
  shows "facing n c mk ts P t (after (expect k what) f) H"
proof (rule facingI)
  fix s0 s
  assume b: "begun n c mk ts P s0 s" "hd (rest s) = t"
  then show "wp (after (expect k what) f) (keeps s0 H) s"
    using stepD [OF step_expected [where f = f and P = P and what = what, OF assms(2)] b(1)] assms(1)
    by (simp add: expect_def wp_match begun_ready)
qed

lemma step_span_from:
  assumes "ts \<noteq> []" "step n c mk ts P (f (span_of c ts)) H"
  shows "step n c mk ts P (after (span_from mk) f) H"
proof (rule stepI)
  fix s0 s
  assume b: "begun n c mk ts P s0 s"
  then have e: "ready s0" "ps_pos s0 = mk" "eats s0 ts s" "ctx_of s = c"
    by (auto simp: begun_def eats_def)
  then have "ps_tokens s ! mk = hd ts" "mk < length (ps_tokens s)"
    using assms(1) hd_rest [of s0] by (auto simp: eats_def ready_def)
  moreover have "ps_previous s = tok_span (last ts)" "ps_file s = cx_file c"
    using e assms(1) by (auto simp: eats_def ctx_of_def)
  ultimately have "span_from mk s = Inr (span_of c ts, s)"
    by (simp add: span_from_def span_of_def Let_def)
  then show "wp (after (span_from mk) f) (keeps s0 H) s"
    using stepD [OF assms(2) b] by (simp add: wp_def after_def)
qed

lemma step_node:
  "ts \<noteq> [] \<Longrightarrow> H P ts (Some (f (span_of c ts))) \<Longrightarrow> step n c mk ts P (node mk f) H"
  unfolding node_def by (intro step_span_from step_ret)

lemma does_without_struct_lit:
  assumes "does n (c\<lparr>cx_struct_lit := False\<rparr>) p H"
  shows "does n c (without_struct_lit p) H"
  unfolding does_def
proof (intro allI impI)
  fix s :: parser
  let ?s = "s\<lparr>ps_struct_lit := False\<rparr>"
  have same: "rest ?s = rest s" "ready ?s = ready s" "ctx_of ?s = (ctx_of s)\<lparr>cx_struct_lit := False\<rparr>"
    by (simp_all add: rest_def ready_def ctx_of_def)
  assume s: "ready s" "ctx_of s = c" "length (rest s) \<le> n"
  then have "wp p (keeps ?s H) ?s"
    using assms same by (simp add: does_def)
  then have "wp p (\<lambda>r s'. keeps s H r (s'\<lparr>ps_struct_lit := ps_struct_lit s\<rparr>)) ?s"
  proof (rule wp_mono)
    fix r and s' :: parser
    let ?s' = "s'\<lparr>ps_struct_lit := ps_struct_lit s\<rparr>"
    assume "keeps ?s H r s'"
    then obtain ts b where e: "eats ?s ts s'" "clean ?s s' \<longrightarrow> b" "H b ts r" by (auto simp: keeps_def)
    have "rest ?s' = rest s'" "ready ?s' = ready s'" "plain ?s' = plain s'" "plain ?s = plain s"
      by (simp_all add: rest_def ready_def plain_def)
    moreover have "ctx_of ?s' = ctx_of s"
      using e(1) by (simp add: eats_def ctx_of_def)
    ultimately have "eats s ts ?s'"
      using e(1) same by (auto simp: eats_def grew_def split: if_splits)
    moreover have "clean s ?s' = clean ?s s'"
      by (simp add: clean_def plain_def)
    ultimately show "keeps s H r ?s'" using e by (auto simp: keeps_def)
  qed
  then show "wp (without_struct_lit p) (keeps s H) s"
    by (simp add: without_struct_lit_def)
qed

subsection \<open>Loops\<close>

text \<open>
  The promise of a loop body, counted from the beginning of the function: to continue it
  must have eaten a token. \<open>I\<close> holds after clean runs, \<open>J\<close> always.
\<close>

definition turns ::
  "token list \<Rightarrow> (token list \<Rightarrow> 'a \<Rightarrow> bool) \<Rightarrow> (token list \<Rightarrow> 'a \<Rightarrow> bool) \<Rightarrow> 'r promise \<Rightarrow> ('a + 'r) promise" where
  "turns ts J I H cl us r \<longleftrightarrow> (case r of
       Inl x \<Rightarrow> length ts < length us \<and> J us x \<and> (cl \<longrightarrow> I us x)
     | Inr y \<Rightarrow> H cl us y)"

lemma repeat_raw:
  assumes "Inv x s"
    and body: "\<And>x s. Inv x s \<Longrightarrow> wp (body x) (\<lambda>r s'. case r of
       Inl x' \<Rightarrow> Inv x' s' \<and> length (rest s') < length (rest s) | Inr y \<Rightarrow> Q y s') s"
  shows "wp (repeat body x) Q s"
proof -
  have "wp (loop k body x) Q s" if "Inv x s" "length (rest s) < k" for k x s
    using that
  proof (induction k arbitrary: x s)
    case (Suc k)
    obtain r s' where "body x s = Inr (r, s')" "case r of
       Inl x' \<Rightarrow> Inv x' s' \<and> length (rest s') < length (rest s) | Inr y \<Rightarrow> Q y s'"
      using body [OF Suc.prems(1)] by (auto simp: wp_iff)
    then show ?case
      using Suc.IH [of _ s'] Suc.prems(2) by (cases r) (auto simp: wp_def)
  qed simp
  with assms(1) length_rest [of s] show ?thesis
    by (simp add: repeat_def wp_def del: loop.simps)
qed

lemma begun_rest: "begun n c mk ts P s0 s \<Longrightarrow> rest s0 = ts @ rest s"
  by (simp add: begun_def eats_def)

lemma step_repeat_inv:
  assumes init: "P \<Longrightarrow> I ts0 x0" and start: "J ts0 x0"
    and body: "\<And>ts x. length ts0 \<le> length ts \<Longrightarrow> J ts x \<Longrightarrow>
      step n c mk ts (I ts x) (body x) (turns ts J I H)"
  shows "step n c mk ts0 P (repeat body x0) H"
proof (rule stepI, rule repeat_raw)
  fix s0 s
  let ?Inv = "\<lambda>x s. \<exists>ts. begun n c mk ts (I ts x) s0 s \<and> J ts x \<and> length ts0 \<le> length ts"
  assume "begun n c mk ts0 P s0 s"
  then show "?Inv x0 s" using init start by (auto simp: begun_def)
  fix x s
  assume "?Inv x s"
  then obtain ts where b: "begun n c mk ts (I ts x) s0 s" "J ts x" "length ts0 \<le> length ts" by blast
  from stepD [OF body [OF b(3,2)] b(1)]
  show "wp (body x) (\<lambda>r s'. case r of
      Inl x' \<Rightarrow> ?Inv x' s' \<and> length (rest s') < length (rest s) | Inr y \<Rightarrow> keeps s0 H y s') s"
  proof (rule wp_mono)
    fix r s'
    assume "keeps s0 (turns ts J I H) r s'"
    then obtain us q where r: "eats s0 us s'" "clean s0 s' \<longrightarrow> q" "turns ts J I H q us r"
      by (auto simp: keeps_def)
    show "case r of Inl x' \<Rightarrow> ?Inv x' s' \<and> length (rest s') < length (rest s) | Inr y \<Rightarrow> keeps s0 H y s'"
    proof (cases r)
      case (Inl x')
      then have us: "length ts < length us" "q \<longrightarrow> I us x'" "J us x'"
        using r(3) by (auto simp: turns_def)
      have new: "begun n c mk us (I us x') s0 s'"
        using b(1) r(1,2) us by (auto simp: begun_def)
      have "length (rest s') < length (rest s)"
        using arg_cong [OF begun_rest [OF b(1)], of length] begun_rest [OF new] us by simp
      with new us b(3) Inl show ?thesis by auto
    qed (use r in \<open>auto simp: turns_def keeps_def\<close>)
  qed
qed

lemmas step_repeat = step_repeat_inv [where J = "\<lambda>_ _. True", OF _ TrueI]

lemma step_got_repeat:
  assumes "step n c mk ts P (repeat body x0) (parses G)" "nullable H"
    "\<And>x us. us \<noteq> [] \<Longrightarrow> step n c mk us (G us x) (f x) H"
  shows "step n c mk ts P (got (repeat body x0) f) H"
  unfolding got_def
proof (rule step_bind [OF assms(1)])
  fix r us b
  assume "parses G b us r"
  then show "step n c mk us (parses G True us r) (case r of None \<Rightarrow> ret None | Some x \<Rightarrow> f x) H"
    using assms(2,3) by (cases r) (auto simp: parses_def intro: step_null)
qed

lemma turns_simps [simp]:
  "turns ts J I H cl us (Inl x) \<longleftrightarrow> length ts < length us \<and> J us x \<and> (cl \<longrightarrow> I us x)"
  "turns ts J I H cl us (Inr y) \<longleftrightarrow> H cl us y"
  by (simp_all add: turns_def)

lemma parses_simps [simp]:
  "parses G cl ts None \<longleftrightarrow> \<not> cl" "parses G cl ts (Some x) \<longleftrightarrow> ts \<noteq> [] \<and> (cl \<longrightarrow> G ts x)"
  by (simp_all add: parses_def)

lemma yields_simps [simp]:
  "yields G cl ts None \<longleftrightarrow> \<not> cl" "yields G cl ts (Some x) \<longleftrightarrow> (cl \<longrightarrow> G ts x)"
  by (simp_all add: yields_def)

lemma step_after_if:
  "(b \<Longrightarrow> step n c mk ts P (after p f) H) \<Longrightarrow> (\<not> b \<Longrightarrow> step n c mk ts P (after q f) H) \<Longrightarrow>
     step n c mk ts P (after (if b then p else q) f) H"
  by simp

text \<open>A call whose result is matched against a null pointer inside a loop body.\<close>

lemma step_case:
  assumes "does m c p (parses G)" "n \<le> m + length ts"
    "\<And>us. step n c mk (ts @ us) False a H"
    "\<And>x us. us \<noteq> [] \<Longrightarrow> step n c mk (ts @ us) (P \<and> G us x) (f x) H"
  shows "step n c mk ts P (after p (\<lambda>r. case r of None \<Rightarrow> a | Some x \<Rightarrow> f x)) H"
proof (rule step_call [OF assms(1,2)])
  fix r us b
  assume "parses G b us r"
  then show "step n c mk (ts @ us) (P \<and> parses G True us r) (case r of None \<Rightarrow> a | Some x \<Rightarrow> f x) H"
    using assms(3,4) by (cases r) auto
qed

lemma does_mono: "does m c p H \<Longrightarrow> n \<le> m \<Longrightarrow> does n c p H"
  by (simp add: does_def)

lemma step_at_end:
  assumes "\<And>t. tok_kind t = TEof \<Longrightarrow> facing n c mk ts P t a H" "step n c mk ts P b H"
  shows "step n c mk ts P (if_p at_end a b) H"
proof (rule stepI)
  fix s0 s
  assume "begun n c mk ts P s0 s"
  with assms show "wp (if_p at_end a b) (keeps s0 H) s"
    by (auto simp: at_end_ready begun_ready intro: stepD facingD)
qed

lemma facing_ret: "H P ts x \<Longrightarrow> facing n c mk ts P t (ret x) H"
  by (rule facing_step) (rule step_ret)

lemma facing_option:
  "(v = None \<Longrightarrow> facing n c mk ts P t a H) \<Longrightarrow> (\<And>x. v = Some x \<Longrightarrow> facing n c mk ts P t (f x) H) \<Longrightarrow>
     facing n c mk ts P t (case v of None \<Rightarrow> a | Some x \<Rightarrow> f x) H"
  by (cases v) simp_all

lemma facing_got: "step n c mk ts P (got p f) H \<Longrightarrow> facing n c mk ts P t (got p f) H"
  by (rule facing_step)

named_theorems parser_rules "the rules of the parser calculus that need no choice"

declare step_reads_pos [parser_rules] step_reads_bytes [parser_rules] step_reads_lit [parser_rules]
  step_if [parser_rules] step_peek_kind [parser_rules] facing_peek [parser_rules]
  facing_reads_bytes [parser_rules] facing_if [parser_rules] facing_advance [parser_rules]
  step_check [parser_rules] step_at_end [parser_rules] step_match [parser_rules]
  step_expect [parser_rules] step_need_expect [parser_rules] facing_expect [parser_rules]
  step_expected [parser_rules] step_node [parser_rules] step_ret [parser_rules]
  facing_ret [parser_rules] facing_got [parser_rules] facing_option [parser_rules] step_after_ret [parser_rules] step_after_if [parser_rules]
  step_got_if_p [parser_rules] step_got_after [parser_rules] step_prod [parser_rules]
  step_got_ret [parser_rules] step_got_if [parser_rules] step_got_got [parser_rules]

subsection \<open>Recovery\<close>

lemma wp_synchronize:
  assumes "ready s"
  shows "wp synchronize (\<lambda>_ s'. \<exists>us. eats s us s' \<and> (at_end s \<or> us \<noteq> [])) s"
proof -
  have skip: "wp (repeat sync_step 0) (\<lambda>_ s'. \<exists>us. eats s us s') s"
  proof (rule repeat_raw [where Inv = "\<lambda>_ s'. \<exists>us. eats s us s'"])
    show "\<exists>us. eats s us s" using eats_refl [OF assms] by blast
    fix d :: nat and a
    assume "\<exists>us. eats s us a"
    then obtain us where us: "eats s us a" by blast
    have more: "eats s (us @ [hd (rest a)]) (advanced a) \<and> length (rest (advanced a)) < length (rest a)"
      if "\<not> at_end a"
    proof -
      have e: "eats a [hd (rest a)] (advanced a)"
        using that eats_ready [OF us] by (simp add: eats_advanced at_end_ready)
      then have "rest a = hd (rest a) # rest (advanced a)" by (simp add: eats_def)
      from arg_cong [OF this, of length] eats_trans [OF us e] show ?thesis by simp
    qed
    show "wp (sync_step d) (\<lambda>r s'. case r of
        Inl d' \<Rightarrow> (\<exists>us. eats s us s') \<and> length (rest s') < length (rest a)
      | Inr y \<Rightarrow> \<exists>us. eats s us s') a"
      using us more eats_ready [OF us]
      by (auto simp: sync_step_def peek_kind_def wp_peek wp_advance)
  qed
  have one: "\<exists>us. eats s us (advanced a) \<and> us \<noteq> []" if "eats s us a" "\<not> at_end a" for us a
    using that eats_advanced [of a] eats_trans [OF that(1)] eats_ready [OF that(1)]
    by (auto simp: at_end_ready)
  show ?thesis
    unfolding synchronize_def wp_reads wp_after
  proof (rule wp_mono [OF skip])
    fix x a
    assume "\<exists>us. eats s us a"
    then obtain us where us: "eats s us a" by blast
    then have "ready a" "us = [] \<Longrightarrow> ps_pos a = ps_pos s \<and> ps_tokens a = ps_tokens s"
      by (auto simp: eats_def)
    then have "us = [] \<Longrightarrow> at_end a = at_end s" by (simp add: at_end_def kind_at_def)
    with us one [OF us] \<open>ready a\<close> \<open>us = [] \<Longrightarrow> ps_pos a = ps_pos s \<and> _\<close>
    show "wp (if_p (\<lambda>s'. ps_pos s' = ps_pos s \<and> \<not> at_end s') advance
        (if_p (\<lambda>s. check TSemicolon s \<or> check TComma s) advance (ret ())))
        (\<lambda>_ s'. \<exists>us. eats s us s' \<and> (at_end s \<or> us \<noteq> [])) a"
      by (auto simp: wp_advance check_def)
  qed
qed

text \<open>
  An element of a list that recovers: when it fails, \<open>synchronize\<close> makes the progress, also
  if the element ate nothing.
\<close>

lemma facing_recover:
  assumes p: "does m c p (parses G)" and n: "n \<le> m + length ts" and t: "tok_kind t \<noteq> TEof"
    and fail: "\<And>us. length ts < length us \<Longrightarrow> step n c mk us False a H"
    and some: "\<And>x us. us \<noteq> [] \<Longrightarrow> step n c mk (ts @ us) (P \<and> G us x) (f x) H"
  shows "facing n c mk ts P t (after p (\<lambda>r. case r of
       None \<Rightarrow> after synchronize (\<lambda>_. a) | Some x \<Rightarrow> f x)) H"
proof (rule facingI)
  fix s0 s
  assume b: "begun n c mk ts P s0 s" "hd (rest s) = t"
  have "wp p (keeps s (parses G)) s"
    using p n begun_ready [OF b(1)] begun_less [OF b(1)] unfolding does_def by fastforce
  then show "wp (after p (\<lambda>r. case r of
       None \<Rightarrow> after synchronize (\<lambda>_. a) | Some x \<Rightarrow> f x)) (keeps s0 H) s"
    unfolding wp_after
  proof (rule wp_mono)
    fix r s1
    assume "keeps s (parses G) r s1"
    then obtain us q where e: "eats s us s1" "clean s s1 \<longrightarrow> q" "parses G q us r"
      by (auto simp: keeps_def)
    show "wp (case r of None \<Rightarrow> after synchronize (\<lambda>_. a) | Some x \<Rightarrow> f x) (keeps s0 H) s1"
    proof (cases r)
      case None
      have g: "begun n c mk (ts @ us) False s0 s1"
        using b(1) e(1) by (rule begun_eats) (use e None in auto)
      have "wp synchronize (\<lambda>_ s'. \<exists>vs. eats s1 vs s' \<and> (at_end s1 \<or> vs \<noteq> [])) s1"
        by (rule wp_synchronize) (rule eats_ready [OF e(1)])
      then have "wp synchronize (\<lambda>_. wp a (keeps s0 H)) s1"
      proof (rule wp_mono)
        fix s2
        assume "\<exists>vs. eats s1 vs s2 \<and> (at_end s1 \<or> vs \<noteq> [])"
        then obtain vs where vs: "eats s1 vs s2" "at_end s1 \<or> vs \<noteq> []" by blast
        have "us \<noteq> [] \<or> vs \<noteq> []"
        proof (rule ccontr)
          assume "\<not> (us \<noteq> [] \<or> vs \<noteq> [])"
          then have "at_end s1" "rest s1 = rest s" using vs(2) e(1) by (auto simp: eats_def)
          then show False
            using t b(2) by (simp add: at_end_ready [OF eats_ready [OF e(1)]])
        qed
        then have "length ts < length (ts @ us @ vs)" by auto
        moreover have "begun n c mk (ts @ us @ vs) False s0 s2"
          using begun_eats [OF g vs(1), of False] by simp
        ultimately show "wp a (keeps s0 H) s2" using stepD [OF fail] by blast
      qed
      with None show ?thesis by simp
    next
      case (Some x)
      have "begun n c mk (ts @ us) (P \<and> G us x) s0 s1"
        using b(1) e(1) by (rule begun_eats) (use e Some in auto)
      with some [of us x] e Some show ?thesis by (auto intro: stepD)
    qed
  qed
qed

lemma step_if_stops:
  assumes "\<And>s. at_end s \<Longrightarrow> q s" "step n c mk ts P a H"
    "\<And>t. tok_kind t \<noteq> TEof \<Longrightarrow> facing n c mk ts P t b H"
  shows "step n c mk ts P (if_p q a b) H"
proof (rule stepI)
  fix s0 s
  assume b: "begun n c mk ts P s0 s"
  have "tok_kind (hd (rest s)) \<noteq> TEof" if "\<not> q s"
    using that assms(1) [of s] at_end_ready [OF begun_ready [OF b]] by blast
  with assms(2,3) b show "wp (if_p q a b) (keeps s0 H) s"
    by (auto intro: stepD facingD)
qed

lemma facing_match:
  assumes "k \<noteq> TEof" "tok_kind t = k \<Longrightarrow> step n c mk (ts @ [t]) P (f True) H"
    "tok_kind t \<noteq> k \<Longrightarrow> facing n c mk ts P t (f False) H"
  shows "facing n c mk ts P t (after (match k) f) H"
proof (rule facingI)
  fix s0 s
  assume b: "begun n c mk ts P s0 s" "hd (rest s) = t"
  note r = begun_ready [OF b(1)]
  show "wp (after (match k) f) (keeps s0 H) s"
  proof (cases "tok_kind t = k")
    case True
    then have "begun n c mk (ts @ [t]) P s0 (advanced s)"
      using b eats_advanced [OF r] assms(1) by (intro begun_eats) auto
    with True assms(1) b(2) stepD [OF assms(2)] show ?thesis by (simp add: wp_match r)
  next
    case False
    with b facingD [OF assms(3)] show ?thesis by (simp add: wp_match r)
  qed
qed

text \<open>A promise to eat more than a given number of tokens, for the pieces of loop bodies.\<close>

definition beyond :: "nat \<Rightarrow> (token list \<Rightarrow> 'x \<Rightarrow> bool) \<Rightarrow> 'x option promise" where
  "beyond k G cl ts r \<longleftrightarrow> (case r of None \<Rightarrow> \<not> cl | Some x \<Rightarrow> k < length ts \<and> (cl \<longrightarrow> G ts x))"

lemma beyond_simps [simp]:
  "beyond k G cl ts None \<longleftrightarrow> \<not> cl" "beyond k G cl ts (Some x) \<longleftrightarrow> k < length ts \<and> (cl \<longrightarrow> G ts x)"
  "nullable (beyond k G)"
  by (simp_all add: beyond_def nullable_def)

text \<open>A loop body that continues with what \<open>m\<close> returns.\<close>

lemma step_continue:
  assumes "step n c mk us P m (beyond (length ts) G)"
  shows "step n c mk us P (after m (\<lambda>r. case r of None \<Rightarrow> ret (Inr None) | Some x \<Rightarrow> ret (Inl x)))
    (turns ts (\<lambda>_ _. True) G (parses G))"
  by (rule step_bind [OF assms]) (auto intro!: step_ret simp: beyond_def split: option.split)

end
