(* ===== verification/Grammar.thy ===== *)
theory Grammar
  imports Parser_Logic
begin

text \<open>
  The grammar of the language (\<^verbatim>\<open>docs/spec/grammar.md\<close>, as the parser reads it), declared
  without a parser: which token lists spell which tree. A context gives the bytes that names
  and literals are cut from, the file id of the spans, and whether a struct literal may
  stand in the open. Every tree carries the span of its tokens.
\<close>

subsection \<open>Lists, names and paths\<close>

inductive commas :: "(token list \<Rightarrow> 'a \<Rightarrow> bool) \<Rightarrow> token list \<Rightarrow> 'a list \<Rightarrow> bool" for G where
  commas_one: "G ts x \<Longrightarrow> commas G ts [x]"
| commas_more: "commas G ts xs \<Longrightarrow> tok_kind t = TComma \<Longrightarrow> G us y \<Longrightarrow> commas G (ts @ t # us) (xs @ [y])"

lemma commas_mono [mono]: "(\<And>ts x. G ts x \<longrightarrow> H ts x) \<Longrightarrow> commas G ts xs \<longrightarrow> commas H ts xs"
proof
  assume mono: "\<And>ts x. G ts x \<longrightarrow> H ts x" and "commas G ts xs"
  from this(2) show "commas H ts xs"
    by induction (use mono in \<open>auto intro: commas.intros\<close>)
qed

text \<open>Comma separated, possibly empty, with an optional comma behind the last element.\<close>

inductive listed :: "(token list \<Rightarrow> 'a \<Rightarrow> bool) \<Rightarrow> token list \<Rightarrow> 'a list \<Rightarrow> bool" for G where
  listed_none: "listed G [] []"
| listed_some: "commas G ts xs \<Longrightarrow> listed G ts xs"
| listed_trailing: "commas G ts xs \<Longrightarrow> tok_kind t = TComma \<Longrightarrow> listed G (ts @ [t]) xs"

lemma listed_mono [mono]: "(\<And>ts x. G ts x \<longrightarrow> H ts x) \<Longrightarrow> listed G ts xs \<longrightarrow> listed H ts xs"
  using commas_mono [of G H] by (metis listed.simps)

definition ident_of :: "ctx \<Rightarrow> token \<Rightarrow> ident" where
  "ident_of c t = \<lparr>id_name = token_text (cx_bytes c) (tok_span t), id_span = tok_span t\<rparr>"

definition literal_of :: "ctx \<Rightarrow> literal_kind \<Rightarrow> token \<Rightarrow> ast_literal" where
  "literal_of c k t = \<lparr>lit_kind = k, lit_span = tok_span t,
     lit_spelling = token_text (cx_bytes c) (tok_span t)\<rparr>"

inductive g_segments :: "ctx \<Rightarrow> token list \<Rightarrow> ident list \<Rightarrow> bool" for c where
  segments_one: "is_path_segment (tok_kind t) \<Longrightarrow> g_segments c [t] [ident_of c t]"
| segments_more: "g_segments c ts xs \<Longrightarrow> tok_kind d = TColonColon \<Longrightarrow> is_path_segment (tok_kind t) \<Longrightarrow>
    g_segments c (ts @ [d, t]) (xs @ [ident_of c t])"

text \<open>A path; the parser also takes a dangling \<open>::\<close> behind it.\<close>

inductive g_path :: "ctx \<Rightarrow> token list \<Rightarrow> ast_path \<Rightarrow> bool" for c where
  path: "g_segments c ts xs \<Longrightarrow> g_path c ts \<lparr>path_segments = xs, path_span = span_of c ts\<rparr>"
| path_dangling: "g_segments c ts xs \<Longrightarrow> tok_kind d = TColonColon \<Longrightarrow>
    g_path c (ts @ [d]) \<lparr>path_segments = xs, path_span = span_of c (ts @ [d])\<rparr>"

subsection \<open>Types\<close>

inductive g_type :: "ctx \<Rightarrow> token list \<Rightarrow> type_expr \<Rightarrow> bool" for c where
  type_unit: "tok_kind l = TLParen \<Longrightarrow> tok_kind r = TRParen \<Longrightarrow>
    g_type c [l, r] (UnitType (span_of c [l, r]))"
| type_paren: "tok_kind l = TLParen \<Longrightarrow> g_type c ts ty \<Longrightarrow> tok_kind r = TRParen \<Longrightarrow>
    g_type c (l # ts @ [r]) ty"
| type_tuple: "tok_kind l = TLParen \<Longrightarrow> g_type c ts ty \<Longrightarrow> tok_kind d = TComma \<Longrightarrow>
    listed (g_type c) us tys \<Longrightarrow> tok_kind r = TRParen \<Longrightarrow>
    g_type c (l # ts @ d # us @ [r]) (TupleType (span_of c (l # ts @ d # us @ [r])) (ty # tys))"
| type_never: "tok_kind t = TBang \<Longrightarrow> g_type c [t] (NeverType (span_of c [t]))"
| type_str: "tok_kind t = TStr \<Longrightarrow> g_type c [t] (StrType (span_of c [t]))"
| type_prim: "primitive_of (tok_kind t) = Some p \<Longrightarrow> g_type c [t] (PrimitiveType (span_of c [t]) p)"
| type_ref: "tok_kind t = TAmp \<Longrightarrow> g_type c ts ty \<Longrightarrow>
    g_type c (t # ts) (RefType (span_of c (t # ts)) False ty)"
| type_ref_mut: "tok_kind t = TAmp \<Longrightarrow> tok_kind m = TMut \<Longrightarrow> g_type c ts ty \<Longrightarrow>
    g_type c (t # m # ts) (RefType (span_of c (t # m # ts)) True ty)"
| type_path: "g_path c ts p \<Longrightarrow> g_type c ts (PathType (span_of c ts) p [])"
| type_args: "g_path c ts p \<Longrightarrow> tok_kind l = TLess \<Longrightarrow> listed (g_type c) us tys \<Longrightarrow> tok_kind r = TGreater \<Longrightarrow>
    g_type c (ts @ l # us @ [r]) (PathType (span_of c (ts @ l # us @ [r])) p tys)"

subsection \<open>Patterns\<close>

inductive g_primary_pattern :: "ctx \<Rightarrow> token list \<Rightarrow> pattern \<Rightarrow> bool"
  and g_field_pattern :: "ctx \<Rightarrow> token list \<Rightarrow> field_pattern \<Rightarrow> bool"
  and g_pattern :: "ctx \<Rightarrow> token list \<Rightarrow> pattern \<Rightarrow> bool"
  and g_alternatives :: "ctx \<Rightarrow> token list \<Rightarrow> pattern list \<Rightarrow> bool" for c where
  pat_wildcard: "tok_kind t = TUnderscore \<Longrightarrow> g_primary_pattern c [t] (WildcardPattern (span_of c [t]))"
| pat_mut: "tok_kind m = TMut \<Longrightarrow> tok_kind t = TIdent \<Longrightarrow>
    g_primary_pattern c [m, t] (MutIdentPattern (span_of c [m, t]) (ident_of c t))"
| pat_literal: "literal_kind_of (tok_kind t) = Some k \<Longrightarrow>
    g_primary_pattern c [t] (LiteralPattern (span_of c [t]) (literal_of c k t))"
| pat_negative: "tok_kind m = TMinus \<Longrightarrow> tok_kind t = TInteger \<and> k = IntegerLit \<or> tok_kind t = TFloat \<and> k = FloatLit \<Longrightarrow>
    g_primary_pattern c [m, t] (LiteralPattern (span_of c [m, t]) (literal_of c k t))"
| pat_ref: "tok_kind a = TAmp \<Longrightarrow> g_primary_pattern c ts p \<Longrightarrow>
    g_primary_pattern c (a # ts) (RefPattern (span_of c (a # ts)) False p)"
| pat_ref_mut: "tok_kind a = TAmp \<Longrightarrow> tok_kind m = TMut \<Longrightarrow> g_primary_pattern c ts p \<Longrightarrow>
    g_primary_pattern c (a # m # ts) (RefPattern (span_of c (a # m # ts)) True p)"
| pat_paren: "tok_kind l = TLParen \<Longrightarrow> g_pattern c ts p \<Longrightarrow> tok_kind r = TRParen \<Longrightarrow>
    g_primary_pattern c (l # ts @ [r]) p"
| pat_tuple: "tok_kind l = TLParen \<Longrightarrow> g_pattern c ts p \<Longrightarrow> tok_kind d = TComma \<Longrightarrow>
    listed (g_pattern c) us ps \<Longrightarrow> tok_kind r = TRParen \<Longrightarrow>
    g_primary_pattern c (l # ts @ d # us @ [r])
      (TuplePattern (span_of c (l # ts @ d # us @ [r])) None (p # ps))"
| pat_name: "g_path c ts p \<Longrightarrow> binds_variable p \<Longrightarrow>
    g_primary_pattern c ts (IdentPattern (span_of c ts) (hd (path_segments p)))"
| pat_unit: "g_path c ts p \<Longrightarrow> \<not> binds_variable p \<Longrightarrow>
    g_primary_pattern c ts (TuplePattern (span_of c ts) (Some p) [])"
| pat_variant: "g_path c ts p \<Longrightarrow> \<not> binds_variable p \<Longrightarrow> tok_kind l = TLParen \<Longrightarrow>
    listed (g_pattern c) us ps \<Longrightarrow> tok_kind r = TRParen \<Longrightarrow>
    g_primary_pattern c (ts @ l # us @ [r]) (TuplePattern (span_of c (ts @ l # us @ [r])) (Some p) ps)"
| pat_struct: "g_path c ts p \<Longrightarrow> \<not> binds_variable p \<Longrightarrow> tok_kind l = TLBrace \<Longrightarrow>
    listed (g_field_pattern c) us fs \<Longrightarrow> tok_kind r = TRBrace \<Longrightarrow>
    g_primary_pattern c (ts @ l # us @ [r]) (StructPattern (span_of c (ts @ l # us @ [r])) p fs)"
| field_short: "tok_kind t = TIdent \<Longrightarrow>
    g_field_pattern c [t] (FieldPattern (ident_of c t) (IdentPattern (tok_span t) (ident_of c t)))"
| field_sub: "tok_kind t = TIdent \<Longrightarrow> tok_kind d = TColon \<Longrightarrow> g_pattern c ts p \<Longrightarrow>
    g_field_pattern c (t # d # ts) (FieldPattern (ident_of c t) p)"
| pat_primary: "g_primary_pattern c ts p \<Longrightarrow> g_pattern c ts p"
| pat_or: "g_alternatives c ts ps \<Longrightarrow> 2 \<le> length ps \<Longrightarrow> g_pattern c ts (OrPattern (span_of c ts) ps)"
| alt_one: "g_primary_pattern c ts p \<Longrightarrow> g_alternatives c ts [p]"
| alt_more: "g_alternatives c ts ps \<Longrightarrow> tok_kind b = TPipe \<Longrightarrow> g_primary_pattern c us p \<Longrightarrow>
    g_alternatives c (ts @ b # us) (ps @ [p])"

subsection \<open>Expressions, blocks and statements\<close>

text \<open>
  One predicate for all precedence levels: 0 ranges, 1 \<^verbatim>\<open>||\<close>, 2 \<^verbatim>\<open>&&\<close>, 3 comparisons, 4 to 9
  the left-associative operators of \<open>level_ops\<close>, 10 powers, 11 casts, 12 prefix operators,
  13 postfix forms over primaries.
\<close>

definition level_ops :: "nat \<Rightarrow> (token_kind \<times> binary_op) list" where
  "level_ops l =
     (if l = 1 then [(TPipePipe, Or)] else if l = 2 then [(TAmpAmp, And)]
      else if l = 4 then [(TPipe, BitOr)] else if l = 5 then [(TCaret, BitXor)]
      else if l = 6 then [(TAmp, BitAnd)] else if l = 7 then [(TLessLess, Shl), (TGreaterGreater, Shr)]
      else if l = 8 then [(TPlus, Add), (TMinus, Sub)]
      else if l = 9 then [(TStar, Mul), (TSlash, Div), (TPercent, Mod)] else [])"

definition range_token :: "token_kind \<Rightarrow> bool" where
  "range_token k \<longleftrightarrow> k = TDotDot \<or> k = TDotDotEq \<or> k = TDotDotLess"

definition no_lit :: "ctx \<Rightarrow> ctx" where
  "no_lit c = c\<lparr>cx_struct_lit := False\<rparr>"

fun is_expr_stmt :: "stmt \<Rightarrow> bool" where
  "is_expr_stmt (ExprStmt sp e) = True"
| "is_expr_stmt st = False"

inductive g_expr :: "ctx \<Rightarrow> nat \<Rightarrow> token list \<Rightarrow> expr \<Rightarrow> bool"
  and g_init :: "ctx \<Rightarrow> token list \<Rightarrow> field_init \<Rightarrow> bool"
  and g_cond :: "ctx \<Rightarrow> token list \<Rightarrow> cond \<Rightarrow> bool"
  and g_arms :: "ctx \<Rightarrow> token list \<Rightarrow> match_arm list \<Rightarrow> bool"
  and g_stmt :: "ctx \<Rightarrow> token list \<Rightarrow> stmt \<Rightarrow> bool"
  and g_stmts :: "ctx \<Rightarrow> token list \<Rightarrow> stmt list \<Rightarrow> bool"
  and g_block :: "ctx \<Rightarrow> token list \<Rightarrow> block \<Rightarrow> bool" where
  expr_up: "g_expr c (Suc l) ts e \<Longrightarrow> l < 13 \<Longrightarrow> g_expr c l ts e"
| expr_binary: "g_expr c l ts x \<Longrightarrow> (tok_kind t, b) \<in> set (level_ops l) \<Longrightarrow> g_expr c (Suc l) us y \<Longrightarrow>
    g_expr c l (ts @ t # us) (BinaryExpr (span_of c (ts @ t # us)) b x y)"
| expr_cmp: "g_expr c 4 ts x \<Longrightarrow> cmp_of (tok_kind t) = Some b \<Longrightarrow> g_expr c 4 us y \<Longrightarrow>
    g_expr c 3 (ts @ t # us) (BinaryExpr (span_of c (ts @ t # us)) b x y)"
| expr_pow: "g_expr c 11 ts x \<Longrightarrow> tok_kind t = TStarStar \<Longrightarrow> g_expr c 10 us y \<Longrightarrow>
    g_expr c 10 (ts @ t # us) (BinaryExpr (span_of c (ts @ t # us)) Pow x y)"
| expr_cast: "g_expr c 12 ts x \<Longrightarrow> tok_kind t = TAs \<Longrightarrow> g_type c us ty \<Longrightarrow>
    g_expr c 11 (ts @ t # us) (CastExpr (span_of c (ts @ t # us)) x ty)"
| expr_unary: "unary_of (tok_kind t) = Some u \<Longrightarrow> g_expr c 12 ts x \<Longrightarrow>
    g_expr c 12 (t # ts) (UnaryExpr (span_of c (t # ts)) u x)"
| expr_borrow: "tok_kind t = TAmp \<Longrightarrow> g_expr c 12 ts x \<Longrightarrow>
    g_expr c 12 (t # ts) (BorrowExpr (span_of c (t # ts)) False x)"
| expr_borrow_mut: "tok_kind t = TAmp \<Longrightarrow> tok_kind m = TMut \<Longrightarrow> g_expr c 12 ts x \<Longrightarrow>
    g_expr c 12 (t # m # ts) (BorrowExpr (span_of c (t # m # ts)) True x)"
| range_open: "range_token (tok_kind t) \<Longrightarrow>
    g_expr c 0 [t] (RangeExpr (span_of c [t]) None None (tok_kind t = TDotDotEq))"
| range_to: "range_token (tok_kind t) \<Longrightarrow> tok_kind t \<noteq> TDotDot \<Longrightarrow> g_expr c 1 us e \<Longrightarrow>
    g_expr c 0 (t # us) (RangeExpr (span_of c (t # us)) None (Some e) (tok_kind t = TDotDotEq))"
| range_from: "g_expr c 1 ts e \<Longrightarrow> range_token (tok_kind t) \<Longrightarrow>
    g_expr c 0 (ts @ [t]) (RangeExpr (span_of c (ts @ [t])) (Some e) None (tok_kind t = TDotDotEq))"
| range_full: "g_expr c 1 ts e \<Longrightarrow> range_token (tok_kind t) \<Longrightarrow> tok_kind t \<noteq> TDotDot \<Longrightarrow> g_expr c 1 us e' \<Longrightarrow>
    g_expr c 0 (ts @ t # us)
      (RangeExpr (span_of c (ts @ t # us)) (Some e) (Some e') (tok_kind t = TDotDotEq))"
| post_call: "g_expr c 13 ts e \<Longrightarrow> tok_kind l = TLParen \<Longrightarrow> listed (g_expr c 0) us es \<Longrightarrow> tok_kind r = TRParen \<Longrightarrow>
    g_expr c 13 (ts @ l # us @ [r]) (CallExpr (span_of c (ts @ l # us @ [r])) e es)"
| post_method: "g_expr c 13 ts e \<Longrightarrow> tok_kind d = TDot \<Longrightarrow> tok_kind t = TIdent \<Longrightarrow> tok_kind l = TLParen \<Longrightarrow>
    listed (g_expr c 0) us es \<Longrightarrow> tok_kind r = TRParen \<Longrightarrow>
    g_expr c 13 (ts @ d # t # l # us @ [r])
      (MethodCallExpr (span_of c (ts @ d # t # l # us @ [r])) e (ident_of c t) es)"
| post_field: "g_expr c 13 ts e \<Longrightarrow> tok_kind d = TDot \<Longrightarrow> tok_kind t = TIdent \<or> tok_kind t = TInteger \<Longrightarrow>
    g_expr c 13 (ts @ [d, t]) (FieldExpr (span_of c (ts @ [d, t])) e (ident_of c t))"
| post_index: "g_expr c 13 ts e \<Longrightarrow> tok_kind l = TLBracket \<Longrightarrow> g_expr c 0 us i \<Longrightarrow> tok_kind r = TRBracket \<Longrightarrow>
    g_expr c 13 (ts @ l # us @ [r]) (IndexExpr (span_of c (ts @ l # us @ [r])) e i)"
| post_question: "g_expr c 13 ts e \<Longrightarrow> tok_kind q = TQuestion \<Longrightarrow>
    g_expr c 13 (ts @ [q]) (QuestionExpr (span_of c (ts @ [q])) e)"
| prim_literal: "literal_kind_of (tok_kind t) = Some k \<Longrightarrow>
    g_expr c 13 [t] (LiteralExpr (span_of c [t]) (literal_of c k t))"
| prim_paren: "tok_kind l = TLParen \<Longrightarrow> g_expr c 0 ts e \<Longrightarrow> tok_kind r = TRParen \<Longrightarrow> g_expr c 13 (l # ts @ [r]) e"
| prim_tuple: "tok_kind l = TLParen \<Longrightarrow> g_expr c 0 ts e \<Longrightarrow> tok_kind d = TComma \<Longrightarrow> listed (g_expr c 0) us es \<Longrightarrow>
    tok_kind r = TRParen \<Longrightarrow>
    g_expr c 13 (l # ts @ d # us @ [r]) (TupleExpr (span_of c (l # ts @ d # us @ [r])) (e # es))"
| prim_block: "g_block c ts b \<Longrightarrow> g_expr c 13 ts (BlockExpr (span_of c ts) b)"
| prim_if: "tok_kind i = TIf \<Longrightarrow> g_cond c ts cd \<Longrightarrow> g_block c us b \<Longrightarrow>
    g_expr c 13 (i # ts @ us) (IfExpr (span_of c (i # ts @ us)) cd b None)"
| prim_if_else: "tok_kind i = TIf \<Longrightarrow> g_cond c ts cd \<Longrightarrow> g_block c us b \<Longrightarrow> tok_kind el = TElse \<Longrightarrow> g_block c vs b' \<Longrightarrow>
    g_expr c 13 (i # ts @ us @ el # vs) (IfExpr (span_of c (i # ts @ us @ el # vs)) cd b (Some b'))"
| prim_match: "tok_kind m = TMatch \<Longrightarrow> g_expr (no_lit c) 0 ts e \<Longrightarrow> tok_kind l = TLBrace \<Longrightarrow> g_arms c us arms \<Longrightarrow>
    tok_kind r = TRBrace \<Longrightarrow>
    g_expr c 13 (m # ts @ l # us @ [r]) (MatchExpr (span_of c (m # ts @ l # us @ [r])) e arms)"
| prim_loop: "tok_kind w = TLoop \<Longrightarrow> g_block c ts b \<Longrightarrow>
    g_expr c 13 (w # ts) (LoopExpr (span_of c (w # ts)) b)"
| prim_while: "tok_kind w = TWhile \<Longrightarrow> g_cond c ts cd \<Longrightarrow> g_block c us b \<Longrightarrow>
    g_expr c 13 (w # ts @ us) (WhileExpr (span_of c (w # ts @ us)) cd b)"
| prim_ret: "tok_kind t = TRet \<Longrightarrow> g_expr c 13 [t] (ReturnExpr (span_of c [t]) None)"
| prim_ret_value: "tok_kind t = TRet \<Longrightarrow> g_expr c 0 us e \<Longrightarrow>
    g_expr c 13 (t # us) (ReturnExpr (span_of c (t # us)) (Some e))"
| prim_break: "tok_kind t = TBreak \<Longrightarrow> g_expr c 13 [t] (BreakExpr (span_of c [t]))"
| prim_continue: "tok_kind t = TContinue \<Longrightarrow> g_expr c 13 [t] (ContinueExpr (span_of c [t]))"
| prim_path: "g_path c ts p \<Longrightarrow> g_expr c 13 ts (PathExpr (span_of c ts) p)"
| prim_struct: "cx_struct_lit c \<Longrightarrow> g_path c ts p \<Longrightarrow> tok_kind l = TLBrace \<Longrightarrow> listed (g_init c) us fs \<Longrightarrow>
    tok_kind r = TRBrace \<Longrightarrow>
    g_expr c 13 (ts @ l # us @ [r]) (StructExpr (span_of c (ts @ l # us @ [r])) p fs None)"
| prim_struct_base: "cx_struct_lit c \<Longrightarrow> g_path c ts p \<Longrightarrow> tok_kind l = TLBrace \<Longrightarrow> listed (g_init c) us fs \<Longrightarrow>
    tok_kind d = TDotDot \<Longrightarrow> g_expr c 0 vs e \<Longrightarrow> tok_kind r = TRBrace \<Longrightarrow>
    g_expr c 13 (ts @ l # us @ d # vs @ [r])
      (StructExpr (span_of c (ts @ l # us @ d # vs @ [r])) p fs (Some e))"
| init: "tok_kind t = TIdent \<Longrightarrow> tok_kind d = TColon \<Longrightarrow> g_expr c 0 us e \<Longrightarrow>
    g_init c (t # d # us) (FieldInit (ident_of c t) e)"
| cond_value: "g_expr (no_lit c) 0 ts e \<Longrightarrow> g_cond c ts (ValueCond e)"
| cond_pattern: "g_pattern c ts p \<Longrightarrow> tok_kind d = TColonEq \<Longrightarrow> g_expr c 0 us e \<Longrightarrow>
    g_cond c (ts @ d # us) (PatternCond p e)"
| arms_none: "g_arms c [] []"
| arms_separator: "g_arms c ts arms \<Longrightarrow> tok_kind t = TComma \<or> tok_kind t = TSemicolon \<Longrightarrow> g_arms c (ts @ [t]) arms"
| arms_more: "g_arms c ts arms \<Longrightarrow> g_pattern c us p \<Longrightarrow> tok_kind a = TFatArrow \<Longrightarrow> g_expr c 0 vs e \<Longrightarrow>
    g_arms c (ts @ us @ a # vs) (arms @ [MatchArm p e])"
| stmt_decl: "g_pattern c ts p \<Longrightarrow> tok_kind d = TColonEq \<Longrightarrow> g_expr c 0 us e \<Longrightarrow>
    g_stmt c (ts @ d # us) (DeclStmt (span_of c (ts @ d # us)) p None e)"
| stmt_decl_type: "g_pattern c ts p \<Longrightarrow> tok_kind q = TColon \<Longrightarrow> g_type c vs ty \<Longrightarrow> tok_kind d = TColonEq \<Longrightarrow>
    g_expr c 0 us e \<Longrightarrow>
    g_stmt c (ts @ q # vs @ d # us) (DeclStmt (span_of c (ts @ q # vs @ d # us)) p (Some ty) e)"
| stmt_assign: "g_expr c 0 ts x \<Longrightarrow> tok_kind d = TEq \<Longrightarrow> g_expr c 0 us e \<Longrightarrow>
    g_stmt c (ts @ d # us) (ReassignStmt (span_of c (ts @ d # us)) x False Add e)"
| stmt_compound: "g_expr c 0 ts x \<Longrightarrow> is_compound_assign (tok_kind d) \<Longrightarrow> g_expr c 0 us e \<Longrightarrow>
    g_stmt c (ts @ d # us)
      (ReassignStmt (span_of c (ts @ d # us)) x True (compound_op (tok_kind d)) e)"
| stmt_expr: "g_expr c 0 ts e \<Longrightarrow> g_stmt c ts (ExprStmt (span_of c ts) e)"
| stmts_none: "g_stmts c [] []"
| stmts_stray: "g_stmts c ts ss \<Longrightarrow> tok_kind t = TSemicolon \<Longrightarrow> g_stmts c (ts @ [t]) ss"
| stmts_more: "g_stmts c ts ss \<Longrightarrow> g_stmt c us st \<Longrightarrow> tok_kind t = TSemicolon \<Longrightarrow>
    g_stmts c (ts @ us @ [t]) (ss @ [st])"
| block_plain: "tok_kind l = TLBrace \<Longrightarrow> g_stmts c ts ss \<Longrightarrow> tok_kind r = TRBrace \<Longrightarrow>
    g_block c (l # ts @ [r]) (Block (span_of c (l # ts @ [r])) ss None)"
| block_stmt: "tok_kind l = TLBrace \<Longrightarrow> g_stmts c ts ss \<Longrightarrow> g_stmt c us st \<Longrightarrow> \<not> is_expr_stmt st \<Longrightarrow>
    tok_kind r = TRBrace \<Longrightarrow>
    g_block c (l # ts @ us @ [r]) (Block (span_of c (l # ts @ us @ [r])) (ss @ [st]) None)"
| block_value: "tok_kind l = TLBrace \<Longrightarrow> g_stmts c ts ss \<Longrightarrow> g_stmt c us (ExprStmt sp e) \<Longrightarrow>
    tok_kind r = TRBrace \<Longrightarrow>
    g_block c (l # ts @ us @ [r]) (Block (span_of c (l # ts @ us @ [r])) ss (Some e))"

subsection \<open>Items\<close>

inductive g_param :: "ctx \<Rightarrow> token list \<Rightarrow> fn_param \<Rightarrow> bool" for c where
  param: "g_pattern c ts p \<Longrightarrow> tok_kind d = TColon \<Longrightarrow> g_type c us ty \<Longrightarrow>
    g_param c (ts @ d # us) \<lparr>param_pattern = p, param_type = ty\<rparr>"

inductive g_return :: "ctx \<Rightarrow> token list \<Rightarrow> type_expr option \<Rightarrow> bool" for c where
  return_none: "g_return c [] None"
| return_type: "tok_kind a = TArrow \<Longrightarrow> g_type c ts ty \<Longrightarrow> g_return c (a # ts) (Some ty)"

inductive g_fn :: "ctx \<Rightarrow> bool \<Rightarrow> token list \<Rightarrow> fn_item \<Rightarrow> bool" for c where
  fn: "tok_kind f = TFn \<Longrightarrow> tok_kind t = TIdent \<Longrightarrow> tok_kind l = TLParen \<Longrightarrow> listed (g_param c) ts ps \<Longrightarrow>
    tok_kind r = TRParen \<Longrightarrow> g_return c us rt \<Longrightarrow> g_block c vs b \<Longrightarrow>
    g_fn c pub (f # t # l # ts @ r # us @ vs)
      \<lparr>fn_span = span_of c (f # t # l # ts @ r # us @ vs), fn_is_pub = pub, fn_name = ident_of c t,
       fn_params = ps, fn_return_type = rt, fn_body = b\<rparr>"

inductive g_field :: "ctx \<Rightarrow> token list \<Rightarrow> struct_field \<Rightarrow> bool" for c where
  field: "tok_kind t = TIdent \<Longrightarrow> tok_kind d = TColon \<Longrightarrow> g_type c us ty \<Longrightarrow>
    g_field c (t # d # us) \<lparr>field_name = ident_of c t, field_type = ty\<rparr>"

inductive g_variant :: "ctx \<Rightarrow> token list \<Rightarrow> enum_variant \<Rightarrow> bool" for c where
  variant_unit: "tok_kind t = TIdent \<Longrightarrow>
    g_variant c [t] \<lparr>variant_name = ident_of c t, variant_fields = []\<rparr>"
| variant_tuple: "tok_kind t = TIdent \<Longrightarrow> tok_kind l = TLParen \<Longrightarrow> listed (g_type c) us tys \<Longrightarrow> tok_kind r = TRParen \<Longrightarrow>
    g_variant c (t # l # us @ [r]) \<lparr>variant_name = ident_of c t, variant_fields = tys\<rparr>"

text \<open>Elements in a row with stray semicolons between them.\<close>

inductive rows :: "(token list \<Rightarrow> 'a \<Rightarrow> bool) \<Rightarrow> token list \<Rightarrow> 'a list \<Rightarrow> bool" for G where
  rows_none: "rows G [] []"
| rows_stray: "rows G ts xs \<Longrightarrow> tok_kind t = TSemicolon \<Longrightarrow> rows G (ts @ [t]) xs"
| rows_more: "rows G ts xs \<Longrightarrow> G us x \<Longrightarrow> rows G (ts @ us) (xs @ [x])"

lemma rows_mono [mono]: "(\<And>ts x. G ts x \<longrightarrow> H ts x) \<Longrightarrow> rows G ts xs \<longrightarrow> rows H ts xs"
proof
  assume mono: "\<And>ts x. G ts x \<longrightarrow> H ts x" and "rows G ts xs"
  from this(2) show "rows H ts xs"
    by induction (use mono in \<open>auto intro: rows.intros\<close>)
qed

text \<open>An item without its visibility, and with it; the span leaves the visibility out.\<close>

inductive g_bare :: "ctx \<Rightarrow> bool \<Rightarrow> token list \<Rightarrow> item \<Rightarrow> bool"
  and g_item :: "ctx \<Rightarrow> token list \<Rightarrow> item \<Rightarrow> bool" for c where
  item_fn: "g_fn c pub ts f \<Longrightarrow> g_bare c pub ts (FnItem f)"
| item_struct: "tok_kind k = TStruct \<Longrightarrow> tok_kind t = TIdent \<Longrightarrow> tok_kind l = TLBrace \<Longrightarrow>
    listed (g_field c) us fs \<Longrightarrow> tok_kind r = TRBrace \<Longrightarrow>
    g_bare c pub (k # t # l # us @ [r])
      (StructItem (span_of c (k # t # l # us @ [r])) pub (ident_of c t) fs)"
| item_enum: "tok_kind k = TEnum \<Longrightarrow> tok_kind t = TIdent \<Longrightarrow> tok_kind l = TLBrace \<Longrightarrow>
    listed (g_variant c) us vs \<Longrightarrow> tok_kind r = TRBrace \<Longrightarrow>
    g_bare c pub (k # t # l # us @ [r])
      (EnumItem (span_of c (k # t # l # us @ [r])) pub (ident_of c t) vs)"
| item_impl: "tok_kind k = TImpl \<Longrightarrow> g_type c ts ty \<Longrightarrow> tok_kind l = TLBrace \<Longrightarrow>
    rows (g_fn c False) us fs \<Longrightarrow> tok_kind r = TRBrace \<Longrightarrow>
    g_bare c pub (k # ts @ l # us @ [r]) (ImplItem (span_of c (k # ts @ l # us @ [r])) pub ty fs)"
| item_mod_file: "tok_kind k = TMod \<Longrightarrow> tok_kind t = TIdent \<Longrightarrow> tok_kind d = TSemicolon \<Longrightarrow>
    g_bare c pub [k, t, d] (ModItem (span_of c [k, t, d]) pub (ident_of c t) [] False)"
| item_mod: "tok_kind k = TMod \<Longrightarrow> tok_kind t = TIdent \<Longrightarrow> tok_kind l = TLBrace \<Longrightarrow>
    rows (g_item c) us its \<Longrightarrow> tok_kind r = TRBrace \<Longrightarrow>
    g_bare c pub (k # t # l # us @ [r])
      (ModItem (span_of c (k # t # l # us @ [r])) pub (ident_of c t) its True)"
| item_static: "tok_kind k = TStatic \<Longrightarrow> tok_kind t = TIdent \<Longrightarrow> tok_kind d = TColon \<Longrightarrow> g_type c us ty \<Longrightarrow>
    tok_kind q = TEq \<Longrightarrow> g_expr c 0 vs e \<Longrightarrow>
    g_bare c pub (k # t # d # us @ q # vs)
      (StaticItem (span_of c (k # t # d # us @ q # vs)) pub (ident_of c t) ty e)"
| item_const: "tok_kind k = TConst \<Longrightarrow> tok_kind t = TIdent \<Longrightarrow> tok_kind d = TColon \<Longrightarrow> g_type c us ty \<Longrightarrow>
    tok_kind q = TEq \<Longrightarrow> g_expr c 0 vs e \<Longrightarrow>
    g_bare c pub (k # t # d # us @ q # vs)
      (ConstItem (span_of c (k # t # d # us @ q # vs)) pub (ident_of c t) ty e)"
| item_use: "tok_kind k = TUse \<Longrightarrow> g_path c us p \<Longrightarrow> tok_kind d = TSemicolon \<Longrightarrow>
    g_bare c pub (k # us @ [d]) (UseItem (span_of c (k # us @ [d])) pub p False empty_ident)"
| item_use_as: "tok_kind k = TUse \<Longrightarrow> g_path c us p \<Longrightarrow> tok_kind a = TAs \<Longrightarrow> tok_kind t = TIdent \<Longrightarrow>
    tok_kind d = TSemicolon \<Longrightarrow>
    g_bare c pub (k # us @ [a, t, d])
      (UseItem (span_of c (k # us @ [a, t, d])) pub p True (ident_of c t))"
| item_private: "g_bare c False ts it \<Longrightarrow> g_item c ts it"
| item_pub: "tok_kind t = TPub \<Longrightarrow> g_bare c True ts it \<Longrightarrow> g_item c (t # ts) it"

end
