(* ===== verification/Parser_Syntax.thy ===== *)
theory Parser_Syntax
  imports Grammar
begin

text \<open>
  Lists, names, types and patterns: each parsing function returns from every state, and what
  it returns after a clean run is what the grammar says its tokens spell.
\<close>

subsection \<open>Lists\<close>

definition awaiting :: "(token list \<Rightarrow> 'a \<Rightarrow> bool) \<Rightarrow> token list \<Rightarrow> 'a list \<Rightarrow> bool" where
  "awaiting G ts xs \<longleftrightarrow>
     (ts = [] \<and> xs = []) \<or> (\<exists>us t. ts = us @ [t] \<and> tok_kind t = TComma \<and> commas G us xs)"

lemma awaiting_more: "awaiting G ts xs \<Longrightarrow> G us x \<Longrightarrow> commas G (ts @ us) (xs @ [x])"
  by (auto simp: awaiting_def intro: commas.intros)

lemma awaiting_listed: "awaiting G ts xs \<Longrightarrow> listed G ts xs"
  by (auto simp: awaiting_def intro: listed.intros)

lemma awaiting_listed_more: "awaiting G ts xs \<Longrightarrow> G us x \<Longrightarrow> listed G (ts @ us) (xs @ [x])"
  by (rule listed_some) (rule awaiting_more)

lemma awaiting_comma: "awaiting G ts xs \<Longrightarrow> G us x \<Longrightarrow> tok_kind t = TComma \<Longrightarrow>
    awaiting G (ts @ us @ [t]) (xs @ [x])"
  using awaiting_more [of G ts xs us x] by (auto simp: awaiting_def)

lemma awaiting_listed_comma: "awaiting G ts xs \<Longrightarrow> G us x \<Longrightarrow> tok_kind t = TComma \<Longrightarrow>
    listed G (ts @ us @ [t]) (xs @ [x])"
  by (rule awaiting_listed) (rule awaiting_comma)

lemma does_comma_list:
  assumes e: "does n c element (parses G)"
  shows "does n c (comma_list element closes) (yields (listed G))"
  unfolding comma_list_def
  apply (rule does_step)
  apply (rule step_if_p)
   apply (rule step_ret, simp add: listed_none)
  apply (rule step_repeat [where I = "awaiting G"])
   apply (simp add: awaiting_def)
  apply (rule step_case [OF e], simp)
   apply (rule step_ret, simp)
  apply (intro step_match step_if step_if_p step_ret, simp_all)
  apply (auto intro: awaiting_comma awaiting_listed_more awaiting_listed_comma)
  done

lemma does_comma_until:
  assumes e: "does n c element (parses G)"
  shows "does n c (comma_until closer element xs) (yields (\<lambda>ts ys. \<exists>zs. ys = xs @ zs \<and> listed G ts zs))"
  unfolding comma_until_def
  apply (rule does_step)
  apply (rule step_repeat [where I = "\<lambda>ts ys. \<exists>zs. ys = xs @ zs \<and> awaiting G ts zs"])
   apply (simp add: awaiting_def)
  apply (rule step_if_p)
   apply (rule step_ret, auto intro: awaiting_listed)[1]
  apply (rule step_case [OF e], simp)
   apply (rule step_ret, simp)
  apply (intro step_match step_if step_if_p step_ret, simp_all)
  apply (auto intro: awaiting_comma awaiting_listed_more awaiting_listed_comma)
  done

subsection \<open>Names and paths\<close>

lemma ident_of_sel [simp]: "id_span (ident_of c t) = tok_span t"
  "id_name (ident_of c t) = token_text (cx_bytes c) (tok_span t)"
  by (simp_all add: ident_of_def)

lemma does_parse_ident:
  "does n c (parse_ident what) (parses (\<lambda>ts x. \<exists>t. ts = [t] \<and> tok_kind t = TIdent \<and> x = ident_of c t))"
  unfolding parse_ident_def
  apply (rule does_step)
  apply (intro step_peek_kind facing_if facing_expect facing_peek facing_reads_bytes facing_advance)
     apply auto[1]
    apply (rule step_null, simp, simp)
   apply simp
  apply (rule step_ret, simp add: ident_of_def)
  done

definition g_partial_path :: "ctx \<Rightarrow> token list \<Rightarrow> ident list \<Rightarrow> bool" where
  "g_partial_path c ts xs \<longleftrightarrow> (ts = [] \<and> xs = []) \<or>
     (\<exists>us d. ts = us @ [d] \<and> tok_kind d = TColonColon \<and> g_segments c us xs)"

lemma partial_path_segment:
  "g_partial_path c ts xs \<Longrightarrow> is_path_segment (tok_kind t) \<Longrightarrow>
     g_segments c (ts @ [t]) (xs @ [ident_of c t])"
  using segments_more [of c _ xs _ t] by (auto simp: g_partial_path_def intro: g_segments.intros)

lemma partial_path_colons: "g_segments c us xs \<Longrightarrow> tok_kind d = TColonColon \<Longrightarrow>
    g_partial_path c (us @ [d]) xs"
  by (auto simp: g_partial_path_def)

lemma is_path_segment_simps [simp]: "is_path_segment TIdent" "\<not> is_path_segment TEof"
  by (simp_all add: is_path_segment_def)

lemma does_path_step:
  assumes "xs = [] \<longleftrightarrow> ts = []"
  shows "step n c mk ts (g_partial_path c ts xs) (path_step xs)
     (turns ts (\<lambda>us ys. ys = [] \<longleftrightarrow> us = []) (g_partial_path c)
       (parses (\<lambda>us ys. g_segments c us ys \<or> g_partial_path c us ys \<and> us \<noteq> [])))"
proof -
  have seg: "g_segments c (ts @ [t]) (xs @ [\<lparr>id_name = token_text (cx_bytes c) (tok_span t),
      id_span = tok_span t\<rparr>])" if "g_partial_path c ts xs" "is_path_segment (tok_kind t)" for t
    using partial_path_segment [OF that] by (simp add: ident_of_def)
  show ?thesis
    unfolding path_step_def Let_def
    by (intro parser_rules) (use assms seg partial_path_colons [OF seg] in auto)
qed

lemma does_parse_path: "does n c parse_path (parses (g_path c))"
  unfolding parse_path_def
proof (rule does_step, intro step_reads_pos step_got_repeat)
  fix mk
  show "step n c mk [] True (repeat path_step [])
      (parses (\<lambda>us ys. g_segments c us ys \<or> g_partial_path c us ys \<and> us \<noteq> []))"
    by (rule step_repeat_inv [OF _ _ does_path_step]) (auto simp: g_partial_path_def)
qed (auto intro!: step_node intro: g_path.intros simp: g_partial_path_def)

subsection \<open>Types\<close>

lemma begun_banked:
  assumes "begun n c mk ts P s0 s" "\<not> plain s0"
  shows "begun n c mk ts False s0 (s\<lparr>ps_banked := k\<rparr>)"
proof -
  let ?s = "s\<lparr>ps_banked := k\<rparr>"
  have "rest ?s = rest s" "ready ?s = ready s" "ctx_of ?s = ctx_of s" "\<not> clean s0 ?s"
    using assms(2) by (simp_all add: rest_def ready_def ctx_of_def clean_def)
  then show ?thesis
    using assms by (auto simp: begun_def eats_def grew_def)
qed

lemma begun_plain: "begun n c mk ts P s0 s \<Longrightarrow> plain s0 \<Longrightarrow> plain s"
  by (simp add: begun_def eats_def)

lemma plain_facing: "plain s \<Longrightarrow> ready s \<Longrightarrow> tok_kind (hd (rest s)) \<noteq> TGreaterGreater"
  by (auto simp: plain_def hd_rest) (metis image_eqI nth_mem ready_def)

text \<open>
  Closing an argument list: the clean way is one \<open>>\<close>; a banked half or the split of
  \<open>>>\<close> does not happen on plain input.
\<close>

lemma step_close_args:
  assumes "nullable H" "\<And>t. tok_kind t = TGreater \<Longrightarrow> step n c mk (ts @ [t]) P m H"
    "\<And>us. step n c mk (ts @ us) False m H"
  shows "step n c mk ts P (after consume_gt (\<lambda>closed.
     if \<not> closed then after (expect TGreater what) (\<lambda>_. ret None) else m)) H"
proof (rule stepI)
  fix s0 s
  assume b: "begun n c mk ts P s0 s"
  let ?t = "hd (rest s)"
  let ?go = "\<lambda>closed. if \<not> closed then after (expect TGreater what) (\<lambda>_. ret None) else m"
  note r = begun_ready [OF b]
  show "wp (after consume_gt ?go) (keeps s0 H) s"
  proof (cases "0 < ps_banked s")
    case True
    then have "\<not> plain s0" using begun_plain [OF b] by (metis plain_def less_irrefl)
    from stepD [OF assms(3) [of "[]"]] begun_banked [OF b this] True
    show ?thesis by (simp add: consume_gt_def)
  next
    case unbanked: False
    consider "tok_kind ?t = TGreater" | "tok_kind ?t = TGreaterGreater"
      | "tok_kind ?t \<noteq> TGreater" "tok_kind ?t \<noteq> TGreaterGreater" by blast
    then show ?thesis
    proof cases
      case 1
      then have "begun n c mk (ts @ [?t]) P s0 (advanced s)"
        using b eats_advanced [OF r] by (intro begun_eats) auto
      with 1 unbanked stepD [OF assms(2) [OF 1]] show ?thesis
        by (simp add: consume_gt_def check_ready r wp_advance)
    next
      case 2
      then have "begun n c mk (ts @ [?t]) P s0 (advanced s)"
        using b eats_advanced [OF r] by (intro begun_eats) auto
      moreover have "\<not> plain s0" using plain_facing r begun_plain [OF b] 2 by blast
      ultimately have "begun n c mk (ts @ [?t]) False s0 ((advanced s)\<lparr>ps_banked := 1\<rparr>)"
        by (rule begun_banked)
      with 2 unbanked stepD [OF assms(3)] show ?thesis
        by (simp add: consume_gt_def check_ready r wp_advance)
    next
      case 3
      have "facing n c mk ts P ?t (after (expect TGreater what) (\<lambda>_. ret None)) H"
        using 3 by (intro facing_expect step_null assms(1)) auto
      with 3 unbanked b show ?thesis
        using facingD [of n c mk ts P ?t "after (expect TGreater what) (\<lambda>_. ret None)" H, OF _ b refl]
        by (simp add: consume_gt_def check_ready r)
    qed
  qed
qed

lemma step_if_banked:
  assumes "step n c mk ts False a H" "step n c mk ts P b H"
  shows "step n c mk ts P (if_p (\<lambda>s. 0 < ps_banked s)
     (after (update (\<lambda>s. s\<lparr>ps_banked := 0\<rparr>)) (\<lambda>_. a)) b) H"
proof (rule stepI)
  fix s0 s
  assume g: "begun n c mk ts P s0 s"
  have "\<not> plain s0" if "0 < ps_banked s"
    using that begun_plain [OF g] by (metis plain_def less_irrefl)
  then show "wp (if_p (\<lambda>s. 0 < ps_banked s) (after (update (\<lambda>s. s\<lparr>ps_banked := 0\<rparr>)) (\<lambda>_. a)) b)
      (keeps s0 H) s"
    using stepD [OF assms(2) g] stepD [OF assms(1)] begun_banked [OF g] by simp
qed

lemma literal_kind_not_eof [simp]: "literal_kind_of TEof = None" "primitive_of TEof = None"
  by (simp_all add: literal_kind_of_def primitive_of_def)

lemma does_parse_type:
  assumes K: "\<And>c. does (n - 1) c (call_type K) (parses (g_type c))"
  shows "does n c (parse_type K) (parses (g_type c))"
proof -
  note steps = parser_rules step_got [OF K] step_got [OF does_parse_path [of n]]
    step_got_yields [OF does_comma_list [OF K]] step_got_yields [OF does_comma_until [OF K]] step_close_args
  have paren: "facing n c mk [] True t (parse_paren_type K mk) (parses (g_type c))"
    if "tok_kind t = TLParen" for t mk
    unfolding parse_paren_type_def
    by (intro steps) (use that in \<open>auto intro: g_type.intros\<close>)
  have path: "step n c mk [] True (parse_path_type K mk) (parses (g_type c))" for mk
    unfolding parse_path_type_def
    by (intro steps) (auto intro: g_type.intros)
  show ?thesis
    unfolding parse_type_def
    by (rule does_step, intro steps paren facing_step [OF path]) (auto intro: g_type.intros)
qed

lemma does_parse_closed_type:
  assumes K: "\<And>c. does (n - 1) c (call_type K) (parses (g_type c))"
  shows "does n c (parse_closed_type K) (parses (g_type c))"
  unfolding parse_closed_type_def
  by (rule does_step, intro parser_rules step_got [OF does_parse_type [OF K]] step_if_banked) auto

subsection \<open>Patterns\<close>

lemma facing_take_literal:
  assumes "literal_kind_of (tok_kind t) \<noteq> None"
    "step n c mk (ts @ [t]) P (f (literal_of c kind t)) H"
  shows "facing n c mk ts P t (take_literal kind f) H"
  unfolding take_literal_def
  by (intro parser_rules) (use assms in \<open>auto simp: literal_of_def\<close>)

lemmas pattern_rules = g_primary_pattern_g_field_pattern_g_pattern_g_alternatives.intros

lemma does_field_pattern:
  assumes "\<And>c. does m c (call_pattern K) (parses (g_pattern c))"
  shows "does m c (field_pattern_step K) (parses (g_field_pattern c))"
  unfolding field_pattern_step_def
  by (rule does_step, intro parser_rules step_got [OF does_parse_ident [of m]] step_got [OF assms])
    (auto intro: pattern_rules)

lemma does_parse_primary_pattern:
  assumes K: "\<And>c. does (n - 1) c (call_pattern K) (parses (g_pattern c))"
    "\<And>c. does (n - 1) c (call_primary_pattern K) (parses (g_primary_pattern c))"
  shows "does n c (parse_primary_pattern K) (parses (g_primary_pattern c))"
proof -
  note steps = parser_rules step_got [OF K(1)] step_got [OF K(2)] step_got [OF does_parse_path [of n]]
    step_got_yields [OF does_comma_list [OF K(1)]] step_got_yields [OF does_comma_until [OF K(1)]]
    step_got_yields [OF does_comma_until [OF does_field_pattern [OF K(1)]]]
    step_got [OF does_parse_ident [of n]] facing_take_literal
  have negative: "facing n c mk [] True t (parse_negative_pattern mk) (parses (g_primary_pattern c))"
    if "tok_kind t = TMinus" for t mk
    unfolding parse_negative_pattern_def
    by (intro steps) (use that in \<open>auto intro: pat_negative simp: literal_kind_of_def\<close>)
  have paren: "facing n c mk [] True t (parse_paren_pattern K mk) (parses (g_primary_pattern c))"
    if "tok_kind t = TLParen" for t mk
    unfolding parse_paren_pattern_def
    by (intro steps) (use that in \<open>auto intro: pattern_rules\<close>)
  have path: "step n c mk [] True (parse_path_pattern K mk) (parses (g_primary_pattern c))" for mk
    unfolding parse_path_pattern_def
    by (intro steps) (auto intro: pattern_rules)
  show ?thesis
    unfolding parse_primary_pattern_def
    by (rule does_step, intro steps negative paren facing_step [OF path])
      (auto intro: pattern_rules)
qed

lemma does_parse_pattern:
  assumes K: "\<And>c. does (n - 1) c (call_pattern K) (parses (g_pattern c))"
    "\<And>c. does (n - 1) c (call_primary_pattern K) (parses (g_primary_pattern c))"
  shows "does n c (parse_pattern K) (parses (g_pattern c))"
proof -
  note primary = does_parse_primary_pattern [OF K]
  let ?body = "\<lambda>alts. after (parse_primary_pattern K) (\<lambda>r. case r of
                  None \<Rightarrow> ret (Inr None)
                | Some alt \<Rightarrow> after (match TPipe) (\<lambda>more.
                    if \<not> more then ret (Inr (Some (alts @ [alt])))
                    else ret (Inl (alts @ [alt]))))"
  have loop: "step n c mk (ts @ [t]) P (repeat ?body [p])
      (parses (\<lambda>us ps. g_alternatives c us ps \<and> 2 \<le> length ps))"
    if "tok_kind t = TPipe" "P \<Longrightarrow> g_primary_pattern c ts p" for mk ts t p P
    apply (rule step_repeat [where I = "\<lambda>us ps. \<exists>vs b. us = vs @ [b] \<and> tok_kind b = TPipe \<and>
        g_alternatives c vs ps \<and> 1 \<le> length ps"])
     apply (use that in \<open>auto intro: pattern_rules\<close>)[1]
    apply (rule step_case [OF primary])
      apply simp
     apply (rule step_ret, simp)
    apply (intro parser_rules)
      apply (auto intro: pattern_rules)
    done
  show ?thesis
    unfolding parse_pattern_def parse_or_pattern_def
    by (rule does_step, intro parser_rules step_got [OF primary] step_got_repeat [OF loop])
      (auto intro: pattern_rules)
qed

end
