(* ===== verification/Parser_Expr.thy ===== *)
theory Parser_Expr
  imports Parser_Syntax
begin

text \<open>
  Expressions up to their primaries. The locale \<open>recursive_calls\<close> is the
  contract of the record \<open>calls\<close>: with at most \<open>n - 1\<close> tokens left, the recursive functions
  do what the grammar says. Inside it every parsing function is shown to do so with \<open>n\<close>
  tokens; the interpretation on \<open>calls_of\<close> closes the circle by induction on \<open>n\<close>.
\<close>

subsection \<open>Binary operators\<close>

lemma step_after_after:
  "step n c mk ts P (after m (\<lambda>x. after (g x) f)) H \<Longrightarrow> step n c mk ts P (after (after m g) f) H"
  by (simp add: step_def)

lemma step_match_op:
  assumes "\<And>t b. (tok_kind t, b) \<in> set ops \<Longrightarrow> step n c mk (ts @ [t]) P (f (Some b)) H"
    "step n c mk ts P (f None) H" "TEof \<notin> fst ` set ops"
  shows "step n c mk ts P (after (match_op ops) f) H"
  using assms
proof (induction ops)
  case (Cons kb ops)
  obtain k b where kb: "kb = (k, b)" by (cases kb)
  have tail: "step n c mk ts P (after (match_op ops) f) H"
    using Cons.IH Cons.prems by auto
  show ?case
    unfolding kb match_op.simps
    by (intro step_after_after step_match step_after_ret step_after_if tail)
      (use Cons.prems(1,3) kb in \<open>auto intro: step_after_ret\<close>)
qed (simp add: step_after_ret)

lemma does_binary_level:
  assumes operand: "does n c operand (parses (g_expr c (Suc l)))"
    and l: "l < 13" "TEof \<notin> fst ` set (level_ops l)"
  shows "does n c (binary_level (level_ops l) operand) (parses (g_expr c l))"
  unfolding binary_level_def
proof (rule does_step, intro step_reads_pos step_got [OF operand])
  fix mk lhs and us :: "token list"
  assume us: "us \<noteq> []"
  show "step n c mk ([] @ us) (True \<and> g_expr c (Suc l) us lhs)
      (repeat (binary_step (level_ops l) operand mk) lhs) (parses (g_expr c l))"
    unfolding binary_step_def
    apply (rule step_repeat [where I = "g_expr c l"])
     apply (use l in \<open>auto intro: expr_up\<close>)[1]
    apply (rule step_match_op [OF _ _ l(2)])
     apply simp
     apply (rule step_case [OF operand])
       apply simp
      apply (rule step_ret, simp)
     apply (rule step_span_from, simp)
     apply (rule step_ret, use expr_binary [of c l] in simp)
    apply (simp, rule step_ret, use us in auto)
    done
qed simp_all

text \<open>The inside of a struct literal: its fields and the base expression.\<close>

definition struct_body ::
  "ctx \<Rightarrow> token list \<Rightarrow> field_init list \<times> expr option \<Rightarrow> bool" where
  "struct_body c us r \<longleftrightarrow> (case r of
       (fs, None) \<Rightarrow> listed (g_init c) us fs
     | (fs, Some e) \<Rightarrow> \<exists>vs d ws. us = vs @ d # ws \<and> listed (g_init c) vs fs \<and> tok_kind d = TDotDot \<and>
         g_expr c 0 ws e)"

lemma struct_body_none: "listed (g_init c) us fs \<Longrightarrow> struct_body c us (fs, None)"
  by (simp add: struct_body_def)

lemma struct_body_base: "listed (g_init c) vs fs \<Longrightarrow> tok_kind d = TDotDot \<Longrightarrow> g_expr c 0 ws e \<Longrightarrow>
    struct_body c (vs @ d # ws) (fs, Some e)"
  by (auto simp: struct_body_def)

lemma g_path_span: "g_path c ts p \<Longrightarrow> path_span p = span_of c ts"
  by (cases rule: g_path.cases) auto

lemmas expr_rules = g_expr_g_init_g_cond_g_arms_g_stmt_g_stmts_g_block.intros

lemma expr_lower: "g_expr c (l + k) ts e \<Longrightarrow> l + k \<le> 13 \<Longrightarrow> g_expr c l ts e"
  by (induction k arbitrary: l) (auto intro: expr_up)

text \<open>The inside of a block at its end: every statement but the last has its semicolon.\<close>

definition block_body :: "ctx \<Rightarrow> token list \<Rightarrow> stmt list \<times> expr option \<Rightarrow> bool" where
  "block_body c us r \<longleftrightarrow> (case r of
       (ss, None) \<Rightarrow> g_stmts c us ss \<or> (\<exists>vs ws ss' st. us = vs @ ws \<and> ss = ss' @ [st] \<and>
         g_stmts c vs ss' \<and> g_stmt c ws st \<and> \<not> is_expr_stmt st)
     | (ss, Some e) \<Rightarrow> \<exists>vs ws sp. us = vs @ ws \<and> g_stmts c vs ss \<and> g_stmt c ws (ExprStmt sp e))"

lemma block_body_block:
  assumes "tok_kind l = TLBrace" "block_body c us (ss, fin)" "tok_kind r = TRBrace"
  shows "g_block c (l # us @ [r]) (Block (span_of c (l # us @ [r])) ss fin)"
  using assms block_plain [of l c us ss r] block_stmt [of l c _ _ _ _ r] block_value [of l c _ _ _ _ _ r]
  by (cases fin) (auto simp: block_body_def)

subsection \<open>The contract of the recursive calls\<close>

locale recursive_calls =
  fixes n :: nat and K :: calls
  assumes type_call: "does (n - 1) c (call_type K) (parses (g_type c))"
    and pattern_call: "does (n - 1) c (call_pattern K) (parses (g_pattern c))"
    and primary_pattern_call: "does (n - 1) c (call_primary_pattern K) (parses (g_primary_pattern c))"
    and expr_call: "does (n - 1) c (call_expr K) (parses (g_expr c 0))"
    and pow_call: "does (n - 1) c (call_pow K) (parses (g_expr c 10))"
    and unary_call: "does (n - 1) c (call_unary K) (parses (g_expr c 12))"
    and stmt_call: "does (n - 1) c (call_stmt K) (parses (g_stmt c))"
    and item_call: "does (n - 1) c (call_item K) (parses (g_item c))"
begin

lemmas pattern = does_parse_pattern [OF pattern_call primary_pattern_call]
lemmas closed_type = does_parse_closed_type [OF type_call]

lemmas calling = step_got [OF type_call] step_got [OF pattern_call] step_got [OF expr_call]
  step_got [OF pow_call] step_got [OF unary_call]
  step_got [OF does_parse_path [of n]] step_got [OF does_parse_ident [of n]]
  step_got_yields [OF does_comma_list [OF expr_call]]
  step_got_yields [OF does_comma_until [OF expr_call]]

subsection \<open>Pieces of primary expressions\<close>

lemma init: "does (n - 1) c (field_init_step K) (parses (g_init c))"
  unfolding field_init_step_def
  by (rule does_step, intro parser_rules step_got [OF does_parse_ident [of "n - 1"]] step_got [OF expr_call])
    (auto intro: expr_rules)

lemma paren: "tok_kind t = TLParen \<Longrightarrow> facing n c mk [] True t (parse_paren_expr K mk) (parses (g_expr c 13))"
  unfolding parse_paren_expr_def
  by (intro parser_rules calling) (auto intro: expr_rules)

lemma returning: "tok_kind t = TRet \<Longrightarrow> facing n c mk [] True t (parse_return K mk) (parses (g_expr c 13))"
  unfolding parse_return_def
  by (intro parser_rules calling) (auto intro: expr_rules)

lemmas struct_body_rules = struct_body_none struct_body_base awaiting_listed awaiting_comma
  awaiting_listed_more awaiting_listed_comma

lemma struct_fields:
  assumes "tok_kind l = TLBrace"
  shows "step n c mk (ps @ [l]) P (repeat (struct_fields_step K) [])
     (parses (\<lambda>ts r. \<exists>us. ts = ps @ l # us \<and> P \<and> struct_body c us r))"
  unfolding struct_fields_step_def
  apply (rule step_repeat [where I = "\<lambda>ts fs. \<exists>us. ts = ps @ l # us \<and> P \<and> awaiting (g_init c) us fs"])
   apply (simp add: awaiting_def)
  apply (rule step_if_p)
   apply (rule step_ret, auto intro: struct_body_rules)[1]
  apply (intro step_match, simp_all)
   apply (rule step_case [OF expr_call], simp)
    apply (rule step_ret, simp)
   apply (rule step_ret, auto intro!: struct_body_base awaiting_listed)[1]
  apply (rule step_case [OF init])
    apply (auto dest: Suc_le_lessD intro: diff_le_mono)[1]
   apply (rule step_ret, simp)
  apply (intro parser_rules)
    apply (auto intro!: struct_body_none awaiting_listed_more awaiting_comma)
  done

lemma struct_literal:
  assumes "tok_kind l = TLBrace" "P \<Longrightarrow> cx_struct_lit c \<and> g_path c ps p"
  shows "step n c mk (ps @ [l]) P (parse_struct_literal K mk p) (parses (g_expr c 13))"
  unfolding parse_struct_literal_def
proof (rule step_got_repeat [OF struct_fields [OF assms(1)]])
  fix x :: "field_init list \<times> expr option" and us :: "token list"
  obtain fs base where x: "x = (fs, base)" by (cases x)
  let ?Q = "\<exists>vs. us = ps @ l # vs \<and> P \<and> struct_body c vs (fs, base)"
  have expr: "g_expr c 13 (us @ [r]) (StructExpr (span_of c (us @ [r])) p fs base)"
    if "?Q" "tok_kind r = TRBrace" for r
    using that assms prim_struct [of c ps p l _ fs r] prim_struct_base [of c ps p l _ fs _ _ _ r]
    by (cases base) (auto simp: struct_body_def)
  have late: "g_expr c 13 (us @ d # ws @ [r]) (StructExpr (span_of c (us @ d # ws @ [r])) p fs (Some e))"
    if "?Q" "base = None" "tok_kind d = TDotDot" "g_expr c 0 ws e" "tok_kind r = TRBrace" for d ws e r
    using that assms prim_struct_base [of c ps p l _ fs d ws e r] by (auto simp: struct_body_def)
  assume "us \<noteq> []"
  then show "step n c mk us (\<exists>vs. us = ps @ l # vs \<and> P \<and> struct_body c vs x)
     (case x of (fs, base) \<Rightarrow>
        got (if base = None then after (match TDotDot) (\<lambda>dots.
            if dots then got (call_expr K) (\<lambda>e. ret (Some (Some e))) else ret (Some None))
          else ret (Some base)) (\<lambda>base'.
     need (expect TRBrace ''`}`'') (node mk (\<lambda>sp. StructExpr sp p fs base')))) (parses (g_expr c 13))"
    unfolding x prod.case
    by (intro parser_rules calling) (use expr late in auto)
qed simp

lemma path_expr: "step n c mk [] True (parse_path_expr K mk) (parses (g_expr c 13))"
proof -
  have call: "g_expr c 13 (ts @ l # us @ [r])
      (CallExpr (span_of c (ts @ l # us @ [r])) (PathExpr (path_span p) p) es)"
    if "g_path c ts p" "tok_kind l = TLParen" "listed (g_expr c 0) us es" "tok_kind r = TRParen"
    for ts l us r p es
    using post_call [OF prim_path [OF that(1)] that(2-4)] g_path_span [OF that(1)] by simp
  show ?thesis
    unfolding parse_path_expr_def
    by (intro parser_rules calling struct_literal) (auto intro: call prim_path)
qed

lemma arguments: "does (n - 1) c (call_arguments K)
    (parses (\<lambda>ts es. \<exists>us r. ts = us @ [r] \<and> listed (g_expr c 0) us es \<and> tok_kind r = TRParen))"
  unfolding call_arguments_def
  by (rule does_step, intro parser_rules step_got_yields [OF does_comma_list [OF expr_call]]) auto

lemma postfix_dot:
  assumes "n \<le> n - 1 + length ts" "P \<Longrightarrow> \<exists>us d. ts = us @ [d] \<and> tok_kind d = TDot \<and> g_expr c 13 us e"
    "k < length ts"
  shows "step n c mk ts P (postfix_dot K mk e) (beyond k (g_expr c 13))"
  unfolding postfix_dot_def
  by (intro parser_rules calling step_got [OF arguments])
    (use assms in \<open>auto intro!: post_method post_field simp: ident_of_def [symmetric]\<close>)

lemma postfix_step:
  assumes "n \<le> n - 1 + length ts" "ts \<noteq> []"
  shows "step n c mk ts (g_expr c 13 ts e) (postfix_step K mk e)
    (turns ts (\<lambda>_ _. True) (g_expr c 13) (parses (g_expr c 13)))"
  unfolding postfix_step_def Let_def
  by (intro parser_rules calling step_got [OF arguments] step_continue postfix_dot)
    (use assms in \<open>auto intro: post_call post_index post_question\<close>)

lemma no_lit_expr: "does (n - 1) c (without_struct_lit (call_expr K)) (parses (g_expr (no_lit c) 0))"
  unfolding no_lit_def by (rule does_without_struct_lit) (rule expr_call)

lemma cond: "does (n - 1) c (parse_cond K) (parses (g_cond c))"
  unfolding parse_cond_def
  by (rule does_step, intro parser_rules step_reads step_got [OF no_lit_expr]
      step_got [OF pattern_call] step_got [OF expr_call])
    (auto intro: cond_value cond_pattern)

end

end
