(* ===== verification/Parser_Spec.thy ===== *)
theory Parser_Spec
  imports Parser_Expr Lexer_Spec
begin

text \<open>
  Blocks, control expressions, operators, statements, items and the whole parser: the locale
  \<open>recursive_calls\<close> of \<open>Parser_Expr\<close> is continued here and interpreted on \<open>calls_of\<close>.
\<close>

lemma does_promise:
  "does n c m H \<Longrightarrow> (\<And>b us r. H b us r \<Longrightarrow> H' b us r) \<Longrightarrow> does n c m H'"
  unfolding does_def by (blast intro: wp_mono keeps_mono)

lemma facing_does:
  assumes "does n c p H"
  shows "facing n c mk [] P t p H"
proof (rule facingI)
  fix s0 s
  assume b: "begun n c mk [] P s0 s"
  then have "wp p (keeps s H) s"
    using assms begun_ready begun_less unfolding does_def by fastforce
  then show "wp p (keeps s0 H) s"
  proof (rule wp_mono)
    fix r s'
    assume "keeps s H r s'"
    then obtain us q where e: "eats s us s'" "clean s s' \<longrightarrow> q" "H q us r" by (auto simp: keeps_def)
    have "eats s0 [] s" using b by (simp add: begun_def)
    with e clean_through [of s0 s' "[]" s us] eats_trans [of s0 "[]" s us s']
    show "keeps s0 H r s'" by (auto simp: keeps_def)
  qed
qed

lemma step_got_if_or:
  "step n c mk ts P (got a f) H \<Longrightarrow> (\<not> b \<Longrightarrow> step n c mk ts P (got x f) H) \<Longrightarrow>
     step n c mk ts P (got (if_p (\<lambda>s. b \<or> q s) a x) f) H"
  by (cases b) (simp_all add: step_def got_def)

lemma got_simps:
  "got (after m g) f = after m (\<lambda>x. got (g x) f)"
  "got (if b then p else q) f = (if b then got p f else got q f)"
  "got (ret (Some x)) f = f x" "got (ret None) f = ret None"
  "got (peek_kind h) f = peek_kind (\<lambda>k. got (h k) f)"
  by (rule ext, simp add: got_def after_def peek_kind_def ret_def split: sum.split)+

lemma step_facing: "(\<And>t. facing n c mk ts P t m H) \<Longrightarrow> step n c mk ts P m H"
  by (auto simp: step_def facing_def)

lemma step_is_range_op:
  assumes "\<And>t. range_token (tok_kind t) \<Longrightarrow> facing n c mk ts P t a H" "step n c mk ts P b H"
  shows "step n c mk ts P (if_p is_range_op a b) H"
proof (rule stepI)
  fix s0 s
  assume "begun n c mk ts P s0 s"
  with assms show "wp (if_p is_range_op a b) (keeps s0 H) s"
    by (auto simp: is_range_op_def range_token_def check_ready begun_ready intro: stepD facingD)
qed

text \<open>Rows of items and methods.\<close>

lemma step_item_list:
  assumes e: "does m c element (parses G)" and n: "n \<le> m + length ts0"
    and stops: "\<And>s. at_end s \<Longrightarrow> q s"
  shows "step n c mk ts0 P (repeat (item_list_step q element) [])
     (\<lambda>cl ts xs. length ts0 \<le> length ts \<and> (cl \<longrightarrow> (\<exists>us. ts = ts0 @ us \<and> P \<and> rows G us xs)))"
  unfolding item_list_step_def
  apply (rule step_repeat [where I = "\<lambda>ts xs. \<exists>us. ts = ts0 @ us \<and> P \<and> rows G us xs"])
   apply (simp add: rows_none)
  apply (rule step_if_stops, erule stops)
   apply (rule step_ret, simp)
  apply (intro facing_match facing_if, simp_all)
   apply (rule step_ret, auto intro: rows_stray)[1]
  apply (rule facing_recover [OF e])
     apply (use n in simp)
    apply assumption
   apply (rule step_ret, simp)
  apply (rule step_ret, use rows_more in fastforce)
  done

lemma facing_tail:
  assumes p: "does m c p (parses G)" and n: "n \<le> m + length ts"
    and H: "\<And>us x. P \<Longrightarrow> G us x \<Longrightarrow> H (ts @ us) x"
  shows "facing n c mk ts P t p (parses H)"
proof -
  have "step n c mk ts P (after p ret) (parses H)"
    by (rule step_call [OF p n], rule step_ret) (use H in \<open>auto simp: parses_def split: option.splits\<close>)
  moreover have "after p ret = p"
    by (rule ext) (simp add: after_def ret_def split: sum.split)
  ultimately show ?thesis by (simp add: facing_step)
qed

lemma fn_plain: "tok_kind f = TFn \<Longrightarrow> tok_kind t = TIdent \<Longrightarrow> tok_kind l = TLParen \<Longrightarrow> listed (g_param c) ts ps \<Longrightarrow>
    tok_kind r = TRParen \<Longrightarrow> g_block c vs b \<Longrightarrow>
    g_fn c pub (f # t # l # ts @ r # vs)
      \<lparr>fn_span = span_of c (f # t # l # ts @ r # vs), fn_is_pub = pub, fn_name = ident_of c t,
       fn_params = ps, fn_return_type = None, fn_body = b\<rparr>"
  using fn [of f t l c ts ps r "[]" None vs b] by (simp add: return_none)

lemma fn_typed: "tok_kind f = TFn \<Longrightarrow> tok_kind t = TIdent \<Longrightarrow> tok_kind l = TLParen \<Longrightarrow> listed (g_param c) ts ps \<Longrightarrow>
    tok_kind r = TRParen \<Longrightarrow> tok_kind a = TArrow \<Longrightarrow> g_type c us ty \<Longrightarrow> g_block c vs b \<Longrightarrow>
    g_fn c pub (f # t # l # ts @ r # a # us @ vs)
      \<lparr>fn_span = span_of c (f # t # l # ts @ r # a # us @ vs), fn_is_pub = pub, fn_name = ident_of c t,
       fn_params = ps, fn_return_type = Some ty, fn_body = b\<rparr>"
  using fn [of f t l c ts ps r "a # us" "Some ty" vs b] by (simp add: return_type)

context recursive_calls begin

subsection \<open>Blocks\<close>

text \<open>
  A statement without its semicolon may only stand at the end of the block, so the invariant
  of the loop looks at the next token.
\<close>

definition block_inv :: "ctx \<Rightarrow> nat \<Rightarrow> token \<Rightarrow> parser \<Rightarrow> stmt list \<Rightarrow> parser \<Rightarrow> bool" where
  "block_inv c mk l s0 ss s \<longleftrightarrow> (\<exists>us. begun n c mk (l # us)
     (g_stmts c us ss \<or> ends_items s \<and> block_body c us (ss, None)) s0 s)"

lemma block_turn:
  assumes inv: "block_inv c mk l s0 ss s"
  shows "wp (block_step K ss) (\<lambda>r s'. case r of
       Inl ss' \<Rightarrow> block_inv c mk l s0 ss' s' \<and> length (rest s') < length (rest s)
     | Inr y \<Rightarrow> \<exists>us. begun n c mk (l # us) (block_body c us y) s0 s') s"
    (is "wp _ ?Q s")
proof -
  obtain us where b: "begun n c mk (l # us)
      (g_stmts c us ss \<or> ends_items s \<and> block_body c us (ss, None)) s0 s"
    using inv by (auto simp: block_inv_def)
  note r = begun_ready [OF b]
  have shrink: "length (rest s') < length (rest s)" if "eats s vs s'" "vs \<noteq> []" for vs s'
    using that by (auto simp: eats_def)
  have noisy: "?Q (Inl ss') s'" if "begun n c mk (l # us @ vs) False s0 s'" "vs \<noteq> []" for vs s' ss'
    using that(2) arg_cong [OF begun_rest [OF that(1)], of length] arg_cong [OF begun_rest [OF b], of length]
      that(1) begun_less [OF b]
    by (auto simp: block_inv_def begun_def intro!: exI [of _ "us @ vs"])
  show ?thesis
  proof (cases "ends_items s")
    case True
    then have "?Q (Inr (ss, None)) s"
      using b by (auto simp: begun_def block_body_def)
    with True show ?thesis by (simp add: block_step_def ends_items_def)
  next
    case False
    then have open_: "\<not> check TRBrace s" "\<not> at_end s" by (auto simp: ends_items_def)
    then have t: "tok_kind (hd (rest s)) \<noteq> TEof" by (simp add: at_end_ready r)
    have g: "begun n c mk (l # us) (g_stmts c us ss) s0 s"
      using b False by (auto simp: begun_def)
    have tail: "wp (stmt_end ss st) ?Q s1"
      if e: "eats s vs s1" "vs \<noteq> []" and st: "clean s s1 \<longrightarrow> g_stmt c vs st" for vs st s1
    proof -
      have b1: "begun n c mk (l # us @ vs) (g_stmts c us ss \<and> g_stmt c vs st) s0 s1"
        using begun_eats [OF g e(1), of "g_stmts c us ss \<and> g_stmt c vs st"] st by simp
      note r1 = begun_ready [OF b1]
      show ?thesis
      proof (cases "ends_items s1")
        case True
        then have ends: "check TRBrace s1 \<or> at_end s1" by (simp add: ends_items_def)
        then have no_semi: "tok_kind (hd (rest s1)) \<noteq> TSemicolon"
          by (auto simp: check_ready at_end_ready r1)
        show ?thesis
        proof (cases "is_expr_stmt st")
          case True
          then obtain sp e where st': "st = ExprStmt sp e" by (cases st) auto
          then have "begun n c mk (l # us @ vs) (block_body c (us @ vs) (ss, Some e)) s0 s1"
            using b1 by (auto simp: begun_def block_body_def)
          then show ?thesis using ends st' by (auto simp: stmt_end_def)
        next
          case False
          then have "begun n c mk (l # us @ vs) (block_body c (us @ vs) (ss @ [st], None)) s0 s1"
            using b1 by (auto simp: begun_def block_body_def)
          then have "?Q (Inl (ss @ [st])) s1"
            using \<open>ends_items s1\<close> shrink e by (auto simp: block_inv_def begun_def)
          with ends False no_semi show ?thesis by (cases st) (auto simp: stmt_end_def wp_match r1)
        qed
      next
        case False
        then have go: "\<not> check TRBrace s1" "\<not> at_end s1" by (auto simp: ends_items_def)
        have semi: "?Q (Inl (ss @ [st])) (advanced s1)" if "tok_kind (hd (rest s1)) = TSemicolon"
        proof -
          have a: "eats s1 [hd (rest s1)] (advanced s1)"
            using that by (simp add: eats_advanced r1)
          have "begun n c mk (l # us @ vs @ [hd (rest s1)]) (g_stmts c (us @ vs @ [hd (rest s1)]) (ss @ [st])) s0
              (advanced s1)"
            using begun_eats [OF b1 a, of "g_stmts c (us @ vs @ [hd (rest s1)]) (ss @ [st])"] that
            by (auto intro: stmts_more)
          with shrink [OF eats_trans [OF e(1) a]] show ?thesis by (auto simp: block_inv_def begun_def)
        qed
        have lost: "wp synchronize (\<lambda>_ s'. ?Q (Inl (ss @ [st])) s')
            (emit_parser kParserUnexpectedToken sp m s1)" for sp m
        proof (rule wp_mono [OF wp_synchronize])
          let ?s = "emit_parser kParserUnexpectedToken sp m s1"
          note em = eats_emit [OF r1, of sp m]
          show "ready ?s" using em(1) by (rule eats_ready)
          fix x s'
          assume "\<exists>us. eats ?s us s' \<and> (at_end ?s \<or> us \<noteq> [])"
          then obtain ws where ws: "eats ?s ws s'" by blast
          have "begun n c mk (l # us @ vs) False s0 ?s"
            using begun_eats [OF b1 em(1), of False] em(2) by simp
          from begun_eats [OF this ws, of False] show "?Q (Inl (ss @ [st])) s'"
            using noisy [of "vs @ ws" s' "ss @ [st]"] e(2) by simp
        qed
        show ?thesis
          using go semi lost by (auto simp: stmt_end_def wp_match wp_peek r1 split: stmt.splits)
      qed
    qed
    have at: "at_end s1 = at_end s" if "eats s [] s1" for s1
      using that r at_end_ready [of s1] at_end_ready [of s] by (auto simp: eats_def)
    show ?thesis
    proof (cases "tok_kind (hd (rest s)) = TSemicolon")
      case True
      then have a: "eats s [hd (rest s)] (advanced s)" by (simp add: eats_advanced r)
      have "begun n c mk (l # us @ [hd (rest s)]) (g_stmts c (us @ [hd (rest s)]) ss) s0 (advanced s)"
        using begun_eats [OF g a, of "g_stmts c (us @ [hd (rest s)]) ss"] True by (auto intro: stmts_stray)
      with shrink [OF a] have "?Q (Inl ss) (advanced s)" by (auto simp: block_inv_def begun_def)
      with True open_ show ?thesis by (simp add: block_step_def wp_match r)
    next
      case False
      have call: "wp (call_stmt K) (keeps s (parses (g_stmt c))) s"
        using stmt_call begun_less [OF b] r by (auto simp: does_def)
      have "wp (after (call_stmt K) (\<lambda>r. case r of None \<Rightarrow> after synchronize (\<lambda>_. ret (Inl ss))
          | Some st \<Rightarrow> stmt_end ss st)) ?Q s"
        unfolding wp_after
      proof (rule wp_mono [OF call])
        fix x s1
        assume "keeps s (parses (g_stmt c)) x s1"
        then obtain vs q where e: "eats s vs s1" "clean s s1 \<longrightarrow> q" "parses (g_stmt c) q vs x"
          by (auto simp: keeps_def)
        show "wp (case x of None \<Rightarrow> after synchronize (\<lambda>_. ret (Inl ss)) | Some st \<Rightarrow> stmt_end ss st) ?Q s1"
        proof (cases x)
          case None
          then have n1: "begun n c mk (l # us @ vs) False s0 s1"
            using begun_eats [OF g e(1), of False] e(2,3) by simp
          have "wp synchronize (\<lambda>_ s'. ?Q (Inl ss) s') s1"
          proof (rule wp_mono [OF wp_synchronize [OF eats_ready [OF e(1)]]])
            fix u s2
            assume "\<exists>ws. eats s1 ws s2 \<and> (at_end s1 \<or> ws \<noteq> [])"
            then obtain ws where ws: "eats s1 ws s2" "at_end s1 \<or> ws \<noteq> []" by blast
            have "vs @ ws \<noteq> []" using ws(2) open_(2) at e(1) by (cases vs) auto
            moreover have "begun n c mk (l # us @ vs @ ws) False s0 s2"
              using begun_eats [OF n1 ws(1), of False] by simp
            ultimately show "?Q (Inl ss) s2" by (rule noisy [rotated])
          qed
          with None show ?thesis by simp
        next
          case (Some st)
          with e tail [of vs s1 st] show ?thesis by simp
        qed
      qed
      with False open_ show ?thesis by (simp add: block_step_def wp_match r)
    qed
  qed
qed

lemma block_loop:
  "step n c mk [l] True (repeat (block_step K) [])
     (\<lambda>cl ts r. \<exists>us. ts = l # us \<and> (cl \<longrightarrow> block_body c us r))"
proof (rule stepI)
  fix s0 s
  assume b: "begun n c mk [l] True s0 s"
  have start: "block_inv c mk l s0 [] s"
    using b by (auto simp: block_inv_def begun_def intro!: exI [of _ "[]"] intro: stmts_none)
  show "wp (repeat (block_step K) []) (keeps s0 (\<lambda>cl ts r. \<exists>us. ts = l # us \<and> (cl \<longrightarrow> block_body c us r))) s"
  proof (rule wp_mono [OF repeat_raw [where Inv = "block_inv c mk l s0", OF start block_turn]])
    fix x s'
    assume "\<exists>us. begun n c mk (l # us) (block_body c us x) s0 s'"
    then show "keeps s0 (\<lambda>cl ts r. \<exists>us. ts = l # us \<and> (cl \<longrightarrow> block_body c us r)) x s'"
      by (auto simp: begun_def keeps_def)
  qed
qed

lemma block: "does n c (parse_block K) (parses (g_block c))"
  unfolding parse_block_def
  apply (rule does_step, intro step_reads_pos step_need_expect)
    apply simp_all
  apply (rule step_bind [OF block_loop])
  apply (intro parser_rules)
    apply (auto intro: block_body_block)
  done

lemmas block_calls = step_got [OF block] step_got [OF cond]

lemma block_expr: "does n c (parse_block_expr K) (parses (g_expr c 13))"
  unfolding parse_block_expr_def
  by (rule does_step, intro parser_rules block_calls) (auto intro: prim_block)

subsection \<open>Control expressions\<close>

lemma if_expr: "does n c (parse_if K) (parses (g_expr c 13))"
  unfolding parse_if_def
  by (rule does_step, intro parser_rules block_calls) (auto intro: prim_if prim_if_else)

lemma loop_expr: "does n c (parse_loop K) (parses (g_expr c 13))"
  unfolding parse_loop_def
  by (rule does_step, intro parser_rules block_calls) (auto intro: prim_loop)

lemma while_expr: "does n c (parse_while K) (parses (g_expr c 13))"
  unfolding parse_while_def
  by (rule does_step, intro parser_rules block_calls) (auto intro: prim_while)

lemma match_arm: "does (n - 1) c (match_arm_op K)
    (parses (\<lambda>ts arm. \<exists>us a vs p e. ts = us @ a # vs \<and> arm = MatchArm p e \<and> g_pattern c us p \<and>
      tok_kind a = TFatArrow \<and> g_expr c 0 vs e))"
  unfolding match_arm_op_def
  by (rule does_step, intro parser_rules step_got [OF pattern_call] step_got [OF expr_call]) auto

lemma match_arms:
  assumes "ts0 \<noteq> []"
  shows "step n c mk ts0 P (repeat (match_arms_step K) [])
     (\<lambda>cl ts arms. ts \<noteq> [] \<and> (cl \<longrightarrow> (\<exists>us. ts = ts0 @ us \<and> P \<and> g_arms c us arms)))"
  unfolding match_arms_step_def
  apply (rule step_repeat [where I = "\<lambda>ts arms. \<exists>us. ts = ts0 @ us \<and> P \<and> g_arms c us arms"])
   apply (simp add: arms_none)
  apply (rule step_if_stops, simp)
   apply (rule step_ret, use assms in fastforce)
  apply (intro facing_match facing_if, simp_all)
    apply (rule step_ret, auto intro: arms_separator)[1]
   apply (rule step_ret, auto intro: arms_separator)[1]
  apply (rule facing_recover [OF match_arm])
     apply (use assms in \<open>cases ts0, auto\<close>)[1]
    apply assumption
   apply (rule step_ret, simp)
  apply (rule step_ret, use arms_more in fastforce)
  done

lemma match_expr: "does n c (parse_match K) (parses (g_expr c 13))"
  unfolding parse_match_def
  apply (rule does_step, intro step_reads_pos step_need_expect step_got [OF no_lit_expr])
        apply simp_all
  apply (rule step_bind [OF match_arms], simp)
  apply (intro parser_rules)
    apply (auto intro: prim_match)
  done

subsection \<open>Primary, postfix and prefix forms\<close>

lemma primary: "does n c (parse_primary K) (parses (g_expr c 13))"
  unfolding parse_primary_def
  by (rule does_step, intro parser_rules facing_take_literal paren returning
      facing_step [OF path_expr] facing_does [OF block_expr] facing_does [OF if_expr]
      facing_does [OF match_expr] facing_does [OF loop_expr] facing_does [OF while_expr])
    (auto intro: prim_literal prim_break prim_continue)

lemma postfix: "does n c (parse_postfix K) (parses (g_expr c 13))"
  unfolding parse_postfix_def
proof (rule does_step, intro step_reads_pos step_got [OF primary])
  fix mk base and us :: "token list"
  assume us: "us \<noteq> []"
  show "step n c mk ([] @ us) (True \<and> g_expr c 13 us base) (repeat (postfix_step K mk) base)
      (parses (g_expr c 13))"
  proof (rule step_repeat)
    fix e and ts :: "token list"
    assume "length ([] @ us) \<le> length ts"
    with us have "n \<le> n - 1 + length ts" "ts \<noteq> []" by (cases us, auto)
    then show "step n c mk ts (g_expr c 13 ts e) (postfix_step K mk e)
        (turns ts (\<lambda>_ _. True) (g_expr c 13) (parses (g_expr c 13)))"
      by (rule postfix_step)
  qed simp
qed simp_all

lemma postfix_up: "does n c (parse_postfix K) (parses (g_expr c 12))"
  by (rule does_promise [OF postfix]) (auto simp: parses_def split: option.splits intro: expr_up)

lemma unary: "does n c (parse_unary K) (parses (g_expr c 12))"
  unfolding parse_unary_def
  by (rule does_step, intro parser_rules step_got [OF unary_call] facing_does [OF postfix_up])
    (auto intro: expr_unary expr_borrow expr_borrow_mut simp: unary_of_def)

subsection \<open>Operators and ranges\<close>

lemma cast: "does n c (parse_cast K) (parses (g_expr c 11))"
  unfolding parse_cast_def
  by (rule does_step, intro parser_rules step_got [OF unary] step_got [OF closed_type])
    (auto intro: expr_up expr_cast)

lemma pow: "does n c (parse_pow K) (parses (g_expr c 10))"
  unfolding parse_pow_def
  by (rule does_step, intro parser_rules step_got [OF cast] step_got [OF pow_call])
    (auto intro: expr_up expr_pow simp: Suc_le_eq)

lemma mul: "does n c (parse_mul K) (parses (g_expr c 9))"
  using does_binary_level [of n c "parse_pow K" 9] pow by (simp add: parse_mul_def level_ops_def)

lemma add: "does n c (parse_add K) (parses (g_expr c 8))"
  using does_binary_level [of n c "parse_mul K" 8] mul by (simp add: parse_add_def level_ops_def)

lemma shift: "does n c (parse_shift K) (parses (g_expr c 7))"
  using does_binary_level [of n c "parse_add K" 7] add by (simp add: parse_shift_def level_ops_def)

lemma bitand: "does n c (parse_bitand K) (parses (g_expr c 6))"
  using does_binary_level [of n c "parse_shift K" 6] shift by (simp add: parse_bitand_def level_ops_def)

lemma bitxor: "does n c (parse_bitxor K) (parses (g_expr c 5))"
  using does_binary_level [of n c "parse_bitand K" 5] bitand by (simp add: parse_bitxor_def level_ops_def)

lemma bitor: "does n c (parse_bitor K) (parses (g_expr c 4))"
  using does_binary_level [of n c "parse_bitxor K" 4] bitxor by (simp add: parse_bitor_def level_ops_def)

lemma cmp: "does n c (parse_cmp K) (parses (g_expr c 3))"
  unfolding parse_cmp_def
  by (rule does_step, intro parser_rules step_got [OF bitor])
    (auto intro: expr_up expr_cmp simp: cmp_of_def)

lemma and_: "does n c (parse_and K) (parses (g_expr c 2))"
  using does_binary_level [of n c "parse_cmp K" 2] cmp by (simp add: parse_and_def level_ops_def)

lemma or_: "does n c (parse_or K) (parses (g_expr c 1))"
  using does_binary_level [of n c "parse_and K" 1] and_
  by (simp add: parse_or_def level_ops_def numeral_2_eq_2)

lemma range_tail:
  assumes "range_token (tok_kind t)"
    "case start of None \<Rightarrow> ts = [] | Some e \<Rightarrow> ts \<noteq> [] \<and> (P \<longrightarrow> g_expr c 1 ts e)"
  shows "facing n c mk ts P t (range_tail K mk start) (parses (g_expr c 0))"
  unfolding range_tail_def peek_kind_def
  apply (intro facing_peek facing_advance step_got_if_or)
    apply (use assms(1) in \<open>auto simp: range_token_def\<close>)[1]
   apply (intro parser_rules, simp)
   apply (use assms in \<open>auto split: option.splits intro: range_open range_from\<close>)[1]
  apply (intro parser_rules step_got [OF or_])
     apply (use assms in \<open>auto split: option.splits intro: range_to range_full\<close>)
  done

lemma range: "does n c (parse_range K) (parses (g_expr c 0))"
  unfolding parse_range_def
  by (rule does_step, intro step_reads_pos step_is_range_op range_tail step_got [OF or_])
    (auto intro!: step_ret expr_up [where l = 0, simplified])

lemma expr: "does n c (parse_expr K) (parses (g_expr c 0))"
  unfolding parse_expr_def by (rule range)

subsection \<open>Statements\<close>

lemmas stmt_calls = step_got [OF pattern] step_got [OF closed_type] step_got [OF expr]
  step_got [OF does_parse_ident [of n]] step_got [OF does_parse_path [of n]] step_got [OF block]

lemma decl_stmt: "step n c mk [] True (parse_decl_stmt K mk) (parses (g_stmt c))"
  unfolding parse_decl_stmt_def
  by (intro parser_rules stmt_calls) (auto intro: stmt_decl stmt_decl_type)

lemma reassign_stmt: "step n c mk [] True (parse_reassign_stmt K mk) (parses (g_stmt c))"
  unfolding parse_reassign_stmt_def reassign_op_def got_simps peek_kind_def prod.case
  apply (rule step_got [OF expr], simp_all)
  apply (rule step_facing, rule facing_match, simp)
   apply (simp add: got_simps, intro stmt_calls step_node, simp_all)
   apply (auto intro: stmt_assign)[1]
  apply (intro parser_rules stmt_calls)
       apply (auto intro: stmt_compound simp: is_compound_assign_def)
  done

lemma stmt: "does n c (parse_stmt K) (parses (g_stmt c))"
  unfolding parse_stmt_def
  by (rule does_step, intro step_reads_pos step_reads step_if decl_stmt reassign_stmt stmt_calls step_node)
    (auto intro: stmt_expr)

subsection \<open>Items\<close>

lemma fn_param: "does n c (fn_param_op K) (parses (g_param c))"
  unfolding fn_param_op_def
  by (rule does_step, intro parser_rules stmt_calls) (auto intro: param)

lemma struct_field: "does n c (struct_field_op K) (parses (g_field c))"
  unfolding struct_field_op_def
  by (rule does_step, intro parser_rules stmt_calls) (auto intro: field)

lemmas parse_type = does_parse_type [OF type_call]
lemmas primary_pattern = does_parse_primary_pattern [OF pattern_call primary_pattern_call]

lemma enum_variant: "does n c (enum_variant_op K) (parses (g_variant c))"
  unfolding enum_variant_op_def
  by (rule does_step, intro parser_rules stmt_calls step_got_yields [OF does_comma_list [OF parse_type]])
    (auto intro: variant_unit variant_tuple)

lemmas item_calls = stmt_calls step_got_yields [OF does_comma_list [OF fn_param]]
  step_got_yields [OF does_comma_until [OF struct_field]]
  step_got_yields [OF does_comma_until [OF enum_variant]]

lemma fn_op: "does n c (parse_fn K pub) (parses (g_fn c pub))"
  unfolding parse_fn_def
  by (rule does_step, intro parser_rules item_calls) (auto intro: fn_plain fn_typed)

lemma struct_op: "does n c (parse_struct K pub) (parses (g_bare c pub))"
  unfolding parse_struct_def
  by (rule does_step, intro parser_rules item_calls) (auto intro: item_struct)

lemma enum_op: "does n c (parse_enum K pub) (parses (g_bare c pub))"
  unfolding parse_enum_def
  by (rule does_step, intro parser_rules item_calls) (auto intro: item_enum)

lemma impl_op: "does n c (parse_impl K pub) (parses (g_bare c pub))"
  unfolding parse_impl_def
  apply (rule does_step, intro step_reads_pos step_need_expect item_calls)
        apply simp_all
  apply (rule step_bind [OF step_item_list [OF fn_op]], simp add: le_add2)
   apply (simp add: ends_items_def)
  apply (intro parser_rules)
    apply (auto intro: item_impl)
  done

lemma mod_op: "does n c (parse_mod K pub) (parses (g_bare c pub))"
  unfolding parse_mod_def
  apply (rule does_step, intro step_reads_pos step_need_expect item_calls step_match step_if step_node)
             apply simp_all
   apply (auto intro: item_mod_file)[1]
  apply (rule step_bind [OF step_item_list [OF item_call]], simp)
   apply (simp add: ends_items_def)
  apply (intro parser_rules)
    apply (auto intro: item_mod)
  done

lemma static_op: "does n c (parse_static K pub) (parses (g_bare c pub))"
  unfolding parse_static_def
  by (rule does_step, intro parser_rules item_calls) (auto intro: item_static)

lemma const_op: "does n c (parse_const K pub) (parses (g_bare c pub))"
  unfolding parse_const_def
  by (rule does_step, intro parser_rules item_calls) (auto intro: item_const)

lemma use_op: "does n c (parse_use K pub) (parses (g_bare c pub))"
  unfolding parse_use_def
  by (rule does_step, intro parser_rules item_calls) (auto intro: item_use item_use_as)

lemma item: "does n c (parse_item K) (parses (g_item c))"
proof -
  have fn: "does n c (got (parse_fn K pub) (\<lambda>f. ret (Some (FnItem f)))) (parses (g_bare c pub))" for pub
    by (rule does_step, intro parser_rules step_got [OF fn_op]) (auto intro: item_fn)
  note ops = fn struct_op enum_op impl_op mod_op static_op const_op use_op
  note tails = ops [THEN facing_tail]
  have body: "step n c mk ts P (peek_kind (\<lambda>k.
         if k = TFn then got (parse_fn K pub) (\<lambda>f. ret (Some (FnItem f)))
         else if k = TStruct then parse_struct K pub else if k = TEnum then parse_enum K pub
         else if k = TImpl then parse_impl K pub else if k = TMod then parse_mod K pub
         else if k = TStatic then parse_static K pub else if k = TConst then parse_const K pub
         else if k = TUse then parse_use K pub else after (expected ''item'') (\<lambda>_. ret None)))
       (parses (g_item c))"
    if "\<And>us it. g_bare c pub us it \<Longrightarrow> g_item c (ts @ us) it" for mk ts P pub
    by (intro step_peek_kind facing_if tails facing_step [OF step_expected] step_null)
      (use that in auto)
  show ?thesis
    unfolding parse_item_def
    by (intro does_step step_match body) (auto intro: item_private item_pub)
qed

end

subsection \<open>Tying the knot\<close>

lemma calls_of_Suc:
  "call_type (calls_of (Suc n)) = parse_type (calls_of n)"
  "call_pattern (calls_of (Suc n)) = parse_pattern (calls_of n)"
  "call_primary_pattern (calls_of (Suc n)) = parse_primary_pattern (calls_of n)"
  "call_expr (calls_of (Suc n)) = parse_expr (calls_of n)"
  "call_pow (calls_of (Suc n)) = parse_pow (calls_of n)"
  "call_unary (calls_of (Suc n)) = parse_unary (calls_of n)"
  "call_stmt (calls_of (Suc n)) = parse_stmt (calls_of n)"
  "call_item (calls_of (Suc n)) = parse_item (calls_of n)"
  by (rule ext, simp add: calls_of_def)+

text \<open>There is no ready state without a token left, so the contract holds at once for one token.\<close>

lemma does_none: "does 0 c p H"
  by (auto simp: does_def dest: rest_ne)

lemma recursive_calls_of: "recursive_calls (Suc n) (calls_of n)"
proof (induction n)
  case 0
  show ?case by unfold_locales (simp_all add: does_none)
next
  case (Suc n)
  show ?case
    by unfold_locales
      (simp_all add: calls_of_Suc recursive_calls.parse_type [OF Suc] recursive_calls.pattern [OF Suc]
        recursive_calls.primary_pattern [OF Suc] recursive_calls.expr [OF Suc]
        recursive_calls.pow [OF Suc] recursive_calls.unary [OF Suc] recursive_calls.stmt [OF Suc]
        recursive_calls.item [OF Suc])
qed

interpretation knot: recursive_calls "Suc n" "calls_of n" for n
  by (rule recursive_calls_of)

subsection \<open>A whole file\<close>

lemma loop_leaves:
  assumes "\<And>x s y s'. body x s = Inr (Inr y, s') \<Longrightarrow> q s'"
    and "loop k body x s = Inr (y, s')"
  shows "q s'"
  using assms(2)
proof (induction k arbitrary: x s)
  case (Suc k)
  then show ?case using assms(1) by (auto split: sum.splits)
qed simp

lemma item_list_leaves: "repeat (item_list_step q element) xs s = Inr (ys, s') \<Longrightarrow> q s'"
  unfolding repeat_def
proof (rule loop_leaves [where q = q])
  fix x s y s'
  assume "item_list_step q element x s = Inr (Inr y, s')"
  then show "q s'"
    by (auto simp: item_list_step_def if_p_def ret_def after_def split: if_splits sum.splits option.splits)
qed

lemma does_parse_items: "does n c (parse_items n) (\<lambda>cl ts its. cl \<longrightarrow> rows (g_item c) ts its)"
  unfolding parse_items_def
  by (rule does_step, rule step_promise [OF step_item_list [OF knot.item]]) auto

lemma new_parser_ready:
  fixes bytes :: string and fid :: file_id and bag :: diag_bag
  assumes "tokens \<noteq> []" "tok_kind (last tokens) = TEof"
  defines "s \<equiv> new_parser tokens bytes fid bag"
  shows "ready s" "ps_tokens s = tokens" "rest s = filter significant tokens"
    "ctx_of s = \<lparr>cx_bytes = bytes, cx_file = fid, cx_struct_lit = True\<rparr>"
    "\<exists>new. entries (ps_bag s) = entries bag @ new \<and> list_all parser_error new" "ps_banked s = 0"
proof -
  let ?s = "\<lparr>ps_tokens = tokens, ps_bytes = bytes, ps_file = fid, ps_pos = 0,
      ps_previous = \<lparr>span_file = fid, span_offset = 0, span_length = 0\<rparr>,
      ps_banked = 0, ps_struct_lit = True, ps_bag = bag\<rparr>"
  have "ready s \<and> ps_tokens s = ps_tokens ?s \<and> ctx_of s = ctx_of ?s \<and> rest s = rest ?s \<and>
      grew ?s s \<and> ps_banked s = ps_banked ?s"
    unfolding s_def new_parser_def
    by (rule skip_insignificant_run [of ?s, THEN conjE]) (use assms(1,2) in simp_all)
  moreover have "rest ?s = filter significant tokens" by (simp add: rest_def)
  ultimately show "ready s" "ps_tokens s = tokens" "rest s = filter significant tokens"
    "ctx_of s = \<lparr>cx_bytes = bytes, cx_file = fid, cx_struct_lit = True\<rparr>"
    "\<exists>new. entries (ps_bag s) = entries bag @ new \<and> list_all parser_error new" "ps_banked s = 0"
    by (simp_all add: ctx_of_def grew_def)
qed

text \<open>
  A run of the parser on a token row that ends with its only end marker: it returns, at that
  marker, the bag extended by parser errors only; without a new error and without a closing
  \<open>>>\<close> the items spell the significant tokens.
\<close>

lemma parse_run:
  assumes "tokens \<noteq> []" "tok_kind (last tokens) = TEof"
  obtains items s us new where "parse tokens bytes fid bag = Inr (items, s)" "ready s" "at_end s"
    "ps_tokens s = tokens" "filter significant tokens = us @ rest s"
    "entries (ps_bag s) = entries bag @ new" "list_all parser_error new"
    "new = [] \<Longrightarrow> TGreaterGreater \<notin> tok_kind ` set tokens \<Longrightarrow>
      rows (g_item \<lparr>cx_bytes = bytes, cx_file = fid, cx_struct_lit = True\<rparr>) us items"
proof -
  let ?s = "new_parser tokens bytes fid bag"
  let ?c = "\<lparr>cx_bytes = bytes, cx_file = fid, cx_struct_lit = True\<rparr>"
  note n = new_parser_ready [OF assms, of bytes fid bag]
  obtain old where old: "entries (ps_bag ?s) = entries bag @ old" "list_all parser_error old"
    using n(5) by blast
  have "wp (parse_items (length tokens)) (keeps ?s (\<lambda>cl ts its. cl \<longrightarrow> rows (g_item ?c) ts its)) ?s"
    using does_parse_items [of "length tokens" ?c] n by (simp add: does_def)
  then obtain items s where run: "parse tokens bytes fid bag = Inr (items, s)"
    and k: "keeps ?s (\<lambda>cl ts its. cl \<longrightarrow> rows (g_item ?c) ts its) items s"
    by (auto simp: wp_iff parse_def)
  then obtain us b where e: "eats ?s us s" "clean ?s s \<longrightarrow> b" "b \<longrightarrow> rows (g_item ?c) us items"
    by (auto simp: keeps_def)
  then obtain new where new: "entries (ps_bag s) = entries (ps_bag ?s) @ new" "list_all parser_error new"
    by (auto simp: eats_def grew_def)
  show thesis
  proof (rule that [OF run])
    show "ready s" "ps_tokens s = tokens" "filter significant tokens = us @ rest s"
      using e(1) n by (simp_all add: eats_def)
    show "at_end s"
      using run unfolding parse_def parse_items_def by (rule item_list_leaves)
    show "entries (ps_bag s) = entries bag @ (old @ new)" "list_all parser_error (old @ new)"
      using old new by simp_all
    assume "old @ new = []" "TGreaterGreater \<notin> tok_kind ` set tokens"
    then have "clean ?s s" using n new by (simp add: clean_def plain_def)
    with e show "rows (g_item ?c) us items" by simp
  qed
qed



end
