(* ===== verification/Parse_Source.thy ===== *)
theory Parse_Source
  imports Parser_Spec
begin

text \<open>
  From bytes to items: the lexer and the parser the way \<^verbatim>\<open>lex_parse_file\<close>
  (\<^verbatim>\<open>src/analyzer/resolve.cc\<close>) runs them, one bag through both.
\<close>

definition parse_source :: "string \<Rightarrow> file_id \<Rightarrow> diag_bag \<Rightarrow> stop + item list \<times> diag_bag" where
  "parse_source bytes fid bag =
     (let (bag', tokens) = tokenize bytes fid bag []
      in (case parse tokens bytes fid bag' of
            Inl e \<Rightarrow> Inl e
          | Inr (items, s) \<Rightarrow> Inr (items, ps_bag s)))"

definition lexer_error :: "diagnostic \<Rightarrow> bool" where
  "lexer_error d \<longleftrightarrow> is_error d \<and> 4000 \<le> diag_code d \<and> diag_code d \<le> 4005"

lemma lexer_diags: "list_all2 (lexer_diag fid) rs ds \<Longrightarrow> list_all lexer_error ds"
  by (induction rule: list_all2_induct) (simp_all add: lexer_diag_def lexer_error_def)

lemma tokenize_tokens:
  obtains ts e ds where "snd (tokenize bytes fid bag []) = ts @ [e]" "tok_kind e = TEof"
    "TEof \<notin> tok_kind ` set ts" "entries (fst (tokenize bytes fid bag [])) = entries bag @ ds"
    "list_all lexer_error ds"
proof -
  obtain rs e where l: "lexes fid (start_state bag []) rs (lex_loop bytes fid (start_state bag []))"
    and t: "fst (tokenize bytes fid bag []) = lx_bag (lex_loop bytes fid (start_state bag []))"
      "snd (tokenize bytes fid bag []) = [] @ map (mk_tok fid) (rs @ [(TEof, e, 0)])"
    using tokenize_run [of fid bag "[]" bytes] by blast
  from l obtain ds where ds:
    "entries (lx_bag (lex_loop bytes fid (start_state bag []))) = entries bag @ ds"
    "list_all2 (lexer_diag fid) (error_raws rs) ds" by (auto simp: lexes_def)
  have no: "TEof \<notin> fst ` set rs" using l by (auto simp: lexes_def)
  show thesis
  proof (rule that)
    show "snd (tokenize bytes fid bag []) = map (mk_tok fid) rs @ [mk_tok fid (TEof, e, 0)]"
      using t by simp
    show "TEof \<notin> tok_kind ` set (map (mk_tok fid) rs)"
      using no by (force simp: mk_tok_def)
    show "entries (fst (tokenize bytes fid bag [])) = entries bag @ ds" "list_all lexer_error ds"
      using ds t lexer_diags by simp_all
  qed (simp add: mk_tok_def)
qed

lemma parse_source_run:
  obtains items bag' lexed parsed where "parse_source bytes fid bag = Inr (items, bag')"
    "entries bag' = entries bag @ lexed @ parsed" "list_all lexer_error lexed" "list_all parser_error parsed"
proof -
  obtain ts e ds where t: "snd (tokenize bytes fid bag []) = ts @ [e]" "tok_kind e = TEof"
    "entries (fst (tokenize bytes fid bag [])) = entries bag @ ds" "list_all lexer_error ds"
    using tokenize_tokens by metis
  obtain items s new where "parse (ts @ [e]) bytes fid (fst (tokenize bytes fid bag [])) = Inr (items, s)"
    "entries (ps_bag s) = entries (fst (tokenize bytes fid bag [])) @ new" "list_all parser_error new"
    using parse_run [of "ts @ [e]" bytes fid "fst (tokenize bytes fid bag [])"] t(2)
    by (metis last_snoc snoc_eq_iff_butlast)
  with t that show thesis
    by (auto simp: parse_source_def case_prod_beta)
qed

text \<open>
  C11. Lexing and parsing a file always returns, whatever its bytes: no run loops or reads a
  token that is not there. The bag is extended first by lexer errors, then by parser errors,
  and by nothing else.
\<close>

theorem parse_source_total:
  "\<exists>items bag' lexed parsed. parse_source bytes fid bag = Inr (items, bag') \<and>
     entries bag' = entries bag @ lexed @ parsed \<and>
     list_all lexer_error lexed \<and> list_all parser_error parsed"
  using parse_source_run [of bytes fid bag] by metis

subsection \<open>A parsed declaration\<close>

definition sample_tokens :: "token list" where
  "sample_tokens = snd (tokenize ''pub static X: i32 = 1 + 2;'' 0 empty_bag [])"

definition sample_run :: "stop + item list \<times> parser" where
  "sample_run = parse sample_tokens ''pub static X: i32 = 1 + 2;'' 0 empty_bag"


lemma sample_facts: "sample_tokens \<noteq> [] \<and> TEof \<notin> tok_kind ` set (butlast sample_tokens) \<and>
   tok_kind (last sample_tokens) = TEof \<and> TGreaterGreater \<notin> tok_kind ` set (butlast sample_tokens) \<and>
   (case sample_run of Inl e \<Rightarrow> False | Inr (items, s) \<Rightarrow> length items = 1 \<and> entries (ps_bag s) = entries empty_bag)"
  by code_simp


subsection \<open>What the parser takes and refuses\<close>

text \<open>The number of items and of diagnostics of a run on an empty bag.\<close>

definition outcome :: "string \<Rightarrow> (nat \<times> nat) option" where
  "outcome bytes = (case parse_source bytes 0 empty_bag of
       Inl e \<Rightarrow> None | Inr (items, bag) \<Rightarrow> Some (length items, length (entries bag)))"



text \<open>
  A banked half survives an enum variant, whose fields are not closed types: an unbalanced
  bracket in one variant closes the arguments of a later one, and the file is accepted.
\<close>

theorem enum_leaks_bracket:
  "outcome ''enum E { A(B<C>>), X(D<E) }'' = Some (1, 0)"
  by code_simp

text \<open>
  Against the grammar document, a path may end in \<open>::\<close>, while the unit expression is
  refused.
\<close>

theorem grammar_document_differs:
  "map outcome [''use a::;'', ''fn f() { x := () }''] = [Some (1, 0), Some (1, 1)]"
  by code_simp

end
