(* ===== verification/Desugar.thy ===== *)
theory Desugar
  imports Ast
begin

text \<open>
  The renaming of shadowed bindings (\<^verbatim>\<open>src/parser/desugar.cc\<close>). The pass changes the tree in
  place; here every visit returns the changed node. The state is the struct \<open>Desugar\<close>: the
  counter, the bag and the stack of scopes, whose innermost scope is the head of the list; a
  scope keeps its bindings in the order they were pushed.
\<close>

subsection \<open>State and sequencing\<close>

record binding =
  bn_orig :: string
  bn_fresh :: string
  bn_preseeded :: bool
  bn_seen :: bool

record renamer =
  rn_counter :: u32
  rn_scopes :: "binding list list"
  rn_bag :: diag_bag

type_synonym 'a ren = "renamer \<Rightarrow> 'a \<times> renamer"

definition yield :: "'a \<Rightarrow> 'a ren" where
  "yield x s = (x, s)"

definition andthen :: "'a ren \<Rightarrow> ('a \<Rightarrow> 'b ren) \<Rightarrow> 'b ren" where
  "andthen m f s = (case m s of (x, s') \<Rightarrow> f x s')"

fun each :: "('a \<Rightarrow> 'b ren) \<Rightarrow> 'a list \<Rightarrow> 'b list ren" where
  "each f [] = yield []"
| "each f (x # xs) = andthen (f x) (\<lambda>y. andthen (each f xs) (\<lambda>ys. yield (y # ys)))"

fun maybe :: "('a \<Rightarrow> 'b ren) \<Rightarrow> 'a option \<Rightarrow> 'b option ren" where
  "maybe f None = yield None"
| "maybe f (Some x) = andthen (f x) (\<lambda>y. yield (Some y))"

lemma each_cong [fundef_cong]:
  "xs = ys \<Longrightarrow> (\<And>x. x \<in> set ys \<Longrightarrow> f x = g x) \<Longrightarrow> each f xs = each g ys"
  by (induction xs arbitrary: ys) auto

lemma maybe_cong [fundef_cong]:
  "x = y \<Longrightarrow> (\<And>z. z \<in> set_option y \<Longrightarrow> f z = g z) \<Longrightarrow> maybe f x = maybe g y"
  by (cases y) auto

subsection \<open>Scopes and names\<close>

definition kParserOrPatternMismatch :: u32 where "kParserOrPatternMismatch = 4102"
definition kParserAlreadyBound :: u32 where "kParserAlreadyBound = 4103"

definition is_keyword_name :: "string \<Rightarrow> bool" where
  "is_keyword_name name \<longleftrightarrow>
     name = ''self'' \<or> name = ''super'' \<or> name = ''package'' \<or> name = ''Self''"

definition emit_renamer :: "u32 \<Rightarrow> span \<Rightarrow> string \<Rightarrow> unit ren" where
  "emit_renamer code sp message s =
     ((), s\<lparr>rn_bag := emit_at SevError code sp message (rn_bag s)\<rparr>)"

definition push_scope :: "unit ren" where
  "push_scope s = ((), s\<lparr>rn_scopes := [] # rn_scopes s\<rparr>)"

definition pop_scope :: "unit ren" where
  "pop_scope s = ((), s\<lparr>rn_scopes := tl (rn_scopes s)\<rparr>)"

definition push_binding :: "binding \<Rightarrow> unit ren" where
  "push_binding b s = ((), s\<lparr>rn_scopes := (hd (rn_scopes s) @ [b]) # tl (rn_scopes s)\<rparr>)"

definition find_innermost :: "string \<Rightarrow> renamer \<Rightarrow> binding option" where
  "find_innermost name s = find (\<lambda>b. bn_orig b = name) (hd (rn_scopes s))"

fun lookup_scopes :: "string \<Rightarrow> binding list list \<Rightarrow> string" where
  "lookup_scopes name [] = name"
| "lookup_scopes name (sc # scs) =
     (case find (\<lambda>b. bn_orig b = name) sc of
        Some b \<Rightarrow> bn_fresh b | None \<Rightarrow> lookup_scopes name scs)"

definition lookup :: "string \<Rightarrow> renamer \<Rightarrow> string" where
  "lookup name s = (if is_keyword_name name then name else lookup_scopes name (rn_scopes s))"

definition fresh_name :: "string \<Rightarrow> string ren" where
  "fresh_name orig s = (orig @ ''$'' @ dec32 (rn_counter s), s\<lparr>rn_counter := rn_counter s + 1\<rparr>)"

text \<open>\<^verbatim>\<open>existing->seen = true\<close> on the binding that \<open>find_innermost\<close> returned.\<close>

fun mark_seen :: "string \<Rightarrow> binding list \<Rightarrow> binding list" where
  "mark_seen name [] = []"
| "mark_seen name (b # bs) =
     (if bn_orig b = name then b\<lparr>bn_seen := True\<rparr> # bs else b # mark_seen name bs)"

definition already_bound :: "span \<Rightarrow> string \<Rightarrow> unit ren" where
  "already_bound sp name =
     emit_renamer kParserAlreadyBound sp (''`'' @ name @ ''` is already bound in this scope'')"

definition is_shadowing :: "string \<Rightarrow> renamer \<Rightarrow> bool" where
  "is_shadowing name s \<longleftrightarrow> (\<exists>sc \<in> set (tl (rn_scopes s)). \<exists>b \<in> set sc. bn_orig b = name)"

definition plain_binding :: "string \<Rightarrow> string \<Rightarrow> binding" where
  "plain_binding orig fresh = \<lparr>bn_orig = orig, bn_fresh = fresh, bn_preseeded = False, bn_seen = False\<rparr>"

definition declare_named :: "ident \<Rightarrow> string ren" where
  "declare_named ident s =
     (let name = id_name ident
      in if is_keyword_name name then (name, s)
         else case find_innermost name s of
           Some b \<Rightarrow>
             if bn_preseeded b then
               (bn_fresh b, s\<lparr>rn_scopes := mark_seen name (hd (rn_scopes s)) # tl (rn_scopes s)\<rparr>)
             else andthen (already_bound (id_span ident) name) (\<lambda>_. yield name) s
         | None \<Rightarrow>
             if \<not> is_shadowing name s then
               andthen (push_binding (plain_binding name name)) (\<lambda>_. yield name) s
             else andthen (fresh_name name) (\<lambda>fresh.
               andthen (push_binding (plain_binding name fresh)) (\<lambda>_. yield fresh)) s)"

definition declare_ident :: "ident \<Rightarrow> ident ren" where
  "declare_ident ident = andthen (declare_named ident) (\<lambda>name. yield (ident\<lparr>id_name := name\<rparr>))"

definition scoped :: "'a ren \<Rightarrow> 'a ren" where
  "scoped m = andthen push_scope (\<lambda>_. andthen m (\<lambda>x. andthen pop_scope (\<lambda>_. yield x)))"

subsection \<open>Patterns\<close>

text \<open>The first alternative of an or-pattern, with the bindings of its scope.\<close>

definition first_alternative :: "'a ren \<Rightarrow> ('a \<times> binding list) ren" where
  "first_alternative m = andthen push_scope (\<lambda>_. andthen m (\<lambda>x s.
     ((x, hd (rn_scopes s)), s\<lparr>rn_scopes := tl (rn_scopes s)\<rparr>)))"

definition preseed :: "binding \<Rightarrow> binding" where
  "preseed b = b\<lparr>bn_seen := False, bn_preseeded := True\<rparr>"

definition mismatched :: "binding list \<Rightarrow> binding list \<Rightarrow> bool" where
  "mismatched first bs \<longleftrightarrow> length bs \<noteq> length first \<or> (\<exists>b \<in> set bs. bn_preseeded b \<and> \<not> bn_seen b)"

definition other_alternative :: "span \<Rightarrow> binding list \<Rightarrow> 'a ren \<Rightarrow> 'a ren" where
  "other_alternative sp first m = andthen push_scope (\<lambda>_. andthen (each push_binding (map preseed first)) (\<lambda>_.
     andthen m (\<lambda>x. andthen (\<lambda>s.
       if mismatched first (hd (rn_scopes s)) then
         emit_renamer kParserOrPatternMismatch sp ''or-pattern alternatives must bind the same names'' s
       else ((), s)) (\<lambda>_.
     andthen pop_scope (\<lambda>_. yield x)))))"

definition merge_binding :: "span \<Rightarrow> binding \<Rightarrow> unit ren" where
  "merge_binding sp b s =
     (if \<exists>e \<in> set (hd (rn_scopes s)). bn_orig e = bn_orig b \<and> \<not> bn_preseeded e then
        already_bound sp (bn_orig b) s
      else push_binding b s)"

text \<open>
  The source reads \<^verbatim>\<open>alternatives[0]\<close>; the parser makes no or-pattern with fewer than two.
\<close>

fun visit_pattern :: "pattern \<Rightarrow> pattern ren"
  and visit_field_pattern :: "field_pattern \<Rightarrow> field_pattern ren" where
  "visit_pattern (WildcardPattern sp) = yield (WildcardPattern sp)"
| "visit_pattern (IdentPattern sp i) = andthen (declare_ident i) (\<lambda>i'. yield (IdentPattern sp i'))"
| "visit_pattern (MutIdentPattern sp i) = andthen (declare_ident i) (\<lambda>i'. yield (MutIdentPattern sp i'))"
| "visit_pattern (LiteralPattern sp l) = yield (LiteralPattern sp l)"
| "visit_pattern (TuplePattern sp path ps) =
     andthen (each visit_pattern ps) (\<lambda>ps'. yield (TuplePattern sp path ps'))"
| "visit_pattern (StructPattern sp path fs) =
     andthen (each visit_field_pattern fs) (\<lambda>fs'. yield (StructPattern sp path fs'))"
| "visit_pattern (RefPattern sp m p) = andthen (visit_pattern p) (\<lambda>p'. yield (RefPattern sp m p'))"
| "visit_pattern (OrPattern sp []) = yield (OrPattern sp [])"
| "visit_pattern (OrPattern sp (p # ps)) =
     andthen (first_alternative (visit_pattern p)) (\<lambda>(p', first).
     andthen (each (\<lambda>q. other_alternative sp first (visit_pattern q)) ps) (\<lambda>ps'.
     andthen (each (merge_binding sp) first) (\<lambda>_. yield (OrPattern sp (p' # ps')))))"
| "visit_field_pattern (FieldPattern i p) = andthen (visit_pattern p) (\<lambda>p'. yield (FieldPattern i p'))"

subsection \<open>Expressions, statements and blocks\<close>

definition rename_path :: "ast_path \<Rightarrow> ast_path ren" where
  "rename_path path s =
     (case path_segments path of
        [seg] \<Rightarrow> (path\<lparr>path_segments := [seg\<lparr>id_name := lookup (id_name seg) s\<rparr>]\<rparr>, s)
      | _ \<Rightarrow> (path, s))"

fun visit_expr :: "expr \<Rightarrow> expr ren"
  and visit_init :: "field_init \<Rightarrow> field_init ren"
  and visit_arm :: "match_arm \<Rightarrow> match_arm ren"
  and visit_cond :: "cond \<Rightarrow> (cond \<times> bool) ren"
  and visit_block :: "block \<Rightarrow> block ren"
  and visit_stmt :: "stmt \<Rightarrow> stmt ren" where
  "visit_expr (LiteralExpr sp l) = yield (LiteralExpr sp l)"
| "visit_expr (PathExpr sp path) = andthen (rename_path path) (\<lambda>path'. yield (PathExpr sp path'))"
| "visit_expr (StructExpr sp path fs base) = andthen (each visit_init fs) (\<lambda>fs'.
     andthen (maybe visit_expr base) (\<lambda>base'. yield (StructExpr sp path fs' base')))"
| "visit_expr (TupleExpr sp es) = andthen (each visit_expr es) (\<lambda>es'. yield (TupleExpr sp es'))"
| "visit_expr (UnaryExpr sp u e) = andthen (visit_expr e) (\<lambda>e'. yield (UnaryExpr sp u e'))"
| "visit_expr (BorrowExpr sp m e) = andthen (visit_expr e) (\<lambda>e'. yield (BorrowExpr sp m e'))"
| "visit_expr (BinaryExpr sp b l r) = andthen (visit_expr l) (\<lambda>l'.
     andthen (visit_expr r) (\<lambda>r'. yield (BinaryExpr sp b l' r')))"
| "visit_expr (CastExpr sp e ty) = andthen (visit_expr e) (\<lambda>e'. yield (CastExpr sp e' ty))"
| "visit_expr (CallExpr sp callee args) = andthen (visit_expr callee) (\<lambda>callee'.
     andthen (each visit_expr args) (\<lambda>args'. yield (CallExpr sp callee' args')))"
| "visit_expr (MethodCallExpr sp e name args) = andthen (visit_expr e) (\<lambda>e'.
     andthen (each visit_expr args) (\<lambda>args'. yield (MethodCallExpr sp e' name args')))"
| "visit_expr (FieldExpr sp e name) = andthen (visit_expr e) (\<lambda>e'. yield (FieldExpr sp e' name))"
| "visit_expr (IndexExpr sp e i) = andthen (visit_expr e) (\<lambda>e'.
     andthen (visit_expr i) (\<lambda>i'. yield (IndexExpr sp e' i')))"
| "visit_expr (QuestionExpr sp e) = andthen (visit_expr e) (\<lambda>e'. yield (QuestionExpr sp e'))"
| "visit_expr (IfExpr sp c b eb) = andthen (visit_cond c) (\<lambda>(c', pushed).
     andthen (visit_block b) (\<lambda>b'. andthen (if pushed then pop_scope else yield ()) (\<lambda>_.
     andthen (maybe visit_block eb) (\<lambda>eb'. yield (IfExpr sp c' b' eb')))))"
| "visit_expr (MatchExpr sp e arms) = andthen (visit_expr e) (\<lambda>e'.
     andthen (each visit_arm arms) (\<lambda>arms'. yield (MatchExpr sp e' arms')))"
| "visit_expr (LoopExpr sp b) = andthen (visit_block b) (\<lambda>b'. yield (LoopExpr sp b'))"
| "visit_expr (WhileExpr sp c b) = andthen (visit_cond c) (\<lambda>(c', pushed).
     andthen (visit_block b) (\<lambda>b'. andthen (if pushed then pop_scope else yield ()) (\<lambda>_.
     yield (WhileExpr sp c' b'))))"
| "visit_expr (BlockExpr sp b) = andthen (visit_block b) (\<lambda>b'. yield (BlockExpr sp b'))"
| "visit_expr (ReturnExpr sp e) = andthen (maybe visit_expr e) (\<lambda>e'. yield (ReturnExpr sp e'))"
| "visit_expr (RangeExpr sp l r incl) = andthen (maybe visit_expr l) (\<lambda>l'.
     andthen (maybe visit_expr r) (\<lambda>r'. yield (RangeExpr sp l' r' incl)))"
| "visit_expr (BreakExpr sp) = yield (BreakExpr sp)"
| "visit_expr (ContinueExpr sp) = yield (ContinueExpr sp)"
| "visit_init (FieldInit i e) = andthen (visit_expr e) (\<lambda>e'. yield (FieldInit i e'))"
| "visit_arm (MatchArm p e) = scoped (andthen (visit_pattern p) (\<lambda>p'.
     andthen (visit_expr e) (\<lambda>e'. yield (MatchArm p' e'))))"
| "visit_cond (ValueCond e) = andthen (visit_expr e) (\<lambda>e'. yield (ValueCond e', False))"
| "visit_cond (PatternCond p e) = andthen (visit_expr e) (\<lambda>e'. andthen push_scope (\<lambda>_.
     andthen (visit_pattern p) (\<lambda>p'. yield (PatternCond p' e', True))))"
| "visit_block (Block sp ss value) = scoped (andthen (each visit_stmt ss) (\<lambda>ss'.
     andthen (maybe visit_expr value) (\<lambda>value'. yield (Block sp ss' value'))))"
| "visit_stmt (DeclStmt sp p ty e) = andthen (visit_expr e) (\<lambda>e'.
     andthen (visit_pattern p) (\<lambda>p'. yield (DeclStmt sp p' ty e')))"
| "visit_stmt (ReassignStmt sp place compound b e) = andthen (visit_expr place) (\<lambda>place'.
     andthen (visit_expr e) (\<lambda>e'. yield (ReassignStmt sp place' compound b e')))"
| "visit_stmt (ExprStmt sp e) = andthen (visit_expr e) (\<lambda>e'. yield (ExprStmt sp e'))"

subsection \<open>Items\<close>

definition visit_param :: "fn_param \<Rightarrow> fn_param ren" where
  "visit_param param = andthen (visit_pattern (param_pattern param)) (\<lambda>p'.
     yield (param\<lparr>param_pattern := p'\<rparr>))"

definition visit_fn :: "fn_item \<Rightarrow> fn_item ren" where
  "visit_fn f = scoped (andthen (each visit_param (fn_params f)) (\<lambda>params'.
     andthen (visit_block (fn_body f)) (\<lambda>body'.
     yield (f\<lparr>fn_params := params', fn_body := body'\<rparr>))))"

fun visit_item :: "item \<Rightarrow> item ren" where
  "visit_item (FnItem f) = andthen (visit_fn f) (\<lambda>f'. yield (FnItem f'))"
| "visit_item (StaticItem sp pub name ty e) = andthen (scoped (visit_expr e)) (\<lambda>e'.
     yield (StaticItem sp pub name ty e'))"
| "visit_item (ConstItem sp pub name ty e) = andthen (scoped (visit_expr e)) (\<lambda>e'.
     yield (ConstItem sp pub name ty e'))"
| "visit_item (ImplItem sp pub ty fns) = andthen (each visit_fn fns) (\<lambda>fns'.
     yield (ImplItem sp pub ty fns'))"
| "visit_item (ModItem sp pub name its inline) = andthen (each visit_item its) (\<lambda>its'.
     yield (ModItem sp pub name its' inline))"
| "visit_item (StructItem sp pub name fs) = yield (StructItem sp pub name fs)"
| "visit_item (EnumItem sp pub name vs) = yield (EnumItem sp pub name vs)"
| "visit_item (UseItem sp pub path has_alias alias) = yield (UseItem sp pub path has_alias alias)"

definition new_renamer :: "diag_bag \<Rightarrow> renamer" where
  "new_renamer bag = \<lparr>rn_counter = 0, rn_scopes = [], rn_bag = bag\<rparr>"

definition desugar_shadowing :: "item list \<Rightarrow> diag_bag \<Rightarrow> item list \<times> diag_bag" where
  "desugar_shadowing items bag =
     (case scoped (each visit_item items) (new_renamer bag) of (items', s) \<Rightarrow> (items', rn_bag s))"

end
