(* ===== verification/Desugar_Spec.thy ===== *)
theory Desugar_Spec
  imports Desugar Manifest
begin

text \<open>
  What the renaming promises: the output is the input up to the names of its local bindings;
  every use names the binding that lexical scoping gives it, no binding takes a name that is
  visible where it stands, and no free name is captured. The relation \<open>alpha_expr\<close> says so
  for two trees under a stack of scopes, each a list of original and new names.
\<close>

subsection \<open>Alpha equivalence\<close>

type_synonym scope = "(string \<times> string) list"

fun resolve_name :: "scope list \<Rightarrow> string \<Rightarrow> string option" where
  "resolve_name [] x = None"
| "resolve_name (sc # scs) x = (case map_of sc x of Some y \<Rightarrow> Some y | None \<Rightarrow> resolve_name scs x)"

text \<open>A use \<open>y\<close> stands for \<open>x\<close>: it is the innermost binding's new name; a free name stays.\<close>

definition stands_for :: "scope list \<Rightarrow> string \<Rightarrow> string \<Rightarrow> bool" where
  "stands_for env x y \<longleftrightarrow>
     (if is_keyword_name x then y = x
      else case resolve_name env x of
          Some z \<Rightarrow> y = z
        | None \<Rightarrow> y = x \<and> x \<notin> snd ` set (concat env))"

text \<open>Bindings that may enter the innermost scope: new there, with new names not visible yet.\<close>

definition fits :: "scope list \<Rightarrow> scope \<Rightarrow> bool" where
  "fits env d \<longleftrightarrow> distinct (map fst d) \<and> distinct (map snd d) \<and>
     fst ` set d \<inter> fst ` set (hd env) = {} \<and> snd ` set d \<inter> snd ` set (concat env) = {}"

definition extended :: "scope list \<Rightarrow> scope \<Rightarrow> scope list" where
  "extended env d = (hd env @ d) # tl env"

definition renamed :: "ident \<Rightarrow> string \<Rightarrow> ident" where
  "renamed i y = i\<lparr>id_name := y\<rparr>"

text \<open>Two patterns that differ in the names they bind, and the names bound, in order.\<close>

inductive alpha_pattern :: "pattern \<Rightarrow> pattern \<Rightarrow> scope \<Rightarrow> bool"
  and alpha_patterns :: "pattern list \<Rightarrow> pattern list \<Rightarrow> scope \<Rightarrow> bool"
  and alpha_fields :: "field_pattern list \<Rightarrow> field_pattern list \<Rightarrow> scope \<Rightarrow> bool" where
  alpha_wildcard: "alpha_pattern (WildcardPattern sp) (WildcardPattern sp) []"
| alpha_literal: "alpha_pattern (LiteralPattern sp l) (LiteralPattern sp l) []"
| alpha_ident: "\<not> is_keyword_name (id_name i) \<Longrightarrow>
    alpha_pattern (IdentPattern sp i) (IdentPattern sp (renamed i y)) [(id_name i, y)]"
| alpha_ident_keyword: "is_keyword_name (id_name i) \<Longrightarrow>
    alpha_pattern (IdentPattern sp i) (IdentPattern sp i) []"
| alpha_mut: "\<not> is_keyword_name (id_name i) \<Longrightarrow>
    alpha_pattern (MutIdentPattern sp i) (MutIdentPattern sp (renamed i y)) [(id_name i, y)]"
| alpha_mut_keyword: "is_keyword_name (id_name i) \<Longrightarrow>
    alpha_pattern (MutIdentPattern sp i) (MutIdentPattern sp i) []"
| alpha_tuple: "alpha_patterns ps ps' d \<Longrightarrow> alpha_pattern (TuplePattern sp path ps) (TuplePattern sp path ps') d"
| alpha_struct: "alpha_fields fs fs' d \<Longrightarrow> alpha_pattern (StructPattern sp path fs) (StructPattern sp path fs') d"
| alpha_ref: "alpha_pattern p p' d \<Longrightarrow> alpha_pattern (RefPattern sp m p) (RefPattern sp m p') d"
| alpha_or_none: "alpha_pattern (OrPattern sp []) (OrPattern sp []) []"
| alpha_or: "alpha_pattern p p' d \<Longrightarrow>
    list_all2 (\<lambda>q q'. \<exists>d'. alpha_pattern q q' d' \<and> set d' = set d) ps ps' \<Longrightarrow>
    alpha_pattern (OrPattern sp (p # ps)) (OrPattern sp (p' # ps')) d"
| alpha_patterns_none: "alpha_patterns [] [] []"
| alpha_patterns_more: "alpha_pattern p p' d \<Longrightarrow> alpha_patterns ps ps' d' \<Longrightarrow>
    alpha_patterns (p # ps) (p' # ps') (d @ d')"
| alpha_fields_none: "alpha_fields [] [] []"
| alpha_fields_more: "alpha_pattern p p' d \<Longrightarrow> alpha_fields fs fs' d' \<Longrightarrow>
    alpha_fields (FieldPattern i p # fs) (FieldPattern i p' # fs') (d @ d')"

fun alpha_path :: "scope list \<Rightarrow> ast_path \<Rightarrow> ast_path \<Rightarrow> bool" where
  "alpha_path env p p' \<longleftrightarrow>
     (case path_segments p of
        [seg] \<Rightarrow> (\<exists>y. stands_for env (id_name seg) y \<and> p' = p\<lparr>path_segments := [renamed seg y]\<rparr>)
      | _ \<Rightarrow> p' = p)"

inductive alpha_expr :: "scope list \<Rightarrow> expr \<Rightarrow> expr \<Rightarrow> bool"
  and alpha_init :: "scope list \<Rightarrow> field_init \<Rightarrow> field_init \<Rightarrow> bool"
  and alpha_arm :: "scope list \<Rightarrow> match_arm \<Rightarrow> match_arm \<Rightarrow> bool"
  and alpha_cond :: "scope list \<Rightarrow> cond \<Rightarrow> cond \<Rightarrow> scope list \<Rightarrow> bool"
  and alpha_block :: "scope list \<Rightarrow> block \<Rightarrow> block \<Rightarrow> bool"
  and alpha_stmt :: "scope list \<Rightarrow> stmt \<Rightarrow> stmt \<Rightarrow> scope list \<Rightarrow> bool"
  and alpha_stmts :: "scope list \<Rightarrow> stmt list \<Rightarrow> stmt list \<Rightarrow> scope list \<Rightarrow> bool" where
  alpha_literal_expr: "alpha_expr env (LiteralExpr sp l) (LiteralExpr sp l)"
| alpha_path_expr: "alpha_path env p p' \<Longrightarrow> alpha_expr env (PathExpr sp p) (PathExpr sp p')"
| alpha_struct_expr: "list_all2 (alpha_init env) fs fs' \<Longrightarrow> rel_option (alpha_expr env) b b' \<Longrightarrow>
    alpha_expr env (StructExpr sp p fs b) (StructExpr sp p fs' b')"
| alpha_tuple_expr: "list_all2 (alpha_expr env) es es' \<Longrightarrow> alpha_expr env (TupleExpr sp es) (TupleExpr sp es')"
| alpha_unary: "alpha_expr env e e' \<Longrightarrow> alpha_expr env (UnaryExpr sp u e) (UnaryExpr sp u e')"
| alpha_borrow: "alpha_expr env e e' \<Longrightarrow> alpha_expr env (BorrowExpr sp m e) (BorrowExpr sp m e')"
| alpha_binary: "alpha_expr env l l' \<Longrightarrow> alpha_expr env r r' \<Longrightarrow>
    alpha_expr env (BinaryExpr sp b l r) (BinaryExpr sp b l' r')"
| alpha_cast: "alpha_expr env e e' \<Longrightarrow> alpha_expr env (CastExpr sp e ty) (CastExpr sp e' ty)"
| alpha_call: "alpha_expr env e e' \<Longrightarrow> list_all2 (alpha_expr env) es es' \<Longrightarrow>
    alpha_expr env (CallExpr sp e es) (CallExpr sp e' es')"
| alpha_method: "alpha_expr env e e' \<Longrightarrow> list_all2 (alpha_expr env) es es' \<Longrightarrow>
    alpha_expr env (MethodCallExpr sp e name es) (MethodCallExpr sp e' name es')"
| alpha_field: "alpha_expr env e e' \<Longrightarrow> alpha_expr env (FieldExpr sp e name) (FieldExpr sp e' name)"
| alpha_index: "alpha_expr env e e' \<Longrightarrow> alpha_expr env i i' \<Longrightarrow>
    alpha_expr env (IndexExpr sp e i) (IndexExpr sp e' i')"
| alpha_question: "alpha_expr env e e' \<Longrightarrow> alpha_expr env (QuestionExpr sp e) (QuestionExpr sp e')"
| alpha_if: "alpha_cond env c c' env' \<Longrightarrow> alpha_block env' b b' \<Longrightarrow> rel_option (alpha_block env) eb eb' \<Longrightarrow>
    alpha_expr env (IfExpr sp c b eb) (IfExpr sp c' b' eb')"
| alpha_match: "alpha_expr env e e' \<Longrightarrow> list_all2 (alpha_arm env) arms arms' \<Longrightarrow>
    alpha_expr env (MatchExpr sp e arms) (MatchExpr sp e' arms')"
| alpha_loop: "alpha_block env b b' \<Longrightarrow> alpha_expr env (LoopExpr sp b) (LoopExpr sp b')"
| alpha_while: "alpha_cond env c c' env' \<Longrightarrow> alpha_block env' b b' \<Longrightarrow>
    alpha_expr env (WhileExpr sp c b) (WhileExpr sp c' b')"
| alpha_block_expr: "alpha_block env b b' \<Longrightarrow> alpha_expr env (BlockExpr sp b) (BlockExpr sp b')"
| alpha_return: "rel_option (alpha_expr env) v v' \<Longrightarrow> alpha_expr env (ReturnExpr sp v) (ReturnExpr sp v')"
| alpha_range: "rel_option (alpha_expr env) l l' \<Longrightarrow> rel_option (alpha_expr env) r r' \<Longrightarrow>
    alpha_expr env (RangeExpr sp l r incl) (RangeExpr sp l' r' incl)"
| alpha_break: "alpha_expr env (BreakExpr sp) (BreakExpr sp)"
| alpha_continue: "alpha_expr env (ContinueExpr sp) (ContinueExpr sp)"
| alpha_init: "alpha_expr env e e' \<Longrightarrow> alpha_init env (FieldInit i e) (FieldInit i e')"
| alpha_arm: "alpha_pattern p p' d \<Longrightarrow> fits ([] # env) d \<Longrightarrow> alpha_expr (d # env) e e' \<Longrightarrow>
    alpha_arm env (MatchArm p e) (MatchArm p' e')"
| alpha_value_cond: "alpha_expr env e e' \<Longrightarrow> alpha_cond env (ValueCond e) (ValueCond e') env"
| alpha_pattern_cond: "alpha_expr env e e' \<Longrightarrow> alpha_pattern p p' d \<Longrightarrow> fits ([] # env) d \<Longrightarrow>
    alpha_cond env (PatternCond p e) (PatternCond p' e') (d # env)"
| alpha_block: "alpha_stmts ([] # env) ss ss' env' \<Longrightarrow> rel_option (alpha_expr env') v v' \<Longrightarrow>
    alpha_block env (Block sp ss v) (Block sp ss' v')"
| alpha_decl: "alpha_expr env e e' \<Longrightarrow> alpha_pattern p p' d \<Longrightarrow> fits env d \<Longrightarrow>
    alpha_stmt env (DeclStmt sp p ty e) (DeclStmt sp p' ty e') (extended env d)"
| alpha_reassign: "alpha_expr env x x' \<Longrightarrow> alpha_expr env e e' \<Longrightarrow>
    alpha_stmt env (ReassignStmt sp x c b e) (ReassignStmt sp x' c b e') env"
| alpha_expr_stmt: "alpha_expr env e e' \<Longrightarrow> alpha_stmt env (ExprStmt sp e) (ExprStmt sp e') env"
| alpha_stmts_none: "alpha_stmts env [] [] env"
| alpha_stmts_more: "alpha_stmt env st st' env' \<Longrightarrow> alpha_stmts env' ss ss' env'' \<Longrightarrow>
    alpha_stmts env (st # ss) (st' # ss') env''"

inductive alpha_params :: "scope list \<Rightarrow> fn_param list \<Rightarrow> fn_param list \<Rightarrow> scope list \<Rightarrow> bool" where
  alpha_params_none: "alpha_params env [] [] env"
| alpha_params_more: "alpha_pattern (param_pattern p) q d \<Longrightarrow> fits env d \<Longrightarrow>
    alpha_params (extended env d) ps ps' env' \<Longrightarrow>
    alpha_params env (p # ps) (p\<lparr>param_pattern := q\<rparr> # ps') env'"

inductive alpha_fn :: "scope list \<Rightarrow> fn_item \<Rightarrow> fn_item \<Rightarrow> bool" where
  alpha_fn: "alpha_params ([] # env) (fn_params f) ps env' \<Longrightarrow> alpha_block env' (fn_body f) b \<Longrightarrow>
    alpha_fn env f (f\<lparr>fn_params := ps, fn_body := b\<rparr>)"

inductive alpha_item :: "scope list \<Rightarrow> item \<Rightarrow> item \<Rightarrow> bool" where
  alpha_fn_item: "alpha_fn env f f' \<Longrightarrow> alpha_item env (FnItem f) (FnItem f')"
| alpha_static: "alpha_expr ([] # env) e e' \<Longrightarrow>
    alpha_item env (StaticItem sp pub name ty e) (StaticItem sp pub name ty e')"
| alpha_const: "alpha_expr ([] # env) e e' \<Longrightarrow>
    alpha_item env (ConstItem sp pub name ty e) (ConstItem sp pub name ty e')"
| alpha_impl: "list_all2 (alpha_fn env) fs fs' \<Longrightarrow>
    alpha_item env (ImplItem sp pub ty fs) (ImplItem sp pub ty fs')"
| alpha_mod: "list_all2 (alpha_item env) its its' \<Longrightarrow>
    alpha_item env (ModItem sp pub name its inline) (ModItem sp pub name its' inline)"
| alpha_struct_item: "alpha_item env (StructItem sp pub name fs) (StructItem sp pub name fs)"
| alpha_enum_item: "alpha_item env (EnumItem sp pub name vs) (EnumItem sp pub name vs)"
| alpha_use_item: "alpha_item env (UseItem sp pub path has_alias alias) (UseItem sp pub path has_alias alias)"

subsection \<open>Names of a tree\<close>

fun names_pattern :: "pattern \<Rightarrow> string list"
  and names_field :: "field_pattern \<Rightarrow> string list" where
  "names_pattern (IdentPattern sp i) = [id_name i]"
| "names_pattern (MutIdentPattern sp i) = [id_name i]"
| "names_pattern (TuplePattern sp path ps) = concat (map names_pattern ps)"
| "names_pattern (StructPattern sp path fs) = concat (map names_field fs)"
| "names_pattern (RefPattern sp m p) = names_pattern p"
| "names_pattern (OrPattern sp ps) = concat (map names_pattern ps)"
| "names_pattern (WildcardPattern sp) = []"
| "names_pattern (LiteralPattern sp l) = []"
| "names_field (FieldPattern i p) = names_pattern p"

fun names_option :: "('a \<Rightarrow> string list) \<Rightarrow> 'a option \<Rightarrow> string list" where
  "names_option f None = []"
| "names_option f (Some x) = f x"

lemma names_option_cong [fundef_cong]:
  "x = y \<Longrightarrow> (\<And>z. z \<in> set_option y \<Longrightarrow> f z = g z) \<Longrightarrow> names_option f x = names_option g y"
  by (cases y) auto

fun names_expr :: "expr \<Rightarrow> string list"
  and names_init :: "field_init \<Rightarrow> string list"
  and names_arm :: "match_arm \<Rightarrow> string list"
  and names_cond :: "cond \<Rightarrow> string list"
  and names_block :: "block \<Rightarrow> string list"
  and names_stmt :: "stmt \<Rightarrow> string list" where
  "names_expr (LiteralExpr sp l) = []"
| "names_expr (PathExpr sp p) = map id_name (path_segments p)"
| "names_expr (StructExpr sp p fs b) = concat (map names_init fs) @ names_option names_expr b"
| "names_expr (TupleExpr sp es) = concat (map names_expr es)"
| "names_expr (UnaryExpr sp u e) = names_expr e"
| "names_expr (BorrowExpr sp m e) = names_expr e"
| "names_expr (BinaryExpr sp b l r) = names_expr l @ names_expr r"
| "names_expr (CastExpr sp e ty) = names_expr e"
| "names_expr (CallExpr sp e es) = names_expr e @ concat (map names_expr es)"
| "names_expr (MethodCallExpr sp e name es) = names_expr e @ concat (map names_expr es)"
| "names_expr (FieldExpr sp e name) = names_expr e"
| "names_expr (IndexExpr sp e i) = names_expr e @ names_expr i"
| "names_expr (QuestionExpr sp e) = names_expr e"
| "names_expr (IfExpr sp c b eb) = names_cond c @ names_block b @ names_option names_block eb"
| "names_expr (MatchExpr sp e arms) = names_expr e @ concat (map names_arm arms)"
| "names_expr (LoopExpr sp b) = names_block b"
| "names_expr (WhileExpr sp c b) = names_cond c @ names_block b"
| "names_expr (BlockExpr sp b) = names_block b"
| "names_expr (ReturnExpr sp v) = names_option names_expr v"
| "names_expr (RangeExpr sp l r incl) = names_option names_expr l @ names_option names_expr r"
| "names_expr (BreakExpr sp) = []"
| "names_expr (ContinueExpr sp) = []"
| "names_init (FieldInit i e) = names_expr e"
| "names_arm (MatchArm p e) = names_pattern p @ names_expr e"
| "names_cond (ValueCond e) = names_expr e"
| "names_cond (PatternCond p e) = names_expr e @ names_pattern p"
| "names_block (Block sp ss v) = concat (map names_stmt ss) @ names_option names_expr v"
| "names_stmt (DeclStmt sp p ty e) = names_expr e @ names_pattern p"
| "names_stmt (ReassignStmt sp x c b e) = names_expr x @ names_expr e"
| "names_stmt (ExprStmt sp e) = names_expr e"

definition names_fn :: "fn_item \<Rightarrow> string list" where
  "names_fn f = concat (map (\<lambda>p. names_pattern (param_pattern p)) (fn_params f)) @ names_block (fn_body f)"

fun names_item :: "item \<Rightarrow> string list" where
  "names_item (FnItem f) = names_fn f"
| "names_item (StaticItem sp pub name ty e) = names_expr e"
| "names_item (ConstItem sp pub name ty e) = names_expr e"
| "names_item (ImplItem sp pub ty fs) = concat (map names_fn fs)"
| "names_item (ModItem sp pub name its inline) = concat (map names_item its)"
| "names_item it = []"

text \<open>No name of the source holds the character that separates a name from its number.\<close>

definition unmarked :: "string list \<Rightarrow> bool" where
  "unmarked xs \<longleftrightarrow> (\<forall>x \<in> set xs. CHR ''$'' \<notin> set x)"

lemma unmarked_simps [simp]:
  "unmarked []" "unmarked (x # xs) \<longleftrightarrow> CHR ''$'' \<notin> set x \<and> unmarked xs"
  "unmarked (xs @ ys) \<longleftrightarrow> unmarked xs \<and> unmarked ys"
  "unmarked (concat xss) \<longleftrightarrow> (\<forall>xs \<in> set xss. unmarked xs)"
  by (auto simp: unmarked_def)

subsection \<open>States\<close>

definition pair :: "binding \<Rightarrow> string \<times> string" where
  "pair b = (bn_orig b, bn_fresh b)"

definition env_of :: "renamer \<Rightarrow> scope list" where
  "env_of s = map (map pair) (rn_scopes s)"

definition good_binding :: "nat \<Rightarrow> binding \<Rightarrow> bool" where
  "good_binding k b \<longleftrightarrow> CHR ''$'' \<notin> set (bn_orig b) \<and>
     (bn_fresh b = bn_orig b \<or> (\<exists>j < k. bn_fresh b = bn_orig b @ ''$'' @ dec j))"

definition counter :: "renamer \<Rightarrow> nat" where
  "counter s = unat (rn_counter s)"

definition bindings :: "renamer \<Rightarrow> binding set" where
  "bindings s = set (concat (rn_scopes s))"

definition good :: "renamer \<Rightarrow> bool" where
  "good s \<longleftrightarrow> (\<forall>b \<in> bindings s. good_binding (counter s) b)"

definition able :: "nat \<Rightarrow> renamer \<Rightarrow> bool" where
  "able n s \<longleftrightarrow> good s \<and> counter s + n < 2 ^ 32"

definition louder :: "renamer \<Rightarrow> renamer \<Rightarrow> bool" where
  "louder s s' \<longleftrightarrow> (\<exists>new. entries (rn_bag s') = entries (rn_bag s) @ new)"

definition moved :: "nat \<Rightarrow> renamer \<Rightarrow> renamer \<Rightarrow> bool" where
  "moved n s s' \<longleftrightarrow> good s' \<and> louder s s' \<and>
     counter s \<le> counter s' \<and> counter s' \<le> counter s + n"

definition quiet :: "renamer \<Rightarrow> renamer \<Rightarrow> bool" where
  "quiet s s' \<longleftrightarrow> entries (rn_bag s') = entries (rn_bag s)"

definition settled :: "renamer \<Rightarrow> bool" where
  "settled s \<longleftrightarrow> rn_scopes s \<noteq> [] \<and> (\<forall>b \<in> set (hd (rn_scopes s)). \<not> bn_preseeded b)"

lemma good_binding_mono: "good_binding k b \<Longrightarrow> k \<le> k' \<Longrightarrow> good_binding k' b"
  unfolding good_binding_def by (meson less_le_trans)

lemma louder_refl [simp]: "louder s s"
  by (simp add: louder_def)

lemma louder_trans: "louder a b \<Longrightarrow> louder b c \<Longrightarrow> louder a c"
  unfolding louder_def by (elim exE, simp)

lemma moved_trans: "moved n a b \<Longrightarrow> moved k b c \<Longrightarrow> moved (n + k) a c"
  by (auto simp: moved_def intro: louder_trans)

lemma moved_able: "able (n + k) a \<Longrightarrow> moved n a b \<Longrightarrow> able k b"
  by (auto simp: able_def moved_def)

lemma able_less: "able (n + k) a \<Longrightarrow> able n a"
  by (simp add: able_def)

lemma moved_refl: "able n s \<Longrightarrow> moved 0 s s"
  by (simp add: moved_def able_def)

lemma quiet_through:
  assumes "quiet a c" "moved n a b" "moved k b c"
  shows "quiet a b" "quiet b c"
proof -
  obtain m n where "entries (rn_bag b) = entries (rn_bag a) @ m"
    "entries (rn_bag c) = entries (rn_bag b) @ n"
    using assms(2,3) unfolding moved_def louder_def by blast
  then show "quiet a b" "quiet b c" using assms(1) by (simp_all add: quiet_def)
qed

lemma dec_inject [simp]: "dec m = dec n \<longleftrightarrow> m = n"
  using dec_digits by metis

lemma marked_inject:
  assumes "CHR ''$'' \<notin> set x" "CHR ''$'' \<notin> set y"
  shows "x @ ''$'' @ dec m = y @ ''$'' @ dec n \<longleftrightarrow> x = y \<and> m = n"
proof
  assume eq: "x @ ''$'' @ dec m = y @ ''$'' @ dec n"
  have "takeWhile (\<lambda>c. c \<noteq> CHR ''$'') (x @ ''$'' @ dec m) = x"
    "takeWhile (\<lambda>c. c \<noteq> CHR ''$'') (y @ ''$'' @ dec n) = y"
    using assms by (auto simp: takeWhile_append)
  with eq show "x = y \<and> m = n" by auto
qed simp

text \<open>A name that no visible binding has is no new name either, and a minted one is new.\<close>

lemma free_not_new:
  assumes "good s" "CHR ''$'' \<notin> set x" "\<And>b. b \<in> bindings s \<Longrightarrow> bn_orig b \<noteq> x" "b \<in> bindings s"
  shows "bn_fresh b \<noteq> x"
  using assms by (force simp: good_def good_binding_def)

lemma minted_new:
  assumes "good s" "CHR ''$'' \<notin> set x" "b \<in> bindings s"
  shows "bn_fresh b \<noteq> x @ ''$'' @ dec (counter s)"
proof
  assume eq: "bn_fresh b = x @ ''$'' @ dec (counter s)"
  have "CHR ''$'' \<notin> set (bn_orig b)"
    "bn_fresh b = bn_orig b \<or> (\<exists>j < counter s. bn_fresh b = bn_orig b @ ''$'' @ dec j)"
    using assms by (auto simp: good_def good_binding_def)
  moreover have "CHR ''$'' \<in> set (bn_fresh b)" using eq by simp
  ultimately obtain j where "j < counter s" "bn_fresh b = bn_orig b @ ''$'' @ dec j" by metis
  with eq have "j < counter s" "bn_orig b @ ''$'' @ dec j = x @ ''$'' @ dec (counter s)" by simp_all
  with marked_inject [OF \<open>CHR ''$'' \<notin> set (bn_orig b)\<close> assms(2)] show False by simp
qed

subsection \<open>Binding names\<close>

text \<open>Bindings that keep their names; a binding is only marked as seen when it was used.\<close>

definition key :: "binding \<Rightarrow> string \<times> string \<times> bool" where
  "key b = (bn_orig b, bn_fresh b, bn_preseeded b)"

definition reseen :: "(string \<times> string) set \<Rightarrow> binding list \<Rightarrow> binding list \<Rightarrow> bool" where
  "reseen used = list_all2 (\<lambda>b b'. key b' = key b \<and> (bn_seen b' \<longrightarrow> bn_seen b \<or> pair b \<in> used))"

lemma reseen_refl [simp]: "reseen used bs bs"
  by (simp add: reseen_def list_all2_same)

lemma reseen_key: "reseen used bs bs' \<Longrightarrow> map key bs' = map key bs"
  unfolding reseen_def by (induction rule: list_all2_induct) auto

lemma key_parts:
  "map pair bs = map (\<lambda>(x, y, q). (x, y)) (map key bs)" "map bn_orig bs = map fst (map key bs)"
  "map bn_fresh bs = map (\<lambda>k. fst (snd k)) (map key bs)"
  "map bn_preseeded bs = map (\<lambda>k. snd (snd k)) (map key bs)"
  by (simp_all add: key_def pair_def)

lemma key_pair: "map key bs' = map key bs \<Longrightarrow> map pair bs' = map pair bs \<and>
    map bn_orig bs' = map bn_orig bs \<and> map bn_fresh bs' = map bn_fresh bs"
  by (simp only: key_parts)

lemma key_preseeded:
  assumes "map key bs' = map key bs" "\<forall>b \<in> set bs. \<not> bn_preseeded b"
  shows "\<forall>b \<in> set bs'. \<not> bn_preseeded b"
proof -
  have "map bn_preseeded bs' = map bn_preseeded bs" using assms(1) by (simp only: key_parts)
  from arg_cong [OF this, of set] assms(2) show ?thesis by (auto simp: set_eq_iff)
qed

lemma key_same: "key b' = key b \<Longrightarrow> pair b' = pair b \<and> bn_preseeded b' = bn_preseeded b"
  by (simp add: key_def pair_def)

lemma reseen_trans:
  assumes "reseen u as bs" "reseen v bs cs"
  shows "reseen (u \<union> v) as cs"
proof -
  have "key c = key a \<and> (bn_seen c \<longrightarrow> bn_seen a \<or> pair a \<in> u \<union> v)"
    if "key b = key a \<and> (bn_seen b \<longrightarrow> bn_seen a \<or> pair a \<in> u)"
      "key c = key b \<and> (bn_seen c \<longrightarrow> bn_seen b \<or> pair b \<in> v)" for a b c
    using that key_same [of b a] by simp blast
  from list_all2_trans [OF this assms(1,2) [unfolded reseen_def]]
  show ?thesis by (simp add: reseen_def)
qed

definition innermost :: "renamer \<Rightarrow> (string \<times> string \<times> bool) set" where
  "innermost s = key ` set (hd (rn_scopes s))"

definition new_names :: "renamer \<Rightarrow> string set" where
  "new_names s = bn_fresh ` bindings s"

lemma not_new: "(\<And>b. b \<in> bindings s \<Longrightarrow> bn_fresh b \<noteq> x) \<Longrightarrow> x \<notin> new_names s"
  by (auto simp: new_names_def)

definition novel :: "renamer \<Rightarrow> binding list \<Rightarrow> bool" where
  "novel s new \<longleftrightarrow> distinct (map bn_orig new) \<and> distinct (map bn_fresh new) \<and>
     (\<forall>b \<in> set new. bn_fresh b \<notin> new_names s \<and> (\<forall>y. (bn_orig b, y, False) \<notin> innermost s))"

definition preseeded :: "renamer \<Rightarrow> (string \<times> string) set" where
  "preseeded s = {(x, y). (x, y, True) \<in> innermost s}"

text \<open>
  What visiting (part of) a pattern promises: the innermost scope grows by bindings that are
  not preseeded; without a new error the names bound, in relation \<open>R\<close> to the result, are the
  new ones and some of the preseeded ones.
\<close>

definition binds_to :: "nat \<Rightarrow> ('a \<Rightarrow> scope \<Rightarrow> bool) \<Rightarrow> renamer \<Rightarrow> 'a \<Rightarrow> renamer \<Rightarrow> bool" where
  "binds_to n R s x s' \<longleftrightarrow> moved n s s' \<and> (\<exists>sc new used.
     rn_scopes s' = (sc @ new) # tl (rn_scopes s) \<and> reseen used (hd (rn_scopes s)) sc \<and>
     (\<forall>b \<in> set new. \<not> bn_preseeded b) \<and>
     (quiet s s' \<longrightarrow> novel s new \<and> used \<subseteq> preseeded s \<and>
       (\<exists>d. R x d \<and> set d = pair ` set new \<union> used \<and> (settled s \<longrightarrow> d = map pair new))))"

definition binds :: "nat \<Rightarrow> 'a ren \<Rightarrow> ('a \<Rightarrow> scope \<Rightarrow> bool) \<Rightarrow> bool" where
  "binds n m R \<longleftrightarrow> (\<forall>s. able n s \<longrightarrow> rn_scopes s \<noteq> [] \<longrightarrow> (\<exists>x s'. m s = (x, s') \<and> binds_to n R s x s'))"

lemma bindsI: "(\<And>s. able n s \<Longrightarrow> rn_scopes s \<noteq> [] \<Longrightarrow> \<exists>x s'. m s = (x, s') \<and> binds_to n R s x s') \<Longrightarrow>
    binds n m R"
  by (simp add: binds_def)

lemma binds_toI:
  assumes "moved n s s'" "rn_scopes s' = (sc @ new) # tl (rn_scopes s)" "reseen used (hd (rn_scopes s)) sc"
    "\<forall>b \<in> set new. \<not> bn_preseeded b"
    "quiet s s' \<Longrightarrow> novel s new \<and> used \<subseteq> preseeded s \<and>
       (\<exists>d. R x d \<and> set d = pair ` set new \<union> used \<and> (settled s \<longrightarrow> d = map pair new))"
  shows "binds_to n R s x s'"
  using assms unfolding binds_to_def by blast

lemma binds_yield: "R x [] \<Longrightarrow> binds 0 (yield x) R"
proof (rule bindsI)
  fix s
  assume "R x []" "able 0 s" "rn_scopes s \<noteq> []"
  then have "binds_to 0 R s x s"
    by (intro binds_toI [where sc = "hd (rn_scopes s)" and new = "[]" and used = "{}"])
      (auto simp: novel_def moved_refl)
  then show "\<exists>y s'. yield x s = (y, s') \<and> binds_to 0 R s y s'" by (simp add: yield_def)
qed

lemma binds_to_mono:
  assumes "binds_to n R s x s'" "\<And>d. R x d \<Longrightarrow> R' x d"
  shows "binds_to n R' s x s'"
proof -
  obtain sc new used where b: "moved n s s'" "rn_scopes s' = (sc @ new) # tl (rn_scopes s)"
    "reseen used (hd (rn_scopes s)) sc" "\<forall>b \<in> set new. \<not> bn_preseeded b"
    "quiet s s' \<longrightarrow> novel s new \<and> used \<subseteq> preseeded s \<and>
       (\<exists>d. R x d \<and> set d = pair ` set new \<union> used \<and> (settled s \<longrightarrow> d = map pair new))"
    using assms(1) unfolding binds_to_def by blast
  from b(1-4) show ?thesis
  proof (rule binds_toI)
    assume "quiet s s'"
    with b(5) assms(2) show "novel s new \<and> used \<subseteq> preseeded s \<and>
       (\<exists>d. R' x d \<and> set d = pair ` set new \<union> used \<and> (settled s \<longrightarrow> d = map pair new))" by blast
  qed
qed

lemma binds_mono:
  assumes "binds n m R" "\<And>x d. R x d \<Longrightarrow> R' x d"
  shows "binds n m R'"
proof (rule bindsI)
  fix s
  assume "able n s" "rn_scopes s \<noteq> []"
  then obtain x s' where "m s = (x, s')" "binds_to n R s x s'"
    using assms(1) unfolding binds_def by blast
  with assms(2) show "\<exists>x s'. m s = (x, s') \<and> binds_to n R' s x s'" by (blast intro: binds_to_mono)
qed

lemma innermost_grown:
  assumes "rn_scopes s' = (sc @ new) # tl (rn_scopes s)" "reseen used (hd (rn_scopes s)) sc"
    "rn_scopes s \<noteq> []"
  shows "innermost s' = innermost s \<union> key ` set new" "new_names s' = new_names s \<union> bn_fresh ` set new"
proof -
  note k = reseen_key [OF assms(2)]
  have "key ` set sc = key ` set (hd (rn_scopes s))" using k by (metis set_map)
  then show "innermost s' = innermost s \<union> key ` set new" by (simp add: innermost_def assms(1) image_Un)
  have "bn_fresh ` set sc = bn_fresh ` set (hd (rn_scopes s))" using key_pair [OF k] by (metis set_map)
  then show "new_names s' = new_names s \<union> bn_fresh ` set new"
    using assms(3) by (cases "rn_scopes s") (auto simp: new_names_def bindings_def assms(1) image_Un)
qed

lemma binds_then:
  assumes m: "binds n m R" and f: "\<And>x. binds k (f x) (R' x)"
  shows "binds (n + k) (andthen m f) (\<lambda>z d. \<exists>x d1 d2. d = d1 @ d2 \<and> R x d1 \<and> R' x z d2)"
proof (rule bindsI)
  fix s
  assume s: "able (n + k) s" "rn_scopes s \<noteq> []"
  obtain x s1 where 1: "m s = (x, s1)" "binds_to n R s x s1"
    using m able_less [OF s(1)] s(2) unfolding binds_def by blast
  then obtain sc1 new1 used1 where b1: "moved n s s1" "rn_scopes s1 = (sc1 @ new1) # tl (rn_scopes s)"
    "reseen used1 (hd (rn_scopes s)) sc1" "\<forall>b \<in> set new1. \<not> bn_preseeded b"
    "quiet s s1 \<longrightarrow> novel s new1 \<and> used1 \<subseteq> preseeded s \<and>
       (\<exists>d. R x d \<and> set d = pair ` set new1 \<union> used1 \<and> (settled s \<longrightarrow> d = map pair new1))"
    unfolding binds_to_def by blast
  obtain z s2 where 2: "f x s1 = (z, s2)" "binds_to k (R' x) s1 z s2"
    using f [of x] moved_able [OF s(1) b1(1)] b1(2) unfolding binds_def by (metis list.distinct(1))
  then obtain sc2 new2 used2 where b2: "moved k s1 s2" "rn_scopes s2 = (sc2 @ new2) # tl (rn_scopes s)"
    "reseen used2 (sc1 @ new1) sc2" "\<forall>b \<in> set new2. \<not> bn_preseeded b"
    "quiet s1 s2 \<longrightarrow> novel s1 new2 \<and> used2 \<subseteq> preseeded s1 \<and>
       (\<exists>d. R' x z d \<and> set d = pair ` set new2 \<union> used2 \<and> (settled s1 \<longrightarrow> d = map pair new2))"
    unfolding binds_to_def b1(2) list.sel by blast
  obtain sc new1' where sc2: "sc2 = sc @ new1'" "reseen used2 sc1 sc" "reseen used2 new1 new1'"
    using b2(3) unfolding reseen_def by (auto simp: list_all2_append1)
  note k1 = reseen_key [OF sc2(3)]
  note g = innermost_grown [OF b1(2,3) s(2)]
  have flags: "\<forall>b \<in> set new1'. \<not> bn_preseeded b" using key_preseeded [OF k1 b1(4)] .
  have notpre: "(x, y, True) \<notin> key ` set new1" for x y using b1(4) by (auto simp: key_def)
  have "binds_to (n + k) (\<lambda>z d. \<exists>x d1 d2. d = d1 @ d2 \<and> R x d1 \<and> R' x z d2) s z s2"
  proof (rule binds_toI)
    show "moved (n + k) s s2" using moved_trans [OF b1(1) b2(1)] .
    show "rn_scopes s2 = (sc @ (new1' @ new2)) # tl (rn_scopes s)" using b2(2) sc2(1) by simp
    show "reseen (used1 \<union> used2) (hd (rn_scopes s)) sc" using b1(3) sc2(2) by (rule reseen_trans)
    show "\<forall>b \<in> set (new1' @ new2). \<not> bn_preseeded b" using flags b2(4) by auto
    assume "quiet s s2"
    then have q: "quiet s s1" "quiet s1 s2" using quiet_through [OF _ b1(1) b2(1)] by blast+
    obtain d1 where d1: "R x d1" "set d1 = pair ` set new1 \<union> used1" "settled s \<longrightarrow> d1 = map pair new1"
      and n1: "novel s new1" "used1 \<subseteq> preseeded s" using b1(5) q(1) by blast
    obtain d2 where d2: "R' x z d2" "set d2 = pair ` set new2 \<union> used2" "settled s1 \<longrightarrow> d2 = map pair new2"
      and n2: "novel s1 new2" "used2 \<subseteq> preseeded s1" using b2(5) q(2) by blast
    have pre: "preseeded s1 = preseeded s" using notpre by (auto simp: preseeded_def g)
    have pairs: "map pair new1' = map pair new1" "map bn_orig new1' = map bn_orig new1"
      "map bn_fresh new1' = map bn_fresh new1" using key_pair [OF k1] by auto
    have "(bn_orig b, y, False) \<in> innermost s1" "bn_fresh b \<in> new_names s1" if "b \<in> set new1" "y = bn_fresh b" for b y
      using that b1(4) by (auto simp: g key_def)
    then have apart: "bn_orig a \<noteq> bn_orig b" "bn_fresh a \<noteq> bn_fresh b"
      if "a \<in> set new1" "b \<in> set new2" for a b
      using n2(1) that unfolding novel_def by metis+
    have "bn_orig ` set new1' = bn_orig ` set new1" "bn_fresh ` set new1' = bn_fresh ` set new1"
      using pairs(2,3) by (metis set_map)+
    moreover have "bn_fresh b \<notin> new_names s \<and> (bn_orig b, y, False) \<notin> innermost s" if "b \<in> set new2" for b y
      using n2(1) that by (auto simp: novel_def g)
    moreover have "bn_fresh b \<notin> new_names s \<and> (bn_orig b, y, False) \<notin> innermost s" if "b \<in> set new1'" for b y
    proof -
      have "pair b \<in> pair ` set new1" using that pairs(1) by (metis image_eqI set_map)
      then obtain a where "a \<in> set new1" "bn_orig a = bn_orig b" "bn_fresh a = bn_fresh b"
        by (auto simp: pair_def)
      with n1(1) show ?thesis unfolding novel_def by metis
    qed
    ultimately have "novel s (new1' @ new2)"
      using n1(1) n2(1) apart pairs(2,3) by (auto simp: novel_def)
    moreover have "settled s \<Longrightarrow> settled s1"
      using b1(2,4) key_preseeded [OF reseen_key [OF b1(3)]] by (auto simp: settled_def)
    then have "settled s \<longrightarrow> d1 @ d2 = map pair (new1' @ new2)" using d1(3) d2(3) pairs(1) by simp
    moreover have "pair ` set new1' = pair ` set new1" using pairs(1) by (metis set_map)
    then have "set (d1 @ d2) = pair ` set (new1' @ new2) \<union> (used1 \<union> used2)"
      unfolding set_append image_Un d1(2) d2(2) by blast
    moreover have "used1 \<union> used2 \<subseteq> preseeded s" using n1(2) n2(2) pre by blast
    ultimately show "novel s (new1' @ new2) \<and> used1 \<union> used2 \<subseteq> preseeded s \<and>
       (\<exists>d. (\<exists>x d1 d2. d = d1 @ d2 \<and> R x d1 \<and> R' x z d2) \<and>
          set d = pair ` set (new1' @ new2) \<union> (used1 \<union> used2) \<and>
          (settled s \<longrightarrow> d = map pair (new1' @ new2)))"
      using d1(1) d2(1) by blast
  qed
  with 1(1) 2(1) show "\<exists>z s2. andthen m f s = (z, s2) \<and>
      binds_to (n + k) (\<lambda>z d. \<exists>x d1 d2. d = d1 @ d2 \<and> R x d1 \<and> R' x z d2) s z s2"
    by (simp add: andthen_def)
qed

lemma good_grown:
  assumes "good s" "rn_scopes s \<noteq> []" "rn_scopes s' = (sc @ new) # tl (rn_scopes s)"
    "reseen used (hd (rn_scopes s)) sc" "counter s \<le> counter s'"
    "\<forall>b \<in> set new. good_binding (counter s') b"
  shows "good s'"
  unfolding good_def
proof
  fix b
  assume "b \<in> bindings s'"
  then consider "b \<in> set sc" | "b \<in> set new" | "b \<in> set (concat (tl (rn_scopes s)))"
    using assms(3) by (auto simp: bindings_def)
  then show "good_binding (counter s') b"
  proof cases
    case 1
    then have "key b \<in> key ` set (hd (rn_scopes s))"
      using reseen_key [OF assms(4)] by (metis image_eqI set_map)
    then obtain a where "a \<in> set (hd (rn_scopes s))" "bn_orig a = bn_orig b" "bn_fresh a = bn_fresh b"
      by (auto simp: key_def)
    moreover have "a \<in> bindings s" if "a \<in> set (hd (rn_scopes s))" for a
      using that assms(2) by (cases "rn_scopes s") (auto simp: bindings_def)
    ultimately have "good_binding (counter s) b"
      using assms(1) unfolding good_def good_binding_def by metis
    then show ?thesis using assms(5) by (rule good_binding_mono)
  next
    case 3
    then have "b \<in> bindings s" using assms(2) by (cases "rn_scopes s") (auto simp: bindings_def)
    then show ?thesis using assms(1,5) good_binding_mono by (auto simp: good_def)
  qed (use assms(6) in blast)
qed

lemma reseen_mark:
  "find (\<lambda>b. bn_orig b = x) bs = Some b \<Longrightarrow> reseen {pair b} bs (mark_seen x bs)"
  by (induction bs) (auto simp: reseen_def key_def pair_def list_all2_same split: if_splits)

lemma find_orig: "find (\<lambda>b. bn_orig b = x) bs = Some b \<Longrightarrow> b \<in> set bs \<and> bn_orig b = x"
  by (auto simp: find_Some_iff)

lemma find_orig_none: "find (\<lambda>b. bn_orig b = x) bs = None \<longleftrightarrow> (\<forall>b \<in> set bs. bn_orig b \<noteq> x)"
  by (auto simp: find_None_iff)

lemma already_bound_run:
  "rn_scopes (snd (already_bound sp x s)) = rn_scopes s"
  "counter (snd (already_bound sp x s)) = counter s"
  "bindings (snd (already_bound sp x s)) = bindings s"
  "louder s (snd (already_bound sp x s))" "\<not> quiet s (snd (already_bound sp x s))"
  by (simp_all add: already_bound_def emit_renamer_def counter_def bindings_def louder_def quiet_def)

lemma already_bound_moved: "good s \<Longrightarrow> moved n s (snd (already_bound sp x s))"
  by (simp add: moved_def good_def already_bound_run)

definition binds_ident :: "ident \<Rightarrow> string \<Rightarrow> scope \<Rightarrow> bool" where
  "binds_ident i y d \<longleftrightarrow>
     (if is_keyword_name (id_name i) then y = id_name i \<and> d = [] else d = [(id_name i, y)])"

lemma plain_binding_sel [simp]:
  "bn_orig (plain_binding x y) = x" "bn_fresh (plain_binding x y) = y"
  "\<not> bn_preseeded (plain_binding x y)" "pair (plain_binding x y) = (x, y)"
  by (simp_all add: plain_binding_def pair_def)

lemma binds_declare:
  assumes i: "CHR ''$'' \<notin> set (id_name i)"
  shows "binds 1 (declare_named i) (binds_ident i)"
proof (rule bindsI)
  fix s
  assume s: "able 1 s" "rn_scopes s \<noteq> []"
  let ?x = "id_name i"
  have good: "good s" and room: "counter s + 1 < 2 ^ 32" using s(1) by (auto simp: able_def)
  note whole = hd_Cons_tl [OF s(2)]
  show "\<exists>y s'. declare_named i s = (y, s') \<and> binds_to 1 (binds_ident i) s y s'"
  proof (cases "is_keyword_name ?x")
    case True
    then have "binds_to 1 (binds_ident i) s ?x s"
      using good by (intro binds_toI [where sc = "hd (rn_scopes s)" and new = "[]" and used = "{}"])
        (auto simp: moved_def novel_def binds_ident_def whole)
    with True show ?thesis by (simp add: declare_named_def)
  next
    case False
    show ?thesis
    proof (cases "find_innermost ?x s")
      case (Some b)
      then have find: "find (\<lambda>b. bn_orig b = ?x) (hd (rn_scopes s)) = Some b"
        by (simp add: find_innermost_def)
      note b = find_orig [OF find]
      show ?thesis
      proof (cases "bn_preseeded b")
        case True
        let ?s = "s\<lparr>rn_scopes := mark_seen ?x (hd (rn_scopes s)) # tl (rn_scopes s)\<rparr>"
        have "binds_to 1 (binds_ident i) s (bn_fresh b) ?s"
        proof (rule binds_toI [where new = "[]"])
          show re: "reseen {pair b} (hd (rn_scopes s)) (mark_seen ?x (hd (rn_scopes s)))"
            using find by (rule reseen_mark)
          have "good ?s" using good s(2) re
            by (intro good_grown [where s' = ?s and new = "[]"]) (auto simp: counter_def)
          then show "moved 1 s ?s" by (simp add: moved_def louder_def counter_def)
          have "{pair b} \<subseteq> preseeded s"
            using b True by (force simp: preseeded_def innermost_def key_def pair_def)
          moreover have "\<not> settled s" using b True by (auto simp: settled_def)
          ultimately show "novel s [] \<and> {pair b} \<subseteq> preseeded s \<and>
              (\<exists>d. binds_ident i (bn_fresh b) d \<and> set d = pair ` set [] \<union> {pair b} \<and>
                 (settled s \<longrightarrow> d = map pair []))"
            using b False by (auto simp: novel_def binds_ident_def pair_def)
        qed simp_all
        with Some True False show ?thesis by (simp add: declare_named_def Let_def)
      next
        case fresh: False
        let ?s = "snd (already_bound (id_span i) ?x s)"
        have "binds_to 1 (binds_ident i) s ?x ?s"
          using already_bound_moved [OF good]
          by (intro binds_toI [where sc = "hd (rn_scopes s)" and new = "[]" and used = "{}"])
            (simp_all add: already_bound_run whole)
        with Some fresh False show ?thesis
          by (simp add: declare_named_def Let_def andthen_def yield_def case_prod_beta)
      qed
    next
      case None
      then have hd: "\<And>b. b \<in> set (hd (rn_scopes s)) \<Longrightarrow> bn_orig b \<noteq> ?x"
        using find_orig_none by (fastforce simp: find_innermost_def)
      have push: "binds_to 1 (binds_ident i) s y s'"
        if s': "rn_scopes s' = (hd (rn_scopes s) @ [plain_binding ?x y]) # tl (rn_scopes s)"
          "rn_bag s' = rn_bag s" "counter s \<le> counter s'" "counter s' \<le> counter s + 1"
          and y: "good_binding (counter s') (plain_binding ?x y)" "y \<notin> new_names s" for s' y
      proof (rule binds_toI [OF _ s'(1), where used = "{}"])
        have "good s'" using good s(2) s'(1) _ s'(3)
          by (rule good_grown [where used = "{}"]) (use y in simp_all)
        then show "moved 1 s s'" using s' by (simp add: moved_def louder_def)
        show "novel s [plain_binding ?x y] \<and> {} \<subseteq> preseeded s \<and>
            (\<exists>d. binds_ident i y d \<and> set d = pair ` set [plain_binding ?x y] \<union> {} \<and>
               (settled s \<longrightarrow> d = map pair [plain_binding ?x y]))"
          using False y(2) by (auto simp: novel_def binds_ident_def innermost_def key_def dest: hd)
      qed simp_all
      show ?thesis
      proof (cases "is_shadowing ?x s")
        case False
        then have all: "bn_orig b \<noteq> ?x" if "b \<in> bindings s" for b
          using that hd s(2) by (cases "rn_scopes s") (auto simp: bindings_def is_shadowing_def)
        have "bn_fresh b \<noteq> ?x" if "b \<in> bindings s" for b
        proof (rule free_not_new [OF good i _ that])
          fix e
          assume "e \<in> bindings s"
          then show "bn_orig e \<noteq> ?x" by (rule all)
        qed
        then have "?x \<notin> new_names s" by (rule not_new)
        moreover have "good_binding (counter s) (plain_binding ?x ?x)"
          using i by (simp add: good_binding_def)
        ultimately show ?thesis
          using push [of "snd (push_binding (plain_binding ?x ?x) s)" ?x] \<open>\<not> is_keyword_name ?x\<close> None False
          by (simp add: declare_named_def Let_def andthen_def yield_def push_binding_def counter_def)
      next
        case True
        let ?y = "?x @ ''$'' @ dec (counter s)"
        have "?y \<notin> new_names s"
          by (rule not_new, rule minted_new [OF good i])
        moreover have up: "unat (rn_counter s + 1) = unat (rn_counter s) + 1"
          using room by (simp add: counter_def unat_word_ariths)
        moreover have "good_binding (Suc (counter s)) (plain_binding ?x ?y)"
          using i by (auto simp: good_binding_def)
        ultimately show ?thesis
          using push [of "snd (push_binding (plain_binding ?x ?y) (snd (fresh_name ?x s)))" ?y] False None True
          by (simp add: declare_named_def Let_def andthen_def yield_def push_binding_def fresh_name_def
              counter_def dec32_def)
      qed
    qed
  qed
qed

lemma binds_bind:
  assumes "binds n m R" "\<And>x. binds k (f x) (R' x)" "N = n + k"
    "\<And>x z d1 d2. R x d1 \<Longrightarrow> R' x z d2 \<Longrightarrow> Q z (d1 @ d2)"
  shows "binds N (andthen m f) Q"
  unfolding assms(3) using binds_then [OF assms(1,2)] by (rule binds_mono) (use assms(4) in blast)

lemma binds_finish:
  assumes "binds n m R" "\<And>x d. R x d \<Longrightarrow> Q (f x) d"
  shows "binds n (andthen m (\<lambda>x. yield (f x))) Q"
  by (rule binds_bind [OF assms(1), where k = 0 and R' = "\<lambda>x z d. z = f x \<and> d = []"])
    (auto intro: binds_yield assms(2))

subsection \<open>Alternatives\<close>

lemma push_scope_run:
  "push_scope s = ((), s\<lparr>rn_scopes := [] # rn_scopes s\<rparr>)"
  "bindings (s\<lparr>rn_scopes := [] # rn_scopes s\<rparr>) = bindings s"
  by (simp_all add: push_scope_def bindings_def)

lemma able_scopes: "able n s \<Longrightarrow> set (concat scs) \<subseteq> bindings s \<Longrightarrow> able n (s\<lparr>rn_scopes := scs\<rparr>)"
  by (auto simp: able_def good_def bindings_def counter_def)

lemma moved_pop:
  assumes "moved n a s" "rn_scopes s = sc # scs"
  shows "moved n a (s\<lparr>rn_scopes := scs\<rparr>)"
  using assms by (auto simp: moved_def good_def bindings_def counter_def louder_def)

lemma moved_from:
  "moved n (a\<lparr>rn_scopes := scs\<rparr>) s \<longleftrightarrow> moved n a s"
  "quiet (a\<lparr>rn_scopes := scs\<rparr>) s \<longleftrightarrow> quiet a s" "quiet s (a\<lparr>rn_scopes := scs\<rparr>) \<longleftrightarrow> quiet s a"
  by (simp_all add: moved_def louder_def counter_def quiet_def)

lemma first_alternative_run:
  assumes m: "binds n m R" and s: "able n s"
  obtains x first s' where "first_alternative m s = ((x, first), s')" "moved n s s'"
    "rn_scopes s' = rn_scopes s" "\<forall>b \<in> set first. good_binding (counter s') b \<and> \<not> bn_preseeded b"
    "quiet s s' \<Longrightarrow> R x (map pair first) \<and> distinct (map bn_orig first) \<and>
       distinct (map bn_fresh first) \<and> (\<forall>b \<in> set first. bn_fresh b \<notin> new_names s)"
proof -
  let ?s = "s\<lparr>rn_scopes := [] # rn_scopes s\<rparr>"
  have "able n ?s" using able_scopes [OF s, of "[] # rn_scopes s"] by (simp add: bindings_def)
  then obtain x s1 where run: "m ?s = (x, s1)" and b: "binds_to n R ?s x s1"
    using m unfolding binds_def by fastforce
  obtain first where f: "moved n ?s s1" "rn_scopes s1 = first # rn_scopes s"
    "\<forall>b \<in> set first. \<not> bn_preseeded b"
    "quiet ?s s1 \<longrightarrow> novel ?s first \<and> R x (map pair first)"
    using b unfolding binds_to_def by (auto simp: reseen_def settled_def)
  show thesis
  proof (rule that [of x first "s1\<lparr>rn_scopes := rn_scopes s\<rparr>"])
    show "first_alternative m s = ((x, first), s1\<lparr>rn_scopes := rn_scopes s\<rparr>)"
      using run f(2) by (simp add: first_alternative_def push_scope_def andthen_def)
    show "moved n s (s1\<lparr>rn_scopes := rn_scopes s\<rparr>)"
      using moved_pop [OF f(1,2)] by (simp add: moved_from)
    show "\<forall>b \<in> set first. good_binding (counter (s1\<lparr>rn_scopes := rn_scopes s\<rparr>)) b \<and> \<not> bn_preseeded b"
      using f(1-3) by (auto simp: moved_def good_def bindings_def counter_def)
    assume "quiet s (s1\<lparr>rn_scopes := rn_scopes s\<rparr>)"
    then show "R x (map pair first) \<and> distinct (map bn_orig first) \<and>
       distinct (map bn_fresh first) \<and> (\<forall>b \<in> set first. bn_fresh b \<notin> new_names s)"
      using f(4) by (simp add: moved_from novel_def new_names_def bindings_def)
  qed simp
qed

lemma each_push_binding:
  "rn_scopes s \<noteq> [] \<Longrightarrow> snd (each push_binding bs s) =
     s\<lparr>rn_scopes := (hd (rn_scopes s) @ bs) # tl (rn_scopes s)\<rparr>"
  by (induction bs arbitrary: s)
    (simp_all add: yield_def andthen_def push_binding_def case_prod_beta)

lemma pair_preseed [simp]: "pair (preseed b) = pair b" "bn_preseeded (preseed b)" "\<not> bn_seen (preseed b)"
  "bn_orig (preseed b) = bn_orig b" "bn_fresh (preseed b) = bn_fresh b"
  by (simp_all add: preseed_def pair_def)

lemma other_alternative_run:
  assumes m: "binds n m R" and s: "able n s" and first: "\<forall>b \<in> set first. good_binding (counter s) b"
  obtains x s' where "other_alternative sp first m s = (x, s')" "moved n s s'"
    "rn_scopes s' = rn_scopes s" "quiet s s' \<Longrightarrow> \<exists>d. R x d \<and> set d = pair ` set first"
proof -
  let ?s = "s\<lparr>rn_scopes := map preseed first # rn_scopes s\<rparr>"
  have "good_binding (counter s) (preseed b)" if "b \<in> set first" for b
    using first that by (simp add: good_binding_def)
  then have "able n ?s" using s by (auto simp: able_def good_def bindings_def counter_def)
  then obtain x s1 where run: "m ?s = (x, s1)" and b: "binds_to n R ?s x s1"
    using m unfolding binds_def by fastforce
  obtain sc new used where f: "moved n ?s s1" "rn_scopes s1 = (sc @ new) # rn_scopes s"
    "reseen used (map preseed first) sc" "\<forall>b \<in> set new. \<not> bn_preseeded b"
    "quiet ?s s1 \<longrightarrow> used \<subseteq> preseeded ?s \<and> (\<exists>d. R x d \<and> set d = pair ` set new \<union> used)"
    using b unfolding binds_to_def by auto
  have pre: "preseeded ?s = pair ` set first"
    by (force simp: preseeded_def innermost_def key_def pair_def image_iff)
  let ?bad = "mismatched first (sc @ new)"
  let ?s2 = "if ?bad then snd (emit_renamer kParserOrPatternMismatch sp
      ''or-pattern alternatives must bind the same names'' s1) else s1"
  let ?s3 = "?s2\<lparr>rn_scopes := rn_scopes s\<rparr>"
  have "moved 0 s1 ?s2"
    using f(1) by (auto simp: moved_def good_def bindings_def counter_def louder_def emit_renamer_def)
  from moved_trans [OF f(1) this] have m2: "moved n s ?s2" by (simp only: moved_from add_0_right)
  have sc2: "rn_scopes ?s2 = (sc @ new) # rn_scopes s" using f(2) by (simp add: emit_renamer_def)
  show thesis
  proof (rule that [of x ?s3])
    have "push_scope s = ((), s\<lparr>rn_scopes := [] # rn_scopes s\<rparr>)" by (simp add: push_scope_def)
    then show "other_alternative sp first m s = (x, ?s3)"
      using run f(2) sc2
        each_push_binding [of "s\<lparr>rn_scopes := [] # rn_scopes s\<rparr>" "map preseed first"]
      by (simp add: other_alternative_def andthen_def case_prod_beta pop_scope_def yield_def emit_renamer_def)
    show "moved n s ?s3" using moved_pop [OF m2 sc2] .
    assume "quiet s ?s3"
    then have q: "quiet s ?s2" by (simp add: moved_from)
    have "moved 0 s1 ?s2" by (rule \<open>moved 0 s1 ?s2\<close>)
    with q quiet_through [of s ?s2 n s1 0] f(1) have q1: "quiet ?s s1" "quiet s1 ?s2"
      by (simp_all add: moved_from)
    then have ok: "\<not> ?bad" by (auto simp: quiet_def emit_renamer_def)
    have len: "length sc = length first" using f(3) by (auto simp: reseen_def dest: list_all2_lengthD)
    with ok have new: "new = []" by (auto simp: mismatched_def)
    have "pair ` set first \<subseteq> used"
    proof
      fix p
      assume "p \<in> pair ` set first"
      then obtain i where i: "i < length first" "p = pair (first ! i)" by (auto simp: in_set_conv_nth)
      have "key (sc ! i) = key (preseed (first ! i)) \<and>
          (bn_seen (sc ! i) \<longrightarrow> bn_seen (preseed (first ! i)) \<or> pair (preseed (first ! i)) \<in> used)"
        using f(3) i(1) by (simp add: reseen_def list_all2_conv_all_nth)
      moreover have "sc ! i \<in> set sc" using i(1) len by simp
      moreover have "bn_preseeded (sc ! i)"
        using calculation(1) key_same [of "sc ! i" "preseed (first ! i)"] by simp
      ultimately show "p \<in> used" using ok i(2) by (auto simp: mismatched_def)
    qed
    with f(5) q1(1) new pre show "\<exists>d. R x d \<and> set d = pair ` set first" by auto
  qed simp
qed

lemma other_alternatives_run:
  assumes "\<And>q. q \<in> set qs \<Longrightarrow> binds (k q) (f q) (R q)" "able (sum_list (map k qs)) s"
    "\<forall>b \<in> set first. good_binding (counter s) b"
  shows "\<exists>xs s'. each (\<lambda>q. other_alternative sp first (f q)) qs s = (xs, s') \<and>
    moved (sum_list (map k qs)) s s' \<and> rn_scopes s' = rn_scopes s \<and>
    (quiet s s' \<longrightarrow> list_all2 (\<lambda>q x. \<exists>d. R q x d \<and> set d = pair ` set first) qs xs)"
  using assms
proof (induction qs arbitrary: s)
  case Nil
  then show ?case by (simp add: yield_def moved_refl)
next
  case (Cons q qs)
  have q: "binds (k q) (f q) (R q)" using Cons.prems(1) by simp
  have "able (k q + sum_list (map k qs)) s" using Cons.prems(2) by simp
  note a = able_less [OF this] moved_able [OF this]
  obtain x s1 where 1: "other_alternative sp first (f q) s = (x, s1)" "moved (k q) s s1"
    "rn_scopes s1 = rn_scopes s" "quiet s s1 \<Longrightarrow> \<exists>d. R q x d \<and> set d = pair ` set first"
    using other_alternative_run [OF q a(1) Cons.prems(3)] by metis
  have "\<forall>b \<in> set first. good_binding (counter s1) b"
    using Cons.prems(3) 1(2) good_binding_mono by (auto simp: moved_def)
  then obtain xs s2 where 2: "each (\<lambda>q. other_alternative sp first (f q)) qs s1 = (xs, s2)"
    "moved (sum_list (map k qs)) s1 s2" "rn_scopes s2 = rn_scopes s1"
    "quiet s1 s2 \<longrightarrow> list_all2 (\<lambda>q x. \<exists>d. R q x d \<and> set d = pair ` set first) qs xs"
    using Cons.IH [of s1] Cons.prems(1) a(2) [OF 1(2)] by auto
  have "quiet s s1 \<and> quiet s1 s2" if "quiet s s2"
    using quiet_through [OF that 1(2) 2(2)] by blast
  with 1 2 moved_trans [OF 1(2) 2(2)] show ?case
    by (simp add: andthen_def yield_def)
qed

lemma merge_run:
  assumes "rn_scopes s \<noteq> []" "good s" "\<forall>b \<in> set bs. good_binding (counter s) b \<and> \<not> bn_preseeded b"
  shows "\<exists>us s' new. each (merge_binding sp) bs s = (us, s') \<and> moved 0 s s' \<and>
    rn_scopes s' = (hd (rn_scopes s) @ new) # tl (rn_scopes s) \<and> set new \<subseteq> set bs \<and>
    (quiet s s' \<longrightarrow> new = bs \<and> (\<forall>b \<in> set bs. \<forall>y. (bn_orig b, y, False) \<notin> innermost s))"
  using assms
proof (induction bs arbitrary: s)
  case Nil
  then show ?case by (auto simp: yield_def moved_def)
next
  case (Cons b bs)
  have clash: "(\<exists>e \<in> set (hd (rn_scopes s)). bn_orig e = bn_orig b \<and> \<not> bn_preseeded e) \<longleftrightarrow>
      (\<exists>y. (bn_orig b, y, False) \<in> innermost s)"
    unfolding innermost_def key_def by (auto simp: image_iff) metis+
  show ?case
  proof (cases "\<exists>y. (bn_orig b, y, False) \<in> innermost s")
    case True
    let ?s = "snd (already_bound sp (bn_orig b) s)"
    note same = already_bound_run(1-3) [of sp "bn_orig b" s]
    note step = already_bound_moved [OF Cons.prems(2), of 0 sp "bn_orig b"]
      already_bound_run(5) [of s sp "bn_orig b"]
    have "rn_scopes ?s \<noteq> []" "good ?s" "\<forall>b \<in> set bs. good_binding (counter ?s) b \<and> \<not> bn_preseeded b"
      using Cons.prems step(1) by (simp_all add: same moved_def)
    from Cons.IH [OF this] obtain us s' new where r: "each (merge_binding sp) bs ?s = (us, s')" "moved 0 ?s s'"
      "rn_scopes s' = (hd (rn_scopes s) @ new) # tl (rn_scopes s)" "set new \<subseteq> set bs"
      unfolding same by blast
    have "\<not> quiet s s'" using quiet_through(1) [OF _ step(1) r(2)] step(2) by blast
    moreover have "moved 0 s s'" using moved_trans [OF step(1) r(2)] by simp
    moreover have "merge_binding sp b s = already_bound sp (bn_orig b) s"
      using True clash by (simp add: merge_binding_def)
    then have "each (merge_binding sp) (b # bs) s = (fst (already_bound sp (bn_orig b) s) # us, s')"
      using r(1) by (simp add: andthen_def yield_def case_prod_beta)
    ultimately show ?thesis
      using r(3,4) by (intro exI [of _ "fst (already_bound sp (bn_orig b) s) # us"] exI [of _ s'] exI [of _ new]) auto
  next
    case False
    let ?s = "s\<lparr>rn_scopes := (hd (rn_scopes s) @ [b]) # tl (rn_scopes s)\<rparr>"
    have g: "good ?s"
    proof (rule good_grown [OF Cons.prems(2,1)])
      show "rn_scopes ?s = (hd (rn_scopes s) @ [b]) # tl (rn_scopes s)" by simp
      show "reseen {} (hd (rn_scopes s)) (hd (rn_scopes s))" by simp
      show "counter s \<le> counter ?s" by (simp add: counter_def)
      show "\<forall>b \<in> set [b]. good_binding (counter ?s) b"
        using Cons.prems(3) by (simp add: counter_def)
    qed
    then have step: "moved 0 s ?s" by (simp add: moved_def louder_def counter_def)
    have "rn_scopes ?s \<noteq> []" "\<forall>b \<in> set bs. good_binding (counter ?s) b \<and> \<not> bn_preseeded b"
      using Cons.prems by (simp_all add: counter_def)
    from Cons.IH [OF this(1) g this(2)] obtain us s' new where r: "each (merge_binding sp) bs ?s = (us, s')" "moved 0 ?s s'"
      "rn_scopes s' = ((hd (rn_scopes s) @ [b]) @ new) # tl (rn_scopes s)" "set new \<subseteq> set bs"
      "quiet ?s s' \<longrightarrow> new = bs \<and> (\<forall>b \<in> set bs. \<forall>y. (bn_orig b, y, False) \<notin> innermost ?s)"
      by auto
    have "innermost s \<subseteq> innermost ?s" by (auto simp: innermost_def)
    with r(5) False have "quiet s s' \<longrightarrow> b # new = b # bs \<and>
        (\<forall>b \<in> set (b # bs). \<forall>y. (bn_orig b, y, False) \<notin> innermost s)"
      using quiet_through(2) [OF _ step r(2)] by auto
    moreover have "moved 0 s s'" using moved_trans [OF step r(2)] by simp
    moreover have "\<not> (\<exists>e \<in> set (hd (rn_scopes s)). bn_orig e = bn_orig b \<and> \<not> bn_preseeded e)"
      using False clash by blast
    then have "merge_binding sp b s = ((), ?s)"
      by (simp only: merge_binding_def if_False push_binding_def)
    then have "each (merge_binding sp) (b # bs) s = (() # us, s')"
      using r(1) by (simp add: andthen_def yield_def)
    ultimately show ?thesis
      using r(3,4) by (intro exI [of _ "() # us"] exI [of _ s'] exI [of _ "b # new"]) auto
  qed
qed

lemma binds_or:
  assumes p: "binds n (visit_pattern p) (alpha_pattern p)"
    and ps: "\<And>q. q \<in> set ps \<Longrightarrow> binds (k q) (visit_pattern q) (alpha_pattern q)"
  shows "binds (n + sum_list (map k ps)) (visit_pattern (OrPattern sp (p # ps)))
     (alpha_pattern (OrPattern sp (p # ps)))"
proof (rule bindsI)
  fix s
  assume s: "able (n + sum_list (map k ps)) s" "rn_scopes s \<noteq> []"
  obtain p' first s1 where 1: "first_alternative (visit_pattern p) s = ((p', first), s1)" "moved n s s1"
    "rn_scopes s1 = rn_scopes s" "\<forall>b \<in> set first. good_binding (counter s1) b \<and> \<not> bn_preseeded b"
    "quiet s s1 \<Longrightarrow> alpha_pattern p p' (map pair first) \<and> distinct (map bn_orig first) \<and>
       distinct (map bn_fresh first) \<and> (\<forall>b \<in> set first. bn_fresh b \<notin> new_names s)"
    using first_alternative_run [OF p able_less [OF s(1)]] by metis
  obtain ps' s2 where 2: "each (\<lambda>q. other_alternative sp first (visit_pattern q)) ps s1 = (ps', s2)"
    "moved (sum_list (map k ps)) s1 s2" "rn_scopes s2 = rn_scopes s1"
    "quiet s1 s2 \<longrightarrow> list_all2 (\<lambda>q x. \<exists>d. alpha_pattern q x d \<and> set d = pair ` set first) ps ps'"
    using other_alternatives_run [of ps k visit_pattern alpha_pattern s1 first sp, OF ps moved_able [OF s(1) 1(2)]]
      1(4) by auto
  have "rn_scopes s2 \<noteq> []" "good s2" "\<forall>b \<in> set first. good_binding (counter s2) b \<and> \<not> bn_preseeded b"
    using 1 2 s(2) good_binding_mono by (auto simp: moved_def)
  from merge_run [OF this] obtain us s3 new where 3: "each (merge_binding sp) first s2 = (us, s3)" "moved 0 s2 s3"
    "rn_scopes s3 = (hd (rn_scopes s) @ new) # tl (rn_scopes s)" "set new \<subseteq> set first"
    "quiet s2 s3 \<longrightarrow> new = first \<and> (\<forall>b \<in> set first. \<forall>y. (bn_orig b, y, False) \<notin> innermost s2)"
    using 1(3) 2(3) by metis
  have m: "moved (n + sum_list (map k ps)) s s3" "moved (sum_list (map k ps) + 0) s1 s3"
    using moved_trans [OF moved_trans [OF 1(2) 2(2)] 3(2)] moved_trans [OF 2(2) 3(2)] by simp_all
  have "binds_to (n + sum_list (map k ps)) (alpha_pattern (OrPattern sp (p # ps))) s
      (OrPattern sp (p' # ps')) s3"
  proof (rule binds_toI [OF m(1) 3(3), where used = "{}"])
    show "\<forall>b \<in> set new. \<not> bn_preseeded b" using 1(4) 3(4) by blast
    assume "quiet s s3"
    then have q: "quiet s s1" "quiet s1 s3" using quiet_through [OF _ 1(2) m(2)] by blast+
    then have "quiet s1 s2" "quiet s2 s3" using quiet_through [OF _ 2(2) 3(2)] by blast+
    with 1(5) [OF q(1)] 2(3,4) 1(3) 3(5)
    have f: "new = first" "alpha_pattern p p' (map pair first)" "distinct (map bn_orig first)"
      "distinct (map bn_fresh first)" "\<forall>b \<in> set first. bn_fresh b \<notin> new_names s"
      "\<forall>b \<in> set first. \<forall>y. (bn_orig b, y, False) \<notin> innermost s"
      "list_all2 (\<lambda>q x. \<exists>d. alpha_pattern q x d \<and> set d = pair ` set first) ps ps'"
      by (simp_all add: innermost_def)
    have "alpha_pattern (OrPattern sp (p # ps)) (OrPattern sp (p' # ps')) (map pair first)"
      using f(2,7) by (intro alpha_or) simp_all
    with f show "novel s new \<and> {} \<subseteq> preseeded s \<and> (\<exists>d. alpha_pattern (OrPattern sp (p # ps)) (OrPattern sp (p' # ps')) d \<and>
        set d = pair ` set new \<union> {} \<and> (settled s \<longrightarrow> d = map pair new))"
      by (auto simp: novel_def)
  qed simp
  with 1(1) 2(1) 3(1) show "\<exists>x s'. visit_pattern (OrPattern sp (p # ps)) s = (x, s') \<and>
      binds_to (n + sum_list (map k ps)) (alpha_pattern (OrPattern sp (p # ps))) s x s'"
    by (simp add: andthen_def yield_def)
qed

subsection \<open>Patterns\<close>

definition alpha_field_pattern :: "field_pattern \<Rightarrow> field_pattern \<Rightarrow> scope \<Rightarrow> bool" where
  "alpha_field_pattern f f' d \<longleftrightarrow>
     (\<exists>i p p'. f = FieldPattern i p \<and> f' = FieldPattern i p' \<and> alpha_pattern p p' d)"

lemma binds_patterns:
  "(\<And>p. p \<in> set ps \<Longrightarrow> binds (length (names_pattern p)) (visit_pattern p) (alpha_pattern p)) \<Longrightarrow>
     binds (length (concat (map names_pattern ps))) (each visit_pattern ps) (alpha_patterns ps)"
proof (induction ps)
  case (Cons p ps)
  have rest: "binds (length (concat (map names_pattern ps)))
      (andthen (each visit_pattern ps) (\<lambda>ys. yield (y # ys)))
      (\<lambda>zs d. \<exists>ys. zs = y # ys \<and> alpha_patterns ps ys d)" for y
    by (rule binds_finish [OF Cons.IH]) (use Cons.prems in auto)
  show ?case
    unfolding each.simps
    by (rule binds_bind [OF Cons.prems rest]) (auto intro: alpha_patterns_more)
qed (auto intro: binds_yield alpha_patterns_none)

lemma binds_fields:
  "(\<And>f. f \<in> set fs \<Longrightarrow> binds (length (names_field f)) (visit_field_pattern f) (alpha_field_pattern f)) \<Longrightarrow>
     binds (length (concat (map names_field fs))) (each visit_field_pattern fs) (alpha_fields fs)"
proof (induction fs)
  case (Cons f fs)
  have rest: "binds (length (concat (map names_field fs)))
      (andthen (each visit_field_pattern fs) (\<lambda>ys. yield (y # ys)))
      (\<lambda>zs d. \<exists>ys. zs = y # ys \<and> alpha_fields fs ys d)" for y
    by (rule binds_finish [OF Cons.IH]) (use Cons.prems in auto)
  show ?case
    unfolding each.simps
    by (rule binds_bind [OF Cons.prems rest]) (auto simp: alpha_field_pattern_def intro: alpha_fields_more)
qed (auto intro: binds_yield alpha_fields_none)

lemma binds_declare_ident:
  assumes "CHR ''$'' \<notin> set (id_name i)"
  shows "binds 1 (declare_ident i) (\<lambda>i' d. if is_keyword_name (id_name i) then i' = i \<and> d = []
     else \<exists>y. i' = renamed i y \<and> d = [(id_name i, y)])"
  unfolding declare_ident_def
  by (rule binds_finish [OF binds_declare [OF assms]]) (auto simp: binds_ident_def renamed_def)

lemma visit_pattern_binds:
  "unmarked (names_pattern p) \<Longrightarrow> binds (length (names_pattern p)) (visit_pattern p) (alpha_pattern p)"
  "unmarked (names_field f) \<Longrightarrow> binds (length (names_field f)) (visit_field_pattern f) (alpha_field_pattern f)"
proof (induction p and f)
  case (WildcardPattern sp)
  then show ?case by (auto intro: binds_yield alpha_wildcard)
next
  case (IdentPattern sp i)
  have "binds 1 (visit_pattern (IdentPattern sp i)) (alpha_pattern (IdentPattern sp i))"
    unfolding visit_pattern.simps
    by (rule binds_finish [OF binds_declare_ident])
      (use IdentPattern in \<open>auto intro: alpha_ident alpha_ident_keyword split: if_splits\<close>)
  then show ?case by simp
next
  case (MutIdentPattern sp i)
  have "binds 1 (visit_pattern (MutIdentPattern sp i)) (alpha_pattern (MutIdentPattern sp i))"
    unfolding visit_pattern.simps
    by (rule binds_finish [OF binds_declare_ident])
      (use MutIdentPattern in \<open>auto intro: alpha_mut alpha_mut_keyword split: if_splits\<close>)
  then show ?case by simp
next
  case (LiteralPattern sp l)
  then show ?case by (auto intro: binds_yield alpha_literal)
next
  case (TuplePattern sp path ps)
  then have "binds (length (concat (map names_pattern ps))) (each visit_pattern ps) (alpha_patterns ps)"
    by (intro binds_patterns) auto
  then show ?case
    unfolding visit_pattern.simps names_pattern.simps by (rule binds_finish) (rule alpha_tuple)
next
  case (StructPattern sp path fs)
  then have "binds (length (concat (map names_field fs))) (each visit_field_pattern fs) (alpha_fields fs)"
    by (intro binds_fields) auto
  then show ?case
    unfolding visit_pattern.simps names_pattern.simps by (rule binds_finish) (rule alpha_struct)
next
  case (RefPattern sp m p)
  show ?case
    unfolding visit_pattern.simps names_pattern.simps
    by (rule binds_finish [OF RefPattern.IH]) (use RefPattern.prems in \<open>auto intro: alpha_ref\<close>)
next
  case (OrPattern sp ps)
  show ?case
  proof (cases ps)
    case Nil
    then show ?thesis by (auto intro: binds_yield alpha_or_none)
  next
    case (Cons p qs)
    have "binds (length (names_pattern p) + sum_list (map (\<lambda>q. length (names_pattern q)) qs))
        (visit_pattern (OrPattern sp (p # qs))) (alpha_pattern (OrPattern sp (p # qs)))"
      by (rule binds_or) (use OrPattern Cons in auto)
    then show ?thesis using Cons by (simp add: length_concat comp_def)
  qed
next
  case (FieldPattern i p)
  show ?case
    unfolding visit_field_pattern.simps names_field.simps
    by (rule binds_finish [OF FieldPattern.IH])
      (use FieldPattern.prems in \<open>auto simp: alpha_field_pattern_def\<close>)
qed

subsection \<open>Expressions and statements\<close>

text \<open>
  The judgement for everything else: the outer scopes come back as they were, and without a
  new error the result is related to the environments before and after.
\<close>

definition renames :: "nat \<Rightarrow> 'a ren \<Rightarrow> (scope list \<Rightarrow> 'a \<Rightarrow> scope list \<Rightarrow> bool) \<Rightarrow> bool" where
  "renames n m A \<longleftrightarrow> (\<forall>s. able n s \<longrightarrow> settled s \<longrightarrow> (\<exists>x s'. m s = (x, s') \<and> moved n s s' \<and>
     settled s' \<and> tl (rn_scopes s') = tl (rn_scopes s) \<and>
     (quiet s s' \<longrightarrow> A (env_of s) x (env_of s'))))"

definition keeps_env :: "(scope list \<Rightarrow> 'a \<Rightarrow> bool) \<Rightarrow> scope list \<Rightarrow> 'a \<Rightarrow> scope list \<Rightarrow> bool" where
  "keeps_env R env x env' \<longleftrightarrow> env' = env \<and> R env x"

lemma renamesI:
  "(\<And>s. able n s \<Longrightarrow> settled s \<Longrightarrow> \<exists>x s'. m s = (x, s') \<and> moved n s s' \<and> settled s' \<and>
     tl (rn_scopes s') = tl (rn_scopes s) \<and> (quiet s s' \<longrightarrow> A (env_of s) x (env_of s'))) \<Longrightarrow>
   renames n m A"
  by (simp add: renames_def)

lemma renames_yield: "(\<And>env. A env x env) \<Longrightarrow> renames 0 (yield x) A"
  by (rule renamesI) (simp add: yield_def moved_refl)

lemma renames_bind:
  assumes m: "renames n m A" and f: "\<And>x. renames k (f x) (B x)" and N: "N = n + k"
    and Q: "\<And>env x env1 z env2. A env x env1 \<Longrightarrow> B x env1 z env2 \<Longrightarrow> Q env z env2"
  shows "renames N (andthen m f) Q"
proof (rule renamesI)
  fix s
  assume s: "able N s" "settled s"
  obtain x s1 where 1: "m s = (x, s1)" "moved n s s1" "settled s1" "tl (rn_scopes s1) = tl (rn_scopes s)"
    "quiet s s1 \<longrightarrow> A (env_of s) x (env_of s1)"
    using m able_less [of n k s] s unfolding renames_def N by blast
  obtain z s2 where 2: "f x s1 = (z, s2)" "moved k s1 s2" "settled s2" "tl (rn_scopes s2) = tl (rn_scopes s1)"
    "quiet s1 s2 \<longrightarrow> B x (env_of s1) z (env_of s2)"
    using f [of x] moved_able [OF _ 1(2)] s(1) 1(3) unfolding renames_def N by blast
  have "quiet s s2 \<longrightarrow> Q (env_of s) z (env_of s2)"
    using quiet_through [OF _ 1(2) 2(2)] 1(5) 2(5) Q by blast
  with 1 2 moved_trans [OF 1(2) 2(2)]
  show "\<exists>z s2. andthen m f s = (z, s2) \<and> moved N s s2 \<and> settled s2 \<and>
      tl (rn_scopes s2) = tl (rn_scopes s) \<and> (quiet s s2 \<longrightarrow> Q (env_of s) z (env_of s2))"
    by (simp add: andthen_def N)
qed

lemma renames_weaken:
  assumes "renames n m A" "n \<le> N" "\<And>env x env'. A env x env' \<Longrightarrow> B env x env'"
  shows "renames N m B"
proof (rule renamesI)
  fix s
  assume s: "able N s" "settled s"
  then have "able n s" using assms(2) by (simp add: able_def)
  then obtain x s' where "m s = (x, s')" "moved n s s'" "settled s'" "tl (rn_scopes s') = tl (rn_scopes s)"
    "quiet s s' \<longrightarrow> A (env_of s) x (env_of s')"
    using assms(1) s(2) unfolding renames_def by blast
  moreover have "moved N s s'" using \<open>moved n s s'\<close> assms(2) by (auto simp: moved_def)
  ultimately show "\<exists>x s'. m s = (x, s') \<and> moved N s s' \<and> settled s' \<and>
      tl (rn_scopes s') = tl (rn_scopes s) \<and> (quiet s s' \<longrightarrow> B (env_of s) x (env_of s'))"
    using assms(3) by blast
qed

lemma renames_finish:
  assumes "renames n m A" "\<And>env x env'. A env x env' \<Longrightarrow> Q env (f x) env'"
  shows "renames n (andthen m (\<lambda>x. yield (f x))) Q"
  by (rule renames_bind [OF assms(1), where k = 0 and B = "\<lambda>x env1 z env2. z = f x \<and> env2 = env1"])
    (auto intro: renames_yield assms(2))

lemma renames_each:
  "(\<And>x. x \<in> set xs \<Longrightarrow> renames (k x) (f x) (keeps_env (\<lambda>env. R env x))) \<Longrightarrow>
     renames (sum_list (map k xs)) (each f xs) (keeps_env (\<lambda>env. list_all2 (R env) xs))"
proof (induction xs)
  case (Cons x xs)
  have rest: "renames (sum_list (map k xs)) (andthen (each f xs) (\<lambda>ys. yield (y # ys)))
      (keeps_env (\<lambda>env zs. \<exists>ys. zs = y # ys \<and> list_all2 (R env) xs ys))" for y
    by (rule renames_finish [OF Cons.IH]) (use Cons.prems in \<open>auto simp: keeps_env_def\<close>)
  show ?case
    unfolding each.simps
    by (rule renames_bind [OF Cons.prems rest]) (auto simp: keeps_env_def)
qed (auto intro: renames_yield simp: keeps_env_def)

lemma renames_maybe:
  "(\<And>x. v = Some x \<Longrightarrow> renames (k x) (f x) (keeps_env (\<lambda>env. R env x))) \<Longrightarrow>
     renames (case v of None \<Rightarrow> 0 | Some x \<Rightarrow> k x) (maybe f v) (keeps_env (\<lambda>env. rel_option (R env) v))"
  by (cases v) (auto simp: keeps_env_def intro!: renames_yield renames_finish)

lemma renames_scoped:
  assumes "renames n m A"
  shows "renames n (scoped m) (keeps_env (\<lambda>env x. \<exists>env'. A ([] # env) x env'))"
proof (rule renamesI)
  fix s
  assume s: "able n s" "settled s"
  let ?s = "s\<lparr>rn_scopes := [] # rn_scopes s\<rparr>"
  have "able n ?s" "settled ?s"
    using able_scopes [OF s(1), of "[] # rn_scopes s"] by (simp_all add: bindings_def settled_def)
  then obtain x s1 where 1: "m ?s = (x, s1)" "moved n ?s s1" "settled s1" "tl (rn_scopes s1) = rn_scopes s"
    "quiet ?s s1 \<longrightarrow> A (env_of ?s) x (env_of s1)"
    using assms unfolding renames_def by fastforce
  let ?s1 = "s1\<lparr>rn_scopes := rn_scopes s\<rparr>"
  obtain sc where sc: "rn_scopes s1 = sc # rn_scopes s"
    using 1(3,4) by (cases "rn_scopes s1") (auto simp: settled_def)
  have "scoped m s = (x, ?s1)"
    using 1(1) sc by (simp add: scoped_def andthen_def push_scope_def pop_scope_def yield_def)
  moreover have "moved n s ?s1" using moved_pop [OF 1(2) sc] by (simp add: moved_from)
  moreover have "settled ?s1" using s(2) by (simp add: settled_def)
  moreover have "quiet s ?s1 \<longrightarrow> A ([] # env_of s) x (env_of s1)"
    using 1(5) by (simp add: moved_from env_of_def)
  ultimately show "\<exists>x s'. scoped m s = (x, s') \<and> moved n s s' \<and> settled s' \<and>
      tl (rn_scopes s') = tl (rn_scopes s) \<and>
      (quiet s s' \<longrightarrow> keeps_env (\<lambda>env x. \<exists>env'. A ([] # env) x env') (env_of s) x (env_of s'))"
    by (auto simp: keeps_env_def env_of_def)
qed

text \<open>A pattern under a settled scope enters its names there.\<close>

lemma new_names_env: "new_names s = snd ` set (concat (env_of s))"
  by (simp add: new_names_def bindings_def env_of_def image_UN image_image pair_def)

lemma renames_pattern:
  assumes "binds n m R"
  shows "renames n m (\<lambda>env x env'. \<exists>d. R x d \<and> fits env d \<and> env' = extended env d)"
proof (rule renamesI)
  fix s
  assume s: "able n s" "settled s"
  then have ne: "rn_scopes s \<noteq> []" by (simp add: settled_def)
  obtain x s' where run: "m s = (x, s')" "binds_to n R s x s'"
    using assms s(1) ne unfolding binds_def by blast
  obtain sc new used where b: "moved n s s'" "rn_scopes s' = (sc @ new) # tl (rn_scopes s)"
    "reseen used (hd (rn_scopes s)) sc" "\<forall>b \<in> set new. \<not> bn_preseeded b"
    "quiet s s' \<longrightarrow> novel s new \<and> (\<exists>d. R x d \<and> d = map pair new)"
    using run(2) s(2) unfolding binds_to_def by blast
  have settled: "settled s'"
    using b(2,4) key_preseeded [OF reseen_key [OF b(3)]] s(2) by (auto simp: settled_def)
  have env: "env_of s' = extended (env_of s) (map pair new)"
    using b(2) key_pair [OF reseen_key [OF b(3)]] ne
    by (cases "rn_scopes s") (auto simp: env_of_def extended_def)
  have "fits (env_of s) (map pair new)" if n: "novel s new"
  proof -
    have "fst ` set (map pair new) \<inter> fst ` set (hd (env_of s)) = {}"
    proof -
      have "bn_orig b \<noteq> bn_orig e" if "b \<in> set new" "e \<in> set (hd (rn_scopes s))" for b e
      proof
        assume "bn_orig b = bn_orig e"
        then have "(bn_orig b, bn_fresh e, False) \<in> innermost s"
          using that(2) s(2) by (force simp: innermost_def key_def settled_def)
        with n that(1) show False by (auto simp: novel_def)
      qed
      then show ?thesis using ne by (cases "rn_scopes s") (auto simp: env_of_def pair_def)
    qed
    moreover have "snd ` set (map pair new) \<inter> snd ` set (concat (env_of s)) = {}"
      using n unfolding new_names_env [symmetric] by (auto simp: novel_def pair_def)
    ultimately show ?thesis using n by (simp add: fits_def novel_def pair_def comp_def)
  qed
  with run(1) b settled env show "\<exists>x s'. m s = (x, s') \<and> moved n s s' \<and> settled s' \<and>
      tl (rn_scopes s') = tl (rn_scopes s) \<and>
      (quiet s s' \<longrightarrow> (\<exists>d. R x d \<and> fits (env_of s) d \<and> env_of s' = extended (env_of s) d))"
    by auto
qed

lemma lookup_resolve:
  "lookup_scopes x scs = (case resolve_name (map (map pair) scs) x of Some y \<Rightarrow> y | None \<Rightarrow> x)"
proof (induction scs)
  case (Cons sc scs)
  have "map_of (map pair sc) x = map_option bn_fresh (find (\<lambda>b. bn_orig b = x) sc)"
    by (induction sc) (auto simp: pair_def)
  with Cons show ?case by (auto split: option.split)
qed simp

lemma resolve_none: "resolve_name env x = None \<Longrightarrow> x \<notin> fst ` set (concat env)"
  by (induction env) (auto split: option.splits simp: map_of_eq_None_iff)

lemma renames_path:
  assumes "unmarked (map id_name (path_segments p))"
  shows "renames 0 (rename_path p) (keeps_env (\<lambda>env. alpha_path env p))"
proof (rule renamesI)
  fix s
  assume s: "able 0 s" "settled s"
  have use: "stands_for (env_of s) x (lookup x s)" if "CHR ''$'' \<notin> set x" for x
  proof -
    have "x \<notin> new_names s" if none: "resolve_name (env_of s) x = None"
    proof (rule not_new, rule free_not_new)
      show "good s" using s(1) by (simp add: able_def)
      fix e
      assume "e \<in> bindings s"
      then have "bn_orig e \<in> fst ` set (concat (env_of s))"
        by (auto simp: bindings_def env_of_def pair_def image_iff)
      with resolve_none [OF none] show "bn_orig e \<noteq> x" by blast
    qed (use \<open>CHR ''$'' \<notin> set x\<close> in auto)
    then show ?thesis
      by (auto simp: stands_for_def lookup_def lookup_resolve env_of_def [symmetric] new_names_env split: option.split)
  qed
  have "alpha_path (env_of s) p (fst (rename_path p s))"
  proof (cases "\<exists>seg. path_segments p = [seg]")
    case True
    then obtain seg where "path_segments p = [seg]" by blast
    with assms use [of "id_name seg"] show ?thesis
      by (auto simp: rename_path_def renamed_def)
  qed (auto simp: rename_path_def split: list.split)
  moreover have "snd (rename_path p s) = s" by (simp add: rename_path_def split: list.split)
  ultimately show "\<exists>x s'. rename_path p s = (x, s') \<and> moved 0 s s' \<and> settled s' \<and>
      tl (rn_scopes s') = tl (rn_scopes s) \<and>
      (quiet s s' \<longrightarrow> keeps_env (\<lambda>env. alpha_path env p) (env_of s) x (env_of s'))"
    using s by (intro exI [of _ "fst (rename_path p s)"] exI [of _ s])
      (auto simp: keeps_env_def moved_refl prod_eq_iff)
qed

text \<open>What the induction shows of a condition: its expression, and that its pattern has source names.\<close>

definition cond_expr :: "cond \<Rightarrow> expr" where
  "cond_expr c = (case c of ValueCond e \<Rightarrow> e | PatternCond p e \<Rightarrow> e)"

lemma renames_cond:
  assumes e: "renames (length (names_expr (cond_expr c))) (visit_expr (cond_expr c))
      (keeps_env (\<lambda>env. alpha_expr env (cond_expr c)))"
    and names: "unmarked (names_cond c)"
    and b: "renames k (visit_block b) (keeps_env (\<lambda>env. alpha_block env b))"
    and F: "\<And>c' b'. renames n (F c' b') (keeps_env (R c' b'))"
    and N: "N = length (names_cond c) + k + n"
    and Q: "\<And>env c' env' b' x. alpha_cond env c c' env' \<Longrightarrow> alpha_block env' b b' \<Longrightarrow> R c' b' env x \<Longrightarrow> Q env x"
  shows "renames N (andthen (visit_cond c) (\<lambda>(c', pushed). andthen (visit_block b) (\<lambda>b'.
     andthen (if pushed then pop_scope else yield ()) (\<lambda>_. F c' b')))) (keeps_env Q)"
proof (cases c)
  case (ValueCond e)
  have "andthen (visit_cond c) (\<lambda>(c', pushed). andthen (visit_block b) (\<lambda>b'.
     andthen (if pushed then pop_scope else yield ()) (\<lambda>_. F c' b'))) =
     andthen (visit_expr e) (\<lambda>e'. andthen (visit_block b) (\<lambda>b'. F (ValueCond e') b'))"
    by (rule ext) (simp add: ValueCond andthen_def yield_def split: prod.split)
  moreover have inner: "renames (k + n) (andthen (visit_block b) (\<lambda>b'. F (ValueCond e') b'))
      (keeps_env (\<lambda>env z. \<exists>b'. alpha_block env b b' \<and> R (ValueCond e') b' env z))" for e'
    by (rule renames_bind [OF b F refl]) (auto simp: keeps_env_def)
  have "renames (length (names_expr e)) (visit_expr e) (keeps_env (\<lambda>env. alpha_expr env e))"
    using assms(1) ValueCond by (simp add: cond_expr_def)
  then have "renames (length (names_expr e) + (k + n)) (andthen (visit_expr e) (\<lambda>e'.
      andthen (visit_block b) (\<lambda>b'. F (ValueCond e') b'))) (keeps_env Q)"
    by (rule renames_bind [OF _ inner refl]) (auto simp: keeps_env_def intro: Q [unfolded ValueCond] alpha_value_cond)
  ultimately show ?thesis using N ValueCond by (simp add: add.assoc)
next
  case (PatternCond p e)
  let ?body = "scoped (andthen (visit_pattern p) (\<lambda>p'. andthen (visit_block b) (\<lambda>b'. yield (p', b'))))"
  have "andthen (visit_cond c) (\<lambda>(c', pushed). andthen (visit_block b) (\<lambda>b'.
     andthen (if pushed then pop_scope else yield ()) (\<lambda>_. F c' b'))) =
     andthen (visit_expr e) (\<lambda>e'. andthen ?body (\<lambda>r. F (PatternCond (fst r) e') (snd r)))"
    by (rule ext) (simp add: PatternCond andthen_def yield_def scoped_def split: prod.split)
  moreover have "binds (length (names_pattern p)) (visit_pattern p) (alpha_pattern p)"
    using names PatternCond by (intro visit_pattern_binds(1)) simp
  then have "renames (length (names_pattern p) + k)
      (andthen (visit_pattern p) (\<lambda>p'. andthen (visit_block b) (\<lambda>b'. yield (p', b'))))
      (\<lambda>env r env'. \<exists>d. alpha_pattern p (fst r) d \<and> fits env d \<and> alpha_block (extended env d) b (snd r))"
    by (rule renames_bind [OF renames_pattern renames_finish [OF b, where Q = "\<lambda>env r env'.
        env' = env \<and> alpha_block env b (snd r) \<and> fst r = p'" for p'] refl]) (auto simp: keeps_env_def)
  from renames_scoped [OF this]
  have body: "renames (length (names_pattern p) + k) ?body (keeps_env (\<lambda>env r.
      \<exists>d. alpha_pattern p (fst r) d \<and> fits ([] # env) d \<and> alpha_block (d # env) b (snd r)))"
    by (simp add: extended_def)
  have inner: "renames (length (names_pattern p) + k + n) (andthen ?body (\<lambda>r. F (PatternCond (fst r) e') (snd r)))
      (keeps_env (\<lambda>env z. \<exists>p' b' d. alpha_pattern p p' d \<and> fits ([] # env) d \<and> alpha_block (d # env) b b' \<and>
         R (PatternCond p' e') b' env z))" for e'
    by (rule renames_bind [OF body F refl]) (auto simp: keeps_env_def)
  have "renames (length (names_expr e)) (visit_expr e) (keeps_env (\<lambda>env. alpha_expr env e))"
    using e PatternCond by (simp add: cond_expr_def)
  then have "renames (length (names_expr e) + (length (names_pattern p) + k + n))
      (andthen (visit_expr e) (\<lambda>e'. andthen ?body (\<lambda>r. F (PatternCond (fst r) e') (snd r)))) (keeps_env Q)"
    by (rule renames_bind [OF _ inner refl])
      (auto simp: keeps_env_def intro: Q [unfolded PatternCond] alpha_pattern_cond)
  ultimately show ?thesis using N PatternCond by (simp add: add.assoc)
qed

lemma keep_one:
  "renames n m (keeps_env R) \<Longrightarrow> N = n \<Longrightarrow> (\<And>env x. R env x \<Longrightarrow> Q env (f x)) \<Longrightarrow>
     renames N (andthen m (\<lambda>x. yield (f x))) (keeps_env Q)"
  by (auto simp: keeps_env_def intro: renames_finish)

lemma keep_two:
  assumes "renames n m (keeps_env R)" "renames k m' (keeps_env R')" "N = n + k"
    "\<And>env x y. R env x \<Longrightarrow> R' env y \<Longrightarrow> Q env (f x y)"
  shows "renames N (andthen m (\<lambda>x. andthen m' (\<lambda>y. yield (f x y)))) (keeps_env Q)"
proof -
  have "renames k (andthen m' (\<lambda>y. yield (f x y))) (keeps_env (\<lambda>env z. \<exists>y. R' env y \<and> z = f x y))" for x
    by (rule keep_one [OF assms(2) refl]) auto
  then show ?thesis
    by (rule renames_bind [OF assms(1) _ assms(3)]) (use assms(4) in \<open>auto simp: keeps_env_def\<close>)
qed

lemma keep_each:
  assumes "\<And>x. x \<in> set xs \<Longrightarrow> renames (length (ns x)) (f x) (keeps_env (\<lambda>env. R env x))"
  shows "renames (length (concat (map ns xs))) (each f xs) (keeps_env (\<lambda>env. list_all2 (R env) xs))"
  using renames_each [of xs "\<lambda>x. length (ns x)" f R, OF assms] by (simp add: length_concat comp_def)

lemma keep_maybe:
  assumes "\<And>x. x \<in> set_option v \<Longrightarrow> renames (length (ns x)) (f x) (keeps_env (\<lambda>env. R env x))"
  shows "renames (length (names_option ns v)) (maybe f v) (keeps_env (\<lambda>env. rel_option (R env) v))"
  using renames_maybe [of v "\<lambda>x. length (ns x)" f R] assms by (cases v) simp_all

lemma renames_stmts:
  "(\<And>st. st \<in> set ss \<Longrightarrow> renames (length (names_stmt st)) (visit_stmt st) (\<lambda>env. alpha_stmt env st)) \<Longrightarrow>
     renames (length (concat (map names_stmt ss))) (each visit_stmt ss) (\<lambda>env. alpha_stmts env ss)"
proof (induction ss)
  case (Cons st ss)
  have rest: "renames (length (concat (map names_stmt ss))) (andthen (each visit_stmt ss) (\<lambda>ys. yield (y # ys)))
      (\<lambda>env zs env'. \<exists>ys. zs = y # ys \<and> alpha_stmts env ss ys env')" for y
    by (rule renames_finish [OF Cons.IH]) (use Cons.prems in auto)
  show ?case
    unfolding each.simps
    by (rule renames_bind [OF Cons.prems rest]) (auto intro: alpha_stmts_more)
qed (auto intro: renames_yield alpha_stmts_none)

lemmas alpha_rules = alpha_expr_alpha_init_alpha_arm_alpha_cond_alpha_block_alpha_stmt_alpha_stmts.intros

lemma visit_renames:
  "unmarked (names_expr e) \<Longrightarrow>
     renames (length (names_expr e)) (visit_expr e) (keeps_env (\<lambda>env. alpha_expr env e))"
  "unmarked (names_init i) \<Longrightarrow>
     renames (length (names_init i)) (visit_init i) (keeps_env (\<lambda>env. alpha_init env i))"
  "unmarked (names_arm a) \<Longrightarrow>
     renames (length (names_arm a)) (visit_arm a) (keeps_env (\<lambda>env. alpha_arm env a))"
  "unmarked (names_cond c) \<Longrightarrow>
     renames (length (names_expr (cond_expr c))) (visit_expr (cond_expr c)) (keeps_env (\<lambda>env. alpha_expr env (cond_expr c)))"
  "unmarked (names_block b) \<Longrightarrow>
     renames (length (names_block b)) (visit_block b) (keeps_env (\<lambda>env. alpha_block env b))"
  "unmarked (names_stmt st) \<Longrightarrow>
     renames (length (names_stmt st)) (visit_stmt st) (\<lambda>env. alpha_stmt env st)"
proof (induction e and i and a and c and b and st)
  case (PathExpr sp p)
  then have "renames 0 (visit_expr (PathExpr sp p)) (keeps_env (\<lambda>env. alpha_expr env (PathExpr sp p)))"
    unfolding visit_expr.simps by (intro keep_one [OF renames_path]) (auto intro: alpha_path_expr)
  then show ?case by (rule renames_weaken) simp_all
next
  case (StructExpr sp p fs b)
  then show ?case
    unfolding visit_expr.simps
    by (intro keep_two [OF keep_each [where R = alpha_init] keep_maybe [where R = alpha_expr]])
      (auto intro: alpha_struct_expr)
next
  case (TupleExpr sp es)
  then show ?case
    unfolding visit_expr.simps
    by (intro keep_one [OF keep_each [where R = alpha_expr]]) (auto intro: alpha_tuple_expr)
next
  case (UnaryExpr sp u e)
  then show ?case
    unfolding visit_expr.simps by (intro keep_one [OF UnaryExpr.IH]) (auto intro: alpha_unary)
next
  case (BorrowExpr sp m e)
  then show ?case
    unfolding visit_expr.simps by (intro keep_one [OF BorrowExpr.IH]) (auto intro: alpha_borrow)
next
  case (BinaryExpr sp b l r)
  then show ?case
    unfolding visit_expr.simps by (intro keep_two [OF BinaryExpr.IH]) (auto intro: alpha_binary)
next
  case (CastExpr sp e ty)
  then show ?case
    unfolding visit_expr.simps by (intro keep_one [OF CastExpr.IH]) (auto intro: alpha_cast)
next
  case (CallExpr sp e es)
  then show ?case
    unfolding visit_expr.simps
    by (intro keep_two [OF CallExpr.IH(1) keep_each [where R = alpha_expr]]) (auto intro: alpha_call)
next
  case (MethodCallExpr sp e name es)
  then show ?case
    unfolding visit_expr.simps
    by (intro keep_two [OF MethodCallExpr.IH(1) keep_each [where R = alpha_expr]]) (auto intro: alpha_method)
next
  case (FieldExpr sp e name)
  then show ?case
    unfolding visit_expr.simps by (intro keep_one [OF FieldExpr.IH]) (auto intro: alpha_field)
next
  case (IndexExpr sp e i)
  then show ?case
    unfolding visit_expr.simps by (intro keep_two [OF IndexExpr.IH]) (auto intro: alpha_index)
next
  case (QuestionExpr sp e)
  then show ?case
    unfolding visit_expr.simps by (intro keep_one [OF QuestionExpr.IH]) (auto intro: alpha_question)
next
  case (IfExpr sp c b eb)
  have eb: "renames (length (names_option names_block eb)) (andthen (maybe visit_block eb)
      (\<lambda>eb'. yield (IfExpr sp c' b' eb')))
      (keeps_env (\<lambda>env z. \<exists>eb'. rel_option (alpha_block env) eb eb' \<and> z = IfExpr sp c' b' eb'))" for c' b'
    by (rule keep_one [OF keep_maybe [where R = alpha_block] refl])
      (use IfExpr in auto)
  show ?case
    unfolding visit_expr.simps
    by (rule renames_cond [OF IfExpr.IH(1) _ IfExpr.IH(2) eb])
      (use IfExpr.prems in \<open>auto intro: alpha_if\<close>)
next
  case (MatchExpr sp e arms)
  then show ?case
    unfolding visit_expr.simps
    by (intro keep_two [OF MatchExpr.IH(1) keep_each [where R = alpha_arm]]) (auto intro: alpha_match)
next
  case (LoopExpr sp b)
  then show ?case
    unfolding visit_expr.simps by (intro keep_one [OF LoopExpr.IH]) (auto intro: alpha_loop)
next
  case (WhileExpr sp c b)
  have fin: "renames 0 (yield (WhileExpr sp c' b')) (keeps_env (\<lambda>env z. z = WhileExpr sp c' b'))" for c' b'
    by (rule renames_yield) (simp add: keeps_env_def)
  show ?case
    unfolding visit_expr.simps
    by (rule renames_cond [OF WhileExpr.IH(1) _ WhileExpr.IH(2) fin])
      (use WhileExpr.prems in \<open>auto intro: alpha_while\<close>)
next
  case (BlockExpr sp b)
  then show ?case
    unfolding visit_expr.simps by (intro keep_one [OF BlockExpr.IH]) (auto intro: alpha_block_expr)
next
  case (ReturnExpr sp v)
  then show ?case
    unfolding visit_expr.simps
    by (intro keep_one [OF keep_maybe [where R = alpha_expr]]) (auto intro: alpha_return)
next
  case (RangeExpr sp l r incl)
  then show ?case
    unfolding visit_expr.simps
    by (intro keep_two [OF keep_maybe [where R = alpha_expr] keep_maybe [where R = alpha_expr]])
      (auto intro: alpha_range)
next
  case (FieldInit i e)
  then show ?case
    unfolding visit_init.simps by (intro keep_one [OF FieldInit.IH]) (auto intro: alpha_init)
next
  case (MatchArm p e)
  have p: "binds (length (names_pattern p)) (visit_pattern p) (alpha_pattern p)"
    using MatchArm.prems by (intro visit_pattern_binds(1)) simp
  have e: "renames (length (names_expr e)) (andthen (visit_expr e) (\<lambda>e'. yield (MatchArm p' e')))
      (keeps_env (\<lambda>env z. \<exists>e'. alpha_expr env e e' \<and> z = MatchArm p' e'))" for p'
    by (rule keep_one [OF MatchArm.IH]) (use MatchArm.prems in auto)
  have "renames (length (names_arm (MatchArm p e)))
      (andthen (visit_pattern p) (\<lambda>p'. andthen (visit_expr e) (\<lambda>e'. yield (MatchArm p' e'))))
      (\<lambda>env z env'. \<exists>p' e' d. z = MatchArm p' e' \<and> alpha_pattern p p' d \<and> fits env d \<and>
         alpha_expr (extended env d) e e')"
    by (rule renames_bind [OF renames_pattern [OF p] e]) (auto simp: keeps_env_def)
  from renames_scoped [OF this] show ?case
    unfolding visit_arm.simps
    by (rule renames_weaken) (auto simp: keeps_env_def extended_def intro: alpha_arm)
next
  case (Block sp ss v)
  have v: "renames (length (names_option names_expr v)) (andthen (maybe visit_expr v) (\<lambda>v'. yield (Block sp ss' v')))
      (keeps_env (\<lambda>env z. \<exists>v'. rel_option (alpha_expr env) v v' \<and> z = Block sp ss' v'))" for ss'
    by (rule keep_one [OF keep_maybe [where R = alpha_expr] refl]) (use Block in auto)
  have "renames (length (concat (map names_stmt ss))) (each visit_stmt ss) (\<lambda>env. alpha_stmts env ss)"
    by (rule renames_stmts) (use Block in auto)
  then have "renames (length (names_block (Block sp ss v)))
      (andthen (each visit_stmt ss) (\<lambda>ss'. andthen (maybe visit_expr v) (\<lambda>v'. yield (Block sp ss' v'))))
      (\<lambda>env z env'. \<exists>ss' v'. z = Block sp ss' v' \<and> alpha_stmts env ss ss' env' \<and> rel_option (alpha_expr env') v v')"
    by (rule renames_bind [OF _ v]) (auto simp: keeps_env_def)
  from renames_scoped [OF this] show ?case
    unfolding visit_block.simps
    by (rule renames_weaken) (auto simp: keeps_env_def intro: alpha_block)
next
  case (DeclStmt sp p ty e)
  have p: "binds (length (names_pattern p)) (visit_pattern p) (alpha_pattern p)"
    using DeclStmt.prems by (intro visit_pattern_binds(1)) simp
  have rest: "renames (length (names_pattern p)) (andthen (visit_pattern p) (\<lambda>p'. yield (DeclStmt sp p' ty e')))
      (\<lambda>env z env'. \<exists>p' d. z = DeclStmt sp p' ty e' \<and> alpha_pattern p p' d \<and> fits env d \<and> env' = extended env d)" for e'
    by (rule renames_finish [OF renames_pattern [OF p]]) auto
  show ?case
    unfolding visit_stmt.simps
    by (rule renames_bind [OF DeclStmt.IH rest]) (use DeclStmt.prems in \<open>auto simp: keeps_env_def intro: alpha_decl\<close>)
next
  case (ReassignStmt sp x c b e)
  then have "renames (length (names_stmt (ReassignStmt sp x c b e))) (visit_stmt (ReassignStmt sp x c b e))
      (keeps_env (\<lambda>env z. alpha_stmt env (ReassignStmt sp x c b e) z env))"
    unfolding visit_stmt.simps by (intro keep_two [OF ReassignStmt.IH]) (auto intro: alpha_reassign)
  then show ?case by (rule renames_weaken) (auto simp: keeps_env_def)
next
  case (ExprStmt sp e)
  then have "renames (length (names_stmt (ExprStmt sp e))) (visit_stmt (ExprStmt sp e))
      (keeps_env (\<lambda>env z. alpha_stmt env (ExprStmt sp e) z env))"
    unfolding visit_stmt.simps by (intro keep_one [OF ExprStmt.IH]) (auto intro: alpha_expr_stmt)
  then show ?case by (rule renames_weaken) (auto simp: keeps_env_def)
qed (auto intro!: renames_yield simp: keeps_env_def cond_expr_def intro: alpha_rules)

subsection \<open>Items\<close>

lemma renames_params:
  "unmarked (concat (map (\<lambda>p. names_pattern (param_pattern p)) ps)) \<Longrightarrow>
     renames (length (concat (map (\<lambda>p. names_pattern (param_pattern p)) ps))) (each visit_param ps)
       (\<lambda>env. alpha_params env ps)"
proof (induction ps)
  case (Cons p ps)
  have "binds (length (names_pattern (param_pattern p))) (visit_pattern (param_pattern p))
      (alpha_pattern (param_pattern p))"
    using Cons.prems by (intro visit_pattern_binds(1)) simp
  note pattern = renames_pattern [OF this]
  have one: "renames (length (names_pattern (param_pattern p))) (visit_param p)
      (\<lambda>env y env'. \<exists>q d. y = p\<lparr>param_pattern := q\<rparr> \<and> alpha_pattern (param_pattern p) q d \<and>
         fits env d \<and> env' = extended env d)"
    unfolding visit_param_def by (rule renames_finish [OF pattern]) auto
  have rest: "renames (length (concat (map (\<lambda>p. names_pattern (param_pattern p)) ps)))
      (andthen (each visit_param ps) (\<lambda>ys. yield (y # ys)))
      (\<lambda>env zs env'. \<exists>ys. zs = y # ys \<and> alpha_params env ps ys env')" for y
    by (rule renames_finish [OF Cons.IH]) (use Cons.prems in auto)
  show ?case
    unfolding each.simps
    by (rule renames_bind [OF one rest]) (auto intro: alpha_params_more)
qed (auto intro: renames_yield alpha_params_none)

lemma renames_fn:
  assumes "unmarked (names_fn f)"
  shows "renames (length (names_fn f)) (visit_fn f) (keeps_env (\<lambda>env. alpha_fn env f))"
proof -
  have body: "renames (length (names_block (fn_body f)))
      (andthen (visit_block (fn_body f)) (\<lambda>b. yield (f\<lparr>fn_params := ps, fn_body := b\<rparr>)))
      (keeps_env (\<lambda>env z. \<exists>b. alpha_block env (fn_body f) b \<and> z = f\<lparr>fn_params := ps, fn_body := b\<rparr>))" for ps
    by (rule keep_one [OF visit_renames(5)]) (use assms in \<open>auto simp: names_fn_def\<close>)
  have "renames (length (names_fn f)) (andthen (each visit_param (fn_params f)) (\<lambda>ps.
      andthen (visit_block (fn_body f)) (\<lambda>b. yield (f\<lparr>fn_params := ps, fn_body := b\<rparr>))))
      (\<lambda>env z env'. \<exists>ps b. z = f\<lparr>fn_params := ps, fn_body := b\<rparr> \<and> alpha_params env (fn_params f) ps env' \<and>
         alpha_block env' (fn_body f) b)"
    by (rule renames_bind [OF renames_params body])
      (use assms in \<open>auto simp: names_fn_def keeps_env_def\<close>)
  from renames_scoped [OF this] show ?thesis
    unfolding visit_fn_def
    by (rule renames_weaken) (auto simp: keeps_env_def intro: alpha_fn)
qed

lemma renames_inner: "renames n m (keeps_env R) \<Longrightarrow>
    renames n (scoped m) (keeps_env (\<lambda>env. R ([] # env)))"
  by (rule renames_weaken [OF renames_scoped]) (auto simp: keeps_env_def)

lemma renames_item:
  "unmarked (names_item it) \<Longrightarrow>
     renames (length (names_item it)) (visit_item it) (keeps_env (\<lambda>env. alpha_item env it))"
proof (induction it)
  case (FnItem f)
  then show ?case
    unfolding visit_item.simps by (intro keep_one [OF renames_fn]) (auto intro: alpha_fn_item)
next
  case (ImplItem sp pub ty fs)
  then have fns: "renames (length (concat (map names_fn fs))) (each visit_fn fs) (keeps_env (\<lambda>env. list_all2 (alpha_fn env) fs))"
    by (intro keep_each renames_fn) auto
  show ?case
    unfolding visit_item.simps by (rule keep_one [OF fns]) (auto intro: alpha_impl)
next
  case (ModItem sp pub name its inline)
  then have its: "renames (length (concat (map names_item its))) (each visit_item its) (keeps_env (\<lambda>env. list_all2 (alpha_item env) its))"
    by (intro keep_each) auto
  show ?case
    unfolding visit_item.simps by (rule keep_one [OF its]) (auto intro: alpha_mod)
next
  case (StaticItem sp pub name ty e)
  then show ?case
    unfolding visit_item.simps
    by (intro keep_one [OF renames_inner [OF visit_renames(1)]]) (auto intro: alpha_static)
next
  case (ConstItem sp pub name ty e)
  then show ?case
    unfolding visit_item.simps
    by (intro keep_one [OF renames_inner [OF visit_renames(1)]]) (auto intro: alpha_const)
qed (auto intro!: renames_yield simp: keeps_env_def intro: alpha_item.intros)

lemma desugar_run:
  assumes "unmarked (concat (map names_item items))" "length (concat (map names_item items)) < 2 ^ 32"
  shows "\<exists>new. entries (snd (desugar_shadowing items bag)) = entries bag @ new \<and>
    (new = [] \<longrightarrow> list_all2 (alpha_item [[]]) items (fst (desugar_shadowing items bag)))"
proof -
  let ?s = "\<lparr>rn_counter = 0, rn_scopes = [[]], rn_bag = bag\<rparr>"
  have "renames (length (concat (map names_item items))) (each visit_item items)
      (keeps_env (\<lambda>env. list_all2 (alpha_item env) items))"
    using assms(1) by (intro keep_each renames_item) auto
  moreover have "able (length (concat (map names_item items))) ?s" "settled ?s" "env_of ?s = [[]]"
    using assms(2) by (simp_all add: able_def good_def bindings_def counter_def settled_def env_of_def)
  ultimately obtain its s' where r: "each visit_item items ?s = (its, s')" "louder ?s s'"
    "quiet ?s s' \<longrightarrow> list_all2 (alpha_item [[]]) items its"
    unfolding renames_def by (fastforce simp: keeps_env_def moved_def)
  then obtain new where "entries (rn_bag s') = entries bag @ new" by (auto simp: louder_def)
  moreover have "desugar_shadowing items bag = (its, rn_bag s')"
    using r(1) by (simp add: desugar_shadowing_def new_renamer_def scoped_def andthen_def push_scope_def
        pop_scope_def yield_def)
  ultimately show ?thesis using r(3) by (auto simp: quiet_def)
qed

text \<open>
  C7. Renaming preserves the meaning of names. When it reports no error, the new items are the
  old ones up to the spelling of local bindings and their uses: every use is spelled like the
  binding that lexical scoping gives it, a free name keeps its spelling and is captured by no
  binding, and every binding has a spelling that nothing visible there has. Source names hold
  no dollar sign, and there are fewer than \<open>2 ^ 32\<close> of them.
\<close>

theorem desugar_alpha:
  assumes "unmarked (concat (map names_item items))" and "length (concat (map names_item items)) < 2 ^ 32"
    and "desugar_shadowing items bag = (items', bag')" and "entries bag' = entries bag"
  shows "list_all2 (alpha_item [[]]) items items'"
  using desugar_run [OF assms(1,2), of bag] assms(3,4) by auto

subsection \<open>A shadowed binding\<close>

definition local_name :: "string \<Rightarrow> ident" where
  "local_name x = \<lparr>id_name = x, id_span = empty_span\<rparr>"

definition local_use :: "string \<Rightarrow> expr" where
  "local_use x = PathExpr empty_span \<lparr>path_segments = [local_name x], path_span = empty_span\<rparr>"

definition local_binding :: "string \<Rightarrow> pattern" where
  "local_binding x = IdentPattern empty_span (local_name x)"

definition variant_of :: "string \<Rightarrow> pattern list \<Rightarrow> pattern" where
  "variant_of name ps =
     TuplePattern empty_span (Some \<lparr>path_segments = [local_name name], path_span = empty_span\<rparr>) ps"

definition match_item :: "pattern \<Rightarrow> item" where
  "match_item p = ConstItem empty_span False (local_name ''c'') (UnitType empty_span)
     (MatchExpr empty_span (local_use ''y'') [MatchArm p (local_use ''x'')])"

text \<open>The constant \<^verbatim>\<open>{ x := y; { x := x; x } }\<close>; the inner binding is renamed.\<close>

definition shadowing_item :: "string \<Rightarrow> item" where
  "shadowing_item inner = ConstItem empty_span False (local_name ''c'') (UnitType empty_span)
     (BlockExpr empty_span (Block empty_span
       [DeclStmt empty_span (local_binding ''x'') None (local_use ''y'')]
       (Some (BlockExpr empty_span (Block empty_span
         [DeclStmt empty_span (local_binding inner) None (local_use ''x'')] (Some (local_use inner)))))))"

lemmas sample_defs = local_name_def local_use_def local_binding_def variant_of_def match_item_def
  shadowing_item_def

lemma desugar_alpha_witness:
  "list_all2 (alpha_item [[]]) [shadowing_item ''x''] [shadowing_item ''x$0'']"
proof (rule desugar_alpha)
  show "unmarked (concat (map names_item [shadowing_item ''x'']))"
    by (simp add: sample_defs)
  show "length (concat (map names_item [shadowing_item ''x''])) < 2 ^ 32"
    by (simp add: sample_defs)
  have "desugar_shadowing [shadowing_item ''x''] empty_bag =
      ([shadowing_item ''x$0''], snd (desugar_shadowing [shadowing_item ''x''] empty_bag))"
    by code_simp
  then show "desugar_shadowing [shadowing_item ''x''] empty_bag =
      ([shadowing_item ''x$0''], snd (desugar_shadowing [shadowing_item ''x''] empty_bag))" .
  show "entries (snd (desugar_shadowing [shadowing_item ''x''] empty_bag)) = entries empty_bag"
    by code_simp
qed

subsection \<open>Or-patterns\<close>

text \<open>The codes a run reports on an empty bag.\<close>

definition desugar_codes :: "item list \<Rightarrow> u32 list" where
  "desugar_codes items = map diag_code (entries (snd (desugar_shadowing items empty_bag)))"


text \<open>
  Nesting decides whether an or-pattern is accepted: three alternatives that bind the same
  name pass when grouped to the left and are refused when grouped to the right, where the inner
  pattern takes the seeded name of the outer one for a shadowed variable.
\<close>

theorem or_pattern_nesting:
  "map (\<lambda>p. desugar_codes [match_item p])
     [OrPattern empty_span [OrPattern empty_span [variant_of ''A'' [local_binding ''x''],
         variant_of ''B'' [local_binding ''x'']], variant_of ''C'' [local_binding ''x'']],
      OrPattern empty_span [variant_of ''A'' [local_binding ''x''],
         OrPattern empty_span [variant_of ''B'' [local_binding ''x''], variant_of ''C'' [local_binding ''x'']]]] =
   [[], [kParserOrPatternMismatch]]"
  by code_simp

end
