(* ===== verification/Module_Resolve.thy ===== *)
theory Module_Resolve
  imports Desugar Parse_Source Path
begin

text \<open>
  Module resolution (\<^verbatim>\<open>src/analyzer/resolve.h\<close>, \<^verbatim>\<open>src/analyzer/resolve.cc\<close>): the files of a
  package are parsed, the tree of modules is grown from the root file along the \<open>mod\<close> items,
  and the \<open>use\<close> items are resolved. The state is the struct \<open>Resolver\<close>; its nine parallel
  vectors, which only \<open>add_module\<close> grows, are one table of rows. A module is its index in the
  table, \<open>None\<close> the index \<open>kNoModule\<close>. The worklist that may never become empty is a partial
  function: \<open>None\<close> is a run that does not return. A missing root file, which the source
  only guards by a debug check, is the outcome \<open>Outside\<close>.
\<close>

subsection \<open>State\<close>

definition kAnalyzerMissingModuleFile :: u32 where "kAnalyzerMissingModuleFile = 4200"
definition kAnalyzerDuplicateModule :: u32 where "kAnalyzerDuplicateModule = 4201"
definition kAnalyzerUnresolvedImport :: u32 where "kAnalyzerUnresolvedImport = 4202"
definition kAnalyzerAmbiguousImport :: u32 where "kAnalyzerAmbiguousImport = 4203"
definition kAnalyzerUnreachableFile :: u32 where "kAnalyzerUnreachableFile = 4204"
definition kAnalyzerInvalidPath :: u32 where "kAnalyzerInvalidPath = 4205"

datatype namespace = NsType | NsValue | NsModule

record import_entry =
  im_name :: string
  im_ns :: namespace
  im_target :: nat
  im_member :: string
  im_pub :: bool

record file_data =
  fd_id :: file_id
  fd_dir :: path
  fd_path :: path
  fd_items :: "item list"
  fd_module :: "nat option"

record module_row =
  mr_path :: string
  mr_file :: file_id
  mr_items :: "item list"
  mr_parent :: "nat option"
  mr_dir :: path
  mr_types :: "string list"
  mr_values :: "string list"
  mr_modules :: "string list"
  mr_imports :: "import_entry list"
  mr_children :: "nat list"
  mr_state :: u8

record resolver =
  rs_files :: "file_data list"
  rs_rows :: "module_row list"
  rs_bag :: diag_bag

record module_node =
  mn_path :: string
  mn_file :: file_id
  mn_items :: "item list"
  mn_children :: "nat list"
  mn_imports :: "import_entry list"

record module_tree =
  tree_modules :: "module_node list"
  tree_root :: nat

definition report_at :: "u32 \<Rightarrow> span \<Rightarrow> string \<Rightarrow> resolver \<Rightarrow> resolver" where
  "report_at code sp message s = s\<lparr>rs_bag := emit_at SevError code sp message (rs_bag s)\<rparr>"

definition row :: "resolver \<Rightarrow> nat \<Rightarrow> module_row" where
  "row s m = rs_rows s ! m"

definition set_row :: "nat \<Rightarrow> (module_row \<Rightarrow> module_row) \<Rightarrow> resolver \<Rightarrow> resolver" where
  "set_row m f s = s\<lparr>rs_rows := (rs_rows s)[m := f (rs_rows s ! m)]\<rparr>"

text \<open>A message with a name in apostrophes, \<^verbatim>\<open>"... '{}' ..."\<close>.\<close>

definition quoted :: "string \<Rightarrow> string \<Rightarrow> string \<Rightarrow> string" where
  "quoted front name behind = front @ [CHR 0x27] @ name @ [CHR 0x27] @ behind"

text \<open>Appending to the table; the new index is the old length.\<close>

definition add_module ::
  "string \<Rightarrow> file_id \<Rightarrow> item list \<Rightarrow> nat option \<Rightarrow> path \<Rightarrow> resolver \<Rightarrow> nat \<times> resolver" where
  "add_module mpath fid items up dir s =
     (length (rs_rows s),
      s\<lparr>rs_rows := rs_rows s @
        [\<lparr>mr_path = mpath, mr_file = fid, mr_items = items, mr_parent = up, mr_dir = dir,
          mr_types = [], mr_values = [], mr_modules = [], mr_imports = [], mr_children = [],
          mr_state = 0\<rparr>]\<rparr>)"

definition has_name :: "string list \<Rightarrow> string \<Rightarrow> bool" where
  "has_name names name \<longleftrightarrow> name \<in> set names"

definition name_of_module :: "resolver \<Rightarrow> nat \<Rightarrow> string" where
  "name_of_module s m =
     (case find_last_of (CHR '':'') (mr_path (row s m)) of
        None \<Rightarrow> mr_path (row s m) | Some i \<Rightarrow> drop (i + 1) (mr_path (row s m)))"

fun first_index :: "('a \<Rightarrow> bool) \<Rightarrow> 'a list \<Rightarrow> nat option" where
  "first_index P [] = None"
| "first_index P (x # xs) = (if P x then Some 0 else map_option Suc (first_index P xs))"

definition find_file_by_path :: "resolver \<Rightarrow> path \<Rightarrow> nat option" where
  "find_file_by_path s p = first_index (\<lambda>f. fd_path f = p) (rs_files s)"

definition find_child_module :: "resolver \<Rightarrow> nat \<Rightarrow> string \<Rightarrow> nat option" where
  "find_child_module s m name = find (\<lambda>c. name_of_module s c = name) (mr_children (row s m))"

subsection \<open>The tree\<close>

definition child_path :: "string \<Rightarrow> string \<Rightarrow> string" where
  "child_path base name = (if base = [] then name else base @ ''::'' @ name)"

definition add_child :: "nat \<Rightarrow> string \<Rightarrow> file_id \<Rightarrow> item list \<Rightarrow> path \<Rightarrow> resolver \<Rightarrow> nat \<times> resolver" where
  "add_child m name fid items dir s =
     (let (c, s1) = add_module (child_path (mr_path (row s m)) name) fid items (Some m) dir s
      in (c, set_row m (\<lambda>r. r\<lparr>mr_children := mr_children r @ [c]\<rparr>) s1))"

text \<open>The file of \<^verbatim>\<open>mod name;\<close>: \<^verbatim>\<open>name.al\<close>, else \<^verbatim>\<open>name/mod.al\<close>, in the directory of the module.\<close>

definition find_module_file :: "bool \<Rightarrow> path \<Rightarrow> string \<Rightarrow> resolver \<Rightarrow> nat option" where
  "find_module_file win dir name s =
     (case find_file_by_path s (join win dir (name @ ''.al'')) of
        Some i \<Rightarrow> Some i
      | None \<Rightarrow> find_file_by_path s (join win dir (name @ ''/mod.al'')))"

text \<open>One \<open>mod\<close> item: the state, the names declared so far and the worklist, its top first.\<close>

definition declare_module ::
  "bool \<Rightarrow> nat \<Rightarrow> span \<Rightarrow> string \<Rightarrow> item list \<Rightarrow> bool \<Rightarrow>
     resolver \<times> string list \<times> nat list \<Rightarrow> resolver \<times> string list \<times> nat list" where
  "declare_module win m sp name items inline st =
     (case st of (s, declared, work) \<Rightarrow>
        if has_name declared name then
          (report_at kAnalyzerDuplicateModule sp
             (quoted ''module '' name '' is declared more than once'') s, declared, work)
        else let declared' = declared @ [name]; dir = mr_dir (row s m) in
        if inline then
          (case add_child m name kUnknownFile items dir s of (c, s') \<Rightarrow> (s', declared', c # work))
        else case find_module_file win dir name s of
            None \<Rightarrow> (report_at kAnalyzerMissingModuleFile sp (quoted ''module '' name '' has no file'') s,
                     declared', work)
          | Some i \<Rightarrow>
             (case add_child m name (fd_id (rs_files s ! i)) (fd_items (rs_files s ! i)) (join win dir name) s of
                (c, s') \<Rightarrow>
                  (s'\<lparr>rs_files := (rs_files s')[i := (rs_files s' ! i)\<lparr>fd_module := Some c\<rparr>]\<rparr>,
                   declared', c # work)))"

definition build_child ::
  "bool \<Rightarrow> nat \<Rightarrow> item \<Rightarrow> resolver \<times> string list \<times> nat list \<Rightarrow> resolver \<times> string list \<times> nat list" where
  "build_child win m it st =
     (case it of
        ModItem sp pub name items inline \<Rightarrow> declare_module win m sp (id_name name) items inline st
      | _ \<Rightarrow> st)"

definition build_children :: "bool \<Rightarrow> nat \<Rightarrow> resolver \<Rightarrow> nat list \<Rightarrow> resolver \<times> nat list" where
  "build_children win m s work =
     (case foldl (\<lambda>st it. build_child win m it st) (s, [], work) (mr_items (row s m)) of
        (s', declared, work') \<Rightarrow> (s', work'))"

partial_function (option) build_loop :: "bool \<Rightarrow> resolver \<Rightarrow> nat list \<Rightarrow> resolver option" where
  "build_loop win s work =
     (case work of
        [] \<Rightarrow> Some s
      | m # work' \<Rightarrow> (case build_children win m s work' of (s', work'') \<Rightarrow> build_loop win s' work''))"

declare build_loop.simps [code]

definition warn_unreachable :: "file_data \<Rightarrow> diag_bag \<Rightarrow> diag_bag" where
  "warn_unreachable f bag =
     (if fd_module f = None then
        emit SevWarning kAnalyzerUnreachableFile
          (quoted ''source file '' (as_view (fd_path f)) '' is not reachable from the package root'') bag
      else bag)"

text \<open>The last file of that id: the search does not stop at the first.\<close>

definition find_root_file :: "file_id \<Rightarrow> resolver \<Rightarrow> nat option" where
  "find_root_file root s =
     map_option (\<lambda>i. length (rs_files s) - 1 - i) (first_index (\<lambda>f. fd_id f = root) (rev (rs_files s)))"

definition plant_root :: "file_id \<Rightarrow> nat \<Rightarrow> resolver \<Rightarrow> nat \<times> resolver" where
  "plant_root root i s =
     (case add_module [] root (fd_items (rs_files s ! i)) None (fd_dir (rs_files s ! i)) s of
        (m, s') \<Rightarrow> (m, s'\<lparr>rs_files := (rs_files s')[i := (rs_files s' ! i)\<lparr>fd_module := Some m\<rparr>]\<rparr>))"

definition build_tree :: "bool \<Rightarrow> file_id \<Rightarrow> resolver \<Rightarrow> (stop + resolver) option" where
  "build_tree win root s =
     (case find_root_file root s of
        None \<Rightarrow> Some (Inl Outside)
      | Some i \<Rightarrow>
         (case plant_root root i s of (m, s1) \<Rightarrow>
            (case build_loop win s1 [m] of
               None \<Rightarrow> None
             | Some s2 \<Rightarrow> Some (Inr (s2\<lparr>rs_bag := fold warn_unreachable (rs_files s2) (rs_bag s2)\<rparr>)))))"

subsection \<open>Names of a module\<close>

definition local_type_names :: "item \<Rightarrow> string list" where
  "local_type_names it =
     (case it of StructItem sp pub name fs \<Rightarrow> [id_name name] | EnumItem sp pub name vs \<Rightarrow> [id_name name]
      | _ \<Rightarrow> [])"

definition local_value_names :: "item \<Rightarrow> string list" where
  "local_value_names it =
     (case it of StructItem sp pub name fs \<Rightarrow> [id_name name] | EnumItem sp pub name vs \<Rightarrow> [id_name name]
      | FnItem f \<Rightarrow> [id_name (fn_name f)] | StaticItem sp pub name ty e \<Rightarrow> [id_name name]
      | ConstItem sp pub name ty e \<Rightarrow> [id_name name] | _ \<Rightarrow> [])"

definition collect_row :: "resolver \<Rightarrow> module_row \<Rightarrow> module_row" where
  "collect_row s r = r\<lparr>mr_types := mr_types r @ concat (map local_type_names (mr_items r)),
     mr_values := mr_values r @ concat (map local_value_names (mr_items r)),
     mr_modules := mr_modules r @ map (name_of_module s) (mr_children r)\<rparr>"

definition collect_locals :: "resolver \<Rightarrow> resolver" where
  "collect_locals s = s\<lparr>rs_rows := map (collect_row s) (rs_rows s)\<rparr>"

definition locals_of :: "namespace \<Rightarrow> module_row \<Rightarrow> string list" where
  "locals_of ns r = (case ns of NsType \<Rightarrow> mr_types r | NsValue \<Rightarrow> mr_values r | NsModule \<Rightarrow> mr_modules r)"

subsection \<open>Imports\<close>

definition add_import ::
  "nat \<Rightarrow> span \<Rightarrow> bool \<Rightarrow> string \<Rightarrow> namespace \<Rightarrow> nat \<Rightarrow> string \<Rightarrow> resolver \<Rightarrow> resolver" where
  "add_import m sp pub name ns target member s =
     (if has_name (locals_of ns (row s m)) name then
        report_at kAnalyzerAmbiguousImport sp (''`'' @ name @ ''` conflicts with a local item'') s
      else if \<exists>prior \<in> set (mr_imports (row s m)). im_ns prior = ns \<and> im_name prior = name then
        report_at kAnalyzerAmbiguousImport sp (''`'' @ name @ ''` is imported more than once'') s
      else set_row m (\<lambda>r. r\<lparr>mr_imports := mr_imports r @
        [\<lparr>im_name = name, im_ns = ns, im_target = target, im_member = member, im_pub = pub\<rparr>]\<rparr>) s)"

definition lookup_local :: "nat \<Rightarrow> string \<Rightarrow> namespace \<Rightarrow> resolver \<Rightarrow> bool" where
  "lookup_local m member ns s = has_name (locals_of ns (row s m)) member"

definition lookup_reexport :: "nat \<Rightarrow> string \<Rightarrow> namespace \<Rightarrow> resolver \<Rightarrow> (nat \<times> string) option" where
  "lookup_reexport m member ns s =
     map_option (\<lambda>i. (im_target i, im_member i))
       (find (\<lambda>i. im_pub i \<and> im_ns i = ns \<and> im_name i = member) (mr_imports (row s m)))"

text \<open>The module that the first segment of a path names, or the message of the error.\<close>

definition path_head :: "string \<Rightarrow> nat \<Rightarrow> string \<Rightarrow> resolver \<Rightarrow> string + nat" where
  "path_head package m seg s =
     (if seg = ''package'' \<or> seg = package then
        Inr (case first_index (\<lambda>r. mr_path r = []) (rs_rows s) of None \<Rightarrow> 0 | Some i \<Rightarrow> i)
      else if seg = ''self'' then Inr m
      else if seg = ''super'' then
        (case mr_parent (row s m) of
           None \<Rightarrow> Inl ''the root module has no parent'' | Some up \<Rightarrow> Inr up)
      else case find_child_module s m seg of
          None \<Rightarrow> Inl (quoted ''unresolved import '' seg []) | Some c \<Rightarrow> Inr c)"

fun path_walk :: "nat \<Rightarrow> string list \<Rightarrow> resolver \<Rightarrow> string + nat" where
  "path_walk m [] s = Inr m"
| "path_walk m (seg # segs) s =
     (case find_child_module s m seg of
        None \<Rightarrow> Inl (quoted ''unresolved import '' seg []) | Some c \<Rightarrow> path_walk c segs s)"

definition path_module :: "string \<Rightarrow> nat \<Rightarrow> string list \<Rightarrow> resolver \<Rightarrow> string + nat" where
  "path_module package m segs s =
     (case path_head package m (hd segs) s of
        Inl message \<Rightarrow> Inl message | Inr c \<Rightarrow> path_walk c (butlast (tl segs)) s)"

definition kNamespaces :: "namespace list" where
  "kNamespaces = [NsModule, NsType, NsValue]"

definition import_locals ::
  "nat \<Rightarrow> span \<Rightarrow> bool \<Rightarrow> string \<Rightarrow> nat \<Rightarrow> string \<Rightarrow> resolver \<Rightarrow> bool \<times> resolver" where
  "import_locals m sp pub name c member s =
     foldl (\<lambda>(resolved, s) ns.
       if lookup_local c member ns s then (True, add_import m sp pub name ns c member s)
       else (resolved, s)) (False, s) kNamespaces"

definition import_reexports ::
  "nat \<Rightarrow> span \<Rightarrow> bool \<Rightarrow> string \<Rightarrow> nat \<Rightarrow> string \<Rightarrow> resolver \<Rightarrow> bool \<times> resolver" where
  "import_reexports m sp pub name c member s =
     foldl (\<lambda>(resolved, s) ns.
       case lookup_reexport c member ns s of
         Some (target, final_member) \<Rightarrow> (True, add_import m sp pub name ns target final_member s)
       | None \<Rightarrow> (resolved, s)) (False, s) kNamespaces"

definition import_member ::
  "(nat \<Rightarrow> resolver \<Rightarrow> stop + resolver) \<Rightarrow> nat \<Rightarrow> span \<Rightarrow> bool \<Rightarrow> string \<Rightarrow> nat \<Rightarrow> string \<Rightarrow>
     resolver \<Rightarrow> stop + resolver" where
  "import_member exports m sp pub name c member s =
     (case import_locals m sp pub name c member s of
        (True, s1) \<Rightarrow> Inr s1
      | (False, s1) \<Rightarrow>
         (case (if c \<noteq> m then exports c s1 else Inr s1) of
            Inl e \<Rightarrow> Inl e
          | Inr s2 \<Rightarrow>
             (case import_reexports m sp pub name c member s2 of
                (True, s3) \<Rightarrow> Inr s3
              | (False, s3) \<Rightarrow>
                  Inr (report_at kAnalyzerUnresolvedImport sp (quoted ''unresolved import '' member []) s3))))"

definition resolve_use ::
  "(nat \<Rightarrow> resolver \<Rightarrow> stop + resolver) \<Rightarrow> string \<Rightarrow> nat \<Rightarrow> span \<Rightarrow> bool \<Rightarrow> ast_path \<Rightarrow> bool \<Rightarrow> ident \<Rightarrow>
     resolver \<Rightarrow> stop + resolver" where
  "resolve_use exports package m sp pub p has_alias alias s =
     (let segs = map id_name (path_segments p)
      in if length segs < 2 then
           Inr (report_at kAnalyzerUnresolvedImport sp
             ''imports must be module-qualified (`self::foo`)'' s)
         else case path_module package m segs s of
             Inl message \<Rightarrow> Inr (report_at kAnalyzerUnresolvedImport sp message s)
           | Inr c \<Rightarrow> import_member exports m sp pub (if has_alias then id_name alias else last segs)
                        c (last segs) s)"

text \<open>The uses of one visibility, in order.\<close>

fun resolve_uses ::
  "(nat \<Rightarrow> resolver \<Rightarrow> stop + resolver) \<Rightarrow> string \<Rightarrow> nat \<Rightarrow> bool \<Rightarrow> item list \<Rightarrow> resolver \<Rightarrow> stop + resolver" where
  "resolve_uses exports package m which [] s = Inr s"
| "resolve_uses exports package m which (it # its) s =
     (case (case it of
              UseItem sp pub p has_alias alias \<Rightarrow>
                if pub = which then resolve_use exports package m sp pub p has_alias alias s else Inr s
            | _ \<Rightarrow> Inr s) of
        Inl e \<Rightarrow> Inl e | Inr s' \<Rightarrow> resolve_uses exports package m which its s')"

fun item_span :: "item \<Rightarrow> span" where
  "item_span (FnItem f) = fn_span f"
| "item_span (StructItem sp pub name fs) = sp"
| "item_span (EnumItem sp pub name vs) = sp"
| "item_span (ImplItem sp pub ty fs) = sp"
| "item_span (ModItem sp pub name its inline) = sp"
| "item_span (StaticItem sp pub name ty e) = sp"
| "item_span (ConstItem sp pub name ty e) = sp"
| "item_span (UseItem sp pub p has_alias alias) = sp"

definition set_state :: "nat \<Rightarrow> u8 \<Rightarrow> resolver \<Rightarrow> resolver" where
  "set_state m st s = set_row m (\<lambda>r. r\<lparr>mr_state := st\<rparr>) s"

text \<open>The recursion nests at most once per module; the fuel bounds its depth.\<close>

fun resolve_exports :: "nat \<Rightarrow> string \<Rightarrow> nat \<Rightarrow> resolver \<Rightarrow> stop + resolver" where
  "resolve_exports 0 package m s = Inl Out_Of_Fuel"
| "resolve_exports (Suc n) package m s =
     (if mr_state (row s m) = 2 then Inr s
      else if mr_state (row s m) = 1 then
        Inr (set_state m 2 (report_at kAnalyzerUnresolvedImport
          (case mr_items (row s m) of [] \<Rightarrow> empty_span | it # its \<Rightarrow> item_span it)
          ''dependency cycle in re-exports'' s))
      else
        (case resolve_uses (resolve_exports n package) package m True (mr_items (row s m)) (set_state m 1 s) of
           Inl e \<Rightarrow> Inl e
         | Inr s1 \<Rightarrow>
            (case resolve_uses (resolve_exports n package) package m False (mr_items (row s1 m)) s1 of
               Inl e \<Rightarrow> Inl e
             | Inr s2 \<Rightarrow> Inr (set_state m 2 s2))))"

fun resolve_all :: "nat \<Rightarrow> string \<Rightarrow> nat list \<Rightarrow> resolver \<Rightarrow> stop + resolver" where
  "resolve_all n package [] s = Inr s"
| "resolve_all n package (m # ms) s =
     (case resolve_exports n package m s of Inl e \<Rightarrow> Inl e | Inr s' \<Rightarrow> resolve_all n package ms s')"

subsection \<open>The whole pass\<close>

definition node_of :: "module_row \<Rightarrow> module_node" where
  "node_of r = \<lparr>mn_path = mr_path r, mn_file = mr_file r, mn_items = mr_items r,
     mn_children = mr_children r, mn_imports = mr_imports r\<rparr>"

definition tree_of :: "resolver \<Rightarrow> module_tree" where
  "tree_of s = \<lparr>tree_modules = map node_of (rs_rows s),
     tree_root = (case first_index (\<lambda>r. mr_path r = []) (rs_rows s) of None \<Rightarrow> 0 | Some i \<Rightarrow> i)\<rparr>"

definition resolve_imports :: "string \<Rightarrow> resolver \<Rightarrow> stop + resolver" where
  "resolve_imports package s =
     resolve_all (Suc (length (rs_rows s))) package [0..<length (rs_rows s)] (collect_locals s)"

text \<open>Everything behind parsing.\<close>

definition resolve_files ::
  "bool \<Rightarrow> file_id \<Rightarrow> string \<Rightarrow> file_data list \<Rightarrow> diag_bag \<Rightarrow> (stop + module_tree \<times> diag_bag) option" where
  "resolve_files win root package files bag =
     (case build_tree win root \<lparr>rs_files = files, rs_rows = [], rs_bag = bag\<rparr> of
        None \<Rightarrow> None
      | Some (Inl e) \<Rightarrow> Some (Inl e)
      | Some (Inr s) \<Rightarrow>
         (case resolve_imports package s of
            Inl e \<Rightarrow> Some (Inl e) | Inr s' \<Rightarrow> Some (Inr (tree_of s', rs_bag s'))))"

definition open_file :: "bool \<Rightarrow> source_manager \<Rightarrow> file_id \<Rightarrow> file_data list \<times> diag_bag \<Rightarrow>
    file_data list \<times> diag_bag" where
  "open_file win sm fid st =
     (case from_native win (name_of sm fid) of
        Inl e \<Rightarrow> (fst st, emit SevError kAnalyzerInvalidPath ''invalid source path for file'' (snd st))
      | Inr p \<Rightarrow> (fst st @ [\<lparr>fd_id = fid, fd_dir = parent p, fd_path = p, fd_items = [], fd_module = None\<rparr>],
                  snd st))"

definition lex_parse_file :: "source_manager \<Rightarrow> file_data \<Rightarrow> diag_bag \<Rightarrow> stop + file_data \<times> diag_bag" where
  "lex_parse_file sm f bag =
     (case parse_source (bytes_of sm (fd_id f)) (fd_id f) bag of
        Inl e \<Rightarrow> Inl e
      | Inr (items, bag1) \<Rightarrow>
          (case desugar_shadowing items bag1 of (items', bag2) \<Rightarrow> Inr (f\<lparr>fd_items := items'\<rparr>, bag2)))"

fun lex_parse_files :: "source_manager \<Rightarrow> file_data list \<Rightarrow> diag_bag \<Rightarrow> stop + file_data list \<times> diag_bag" where
  "lex_parse_files sm [] bag = Inr ([], bag)"
| "lex_parse_files sm (f # fs) bag =
     (case lex_parse_file sm f bag of
        Inl e \<Rightarrow> Inl e
      | Inr (f', bag1) \<Rightarrow>
          (case lex_parse_files sm fs bag1 of
             Inl e \<Rightarrow> Inl e | Inr (fs', bag2) \<Rightarrow> Inr (f' # fs', bag2)))"

definition resolve_modules ::
  "bool \<Rightarrow> source_manager \<Rightarrow> file_id \<Rightarrow> file_id list \<Rightarrow> string \<Rightarrow> diag_bag \<Rightarrow>
     (stop + module_tree \<times> diag_bag) option" where
  "resolve_modules win sm root ids package bag =
     (case fold (open_file win sm) ids ([], bag) of (opened, bag1) \<Rightarrow>
        (case lex_parse_files sm opened bag1 of
           Inl e \<Rightarrow> Some (Inl e)
         | Inr (files, bag2) \<Rightarrow> resolve_files win root package files bag2))"

end
