(* ===== verification/Module_Tree.thy ===== *)
theory Module_Tree
  imports Module_Resolve "HOL-Library.Multiset"
begin

text \<open>
  The tree that \<open>build_tree\<close> grows: it terminates, its links are consistent, and its modules
  are exactly the ones the \<open>mod\<close> items declare (\<open>declares\<close>, a relation that mentions no
  table and no worklist).
\<close>

subsection \<open>Tables\<close>

abbreviation modules_of :: "resolver \<Rightarrow> nat" where
  "modules_of s \<equiv> length (rs_rows s)"

named_theorems table "how the operations change the table of modules"

lemma report_at_simps [simp, table]:
  "rs_rows (report_at code sp msg s) = rs_rows s" "rs_files (report_at code sp msg s) = rs_files s"
  "row (report_at code sp msg s) m = row s m"
  "entries (rs_bag (report_at code sp msg s)) = entries (rs_bag s) @ [mk_diag SevError code (Some sp) msg]"
  by (simp_all add: report_at_def row_def)

lemma set_row_simps [simp, table]:
  "modules_of (set_row m f s) = modules_of s" "rs_files (set_row m f s) = rs_files s"
  "rs_bag (set_row m f s) = rs_bag s"
  by (simp_all add: set_row_def)

lemma row_set_row: "k < modules_of s \<Longrightarrow> row (set_row m f s) k = (if k = m then f (row s m) else row s k)"
  by (simp add: row_def set_row_def)

lemma first_index_Some: "first_index P xs = Some i \<Longrightarrow> i < length xs \<and> P (xs ! i) \<and> find P xs = Some (xs ! i)"
  by (induction xs arbitrary: i) (auto split: if_splits)

lemma first_index_None: "first_index P xs = None \<longleftrightarrow> find P xs = None"
  by (induction xs) auto

definition new_row :: "string \<Rightarrow> file_id \<Rightarrow> item list \<Rightarrow> nat option \<Rightarrow> path \<Rightarrow> module_row" where
  "new_row mpath fid items up dir = \<lparr>mr_path = mpath, mr_file = fid, mr_items = items, mr_parent = up,
     mr_dir = dir, mr_types = [], mr_values = [], mr_modules = [], mr_imports = [], mr_children = [],
     mr_state = 0\<rparr>"

lemma new_row_simps [simp]:
  "mr_path (new_row p f its up d) = p" "mr_file (new_row p f its up d) = f"
  "mr_items (new_row p f its up d) = its" "mr_parent (new_row p f its up d) = up"
  "mr_dir (new_row p f its up d) = d" "mr_children (new_row p f its up d) = []"
  "mr_state (new_row p f its up d) = 0" "mr_imports (new_row p f its up d) = []"
  "mr_types (new_row p f its up d) = []" "mr_values (new_row p f its up d) = []"
  "mr_modules (new_row p f its up d) = []"
  by (simp_all add: new_row_def)

lemma add_child_rows:
  assumes "add_child m name fid items dir s = (c, s')" and "m < modules_of s"
  shows "c = modules_of s" "modules_of s' = Suc (modules_of s)" "rs_files s' = rs_files s" "rs_bag s' = rs_bag s"
    "k \<le> modules_of s \<Longrightarrow> row s' k =
       (if k = m then (row s m)\<lparr>mr_children := mr_children (row s m) @ [modules_of s]\<rparr>
        else if k = modules_of s then new_row (child_path (mr_path (row s m)) name) fid items (Some m) dir
        else row s k)"
  using assms by (auto simp: add_child_def add_module_def row_def set_row_def nth_append new_row_def)

lemma child_path_inject: "child_path p n = child_path p k \<Longrightarrow> n = k"
  by (auto simp: child_path_def split: if_splits)

subsection \<open>Names that the parser gives to modules\<close>

definition module_ident :: "string \<Rightarrow> bool" where
  "module_ident n \<longleftrightarrow> simple_name n \<and> CHR '':'' \<notin> set n"

fun named_modules :: "item \<Rightarrow> bool" where
  "named_modules (ModItem sp pub name its inline) \<longleftrightarrow> module_ident (id_name name) \<and> list_all named_modules its"
| "named_modules it \<longleftrightarrow> True"

definition files_ok :: "file_data list \<Rightarrow> bool" where
  "files_ok fs \<longleftrightarrow> distinct (map fd_id fs) \<and> kUnknownFile \<notin> fd_id ` set fs \<and> (\<forall>f \<in> set fs. canonical (fd_dir f) \<and> canonical (fd_path f) \<and> list_all named_modules (fd_items f))"

lemma simple_name_suffix: "simple_name n \<Longrightarrow> simple_name (n @ ''.al'')"
  by (auto simp: simple_name_def valid_name_def kWindowsPathSeparator_def)

definition depth :: "path \<Rightarrow> nat" where
  "depth p = length (c_names (canon_of (as_view p)))"

lemma depth_join: "canonical p \<Longrightarrow> simple_name n \<Longrightarrow> depth (join win p n) = Suc (depth p)"
  using canon_of_join_name [of p n win]
  by (cases "canon_of (as_view p)") (auto simp: depth_def simple_name_def)

lemma depth_join_mod: "canonical p \<Longrightarrow> simple_name n \<Longrightarrow> depth (join win p (n @ ''/mod.al'')) = Suc (Suc (depth p))"
proof -
  assume p: "canonical p" "simple_name n"
  have "join win p (n @ ''/mod.al'') = join win (join win p n) ''mod.al''"
    using join_join [OF p(1), of win n "''mod.al''"] by simp
  moreover have "simple_name ''mod.al''" by (simp add: simple_name_def valid_name_def kWindowsPathSeparator_def)
  ultimately show ?thesis using p depth_join canonical_join by metis
qed

subsection \<open>What is declared\<close>

text \<open>A module: its path, the file it stands in, its items, and the directory of its children.\<close>

type_synonym module_key = "string \<times> file_id \<times> item list \<times> path"

definition module_file :: "bool \<Rightarrow> file_data list \<Rightarrow> path \<Rightarrow> string \<Rightarrow> file_data option" where
  "module_file win fs dir n =
     (case find (\<lambda>f. fd_path f = join win dir (n @ ''.al'')) fs of
        Some f \<Rightarrow> Some f | None \<Rightarrow> find (\<lambda>f. fd_path f = join win dir (n @ ''/mod.al'')) fs)"

inductive child_key :: "bool \<Rightarrow> file_data list \<Rightarrow> module_key \<Rightarrow> item \<Rightarrow> module_key \<Rightarrow> bool" for win fs where
  child_inline: "child_key win fs (p, f, its, dir) (ModItem sp pub name sub True)
    (child_path p (id_name name), kUnknownFile, sub, dir)"
| child_file: "module_file win fs dir (id_name name) = Some g \<Longrightarrow>
    child_key win fs (p, f, its, dir) (ModItem sp pub name sub False)
      (child_path p (id_name name), fd_id g, fd_items g, join win dir (id_name name))"

inductive declares :: "bool \<Rightarrow> file_data list \<Rightarrow> file_data \<Rightarrow> module_key \<Rightarrow> bool" for win fs root where
  declares_root: "declares win fs root ([], fd_id root, fd_items root, fd_dir root)"
| declares_child: "declares win fs root (p, f, its, dir) \<Longrightarrow> it \<in> set its \<Longrightarrow>
    child_key win fs (p, f, its, dir) it key \<Longrightarrow> declares win fs root key"

definition key_of :: "module_row \<Rightarrow> module_key" where
  "key_of r = (mr_path r, mr_file r, mr_items r, mr_dir r)"

lemma key_of_children [simp]: "key_of (r\<lparr>mr_children := cs\<rparr>) = key_of r"
  by (simp add: key_of_def)

lemma key_of_new_row [simp]: "key_of (new_row p f its up d) = (p, f, its, d)"
  by (simp add: key_of_def)

subsection \<open>The invariant of the table\<close>

definition hangs_on :: "resolver \<Rightarrow> nat \<Rightarrow> nat \<Rightarrow> bool" where
  "hangs_on s c p \<longleftrightarrow> mr_parent (row s c) = Some p \<and> p < c \<and> c \<in> set (mr_children (row s p)) \<and>
     (\<exists>n. mr_path (row s c) = child_path (mr_path (row s p)) n \<and> module_ident n)"

definition is_root :: "resolver \<Rightarrow> nat \<Rightarrow> bool" where
  "is_root s c \<longleftrightarrow> c = 0 \<and> mr_parent (row s c) = None \<and> mr_path (row s c) = []"

definition child_links :: "resolver \<Rightarrow> nat \<Rightarrow> bool" where
  "child_links s m \<longleftrightarrow> (\<forall>c \<in> set (mr_children (row s m)). m < c \<and> c < modules_of s \<and> mr_parent (row s c) = Some m) \<and>
     distinct (map (\<lambda>c. mr_path (row s c)) (mr_children (row s m)))"

definition linked :: "resolver \<Rightarrow> bool" where
  "linked s \<longleftrightarrow> (\<forall>c < modules_of s. (is_root s c \<or> (\<exists>p. hangs_on s c p)) \<and> child_links s c)"

lemma linked_child_in:
  "linked s \<Longrightarrow> k < modules_of s \<Longrightarrow> d \<in> set (mr_children (row s k)) \<Longrightarrow>
     k < d \<and> d < modules_of s \<and> mr_parent (row s d) = Some k"
  unfolding linked_def child_links_def by blast

lemma linked_siblings:
  "linked s \<Longrightarrow> k < modules_of s \<Longrightarrow> distinct (map (\<lambda>c. mr_path (row s c)) (mr_children (row s k)))"
  unfolding linked_def child_links_def by blast

text \<open>Nothing but the tree is filled in yet.\<close>

definition blank_row :: "module_row \<Rightarrow> bool" where
  "blank_row r \<longleftrightarrow> mr_state r = 0 \<and> mr_imports r = [] \<and> mr_types r = [] \<and> mr_values r = [] \<and> mr_modules r = []"

lemma blank_row_simps [simp]:
  "blank_row (r\<lparr>mr_children := cs\<rparr>) = blank_row r" "blank_row (new_row p f its up d)"
  by (simp_all add: blank_row_def)

text \<open>The files as they were read; only the module they belong to changes.\<close>

definition unowned :: "file_data \<Rightarrow> file_data" where
  "unowned f = f\<lparr>fd_module := None\<rparr>"

definition same_files :: "file_data list \<Rightarrow> resolver \<Rightarrow> bool" where
  "same_files fs s \<longleftrightarrow> map unowned (rs_files s) = map unowned fs"

definition sound_rows :: "bool \<Rightarrow> file_data list \<Rightarrow> file_data \<Rightarrow> resolver \<Rightarrow> bool" where
  "sound_rows win fs root s \<longleftrightarrow>
     (\<forall>m < modules_of s. declares win fs root (key_of (row s m)) \<and> canonical (mr_dir (row s m)) \<and>
        list_all named_modules (mr_items (row s m)) \<and> blank_row (row s m))"

lemma find_unowned:
  assumes "map unowned xs = map unowned ys" and "\<And>f. P (unowned f) = P f"
  shows "map_option unowned (find P xs) = map_option unowned (find P ys)"
  using assms(1)
proof (induction xs arbitrary: ys)
  case (Cons x xs)
  then obtain y ys' where "ys = y # ys'" "unowned x = unowned y" "map unowned xs = map unowned ys'"
    by (cases ys) auto
  then show ?case using Cons.IH assms(2) by (metis find.simps(2) option.map(2))
qed simp

lemma unowned_simps [simp]:
  "fd_path (unowned f) = fd_path f" "fd_id (unowned f) = fd_id f" "fd_items (unowned f) = fd_items f"
  "fd_dir (unowned f) = fd_dir f"
  by (simp_all add: unowned_def)

lemma unowned_eqD: "unowned f = unowned g \<Longrightarrow> fd_path f = fd_path g \<and> fd_id f = fd_id g \<and> fd_items f = fd_items g \<and> fd_dir f = fd_dir g"
  by (metis unowned_simps)

text \<open>The lookup in the table of files finds the file that the declaration names.\<close>

lemma find_module_file_spec:
  assumes "same_files fs s"
  shows "case find_module_file win dir n s of
      None \<Rightarrow> module_file win fs dir n = None
    | Some i \<Rightarrow> i < length (rs_files s) \<and> (\<exists>g. module_file win fs dir n = Some g \<and> unowned (rs_files s ! i) = unowned g)"
proof -
  have P: "map_option unowned (find (\<lambda>f. fd_path f = q) (rs_files s)) = map_option unowned (find (\<lambda>f. fd_path f = q) fs)" for q
    using find_unowned [of "rs_files s" fs "\<lambda>f. fd_path f = q"] assms by (simp add: same_files_def)
  have none: "first_index (\<lambda>f. fd_path f = q) (rs_files s) = None \<longleftrightarrow> find (\<lambda>f. fd_path f = q) fs = None" for q
    using P [of q] by (metis first_index_None option.map_disc_iff)
  have some: "i < length (rs_files s) \<and> (\<exists>g. find (\<lambda>f. fd_path f = q) fs = Some g \<and> unowned (rs_files s ! i) = unowned g)"
    if "first_index (\<lambda>f. fd_path f = q) (rs_files s) = Some i" for q i
    using P [of q] first_index_Some [OF that] by (metis map_option_eq_Some option.map(2))
  let ?a = "join win dir (n @ ''.al'')" and ?b = "join win dir (n @ ''/mod.al'')"
  show ?thesis
  proof (cases "first_index (\<lambda>f. fd_path f = ?a) (rs_files s)")
    case None
    then have a: "find (\<lambda>f. fd_path f = ?a) fs = None" by (simp only: none)
    show ?thesis
    proof (cases "first_index (\<lambda>f. fd_path f = ?b) (rs_files s)")
      case None2: None
      then have "find (\<lambda>f. fd_path f = ?b) fs = None" by (simp only: none)
      then show ?thesis
        using a None None2 by (simp add: find_module_file_def module_file_def find_file_by_path_def)
    next
      case (Some i)
      from some [OF this] show ?thesis
        using a None Some by (auto simp: find_module_file_def module_file_def find_file_by_path_def)
    qed
  next
    case (Some i)
    from some [OF this] show ?thesis
      using Some by (auto simp: find_module_file_def module_file_def find_file_by_path_def)
  qed
qed

lemma module_file_in: "module_file win fs dir n = Some g \<Longrightarrow> g \<in> set fs \<and>
    (fd_path g = join win dir (n @ ''.al'') \<or> fd_path g = join win dir (n @ ''/mod.al''))"
  by (auto simp: module_file_def find_Some_iff split: option.splits)

lemma linked_child:
  assumes l: "linked s" and m: "m < modules_of s" and n: "module_ident n"
    and new: "\<forall>c \<in> set (mr_children (row s m)). mr_path (row s c) \<noteq> child_path (mr_path (row s m)) n"
    and a: "add_child m n fid its dir s = (c, s')"
  shows "linked s'"
proof -
  note R = add_child_rows [OF a m]
  have links: "child_links s k" if "k < modules_of s" for k using l that by (simp add: linked_def)
  have up: "\<forall>c \<in> set (mr_children (row s k)). k < c \<and> c < modules_of s \<and> mr_parent (row s c) = Some k" if "k < modules_of s" for k
    using links [OF that] by (simp add: child_links_def)
  have old: "mr_path (row s' k) = mr_path (row s k)" "mr_parent (row s' k) = mr_parent (row s k)"
    "mr_children (row s' k) = mr_children (row s k) @ (if k = m then [modules_of s] else [])" if "k < modules_of s" for k
    using R(5) [of k] that by simp_all
  have fresh: "row s' (modules_of s) = new_row (child_path (mr_path (row s m)) n) fid its (Some m) dir"
    using R(5) [of "modules_of s"] m by simp
  have root: "is_root s' k" if "is_root s k" "k < modules_of s" for k
    using that(1) unfolding is_root_def old [OF that(2)] .
  have hang: "hangs_on s' k p" if h: "hangs_on s k p" and k: "k < modules_of s" for k p
  proof -
    have p: "p < modules_of s" using h k by (simp add: hangs_on_def)
    show ?thesis using h unfolding hangs_on_def old [OF k] old [OF p] by auto
  qed
  have hang_new: "hangs_on s' (modules_of s) m"
    using m n old [OF m] fresh by (auto simp: hangs_on_def)
  have old_links: "child_links s' k" if k: "k < modules_of s" for k
  proof -
    have paths: "map (\<lambda>d. mr_path (row s' d)) (mr_children (row s k)) = map (\<lambda>d. mr_path (row s d)) (mr_children (row s k))"
      using up [OF k] old(1) by auto
    have new_path: "mr_path (row s' (modules_of s)) \<notin> (\<lambda>d. mr_path (row s d)) ` set (mr_children (row s m))"
      using new fresh by auto
    have d: "distinct (map (\<lambda>d. mr_path (row s d)) (mr_children (row s k)))"
      using links [OF k] by (simp add: child_links_def)
    show ?thesis
    proof (cases "k = m")
      case True
      have "distinct (map (\<lambda>d. mr_path (row s' d)) (mr_children (row s' k)))"
        using d new_path True unfolding old(3) [OF k] map_append paths by simp
      moreover have "\<forall>c \<in> set (mr_children (row s' k)). k < c \<and> c < modules_of s' \<and> mr_parent (row s' c) = Some k"
        using up [OF k] old(2) fresh R(2) True m unfolding old(3) [OF k] by auto
      ultimately show ?thesis by (simp add: child_links_def)
    next
      case False
      have "distinct (map (\<lambda>d. mr_path (row s' d)) (mr_children (row s' k)))"
        using d False unfolding old(3) [OF k] map_append paths by simp
      moreover have "\<forall>c \<in> set (mr_children (row s' k)). k < c \<and> c < modules_of s' \<and> mr_parent (row s' c) = Some k"
        using up [OF k] old(2) R(2) False unfolding old(3) [OF k] by auto
      ultimately show ?thesis by (simp add: child_links_def)
    qed
  qed
  have "(is_root s' k \<or> (\<exists>p. hangs_on s' k p)) \<and> child_links s' k" if "k < modules_of s'" for k
  proof (cases "k = modules_of s")
    case True
    then show ?thesis using hang_new fresh by (auto simp: child_links_def)
  next
    case False
    then have k: "k < modules_of s" using that R(2) by simp
    have "is_root s k \<or> (\<exists>p. hangs_on s k p)" using l k by (simp add: linked_def)
    then show ?thesis using k root hang old_links by blast
  qed
  then show ?thesis by (simp add: linked_def)
qed

subsection \<open>What a run keeps\<close>

text \<open>A file has no module exactly when no module stands in it.\<close>

definition owners :: "resolver \<Rightarrow> bool" where
  "owners s \<longleftrightarrow> (\<forall>f \<in> set (rs_files s). fd_module f = None \<longleftrightarrow>
     (\<forall>m < modules_of s. mr_file (row s m) \<noteq> fd_id f))"

definition grown :: "bool \<Rightarrow> file_data list \<Rightarrow> file_data \<Rightarrow> diag_bag \<Rightarrow> resolver \<Rightarrow> bool" where
  "grown win fs root bag s \<longleftrightarrow> same_files fs s \<and> sound_rows win fs root s \<and> linked s \<and> owners s \<and>
     (\<exists>new. entries (rs_bag s) = entries bag @ new \<and> list_all is_error new)"

lemma is_error_mk_diag [simp]: "is_error (mk_diag sev code sp msg) \<longleftrightarrow> sev = SevError"
  by (simp add: is_error_def mk_diag_def)

lemma linked_cong:
  assumes "rs_rows s' = rs_rows s"
  shows "linked s' = linked s"
proof -
  have "row s' = row s" using assms by (simp add: row_def fun_eq_iff)
  then show ?thesis by (simp add: linked_def is_root_def hangs_on_def child_links_def assms)
qed

lemma grown_report: "grown win fs root bag s \<Longrightarrow> grown win fs root bag (report_at code sp msg s)"
  using linked_cong [of "report_at code sp msg s" s]
  by (auto simp: grown_def same_files_def sound_rows_def owners_def)

lemma row_with_files [simp]: "row (s\<lparr>rs_files := fs\<rparr>) m = row s m"
  by (simp add: row_def)

lemma grown_child:
  assumes g: "grown win fs root bag s" and m: "m < modules_of s" and it: "it \<in> set (mr_items (row s m))"
    and n: "module_ident n"
    and new: "\<forall>c \<in> set (mr_children (row s m)). mr_path (row s c) \<noteq> child_path (mr_path (row s m)) n"
    and a: "add_child m n fid its dir s = (c, s')"
    and key: "child_key win fs (key_of (row s m)) it (child_path (mr_path (row s m)) n, fid, its, dir)"
    and dir: "canonical dir" and named: "list_all named_modules its"
    and fs': "map unowned fs' = map unowned (rs_files s)"
      "\<forall>f \<in> set fs'. fd_module f = None \<longleftrightarrow> fid \<noteq> fd_id f \<and> (\<forall>k < modules_of s. mr_file (row s k) \<noteq> fd_id f)"
  shows "grown win fs root bag (s'\<lparr>rs_files := fs'\<rparr>)"
proof -
  note R = add_child_rows [OF a m]
  have keys: "key_of (row s' k) = key_of (row s k)" if "k < modules_of s" for k
    using R(5) [of k] that by auto
  then have kept: "mr_file (row s' k) = mr_file (row s k)" "mr_dir (row s' k) = mr_dir (row s k)"
      "mr_items (row s' k) = mr_items (row s k)" if "k < modules_of s" for k
    using that by (auto simp: key_of_def)
  have fresh: "row s' (modules_of s) = new_row (child_path (mr_path (row s m)) n) fid its (Some m) dir"
    using R(5) [of "modules_of s"] m by simp
  have sm: "declares win fs root (key_of (row s m))" using g m by (simp add: grown_def sound_rows_def)
  have d: "declares win fs root (child_path (mr_path (row s m)) n, fid, its, dir)"
    using declares_child [of win fs root _ _ _ _ it] sm it key by (simp add: key_of_def)
  have "sound_rows win fs root s'"
    unfolding sound_rows_def
  proof (intro allI impI)
    fix k assume "k < modules_of s'"
    then consider "k = modules_of s" | "k < modules_of s" using R(2) by linarith
    then show "declares win fs root (key_of (row s' k)) \<and> canonical (mr_dir (row s' k)) \<and>
        list_all named_modules (mr_items (row s' k)) \<and> blank_row (row s' k)"
    proof cases
      case 2
      then have "blank_row (row s' k) = blank_row (row s k)" using R(5) [of k] by simp
      then show ?thesis using 2 g keys kept by (simp add: grown_def sound_rows_def)
    qed (use d dir named fresh in simp)
  qed
  moreover have "owners (s'\<lparr>rs_files := fs'\<rparr>)"
    using fs'(2) R(2) kept(1) fresh by (auto simp: owners_def less_Suc_eq all_conj_distrib)
  moreover have "linked (s'\<lparr>rs_files := fs'\<rparr>)"
    using linked_child [OF _ m n new a] g linked_cong [of "s'\<lparr>rs_files := fs'\<rparr>" s'] by (simp add: grown_def)
  moreover have "same_files fs (s'\<lparr>rs_files := fs'\<rparr>)"
    using g fs'(1) by (simp add: grown_def same_files_def)
  ultimately show ?thesis
    using g R(4) by (simp add: grown_def sound_rows_def)
qed

subsection \<open>Building the children of a module\<close>

definition is_mod :: "item \<Rightarrow> bool" where
  "is_mod it = (case it of ModItem sp pub name its inline \<Rightarrow> True | _ \<Rightarrow> False)"

text \<open>The children of a module are its first \<open>mod\<close> items, in order.\<close>

definition covered :: "bool \<Rightarrow> file_data list \<Rightarrow> resolver \<Rightarrow> nat \<Rightarrow> item list \<Rightarrow> bool" where
  "covered win fs s m its \<longleftrightarrow>
     list_all2 (\<lambda>it c. child_key win fs (key_of (row s m)) it (key_of (row s c)))
       (filter is_mod its) (mr_children (row s m))"

definition waiting :: "resolver \<Rightarrow> nat list \<Rightarrow> bool" where
  "waiting s work \<longleftrightarrow> distinct work \<and> (\<forall>c \<in> set work. c < modules_of s \<and> mr_children (row s c) = [])"

text \<open>The rank of a module: a file module lies deeper, an inline one is a smaller piece of text.\<close>

definition rank :: "nat \<Rightarrow> resolver \<Rightarrow> nat \<Rightarrow> nat \<times> nat" where
  "rank B s m = (Suc B - depth (mr_dir (row s m)), size_list size (mr_items (row s m)))"

definition rank_less :: "((nat \<times> nat) \<times> (nat \<times> nat)) set" where
  "rank_less = less_than <*lex*> less_than"

definition complete :: "bool \<Rightarrow> file_data list \<Rightarrow> resolver \<Rightarrow> nat set \<Rightarrow> bool" where
  "complete win fs s open_modules \<longleftrightarrow>
     (\<forall>k < modules_of s. k \<notin> open_modules \<longrightarrow> covered win fs s k (mr_items (row s k)))"

definition extends :: "resolver \<Rightarrow> resolver \<Rightarrow> bool" where
  "extends s0 s \<longleftrightarrow> modules_of s0 \<le> modules_of s \<and> (\<forall>k < modules_of s0. key_of (row s k) = key_of (row s0 k))"

definition building ::
  "bool \<Rightarrow> file_data list \<Rightarrow> file_data \<Rightarrow> diag_bag \<Rightarrow> nat \<Rightarrow> resolver \<Rightarrow> nat list \<Rightarrow> nat \<Rightarrow> item list \<Rightarrow>
     resolver \<times> string list \<times> nat list \<Rightarrow> bool" where
  "building win fs root bag B s0 work0 m seen st \<longleftrightarrow> (case st of (s, declared, work) \<Rightarrow>
     grown win fs root bag s \<and> extends s0 s \<and> m < modules_of s0 \<and>
     (\<forall>c \<in> set (mr_children (row s m)). \<exists>n \<in> set declared. mr_path (row s c) = child_path (mr_path (row s m)) n) \<and>
     waiting s work \<and> m \<notin> set work \<and>
     (\<exists>new. work = new @ work0 \<and> (\<forall>c \<in> set new. (rank B s c, rank B s m) \<in> rank_less)) \<and>
     (entries (rs_bag s) = entries bag \<longrightarrow> complete win fs s (insert m (set work)) \<and> covered win fs s m seen))"

lemma key_of_eqD: "key_of r = key_of r' \<Longrightarrow> mr_path r = mr_path r' \<and> mr_file r = mr_file r' \<and> mr_items r = mr_items r' \<and> mr_dir r = mr_dir r'"
  by (simp add: key_of_def)

lemma rank_key: "key_of (row s k) = key_of (row s' k) \<Longrightarrow> rank B s k = rank B s' k"
  by (auto simp: rank_def dest: key_of_eqD)

lemma building_report:
  assumes "building win fs root bag B s0 work0 m seen (s, declared, work)"
    and "set declared \<subseteq> set declared'"
  shows "building win fs root bag B s0 work0 m seen' (report_at code sp msg s, declared', work)"
proof -
  have "entries (rs_bag (report_at code sp msg s)) \<noteq> entries bag"
    using assms by (auto simp: building_def grown_def)
  moreover have "\<forall>c \<in> set (mr_children (row s m)). \<exists>n \<in> set declared'. mr_path (row s c) = child_path (mr_path (row s m)) n"
    using assms unfolding building_def prod.case by blast
  ultimately show ?thesis
    using assms(1) grown_report [of win fs root bag s code sp msg]
    by (simp add: building_def extends_def waiting_def rank_def)
qed

lemma building_child:
  assumes b: "building win fs root bag B s0 work0 m seen (s, declared, work)"
    and it: "it \<in> set (mr_items (row s m))" "is_mod it"
    and n: "module_ident n" "n \<notin> set declared"
    and a: "add_child m n fid its dir s = (c, s')"
    and key: "child_key win fs (key_of (row s m)) it (child_path (mr_path (row s m)) n, fid, its, dir)"
    and dir: "canonical dir" and named: "list_all named_modules its"
    and fs': "map unowned fs' = map unowned (rs_files s)"
      "\<forall>f \<in> set fs'. fd_module f = None \<longleftrightarrow> fid \<noteq> fd_id f \<and> (\<forall>k < modules_of s. mr_file (row s k) \<noteq> fd_id f)"
    and less: "((Suc B - depth dir, size_list size its), rank B s m) \<in> rank_less"
  shows "building win fs root bag B s0 work0 m (seen @ [it]) (s'\<lparr>rs_files := fs'\<rparr>, declared @ [n], c # work)"
proof -
  let ?s = "s'\<lparr>rs_files := fs'\<rparr>"
  have g: "grown win fs root bag s" and e: "extends s0 s" and m0: "m < modules_of s0"
    and names: "\<forall>c \<in> set (mr_children (row s m)). \<exists>n \<in> set declared. mr_path (row s c) = child_path (mr_path (row s m)) n"
    and w: "waiting s work" "m \<notin> set work"
    and q: "entries (rs_bag s) = entries bag \<Longrightarrow> complete win fs s (insert m (set work)) \<and> covered win fs s m seen"
    using b by (simp_all add: building_def)
  have m: "m < modules_of s" using e m0 by (simp add: extends_def)
  note R = add_child_rows [OF a m]
  have keys: "key_of (row s' k) = key_of (row s k)" and
    kids: "mr_children (row s' k) = mr_children (row s k) @ (if k = m then [modules_of s] else [])"
    if "k < modules_of s" for k using R(5) [of k] that by auto
  have fresh: "row s' (modules_of s) = new_row (child_path (mr_path (row s m)) n) fid its (Some m) dir"
    using R(5) [of "modules_of s"] m by simp
  have paths: "mr_path (row s' k) = mr_path (row s k)" if "k < modules_of s" for k
    using key_of_eqD [OF keys [OF that]] by simp
  have inr: "d < modules_of s" if "k < modules_of s" "d \<in> set (mr_children (row s k))" for k d
    using linked_child_in [of s k d] g that by (simp add: grown_def)
  have new: "\<forall>c \<in> set (mr_children (row s m)). mr_path (row s c) \<noteq> child_path (mr_path (row s m)) n"
    using names n(2) by (metis child_path_inject)
  have "grown win fs root bag ?s"
    by (rule grown_child [OF g m it(1) n(1) new a key dir named fs'])
  moreover have "extends s0 ?s" using e keys R(2) by (auto simp: extends_def)
  moreover have "\<forall>d \<in> set (mr_children (row ?s m)). \<exists>n \<in> set (declared @ [n]). mr_path (row ?s d) = child_path (mr_path (row ?s m)) n"
    using names kids [OF m] paths inr [OF m] m fresh by auto
  moreover have "waiting ?s (c # work)"
    using w R(1,2) kids fresh by (auto simp: waiting_def)
  moreover have "m \<notin> set (c # work)" using w R(1) m by simp
  moreover have "\<exists>new. c # work = new @ work0 \<and> (\<forall>d \<in> set new. (rank B ?s d, rank B ?s m) \<in> rank_less)"
  proof -
    obtain new where nw: "work = new @ work0" "\<forall>d \<in> set new. (rank B s d, rank B s m) \<in> rank_less"
      using b by (auto simp: building_def)
    have stable: "rank B ?s d = rank B s d" if "d < modules_of s" for d
      using rank_key [of s' d s B] keys [OF that] by (simp add: rank_def)
    have "(rank B ?s c, rank B ?s m) \<in> rank_less"
      using less R(1) fresh stable [OF m] by (simp add: rank_def)
    moreover have "\<forall>d \<in> set new. d < modules_of s" using w nw(1) by (auto simp: waiting_def)
    ultimately have "\<forall>d \<in> set (c # new). (rank B ?s d, rank B ?s m) \<in> rank_less"
      using nw(2) stable m by auto
    moreover have "c # work = (c # new) @ work0" using nw(1) by simp
    ultimately show ?thesis by blast
  qed
  moreover have "complete win fs ?s (insert m (set (c # work))) \<and> covered win fs ?s m (seen @ [it])"
    if "entries (rs_bag ?s) = entries bag"
  proof -
    have q': "complete win fs s (insert m (set work))" "covered win fs s m seen" using q that R(4) by auto
    have old: "list_all2 (\<lambda>it c. child_key win fs (key_of (row s k)) it (key_of (row s c))) xs (mr_children (row s k)) \<Longrightarrow>
        list_all2 (\<lambda>it c. child_key win fs (key_of (row s' k)) it (key_of (row s' c))) xs (mr_children (row s k))"
      if k: "k < modules_of s" for k xs
      by (erule list.rel_mono_strong) (use keys [OF k] keys inr [OF k] in auto)
    have "covered win fs ?s m (seen @ [it])"
      using old [OF m] q'(2) it(2) key kids [OF m] keys [OF m] fresh
      by (auto simp: covered_def intro!: list_all2_appendI)
    moreover have "covered win fs ?s k (mr_items (row ?s k))" if "k < modules_of ?s" "k \<notin> insert m (set (c # work))" for k
    proof -
      have k: "k < modules_of s" "k \<noteq> m" "k \<notin> set work" using that R(1,2) by auto
      then have "covered win fs s k (mr_items (row s k))" using q'(1) by (simp add: complete_def)
      then show ?thesis
        using old [OF k(1)] kids [OF k(1)] key_of_eqD [OF keys [OF k(1)]] k(2) by (simp add: covered_def)
    qed
    ultimately show ?thesis by (simp add: complete_def)
  qed
  ultimately show ?thesis using m0 by (simp add: building_def)
qed

lemma size_mod_item: "ModItem sp pub name its inline \<in> set xs \<Longrightarrow> size_list size its < size_list size xs"
proof -
  assume m: "ModItem sp pub name its inline \<in> set xs"
  have "Suc (size_list size its) \<le> size (ModItem sp pub name its inline)" by simp
  from size_list_estimation' [OF m, of "Suc (size_list size its)" size] this show ?thesis by simp
qed

lemma same_files_ids: "same_files fs s \<Longrightarrow> map fd_id (rs_files s) = map fd_id fs"
proof -
  assume "same_files fs s"
  then have "map fd_id (map unowned (rs_files s)) = map fd_id (map unowned fs)" by (simp add: same_files_def)
  then show ?thesis by (simp add: comp_def)
qed

lemma same_files_set:
  "same_files fs s \<Longrightarrow> f \<in> set (rs_files s) \<Longrightarrow> \<exists>g \<in> set fs. unowned g = unowned f"
proof -
  assume "same_files fs s" "f \<in> set (rs_files s)"
  then have "unowned f \<in> set (map unowned fs)" by (metis image_eqI list.set_map same_files_def)
  then show ?thesis by auto
qed

lemma building_seen:
  assumes "building win fs root bag B s0 work0 m seen (s, declared, work)" and "\<not> is_mod it"
  shows "building win fs root bag B s0 work0 m (seen @ [it]) (s, declared, work)"
  using assms by (simp add: building_def covered_def)

lemma building_grown:
  assumes "building win fs root bag B s0 work0 m seen (s, declared, work)"
  shows "grown win fs root bag s" "m < modules_of s" "linked s" "same_files fs s" "sound_rows win fs root s" "owners s"
  using assms by (auto simp: building_def extends_def grown_def)

lemma building_file:
  assumes b: "building win fs root bag B s0 work0 m seen (s, declared, work)"
    and ok: "files_ok fs" "\<forall>f \<in> set fs. depth (fd_path f) \<le> B"
    and it: "ModItem sp pub name its False \<in> set (mr_items (row s m))"
    and n: "module_ident (id_name name)" "id_name name \<notin> set declared"
    and f: "find_module_file win (mr_dir (row s m)) (id_name name) s = Some i"
    and a: "add_child m (id_name name) (fd_id (rs_files s ! i)) (fd_items (rs_files s ! i))
      (join win (mr_dir (row s m)) (id_name name)) s = (c, s')"
  shows "building win fs root bag B s0 work0 m (seen @ [ModItem sp pub name its False])
    (s'\<lparr>rs_files := (rs_files s')[i := (rs_files s' ! i)\<lparr>fd_module := Some c\<rparr>]\<rparr>,
     declared @ [id_name name], c # work)"
proof -
  note G = building_grown [OF b]
  let ?n = "id_name name" and ?dir = "mr_dir (row s m)" and ?f = "rs_files s ! i"
  obtain g where i: "i < length (rs_files s)" and g: "module_file win fs ?dir ?n = Some g" "unowned ?f = unowned g"
    using find_module_file_spec [OF G(4), of win ?dir ?n] f by auto
  have gi: "fd_id ?f = fd_id g" "fd_items ?f = fd_items g" using unowned_eqD [OF g(2)] by simp_all
  have gin: "g \<in> set fs" and gp: "fd_path g = join win ?dir (?n @ ''.al'') \<or> fd_path g = join win ?dir (?n @ ''/mod.al'')"
    using module_file_in [OF g(1)] by simp_all
  have dir: "canonical ?dir" using G(2,5) by (simp add: sound_rows_def)
  have sn: "simple_name ?n" using n(1) by (simp add: module_ident_def)
  have "Suc (depth ?dir) \<le> B"
    using gp ok(2) gin depth_join [OF dir simple_name_suffix [OF sn]] depth_join_mod [OF dir sn]
    by (metis Suc_leD)
  then have less: "((Suc B - depth (join win ?dir ?n), size_list size (fd_items ?f)), rank B s m) \<in> rank_less"
    using depth_join [OF dir sn, of win] by (auto simp: rank_less_def rank_def intro!: disjI1 diff_less_mono2)
  have ids: "distinct (map fd_id (rs_files s))" using same_files_ids [OF G(4)] ok(1) by (simp add: files_ok_def)
  let ?fs = "(rs_files s)[i := ?f\<lparr>fd_module := Some c\<rparr>]"
  have un: "map unowned ?fs = map unowned (rs_files s)"
    using i by (intro nth_equalityI) (auto simp: nth_list_update unowned_def)
  have own: "\<forall>f \<in> set ?fs. fd_module f = None \<longleftrightarrow> fd_id ?f \<noteq> fd_id f \<and> (\<forall>k < modules_of s. mr_file (row s k) \<noteq> fd_id f)"
  proof
    fix h assume "h \<in> set ?fs"
    then obtain j where j: "j < length (rs_files s)" "h = (if j = i then ?f\<lparr>fd_module := Some c\<rparr> else rs_files s ! j)"
      by (auto simp: in_set_conv_nth nth_list_update)
    show "fd_module h = None \<longleftrightarrow> fd_id ?f \<noteq> fd_id h \<and> (\<forall>k < modules_of s. mr_file (row s k) \<noteq> fd_id h)"
    proof (cases "j = i")
      case False
      then have "fd_id ?f \<noteq> fd_id (rs_files s ! j)" using ids i j(1) by (metis length_map nth_eq_iff_index_eq nth_map)
      then show ?thesis using False j G(6) by (simp add: owners_def)
    qed (use j in simp)
  qed
  have key: "child_key win fs (key_of (row s m)) (ModItem sp pub name its False)
      (child_path (mr_path (row s m)) ?n, fd_id ?f, fd_items ?f, join win ?dir ?n)"
    using child_file [OF g(1)] by (simp add: key_of_def gi)
  have named: "list_all named_modules (fd_items ?f)" using ok(1) gin gi(2) by (simp add: files_ok_def)
  show ?thesis
    using building_child [OF b it _ n a key canonical_join named un own less]
      add_child_rows(3) [OF a G(2)] by (simp add: is_mod_def)
qed

lemma building_inline:
  assumes b: "building win fs root bag B s0 work0 m seen (s, declared, work)"
    and ok: "files_ok fs"
    and it: "ModItem sp pub name its True \<in> set (mr_items (row s m))"
    and n: "module_ident (id_name name)" "id_name name \<notin> set declared" and named: "list_all named_modules its"
    and a: "add_child m (id_name name) kUnknownFile its (mr_dir (row s m)) s = (c, s')"
  shows "building win fs root bag B s0 work0 m (seen @ [ModItem sp pub name its True])
    (s', declared @ [id_name name], c # work)"
proof -
  note G = building_grown [OF b]
  have dir: "canonical (mr_dir (row s m))" using G(2,5) by (simp add: sound_rows_def)
  have "kUnknownFile \<notin> set (map fd_id (rs_files s))" using same_files_ids [OF G(4)] ok by (simp add: files_ok_def)
  then have own: "\<forall>f \<in> set (rs_files s). fd_module f = None \<longleftrightarrow> kUnknownFile \<noteq> fd_id f \<and> (\<forall>k < modules_of s. mr_file (row s k) \<noteq> fd_id f)"
    using G(6) by (auto simp: owners_def image_iff)
  have key: "child_key win fs (key_of (row s m)) (ModItem sp pub name its True)
      (child_path (mr_path (row s m)) (id_name name), kUnknownFile, its, mr_dir (row s m))"
    using child_inline by (simp add: key_of_def)
  have less: "((Suc B - depth (mr_dir (row s m)), size_list size its), rank B s m) \<in> rank_less"
    using size_mod_item [OF it] by (simp add: rank_less_def rank_def)
  have "s'\<lparr>rs_files := rs_files s\<rparr> = s'" using add_child_rows(3) [OF a G(2)] by simp
  with building_child [OF b it _ n a key dir named refl own less] show ?thesis by (simp add: is_mod_def)
qed

lemma building_step:
  assumes b: "building win fs root bag B s0 work0 m seen st"
    and ok: "files_ok fs" "\<forall>f \<in> set fs. depth (fd_path f) \<le> B"
    and it: "it \<in> set (mr_items (row s0 m))"
  shows "building win fs root bag B s0 work0 m (seen @ [it]) (build_child win m it st)"
proof -
  obtain s declared work where st: "st = (s, declared, work)" by (cases st)
  note b = b [unfolded st]
  note G = building_grown [OF b]
  have it: "it \<in> set (mr_items (row s m))"
  proof -
    have "key_of (row s m) = key_of (row s0 m)" using b by (simp add: building_def extends_def)
    then show ?thesis using it key_of_eqD by metis
  qed
  show ?thesis
  proof (cases it)
    case (ModItem sp pub name its inline)
    have "named_modules it" using it G(2,5) by (simp add: sound_rows_def list_all_iff)
    then have nm: "module_ident (id_name name)" "list_all named_modules its" using ModItem by simp_all
    show ?thesis
    proof (cases "id_name name \<in> set declared")
      case True
      then show ?thesis
        using building_report [OF b, of declared "seen @ [it]"] ModItem True
        by (simp add: st build_child_def declare_module_def has_name_def)
    next
      case False
      show ?thesis
      proof (cases inline)
        case True
        have inl: "ModItem sp pub name its True \<in> set (mr_items (row s m))" using it ModItem True by simp
        from True show ?thesis
          using building_inline [OF b ok(1) inl nm(1) False nm(2)] ModItem False
          by (cases "add_child m (id_name name) kUnknownFile its (mr_dir (row s m)) s")
            (simp add: st build_child_def declare_module_def has_name_def Let_def)
      next
        case inl: False
        show ?thesis
        proof (cases "find_module_file win (mr_dir (row s m)) (id_name name) s")
          case None
          have "building win fs root bag B s0 work0 m (seen @ [it]) (report_at code p msg s, declared @ [id_name name], work)" for code p msg
            using building_report [OF b, of "declared @ [id_name name]" "seen @ [it]" code p msg] by auto
          then show ?thesis using ModItem False inl None
            by (simp add: st build_child_def declare_module_def has_name_def Let_def)
        next
          case (Some i)
          have file_it: "ModItem sp pub name its False \<in> set (mr_items (row s m))" using it ModItem inl by simp
          from Some show ?thesis
            using building_file [OF b ok file_it nm(1) False Some] ModItem False inl
            by (cases "add_child m (id_name name) (fd_id (rs_files s ! i)) (fd_items (rs_files s ! i))
                (join win (mr_dir (row s m)) (id_name name)) s")
              (simp add: st build_child_def declare_module_def has_name_def Let_def)
        qed
      qed
    qed
  qed (use building_seen [OF b, of it] in \<open>simp_all add: st build_child_def is_mod_def\<close>)
qed

subsection \<open>The worklist\<close>

definition growing :: "bool \<Rightarrow> file_data list \<Rightarrow> file_data \<Rightarrow> diag_bag \<Rightarrow> resolver \<Rightarrow> nat list \<Rightarrow> bool" where
  "growing win fs root bag s work \<longleftrightarrow> grown win fs root bag s \<and> waiting s work \<and>
     (entries (rs_bag s) = entries bag \<longrightarrow> complete win fs s (set work))"

lemma building_fold:
  assumes "building win fs root bag B s0 work0 m seen st"
    and "files_ok fs" "\<forall>f \<in> set fs. depth (fd_path f) \<le> B" and "set its \<subseteq> set (mr_items (row s0 m))"
  shows "building win fs root bag B s0 work0 m (seen @ its) (foldl (\<lambda>st it. build_child win m it st) st its)"
  using assms(1,4)
proof (induction its arbitrary: seen st)
  case (Cons it its)
  have "building win fs root bag B s0 work0 m (seen @ [it]) (build_child win m it st)"
    using building_step [OF Cons.prems(1) assms(2,3), of it] Cons.prems(2) by simp
  from Cons.IH [OF this] Cons.prems(2) show ?case by simp
qed simp

lemma build_children_step:
  assumes g: "growing win fs root bag s (m # work)"
    and ok: "files_ok fs" "\<forall>f \<in> set fs. depth (fd_path f) \<le> B"
  obtains s' new where "build_children win m s work = (s', new @ work)" "growing win fs root bag s' (new @ work)"
    "extends s s'" "\<forall>c \<in> set new. (rank B s' c, rank B s m) \<in> rank_less"
proof -
  have "building win fs root bag B s work m [] (s, [], work)"
    using g by (auto simp: growing_def building_def waiting_def extends_def covered_def)
  from building_fold [OF this ok subset_refl]
  obtain s' declared work' where f: "foldl (\<lambda>st it. build_child win m it st) (s, [], work) (mr_items (row s m)) = (s', declared, work')"
    and b: "building win fs root bag B s work m (mr_items (row s m)) (s', declared, work')"
    by (cases "foldl (\<lambda>st it. build_child win m it st) (s, [], work) (mr_items (row s m))") auto
  obtain new where new: "work' = new @ work" "\<forall>c \<in> set new. (rank B s' c, rank B s' m) \<in> rank_less"
    using b by (auto simp: building_def)
  have e: "extends s s'" and m: "m < modules_of s" using b by (simp_all add: building_def)
  have k: "key_of (row s' m) = key_of (row s m)" using e m by (simp add: extends_def)
  have "complete win fs s' (set work')" if "entries (rs_bag s') = entries bag"
  proof -
    have "complete win fs s' (insert m (set work'))" "covered win fs s' m (mr_items (row s' m))"
      using b that key_of_eqD [OF k] by (simp_all add: building_def)
    then show ?thesis by (auto simp: complete_def)
  qed
  then have "growing win fs root bag s' work'" using b by (simp add: growing_def building_def)
  moreover have "build_children win m s work = (s', work')" using f by (simp add: build_children_def)
  moreover have "\<forall>c \<in> set new. (rank B s' c, rank B s m) \<in> rank_less" using new(2) rank_key [OF k] by simp
  ultimately show thesis using that new(1) e by blast
qed

lemma extends_refl: "extends s s"
  by (simp add: extends_def)

lemma extends_trans: "extends a b \<Longrightarrow> extends b c \<Longrightarrow> extends a c"
  by (auto simp: extends_def)

lemma wf_rank_less: "wf rank_less"
  by (simp add: rank_less_def wf_lex_prod)

text \<open>
  The loop ends: a module leaves the worklist and only modules of smaller rank enter it, so the
  multiset of ranks decreases.
\<close>

lemma build_loop_run:
  assumes ok: "files_ok fs" "\<forall>f \<in> set fs. depth (fd_path f) \<le> B"
  shows "growing win fs root bag s work \<Longrightarrow>
    \<exists>s'. build_loop win s work = Some s' \<and> growing win fs root bag s' [] \<and> extends s s'"
proof (induction "mset (map (rank B s) work)" arbitrary: s work rule: wf_induct_rule [OF wf_mult [OF wf_rank_less]])
  case 1
  show ?case
  proof (cases work)
    case Nil
    then show ?thesis using 1(2) extends_refl by (simp add: build_loop.simps)
  next
    case (Cons m ms)
    obtain s' new where st: "build_children win m s ms = (s', new @ ms)" "growing win fs root bag s' (new @ ms)"
      "extends s s'" "\<forall>c \<in> set new. (rank B s' c, rank B s m) \<in> rank_less"
      using build_children_step [OF 1(2) [unfolded Cons] ok] by blast
    have "\<forall>k \<in> set ms. k < modules_of s" using 1(2) Cons by (simp add: growing_def waiting_def)
    then have same: "map (rank B s') ms = map (rank B s) ms"
      using st(3) rank_key unfolding extends_def by (intro map_cong) blast+
    have work_ranks: "mset (map (rank B s) work) = mset (map (rank B s) ms) + {#rank B s m#}"
      by (simp add: Cons)
    have "mset (map (rank B s') (new @ ms)) = mset (map (rank B s) ms) + mset (map (rank B s') new)"
      unfolding map_append mset_append same by (rule add.commute)
    moreover have "(mset (map (rank B s) ms) + mset (map (rank B s') new), mset (map (rank B s) ms) + {#rank B s m#}) \<in> mult rank_less"
      using st(4) by (intro one_step_implies_mult) auto
    ultimately have "(mset (map (rank B s') (new @ ms)), mset (map (rank B s) work)) \<in> mult rank_less"
      by (simp only: work_ranks)
    from 1(1) [OF this st(2)] obtain s'' where "build_loop win s' (new @ ms) = Some s''"
      "growing win fs root bag s'' []" "extends s' s''" by blast
    moreover have "build_loop win s work = build_loop win s' (new @ ms)"
      by (subst build_loop.simps) (simp add: Cons st(1))
    ultimately show ?thesis using extends_trans [OF st(3)] by metis
  qed
qed

subsection \<open>Paths name modules\<close>

lemma no_colon_suffix:
  assumes "p @ '':'' @ n = q @ '':'' @ k" and "CHR '':'' \<notin> set n" and "CHR '':'' \<notin> set k"
  shows "n = k"
proof -
  have tw: "takeWhile (\<lambda>c. c \<noteq> CHR '':'') (rev x @ CHR '':'' # y) = rev x" if "CHR '':'' \<notin> set x" for x y
    using that by (subst takeWhile_append2) auto
  have "takeWhile (\<lambda>c. c \<noteq> CHR '':'') (rev (p @ '':'' @ n)) = rev n"
    "takeWhile (\<lambda>c. c \<noteq> CHR '':'') (rev (q @ '':'' @ k)) = rev k"
    using tw [OF assms(2)] tw [OF assms(3)] by simp_all
  then show ?thesis using assms(1) by (metis rev_rev_ident)
qed

lemma child_path_inject2:
  assumes "child_path p n = child_path q k" and "module_ident n" and "module_ident k"
  shows "p = q \<and> n = k"
proof -
  have n: "CHR '':'' \<notin> set n" "CHR '':'' \<notin> set k" using assms by (simp_all add: module_ident_def)
  show ?thesis
  proof (cases "p = [] \<or> q = []")
    case True
    then show ?thesis using assms(1) n by (auto simp: child_path_def split: if_splits)
  next
    case False
    then have e: "p @ ''::'' @ n = q @ ''::'' @ k" using assms(1) by (simp add: child_path_def)
    have "n = k" using no_colon_suffix [of "p @ '':''" n "q @ '':''" k] e n by simp
    then show ?thesis using e by simp
  qed
qed

lemma child_path_nonempty: "module_ident n \<Longrightarrow> child_path p n \<noteq> []"
  by (auto simp: child_path_def module_ident_def simple_name_def valid_name_def)

lemma paths_differ:
  assumes l: "linked s"
  shows "c < modules_of s \<Longrightarrow> d < modules_of s \<Longrightarrow> mr_path (row s c) = mr_path (row s d) \<Longrightarrow> c = d"
proof (induction c arbitrary: d rule: less_induct)
  case (less c)
  have h: "is_root s k \<or> (\<exists>p. hangs_on s k p)" if "k < modules_of s" for k
    using l that by (simp add: linked_def)
  have nonroot: "mr_path (row s k) \<noteq> []" if "hangs_on s k p" for k p
    using that child_path_nonempty unfolding hangs_on_def by metis
  show ?case
  proof (cases "is_root s c")
    case True
    then have "mr_path (row s d) = []" using less.prems(3) by (simp add: is_root_def)
    then show ?thesis using h [OF less.prems(2)] nonroot True by (auto simp: is_root_def)
  next
    case False
    then obtain p where p: "hangs_on s c p" using h [OF less.prems(1)] by blast
    then have "mr_path (row s d) \<noteq> []" using nonroot less.prems(3) by metis
    then obtain q where q: "hangs_on s d q" using h [OF less.prems(2)] by (auto simp: is_root_def)
    have "mr_path (row s p) = mr_path (row s q)"
      using p q less.prems(3) child_path_inject2 unfolding hangs_on_def by metis
    moreover have "p < c" "p < modules_of s" "q < modules_of s"
      using p q less.prems by (simp_all add: hangs_on_def)
    ultimately have "p = q" using less.IH by blast
    then have kids: "c \<in> set (mr_children (row s p))" "d \<in> set (mr_children (row s p))"
      using p q by (simp_all add: hangs_on_def)
    have "distinct (map (\<lambda>c. mr_path (row s c)) (mr_children (row s p)))"
      using linked_siblings [OF l] \<open>p < modules_of s\<close> by blast
    then show ?thesis using kids less.prems(3) by (auto simp: distinct_map dest: inj_onD)
  qed
qed

lemma name_of_child:
  assumes "mr_path (row s c) = child_path p n" and "module_ident n"
  shows "name_of_module s c = n"
proof (cases "p = []")
  case True
  then have "mr_path (row s c) = n" "find_last_of (CHR '':'') n = None"
    using assms by (simp_all add: child_path_def module_ident_def find_last_of_None)
  then show ?thesis by (simp add: name_of_module_def)
next
  case False
  have "find_last_of (CHR '':'') ((p @ '':'') @ CHR '':'' # n) = Some (length (p @ '':''))"
    using assms(2) by (intro find_last_of_append) (simp add: module_ident_def)
  then show ?thesis using assms(1) False by (simp add: name_of_module_def child_path_def)
qed

subsection \<open>The tree of a package\<close>

text \<open>What holds of the finished table.\<close>

definition tree_links :: "resolver \<Rightarrow> bool" where
  "tree_links s \<longleftrightarrow> 0 < modules_of s \<and>
     (\<forall>c < modules_of s. case mr_parent (row s c) of
        None \<Rightarrow> c = 0 \<and> mr_path (row s c) = []
      | Some p \<Rightarrow> p < c \<and> c \<in> set (mr_children (row s p)) \<and>
          mr_path (row s c) = child_path (mr_path (row s p)) (name_of_module s c)) \<and>
     (\<forall>m < modules_of s. distinct (mr_children (row s m)) \<and>
        (\<forall>c \<in> set (mr_children (row s m)). c < modules_of s \<and> mr_parent (row s c) = Some m)) \<and>
     distinct (map mr_path (rs_rows s))"

lemma linked_tree_links:
  assumes l: "linked s" and "0 < modules_of s"
  shows "tree_links s"
proof -
  have "case mr_parent (row s c) of None \<Rightarrow> c = 0 \<and> mr_path (row s c) = []
      | Some p \<Rightarrow> p < c \<and> c \<in> set (mr_children (row s p)) \<and>
          mr_path (row s c) = child_path (mr_path (row s p)) (name_of_module s c)" if c: "c < modules_of s" for c
  proof (cases "is_root s c")
    case True
    then have "c = 0" "mr_parent (row s c) = None" "mr_path (row s c) = []" unfolding is_root_def by blast+
    then show ?thesis by (simp only: option.case simp_thms)
  next
    case False
    then obtain p where p: "hangs_on s c p" using l c by (auto simp: linked_def)
    then obtain n where n: "mr_path (row s c) = child_path (mr_path (row s p)) n" "module_ident n"
      unfolding hangs_on_def by blast
    from name_of_child [OF n] n(1) p show ?thesis unfolding hangs_on_def by simp
  qed
  moreover have "distinct (mr_children (row s m)) \<and>
      (\<forall>c \<in> set (mr_children (row s m)). c < modules_of s \<and> mr_parent (row s c) = Some m)" if "m < modules_of s" for m
    using linked_siblings [OF l that] linked_child_in [OF l that] by (auto simp: distinct_map)
  moreover have "distinct (map mr_path (rs_rows s))"
    using paths_differ [OF l] by (auto simp: distinct_conv_nth row_def)
  ultimately show ?thesis using assms(2) by (simp add: tree_links_def)
qed

definition start :: "file_data list \<Rightarrow> diag_bag \<Rightarrow> resolver" where
  "start fs bag = \<lparr>rs_files = fs, rs_rows = [], rs_bag = bag\<rparr>"

lemma find_root:
  assumes "distinct (map fd_id fs)" and "root \<in> set fs"
  obtains i where "find_root_file (fd_id root) (start fs bag) = Some i" "i < length fs" "fs ! i = root"
proof (cases "first_index (\<lambda>f. fd_id f = fd_id root) (rev fs)")
  case None
  then have "find (\<lambda>f. fd_id f = fd_id root) (rev fs) = None" by (simp add: first_index_None)
  then show thesis using assms(2) by (auto simp: find_None_iff)
next
  case (Some j)
  then have j: "j < length fs" "fd_id (rev fs ! j) = fd_id root" using first_index_Some by fastforce+
  let ?i = "length fs - 1 - j"
  have i: "?i < length fs" "rev fs ! j = fs ! ?i" using j(1) by (auto simp: rev_nth)
  then have "fs ! ?i = root"
    using assms j(2) by (metis distinct_map inj_onD nth_mem)
  then show thesis using that [of ?i] Some i(1) by (simp add: find_root_file_def start_def)
qed

lemma growing_root:
  assumes ok: "files_ok fs" and i: "i < length fs" "fs ! i = root" and nf: "\<forall>f \<in> set fs. fd_module f = None"
    and p: "plant_root (fd_id root) i (start fs bag) = (m, s)"
  shows "m = 0" "modules_of s = 1" "growing win fs root bag s [m]"
proof -
  have r: "root \<in> set fs" using i nth_mem by metis
  have s: "m = 0" "rs_rows s = [new_row [] (fd_id root) (fd_items root) None (fd_dir root)]"
    "rs_files s = fs[i := root\<lparr>fd_module := Some 0\<rparr>]" "rs_bag s = bag"
    using p i by (auto simp: plant_root_def add_module_def start_def new_row_def)
  then show "m = 0" "modules_of s = 1" by simp_all
  have row: "row s 0 = new_row [] (fd_id root) (fd_items root) None (fd_dir root)" using s(2) by (simp add: row_def)
  have "same_files fs s"
    using i s(3) by (auto simp: same_files_def unowned_def nth_list_update intro!: nth_equalityI)
  moreover have "sound_rows win fs root s"
    using row s(2) ok r declares_root [of win fs root] by (auto simp: sound_rows_def files_ok_def)
  moreover have "linked s"
    using row s(2) by (auto simp: linked_def is_root_def child_links_def)
  moreover have "owners s"
  proof -
    have "fd_module f = None \<longleftrightarrow> fd_id root \<noteq> fd_id f" if f: "f \<in> set (rs_files s)" for f
    proof -
      obtain j where j: "j < length fs" "f = (if j = i then root\<lparr>fd_module := Some 0\<rparr> else fs ! j)"
        using f i(1) s(3) by (auto simp: in_set_conv_nth nth_list_update)
      have "fd_id (fs ! j) \<noteq> fd_id root" if "j \<noteq> i"
        using ok that i j(1) unfolding files_ok_def by (metis length_map nth_eq_iff_index_eq nth_map)
      then show ?thesis using j nf by (cases "j = i") auto
    qed
    then show ?thesis using s(2) row by (auto simp: owners_def)
  qed
  ultimately show "growing win fs root bag s [m]"
    using s row by (auto simp: growing_def grown_def waiting_def complete_def)
qed

text \<open>The warnings of the last loop: one for each file that no module stands in.\<close>

definition unreachable :: "resolver \<Rightarrow> file_data \<Rightarrow> bool" where
  "unreachable s f \<longleftrightarrow> (\<forall>m < modules_of s. mr_file (row s m) \<noteq> fd_id f)"

definition unreachable_warning :: "file_data \<Rightarrow> diagnostic" where
  "unreachable_warning f = mk_diag SevWarning kAnalyzerUnreachableFile None
     (quoted ''source file '' (as_view (fd_path f)) '' is not reachable from the package root'')"

lemma warn_all:
  "entries (rs_bag (s\<lparr>rs_bag := fold warn_unreachable fs bag\<rparr>)) =
     entries bag @ map unreachable_warning (filter (\<lambda>f. fd_module f = None) fs)"
  by (induction fs arbitrary: bag) (auto simp: warn_unreachable_def unreachable_warning_def)

lemma same_warnings:
  assumes "same_files fs s" and "owners s"
  shows "map unreachable_warning (filter (\<lambda>f. fd_module f = None) (rs_files s)) =
    map unreachable_warning (filter (unreachable s) fs)"
proof -
  have w: "unreachable_warning f = unreachable_warning (unowned f)" for f by (simp add: unreachable_warning_def)
  have u: "unreachable s f = unreachable s (unowned f)" for f by (simp add: unreachable_def)
  have "filter (\<lambda>f. fd_module f = None) (rs_files s) = filter (unreachable s) (rs_files s)"
    using assms(2) by (intro filter_cong) (auto simp: owners_def unreachable_def)
  moreover have "map unreachable_warning (filter (unreachable s) xs) =
      map unreachable_warning (filter (unreachable s) (map unowned xs))" for xs
    by (induction xs) (auto simp: w [symmetric] u [symmetric])
  ultimately show ?thesis using assms(1) unfolding same_files_def by metis
qed

lemma build_tree_run:
  assumes ok: "files_ok fs" "\<forall>f \<in> set fs. fd_module f = None" and r: "root \<in> set fs"
  obtains s new where "build_tree win (fd_id root) (start fs bag) = Some (Inr s)" "tree_links s"
    "sound_rows win fs root s" "key_of (row s 0) = ([], fd_id root, fd_items root, fd_dir root)"
    "new = [] \<Longrightarrow> complete win fs s {}" "list_all is_error new" "linked s"
    "entries (rs_bag s) = entries bag @ new @ map unreachable_warning (filter (unreachable s) fs)"
proof -
  obtain i where i: "find_root_file (fd_id root) (start fs bag) = Some i" "i < length fs" "fs ! i = root"
    using find_root [of fs root bag] ok(1) r by (auto simp: files_ok_def)
  obtain m s1 where p: "plant_root (fd_id root) i (start fs bag) = (m, s1)" by fastforce
  note g = growing_root [OF ok(1) i(2,3) ok(2) p]
  define B where "B = Max (insert 0 (depth ` fd_path ` set fs))"
  have "\<forall>f \<in> set fs. depth (fd_path f) \<le> B" by (auto simp: B_def)
  from build_loop_run [OF ok(1) this g(3)] obtain s2 where s2: "build_loop win s1 [m] = Some s2"
    "growing win fs root bag s2 []" "extends s1 s2" by blast
  let ?s = "s2\<lparr>rs_bag := fold warn_unreachable (rs_files s2) (rs_bag s2)\<rparr>"
  have same: "rs_rows ?s = rs_rows s2" "row ?s = row s2" by (simp_all add: row_def fun_eq_iff)
  have g2: "same_files fs s2" "owners s2" "sound_rows win fs root s2" "linked s2"
    using s2(2) by (simp_all add: growing_def grown_def)
  obtain new where new: "entries (rs_bag s2) = entries bag @ new" "list_all is_error new"
    using s2(2) by (auto simp: growing_def grown_def)
  have u: "unreachable ?s = unreachable s2" by (simp add: unreachable_def same fun_eq_iff)
  have n: "0 < modules_of s2" using s2(3) g(2) unfolding extends_def by linarith
  show thesis
  proof (rule that)
    show "build_tree win (fd_id root) (start fs bag) = Some (Inr ?s)"
      using i(1) p s2(1) by (simp add: build_tree_def)
    show l: "linked ?s" using g2(4) linked_cong [OF same(1)] by simp
    show "tree_links ?s" using linked_tree_links [OF l] n by simp
    show "sound_rows win fs root ?s" using g2(3) by (simp add: sound_rows_def same)
    have "key_of (row s2 0) = key_of (row s1 0)" using s2(3) g(2) by (simp add: extends_def)
    moreover have "row s1 0 = new_row [] (fd_id root) (fd_items root) None (fd_dir root)"
      using p i(2,3) by (auto simp: plant_root_def add_module_def start_def new_row_def row_def)
    ultimately show "key_of (row ?s 0) = ([], fd_id root, fd_items root, fd_dir root)" by (simp add: same)
    show "complete win fs ?s {}" if "new = []"
      using s2(2) new(1) that by (simp add: growing_def complete_def covered_def same)
    show "list_all is_error new" by (rule new(2))
    show "entries (rs_bag ?s) = entries bag @ new @ map unreachable_warning (filter (unreachable ?s) fs)"
      using warn_all [of "rs_files s2" "rs_bag s2" s2] same_warnings [OF g2(1,2)] new(1) u by simp
  qed
qed

text \<open>
  C37. The module tree is always built: the worklist empties, whatever \<open>mod\<close> items the files
  hold. Behind the errors, one warning is reported for each file that no module stands in, and
  for no other.
\<close>

theorem build_tree_terminates:
  assumes "files_ok fs" and "\<forall>f \<in> set fs. fd_module f = None" and "root \<in> set fs"
  shows "\<exists>s new. build_tree win (fd_id root) (start fs bag) = Some (Inr s) \<and> list_all is_error new \<and>
    entries (rs_bag s) = entries bag @ new @ map unreachable_warning (filter (unreachable s) fs)"
  using build_tree_run [OF assms, of win bag] by metis

lemma complete_declared:
  assumes c: "complete win fs s {}" and r: "key_of (row s 0) = ([], fd_id root, fd_items root, fd_dir root)"
    and l: "linked s" and n: "0 < modules_of s"
  shows "declares win fs root key \<Longrightarrow> \<exists>k < modules_of s. key_of (row s k) = key"
proof (induction key rule: declares.induct)
  case declares_root
  then show ?case using r n by blast
next
  case (declares_child p f its dir it key)
  from declares_child(4) obtain k where k: "k < modules_of s" "key_of (row s k) = (p, f, its, dir)" by blast
  moreover have "mr_items (row s k) = its" using k(2) by (simp add: key_of_def)
  ultimately have "list_all2 (\<lambda>it c. child_key win fs (p, f, its, dir) it (key_of (row s c))) (filter is_mod its) (mr_children (row s k))"
    using c unfolding complete_def covered_def by (metis empty_iff)
  moreover have "it \<in> set (filter is_mod its)"
    using declares_child(2,3) by (auto simp: is_mod_def elim: child_key.cases)
  ultimately obtain d where d: "d \<in> set (mr_children (row s k))" "child_key win fs (p, f, its, dir) it (key_of (row s d))"
    by (metis in_set_conv_nth list_all2_conv_all_nth)
  have "key_of (row s d) = key"
    using d(2) declares_child(3) by (auto elim!: child_key.cases)
  then show ?case using linked_child_in [OF l k(1) d(1)] by blast
qed

text \<open>
  C9. When building the tree reports nothing but warnings, its modules are exactly the declared
  ones, each once: the root, the inline modules, and for \<open>mod name;\<close> the file \<open>name.al\<close>, else
  \<open>name/mod.al\<close>, of the directory that the enclosing module names. With errors the tree still
  holds declared modules only. The paths of its modules differ, and parents and children agree.
\<close>

theorem build_tree_refines:
  assumes "files_ok fs" and "\<forall>f \<in> set fs. fd_module f = None" and "root \<in> set fs"
    and "build_tree win (fd_id root) (start fs bag) = Some (Inr s)"
  shows "tree_links s \<and> key_of ` set (rs_rows s) \<subseteq> {key. declares win fs root key} \<and>
    (entries (rs_bag s) = entries bag @ map unreachable_warning (filter (unreachable s) fs) \<longrightarrow>
      key_of ` set (rs_rows s) = {key. declares win fs root key})"
proof -
  obtain new where r: "tree_links s" "sound_rows win fs root s" "key_of (row s 0) = ([], fd_id root, fd_items root, fd_dir root)"
    "new = [] \<Longrightarrow> complete win fs s {}" "linked s"
    "entries (rs_bag s) = entries bag @ new @ map unreachable_warning (filter (unreachable s) fs)"
    using build_tree_run [OF assms(1-3), of win bag] assms(4) by (metis option.inject sum.inject(2))
  have rows: "key_of ` set (rs_rows s) = {key_of (row s k) | k. k < modules_of s}"
    by (auto simp: row_def set_conv_nth)
  have "key_of ` set (rs_rows s) \<subseteq> {key. declares win fs root key}"
    unfolding rows using r(2) by (auto simp: sound_rows_def)
  moreover have "{key. declares win fs root key} \<subseteq> key_of ` set (rs_rows s)" if "new = []"
  proof
    fix key assume "key \<in> {key. declares win fs root key}"
    moreover have "0 < modules_of s" using r(1) by (simp only: tree_links_def)
    ultimately show "key \<in> key_of ` set (rs_rows s)"
      using complete_declared [OF r(4) [OF that] r(3,5)] unfolding rows by blast
  qed
  ultimately show ?thesis using r(1,6) by auto
qed

subsection \<open>A small package\<close>

definition module_item :: "string \<Rightarrow> item list \<Rightarrow> bool \<Rightarrow> item" where
  "module_item name its inline =
     ModItem empty_span True \<lparr>id_name = name, id_span = empty_span\<rparr> its inline"

definition struct_item :: "bool \<Rightarrow> string \<Rightarrow> item" where
  "struct_item pub name = StructItem empty_span pub \<lparr>id_name = name, id_span = empty_span\<rparr> []"

definition loaded :: "file_id \<Rightarrow> string \<Rightarrow> item list \<Rightarrow> file_data" where
  "loaded fid name its = \<lparr>fd_id = fid, fd_dir = Path ''/p'', fd_path = Path (''/p/'' @ name), fd_items = its,
     fd_module = None\<rparr>"

definition sample_root :: file_data where
  "sample_root = loaded 0 ''main.al'' [module_item ''m'' [module_item ''a'' [] False] True, struct_item True ''S'']"

definition sample_files :: "file_data list" where
  "sample_files = [sample_root, loaded 1 ''a.al'' [struct_item False ''T''], loaded 2 ''c.al'' []]"

lemma sample_files_ok: "files_ok sample_files \<and> (\<forall>f \<in> set sample_files. fd_module f = None) \<and> sample_root \<in> set sample_files"
  by code_simp

lemma sample_tree:
  "case build_tree False 0 (start sample_files empty_bag) of
     Some (Inr s) \<Rightarrow> map mr_path (rs_rows s) = [[], ''m'', ''m::a''] \<and> map (unreachable s) sample_files = [False, False, True]
   | _ \<Rightarrow> False"
  by code_simp

lemma build_tree_terminates_witness:
  "\<exists>s new. build_tree False 0 (start sample_files empty_bag) = Some (Inr s) \<and> list_all is_error new \<and>
    entries (rs_bag s) = new @ map unreachable_warning (filter (unreachable s) sample_files)"
  using build_tree_terminates [of sample_files sample_root False empty_bag] sample_files_ok
  by (simp add: sample_root_def loaded_def empty_bag_def)

lemma build_tree_refines_witness:
  "\<exists>s. build_tree False 0 (start sample_files empty_bag) = Some (Inr s) \<and>
     map mr_path (rs_rows s) = [[], ''m'', ''m::a''] \<and> tree_links s \<and>
     key_of ` set (rs_rows s) \<subseteq> {key. declares False sample_files sample_root key}"
proof -
  obtain s where s: "build_tree False 0 (start sample_files empty_bag) = Some (Inr s)"
    "map mr_path (rs_rows s) = [[], ''m'', ''m::a'']"
    using sample_tree by (auto split: option.splits sum.splits)
  moreover have "fd_id sample_root = 0" by (simp add: sample_root_def loaded_def)
  ultimately show ?thesis
    using build_tree_refines [of sample_files sample_root False empty_bag s] sample_files_ok by auto
qed

end
