(* ===== verification/Module_Imports.thy ===== *)
theory Module_Imports
  imports Module_Tree
begin

text \<open>
  The imports that \<open>resolve_imports\<close> fills in: the recursion over re-exports ends, every import
  stands for a name that its target module declares, reached along the path of a \<open>use\<close> item,
  and no name of a module has two meanings.
\<close>

subsection \<open>What resolution leaves alone\<close>

definition tree_part :: "module_row \<Rightarrow> module_row" where
  "tree_part r = r\<lparr>mr_imports := [], mr_state := 0\<rparr>"

definition same_tree :: "resolver \<Rightarrow> resolver \<Rightarrow> bool" where
  "same_tree s s' \<longleftrightarrow> modules_of s' = modules_of s \<and> (\<forall>k. tree_part (row s' k) = tree_part (row s k))"

lemma tree_partD:
  assumes "tree_part r = tree_part r'"
  shows "mr_path r = mr_path r'" "mr_items r = mr_items r'" "mr_parent r = mr_parent r'"
    "mr_children r = mr_children r'" "locals_of ns r = locals_of ns r'" "key_of r = key_of r'"
proof -
  have "mr_path (tree_part r) = mr_path r" "mr_items (tree_part r) = mr_items r"
    "mr_parent (tree_part r) = mr_parent r" "mr_children (tree_part r) = mr_children r"
    "locals_of ns (tree_part r) = locals_of ns r" "key_of (tree_part r) = key_of r" for r
    by (cases ns; simp add: tree_part_def locals_of_def key_of_def)+
  then show "mr_path r = mr_path r'" "mr_items r = mr_items r'" "mr_parent r = mr_parent r'"
    "mr_children r = mr_children r'" "locals_of ns r = locals_of ns r'" "key_of r = key_of r'"
    using assms by metis+
qed

lemma same_treeD:
  assumes "same_tree s s'"
  shows "modules_of s' = modules_of s" "mr_path (row s' k) = mr_path (row s k)"
    "mr_items (row s' k) = mr_items (row s k)" "mr_parent (row s' k) = mr_parent (row s k)"
    "mr_children (row s' k) = mr_children (row s k)" "locals_of ns (row s' k) = locals_of ns (row s k)"
    "key_of (row s' k) = key_of (row s k)"
  using assms tree_partD [of "row s' k" "row s k"] by (simp_all add: same_tree_def)

lemma same_tree_refl: "same_tree s s"
  by (simp add: same_tree_def)

lemma same_tree_trans: "same_tree a b \<Longrightarrow> same_tree b c \<Longrightarrow> same_tree a c"
  by (simp add: same_tree_def)

lemma same_tree_paths:
  assumes "same_tree s s'"
  shows "path_module package m segs s' = path_module package m segs s"
proof -
  note D = same_treeD [OF assms]
  have n: "name_of_module s' = name_of_module s" unfolding name_of_module_def D ..
  have f: "find_child_module s' k x = find_child_module s k x" for k x by (simp add: find_child_module_def D n)
  have w: "path_walk k xs s' = path_walk k xs s" for k xs
    by (induction xs arbitrary: k) (auto simp: f split: option.split)
  have fi: "first_index (\<lambda>r. mr_path r = []) rs = first_index (\<lambda>p. p = []) (map mr_path rs)" for rs
    by (induction rs) auto
  have "map mr_path (rs_rows s') = map mr_path (rs_rows s)"
    using D(1,2) by (intro nth_equalityI) (auto simp: row_def)
  then have "path_head package m x s' = path_head package m x s" for x
    by (simp add: path_head_def f D fi)
  then show ?thesis by (simp only: path_module_def w)
qed

lemma row_set_row_all: "m < modules_of s \<Longrightarrow> row (set_row m f s) k = (if k = m then f (row s m) else row s k)"
  by (simp add: row_def set_row_def)

subsection \<open>Meaning of names\<close>

text \<open>What \<open>member\<close> of module \<open>c\<close> stands for: a local, or what a public import stands for.\<close>

inductive denotes :: "resolver \<Rightarrow> nat \<Rightarrow> string \<Rightarrow> namespace \<Rightarrow> nat \<Rightarrow> string \<Rightarrow> bool" for s where
  denotes_local: "member \<in> set (locals_of ns (row s c)) \<Longrightarrow> denotes s c member ns c member"
| denotes_reexport: "i \<in> set (mr_imports (row s c)) \<Longrightarrow> im_pub i \<Longrightarrow>
    denotes s c (im_name i) (im_ns i) (im_target i) (im_member i)"

definition use_name :: "ast_path \<Rightarrow> bool \<Rightarrow> ident \<Rightarrow> string" where
  "use_name p has_alias alias = (if has_alias then id_name alias else id_name (last (path_segments p)))"

text \<open>The import is one that a \<open>use\<close> item of the module asks for.\<close>

definition asked :: "string \<Rightarrow> resolver \<Rightarrow> nat \<Rightarrow> import_entry \<Rightarrow> bool" where
  "asked package s m i \<longleftrightarrow> (\<exists>sp p has_alias alias c.
     UseItem sp (im_pub i) p has_alias alias \<in> set (mr_items (row s m)) \<and> 2 \<le> length (path_segments p) \<and>
     im_name i = use_name p has_alias alias \<and>
     path_module package m (map id_name (path_segments p)) s = Inr c \<and>
     denotes s c (id_name (last (path_segments p))) (im_ns i) (im_target i) (im_member i))"

definition import_ok :: "string \<Rightarrow> resolver \<Rightarrow> nat \<Rightarrow> import_entry \<Rightarrow> bool" where
  "import_ok package s m i \<longleftrightarrow> im_target i < modules_of s \<and>
     im_member i \<in> set (locals_of (im_ns i) (row s (im_target i))) \<and>
     im_name i \<notin> set (locals_of (im_ns i) (row s m)) \<and> asked package s m i"

definition imports_ok :: "string \<Rightarrow> resolver \<Rightarrow> bool" where
  "imports_ok package s \<longleftrightarrow> (\<forall>m < modules_of s. (\<forall>i \<in> set (mr_imports (row s m)). import_ok package s m i) \<and>
     distinct (map (\<lambda>i. (im_ns i, im_name i)) (mr_imports (row s m))))"

text \<open>A public or private use that has its import.\<close>

definition named :: "resolver \<Rightarrow> nat \<Rightarrow> bool \<Rightarrow> string \<Rightarrow> bool" where
  "named s m pub name \<longleftrightarrow> (\<exists>i \<in> set (mr_imports (row s m)). im_name i = name \<and> im_pub i = pub)"

definition uses_met :: "resolver \<Rightarrow> nat \<Rightarrow> item list \<Rightarrow> bool" where
  "uses_met s m its \<longleftrightarrow> (\<forall>sp pub p has_alias alias. UseItem sp pub p has_alias alias \<in> set its \<longrightarrow>
     named s m pub (use_name p has_alias alias))"

definition settled :: "resolver \<Rightarrow> bool" where
  "settled s \<longleftrightarrow> (\<forall>k < modules_of s. mr_state (row s k) = 2 \<longrightarrow> uses_met s k (mr_items (row s k)))"

subsection \<open>Steps of the resolution\<close>

definition enlarges :: "resolver \<Rightarrow> resolver \<Rightarrow> bool" where
  "enlarges s s' \<longleftrightarrow> same_tree s s' \<and> (\<forall>k. set (mr_imports (row s k)) \<subseteq> set (mr_imports (row s' k))) \<and>
     (\<forall>k < modules_of s. mr_state (row s k) \<in> {1, 2} \<longrightarrow> mr_state (row s' k) \<in> {1, 2}) \<and>
     (\<forall>k < modules_of s. mr_state (row s k) = 2 \<longrightarrow> mr_state (row s' k) = 2) \<and>
     (\<exists>new. entries (rs_bag s') = entries (rs_bag s) @ new \<and> list_all is_error new)"

definition silent :: "resolver \<Rightarrow> resolver \<Rightarrow> bool" where
  "silent s s' \<longleftrightarrow> entries (rs_bag s') = entries (rs_bag s)"

definition sustains :: "string \<Rightarrow> resolver \<Rightarrow> resolver \<Rightarrow> bool" where
  "sustains package s s' \<longleftrightarrow> enlarges s s' \<and> (imports_ok package s \<longrightarrow> imports_ok package s') \<and>
     (silent s s' \<and> settled s \<longrightarrow> settled s')"

lemma enlarges_count: "enlarges s s' \<Longrightarrow> modules_of s' = modules_of s"
  by (simp add: enlarges_def same_tree_def)

lemma enlarges_refl: "enlarges s s"
  by (auto simp: enlarges_def same_tree_refl)

lemma enlarges_trans: "enlarges a b \<Longrightarrow> enlarges b c \<Longrightarrow> enlarges a c"
  using same_tree_trans [of a b c] by (fastforce simp: enlarges_def same_treeD(1))

lemma silent_trans: "enlarges a b \<Longrightarrow> enlarges b c \<Longrightarrow> silent a c \<longleftrightarrow> silent a b \<and> silent b c"
  by (auto simp: enlarges_def silent_def)

lemma sustains_refl: "sustains package s s"
  by (simp add: sustains_def enlarges_refl)

lemma sustains_trans: "sustains package a b \<Longrightarrow> sustains package b c \<Longrightarrow> sustains package a c"
  unfolding sustains_def using enlarges_trans silent_trans by blast

lemma denotes_grows:
  assumes "enlarges s s'" and "denotes s c member ns t tm"
  shows "denotes s' c member ns t tm"
  using assms(2)
proof cases
  case denotes_local
  then show ?thesis using assms(1) denotes.denotes_local same_treeD(6) [of s s'] by (metis enlarges_def)
next
  case (denotes_reexport i)
  then show ?thesis using assms(1) denotes.denotes_reexport by (metis enlarges_def subsetD)
qed

lemma asked_grows: "enlarges s s' \<Longrightarrow> asked package s m i \<Longrightarrow> asked package s' m i"
proof -
  assume g: "enlarges s s'" and a: "asked package s m i"
  have t: "same_tree s s'" using g by (simp add: enlarges_def)
  show ?thesis
    using a denotes_grows [OF g] unfolding asked_def same_tree_paths [OF t] same_treeD [OF t] by blast
qed

lemma import_ok_grows: "enlarges s s' \<Longrightarrow> import_ok package s m i \<Longrightarrow> import_ok package s' m i"
proof -
  assume g: "enlarges s s'" and i: "import_ok package s m i"
  have t: "same_tree s s'" using g by (simp add: enlarges_def)
  show ?thesis using i asked_grows [OF g] unfolding import_ok_def same_treeD [OF t] by blast
qed

lemma named_grows: "enlarges s s' \<Longrightarrow> named s m pub name \<Longrightarrow> named s' m pub name"
  by (auto simp: named_def enlarges_def)

lemma uses_met_grows: "enlarges s s' \<Longrightarrow> uses_met s m its \<Longrightarrow> uses_met s' m its"
  using named_grows by (auto simp: uses_met_def)

lemma report_keeps: "sustains package s (report_at code sp msg s) \<and> \<not> silent s (report_at code sp msg s)"
proof -
  let ?s = "report_at code sp msg s"
  have g: "enlarges s ?s" by (auto simp: enlarges_def same_tree_def)
  have "imports_ok package ?s" if "imports_ok package s"
    using that import_ok_grows [OF g] by (simp add: imports_ok_def)
  then show ?thesis using g by (simp add: sustains_def silent_def)
qed

text \<open>One import, for a use item of \<open>m\<close> whose path leads to \<open>c\<close>.\<close>

definition use_of :: "string \<Rightarrow> resolver \<Rightarrow> nat \<Rightarrow> bool \<Rightarrow> string \<Rightarrow> nat \<Rightarrow> string \<Rightarrow> bool" where
  "use_of package s m pub name c member \<longleftrightarrow> m < modules_of s \<and> c < modules_of s \<and> (\<exists>sp p has_alias alias.
     UseItem sp pub p has_alias alias \<in> set (mr_items (row s m)) \<and> 2 \<le> length (path_segments p) \<and>
     name = use_name p has_alias alias \<and> member = id_name (last (path_segments p)) \<and>
     path_module package m (map id_name (path_segments p)) s = Inr c)"

definition means :: "resolver \<Rightarrow> nat \<Rightarrow> string \<Rightarrow> namespace \<Rightarrow> nat \<times> string \<Rightarrow> bool" where
  "means s c member ns to \<longleftrightarrow> fst to < modules_of s \<and>
     snd to \<in> set (locals_of ns (row s (fst to))) \<and> denotes s c member ns (fst to) (snd to)"

lemma use_of_grows: "enlarges s s' \<Longrightarrow> use_of package s m pub name c member \<Longrightarrow> use_of package s' m pub name c member"
proof -
  assume g: "enlarges s s'" and u: "use_of package s m pub name c member"
  have t: "same_tree s s'" using g by (simp add: enlarges_def)
  show ?thesis using u unfolding use_of_def same_tree_paths [OF t] same_treeD [OF t] by blast
qed

lemma add_import_keeps:
  assumes u: "use_of package s m pub name c member" and to: "means s c member ns (t, tm)"
  shows "sustains package s (add_import m sp pub name ns t tm s)"
    "silent s (add_import m sp pub name ns t tm s) \<Longrightarrow> named (add_import m sp pub name ns t tm s) m pub name"
proof -
  define s' where "s' = add_import m sp pub name ns t tm s"
  let ?i = "\<lparr>im_name = name, im_ns = ns, im_target = t, im_member = tm, im_pub = pub\<rparr>"
  have m: "m < modules_of s" using u by (simp add: use_of_def)
  consider (report) msg where "s' = report_at kAnalyzerAmbiguousImport sp msg s"
    | (new) "s' = set_row m (\<lambda>r. r\<lparr>mr_imports := mr_imports r @ [?i]\<rparr>) s"
        "name \<notin> set (locals_of ns (row s m))"
        "\<not> (\<exists>prior \<in> set (mr_imports (row s m)). im_ns prior = ns \<and> im_name prior = name)"
    unfolding s'_def add_import_def has_name_def by metis
  then have "sustains package s s' \<and> (silent s s' \<longrightarrow> named s' m pub name)"
  proof cases
    case report
    then show ?thesis using report_keeps by blast
  next
    case new
    have row': "row s' k = (if k = m then (row s m)\<lparr>mr_imports := mr_imports (row s m) @ [?i]\<rparr> else row s k)" for k
      using row_set_row_all [OF m] new(1) by simp
    have st: "same_tree s s'"
      using row' new(1) by (simp add: same_tree_def tree_part_def)
    have g: "enlarges s s'"
      using st row' new(1) by (auto simp: enlarges_def)
    have states: "mr_state (row s' k) = mr_state (row s k)" for k using row' by simp
    have ok: "imports_ok package s'" if inv: "imports_ok package s"
    proof -
      have "denotes s' c member ns t tm" using denotes_grows [OF g] to by (simp add: means_def)
      then have "\<exists>sp p has_alias alias c. UseItem sp pub p has_alias alias \<in> set (mr_items (row s' m)) \<and>
          2 \<le> length (path_segments p) \<and> name = use_name p has_alias alias \<and>
          path_module package m (map id_name (path_segments p)) s' = Inr c \<and>
          denotes s' c (id_name (last (path_segments p))) ns t tm"
        using use_of_grows [OF g u] unfolding use_of_def by blast
      then have "asked package s' m ?i" by (simp add: asked_def)
      then have i_ok: "import_ok package s' m ?i"
        using to new(2) same_treeD [OF st] by (simp add: import_ok_def means_def)
      have "(\<forall>i \<in> set (mr_imports (row s' k)). import_ok package s' k i) \<and>
          distinct (map (\<lambda>i. (im_ns i, im_name i)) (mr_imports (row s' k)))" if "k < modules_of s" for k
      proof (cases "k = m")
        case True
        then show ?thesis
          using inv m new(3) i_ok import_ok_grows [OF g] unfolding imports_ok_def row' by auto
      next
        case False
        then show ?thesis using inv that import_ok_grows [OF g] unfolding imports_ok_def row' by auto
      qed
      then show ?thesis using same_treeD(1) [OF st] by (simp add: imports_ok_def)
    qed
    have "settled s'" if "settled s"
      using that uses_met_grows [OF g] same_treeD(1,3) [OF st] states by (simp add: settled_def)
    moreover have "named s' m pub name" using row' by (auto simp: named_def)
    ultimately show ?thesis using g ok by (simp add: sustains_def)
  qed
  then show "sustains package s (add_import m sp pub name ns t tm s)"
    "silent s (add_import m sp pub name ns t tm s) \<Longrightarrow> named (add_import m sp pub name ns t tm s) m pub name"
    by (simp_all add: s'_def)
qed

text \<open>The two loops over the namespaces differ in the lookup only.\<close>

definition import_by ::
  "(namespace \<Rightarrow> resolver \<Rightarrow> (nat \<times> string) option) \<Rightarrow> nat \<Rightarrow> span \<Rightarrow> bool \<Rightarrow> string \<Rightarrow> namespace list \<Rightarrow>
     bool \<times> resolver \<Rightarrow> bool \<times> resolver" where
  "import_by f m sp pub name nss st = foldl (\<lambda>(resolved, s) ns. case f ns s of
     Some (t, tm) \<Rightarrow> (True, add_import m sp pub name ns t tm s) | None \<Rightarrow> (resolved, s)) st nss"

lemma import_by_keeps:
  assumes f: "\<And>ns s to. f ns s = Some to \<Longrightarrow> imports_ok package s \<Longrightarrow> use_of package s m pub name c member \<Longrightarrow>
      means s c member ns to"
  shows "import_by f m sp pub name nss (b, s) = (b', s') \<Longrightarrow> imports_ok package s \<Longrightarrow>
    use_of package s m pub name c member \<Longrightarrow>
    sustains package s s' \<and> (silent s s' \<longrightarrow> (b' = b \<and> \<not> b') \<or> b \<or> named s' m pub name)"
proof (induction nss arbitrary: b s)
  case Nil
  then show ?case using sustains_refl by (simp add: import_by_def)
next
  case (Cons ns nss)
  show ?case
  proof (cases "f ns s")
    case None
    then show ?thesis using Cons.IH [of b s] Cons.prems by (simp add: import_by_def)
  next
    case (Some to)
    obtain t tm where to: "to = (t, tm)" by fastforce
    let ?s = "add_import m sp pub name ns t tm s"
    have k: "sustains package s ?s" "silent s ?s \<Longrightarrow> named ?s m pub name"
      using add_import_keeps [OF Cons.prems(3)] f [OF Some Cons.prems(2,3)] to by blast+
    have g: "enlarges s ?s" "imports_ok package ?s" using k(1) Cons.prems(2) by (simp_all add: sustains_def)
    have e: "import_by f m sp pub name nss (True, ?s) = (b', s')"
      using Cons.prems(1) Some to by (simp add: import_by_def)
    have k2: "sustains package ?s s'"
      using Cons.IH [OF e g(2) use_of_grows [OF g(1) Cons.prems(3)]] by blast
    have "named s' m pub name" if "silent s s'"
    proof -
      have "enlarges ?s s'" using k2 by (simp add: sustains_def)
      then show ?thesis using k(2) that silent_trans [OF g(1)] named_grows by blast
    qed
    then show ?thesis using sustains_trans [OF k(1) k2] by blast
  qed
qed

lemma import_locals_by:
  "import_locals m sp pub name c member s = import_by
     (\<lambda>ns s. if lookup_local c member ns s then Some (c, member) else None) m sp pub name kNamespaces (False, s)"
  unfolding import_locals_def import_by_def
  by (intro arg_cong [where f = "\<lambda>f. foldl f (False, s) kNamespaces"] ext) (auto split: prod.split)

lemma import_reexports_by:
  "import_reexports m sp pub name c member s =
     import_by (\<lambda>ns s. lookup_reexport c member ns s) m sp pub name kNamespaces (False, s)"
  unfolding import_reexports_def import_by_def
  by (intro arg_cong [where f = "\<lambda>f. foldl f (False, s) kNamespaces"] ext) (auto split: prod.split option.split)

lemma means_local:
  "(if lookup_local c member ns s then Some (c, member) else None) = Some to \<Longrightarrow>
     use_of package s m pub name c member \<Longrightarrow> means s c member ns to"
  by (auto simp: means_def use_of_def lookup_local_def has_name_def intro: denotes_local split: if_splits)

lemma means_reexport:
  assumes "lookup_reexport c member ns s = Some to" and "imports_ok package s"
    and "use_of package s m pub name c member"
  shows "means s c member ns to"
proof -
  obtain i where i: "find (\<lambda>i. im_pub i \<and> im_ns i = ns \<and> im_name i = member) (mr_imports (row s c)) = Some i"
    "to = (im_target i, im_member i)" using assms(1) by (auto simp: lookup_reexport_def)
  have f: "i \<in> set (mr_imports (row s c))" "im_pub i" "im_ns i = ns" "im_name i = member"
    using i(1) by (auto simp: find_Some_iff)
  have "c < modules_of s" using assms(3) by (simp add: use_of_def)
  then have "import_ok package s c i" using assms(2) f(1) by (simp add: imports_ok_def)
  then show ?thesis using f i(2) denotes_reexport [OF f(1,2)] by (simp add: means_def import_ok_def)
qed

lemma import_locals_keeps:
  assumes "import_locals m sp pub name c member s = (b, s')" and ok: "imports_ok package s"
    and u: "use_of package s m pub name c member"
  shows "sustains package s s' \<and> (silent s s' \<longrightarrow> b \<longrightarrow> named s' m pub name)"
proof -
  let ?f = "\<lambda>ns s. if lookup_local c member ns s then Some (c, member) else None"
  have f: "means s c member ns to" if "?f ns s = Some to" "use_of package s m pub name c member" for ns s to
    using means_local that by blast
  show ?thesis
    using import_by_keeps [where f = ?f and member = member, OF f _ ok u] assms(1)
    unfolding import_locals_by by blast
qed

lemma import_reexports_keeps:
  assumes "import_reexports m sp pub name c member s = (b, s')" and ok: "imports_ok package s"
    and u: "use_of package s m pub name c member"
  shows "sustains package s s' \<and> (silent s s' \<longrightarrow> b \<longrightarrow> named s' m pub name)"
proof -
  let ?f = "\<lambda>ns s. lookup_reexport c member ns s"
  have f: "means s c member ns to" if "?f ns s = Some to" "imports_ok package s"
    "use_of package s m pub name c member" for ns s to
    using means_reexport that by blast
  show ?thesis
    using import_by_keeps [where f = ?f and member = member, OF f _ ok u] assms(1)
    unfolding import_reexports_by by blast
qed

lemma import_member_keeps:
  assumes E: "\<And>s1. enlarges s s1 \<Longrightarrow> imports_ok package s1 \<Longrightarrow> \<exists>s2. exports c s1 = Inr s2 \<and> sustains package s1 s2"
    and ok: "imports_ok package s" and u: "use_of package s m pub name c member"
  obtains s' where "import_member exports m sp pub name c member s = Inr s'" "sustains package s s'"
    "silent s s' \<Longrightarrow> named s' m pub name"
proof -
  obtain b1 s1 where l: "import_locals m sp pub name c member s = (b1, s1)" by fastforce
  have k1: "sustains package s s1" "silent s s1 \<Longrightarrow> b1 \<Longrightarrow> named s1 m pub name"
    using import_locals_keeps [OF l ok u] by blast+
  show thesis
  proof (cases b1)
    case True
    then show ?thesis using that [of s1] l k1 by (simp add: import_member_def)
  next
    case False
    have g1: "enlarges s s1" "imports_ok package s1" using k1(1) ok by (simp_all add: sustains_def)
    obtain s2 where s2: "(if c \<noteq> m then exports c s1 else Inr s1) = Inr s2" "sustains package s1 s2"
      using E [OF g1] sustains_refl by (cases "c = m") auto
    have k2: "sustains package s s2" using sustains_trans [OF k1(1) s2(2)] .
    have g2: "enlarges s s2" "imports_ok package s2" using k2 ok by (simp_all add: sustains_def)
    obtain b3 s3 where r: "import_reexports m sp pub name c member s2 = (b3, s3)" by fastforce
    have k3: "sustains package s2 s3" "silent s2 s3 \<Longrightarrow> b3 \<Longrightarrow> named s3 m pub name"
      using import_reexports_keeps [OF r g2(2) use_of_grows [OF g2(1) u]] by blast+
    have g3: "enlarges s2 s3" using k3(1) by (simp add: sustains_def)
    have k: "sustains package s s3" using sustains_trans [OF k2 k3(1)] .
    show ?thesis
    proof (cases b3)
      case True
      then show ?thesis using that [of s3] l False s2(1) r k k3(2) silent_trans [OF g2(1) g3]
        by (simp add: import_member_def)
    next
      case b3: False
      let ?s = "report_at kAnalyzerUnresolvedImport sp (quoted ''unresolved import '' member []) s3"
      have "enlarges s s3" "enlarges s3 ?s" "\<not> silent s3 ?s" using k report_keeps by (simp_all add: sustains_def)
      then have "\<not> silent s ?s" using silent_trans by blast
      then show ?thesis using that [of ?s] l False s2(1) r b3 sustains_trans [OF k] report_keeps
        by (simp add: import_member_def)
    qed
  qed
qed

definition ranged :: "resolver \<Rightarrow> bool" where
  "ranged s \<longleftrightarrow> 0 < modules_of s \<and> (\<forall>k < modules_of s. (\<forall>c \<in> set (mr_children (row s k)). c < modules_of s) \<and>
     (\<forall>p. mr_parent (row s k) = Some p \<longrightarrow> p < modules_of s))"

lemma ranged_child: "ranged s \<Longrightarrow> k < modules_of s \<Longrightarrow> c \<in> set (mr_children (row s k)) \<Longrightarrow> c < modules_of s"
  unfolding ranged_def by blast

lemma ranged_parent: "ranged s \<Longrightarrow> k < modules_of s \<Longrightarrow> mr_parent (row s k) = Some p \<Longrightarrow> p < modules_of s"
  unfolding ranged_def by blast

lemma ranged_grows: "enlarges s s' \<Longrightarrow> ranged s \<Longrightarrow> ranged s'"
proof -
  assume g: "enlarges s s'" and r: "ranged s"
  have t: "same_tree s s'" using g by (simp add: enlarges_def)
  show ?thesis using r unfolding ranged_def same_treeD [OF t] .
qed

lemma find_child_in: "find_child_module s k x = Some c \<Longrightarrow> c \<in> set (mr_children (row s k))"
  by (auto simp: find_child_module_def find_Some_iff)

lemma path_walk_in: "ranged s \<Longrightarrow> k < modules_of s \<Longrightarrow> path_walk k xs s = Inr c \<Longrightarrow> c < modules_of s"
proof (induction xs arbitrary: k)
  case (Cons x xs)
  then obtain d where d: "find_child_module s k x = Some d" "path_walk d xs s = Inr c"
    by (auto split: option.splits)
  from find_child_in [OF d(1)] have "d < modules_of s" using ranged_child Cons.prems by blast
  then show ?case using Cons.IH Cons.prems d(2) by blast
qed simp

lemma path_module_in:
  assumes "ranged s" and "m < modules_of s" and "path_module package m segs s = Inr c"
  shows "c < modules_of s"
proof -
  obtain d where d: "path_head package m (hd segs) s = Inr d" "path_walk d (butlast (tl segs)) s = Inr c"
    using assms(3) by (auto simp: path_module_def split: sum.splits)
  have z: "0 < modules_of s" using assms(2) by linarith
  have f: "i < modules_of s" if "first_index (\<lambda>r. mr_path r = []) (rs_rows s) = Some i" for i
    using first_index_Some [OF that] by simp
  have k: "i < modules_of s" if "find_child_module s m (hd segs) = Some i" for i
    using ranged_child [OF assms(1,2) find_child_in [OF that]] .
  have "d < modules_of s"
    using d(1) z f k assms(2) ranged_parent [OF assms(1,2)] unfolding path_head_def
    by (simp split: if_splits option.splits)
  then show ?thesis using path_walk_in assms(1) d(2) by blast
qed

lemma report_spec:
  "\<exists>s'. Inr (report_at code sp msg s) = Inr s' \<and> sustains package s s' \<and> (silent s s' \<longrightarrow> Q s')"
  using report_keeps by blast

lemma resolve_use_keeps:
  assumes E: "\<And>c s1. enlarges s s1 \<Longrightarrow> imports_ok package s1 \<Longrightarrow> c < modules_of s \<Longrightarrow>
      \<exists>s2. exports c s1 = Inr s2 \<and> sustains package s1 s2"
    and ok: "imports_ok package s" "ranged s" and m: "m < modules_of s"
    and it: "UseItem sp pub p has_alias alias \<in> set (mr_items (row s m))"
  shows "\<exists>s'. resolve_use exports package m sp pub p has_alias alias s = Inr s' \<and> sustains package s s' \<and>
    (silent s s' \<longrightarrow> named s' m pub (use_name p has_alias alias))"
proof -
  let ?segs = "map id_name (path_segments p)"
  show ?thesis
  proof (cases "length (path_segments p) < 2")
    case True
    then have "resolve_use exports package m sp pub p has_alias alias s =
        Inr (report_at kAnalyzerUnresolvedImport sp ''imports must be module-qualified (`self::foo`)'' s)"
      by (simp add: resolve_use_def)
    then show ?thesis by (simp only:) (rule report_spec)
  next
    case len: False
    show ?thesis
    proof (cases "path_module package m ?segs s")
      case (Inl msg)
      then have "resolve_use exports package m sp pub p has_alias alias s =
          Inr (report_at kAnalyzerUnresolvedImport sp msg s)"
        using len by (simp add: resolve_use_def)
      then show ?thesis by (simp only:) (rule report_spec)
    next
      case (Inr c)
      have c: "c < modules_of s" using path_module_in [OF ok(2) m Inr] .
      have ne: "path_segments p \<noteq> []" using len by auto
      have l: "last ?segs = id_name (last (path_segments p))" by (rule last_map [OF ne])
      have u: "use_of package s m pub (use_name p has_alias alias) c (id_name (last (path_segments p)))"
        unfolding use_of_def using m c it len Inr by (metis not_less)
      have e: "resolve_use exports package m sp pub p has_alias alias s = import_member exports m sp pub
          (use_name p has_alias alias) c (id_name (last (path_segments p))) s"
        using len Inr l by (simp add: resolve_use_def use_name_def)
      show ?thesis
        using import_member_keeps [of s package exports c, OF E [OF _ _ c] ok(1) u] unfolding e by metis
    qed
  qed
qed

definition uses_named :: "resolver \<Rightarrow> nat \<Rightarrow> bool \<Rightarrow> item list \<Rightarrow> bool" where
  "uses_named s m which its \<longleftrightarrow> (\<forall>sp p has_alias alias. UseItem sp which p has_alias alias \<in> set its \<longrightarrow>
     named s m which (use_name p has_alias alias))"

lemma uses_named_simps: "uses_named s m which []"
  "uses_named s m which (it # its) \<longleftrightarrow> uses_named s m which [it] \<and> uses_named s m which its"
  by (auto simp: uses_named_def)

lemma uses_named_grows: "enlarges s s' \<Longrightarrow> uses_named s m which its \<Longrightarrow> uses_named s' m which its"
  using named_grows by (auto simp: uses_named_def)

lemma uses_met_named: "uses_met s m its \<longleftrightarrow> uses_named s m True its \<and> uses_named s m False its"
  unfolding uses_met_def uses_named_def by (metis (full_types))

lemma resolve_uses_keeps:
  assumes E: "\<And>c s1. enlarges s0 s1 \<Longrightarrow> imports_ok package s1 \<Longrightarrow> c < modules_of s0 \<Longrightarrow>
      \<exists>s2. exports c s1 = Inr s2 \<and> sustains package s1 s2"
    and m: "m < modules_of s0"
  shows "enlarges s0 s \<Longrightarrow> imports_ok package s \<Longrightarrow> ranged s \<Longrightarrow> set its \<subseteq> set (mr_items (row s m)) \<Longrightarrow>
    \<exists>s'. resolve_uses exports package m which its s = Inr s' \<and> sustains package s s' \<and>
      (silent s s' \<longrightarrow> uses_named s' m which its)"
proof (induction its arbitrary: s)
  case Nil
  then show ?case using sustains_refl uses_named_simps(1) by simp
next
  case (Cons it its)
  have t: "same_tree s0 s" using Cons.prems(1) by (simp add: enlarges_def)
  have one: "\<exists>s1. (case it of UseItem sp pub p has_alias alias \<Rightarrow>
        if pub = which then resolve_use exports package m sp pub p has_alias alias s else Inr s
      | _ \<Rightarrow> Inr s) = Inr s1 \<and> sustains package s s1 \<and>
      (silent s s1 \<longrightarrow> uses_named s1 m which [it])"
  proof (cases "\<exists>sp p has_alias alias. it = UseItem sp which p has_alias alias")
    case True
    then obtain sp p ha al where it: "it = UseItem sp which p ha al" by blast
    have "\<exists>s2. exports c s1 = Inr s2 \<and> sustains package s1 s2"
      if "enlarges s s1" "imports_ok package s1" "c < modules_of s" for c s1
      using E enlarges_trans [OF Cons.prems(1) that(1)] that same_treeD(1) [OF t] by simp
    moreover have "m < modules_of s" "UseItem sp which p ha al \<in> set (mr_items (row s m))"
      using m same_treeD(1) [OF t] Cons.prems(4) it by simp_all
    ultimately show ?thesis
      using resolve_use_keeps [of s package exports m sp which p ha al] Cons.prems(2,3) it
      by (simp add: uses_named_def)
  next
    case False
    then have "(case it of UseItem sp pub p has_alias alias \<Rightarrow>
        if pub = which then resolve_use exports package m sp pub p has_alias alias s else Inr s
      | _ \<Rightarrow> Inr s) = Inr s" by (cases it) auto
    moreover have "uses_named s m which [it]" using False by (auto simp: uses_named_def)
    ultimately show ?thesis using sustains_refl by simp
  qed
  then obtain s1 where s1: "(case it of UseItem sp pub p has_alias alias \<Rightarrow>
        if pub = which then resolve_use exports package m sp pub p has_alias alias s else Inr s
      | _ \<Rightarrow> Inr s) = Inr s1" "sustains package s s1" "silent s s1 \<Longrightarrow> uses_named s1 m which [it]"
    by blast
  have g: "enlarges s s1" "imports_ok package s1" using s1(2) Cons.prems(2) by (simp_all add: sustains_def)
  have items: "mr_items (row s1 m) = mr_items (row s m)" using g(1) same_treeD(3) by (metis enlarges_def)
  obtain s' where s': "resolve_uses exports package m which its s1 = Inr s'" "sustains package s1 s'"
    "silent s1 s' \<Longrightarrow> uses_named s' m which its"
    using Cons.IH [OF enlarges_trans [OF Cons.prems(1) g(1)] g(2) ranged_grows [OF g(1) Cons.prems(3)]] Cons.prems(4) items
    by auto
  have g': "enlarges s1 s'" using s'(2) by (simp add: sustains_def)
  have "resolve_uses exports package m which (it # its) s = Inr s'" using s1(1) s'(1) by simp
  moreover have "uses_named s' m which (it # its)" if "silent s s'"
    using that s1(3) s'(3) silent_trans [OF g(1) g'] uses_named_grows [OF g'] uses_named_simps(2) by blast
  ultimately show ?case using sustains_trans [OF s1(2) s'(2)] by blast
qed

subsection \<open>Re-exports\<close>

definition fresh :: "resolver \<Rightarrow> nat set" where
  "fresh s = {k. k < modules_of s \<and> mr_state (row s k) \<notin> {1, 2}}"

lemma finite_fresh [simp]: "finite (fresh s)"
  by (simp add: fresh_def)

lemma fresh_grows: "enlarges s s' \<Longrightarrow> card (fresh s') \<le> card (fresh s)"
proof -
  assume g: "enlarges s s'"
  have t: "modules_of s' = modules_of s" using g by (simp add: enlarges_def same_tree_def)
  have "mr_state (row s' k) \<in> {1, 2}" if "k < modules_of s" "mr_state (row s k) \<in> {1, 2}" for k
    using g that unfolding enlarges_def by blast
  then have "fresh s' \<subseteq> fresh s" unfolding fresh_def t by blast
  then show ?thesis by (rule card_mono [OF finite_fresh])
qed

lemma set_state_row:
  "m < modules_of s \<Longrightarrow> row (set_state m st s) k = (if k = m then (row s m)\<lparr>mr_state := st\<rparr> else row s k)"
  using row_set_row_all [of m s "\<lambda>r. r\<lparr>mr_state := st\<rparr>"] by (simp add: set_state_def)

lemma set_state_grows:
  assumes m: "m < modules_of s" and st: "st = 2 \<or> st = 1 \<and> mr_state (row s m) \<noteq> 2"
  shows "enlarges s (set_state m st s)" "silent s (set_state m st s)"
    "imports_ok package s \<Longrightarrow> imports_ok package (set_state m st s)"
proof -
  have t: "same_tree s (set_state m st s)"
    using set_state_row [OF m] by (simp add: same_tree_def tree_part_def set_state_def)
  have imp: "mr_imports (row (set_state m st s) k) = mr_imports (row s k)" for k
    using set_state_row [OF m] by simp
  have "rs_bag (set_state m st s) = rs_bag s" by (simp add: set_state_def)
  then show g: "enlarges s (set_state m st s)"
    using t imp set_state_row [OF m] st by (auto simp: enlarges_def)
  show "silent s (set_state m st s)" by (simp add: set_state_def silent_def)
  show "imports_ok package (set_state m st s)" if "imports_ok package s"
    using that import_ok_grows [OF g] same_treeD(1) [OF t] imp unfolding imports_ok_def by simp
qed

text \<open>
  Every nested call marks a fresh module, so the number of fresh modules bounds the depth.
\<close>

lemma resolve_exports_keeps:
  "m < modules_of s \<Longrightarrow> ranged s \<Longrightarrow> imports_ok package s \<Longrightarrow> card (fresh s) < n \<Longrightarrow>
    \<exists>s'. resolve_exports n package m s = Inr s' \<and> sustains package s s' \<and> mr_state (row s' m) = 2"
proof (induction n arbitrary: m s)
  case (Suc n)
  note m = Suc.prems(1)
  show ?case
  proof (cases "mr_state (row s m) = 2")
    case True
    then show ?thesis using sustains_refl by simp
  next
    case not2: False
    show ?thesis
    proof (cases "mr_state (row s m) = 1")
      case True
      let ?r = "report_at kAnalyzerUnresolvedImport
          (case mr_items (row s m) of [] \<Rightarrow> empty_span | it # its \<Rightarrow> item_span it) ''dependency cycle in re-exports'' s"
      have r: "sustains package s ?r" "\<not> silent s ?r" using report_keeps by blast+
      have mr: "m < modules_of ?r" using m by simp
      note S = set_state_grows [OF mr, of 2]
      have gr: "enlarges s ?r" using r(1) by (simp add: sustains_def)
      have "\<not> silent s (set_state m 2 ?r)" using silent_trans [OF gr S(1)] r(2) by simp
      then have "sustains package s (set_state m 2 ?r)"
        using enlarges_trans [OF gr S(1)] S(3) r(1) by (simp add: sustains_def)
      moreover have "resolve_exports (Suc n) package m s = Inr (set_state m 2 ?r)" using not2 True by simp
      moreover have "mr_state (row (set_state m 2 ?r) m) = 2" using set_state_row [OF mr] by simp
      ultimately show ?thesis by blast
    next
      case not1: False
      let ?s0 = "set_state m 1 s"
      note S0 = set_state_grows [OF m, of 1]
      have g0: "enlarges s ?s0" "silent s ?s0" "imports_ok package ?s0" using S0 not2 Suc.prems(3) by simp_all
      have t0: "same_tree s ?s0" using g0(1) by (simp add: enlarges_def)
      have m0: "m < modules_of ?s0" using m same_treeD(1) [OF t0] by simp
      have "fresh ?s0 = fresh s - {m}"
        using set_state_row [OF m] same_treeD(1) [OF t0] by (auto simp: fresh_def)
      moreover have "m \<in> fresh s" using m not1 not2 by (simp add: fresh_def)
      ultimately have f0: "card (fresh ?s0) < n" using Suc.prems(4) card_Diff1_less [OF finite_fresh] by fastforce
      have r0: "ranged ?s0" using ranged_grows [OF g0(1) Suc.prems(2)] .
      have E: "\<exists>s2. resolve_exports n package c s1 = Inr s2 \<and> sustains package s1 s2"
        if "enlarges ?s0 s1" "imports_ok package s1" "c < modules_of ?s0" for c s1
      proof -
        have "c < modules_of s1" using that(3) enlarges_count [OF that(1)] by simp
        then show ?thesis
          using Suc.IH [of c s1] ranged_grows [OF that(1) r0] that(2) fresh_grows [OF that(1)] f0 by fastforce
      qed
      have i0: "mr_items (row s m) = mr_items (row ?s0 m)" using same_treeD(3) [OF t0] by simp
      obtain s1 where s1: "resolve_uses (resolve_exports n package) package m True (mr_items (row s m)) ?s0 = Inr s1"
        "sustains package ?s0 s1" "silent ?s0 s1 \<Longrightarrow> uses_named s1 m True (mr_items (row s m))"
        using resolve_uses_keeps [where exports = "resolve_exports n package", OF E m0 enlarges_refl g0(3) r0, where its = "mr_items (row s m)" and which = True] i0 by auto
      have g1: "enlarges ?s0 s1" "imports_ok package s1" using s1(2) g0(3) by (simp_all add: sustains_def)
      have r1: "ranged s1" using ranged_grows [OF g1(1) r0] .
      obtain s2 where s2: "resolve_uses (resolve_exports n package) package m False (mr_items (row s1 m)) s1 = Inr s2"
        "sustains package s1 s2" "silent s1 s2 \<Longrightarrow> uses_named s2 m False (mr_items (row s1 m))"
        using resolve_uses_keeps [where exports = "resolve_exports n package", OF E m0 g1(1) g1(2) r1 subset_refl, where which = False] by auto
      have g2: "enlarges s1 s2" "imports_ok package s2" using s2(2) g1(2) by (simp_all add: sustains_def)
      have g: "enlarges s s2" using enlarges_trans [OF enlarges_trans [OF g0(1) g1(1)] g2(1)] .
      have t: "same_tree s s2" using g by (simp add: enlarges_def)
      have m2: "m < modules_of s2" using m same_treeD(1) [OF t] by simp
      note S2 = set_state_grows [OF m2, of 2]
      have "settled (set_state m 2 s2)" if "silent s s2" "settled s"
      proof -
        have q: "silent ?s0 s1" "silent s1 s2"
          using that(1) silent_trans [OF enlarges_trans [OF g0(1) g1(1)] g2(1)] silent_trans [OF g0(1) g1(1)] by simp_all
        have "settled ?s0"
          using that(2) set_state_row [OF m] same_treeD(1) [OF t0] uses_met_grows [OF g0(1)] by (auto simp: settled_def)
        then have s2ok: "settled s2" using s1(2) s2(2) q by (simp add: sustains_def)
        have items: "mr_items (row s2 m) = mr_items (row s m)" "mr_items (row s1 m) = mr_items (row s m)"
          using same_treeD(3) [OF t] enlarges_trans [OF g0(1) g1(1)] same_treeD(3) by (simp_all add: enlarges_def)
        have "uses_met s2 m (mr_items (row s2 m))"
          unfolding uses_met_named items(1) using s1(3) s2(3) q uses_named_grows [OF g2(1)] items(2) by simp
        then have "uses_met (set_state m 2 s2) m (mr_items (row s2 m))"
          using uses_met_grows S2(1) by simp
        moreover have "uses_met (set_state m 2 s2) k (mr_items (row s2 k))"
          if "k < modules_of s2" "mr_state (row s2 k) = 2" for k
          using s2ok that uses_met_grows S2(1) by (simp add: settled_def)
        ultimately show ?thesis
          using set_state_row [OF m2] by (auto simp: settled_def set_state_def)
      qed
      moreover have "silent s (set_state m 2 s2) \<longleftrightarrow> silent s s2"
        using S2(1,2) silent_trans [OF g] by simp
      ultimately have "sustains package s (set_state m 2 s2)"
        using enlarges_trans [OF g] S2(1,3) g2(2) by (simp add: sustains_def)
      moreover have "resolve_exports (Suc n) package m s = Inr (set_state m 2 s2)"
        using not1 not2 s1(1) s2(1) by simp
      moreover have "mr_state (row (set_state m 2 s2) m) = 2" using set_state_row [OF m2] by simp
      ultimately show ?thesis by blast
    qed
  qed
qed simp

lemma resolve_all_keeps:
  "ranged s \<Longrightarrow> imports_ok package s \<Longrightarrow> card (fresh s) < n \<Longrightarrow> \<forall>m \<in> set ms. m < modules_of s \<Longrightarrow>
    \<exists>s'. resolve_all n package ms s = Inr s' \<and> sustains package s s' \<and> (\<forall>m \<in> set ms. mr_state (row s' m) = 2)"
proof (induction ms arbitrary: s)
  case (Cons m ms)
  obtain s1 where s1: "resolve_exports n package m s = Inr s1" "sustains package s s1" "mr_state (row s1 m) = 2"
    using resolve_exports_keeps [of m s package n] Cons.prems by auto
  have g: "enlarges s s1" "imports_ok package s1" using s1(2) Cons.prems(2) by (simp_all add: sustains_def)
  have t: "modules_of s1 = modules_of s" using g(1) by (simp add: enlarges_def same_tree_def)
  obtain s' where s': "resolve_all n package ms s1 = Inr s'" "sustains package s1 s'" "\<forall>m \<in> set ms. mr_state (row s' m) = 2"
    using Cons.IH [OF ranged_grows [OF g(1) Cons.prems(1)] g(2)] fresh_grows [OF g(1)] Cons.prems(3,4) t by fastforce
  have "mr_state (row s' m) = 2"
    using s'(2) s1(3) Cons.prems(4) t by (simp add: sustains_def enlarges_def)
  then show ?case using s1(1) s' sustains_trans [OF s1(2) s'(2)] by auto
qed (use sustains_refl in simp)

subsection \<open>The imports of a package\<close>

definition locals_in :: "item list \<Rightarrow> string list \<Rightarrow> namespace \<Rightarrow> string set" where
  "locals_in its kids ns = (case ns of NsType \<Rightarrow> set (concat (map local_type_names its))
     | NsValue \<Rightarrow> set (concat (map local_value_names its)) | NsModule \<Rightarrow> set kids)"

lemma collect_locals_row:
  "m < modules_of s \<Longrightarrow> row (collect_locals s) m = collect_row s (row s m)"
  by (simp add: row_def collect_locals_def)

lemma resolve_imports_run:
  assumes l: "tree_links s" and b: "\<forall>m < modules_of s. blank_row (row s m)"
  shows "\<exists>s' new. resolve_imports package s = Inr s' \<and> imports_ok package s' \<and>
    entries (rs_bag s') = entries (rs_bag s) @ new \<and> list_all is_error new \<and>
    (new = [] \<longrightarrow> (\<forall>m < modules_of s'. uses_met s' m (mr_items (row s' m)))) \<and>
    modules_of s' = modules_of s \<and>
    (\<forall>m < modules_of s. key_of (row s' m) = key_of (row s m) \<and> mr_children (row s' m) = mr_children (row s m) \<and>
      (\<forall>ns. set (locals_of ns (row s' m)) =
        locals_in (mr_items (row s m)) (map (name_of_module s) (mr_children (row s m))) ns))"
proof -
  let ?c = "collect_locals s"
  have n: "modules_of ?c = modules_of s" by (simp add: collect_locals_def)
  have r: "row ?c m = collect_row s (row s m)" if "m < modules_of s" for m by (rule collect_locals_row [OF that])
  have part: "mr_imports (row ?c m) = []" "mr_state (row ?c m) = 0" "key_of (row ?c m) = key_of (row s m)"
    "mr_children (row ?c m) = mr_children (row s m)" "mr_items (row ?c m) = mr_items (row s m)"
    "mr_parent (row ?c m) = mr_parent (row s m)" if "m < modules_of s" for m
    using b that r [OF that] by (simp_all add: blank_row_def collect_row_def key_of_def)
  have loc: "set (locals_of ns (row ?c m)) = locals_in (mr_items (row s m)) (map (name_of_module s) (mr_children (row s m))) ns"
    if "m < modules_of s" for ns m
    using b that r [OF that] by (cases ns) (simp_all add: blank_row_def collect_row_def locals_of_def locals_in_def)
  have kids: "c < modules_of s" if "k < modules_of s" "c \<in> set (mr_children (row s k))" for k c
    using l that unfolding tree_links_def by blast
  have z: "0 < modules_of s" using l unfolding tree_links_def by blast
  have up: "p < modules_of s" if "k < modules_of s" "mr_parent (row s k) = Some p" for k p
  proof -
    have "case mr_parent (row s k) of None \<Rightarrow> k = 0 \<and> mr_path (row s k) = []
      | Some p \<Rightarrow> p < k \<and> k \<in> set (mr_children (row s p)) \<and>
          mr_path (row s k) = child_path (mr_path (row s p)) (name_of_module s k)"
      using l that(1) unfolding tree_links_def by blast
    then have "p < k" by (simp only: that(2) option.case simp_thms)
    then show ?thesis using that by simp
  qed
  have "(\<forall>c \<in> set (mr_children (row ?c k)). c < modules_of s) \<and> (\<forall>p. mr_parent (row ?c k) = Some p \<longrightarrow> p < modules_of s)"
    if "k < modules_of s" for k
    unfolding part(4) [OF that] part(6) [OF that] using kids [OF that] up [OF that] by blast
  then have rg: "ranged ?c" unfolding ranged_def n using z by blast
  have ok: "imports_ok package ?c"
    using part(1) n by (simp add: imports_ok_def)
  have "fresh ?c \<subseteq> {..<modules_of s}" by (auto simp: fresh_def n)
  then have f: "card (fresh ?c) < Suc (modules_of s)"
    by (metis card_lessThan card_mono finite_lessThan le_imp_less_Suc)
  obtain s' where s': "resolve_imports package s = Inr s'" "sustains package ?c s'"
    "\<forall>m < modules_of s. mr_state (row s' m) = 2"
    using resolve_all_keeps [OF rg ok f, of "[0..<modules_of s]"] n by (auto simp: resolve_imports_def)
  have g: "enlarges ?c s'" and ok': "imports_ok package s'" using s'(2) ok by (simp_all add: sustains_def)
  have t: "same_tree ?c s'" using g by (simp add: enlarges_def)
  note D = same_treeD [OF t]
  have bag: "rs_bag ?c = rs_bag s" by (simp add: collect_locals_def)
  obtain new where new: "entries (rs_bag s') = entries (rs_bag s) @ new" "list_all is_error new"
    using g by (auto simp: enlarges_def bag)
  have met: "\<forall>m < modules_of s'. uses_met s' m (mr_items (row s' m))" if "new = []"
  proof -
    have "settled ?c" using part(2) n by (simp add: settled_def)
    then have "settled s'" using s'(2) new(1) that by (simp add: sustains_def silent_def bag)
    then show ?thesis using s'(3) D(1) n by (simp add: settled_def)
  qed
  show ?thesis
    by (intro exI [of _ s'] exI [of _ new] conjI impI allI)
      (use s'(1) ok' new met D part(3,4) n loc in simp_all)
qed

lemma build_tree_blank:
  assumes "files_ok fs" and "\<forall>f \<in> set fs. fd_module f = None" and "root \<in> set fs"
  obtains s where "build_tree win (fd_id root) (start fs bag) = Some (Inr s)" "tree_links s"
    "\<forall>m < modules_of s. blank_row (row s m)"
proof -
  obtain s where s: "build_tree win (fd_id root) (start fs bag) = Some (Inr s)" "tree_links s"
    "sound_rows win fs root s"
    using build_tree_run [OF assms, of win bag] by metis
  then show thesis using that [of s] by (simp add: sound_rows_def)
qed

text \<open>
  C10. Resolving imports ends, whatever cycles the re-exports form, and its result is well typed:
  every import of a module stands for a name that its target declares in that namespace; it
  comes from a \<open>use\<close> item of the module whose path leads to a module where the name denotes
  that target; no import has the name of a local or of another import of the same namespace. If
  nothing is reported, every \<open>use\<close> item has an import. The tree does not change.
\<close>

theorem resolve_imports_spec:
  assumes "files_ok fs" and "\<forall>f \<in> set fs. fd_module f = None" and "root \<in> set fs"
    and "build_tree win (fd_id root) (start fs bag) = Some (Inr s)"
  shows "\<exists>s' new. resolve_imports package s = Inr s' \<and> imports_ok package s' \<and>
    entries (rs_bag s') = entries (rs_bag s) @ new \<and> list_all is_error new \<and>
    (new = [] \<longrightarrow> (\<forall>m < modules_of s'. uses_met s' m (mr_items (row s' m)))) \<and>
    modules_of s' = modules_of s \<and>
    (\<forall>m < modules_of s. key_of (row s' m) = key_of (row s m) \<and> mr_children (row s' m) = mr_children (row s m) \<and>
      (\<forall>ns. set (locals_of ns (row s' m)) =
        locals_in (mr_items (row s m)) (map (name_of_module s) (mr_children (row s m))) ns))"
proof -
  have "tree_links s" "\<forall>m < modules_of s. blank_row (row s m)"
    using build_tree_blank [OF assms(1-3), of win bag] assms(4) by auto
  then show ?thesis by (rule resolve_imports_run)
qed

lemma lex_parse_files_run: "\<exists>files bag'. lex_parse_files sm fs bag = Inr (files, bag')"
proof (induction fs arbitrary: bag)
  case (Cons f fs)
  obtain items bag1 where p: "parse_source (bytes_of sm (fd_id f)) (fd_id f) bag = Inr (items, bag1)"
    using parse_source_run [of "bytes_of sm (fd_id f)" "fd_id f" bag] by blast
  obtain items' bag2 where d: "desugar_shadowing items bag1 = (items', bag2)" by fastforce
  obtain fs' bag3 where "lex_parse_files sm fs bag2 = Inr (fs', bag3)" using Cons.IH by blast
  then show ?case using p d by (simp add: lex_parse_file_def)
qed simp

text \<open>
  C38. Module resolution returns a tree: the files are always parsed, and when they carry
  different ids, canonical paths and module names that are identifiers, and the root file is
  among them, neither the worklist nor the recursion over re-exports runs on, and no table is
  read outside its bounds.
\<close>

theorem resolve_modules_returns:
  assumes "fold (open_file win sm) ids ([], bag) = (opened, bag1)"
  shows "\<exists>files bag2. lex_parse_files sm opened bag1 = Inr (files, bag2) \<and>
    (files_ok files \<and> (\<forall>f \<in> set files. fd_module f = None) \<and> root \<in> fd_id ` set files \<longrightarrow>
      (\<exists>tree bag3. resolve_modules win sm root ids package bag = Some (Inr (tree, bag3))))"
proof -
  obtain files bag2 where l: "lex_parse_files sm opened bag1 = Inr (files, bag2)"
    using lex_parse_files_run by blast
  have "\<exists>tree bag3. resolve_modules win sm root ids package bag = Some (Inr (tree, bag3))"
    if ok: "files_ok files" "\<forall>f \<in> set files. fd_module f = None" and r: "root \<in> fd_id ` set files"
  proof -
    obtain f where f: "f \<in> set files" "fd_id f = root" using r by auto
    obtain s where s: "build_tree win root (start files bag2) = Some (Inr s)" "tree_links s"
      "\<forall>m < modules_of s. blank_row (row s m)"
      using build_tree_blank [OF ok f(1), of win bag2] f(2) by auto
    obtain s' where "resolve_imports package s = Inr s'"
      using resolve_imports_run [OF s(2,3), of package] by (elim exE conjE) (rule that)
    then have "resolve_files win root package files bag2 = Some (Inr (tree_of s', rs_bag s'))"
      using s(1) by (simp add: resolve_files_def start_def)
    then show ?thesis using l assms by (simp add: resolve_modules_def)
  qed
  then show ?thesis using l by blast
qed

subsection \<open>Small packages\<close>

lemma resolve_imports_spec_witness:
  "\<exists>s s' new. build_tree False 0 (start sample_files empty_bag) = Some (Inr s) \<and>
     resolve_imports ''pkg'' s = Inr s' \<and> imports_ok ''pkg'' s' \<and> entries (rs_bag s') = entries (rs_bag s) @ new"
proof -
  obtain s where s: "build_tree False (fd_id sample_root) (start sample_files empty_bag) = Some (Inr s)"
    using build_tree_blank sample_files_ok by metis
  have "fd_id sample_root = 0" by (simp add: sample_root_def loaded_def)
  with s resolve_imports_spec [of sample_files sample_root False empty_bag s "''pkg''"] sample_files_ok
  show ?thesis by metis
qed

definition sample_sources :: source_manager where
  "sample_sources = [\<lparr>mapping = Some ''mod a { }'', entry_path = ''p/main.al''\<rparr>]"

lemma sample_opened:
  "fold (open_file False sample_sources) [0] ([], empty_bag) =
     ([\<lparr>fd_id = 0, fd_dir = Path ''p'', fd_path = Path ''p/main.al'', fd_items = [], fd_module = None\<rparr>], empty_bag)"
  by code_simp

lemma sample_parsed:
  "case lex_parse_files sample_sources
      [\<lparr>fd_id = 0, fd_dir = Path ''p'', fd_path = Path ''p/main.al'', fd_items = [], fd_module = None\<rparr>] empty_bag of
     Inl e \<Rightarrow> False
   | Inr (files, bag) \<Rightarrow> files_ok files \<and> (\<forall>f \<in> set files. fd_module f = None) \<and> 0 \<in> fd_id ` set files"
  by code_simp

lemma resolve_modules_returns_witness:
  "\<exists>tree bag. resolve_modules False sample_sources 0 [0] ''pkg'' empty_bag = Some (Inr (tree, bag))"
  using resolve_modules_returns [OF sample_opened, of 0 "''pkg''"] sample_parsed by auto

definition use_item :: "bool \<Rightarrow> string list \<Rightarrow> item" where
  "use_item pub names = UseItem empty_span pub
     \<lparr>path_segments = map (\<lambda>n. \<lparr>id_name = n, id_span = empty_span\<rparr>) names, path_span = empty_span\<rparr>
     False empty_ident"

text \<open>The codes reported and the names imported, module by module.\<close>

definition resolved_as :: "file_data list \<Rightarrow> (u32 list \<times> string list list) option" where
  "resolved_as fs = (case resolve_files False 0 ''pkg'' fs empty_bag of
     Some (Inr (tree, bag)) \<Rightarrow> Some (map diag_code (entries bag),
       map (\<lambda>n. map im_name (mn_imports n)) (tree_modules tree))
   | _ \<Rightarrow> None)"



end
