(* ===== verification/Checker.thy ===== *)
theory Checker
  imports Module_Resolve Type_Equality "HOL-Library.Monad_Syntax"
begin

text \<open>
  The declaration pass of the type checker (\<^verbatim>\<open>src/analyzer/types.h\<close>, first part of
  \<^verbatim>\<open>src/analyzer/types.cc\<close>): nominal types are registered, every type position of a package is
  resolved to an index of the type table, and value cycles are searched. The state is the
  struct \<open>Checker\<close>. An operation takes the state and returns its result with the new state;
  \<open>None\<close> is a read outside of a table, a failed \<^verbatim>\<open>DCHECK\<close> or a recursion that needs more
  fuel. A pointer to a nominal entry is its position in the list, a pointer that may be null an
  option. The string pool is a library: the id that it gives a text is a function in the state.
\<close>

subsection \<open>State\<close>

definition kAnalyzerRecursiveType :: u32 where "kAnalyzerRecursiveType = 4210"
definition kAnalyzerUnknownType :: u32 where "kAnalyzerUnknownType = 4211"
definition kAnalyzerDuplicateDefinition :: u32 where "kAnalyzerDuplicateDefinition = 4212"
definition kAnalyzerReservedName :: u32 where "kAnalyzerReservedName = 4213"
definition kAnalyzerArityMismatch :: u32 where "kAnalyzerArityMismatch = 4214"
definition kAnalyzerGenericArguments :: u32 where "kAnalyzerGenericArguments = 4215"
definition kAnalyzerUnsupportedType :: u32 where "kAnalyzerUnsupportedType = 4216"

record nominal_entry =
  nom_module :: nat
  nom_name :: string
  nom_item :: item
  nom_span :: span
  nom_type :: nat
  nom_started :: bool
  nom_complete :: bool

record blessed_entry =
  bl_is_result :: bool
  bl_args :: "nat list"
  bl_type :: nat

datatype receiver_kind = RecvNone | RecvByValue | RecvShared | RecvExclusive

record fn_sig =
  sig_name :: string
  sig_params :: "nat list"
  sig_ret :: nat

record method_info =
  mt_self :: nat
  mt_name :: string
  mt_params :: "nat list"
  mt_ret :: nat
  mt_receiver :: receiver_kind

record static_info =
  si_name :: string
  si_type :: nat

record checked_module =
  cm_module :: nat
  cm_types :: "(string \<times> nat) list"
  cm_structs :: "(nat \<times> string list) list"
  cm_functions :: "fn_sig list"
  cm_methods :: "method_info list"
  cm_statics :: "static_info list"

record local_var =
  lv_name :: string
  lv_type :: nat
  lv_mut :: bool

text \<open>The innermost scope is the head of \<open>ck_scopes\<close>; a scope keeps its locals in order.\<close>

record checker =
  ck_tree :: module_tree
  ck_width :: pointer_width
  ck_bag :: diag_bag
  ck_store :: storage
  ck_intern :: "string \<Rightarrow> name_id"
  ck_nominals :: "nominal_entry list"
  ck_blessed :: "blessed_entry list"
  ck_modules :: "checked_module list"
  ck_parents :: "nat option list"
  ck_in_fn :: bool
  ck_scopes :: "local_var list list"
  ck_loop_depth :: nat
  ck_fn_ret :: nat

type_synonym 'a outcome = "('a \<times> checker) option"

text \<open>A read of a table, and the ways to use the builder and the bag.\<close>

definition fetch :: "'a list \<Rightarrow> nat \<Rightarrow> 'a option" where
  "fetch xs i = (if i < length xs then Some (xs ! i) else None)"

definition complain :: "u32 \<Rightarrow> span \<Rightarrow> string \<Rightarrow> checker \<Rightarrow> checker" where
  "complain code sp message s = s\<lparr>ck_bag := emit_at SevError code sp message (ck_bag s)\<rparr>"

definition build :: "'a building \<Rightarrow> checker \<Rightarrow> 'a outcome" where
  "build f s = (case f (ck_store s) of (x, st) \<Rightarrow> Some (x, s\<lparr>ck_store := st\<rparr>))"

definition build_checked :: "(storage \<Rightarrow> ('a \<times> storage) option) \<Rightarrow> checker \<Rightarrow> 'a outcome" where
  "build_checked f s =
     (case f (ck_store s) of None \<Rightarrow> None | Some (x, st) \<Rightarrow> Some (x, s\<lparr>ck_store := st\<rparr>))"

definition change_store :: "(storage \<Rightarrow> storage option) \<Rightarrow> checker \<Rightarrow> checker option" where
  "change_store f s = (case f (ck_store s) of None \<Rightarrow> None | Some st \<Rightarrow> Some (s\<lparr>ck_store := st\<rparr>))"

definition prim :: "type_tag \<Rightarrow> checker \<Rightarrow> nat outcome" where
  "prim tag s = map_option (\<lambda>i. (i, s)) (primitive tag)"

text \<open>An error diagnostic behind which the error type is the result.\<close>

definition reject :: "u32 \<Rightarrow> span \<Rightarrow> string \<Rightarrow> checker \<Rightarrow> nat outcome" where
  "reject code sp message s = build error_type (complain code sp message s)"

definition nominal :: "nat \<Rightarrow> checker \<Rightarrow> nominal_entry option" where
  "nominal e s = fetch (ck_nominals s) e"

definition set_nominal :: "nat \<Rightarrow> (nominal_entry \<Rightarrow> nominal_entry) \<Rightarrow> checker \<Rightarrow> checker" where
  "set_nominal e f s = s\<lparr>ck_nominals := (ck_nominals s)[e := f (ck_nominals s ! e)]\<rparr>"

definition set_module :: "nat \<Rightarrow> (checked_module \<Rightarrow> checked_module) \<Rightarrow> checker \<Rightarrow> checker" where
  "set_module m f s = s\<lparr>ck_modules := (ck_modules s)[m := f (ck_modules s ! m)]\<rparr>"

definition module_at :: "nat \<Rightarrow> checker \<Rightarrow> module_node option" where
  "module_at m s = fetch (tree_modules (ck_tree s)) m"

text \<open>Views of a node of the type table.\<close>

definition node_at :: "nat \<Rightarrow> checker \<Rightarrow> type_node option" where
  "node_at i s = fetch (types (ck_store s)) i"

definition tag_at :: "nat \<Rightarrow> checker \<Rightarrow> type_tag option" where
  "tag_at i s = map_option node_tag (node_at i s)"

definition pointee_at :: "nat \<Rightarrow> checker \<Rightarrow> nat option" where
  "pointee_at i s = do {
     node \<leftarrow> node_at i s;
     r \<leftarrow> as_ref node;
     info \<leftarrow> fetch (ref_types (ck_store s)) r;
     Some (ref_pointee info)
   }"

subsection \<open>Registering nominal types\<close>

fun nominal_ident :: "item \<Rightarrow> ident option" where
  "nominal_ident (StructItem sp pub name fs) = Some name"
| "nominal_ident (EnumItem sp pub name vs) = Some name"
| "nominal_ident _ = None"

fun is_struct_item :: "item \<Rightarrow> bool" where
  "is_struct_item (StructItem sp pub name fs) = True"
| "is_struct_item _ = False"

fun is_enum_item :: "item \<Rightarrow> bool" where
  "is_enum_item (EnumItem sp pub name vs) = True"
| "is_enum_item _ = False"

text \<open>The casts \<^verbatim>\<open>static_cast<const StructItem*>\<close> and \<^verbatim>\<open>static_cast<const EnumItem*>\<close>.\<close>

fun decl_fields :: "item \<Rightarrow> struct_field list" where
  "decl_fields (StructItem sp pub name fs) = fs"
| "decl_fields _ = []"

fun decl_variants :: "item \<Rightarrow> enum_variant list" where
  "decl_variants (EnumItem sp pub name vs) = vs"
| "decl_variants _ = []"

definition find_nominal :: "nat \<Rightarrow> string \<Rightarrow> checker \<Rightarrow> nat option" where
  "find_nominal m name s = first_index (\<lambda>e. nom_module e = m \<and> nom_name e = name) (ck_nominals s)"

definition is_reserved_name :: "string \<Rightarrow> bool" where
  "is_reserved_name name \<longleftrightarrow> name = ''Result'' \<or> name = ''Option''"

definition register_item :: "nat \<Rightarrow> item \<Rightarrow> checker \<Rightarrow> checker" where
  "register_item m it s =
     (case nominal_ident it of
        None \<Rightarrow> s
      | Some name \<Rightarrow>
          if is_reserved_name (id_name name) then
            complain kAnalyzerReservedName (id_span name)
              (quoted [] (id_name name) '' is reserved for the blessed type'') s
          else if find_nominal m (id_name name) s \<noteq> None then
            complain kAnalyzerDuplicateDefinition (id_span name)
              (quoted ''duplicate definition of '' (id_name name) []) s
          else s\<lparr>ck_nominals := ck_nominals s @
            [\<lparr>nom_module = m, nom_name = id_name name, nom_item = it, nom_span = id_span name,
              nom_type = 0, nom_started = False, nom_complete = False\<rparr>]\<rparr>)"

definition register_nominals :: "checker \<Rightarrow> checker" where
  "register_nominals s =
     fold (\<lambda>(m, node) s. fold (register_item m) (mn_items node) s)
       (List.enumerate 0 (tree_modules (ck_tree s))) s"

subsection \<open>Paths\<close>

definition tail_name :: "string \<Rightarrow> string" where
  "tail_name p = (case find_last_of (CHR '':'') p of None \<Rightarrow> p | Some i \<Rightarrow> drop (i + 1) p)"

definition child_named :: "nat \<Rightarrow> string \<Rightarrow> checker \<Rightarrow> nat option" where
  "child_named m name s =
     find (\<lambda>i. ck_parents s ! i = Some m \<and> tail_name (mn_path (tree_modules (ck_tree s) ! i)) = name)
       [0 ..< length (tree_modules (ck_tree s))]"

definition parent_of :: "nat \<Rightarrow> checker \<Rightarrow> nat option option" where
  "parent_of m s = fetch (ck_parents s) m"

text \<open>The inner result is \<open>None\<close> when a diagnostic was reported and the path has no module.\<close>

fun walk_children :: "string \<Rightarrow> span \<Rightarrow> nat \<Rightarrow> string list \<Rightarrow> checker \<Rightarrow> nat option outcome" where
  "walk_children what sp m [] s = Some (Some m, s)"
| "walk_children what sp m (name # names) s =
     (case child_named m name s of
        None \<Rightarrow> Some (None, complain kAnalyzerUnknownType sp
                  (quoted (''unresolved '' @ what @ '' '') name []) s)
      | Some c \<Rightarrow> walk_children what sp c names s)"

definition is_path_keyword :: "string \<Rightarrow> bool" where
  "is_path_keyword head \<longleftrightarrow> head = ''package'' \<or> head = ''self'' \<or> head = ''super''"

definition walk_module_prefix ::
  "string \<Rightarrow> nat \<Rightarrow> ast_path \<Rightarrow> checker \<Rightarrow> nat option outcome" where
  "walk_module_prefix what m p s =
     (let names = map id_name (path_segments p); sp = path_span p in do {
        head \<leftarrow> fetch names 0;
        if length names = 1 then Some (Some m, s)
        else let inner = tl (butlast names) in
          if head = ''package'' then walk_children what sp (tree_root (ck_tree s)) inner s
          else if head = ''self'' then walk_children what sp m inner s
          else if head = ''super'' then do {
            up \<leftarrow> parent_of m s;
            (case up of
               None \<Rightarrow> Some (None, complain kAnalyzerUnknownType sp ''the root module has no parent'' s)
             | Some c \<Rightarrow> walk_children what sp c inner s)
          }
          else walk_children what sp m (head # inner) s
      })"

definition path_name :: "ast_path \<Rightarrow> string" where
  "path_name p = id_name (last (path_segments p))"

definition resolve_type_path :: "nat \<Rightarrow> ast_path \<Rightarrow> checker \<Rightarrow> (nat \<times> string) option outcome" where
  "resolve_type_path m p s =
     (if path_segments p = [] then Some (None, s)
      else do {
        (target, s) \<leftarrow> walk_module_prefix ''type'' m p s;
        Some (map_option (\<lambda>t. (t, path_name p)) target, s)
      })"

subsection \<open>Types\<close>

fun pointer_sized :: "pointer_width \<Rightarrow> type_tag \<Rightarrow> type_tag \<Rightarrow> type_tag" where
  "pointer_sized W64 wide narrow = wide"
| "pointer_sized W32 wide narrow = narrow"

definition primitive_type :: "primitive_kind \<Rightarrow> span \<Rightarrow> checker \<Rightarrow> nat outcome" where
  "primitive_type kind sp s =
     (case kind of
        PrimI8 \<Rightarrow> prim TyI8 s | PrimI16 \<Rightarrow> prim TyI16 s | PrimI32 \<Rightarrow> prim TyI32 s
      | PrimI64 \<Rightarrow> prim TyI64 s | PrimIsize \<Rightarrow> prim (pointer_sized (ck_width s) TyI64 TyI32) s
      | PrimU8 \<Rightarrow> prim TyU8 s | PrimU16 \<Rightarrow> prim TyU16 s | PrimU32 \<Rightarrow> prim TyU32 s
      | PrimU64 \<Rightarrow> prim TyU64 s | PrimUsize \<Rightarrow> prim (pointer_sized (ck_width s) TyU64 TyU32) s
      | PrimF32 \<Rightarrow> prim TyF32 s | PrimF64 \<Rightarrow> prim TyF64 s | PrimBool \<Rightarrow> prim TyI1 s
      | PrimStr \<Rightarrow> prim TyStr s
      | PrimI128 \<Rightarrow> reject kAnalyzerUnsupportedType sp ''type is not supported in MVP'' s
      | PrimU128 \<Rightarrow> reject kAnalyzerUnsupportedType sp ''type is not supported in MVP'' s)"

definition classify_receiver :: "nat \<Rightarrow> nat \<Rightarrow> checker \<Rightarrow> receiver_kind option" where
  "classify_receiver param self s =
     (if param = self then Some RecvByValue
      else do {
        tag \<leftarrow> tag_at param s;
        if tag = TyRef \<or> tag = TyMutRef then do {
          p \<leftarrow> pointee_at param s;
          Some (if p = self then (if tag = TyRef then RecvShared else RecvExclusive) else RecvNone)
        }
        else Some RecvNone
      })"

text \<open>A loop that resolves a row of types, from left to right.\<close>

fun resolve_each :: "('a \<Rightarrow> checker \<Rightarrow> 'b outcome) \<Rightarrow> 'a list \<Rightarrow> checker \<Rightarrow> 'b list outcome" where
  "resolve_each r [] s = Some ([], s)"
| "resolve_each r (t # ts) s = do {
     (i, s) \<leftarrow> r t s;
     (is, s) \<leftarrow> resolve_each r ts s;
     Some (i # is, s)
   }"

lemma resolve_each_cong [fundef_cong]:
  "xs = ys \<Longrightarrow> (\<And>x. x \<in> set ys \<Longrightarrow> f x = g x) \<Longrightarrow> resolve_each f xs = resolve_each g ys"
proof (induction xs arbitrary: ys)
  case (Cons x xs)
  then show ?case by (cases ys) (auto intro!: ext)
qed auto

text \<open>Copies of a row of types, as a range.\<close>

definition copied_row :: "nat list \<Rightarrow> checker \<Rightarrow> idx_range outcome" where
  "copied_row ts s = build_checked (copy_types ts empty_seq) s"

fun add_variants :: "(string \<times> nat list) list \<Rightarrow> seq_builder \<Rightarrow> checker \<Rightarrow> idx_range outcome" where
  "add_variants [] q s = Some (seq_finish q, s)"
| "add_variants ((name, payload) # vs) q s = do {
     (fs, s) \<leftarrow> copied_row payload s;
     (v, s) \<leftarrow> build (enum_variant (ck_intern s name) fs) s;
     q \<leftarrow> seq_push v q;
     add_variants vs q s
   }"

definition intern_nominal ::
  "(nat \<Rightarrow> type_expr \<Rightarrow> nat option \<Rightarrow> checker \<Rightarrow> nat outcome) \<Rightarrow> nat \<Rightarrow> checker \<Rightarrow> nat outcome" where
  "intern_nominal resolve e s = do {
     entry \<leftarrow> nominal e s;
     if nom_complete entry \<or> nom_started entry then Some (nom_type entry, s)
     else let name = ck_intern s (nom_name entry) in do {
       (t, s) \<leftarrow> (if is_struct_item (nom_item entry) then build (reserve_struct name) s
                 else build (reserve_enum name) s);
       let s = set_nominal e (\<lambda>n. n\<lparr>nom_type := t, nom_started := True\<rparr>) s;
       s \<leftarrow> (if is_struct_item (nom_item entry) then do {
               (fs, s) \<leftarrow> resolve_each (\<lambda>f. resolve (nom_module entry) (field_type f) None)
                 (decl_fields (nom_item entry)) s;
               (row, s) \<leftarrow> copied_row fs s;
               change_store (fill_struct t row) s
             }
             else do {
               (payloads, s) \<leftarrow> resolve_each
                 (\<lambda>v. resolve_each (\<lambda>f. resolve (nom_module entry) f None) (enum_variant.variant_fields v))
                 (decl_variants (nom_item entry)) s;
               (vs, s) \<leftarrow> add_variants
                 (zip (map (\<lambda>v. id_name (enum_variant.variant_name v)) (decl_variants (nom_item entry))) payloads)
                 empty_seq s;
               change_store (fill_enum t vs) s
             });
       Some (t, set_nominal e (\<lambda>n. n\<lparr>nom_complete := True\<rparr>) s)
     }
   }"

definition intern_blessed :: "bool \<Rightarrow> nat list \<Rightarrow> checker \<Rightarrow> nat outcome" where
  "intern_blessed is_result args s =
     (case find (\<lambda>b. bl_is_result b = is_result \<and> bl_args b = args) (ck_blessed s) of
        Some b \<Rightarrow> Some (bl_type b, s)
      | None \<Rightarrow> do {
          arg0 \<leftarrow> fetch args 0;
          (v1, s) \<leftarrow> build (enum_variant (ck_intern s (if is_result then ''Ok'' else ''Some'')) (mk_range arg0 1)) s;
          q \<leftarrow> seq_push v1 empty_seq;
          payload \<leftarrow> (if is_result then map_option (\<lambda>a. mk_range a 1) (fetch args 1)
                      else Some (seq_finish empty_seq));
          (v2, s) \<leftarrow> build (enum_variant (ck_intern s (if is_result then ''Err'' else ''None'')) payload) s;
          q \<leftarrow> seq_push v2 q;
          (t, s) \<leftarrow> build (enum_type (ck_intern s (if is_result then ''Result'' else ''Option'')) (seq_finish q)) s;
          Some (t, s\<lparr>ck_blessed := ck_blessed s @ [\<lparr>bl_is_result = is_result, bl_args = args, bl_type = t\<rparr>]\<rparr>)
        })"

text \<open>A name of one segment is looked up in the imports of the module as well.\<close>

definition imported_nominal :: "import_entry list \<Rightarrow> string \<Rightarrow> checker \<Rightarrow> nat option" where
  "imported_nominal ims name s =
     (case find (\<lambda>i. im_ns i = NsType \<and> im_name i = name \<and> find_nominal (im_target i) (im_member i) s \<noteq> None) ims of
        None \<Rightarrow> None | Some i \<Rightarrow> find_nominal (im_target i) (im_member i) s)"

definition nominal_in_scope :: "nat \<Rightarrow> string \<Rightarrow> checker \<Rightarrow> nat option option" where
  "nominal_in_scope m name s =
     (case find_nominal m name s of
        Some e \<Rightarrow> Some (Some e)
      | None \<Rightarrow> do { node \<leftarrow> module_at m s; Some (imported_nominal (mn_imports node) name s) })"

definition resolve_nominal ::
  "(nat \<Rightarrow> type_expr \<Rightarrow> nat option \<Rightarrow> checker \<Rightarrow> nat outcome) \<Rightarrow>
     nat \<Rightarrow> span \<Rightarrow> ast_path \<Rightarrow> type_expr list \<Rightarrow> checker \<Rightarrow> nat outcome" where
  "resolve_nominal resolve m sp p args s =
     (if args \<noteq> [] then reject kAnalyzerGenericArguments sp ''generic arguments are not supported'' s
      else do {
        (target, s) \<leftarrow> resolve_type_path m p s;
        (case target of
           None \<Rightarrow> build error_type s
         | Some (tm, name) \<Rightarrow> do {
             entry \<leftarrow> (if length (path_segments p) = 1 \<and> find_nominal tm name s = None then do {
                          node \<leftarrow> module_at m s;
                          Some (imported_nominal (mn_imports node) name s)
                        }
                        else Some (find_nominal tm name s));
             (case entry of
                None \<Rightarrow> reject kAnalyzerUnknownType sp (quoted [] name '' is not a type'') s
              | Some e \<Rightarrow> intern_nominal resolve e s)
           })
      })"

definition resolve_blessed ::
  "(type_expr \<Rightarrow> checker \<Rightarrow> nat outcome) \<Rightarrow> span \<Rightarrow> string \<Rightarrow> type_expr list \<Rightarrow> checker \<Rightarrow> nat outcome" where
  "resolve_blessed resolve sp name args s =
     (let want = (if name = ''Result'' then 2 else 1 :: nat) in
      if length args \<noteq> want then
        reject kAnalyzerArityMismatch sp
          (quoted [] name ('' expects '' @ dec want @ '' argument'' @ (if want = 1 then [] else ''s''))) s
      else do {
        (is, s) \<leftarrow> resolve_each resolve args s;
        intern_blessed (name = ''Result'') is s
      })"

definition resolve_self :: "span \<Rightarrow> type_expr list \<Rightarrow> nat option \<Rightarrow> checker \<Rightarrow> nat outcome" where
  "resolve_self sp args self s =
     (case self of
        None \<Rightarrow> reject kAnalyzerUnknownType sp ''Self outside of an impl block'' s
      | Some t \<Rightarrow>
          if args \<noteq> [] then reject kAnalyzerGenericArguments sp ''generic arguments are not supported'' s
          else Some (t, s))"

text \<open>One level of \<^verbatim>\<open>resolve_type\<close>; \<open>resolve\<close> is the recursive call.\<close>

definition resolve_type_step ::
  "(nat \<Rightarrow> type_expr \<Rightarrow> nat option \<Rightarrow> checker \<Rightarrow> nat outcome) \<Rightarrow>
     nat \<Rightarrow> type_expr \<Rightarrow> nat option \<Rightarrow> checker \<Rightarrow> nat outcome" where
  "resolve_type_step resolve m t self s =
     (case t of
        PrimitiveType sp kind \<Rightarrow> primitive_type kind sp s
      | UnitType sp \<Rightarrow> prim TyVoid s
      | NeverType sp \<Rightarrow> build never_type s
      | StrType sp \<Rightarrow> prim TyStr s
      | TupleType sp ts \<Rightarrow> do {
          (is, s) \<leftarrow> resolve_each (\<lambda>t. resolve m t self) ts s;
          (row, s) \<leftarrow> copied_row is s;
          build (tuple_type row) s
        }
      | RefType sp is_mut inner \<Rightarrow> do {
          (p, s) \<leftarrow> resolve m inner self s;
          build (reference_type p is_mut) s
        }
      | PathType sp p args \<Rightarrow>
          (let single = length (path_segments p) = 1; name = path_name p in
           if single \<and> name = ''Self'' then resolve_self sp args self s
           else if single \<and> is_reserved_name name then
             resolve_blessed (\<lambda>t. resolve m t self) sp name args s
           else resolve_nominal resolve m sp p args s))"

fun resolve_type :: "nat \<Rightarrow> nat \<Rightarrow> type_expr \<Rightarrow> nat option \<Rightarrow> checker \<Rightarrow> nat outcome" where
  "resolve_type 0 m t self s = None"
| "resolve_type (Suc fuel) m t self s = resolve_type_step (resolve_type fuel) m t self s"

subsection \<open>The items of a module\<close>

definition process_nominal :: "nat \<Rightarrow> nat \<Rightarrow> item \<Rightarrow> string \<Rightarrow> checker \<Rightarrow> checker option" where
  "process_nominal fuel m it name s =
     (case find_nominal m name s of
        None \<Rightarrow> Some s
      | Some e \<Rightarrow> do {
          entry \<leftarrow> nominal e s;
          (t, s) \<leftarrow> intern_nominal (resolve_type fuel) e s;
          let s = set_module m (\<lambda>c. c\<lparr>cm_types := cm_types c @ [(nom_name entry, t)]\<rparr>) s;
          Some (if is_struct_item it
                then set_module m (\<lambda>c. c\<lparr>cm_structs := cm_structs c @
                       [(t, map (\<lambda>f. id_name (field_name f)) (decl_fields it))]\<rparr>) s
                else s)
        })"

text \<open>The parameter and return types of a function or method.\<close>

definition resolve_signature ::
  "nat \<Rightarrow> nat \<Rightarrow> fn_item \<Rightarrow> nat option \<Rightarrow> checker \<Rightarrow> (nat list \<times> nat) outcome" where
  "resolve_signature fuel m fn self s = do {
     (params, s) \<leftarrow> resolve_each (\<lambda>p. resolve_type fuel m (fn_param.param_type p) self) (fn_params fn) s;
     (unit_type, s) \<leftarrow> prim TyVoid s;
     (case fn_return_type fn of
        None \<Rightarrow> Some ((params, unit_type), s)
      | Some t \<Rightarrow> do { (ret, s) \<leftarrow> resolve_type fuel m t self s; Some ((params, ret), s) })
   }"

definition add_fn_sig :: "nat \<Rightarrow> fn_sig \<Rightarrow> checker \<Rightarrow> checker" where
  "add_fn_sig m sg = set_module m (\<lambda>c. c\<lparr>cm_functions := cm_functions c @ [sg]\<rparr>)"

definition process_fn :: "nat \<Rightarrow> nat \<Rightarrow> fn_item \<Rightarrow> checker \<Rightarrow> checker option" where
  "process_fn fuel m fn s = do {
     ((params, ret), s) \<leftarrow> resolve_signature fuel m fn None s;
     Some (add_fn_sig m \<lparr>sig_name = id_name (fn_name fn), sig_params = params, sig_ret = ret\<rparr> s)
   }"

definition process_static :: "nat \<Rightarrow> nat \<Rightarrow> string \<Rightarrow> type_expr \<Rightarrow> checker \<Rightarrow> checker option" where
  "process_static fuel m name t s = do {
     (i, s) \<leftarrow> resolve_type fuel m t None s;
     Some (set_module m (\<lambda>c. c\<lparr>cm_statics := cm_statics c @ [\<lparr>si_name = name, si_type = i\<rparr>]\<rparr>) s)
   }"

fun type_expr_span :: "type_expr \<Rightarrow> span" where
  "type_expr_span (PrimitiveType sp k) = sp"
| "type_expr_span (UnitType sp) = sp"
| "type_expr_span (NeverType sp) = sp"
| "type_expr_span (StrType sp) = sp"
| "type_expr_span (TupleType sp ts) = sp"
| "type_expr_span (PathType sp p args) = sp"
| "type_expr_span (RefType sp is_mut t) = sp"

text \<open>The type an impl block is for; the inner \<open>None\<close> is \<^verbatim>\<open>self_ok == false\<close>.\<close>

definition impl_self :: "nat \<Rightarrow> nat \<Rightarrow> type_expr \<Rightarrow> checker \<Rightarrow> nat option outcome" where
  "impl_self fuel m t s =
     (let not_nominal = complain kAnalyzerUnknownType (type_expr_span t)
        ''inherent impl requires a nominal type'' in
      case t of
        PathType sp p args \<Rightarrow>
          if args \<noteq> [] then
            Some (None, complain kAnalyzerGenericArguments sp ''generic impl blocks are not supported'' s)
          else do {
            (target, s) \<leftarrow> resolve_type_path m p s;
            (case target of
               None \<Rightarrow> Some (None, s)
             | Some (tm, name) \<Rightarrow>
                 (case find_nominal tm name s of
                    None \<Rightarrow> Some (None, not_nominal s)
                  | Some e \<Rightarrow> do {
                      (self, s) \<leftarrow> intern_nominal (resolve_type fuel) e s;
                      Some (Some self, s)
                    }))
          }
      | _ \<Rightarrow> Some (None, not_nominal s))"

definition receiver_of :: "nat option \<Rightarrow> nat list \<Rightarrow> checker \<Rightarrow> receiver_kind option" where
  "receiver_of self params s =
     (case (self, params) of
        (Some t, p # ps) \<Rightarrow> classify_receiver p t s
      | _ \<Rightarrow> Some RecvNone)"

definition process_method :: "nat \<Rightarrow> nat \<Rightarrow> nat option \<Rightarrow> fn_item \<Rightarrow> checker \<Rightarrow> checker option" where
  "process_method fuel m self fn s = do {
     ((params, ret), s) \<leftarrow> resolve_signature fuel m fn self s;
     let s = add_fn_sig m \<lparr>sig_name = id_name (fn_name fn), sig_params = params, sig_ret = ret\<rparr> s;
     receiver \<leftarrow> receiver_of self params s;
     (self_type, s) \<leftarrow> (case self of Some t \<Rightarrow> Some (t, s) | None \<Rightarrow> build error_type s);
     Some (set_module m (\<lambda>c. c\<lparr>cm_methods := cm_methods c @
       [\<lparr>mt_self = self_type, mt_name = id_name (fn_name fn), mt_params = params, mt_ret = ret,
         mt_receiver = receiver\<rparr>]\<rparr>) s)
   }"

fun run_each :: "('a \<Rightarrow> checker \<Rightarrow> checker option) \<Rightarrow> 'a list \<Rightarrow> checker \<Rightarrow> checker option" where
  "run_each f [] s = Some s"
| "run_each f (x # xs) s = do { s \<leftarrow> f x s; run_each f xs s }"

definition process_impl :: "nat \<Rightarrow> nat \<Rightarrow> type_expr \<Rightarrow> fn_item list \<Rightarrow> checker \<Rightarrow> checker option" where
  "process_impl fuel m t methods s = do {
     (err, s) \<leftarrow> build error_type s;
     (self, s) \<leftarrow> impl_self fuel m t s;
     run_each (process_method fuel m self) methods s
   }"

definition process_item :: "nat \<Rightarrow> nat \<Rightarrow> item \<Rightarrow> checker \<Rightarrow> checker option" where
  "process_item fuel m it s =
     (case it of
        StructItem sp pub name fs \<Rightarrow> process_nominal fuel m it (id_name name) s
      | EnumItem sp pub name vs \<Rightarrow> process_nominal fuel m it (id_name name) s
      | FnItem fn \<Rightarrow> process_fn fuel m fn s
      | StaticItem sp pub name t init \<Rightarrow> process_static fuel m (id_name name) t s
      | ConstItem sp pub name t init \<Rightarrow> process_static fuel m (id_name name) t s
      | ImplItem sp pub t methods \<Rightarrow> process_impl fuel m t methods s
      | ModItem sp pub name its inline \<Rightarrow> Some s
      | UseItem sp pub p has_alias name \<Rightarrow> Some s)"

definition empty_module :: "nat \<Rightarrow> checked_module" where
  "empty_module m = \<lparr>cm_module = m, cm_types = [], cm_structs = [], cm_functions = [],
     cm_methods = [], cm_statics = []\<rparr>"

definition process_module :: "nat \<Rightarrow> nat \<Rightarrow> checker \<Rightarrow> checker option" where
  "process_module fuel m s = do {
     let s = s\<lparr>ck_modules := ck_modules s @ [empty_module m]\<rparr>;
     node \<leftarrow> module_at m s;
     run_each (process_item fuel m) (mn_items node) s
   }"

subsection \<open>Value cycles\<close>

fun any_true :: "(nat \<Rightarrow> bool option) \<Rightarrow> nat list \<Rightarrow> bool option" where
  "any_true r [] = Some False"
| "any_true r (i # is) =
     (case r i of None \<Rightarrow> None | Some True \<Rightarrow> Some True | Some False \<Rightarrow> any_true r is)"

text \<open>The stack holds the types on the path from the root; each call leaves it as it was.\<close>

fun has_value_cycle :: "nat \<Rightarrow> storage \<Rightarrow> nat list \<Rightarrow> nat \<Rightarrow> bool option" where
  "has_value_cycle 0 st stack i = None"
| "has_value_cycle (Suc fuel) st stack i =
     (if i \<in> set stack then Some True
      else let t = tag_of st i; rec = has_value_cycle fuel st (stack @ [i])
        in if t = TyStruct then any_true rec (struct_fields_of st i)
           else if t = TyEnum then any_true rec (variant_fields_of st i)
           else if t = TyTuple then any_true rec (indices (elements_of st i))
           else if t = TyArray then rec (array_element (array_of st i))
           else Some False)"

definition check_cycle :: "storage \<Rightarrow> nominal_entry \<Rightarrow> diag_bag \<Rightarrow> diag_bag option" where
  "check_cycle st entry bag =
     (if \<not> nom_complete entry then Some bag
      else do {
        cyclic \<leftarrow> has_value_cycle (length (types st) + 2) st [] (nom_type entry);
        Some (if cyclic then emit_at SevError kAnalyzerRecursiveType (nom_span entry)
                (quoted ''recursive type '' (nom_name entry) '' without indirection'') bag
              else bag)
      })"

fun validate_cycles :: "storage \<Rightarrow> nominal_entry list \<Rightarrow> diag_bag \<Rightarrow> diag_bag option" where
  "validate_cycles st [] bag = Some bag"
| "validate_cycles st (e # es) bag = do {
     bag \<leftarrow> check_cycle st e bag;
     validate_cycles st es bag
   }"

subsection \<open>The pass\<close>

text \<open>
  The children lists of the tree, turned around: the parent of \<open>c\<close> is the last module that
  has \<open>c\<close> as a child.
\<close>

definition parents_of_tree :: "module_tree \<Rightarrow> nat option list" where
  "parents_of_tree tree =
     fold (\<lambda>(m, node) ps. fold (\<lambda>c ps. ps[c := Some m]) (mn_children node) ps)
       (List.enumerate 0 (tree_modules tree)) (replicate (length (tree_modules tree)) None)"

definition new_checker :: "(string \<Rightarrow> name_id) \<Rightarrow> module_tree \<Rightarrow> pointer_width \<Rightarrow> diag_bag \<Rightarrow> checker" where
  "new_checker pool tree width bag =
     \<lparr>ck_tree = tree, ck_width = width, ck_bag = bag, ck_store = new_builder, ck_intern = pool,
      ck_nominals = [], ck_blessed = [], ck_modules = [], ck_parents = [], ck_in_fn = False,
      ck_scopes = [], ck_loop_depth = 0, ck_fn_ret = 0\<rparr>"

definition check_declarations :: "nat \<Rightarrow> checker \<Rightarrow> checker option" where
  "check_declarations fuel s = do {
     let s = register_nominals s;
     let s = s\<lparr>ck_parents := parents_of_tree (ck_tree s)\<rparr>;
     run_each (process_module fuel) [0 ..< length (tree_modules (ck_tree s))] s
   }"

end
