(* ===== verification/Checker_Values.thy ===== *)
theory Checker_Values
  imports Checker
begin

text \<open>
  Literals and the value namespace of the type checker (middle part of
  \<^verbatim>\<open>src/analyzer/types.cc\<close>): literal suffixes, unification in the state of the checker, the
  lookup of locals, statics, functions, variants and methods, and the paths that name them.
  The struct \<open>PathValue\<close> is a datatype with one constructor for each kind, which has the members
  that are set for the kind.
\<close>

definition kAnalyzerUnknownValue :: u32 where "kAnalyzerUnknownValue = 4221"
definition kAnalyzerArityError :: u32 where "kAnalyzerArityError = 4222"
definition kAnalyzerInvalidOperation :: u32 where "kAnalyzerInvalidOperation = 4223"
definition kAnalyzerNonExhaustiveMatch :: u32 where "kAnalyzerNonExhaustiveMatch = 4224"
definition kAnalyzerRefutableLet :: u32 where "kAnalyzerRefutableLet = 4225"
definition kAnalyzerMustUse :: u32 where "kAnalyzerMustUse = 4226"
definition kAnalyzerBadQuestion :: u32 where "kAnalyzerBadQuestion = 4227"
definition kAnalyzerBadReturn :: u32 where "kAnalyzerBadReturn = 4228"
definition kAnalyzerBadAssignment :: u32 where "kAnalyzerBadAssignment = 4229"
definition kAnalyzerBreakOutsideLoop :: u32 where "kAnalyzerBreakOutsideLoop = 4230"
definition kAnalyzerUnsupportedExpr :: u32 where "kAnalyzerUnsupportedExpr = 4231"

subsection \<open>Tags and unification\<close>

definition is_integer_tag :: "type_tag \<Rightarrow> bool" where
  "is_integer_tag tag \<longleftrightarrow> tag \<in> set [TyI8, TyI16, TyI32, TyI64, TyU8, TyU16, TyU32, TyU64]"

definition is_float_tag :: "type_tag \<Rightarrow> bool" where
  "is_float_tag tag \<longleftrightarrow> tag = TyF32 \<or> tag = TyF64"

text \<open>
  The comparison follows a type to smaller indices, so its depth is bounded by the index of the
  first type.
\<close>

definition equal_types :: "nat \<Rightarrow> nat \<Rightarrow> checker \<Rightarrow> bool option" where
  "equal_types a b s = types_equal (Suc a) (ck_store s) a b"

definition unify_types :: "nat \<Rightarrow> nat \<Rightarrow> span \<Rightarrow> string \<Rightarrow> checker \<Rightarrow> nat outcome" where
  "unify_types want actual sp what s =
     (case unify (Suc want) want actual sp what (ck_store s) (ck_bag s) of
        None \<Rightarrow> None
      | Some (t, st, bag) \<Rightarrow> Some (t, s\<lparr>ck_store := st, ck_bag := bag\<rparr>))"

text \<open>\<^verbatim>\<open>if (expected != nullptr) return unify(*expected, t, ...); return t;\<close>\<close>

definition expect_type :: "nat option \<Rightarrow> nat \<Rightarrow> span \<Rightarrow> string \<Rightarrow> checker \<Rightarrow> nat outcome" where
  "expect_type want t sp what s =
     (case want of None \<Rightarrow> Some (t, s) | Some e \<Rightarrow> unify_types e t sp what s)"

definition blessed_find :: "nat \<Rightarrow> checker \<Rightarrow> blessed_entry option" where
  "blessed_find i s = find (\<lambda>b. bl_type b = i) (ck_blessed s)"

definition is_must_use :: "nat \<Rightarrow> checker \<Rightarrow> bool" where
  "is_must_use i s \<longleftrightarrow> blessed_find i s \<noteq> None"

subsection \<open>Literals\<close>

definition kSuffixes :: "(string \<times> type_tag \<times> bool) list" where
  "kSuffixes =
     [(''isize'', TyI64, False), (''usize'', TyU64, False), (''i8'', TyI8, False),
      (''i16'', TyI16, False), (''i32'', TyI32, False), (''i64'', TyI64, False),
      (''u8'', TyU8, False), (''u16'', TyU16, False), (''u32'', TyU32, False),
      (''u64'', TyU64, False), (''f32'', TyF32, True), (''f64'', TyF64, True)]"

definition ends_with :: "string \<Rightarrow> string \<Rightarrow> bool" where
  "ends_with spelling tail \<longleftrightarrow> length spelling > length tail \<and>
     drop (length spelling - length tail) spelling = tail"

definition is_letter :: "char \<Rightarrow> bool" where
  "is_letter c \<longleftrightarrow> (of_char c \<ge> (97 :: nat) \<and> of_char c \<le> (122 :: nat)) \<or>
     (of_char c \<ge> (65 :: nat) \<and> of_char c \<le> (90 :: nat))"

definition letter_tail :: "string \<Rightarrow> string" where
  "letter_tail spelling = rev (takeWhile is_letter (rev spelling))"

text \<open>What a literal ends in: nothing, a suffix with its tag and kind, or an unknown one.\<close>

datatype suffix = NoSuffix | KnownSuffix type_tag bool | UnknownSuffix string

definition find_suffix :: "pointer_width \<Rightarrow> string \<Rightarrow> suffix" where
  "find_suffix width spelling =
     (case find (\<lambda>(text, tag, is_float). ends_with spelling text) kSuffixes of
        Some (text, tag, is_float) \<Rightarrow>
          KnownSuffix
            (if text = ''isize'' then pointer_sized width TyI64 TyI32
             else if text = ''usize'' then pointer_sized width TyU64 TyU32 else tag) is_float
      | None \<Rightarrow> if letter_tail spelling = [] then NoSuffix else UnknownSuffix (letter_tail spelling))"

definition classify_suffix :: "string \<Rightarrow> span \<Rightarrow> checker \<Rightarrow> suffix \<times> checker" where
  "classify_suffix spelling sp s =
     (case find_suffix (ck_width s) spelling of
        UnknownSuffix text \<Rightarrow>
          (UnknownSuffix text, complain kAnalyzerUnsupportedType sp
             (quoted ''unsupported literal suffix '' text []) s)
      | sfx \<Rightarrow> (sfx, s))"

text \<open>A literal without a suffix takes an expected type of its own class.\<close>

definition unsuffixed ::
  "(type_tag \<Rightarrow> bool) \<Rightarrow> type_tag \<Rightarrow> nat option \<Rightarrow> span \<Rightarrow> string \<Rightarrow> checker \<Rightarrow> nat outcome" where
  "unsuffixed in_class dflt want sp what s =
     (case want of
        None \<Rightarrow> prim dflt s
      | Some e \<Rightarrow> do {
          tag \<leftarrow> tag_at e s;
          if in_class tag then Some (e, s)
          else do { (t, s) \<leftarrow> prim dflt s; unify_types e t sp what s }
        })"

definition typed_literal :: "type_tag \<Rightarrow> nat option \<Rightarrow> span \<Rightarrow> string \<Rightarrow> checker \<Rightarrow> nat outcome" where
  "typed_literal tag want sp what s = do {
     (t, s) \<leftarrow> prim tag s;
     expect_type want t sp what s
   }"

definition check_literal :: "ast_literal \<Rightarrow> nat option \<Rightarrow> checker \<Rightarrow> nat outcome" where
  "check_literal lit want s =
     (let sp = lit_span lit in
      case lit_kind lit of
        BoolLit \<Rightarrow> typed_literal TyI1 want sp ''boolean literal'' s
      | StringLit \<Rightarrow> typed_literal TyStr want sp ''string literal'' s
      | CharLit \<Rightarrow> reject kAnalyzerUnsupportedType sp
          ''character literals need the core Char type (deferred)'' s
      | IntegerLit \<Rightarrow>
          (case classify_suffix (lit_spelling lit) sp s of
             (UnknownSuffix text, s) \<Rightarrow> build error_type s
           | (KnownSuffix tag is_float, s) \<Rightarrow>
               if is_float then
                 reject kAnalyzerTypeMismatch sp ''float suffix on an integer literal'' s
               else typed_literal tag want sp ''integer literal'' s
           | (NoSuffix, s) \<Rightarrow> unsuffixed is_integer_tag TyI32 want sp ''integer literal'' s)
      | FloatLit \<Rightarrow>
          (case classify_suffix (lit_spelling lit) sp s of
             (UnknownSuffix text, s) \<Rightarrow> build error_type s
           | (KnownSuffix tag is_float, s) \<Rightarrow>
               if \<not> is_float_tag tag then
                 reject kAnalyzerTypeMismatch sp ''integer suffix on a float literal'' s
               else typed_literal tag want sp ''float literal'' s
           | (NoSuffix, s) \<Rightarrow> unsuffixed is_float_tag TyF64 want sp ''float literal'' s))"

subsection \<open>Looking up values\<close>

definition lookup_local_var :: "string \<Rightarrow> checker \<Rightarrow> local_var option" where
  "lookup_local_var name s = find (\<lambda>l. lv_name l = name) (concat (ck_scopes s))"

text \<open>
  A name of the value namespace: an entry of the module itself, else of the first import of the
  name whose target has it.
\<close>

fun first_imported ::
  "(nat \<Rightarrow> string \<Rightarrow> 'a option option) \<Rightarrow> string \<Rightarrow> import_entry list \<Rightarrow> 'a option option" where
  "first_imported look name [] = Some None"
| "first_imported look name (i # is) =
     (if im_ns i \<noteq> NsValue \<or> im_name i \<noteq> name then first_imported look name is
      else do {
        found \<leftarrow> look (im_target i) (im_member i);
        (case found of Some x \<Rightarrow> Some (Some x) | None \<Rightarrow> first_imported look name is)
      })"

definition lookup_value ::
  "(nat \<Rightarrow> string \<Rightarrow> 'a option option) \<Rightarrow> nat \<Rightarrow> string \<Rightarrow> checker \<Rightarrow> 'a option option" where
  "lookup_value look m name s = do {
     own \<leftarrow> look m name;
     (case own of
        Some x \<Rightarrow> Some (Some x)
      | None \<Rightarrow> do { node \<leftarrow> module_at m s; first_imported look name (mn_imports node) })
   }"

definition static_in :: "checker \<Rightarrow> nat \<Rightarrow> string \<Rightarrow> static_info option option" where
  "static_in s m name = map_option (\<lambda>c. find (\<lambda>i. si_name i = name) (cm_statics c)) (fetch (ck_modules s) m)"

definition function_in :: "checker \<Rightarrow> nat \<Rightarrow> string \<Rightarrow> fn_sig option option" where
  "function_in s m name = map_option (\<lambda>c. find (\<lambda>f. sig_name f = name) (cm_functions c)) (fetch (ck_modules s) m)"

definition lookup_static :: "nat \<Rightarrow> string \<Rightarrow> checker \<Rightarrow> static_info option option" where
  "lookup_static m name s = lookup_value (static_in s) m name s"

definition lookup_function :: "nat \<Rightarrow> string \<Rightarrow> checker \<Rightarrow> fn_sig option option" where
  "lookup_function m name s = lookup_value (function_in s) m name s"

text \<open>A variant is an entry and a position among the variants of its declaration.\<close>

definition variants_named :: "string \<Rightarrow> nominal_entry \<Rightarrow> nat list" where
  "variants_named name entry =
     filter (\<lambda>i. id_name (enum_variant.variant_name (decl_variants (nom_item entry) ! i)) = name)
       [0 ..< length (decl_variants (nom_item entry))]"

definition find_variant_in :: "nat \<Rightarrow> string \<Rightarrow> checker \<Rightarrow> (nat \<times> nat) list" where
  "find_variant_in m name s =
     concat (map (\<lambda>(e, entry). if nom_module entry = m then map (Pair e) (variants_named name entry) else [])
       (List.enumerate 0 (ck_nominals s)))"

definition imported_variants :: "string \<Rightarrow> checker \<Rightarrow> import_entry \<Rightarrow> (nat \<times> nat) list" where
  "imported_variants name s i =
     (if im_ns i \<noteq> NsType then []
      else case find_nominal (im_target i) (im_member i) s of
             None \<Rightarrow> []
           | Some e \<Rightarrow> map (Pair e) (variants_named name (ck_nominals s ! e)))"

definition find_variant :: "nat \<Rightarrow> string \<Rightarrow> span \<Rightarrow> checker \<Rightarrow> (nat \<times> nat) option outcome" where
  "find_variant m name sp s = do {
     node \<leftarrow> module_at m s;
     (case find_variant_in m name s @ concat (map (imported_variants name s) (mn_imports node)) of
        [] \<Rightarrow> Some (None, s)
      | [v] \<Rightarrow> Some (Some v, s)
      | v # w # vs \<Rightarrow> Some (None, complain kAnalyzerUnknownValue sp (quoted ''ambiguous variant '' name []) s))
   }"

definition lookup_method :: "nat \<Rightarrow> string \<Rightarrow> checker \<Rightarrow> method_info option" where
  "lookup_method self name s =
     find (\<lambda>mt. mt_self mt = self \<and> mt_name mt = name) (concat (map cm_methods (ck_modules s)))"

subsection \<open>Value paths\<close>

text \<open>The kinds of a resolved path; a variant carries its entry, its position and its type.\<close>

datatype path_value =
  PvLocal nat
  | PvStatic nat
  | PvFunction fn_sig
  | PvAssocFunction method_info
  | PvUnitVariant nat nat nat
  | PvTupleVariant nat nat nat
  | PvBlessedCtor "blessed_entry option" bool string
  | PvType

definition is_ctor_name :: "string \<Rightarrow> bool" where
  "is_ctor_name name \<longleftrightarrow> name = ''Ok'' \<or> name = ''Err'' \<or> name = ''Some'' \<or> name = ''None''"

definition is_result_ctor :: "string \<Rightarrow> bool" where
  "is_result_ctor name \<longleftrightarrow> name = ''Ok'' \<or> name = ''Err''"

definition is_first_ctor :: "string \<Rightarrow> bool" where
  "is_first_ctor name \<longleftrightarrow> name = ''Ok'' \<or> name = ''Some''"

definition resolve_blessed_ctor :: "string \<Rightarrow> checker \<Rightarrow> path_value option" where
  "resolve_blessed_ctor name s =
     (if \<not> is_ctor_name name then None
      else map_option (\<lambda>b. PvBlessedCtor (Some b) (is_first_ctor name) name)
             (find (\<lambda>b. bl_is_result b = is_result_ctor name) (ck_blessed s)))"

text \<open>A path that names a variant: unit or tuple by the declared payload.\<close>

definition variant_value :: "nat \<Rightarrow> nat \<Rightarrow> nat \<Rightarrow> checker \<Rightarrow> path_value outcome" where
  "variant_value fuel e v s = do {
     entry \<leftarrow> nominal e s;
     variant \<leftarrow> fetch (decl_variants (nom_item entry)) v;
     (t, s) \<leftarrow> intern_nominal (resolve_type fuel) e s;
     Some (if enum_variant.variant_fields variant = [] then PvUnitVariant e v t else PvTupleVariant e v t, s)
   }"

definition unresolved_value :: "span \<Rightarrow> string \<Rightarrow> checker \<Rightarrow> path_value option outcome" where
  "unresolved_value sp name s =
     Some (None, complain kAnalyzerUnknownValue sp (quoted ''unresolved value '' name []) s)"

definition found :: "'a outcome \<Rightarrow> 'a option outcome" where
  "found r = map_option (\<lambda>(x, s). (Some x, s)) r"

text \<open>The statics and functions of a module; \<open>otherwise\<close> goes on when there is none.\<close>

definition static_or_function ::
  "nat \<Rightarrow> string \<Rightarrow> checker \<Rightarrow> path_value option outcome \<Rightarrow> path_value option outcome" where
  "static_or_function m name s otherwise = do {
     st \<leftarrow> lookup_static m name s;
     (case st of
        Some info \<Rightarrow> Some (Some (PvStatic (si_type info)), s)
      | None \<Rightarrow> do {
          fn \<leftarrow> lookup_function m name s;
          (case fn of Some sg \<Rightarrow> Some (Some (PvFunction sg), s) | None \<Rightarrow> otherwise)
        })
   }"

definition single_value :: "nat \<Rightarrow> nat \<Rightarrow> string \<Rightarrow> span \<Rightarrow> checker \<Rightarrow> path_value option outcome" where
  "single_value fuel m name sp s =
     (case lookup_local_var name s of
        Some l \<Rightarrow> Some (Some (PvLocal (lv_type l)), s)
      | None \<Rightarrow> static_or_function m name s (do {
          (match, s) \<leftarrow> find_variant m name sp s;
          (case match of
             Some (e, v) \<Rightarrow> found (variant_value fuel e v s)
           | None \<Rightarrow>
               (case resolve_blessed_ctor name s of
                  Some pv \<Rightarrow> Some (Some pv, s)
                | None \<Rightarrow> do {
                    entry \<leftarrow> nominal_in_scope m name s;
                    (if entry \<noteq> None then Some (Some PvType, s) else unresolved_value sp name s)
                  }))
        }))"

definition is_module_head :: "nat \<Rightarrow> string \<Rightarrow> checker \<Rightarrow> bool" where
  "is_module_head m head s \<longleftrightarrow> is_path_keyword head \<or> child_named m head s \<noteq> None"

text \<open>\<open>head::member\<close> with a module in front.\<close>

definition module_member :: "nat \<Rightarrow> nat \<Rightarrow> ast_path \<Rightarrow> string \<Rightarrow> checker \<Rightarrow> path_value option outcome" where
  "module_member fuel m p member s = do {
     (target, s) \<leftarrow> walk_module_prefix ''value'' m p s;
     (case target of
        None \<Rightarrow> Some (None, s)
      | Some tm \<Rightarrow> static_or_function tm member s
          (case find_variant_in tm member s of
             [(e, v)] \<Rightarrow> found (variant_value fuel e v s)
           | _ \<Rightarrow> unresolved_value (path_span p) member s))
   }"

text \<open>\<open>Enum::Variant\<close>, \<open>Type::function\<close>, or a constructor of a blessed type.\<close>

definition assoc_function :: "nat \<Rightarrow> nat option \<Rightarrow> string \<Rightarrow> checker \<Rightarrow> method_info option outcome" where
  "assoc_function fuel entry member s =
     (case entry of
        None \<Rightarrow> Some (None, s)
      | Some e \<Rightarrow> do {
          (self, s) \<leftarrow> intern_nominal (resolve_type fuel) e s;
          (case lookup_method self member s of
             Some mt \<Rightarrow> Some (if mt_receiver mt = RecvNone then Some mt else None, s)
           | None \<Rightarrow> Some (None, s))
        })"

definition variant_of_entry :: "nat option \<Rightarrow> string \<Rightarrow> checker \<Rightarrow> (nat \<times> nat) option" where
  "variant_of_entry entry member s =
     (case entry of
        None \<Rightarrow> None
      | Some e \<Rightarrow> (case variants_named member (ck_nominals s ! e) of [] \<Rightarrow> None | v # vs \<Rightarrow> Some (e, v)))"

definition type_member :: "nat \<Rightarrow> nat \<Rightarrow> string \<Rightarrow> string \<Rightarrow> span \<Rightarrow> checker \<Rightarrow> path_value option outcome" where
  "type_member fuel m head member sp s = do {
     entry \<leftarrow> nominal_in_scope m head s;
     (case variant_of_entry entry member s of
        Some (e, v) \<Rightarrow> found (variant_value fuel e v s)
      | None \<Rightarrow> do {
          (method, s) \<leftarrow> assoc_function fuel entry member s;
          (case method of
             Some mt \<Rightarrow> Some (Some (PvAssocFunction mt), s)
           | None \<Rightarrow>
               (case (if is_reserved_name head then resolve_blessed_ctor member s else None) of
                  Some pv \<Rightarrow> Some (Some pv, s)
                | None \<Rightarrow> unresolved_value sp (head @ ''::'' @ member) s))
        })
   }"

text \<open>
  The inner result is \<open>None\<close> when the path has no value; the empty path is the only one without
  a diagnostic.
\<close>

definition resolve_value_path :: "nat \<Rightarrow> nat \<Rightarrow> ast_path \<Rightarrow> checker \<Rightarrow> path_value option outcome" where
  "resolve_value_path fuel m p s =
     (case map id_name (path_segments p) of
        [] \<Rightarrow> Some (None, s)
      | [name] \<Rightarrow> single_value fuel m name (path_span p) s
      | [head, member] \<Rightarrow>
          (if is_module_head m head s then module_member fuel m p member s
           else type_member fuel m head member (path_span p) s)
      | a # b # c # names \<Rightarrow> do {
          (target, s) \<leftarrow> walk_module_prefix ''value'' m p s;
          (case target of
             None \<Rightarrow> Some (None, s)
           | Some tm \<Rightarrow> static_or_function tm (path_name p) s
               (unresolved_value (path_span p) (path_name p) s))
        })"

text \<open>
  A variant in a pattern. The kind is \<open>TupleVariant\<close> whatever the payload; a blessed
  constructor is fixed later by the type that is matched.
\<close>

definition pattern_variant :: "nat \<Rightarrow> nat \<times> nat \<Rightarrow> checker \<Rightarrow> path_value option outcome" where
  "pattern_variant fuel ev s = do {
     (t, s) \<leftarrow> intern_nominal (resolve_type fuel) (fst ev) s;
     Some (Some (PvTupleVariant (fst ev) (snd ev) t), s)
   }"

definition open_ctor :: "string \<Rightarrow> path_value" where
  "open_ctor name = PvBlessedCtor None (is_first_ctor name) name"

definition resolve_variant_path :: "nat \<Rightarrow> nat \<Rightarrow> ast_path \<Rightarrow> checker \<Rightarrow> path_value option outcome" where
  "resolve_variant_path fuel m p s =
     (case map id_name (path_segments p) of
        [name] \<Rightarrow> do {
          (match, s) \<leftarrow> find_variant m name (path_span p) s;
          (case match of
             Some ev \<Rightarrow> pattern_variant fuel ev s
           | None \<Rightarrow> Some (if is_ctor_name name then Some (open_ctor name) else None, s))
        }
      | [head, member] \<Rightarrow>
          (if is_module_head m head s then do {
             (target, s) \<leftarrow> walk_module_prefix ''value'' m p s;
             (case target of
                None \<Rightarrow> Some (None, s)
              | Some tm \<Rightarrow>
                  (case find_variant_in tm member s of
                     [ev] \<Rightarrow> pattern_variant fuel ev s
                   | _ \<Rightarrow> Some (None, s)))
           }
           else do {
             entry \<leftarrow> nominal_in_scope m head s;
             (case variant_of_entry entry member s of
                Some ev \<Rightarrow> pattern_variant fuel ev s
              | None \<Rightarrow>
                  Some (if is_reserved_name head \<and> is_ctor_name member \<and>
                           is_result_ctor member = (head = ''Result'')
                        then Some (open_ctor member) else None, s))
           })
      | _ \<Rightarrow> Some (None, s))"

text \<open>The payload types of a resolved variant of a known enum type.\<close>

definition variant_payloads :: "nat \<Rightarrow> path_value \<Rightarrow> nat \<Rightarrow> span \<Rightarrow> checker \<Rightarrow> nat list outcome" where
  "variant_payloads fuel pv enum_idx sp s = do {
     tag \<leftarrow> tag_at enum_idx s;
     if tag = TyError then Some ([], s)
     else case pv of
            PvTupleVariant e v t \<Rightarrow> do {
              entry \<leftarrow> nominal e s;
              variant \<leftarrow> fetch (decl_variants (nom_item entry)) v;
              resolve_each (\<lambda>f. resolve_type fuel (nom_module entry) f None) (enum_variant.variant_fields variant) s
            }
          | PvBlessedCtor b is_first ctor \<Rightarrow>
              (case blessed_find enum_idx s of
                 None \<Rightarrow> Some ([], complain kAnalyzerTypeMismatch sp ''blessed constructor on a non-blessed type'' s)
               | Some entry \<Rightarrow>
                   if is_first then do { a \<leftarrow> fetch (bl_args entry) 0; Some ([a], s) }
                   else if bl_is_result entry then do { a \<leftarrow> fetch (bl_args entry) 1; Some ([a], s) }
                   else Some ([], s))
          | _ \<Rightarrow> None
   }"

definition struct_entry :: "nat option \<Rightarrow> span \<Rightarrow> string \<Rightarrow> checker \<Rightarrow> nat option outcome" where
  "struct_entry entry sp name s =
     (case entry of
        Some e \<Rightarrow>
          if is_struct_item (nom_item (ck_nominals s ! e)) then Some (Some e, s)
          else Some (None, complain kAnalyzerUnknownValue sp (quoted ''unresolved struct '' name []) s)
      | None \<Rightarrow> Some (None, complain kAnalyzerUnknownValue sp (quoted ''unresolved struct '' name []) s))"

definition resolve_struct_path :: "nat \<Rightarrow> ast_path \<Rightarrow> checker \<Rightarrow> nat option outcome" where
  "resolve_struct_path m p s =
     (case map id_name (path_segments p) of
        [] \<Rightarrow> Some (None, s)
      | [name] \<Rightarrow> do {
          entry \<leftarrow> nominal_in_scope m name s;
          struct_entry entry (path_span p) name s
        }
      | a # b # names \<Rightarrow> do {
          (target, s) \<leftarrow> walk_module_prefix ''value'' m p s;
          (case target of
             None \<Rightarrow> Some (None, s)
           | Some tm \<Rightarrow> struct_entry (find_nominal tm (path_name p) s) (path_span p) (path_name p) s)
        })"

end
