(* ===== verification/Checker_Patterns.thy ===== *)
theory Checker_Patterns
  imports Checker_Values
begin

text \<open>
  Patterns, exhaustiveness and exclusive references in the type checker
  (\<^verbatim>\<open>src/analyzer/types.cc\<close>): the names a pattern binds, binding against a type, the coverage of
  a match, and the search for \<open>&mut\<close> in the type of a static.
\<close>

subsection \<open>Scopes\<close>

definition push_locals :: "checker \<Rightarrow> checker" where
  "push_locals s = s\<lparr>ck_scopes := [] # ck_scopes s\<rparr>"

definition pop_locals :: "checker \<Rightarrow> checker option" where
  "pop_locals s = (case ck_scopes s of [] \<Rightarrow> None | sc # scs \<Rightarrow> Some (s\<lparr>ck_scopes := scs\<rparr>))"

definition declare_local :: "string \<Rightarrow> nat \<Rightarrow> bool \<Rightarrow> checker \<Rightarrow> checker option" where
  "declare_local name t is_mut s =
     (case ck_scopes s of
        [] \<Rightarrow> None
      | sc # scs \<Rightarrow>
          Some (s\<lparr>ck_scopes := (sc @ [\<lparr>lv_name = name, lv_type = t, lv_mut = is_mut\<rparr>]) # scs\<rparr>))"

definition innermost :: "checker \<Rightarrow> local_var list option" where
  "innermost s = (case ck_scopes s of [] \<Rightarrow> None | sc # scs \<Rightarrow> Some sc)"

definition truncate_scope :: "nat \<Rightarrow> checker \<Rightarrow> checker option" where
  "truncate_scope n s =
     (case ck_scopes s of [] \<Rightarrow> None | sc # scs \<Rightarrow> Some (s\<lparr>ck_scopes := take n sc # scs\<rparr>))"

subsection \<open>Views of the type table\<close>

definition struct_row :: "nat \<Rightarrow> checker \<Rightarrow> idx_range option" where
  "struct_row i s = do {
     node \<leftarrow> node_at i s;
     d \<leftarrow> as_struct node;
     info \<leftarrow> fetch (struct_types (ck_store s)) d;
     Some (struct_fields info)
   }"

definition tuple_row :: "nat \<Rightarrow> checker \<Rightarrow> idx_range option" where
  "tuple_row i s = do {
     node \<leftarrow> node_at i s;
     d \<leftarrow> as_tuple node;
     info \<leftarrow> fetch (tuple_types (ck_store s)) d;
     Some (tuple_elements info)
   }"

definition variant_row :: "nat \<Rightarrow> checker \<Rightarrow> idx_range option" where
  "variant_row i s = do {
     node \<leftarrow> node_at i s;
     d \<leftarrow> as_enum node;
     info \<leftarrow> fetch (enum_types (ck_store s)) d;
     Some (enum_variants info)
   }"

definition element_at :: "nat \<Rightarrow> checker \<Rightarrow> nat option" where
  "element_at i s = do {
     node \<leftarrow> node_at i s;
     d \<leftarrow> as_array node;
     info \<leftarrow> fetch (array_types (ck_store s)) d;
     Some (array_element info)
   }"

text \<open>The subscript of a range.\<close>

definition in_row :: "idx_range \<Rightarrow> nat \<Rightarrow> nat option" where
  "in_row r k = fetch (indices r) k"

subsection \<open>Binding\<close>

fun pattern_span :: "pattern \<Rightarrow> span" where
  "pattern_span (WildcardPattern sp) = sp"
| "pattern_span (IdentPattern sp name) = sp"
| "pattern_span (MutIdentPattern sp name) = sp"
| "pattern_span (LiteralPattern sp lit) = sp"
| "pattern_span (TuplePattern sp p ps) = sp"
| "pattern_span (StructPattern sp p fs) = sp"
| "pattern_span (RefPattern sp is_mut p) = sp"
| "pattern_span (OrPattern sp ps) = sp"

fun collect_pattern_idents :: "pattern \<Rightarrow> string list"
  and collect_field_idents :: "field_pattern \<Rightarrow> string list" where
  "collect_pattern_idents (WildcardPattern sp) = []"
| "collect_pattern_idents (LiteralPattern sp lit) = []"
| "collect_pattern_idents (IdentPattern sp name) = [id_name name]"
| "collect_pattern_idents (MutIdentPattern sp name) = [id_name name]"
| "collect_pattern_idents (TuplePattern sp p ps) = concat (map collect_pattern_idents ps)"
| "collect_pattern_idents (StructPattern sp p fs) = concat (map collect_field_idents fs)"
| "collect_pattern_idents (RefPattern sp is_mut p) = collect_pattern_idents p"
| "collect_pattern_idents (OrPattern sp ps) = concat (map collect_pattern_idents ps)"
| "collect_field_idents (FieldPattern name p) = collect_pattern_idents p"

definition bind_error_idents :: "pattern \<Rightarrow> checker \<Rightarrow> checker option" where
  "bind_error_idents pat s =
     run_each (\<lambda>name s. do { (t, s) \<leftarrow> build error_type s; declare_local name t False s })
       (collect_pattern_idents pat) s"

text \<open>Giving up on a pattern: its names are bound to the error type.\<close>

definition give_up :: "bool \<Rightarrow> pattern \<Rightarrow> checker \<Rightarrow> bool outcome" where
  "give_up refutable pat s = map_option (\<lambda>s. (refutable, s)) (bind_error_idents pat s)"

definition field_index :: "string \<Rightarrow> item \<Rightarrow> nat option" where
  "field_index name decl = first_index (\<lambda>f. id_name (field_name f) = name) (decl_fields decl)"

text \<open>
  The names an alternative bound must be among those of the positions from \<open>base\<close> to \<open>mark\<close>; the
  names are dropped afterwards.
\<close>

definition check_alternative :: "span \<Rightarrow> nat \<Rightarrow> nat \<Rightarrow> checker \<Rightarrow> checker option" where
  "check_alternative sp base mark s = do {
     sc \<leftarrow> innermost s;
     let known = map lv_name (drop base (take mark sc));
     let extra = filter (\<lambda>l. lv_name l \<notin> set known) (drop mark sc);
     truncate_scope mark
       (fold (\<lambda>l. complain kAnalyzerInvalidOperation sp ''or-pattern alternatives must bind the same names'')
         extra s)
   }"

definition drop_mark :: "span \<Rightarrow> nat \<Rightarrow> (checker \<Rightarrow> bool outcome) \<Rightarrow> checker \<Rightarrow> bool outcome" where
  "drop_mark sp base bind_it s = do {
     sc \<leftarrow> innermost s;
     (refutable, s) \<leftarrow> bind_it s;
     s \<leftarrow> check_alternative sp base (length sc) s;
     Some (refutable, s)
   }"

text \<open>The payload types of a tuple-variant pattern; \<open>None\<close> inside when the pattern is given up.\<close>

definition tuple_variant_payloads ::
  "nat \<Rightarrow> nat \<Rightarrow> span \<Rightarrow> ast_path \<Rightarrow> nat \<Rightarrow> nat \<Rightarrow> checker \<Rightarrow> nat list option outcome" where
  "tuple_variant_payloads fuel m sp p arity t s = do {
     (resolved, s) \<leftarrow> resolve_variant_path fuel m p s;
     (case resolved of
        None \<Rightarrow> Some (None, s)
      | Some pv \<Rightarrow> do {
          s \<leftarrow> (case pv of
                  PvTupleVariant e v vt \<Rightarrow> map_option snd (unify_types t vt sp ''tuple variant pattern'' s)
                | _ \<Rightarrow> Some s);
          (payloads, s) \<leftarrow> variant_payloads fuel pv t sp s;
          if length payloads \<noteq> arity then
            Some (None, complain kAnalyzerArityError sp
              (''variant expects '' @ dec (length payloads) @ '' fields, pattern has '' @ dec arity) s)
          else Some (Some payloads, s)
        })
   }"

text \<open>The element types of a tuple pattern.\<close>

definition tuple_elements_for :: "span \<Rightarrow> nat \<Rightarrow> nat \<Rightarrow> checker \<Rightarrow> nat list option outcome" where
  "tuple_elements_for sp arity t s = do {
     tag \<leftarrow> tag_at t s;
     if tag \<noteq> TyTuple then do {
       (unit_tuple, s) \<leftarrow> build (tuple_type (mk_range 0 0)) s;
       (r, s) \<leftarrow> unify_types t unit_tuple sp ''tuple pattern'' s;
       Some (None, s)
     }
     else do {
       row \<leftarrow> tuple_row t s;
       if range_size row \<noteq> arity then
         Some (None, complain kAnalyzerArityError sp
           (''tuple pattern has '' @ dec arity @ '' elements, type has '' @ dec (range_size row)) s)
       else Some (Some (indices row), s)
     }
   }"

definition struct_pattern_row ::
  "nat \<Rightarrow> nat \<Rightarrow> span \<Rightarrow> ast_path \<Rightarrow> nat \<Rightarrow> checker \<Rightarrow> (item \<times> idx_range) option outcome" where
  "struct_pattern_row fuel m sp p t s = do {
     (entry, s) \<leftarrow> resolve_struct_path m p s;
     (case entry of
        None \<Rightarrow> Some (None, s)
      | Some e \<Rightarrow> do {
          (st, s) \<leftarrow> intern_nominal (resolve_type fuel) e s;
          (r, s) \<leftarrow> unify_types t st sp ''struct pattern'' s;
          entry \<leftarrow> nominal e s;
          row \<leftarrow> struct_row (nom_type entry) s;
          Some (Some (nom_item entry, row), s)
        })
   }"

text \<open>
  The result is whether the pattern is refutable. A variant pattern is refutable when all of its
  parts are, a tuple or struct pattern when one is.
\<close>

lemma size_in_list: "x \<in> set xs \<Longrightarrow> f x \<le> size_list f xs"
  by (induction xs) auto

function bind_pattern :: "nat \<Rightarrow> nat \<Rightarrow> pattern \<Rightarrow> nat \<Rightarrow> checker \<Rightarrow> bool outcome"
  and bind_field :: "nat \<Rightarrow> nat \<Rightarrow> field_pattern \<Rightarrow> item \<Rightarrow> idx_range \<Rightarrow> checker \<Rightarrow> bool outcome" where
  "bind_pattern fuel m (WildcardPattern sp) t = (\<lambda>s. Some (False, s))"
| "bind_pattern fuel m (IdentPattern sp name) t = (\<lambda>s.
     map_option (Pair False) (declare_local (id_name name) t False s))"
| "bind_pattern fuel m (MutIdentPattern sp name) t = (\<lambda>s.
     map_option (Pair False) (declare_local (id_name name) t True s))"
| "bind_pattern fuel m (LiteralPattern sp lit) t = (\<lambda>s. do {
     (r, s) \<leftarrow> check_literal lit (Some t) s;
     Some (True, s)
   })"
| "bind_pattern fuel m (TuplePattern sp path ps) t = (\<lambda>s. do {
     (parts, s) \<leftarrow> (case path of
        Some p \<Rightarrow> tuple_variant_payloads fuel m sp p (length ps) t s
      | None \<Rightarrow> tuple_elements_for sp (length ps) t s);
     (case parts of
        None \<Rightarrow> give_up (path \<noteq> None) (TuplePattern sp path ps) s
      | Some ts \<Rightarrow> do {
          (rs, s) \<leftarrow> resolve_each (\<lambda>(p, t). bind_pattern fuel m p t) (zip ps ts) s;
          Some (if path \<noteq> None then list_all id rs else list_ex id rs, s)
        })
   })"
| "bind_pattern fuel m (StructPattern sp p fs) t = (\<lambda>s. do {
     (target, s) \<leftarrow> struct_pattern_row fuel m sp p t s;
     (case target of
        None \<Rightarrow> give_up False (StructPattern sp p fs) s
      | Some (decl, rg) \<Rightarrow> do {
          (rs, s) \<leftarrow> resolve_each (\<lambda>f. bind_field fuel m f decl rg) fs s;
          Some (list_ex id rs, s)
        })
   })"
| "bind_pattern fuel m (RefPattern sp is_mut p) t = (\<lambda>s. do {
     tag \<leftarrow> tag_at t s;
     if tag \<noteq> ref_tag is_mut then
       give_up False (RefPattern sp is_mut p)
         (complain kAnalyzerTypeMismatch sp ''reference pattern on a non-reference type'' s)
     else do {
       pointee \<leftarrow> pointee_at t s;
       bind_pattern fuel m p pointee s
     }
   })"
| "bind_pattern fuel m (OrPattern sp ps) t = (\<lambda>s.
     case ps of
       [] \<Rightarrow> Some (False, s)
     | p # ps \<Rightarrow> do {
         (refutable, s) \<leftarrow> bind_pattern fuel m p t s;
         sc \<leftarrow> innermost s;
         (rs, s) \<leftarrow> resolve_each (\<lambda>p. drop_mark (pattern_span p) (length sc) (bind_pattern fuel m p t)) ps s;
         Some (refutable \<or> list_ex id rs, s)
       })"
| "bind_field fuel m (FieldPattern name p) decl rg = (\<lambda>s.
     case field_index (id_name name) decl of
       None \<Rightarrow> give_up False p
         (complain kAnalyzerUnknownValue (id_span name) (quoted ''unknown field '' (id_name name) []) s)
     | Some k \<Rightarrow> do {
         t \<leftarrow> in_row rg k;
         bind_pattern fuel m p t s
       })"
  by pat_completeness auto
termination
  by (relation "measure (case_sum (\<lambda>(fuel, m, p, t). size p) (\<lambda>(fuel, m, f, decl, rg). size f))")
    (auto dest!: set_zip_leftD simp: size_in_list less_Suc_eq_le le_SucI trans_le_add2)

subsection \<open>Exhaustiveness\<close>

fun pattern_is_wildcard :: "pattern \<Rightarrow> bool" where
  "pattern_is_wildcard (WildcardPattern sp) = True"
| "pattern_is_wildcard (IdentPattern sp name) = True"
| "pattern_is_wildcard (MutIdentPattern sp name) = True"
| "pattern_is_wildcard (OrPattern sp ps) = list_ex pattern_is_wildcard ps"
| "pattern_is_wildcard _ = False"

text \<open>Whether \<open>true\<close>, and whether \<open>false\<close>, is among the literals.\<close>

fun collect_bool_literals :: "pattern \<Rightarrow> bool \<times> bool \<Rightarrow> bool \<times> bool" where
  "collect_bool_literals (LiteralPattern sp lit) covered =
     (if lit_kind lit \<noteq> BoolLit then covered
      else if lit_spelling lit = ''true'' then (True, snd covered) else (fst covered, True))"
| "collect_bool_literals (OrPattern sp ps) covered = fold collect_bool_literals ps covered"
| "collect_bool_literals _ covered = covered"

definition mark_named :: "(enum_variant \<Rightarrow> bool) \<Rightarrow> enum_variant list \<Rightarrow> bool list \<Rightarrow> bool list" where
  "mark_named P vs covered =
     (case find (\<lambda>i. P (vs ! i)) [0 ..< length covered] of None \<Rightarrow> covered | Some i \<Rightarrow> covered[i := True])"

fun mark_variant_covered :: "enum_variant list \<Rightarrow> pattern \<Rightarrow> bool list \<Rightarrow> bool list" where
  "mark_variant_covered vs (IdentPattern sp name) covered =
     mark_named (\<lambda>v. id_name (enum_variant.variant_name v) = id_name name \<and> enum_variant.variant_fields v = [])
       vs covered"
| "mark_variant_covered vs (TuplePattern sp (Some p) ps) covered =
     (if path_segments p = [] then covered
      else mark_named (\<lambda>v. id_name (enum_variant.variant_name v) = path_name p) vs covered)"
| "mark_variant_covered vs (OrPattern sp ps) covered = fold (mark_variant_covered vs) ps covered"
| "mark_variant_covered vs _ covered = covered"

definition non_exhaustive :: "span \<Rightarrow> string \<Rightarrow> checker \<Rightarrow> checker" where
  "non_exhaustive sp detail = complain kAnalyzerNonExhaustiveMatch sp (''non-exhaustive '' @ detail)"

fun is_plain_tuple :: "pattern \<Rightarrow> bool" where
  "is_plain_tuple (TuplePattern sp None ps) = True"
| "is_plain_tuple _ = False"

fun is_struct_pattern :: "pattern \<Rightarrow> bool" where
  "is_struct_pattern (StructPattern sp p fs) = True"
| "is_struct_pattern _ = False"

definition check_exhaustive_enum :: "nat \<Rightarrow> pattern list \<Rightarrow> span \<Rightarrow> checker \<Rightarrow> checker option" where
  "check_exhaustive_enum i pats sp s = do {
     row \<leftarrow> variant_row i s;
     (case find (\<lambda>e. nom_complete e \<and> nom_type e = i \<and> is_enum_item (nom_item e)) (ck_nominals s) of
        None \<Rightarrow>
          (case blessed_find i s of
             None \<Rightarrow> Some s
           | Some b \<Rightarrow> Some (non_exhaustive sp
               (quoted ''match over '' (if bl_is_result b then ''Result'' else ''Option'') []) s))
      | Some e \<Rightarrow>
          (let vs = decl_variants (nom_item e);
               covered = fold (mark_variant_covered vs) pats (replicate (range_size row) False) in
           case first_index (\<lambda>c. \<not> c) covered of
             None \<Rightarrow> Some s
           | Some k \<Rightarrow> do {
               v \<leftarrow> fetch vs k;
               Some (non_exhaustive sp (quoted ''match: '' (id_name (enum_variant.variant_name v)) '' not covered'') s)
             }))
   }"

definition check_exhaustive :: "nat \<Rightarrow> pattern list \<Rightarrow> span \<Rightarrow> checker \<Rightarrow> checker option" where
  "check_exhaustive i pats sp s =
     (let bools = fold collect_bool_literals pats (False, False) in
      if list_ex pattern_is_wildcard pats then Some s
      else do {
        tag \<leftarrow> tag_at i s;
        if tag = TyI1 then
          Some (if \<not> fst bools \<or> \<not> snd bools
                then non_exhaustive sp (quoted ''match: missing '' (if \<not> fst bools then ''true'' else ''false'') []) s
                else s)
        else if tag = TyEnum then check_exhaustive_enum i pats sp s
        else if is_integer_tag tag then Some (non_exhaustive sp ''integer match: add a wildcard arm'' s)
        else if tag = TyTuple then
          Some (if list_ex is_plain_tuple pats then s
                else non_exhaustive sp ''tuple match: add a wildcard arm'' s)
        else if tag = TyStruct then
          Some (if list_ex is_struct_pattern pats then s
                else non_exhaustive sp ''struct match: add a wildcard arm'' s)
        else Some (non_exhaustive sp ''match: add a wildcard arm'' s)
      })"

subsection \<open>Exclusive references\<close>

text \<open>The list of visited types is threaded through the calls.\<close>

fun any_found ::
  "(nat \<Rightarrow> nat list \<Rightarrow> (bool \<times> nat list) option) \<Rightarrow> nat list \<Rightarrow> nat list \<Rightarrow> (bool \<times> nat list) option" where
  "any_found r [] visited = Some (False, visited)"
| "any_found r (i # is) visited =
     (case r i visited of
        None \<Rightarrow> None
      | Some (True, visited) \<Rightarrow> Some (True, visited)
      | Some (False, visited) \<Rightarrow> any_found r is visited)"

fun contains_mut_ref :: "nat \<Rightarrow> storage \<Rightarrow> nat \<Rightarrow> nat list \<Rightarrow> (bool \<times> nat list) option" where
  "contains_mut_ref 0 st i visited = None"
| "contains_mut_ref (Suc fuel) st i visited =
     (if i \<in> set visited then Some (False, visited)
      else let visited' = visited @ [i]; t = tag_of st i; rec = contains_mut_ref fuel st
        in if t = TyMutRef then Some (True, visited')
           else if t = TyRef then rec (pointee_of st i) visited'
           else if t = TyStruct then any_found rec (struct_fields_of st i) visited'
           else if t = TyArray then rec (array_element (array_of st i)) visited'
           else if t = TyEnum then any_found rec (variant_fields_of st i) visited'
           else if t = TyTuple then any_found rec (indices (elements_of st i)) visited'
           else Some (False, visited'))"

end
