(* ===== verification/Checker_Bodies.thy ===== *)
theory Checker_Bodies
  imports Checker_Patterns
begin

text \<open>
  Expressions, blocks, statements and bodies in the type checker, and the whole pass
  \<^verbatim>\<open>check_package\<close> (last part of \<^verbatim>\<open>src/analyzer/types.cc\<close>). The members call each other
  through \<^verbatim>\<open>check_expr\<close>: each is a definition over the checker for the expressions below it,
  \<open>ce\<close>, and \<open>check_expr\<close> ties the knot with one unit of fuel for a level.
\<close>

type_synonym expr_checker = "nat \<Rightarrow> expr \<Rightarrow> nat option \<Rightarrow> checker \<Rightarrow> nat outcome"

subsection \<open>Positions\<close>

fun expr_span :: "expr \<Rightarrow> span" where
  "expr_span (LiteralExpr sp lit) = sp"
| "expr_span (PathExpr sp p) = sp"
| "expr_span (StructExpr sp p fs base) = sp"
| "expr_span (TupleExpr sp es) = sp"
| "expr_span (UnaryExpr sp op e) = sp"
| "expr_span (BorrowExpr sp is_mut e) = sp"
| "expr_span (BinaryExpr sp op l r) = sp"
| "expr_span (CastExpr sp e t) = sp"
| "expr_span (CallExpr sp f es) = sp"
| "expr_span (MethodCallExpr sp e name es) = sp"
| "expr_span (FieldExpr sp e name) = sp"
| "expr_span (IndexExpr sp e i) = sp"
| "expr_span (QuestionExpr sp e) = sp"
| "expr_span (IfExpr sp c b el) = sp"
| "expr_span (MatchExpr sp e arms) = sp"
| "expr_span (LoopExpr sp b) = sp"
| "expr_span (WhileExpr sp c b) = sp"
| "expr_span (BlockExpr sp b) = sp"
| "expr_span (ReturnExpr sp v) = sp"
| "expr_span (RangeExpr sp lo hi inclusive) = sp"
| "expr_span (BreakExpr sp) = sp"
| "expr_span (ContinueExpr sp) = sp"

fun stmt_span :: "stmt \<Rightarrow> span" where
  "stmt_span (DeclStmt sp p t e) = sp"
| "stmt_span (ReassignStmt sp l compound op e) = sp"
| "stmt_span (ExprStmt sp e) = sp"

subsection \<open>Operands and arguments\<close>

fun is_bare_int_literal :: "expr \<Rightarrow> bool" where
  "is_bare_int_literal (LiteralExpr sp lit) \<longleftrightarrow>
     lit_kind lit = IntegerLit \<and> list_all (\<lambda>c. \<not> is_letter c) (lit_spelling lit)"
| "is_bare_int_literal _ \<longleftrightarrow> False"

definition tag_quoted :: "type_tag \<Rightarrow> string" where
  "tag_quoted tag = quoted [] (pretty_tag tag) []"

text \<open>The second look at an operand that is a bare integer literal.\<close>

definition recheck_operands ::
  "expr_checker \<Rightarrow> nat \<Rightarrow> expr \<Rightarrow> expr \<Rightarrow> nat \<Rightarrow> nat \<Rightarrow> checker \<Rightarrow> (nat \<times> nat) outcome" where
  "recheck_operands ce m lhs rhs l r s = do {
     lt \<leftarrow> tag_at l s;
     rt \<leftarrow> tag_at r s;
     eq \<leftarrow> equal_types l r s;
     if eq \<or> lt = TyError \<or> rt = TyError then Some ((l, r), s)
     else if is_integer_tag rt \<and> is_bare_int_literal lhs then do {
       (l, s) \<leftarrow> ce m lhs (Some r) s;
       Some ((l, r), s)
     }
     else if is_integer_tag lt \<and> is_bare_int_literal rhs then do {
       (r, s) \<leftarrow> ce m rhs (Some l) s;
       Some ((l, r), s)
     }
     else Some ((l, r), s)
   }"

definition check_binary_operands ::
  "expr_checker \<Rightarrow> nat \<Rightarrow> expr \<Rightarrow> expr \<Rightarrow> span \<Rightarrow> string \<Rightarrow> checker \<Rightarrow> nat outcome" where
  "check_binary_operands ce m lhs rhs sp what s = do {
     (l, s) \<leftarrow> ce m lhs None s;
     (r, s) \<leftarrow> ce m rhs None s;
     ((l, r), s) \<leftarrow> recheck_operands ce m lhs rhs l r s;
     lt \<leftarrow> tag_at l s;
     rt \<leftarrow> tag_at r s;
     if lt = TyError then Some (r, s)
     else if rt = TyError then Some (l, s)
     else do {
       eq \<leftarrow> equal_types l r s;
       if eq then Some (l, s)
       else reject kAnalyzerTypeMismatch sp
         (''type mismatch in '' @ what @ '': '' @ tag_quoted lt @ '' vs '' @ tag_quoted rt) s
     }
   }"

text \<open>Arguments that are only checked, without an expectation.\<close>

definition check_loose :: "expr_checker \<Rightarrow> nat \<Rightarrow> expr list \<Rightarrow> checker \<Rightarrow> checker option" where
  "check_loose ce m es s = map_option snd (resolve_each (\<lambda>e. ce m e None) es s)"

text \<open>An argument is checked against its parameter and unified with it.\<close>

definition check_against :: "expr_checker \<Rightarrow> nat \<Rightarrow> expr \<Rightarrow> nat \<Rightarrow> string \<Rightarrow> checker \<Rightarrow> checker option" where
  "check_against ce m e param what s = do {
     (actual, s) \<leftarrow> ce m e (Some param) s;
     (r, s) \<leftarrow> unify_types param actual (expr_span e) what s;
     Some s
   }"

text \<open>
  The number of parameters in the message is a 64-bit difference, which wraps around when the
  first of no parameters is skipped.
\<close>

definition expected_arguments :: "nat list \<Rightarrow> nat \<Rightarrow> string" where
  "expected_arguments params fixed = dec (unat (of_nat (length params) - of_nat fixed :: u64))"

definition check_call_args ::
  "expr_checker \<Rightarrow> nat \<Rightarrow> expr list \<Rightarrow> nat list \<Rightarrow> span \<Rightarrow> string \<Rightarrow> bool \<Rightarrow> checker \<Rightarrow> checker option" where
  "check_call_args ce m es params sp what skip_first s =
     (let fixed = (if skip_first then 1 else 0) in
      if length es + fixed \<noteq> length params then
        Some (complain kAnalyzerArityError sp
          (quoted [] what ('' expects '' @ expected_arguments params fixed @ '' arguments, found '' @
             dec (length es))) s)
      else run_each (\<lambda>(e, param). check_against ce m e param ''argument'') (zip es (drop fixed params)) s)"

definition check_path_expr :: "nat \<Rightarrow> nat \<Rightarrow> ast_path \<Rightarrow> nat option \<Rightarrow> span \<Rightarrow> checker \<Rightarrow> nat outcome" where
  "check_path_expr fuel m p want sp s = do {
     (resolved, s) \<leftarrow> resolve_value_path fuel m p s;
     (case resolved of
        None \<Rightarrow> build error_type s
      | Some (PvLocal t) \<Rightarrow> expect_type want t sp ''path'' s
      | Some (PvStatic t) \<Rightarrow> expect_type want t sp ''path'' s
      | Some (PvUnitVariant e v t) \<Rightarrow> expect_type want t sp ''path'' s
      | Some (PvFunction f) \<Rightarrow> reject kAnalyzerInvalidOperation sp ''callee needs arguments'' s
      | Some (PvAssocFunction mt) \<Rightarrow> reject kAnalyzerInvalidOperation sp ''callee needs arguments'' s
      | Some (PvTupleVariant e v t) \<Rightarrow> reject kAnalyzerInvalidOperation sp ''callee needs arguments'' s
      | Some (PvBlessedCtor b is_first ctor) \<Rightarrow>
          (if ctor \<noteq> ''None'' then reject kAnalyzerInvalidOperation sp ''callee needs arguments'' s
           else case Option.bind want (\<lambda>w. blessed_find w s) of
                  Some entry \<Rightarrow>
                    if bl_is_result entry then
                      reject kAnalyzerInvalidOperation sp ''cannot infer the blessed type; add an annotation'' s
                    else Some (the want, s)
                | None \<Rightarrow>
                    reject kAnalyzerInvalidOperation sp ''cannot infer the blessed type; add an annotation'' s)
      | Some PvType \<Rightarrow> reject kAnalyzerInvalidOperation sp ''expected a value, found a type'' s)
   }"

subsection \<open>Calls\<close>

text \<open>The intrinsics \<open>print\<close> and \<open>panic\<close>: one string argument.\<close>

definition check_intrinsic_arg ::
  "expr_checker \<Rightarrow> nat \<Rightarrow> string \<Rightarrow> expr list \<Rightarrow> span \<Rightarrow> string \<Rightarrow> (checker \<Rightarrow> nat outcome) \<Rightarrow> checker \<Rightarrow> nat outcome" where
  "check_intrinsic_arg ce m name es sp what k s =
     (case es of
        [e] \<Rightarrow> do {
          (str, s) \<leftarrow> prim TyStr s;
          s \<leftarrow> check_against ce m e str what s;
          k s
        }
      | _ \<Rightarrow> reject kAnalyzerArityError sp
               (quoted [] name ('' expects 1 argument, found '' @ dec (length es))) s)"

text \<open>A call that goes wrong: a diagnostic, and the arguments are still checked.\<close>

definition reject_call :: "expr_checker \<Rightarrow> nat \<Rightarrow> expr list \<Rightarrow> checker \<Rightarrow> nat outcome" where
  "reject_call ce m es s = do {
     s \<leftarrow> check_loose ce m es s;
     build error_type s
   }"

definition check_variant_args ::
  "expr_checker \<Rightarrow> nat \<Rightarrow> nat \<Rightarrow> path_value \<Rightarrow> nat \<Rightarrow> expr list \<Rightarrow> nat option \<Rightarrow> span \<Rightarrow> checker \<Rightarrow> nat outcome" where
  "check_variant_args ce fuel m pv enum_idx es want sp s = do {
     (payloads, s) \<leftarrow> variant_payloads fuel pv enum_idx sp s;
     if length es \<noteq> length payloads then
       reject_call ce m es (complain kAnalyzerArityError sp
         (''variant expects '' @ dec (length payloads) @ '' arguments, found '' @ dec (length es)) s)
     else do {
       s \<leftarrow> run_each (\<lambda>(e, param). check_against ce m e param ''variant argument'') (zip es payloads) s;
       expect_type want enum_idx sp ''call'' s
     }
   }"

text \<open>The expectation selects the instantiation of a blessed constructor, else the first one.\<close>

definition check_ctor_call ::
  "expr_checker \<Rightarrow> nat \<Rightarrow> nat \<Rightarrow> blessed_entry option \<Rightarrow> bool \<Rightarrow> string \<Rightarrow> expr list \<Rightarrow> nat option \<Rightarrow> span \<Rightarrow>
     checker \<Rightarrow> nat outcome" where
  "check_ctor_call ce fuel m first_entry is_first ctor es want sp s =
     (let chosen = (case Option.bind want (\<lambda>w. blessed_find w s) of Some b \<Rightarrow> Some b | None \<Rightarrow> first_entry) in
      case chosen of
        None \<Rightarrow> reject_call ce m es (complain kAnalyzerInvalidOperation sp
                 ''cannot infer the blessed type; add an annotation'' s)
      | Some b \<Rightarrow>
          if is_result_ctor ctor \<noteq> bl_is_result b then
            reject kAnalyzerTypeMismatch sp
              (quoted [] ctor (quoted '' is not a variant of '' (if bl_is_result b then ''Option'' else ''Result'') [])) s
          else check_variant_args ce fuel m (PvBlessedCtor first_entry is_first ctor) (bl_type b) es want sp s)"

definition check_resolved_call ::
  "expr_checker \<Rightarrow> nat \<Rightarrow> nat \<Rightarrow> path_value option \<Rightarrow> expr list \<Rightarrow> nat option \<Rightarrow> span \<Rightarrow> checker \<Rightarrow> nat outcome" where
  "check_resolved_call ce fuel m resolved es want sp s =
     (case resolved of
        None \<Rightarrow> reject_call ce m es s
      | Some (PvFunction f) \<Rightarrow> do {
          s \<leftarrow> check_call_args ce m es (sig_params f) sp (sig_name f) False s;
          expect_type want (sig_ret f) sp ''call'' s
        }
      | Some (PvAssocFunction mt) \<Rightarrow> do {
          s \<leftarrow> check_call_args ce m es (mt_params mt) sp (mt_name mt) True s;
          expect_type want (mt_ret mt) sp ''call'' s
        }
      | Some (PvTupleVariant e v t) \<Rightarrow> check_variant_args ce fuel m (PvTupleVariant e v t) t es want sp s
      | Some (PvBlessedCtor b is_first ctor) \<Rightarrow> check_ctor_call ce fuel m b is_first ctor es want sp s
      | Some pv \<Rightarrow> reject_call ce m es (complain kAnalyzerInvalidOperation sp ''not callable'' s))"

text \<open>Whether a callee of one segment is neither a local, a static nor a function.\<close>

definition is_free_name :: "nat \<Rightarrow> ast_path \<Rightarrow> checker \<Rightarrow> bool option" where
  "is_free_name m p s =
     (if length (path_segments p) \<noteq> 1 \<or> lookup_local_var (path_name p) s \<noteq> None then Some False
      else do {
        st \<leftarrow> lookup_static m (path_name p) s;
        if st \<noteq> None then Some False
        else map_option (\<lambda>f. f = None) (lookup_function m (path_name p) s)
      })"

definition check_call ::
  "expr_checker \<Rightarrow> nat \<Rightarrow> nat \<Rightarrow> expr \<Rightarrow> expr list \<Rightarrow> nat option \<Rightarrow> span \<Rightarrow> checker \<Rightarrow> nat outcome" where
  "check_call ce fuel m callee es want sp s =
     (case callee of
        PathExpr psp p \<Rightarrow> do {
          free \<leftarrow> is_free_name m p s;
          if free \<and> path_name p = ''print'' then
            check_intrinsic_arg ce m ''print'' es sp ''print argument''
              (\<lambda>s. do { (u, s) \<leftarrow> prim TyVoid s; expect_type want u sp ''call'' s }) s
          else if free \<and> path_name p = ''panic'' then
            check_intrinsic_arg ce m ''panic'' es sp ''panic argument'' (build never_type) s
          else do {
            (resolved, s) \<leftarrow> resolve_value_path fuel m p s;
            check_resolved_call ce fuel m resolved es want sp s
          }
        }
      | _ \<Rightarrow> reject_call ce m es
               (complain kAnalyzerInvalidOperation (expr_span callee) ''cannot call a non-path expression'' s))"

text \<open>The built-in methods of the blessed types.\<close>

definition no_arguments :: "string \<Rightarrow> expr list \<Rightarrow> span \<Rightarrow> checker \<Rightarrow> nat outcome" where
  "no_arguments name es sp s =
     reject kAnalyzerArityError sp (quoted [] name ('' expects 0 arguments, found '' @ dec (length es))) s"

definition is_blessed_method :: "string \<Rightarrow> bool" where
  "is_blessed_method name \<longleftrightarrow> name = ''unwrap'' \<or> name = ''expect'' \<or> name = ''is_ok'' \<or> name = ''is_err''"

definition check_blessed_method ::
  "expr_checker \<Rightarrow> nat \<Rightarrow> nat \<Rightarrow> string \<Rightarrow> expr list \<Rightarrow> nat option \<Rightarrow> span \<Rightarrow> checker \<Rightarrow> nat outcome" where
  "check_blessed_method ce m ok name es want sp s =
     (if name = ''unwrap'' then
        (if es \<noteq> [] then no_arguments name es sp s else expect_type want ok sp ''method call'' s)
      else if name = ''expect'' then
        check_intrinsic_arg ce m ''expect'' es sp ''expect argument''
          (\<lambda>s. expect_type want ok sp ''method call'' s) s
      else
        (if es \<noteq> [] then no_arguments name es sp s
         else do { (boolean, s) \<leftarrow> prim TyI1 s; expect_type want boolean sp ''method call'' s }))"

text \<open>Whether the receiver fits the declared one: the same type, or an owned value borrowed.\<close>

definition receiver_fits :: "nat \<Rightarrow> nat \<Rightarrow> checker \<Rightarrow> bool option" where
  "receiver_fits receiver declared s =
     (if receiver = declared then Some True
      else do {
        tag \<leftarrow> tag_at receiver s;
        if tag = TyRef \<or> tag = TyMutRef then Some False
        else do {
          dtag \<leftarrow> tag_at declared s;
          if dtag = TyRef \<or> dtag = TyMutRef then map_option (\<lambda>p. p = receiver) (pointee_at declared s)
          else Some False
        }
      })"

definition check_declared_method ::
  "expr_checker \<Rightarrow> nat \<Rightarrow> nat \<Rightarrow> span \<Rightarrow> method_info option \<Rightarrow> ident \<Rightarrow> expr list \<Rightarrow> nat option \<Rightarrow> span \<Rightarrow>
     checker \<Rightarrow> nat outcome" where
  "check_declared_method ce m receiver rsp method name es want sp s =
     (case method of
        None \<Rightarrow> reject_call ce m es
          (complain kAnalyzerUnknownValue (id_span name) (quoted ''no method '' (id_name name) []) s)
      | Some mt \<Rightarrow>
          if mt_receiver mt = RecvNone then
            reject kAnalyzerInvalidOperation (id_span name)
              (quoted ''associated function '' (id_name name) '' called as a method'') s
          else do {
            declared \<leftarrow> fetch (mt_params mt) 0;
            fits \<leftarrow> receiver_fits receiver declared s;
            if \<not> fits then reject kAnalyzerTypeMismatch rsp ''type mismatch in receiver'' s
            else do {
              s \<leftarrow> check_call_args ce m es (tl (mt_params mt)) sp (id_name name) False s;
              expect_type want (mt_ret mt) sp ''method call'' s
            }
          })"

definition check_method_call ::
  "expr_checker \<Rightarrow> nat \<Rightarrow> expr \<Rightarrow> ident \<Rightarrow> expr list \<Rightarrow> nat option \<Rightarrow> span \<Rightarrow> checker \<Rightarrow> nat outcome" where
  "check_method_call ce m recv name es want sp s = do {
     (receiver, s) \<leftarrow> ce m recv None s;
     tag \<leftarrow> tag_at receiver s;
     if tag = TyError then reject_call ce m es s
     else case (if is_blessed_method (id_name name) then blessed_find receiver s else None) of
       Some b \<Rightarrow> do {
         ok \<leftarrow> fetch (bl_args b) 0;
         check_blessed_method ce m ok (id_name name) es want sp s
       }
     | None \<Rightarrow> do {
         self \<leftarrow> (if tag = TyRef \<or> tag = TyMutRef then pointee_at receiver s else Some receiver);
         check_declared_method ce m receiver (expr_span recv) (lookup_method self (id_name name) s)
           name es want sp s
       }
   }"

subsection \<open>Fields and structs\<close>

text \<open>The loop through references; the pointee of a reference has a smaller index.\<close>

fun strip_refs :: "nat \<Rightarrow> nat \<Rightarrow> checker \<Rightarrow> nat option" where
  "strip_refs 0 i s = None"
| "strip_refs (Suc fuel) i s = do {
     tag \<leftarrow> tag_at i s;
     if tag = TyRef \<or> tag = TyMutRef then do { p \<leftarrow> pointee_at i s; strip_refs fuel p s }
     else Some i
   }"

fun first_some :: "('a \<Rightarrow> 'b option) \<Rightarrow> 'a list \<Rightarrow> 'b option" where
  "first_some f [] = None"
| "first_some f (x # xs) = (case f x of Some y \<Rightarrow> Some y | None \<Rightarrow> first_some f xs)"

definition field_of_nominal :: "nat \<Rightarrow> string \<Rightarrow> checker \<Rightarrow> nat option" where
  "field_of_nominal i name s =
     first_some (\<lambda>e. if nom_complete e \<and> nom_type e = i \<and> is_struct_item (nom_item e)
                     then field_index name (nom_item e) else None) (ck_nominals s)"

text \<open>The 32-bit position of a tuple field, and whether all characters were digits.\<close>

fun tuple_position :: "string \<Rightarrow> u32 \<Rightarrow> bool \<times> u32" where
  "tuple_position [] pos = (True, pos)"
| "tuple_position (c # cs) pos =
     (if of_char c < (48 :: nat) \<or> of_char c > (57 :: nat) then (False, pos)
      else tuple_position cs (pos * 10 + of_nat (of_char c - 48)))"

definition check_field_of ::
  "nat \<Rightarrow> ident \<Rightarrow> nat option \<Rightarrow> span \<Rightarrow> checker \<Rightarrow> nat outcome" where
  "check_field_of receiver name want sp s = do {
     tag \<leftarrow> tag_at receiver s;
     if tag = TyStruct then do {
       row \<leftarrow> struct_row receiver s;
       (case field_of_nominal receiver (id_name name) s of
          None \<Rightarrow> reject kAnalyzerUnknownValue (id_span name) (quoted ''unknown field '' (id_name name) []) s
        | Some k \<Rightarrow> do { t \<leftarrow> in_row row k; expect_type want t sp ''field'' s })
     }
     else if tag = TyTuple then do {
       row \<leftarrow> tuple_row receiver s;
       let (digits, pos) = tuple_position (id_name name) 0;
       if id_name name = [] \<or> \<not> digits \<or> unat pos \<ge> range_size row then
         reject kAnalyzerUnknownValue (id_span name) (quoted ''unknown tuple field '' (id_name name) []) s
       else do { t \<leftarrow> in_row row (unat pos); expect_type want t sp ''field'' s }
     }
     else reject kAnalyzerInvalidOperation sp (''no fields on '' @ tag_quoted tag) s
   }"

definition check_field ::
  "expr_checker \<Rightarrow> nat \<Rightarrow> expr \<Rightarrow> ident \<Rightarrow> nat option \<Rightarrow> span \<Rightarrow> checker \<Rightarrow> nat outcome" where
  "check_field ce m recv name want sp s = do {
     (receiver, s) \<leftarrow> ce m recv None s;
     tag \<leftarrow> tag_at receiver s;
     if tag = TyError then build error_type s
     else do {
       receiver \<leftarrow> strip_refs (Suc receiver) receiver s;
       check_field_of receiver name want sp s
     }
   }"

definition check_init ::
  "expr_checker \<Rightarrow> nat \<Rightarrow> item \<Rightarrow> idx_range \<Rightarrow> field_init \<Rightarrow> checker \<Rightarrow> checker option" where
  "check_init ce m decl rg f s =
     (case f of FieldInit name e \<Rightarrow>
        (case field_index (id_name name) decl of
           None \<Rightarrow> map_option snd (ce m e None
             (complain kAnalyzerUnknownValue (id_span name) (quoted ''unknown field '' (id_name name) []) s))
         | Some k \<Rightarrow> do { t \<leftarrow> in_row rg k; check_against ce m e t ''field'' s }))"

fun init_name :: "field_init \<Rightarrow> string" where
  "init_name (FieldInit name e) = id_name name"

fun init_value :: "field_init \<Rightarrow> expr" where
  "init_value (FieldInit name e) = e"

text \<open>The vector \<^verbatim>\<open>seen\<close>: which fields of the declaration an initialiser was found for.\<close>

definition seen_fields :: "item \<Rightarrow> field_init list \<Rightarrow> bool list" where
  "seen_fields decl fs =
     fold (\<lambda>f seen. case field_index (init_name f) decl of None \<Rightarrow> seen | Some k \<Rightarrow> seen[k := True])
       fs (replicate (length (decl_fields decl)) False)"

definition report_missing :: "span \<Rightarrow> item \<Rightarrow> bool list \<Rightarrow> checker \<Rightarrow> checker" where
  "report_missing sp decl seen s =
     fold (\<lambda>(f, was_seen) s. if was_seen then s
             else complain kAnalyzerArityError sp (quoted ''missing field '' (id_name (field_name f)) []) s)
       (zip (decl_fields decl) seen) s"

definition check_maybe :: "expr_checker \<Rightarrow> nat \<Rightarrow> expr option \<Rightarrow> checker \<Rightarrow> checker option" where
  "check_maybe ce m e s = (case e of None \<Rightarrow> Some s | Some e \<Rightarrow> map_option snd (ce m e None s))"

definition check_struct_expr ::
  "expr_checker \<Rightarrow> nat \<Rightarrow> nat \<Rightarrow> ast_path \<Rightarrow> field_init list \<Rightarrow> expr option \<Rightarrow> nat option \<Rightarrow> span \<Rightarrow>
     checker \<Rightarrow> nat outcome" where
  "check_struct_expr ce fuel m p fs base want sp s = do {
     (entry, s) \<leftarrow> resolve_struct_path m p s;
     (case entry of
        None \<Rightarrow> do {
          s \<leftarrow> check_loose ce m (map init_value fs) s;
          s \<leftarrow> check_maybe ce m base s;
          build error_type s
        }
      | Some e \<Rightarrow> do {
          (t, s) \<leftarrow> intern_nominal (resolve_type fuel) e s;
          entry \<leftarrow> nominal e s;
          row \<leftarrow> struct_row t s;
          s \<leftarrow> run_each (check_init ce m (nom_item entry) row) fs s;
          s \<leftarrow> (case base of
                  None \<Rightarrow> Some (report_missing sp (nom_item entry) (seen_fields (nom_item entry) fs) s)
                | Some b \<Rightarrow> do {
                    (bt, s) \<leftarrow> ce m b None s;
                    map_option snd (unify_types t bt (expr_span b) ''struct update base'' s)
                  });
          expect_type want t sp ''struct'' s
        })
   }"

subsection \<open>Question mark, cast, index\<close>

fun all_equal_types :: "nat list \<Rightarrow> nat list \<Rightarrow> checker \<Rightarrow> bool option" where
  "all_equal_types (a # as) (b # bs) s = do {
     eq \<leftarrow> equal_types a b s;
     if eq then all_equal_types as bs s else Some False
   }"
| "all_equal_types as bs s = Some True"

definition check_question ::
  "expr_checker \<Rightarrow> nat \<Rightarrow> expr \<Rightarrow> nat option \<Rightarrow> span \<Rightarrow> checker \<Rightarrow> nat outcome" where
  "check_question ce m inner want sp s = do {
     (t, s) \<leftarrow> ce m inner None s;
     (case (blessed_find t s, blessed_find (ck_fn_ret s) s) of
        (None, enc) \<Rightarrow> reject kAnalyzerBadQuestion sp
          (quoted [] (CHR 0x3F # []) '' needs Result or Option'') s
      | (Some b, None) \<Rightarrow> reject kAnalyzerBadQuestion sp
          (quoted [] (CHR 0x3F # []) '' needs an enclosing Result or Option function'') s
      | (Some b, Some enc) \<Rightarrow> do {
          eq \<leftarrow> (if bl_is_result b \<noteq> bl_is_result enc \<or> length (bl_args b) \<noteq> length (bl_args enc)
                then Some False else all_equal_types (bl_args b) (bl_args enc) s);
          if \<not> eq then reject kAnalyzerBadQuestion sp
            (quoted [] (CHR 0x3F # []) '' type does not match the function return type'') s
          else do { ok \<leftarrow> fetch (bl_args b) 0; expect_type want ok sp (quoted [] (CHR 0x3F # []) []) s }
        })
   }"

definition is_numeric_tag :: "type_tag \<Rightarrow> bool" where
  "is_numeric_tag tag \<longleftrightarrow> is_integer_tag tag \<or> is_float_tag tag"

definition check_cast ::
  "expr_checker \<Rightarrow> nat \<Rightarrow> nat \<Rightarrow> expr \<Rightarrow> type_expr \<Rightarrow> nat option \<Rightarrow> span \<Rightarrow> checker \<Rightarrow> nat outcome" where
  "check_cast ce fuel m inner t want sp s = do {
     (i, s) \<leftarrow> ce m inner None s;
     (target, s) \<leftarrow> resolve_type fuel m t None s;
     src \<leftarrow> tag_at i s;
     dst \<leftarrow> tag_at target s;
     if src = TyError \<or> dst = TyError then build error_type s
     else if src = TyNever \<or> (is_numeric_tag src \<or> src = TyI1) \<and> (is_numeric_tag dst \<or> dst = TyI1) then
       expect_type want target sp ''cast'' s
     else reject kAnalyzerInvalidOperation sp
       (''invalid cast from '' @ tag_quoted src @ '' to '' @ tag_quoted dst) s
   }"

definition check_index ::
  "expr_checker \<Rightarrow> nat \<Rightarrow> expr \<Rightarrow> expr \<Rightarrow> nat option \<Rightarrow> span \<Rightarrow> checker \<Rightarrow> nat outcome" where
  "check_index ce m recv idx want sp s = do {
     (receiver, s) \<leftarrow> ce m recv None s;
     (position, s) \<leftarrow> ce m idx None s;
     rtag \<leftarrow> tag_at receiver s;
     ptag \<leftarrow> tag_at position s;
     if rtag = TyError \<or> ptag = TyError then build error_type s
     else if \<not> is_integer_tag ptag then
       reject kAnalyzerTypeMismatch (expr_span idx) ''array index must be an integer'' s
     else if rtag \<noteq> TyArray then
       reject kAnalyzerInvalidOperation sp (''cannot index '' @ tag_quoted rtag) s
     else do { element \<leftarrow> element_at receiver s; expect_type want element sp ''index'' s }
   }"

subsection \<open>Operators\<close>

definition unary_accepts :: "unary_op \<Rightarrow> type_tag \<Rightarrow> bool" where
  "unary_accepts op tag \<longleftrightarrow>
     (case op of Neg \<Rightarrow> is_numeric_tag tag | Ast.Not \<Rightarrow> tag = TyI1 | BitNot \<Rightarrow> is_integer_tag tag)"

fun unary_what :: "unary_op \<Rightarrow> string" where
  "unary_what Neg = ''negation''"
| "unary_what Ast.Not = ''not''"
| "unary_what BitNot = ''bitwise not''"

definition check_unary ::
  "expr_checker \<Rightarrow> nat \<Rightarrow> unary_op \<Rightarrow> expr \<Rightarrow> nat option \<Rightarrow> span \<Rightarrow> checker \<Rightarrow> nat outcome" where
  "check_unary ce m op inner want sp s = do {
     (i, s) \<leftarrow> ce m inner None s;
     tag \<leftarrow> tag_at i s;
     if tag = TyError then build error_type s
     else if unary_accepts op tag then expect_type want i sp (unary_what op) s
     else reject kAnalyzerInvalidOperation sp (''invalid unary operand '' @ tag_quoted tag) s
   }"

definition check_borrow ::
  "expr_checker \<Rightarrow> nat \<Rightarrow> bool \<Rightarrow> expr \<Rightarrow> nat option \<Rightarrow> span \<Rightarrow> checker \<Rightarrow> nat outcome" where
  "check_borrow ce m is_mut inner want sp s = do {
     (i, s) \<leftarrow> ce m inner None s;
     tag \<leftarrow> tag_at i s;
     if tag = TyError then build error_type s
     else do {
       (t, s) \<leftarrow> build (reference_type i is_mut) s;
       expect_type want t sp ''borrow'' s
     }
   }"

definition is_logical :: "binary_op \<Rightarrow> bool" where
  "is_logical op \<longleftrightarrow> op = Ast.And \<or> op = Ast.Or"

definition is_equality :: "binary_op \<Rightarrow> bool" where
  "is_equality op \<longleftrightarrow> op = OpEq \<or> op = NotEq"

definition is_ordering :: "binary_op \<Rightarrow> bool" where
  "is_ordering op \<longleftrightarrow> op = Ast.Gt \<or> op = Ast.Lt \<or> op = GtEq \<or> op = LtEq"

definition check_logical ::
  "expr_checker \<Rightarrow> nat \<Rightarrow> expr \<Rightarrow> expr \<Rightarrow> nat option \<Rightarrow> span \<Rightarrow> checker \<Rightarrow> nat outcome" where
  "check_logical ce m lhs rhs want sp s = do {
     (boolean, s) \<leftarrow> prim TyI1 s;
     (l, s) \<leftarrow> ce m lhs (Some boolean) s;
     (r, s) \<leftarrow> ce m rhs (Some boolean) s;
     (u, s) \<leftarrow> unify_types boolean l (expr_span lhs) ''logical operand'' s;
     (u, s) \<leftarrow> unify_types boolean r (expr_span rhs) ''logical operand'' s;
     expect_type want boolean sp ''logical'' s
   }"

definition check_binary ::
  "expr_checker \<Rightarrow> nat \<Rightarrow> binary_op \<Rightarrow> expr \<Rightarrow> expr \<Rightarrow> nat option \<Rightarrow> span \<Rightarrow> checker \<Rightarrow> nat outcome" where
  "check_binary ce m op lhs rhs want sp s =
     (if is_logical op then check_logical ce m lhs rhs want sp s
      else do {
        (t, s) \<leftarrow> check_binary_operands ce m lhs rhs sp ''binary'' s;
        tag \<leftarrow> tag_at t s;
        if tag = TyError then build error_type s
        else if is_equality op \<or> is_ordering op \<and> is_numeric_tag tag then do {
          (boolean, s) \<leftarrow> prim TyI1 s;
          expect_type want boolean sp ''comparison'' s
        }
        else if \<not> is_ordering op \<and> is_numeric_tag tag then expect_type want t sp ''arithmetic'' s
        else reject kAnalyzerInvalidOperation sp (''invalid binary operand '' @ tag_quoted tag) s
      })"

text \<open>The element types that an expected tuple type of the same length gives.\<close>

definition element_wants :: "nat option \<Rightarrow> nat \<Rightarrow> checker \<Rightarrow> nat option list option" where
  "element_wants want n s =
     (case want of
        None \<Rightarrow> Some (replicate n None)
      | Some w \<Rightarrow> do {
          tag \<leftarrow> tag_at w s;
          if tag \<noteq> TyTuple then Some (replicate n None)
          else do {
            row \<leftarrow> tuple_row w s;
            Some (if range_size row = n then map Some (indices row) else replicate n None)
          }
        })"

definition check_tuple ::
  "expr_checker \<Rightarrow> nat \<Rightarrow> expr list \<Rightarrow> nat option \<Rightarrow> span \<Rightarrow> checker \<Rightarrow> nat outcome" where
  "check_tuple ce m es want sp s =
     (if es = [] then do { (u, s) \<leftarrow> prim TyVoid s; expect_type want u sp ''unit'' s }
      else do {
        wants \<leftarrow> element_wants want (length es) s;
        (elements, s) \<leftarrow> resolve_each
          (\<lambda>(e, w) s. do { (err, s) \<leftarrow> build error_type s; ce m e w s }) (zip es wants) s;
        (row, s) \<leftarrow> copied_row elements s;
        (t, s) \<leftarrow> build (tuple_type row) s;
        expect_type want t sp ''tuple'' s
      })"

subsection \<open>Places\<close>

fun check_place :: "expr_checker \<Rightarrow> nat \<Rightarrow> nat \<Rightarrow> expr \<Rightarrow> checker \<Rightarrow> nat outcome" where
  "check_place ce fuel m (PathExpr sp p) s = do {
     (resolved, s) \<leftarrow> resolve_value_path fuel m p s;
     (case resolved of
        None \<Rightarrow> build error_type s
      | Some (PvLocal t) \<Rightarrow>
          (case lookup_local_var (path_name p) s of
             None \<Rightarrow> reject kAnalyzerBadAssignment sp ''cannot assign to an immutable binding'' s
           | Some l \<Rightarrow>
               if lv_mut l then Some (lv_type l, s)
               else reject kAnalyzerBadAssignment sp ''cannot assign to an immutable binding'' s)
      | Some pv \<Rightarrow> reject kAnalyzerBadAssignment sp ''cannot assign to this place'' s)
   }"
| "check_place ce fuel m (FieldExpr sp recv name) s = do {
     (receiver, s) \<leftarrow> check_place ce fuel m recv s;
     tag \<leftarrow> tag_at receiver s;
     if tag \<noteq> TyStruct then build error_type s
     else check_field ce m recv name None sp s
   }"
| "check_place ce fuel m (IndexExpr sp recv idx) s = do {
     (receiver, s) \<leftarrow> check_place ce fuel m recv s;
     tag \<leftarrow> tag_at receiver s;
     if tag = TyError then build error_type s
     else check_index ce m recv idx None sp s
   }"
| "check_place ce fuel m e s =
     reject kAnalyzerBadAssignment (expr_span e) ''cannot assign to this place'' s"

subsection \<open>Statements and blocks\<close>

definition check_decl ::
  "expr_checker \<Rightarrow> nat \<Rightarrow> nat \<Rightarrow> pattern \<Rightarrow> type_expr option \<Rightarrow> expr \<Rightarrow> checker \<Rightarrow> checker option" where
  "check_decl ce fuel m pat t init s = do {
     (err, s) \<leftarrow> build error_type s;
     (want, s) \<leftarrow> (case t of
        None \<Rightarrow> Some (None, s)
      | Some t \<Rightarrow> found (resolve_type fuel m t None s));
     (i, s) \<leftarrow> ce m init want s;
     s \<leftarrow> (case want of
             None \<Rightarrow> Some s
           | Some w \<Rightarrow> map_option snd (unify_types w i (expr_span init) ''declaration'' s));
     (refutable, s) \<leftarrow> bind_pattern fuel m pat i s;
     Some (if refutable
           then complain kAnalyzerRefutableLet (pattern_span pat) ''refutable pattern in declaration; use match'' s
           else s)
   }"

definition check_reassign ::
  "expr_checker \<Rightarrow> nat \<Rightarrow> nat \<Rightarrow> span \<Rightarrow> expr \<Rightarrow> bool \<Rightarrow> expr \<Rightarrow> checker \<Rightarrow> checker option" where
  "check_reassign ce fuel m sp place compound v s = do {
     (p, s) \<leftarrow> check_place ce fuel m place s;
     (i, s) \<leftarrow> ce m v (Some p) s;
     tag \<leftarrow> tag_at p s;
     if compound \<and> \<not> is_numeric_tag tag then
       Some (complain kAnalyzerInvalidOperation sp ''compound assignment needs a numeric place'' s)
     else map_option snd (unify_types p i (expr_span v) ''assignment'' s)
   }"

definition warn_unused :: "span \<Rightarrow> string \<Rightarrow> checker \<Rightarrow> checker" where
  "warn_unused sp message s = s\<lparr>ck_bag := emit_at SevWarning kAnalyzerMustUse sp message (ck_bag s)\<rparr>"

definition check_expr_stmt :: "expr_checker \<Rightarrow> nat \<Rightarrow> expr \<Rightarrow> checker \<Rightarrow> checker option" where
  "check_expr_stmt ce m e s = do {
     (t, s) \<leftarrow> ce m e None s;
     tag \<leftarrow> tag_at t s;
     Some (if tag = TyVoid \<or> tag = TyError \<or> tag = TyNever then s
           else if is_must_use t s then
             warn_unused (expr_span e) ''unused Result/Option value; bind or discard it explicitly'' s
           else warn_unused (expr_span e) ''unused non-() value; discard it explicitly with `_ := ...`'' s)
   }"

definition check_stmt :: "expr_checker \<Rightarrow> nat \<Rightarrow> nat \<Rightarrow> stmt \<Rightarrow> checker \<Rightarrow> checker option" where
  "check_stmt ce fuel m stm s =
     (case stm of
        DeclStmt sp pat t init \<Rightarrow> check_decl ce fuel m pat t init s
      | ReassignStmt sp place compound op v \<Rightarrow> check_reassign ce fuel m sp place compound v s
      | ExprStmt sp e \<Rightarrow> check_expr_stmt ce m e s)"

definition check_block :: "expr_checker \<Rightarrow> nat \<Rightarrow> nat \<Rightarrow> Ast.block \<Rightarrow> nat option \<Rightarrow> checker \<Rightarrow> nat outcome" where
  "check_block ce fuel m b want s =
     (case b of Block sp stms v \<Rightarrow> do {
        s \<leftarrow> run_each (check_stmt ce fuel m) stms (push_locals s);
        (u, s) \<leftarrow> prim TyVoid s;
        (t, s) \<leftarrow> (case v of
           Some e \<Rightarrow> do {
             (t, s) \<leftarrow> ce m e want s;
             expect_type want t (expr_span e) ''block'' s
           }
         | None \<Rightarrow> expect_type want u sp ''block'' s);
        s \<leftarrow> pop_locals s;
        Some (t, s)
      })"

subsection \<open>Control flow\<close>

text \<open>The result of \<open>check_cond\<close> is whether a scope was opened for the pattern.\<close>

definition check_cond :: "expr_checker \<Rightarrow> nat \<Rightarrow> nat \<Rightarrow> cond \<Rightarrow> checker \<Rightarrow> bool outcome" where
  "check_cond ce fuel m c s =
     (case c of
        PatternCond pat init \<Rightarrow> do {
          (t, s) \<leftarrow> ce m init None s;
          (r, s) \<leftarrow> bind_pattern fuel m pat t (push_locals s);
          Some (True, s)
        }
      | ValueCond e \<Rightarrow> do {
          (boolean, s) \<leftarrow> prim TyI1 s;
          s \<leftarrow> check_against ce m e boolean ''condition'' s;
          Some (False, s)
        })"

definition leave_cond :: "bool \<Rightarrow> checker \<Rightarrow> checker option" where
  "leave_cond binds s = (if binds then pop_locals s else Some s)"

definition check_if ::
  "expr_checker \<Rightarrow> nat \<Rightarrow> nat \<Rightarrow> cond \<Rightarrow> Ast.block \<Rightarrow> Ast.block option \<Rightarrow> nat option \<Rightarrow> span \<Rightarrow> checker \<Rightarrow> nat outcome" where
  "check_if ce fuel m c b el want sp s = do {
     (binds, s) \<leftarrow> check_cond ce fuel m c s;
     (t, s) \<leftarrow> check_block ce fuel m b want s;
     s \<leftarrow> leave_cond binds s;
     (case el of
        None \<Rightarrow> do {
          tag \<leftarrow> tag_at t s;
          let s = (if tag \<noteq> TyVoid \<and> tag \<noteq> TyError \<and> tag \<noteq> TyNever
                   then complain kAnalyzerTypeMismatch sp (quoted ''if without else yields '' ''()'' []) s else s);
          (u, s) \<leftarrow> prim TyVoid s;
          expect_type want u sp ''if'' s
        }
      | Some eb \<Rightarrow> do {
          (o', s) \<leftarrow> check_block ce fuel m eb want s;
          unify_types t o' sp ''if branches'' s
        })
   }"

fun arm_pattern :: "match_arm \<Rightarrow> pattern" where
  "arm_pattern (MatchArm p e) = p"

fun arm_body :: "match_arm \<Rightarrow> expr" where
  "arm_body (MatchArm p e) = e"

definition check_arm ::
  "expr_checker \<Rightarrow> nat \<Rightarrow> nat \<Rightarrow> nat \<Rightarrow> nat option \<Rightarrow> match_arm \<Rightarrow> checker \<Rightarrow> nat outcome" where
  "check_arm ce fuel m scrutinee want arm s = do {
     tag \<leftarrow> tag_at scrutinee s;
     (r, s) \<leftarrow> (if tag \<noteq> TyError then bind_pattern fuel m (arm_pattern arm) scrutinee (push_locals s)
               else Some (False, push_locals s));
     (t, s) \<leftarrow> ce m (arm_body arm) want s;
     s \<leftarrow> pop_locals s;
     Some (t, s)
   }"

text \<open>The arms behind the first are unified with the result so far.\<close>

fun check_arms ::
  "expr_checker \<Rightarrow> nat \<Rightarrow> nat \<Rightarrow> nat \<Rightarrow> nat option \<Rightarrow> match_arm list \<Rightarrow> nat \<Rightarrow> checker \<Rightarrow> nat outcome" where
  "check_arms ce fuel m scrutinee want [] result s = Some (result, s)"
| "check_arms ce fuel m scrutinee want (arm # arms) result s = do {
     (t, s) \<leftarrow> check_arm ce fuel m scrutinee want arm s;
     (result, s) \<leftarrow> unify_types result t (expr_span (arm_body arm)) ''match arms'' s;
     check_arms ce fuel m scrutinee want arms result s
   }"

definition check_match ::
  "expr_checker \<Rightarrow> nat \<Rightarrow> nat \<Rightarrow> expr \<Rightarrow> match_arm list \<Rightarrow> nat option \<Rightarrow> span \<Rightarrow> checker \<Rightarrow> nat outcome" where
  "check_match ce fuel m e arms want sp s = do {
     (scrutinee, s) \<leftarrow> ce m e None s;
     (err, s) \<leftarrow> build error_type s;
     (result, s) \<leftarrow> (case arms of
        [] \<Rightarrow> Some (err, s)
      | arm # behind \<Rightarrow> do {
          (t, s) \<leftarrow> check_arm ce fuel m scrutinee want arm s;
          check_arms ce fuel m scrutinee want behind t s
        });
     tag \<leftarrow> tag_at scrutinee s;
     s \<leftarrow> (if tag \<noteq> TyError then check_exhaustive scrutinee (map arm_pattern arms) sp s else Some s);
     if arms \<noteq> [] then expect_type want result sp ''match'' s else Some (result, s)
   }"

text \<open>The body of a loop, one level deeper.\<close>

definition check_loop_body :: "expr_checker \<Rightarrow> nat \<Rightarrow> nat \<Rightarrow> Ast.block \<Rightarrow> nat \<Rightarrow> checker \<Rightarrow> checker option" where
  "check_loop_body ce fuel m b unit_type s = do {
     (t, s) \<leftarrow> check_block ce fuel m b (Some unit_type) (s\<lparr>ck_loop_depth := ck_loop_depth s + 1\<rparr>);
     Some (s\<lparr>ck_loop_depth := ck_loop_depth s - 1\<rparr>)
   }"

definition check_loop ::
  "expr_checker \<Rightarrow> nat \<Rightarrow> nat \<Rightarrow> Ast.block \<Rightarrow> nat option \<Rightarrow> span \<Rightarrow> checker \<Rightarrow> nat outcome" where
  "check_loop ce fuel m b want sp s = do {
     (u, s) \<leftarrow> prim TyVoid s;
     s \<leftarrow> check_loop_body ce fuel m b u s;
     expect_type want u sp ''loop'' s
   }"

definition check_while ::
  "expr_checker \<Rightarrow> nat \<Rightarrow> nat \<Rightarrow> cond \<Rightarrow> Ast.block \<Rightarrow> nat option \<Rightarrow> span \<Rightarrow> checker \<Rightarrow> nat outcome" where
  "check_while ce fuel m c b want sp s = do {
     (binds, s) \<leftarrow> check_cond ce fuel m c s;
     (u, s) \<leftarrow> prim TyVoid s;
     s \<leftarrow> check_loop_body ce fuel m b u s;
     s \<leftarrow> leave_cond binds s;
     expect_type want u sp ''while'' s
   }"

definition check_return ::
  "expr_checker \<Rightarrow> nat \<Rightarrow> expr option \<Rightarrow> span \<Rightarrow> checker \<Rightarrow> nat outcome" where
  "check_return ce m v sp s =
     (if \<not> ck_in_fn s then reject kAnalyzerBadReturn sp (quoted [] ''ret'' '' outside of a function'') s
      else do {
        s \<leftarrow> (case v of
                None \<Rightarrow> do {
                  (u, s) \<leftarrow> prim TyVoid s;
                  map_option snd (unify_types (ck_fn_ret s) u sp ''return'' s)
                }
              | Some e \<Rightarrow> do {
                  (t, s) \<leftarrow> ce m e (Some (ck_fn_ret s)) s;
                  map_option snd (unify_types (ck_fn_ret s) t (expr_span e) ''return'' s)
                });
        build never_type s
      })"

definition check_jump :: "string \<Rightarrow> span \<Rightarrow> checker \<Rightarrow> nat outcome" where
  "check_jump keyword_text sp s =
     (if ck_loop_depth s = 0 then
        reject kAnalyzerBreakOutsideLoop sp (quoted [] keyword_text '' outside of a loop'') s
      else build never_type s)"

subsection \<open>Expressions\<close>

definition check_expr_step :: "expr_checker \<Rightarrow> nat \<Rightarrow> expr_checker" where
  "check_expr_step ce fuel m e want s =
     (case e of
        LiteralExpr sp lit \<Rightarrow> check_literal lit want s
      | PathExpr sp p \<Rightarrow> check_path_expr fuel m p want sp s
      | StructExpr sp p fs base \<Rightarrow> check_struct_expr ce fuel m p fs base want sp s
      | TupleExpr sp es \<Rightarrow> check_tuple ce m es want sp s
      | UnaryExpr sp op inner \<Rightarrow> check_unary ce m op inner want sp s
      | BorrowExpr sp is_mut inner \<Rightarrow> check_borrow ce m is_mut inner want sp s
      | BinaryExpr sp op lhs rhs \<Rightarrow> check_binary ce m op lhs rhs want sp s
      | CastExpr sp inner t \<Rightarrow> check_cast ce fuel m inner t want sp s
      | CallExpr sp callee es \<Rightarrow> check_call ce fuel m callee es want sp s
      | MethodCallExpr sp recv name es \<Rightarrow> check_method_call ce m recv name es want sp s
      | FieldExpr sp recv name \<Rightarrow> check_field ce m recv name want sp s
      | IndexExpr sp recv idx \<Rightarrow> check_index ce m recv idx want sp s
      | QuestionExpr sp inner \<Rightarrow> check_question ce m inner want sp s
      | IfExpr sp c b el \<Rightarrow> check_if ce fuel m c b el want sp s
      | MatchExpr sp scr arms \<Rightarrow> check_match ce fuel m scr arms want sp s
      | LoopExpr sp b \<Rightarrow> check_loop ce fuel m b want sp s
      | WhileExpr sp c b \<Rightarrow> check_while ce fuel m c b want sp s
      | BlockExpr sp b \<Rightarrow> check_block ce fuel m b want s
      | ReturnExpr sp v \<Rightarrow> check_return ce m v sp s
      | BreakExpr sp \<Rightarrow> check_jump ''break'' sp s
      | ContinueExpr sp \<Rightarrow> check_jump ''continue'' sp s
      | RangeExpr sp lo hi inclusive \<Rightarrow>
          reject kAnalyzerUnsupportedExpr sp ''range expressions arrive post-MVP'' s)"

fun check_expr :: "nat \<Rightarrow> nat \<Rightarrow> expr_checker" where
  "check_expr 0 fuel m e want s = None"
| "check_expr (Suc n) fuel m e want s = check_expr_step (check_expr n fuel) fuel m e want s"

subsection \<open>Functions and items\<close>

definition check_param :: "nat \<Rightarrow> nat \<Rightarrow> nat option \<Rightarrow> fn_param \<Rightarrow> checker \<Rightarrow> checker option" where
  "check_param fuel m self p s = do {
     (t, s) \<leftarrow> resolve_type fuel m (fn_param.param_type p) self s;
     (refutable, s) \<leftarrow> bind_pattern fuel m (param_pattern p) t s;
     Some (if refutable
           then complain kAnalyzerRefutableLet (pattern_span (param_pattern p))
             ''refutable pattern in function parameter'' s
           else s)
   }"

definition check_fn :: "nat \<Rightarrow> nat \<Rightarrow> fn_item \<Rightarrow> nat option \<Rightarrow> checker \<Rightarrow> checker option" where
  "check_fn fuel m fn self s = do {
     (u, s) \<leftarrow> prim TyVoid s;
     (ret, s) \<leftarrow> (case fn_return_type fn of
        None \<Rightarrow> Some (u, s)
      | Some t \<Rightarrow> resolve_type fuel m t self s);
     let s = push_locals (s\<lparr>ck_fn_ret := ret, ck_in_fn := True, ck_loop_depth := 0\<rparr>);
     s \<leftarrow> run_each (check_param fuel m self) (fn_params fn) s;
     (t, s) \<leftarrow> check_block (check_expr fuel fuel) fuel m (fn_body fn) (Some (ck_fn_ret s)) s;
     s \<leftarrow> pop_locals s;
     Some (s\<lparr>ck_in_fn := False\<rparr>)
   }"

definition main_returns :: "nat \<Rightarrow> checker \<Rightarrow> bool option" where
  "main_returns rt s = do {
     tag \<leftarrow> tag_at rt s;
     if tag = TyError \<or> tag = TyVoid \<or> tag = TyI32 then Some True
     else case blessed_find rt s of
            None \<Rightarrow> Some False
          | Some b \<Rightarrow>
              if bl_is_result b then do {
                ok \<leftarrow> fetch (bl_args b) 0;
                map_option (\<lambda>t. t = TyVoid) (tag_at ok s)
              }
              else Some False
   }"

definition check_main :: "nat \<Rightarrow> nat \<Rightarrow> fn_item \<Rightarrow> checker \<Rightarrow> checker option" where
  "check_main fuel m fn s = do {
     let s = (if fn_params fn \<noteq> []
              then complain kAnalyzerBadReturn (fn_span fn) (quoted [] ''main'' '' must take no parameters'') s
              else s);
     (u, s) \<leftarrow> prim TyVoid s;
     (ret, s) \<leftarrow> (case fn_return_type fn of None \<Rightarrow> Some (u, s) | Some t \<Rightarrow> resolve_type fuel m t None s);
     fits \<leftarrow> main_returns ret s;
     Some (if fits then s
           else complain kAnalyzerBadReturn (fn_span fn)
             (quoted [] ''main'' (quoted '' must return '' ''()'' (quoted '', '' ''i32''
               (quoted '', or '' ''Result<(), E>'' [])))) s)
   }"

text \<open>The type of an impl block in the body pass: no diagnostics of its own.\<close>

definition body_self :: "nat \<Rightarrow> nat \<Rightarrow> type_expr \<Rightarrow> checker \<Rightarrow> nat option outcome" where
  "body_self fuel m t s = do {
     (err, s) \<leftarrow> build error_type s;
     (case t of
        PathType sp p [] \<Rightarrow> do {
          (target, s) \<leftarrow> resolve_type_path m p s;
          (case target of
             None \<Rightarrow> Some (None, s)
           | Some (tm, name) \<Rightarrow>
               (case find_nominal tm name s of
                  None \<Rightarrow> Some (None, s)
                | Some e \<Rightarrow> found (intern_nominal (resolve_type fuel) e s)))
        }
      | _ \<Rightarrow> Some (None, s))
   }"

fun is_literal_expr :: "expr \<Rightarrow> bool" where
  "is_literal_expr (LiteralExpr sp lit) = True"
| "is_literal_expr _ = False"

definition check_initializer ::
  "nat \<Rightarrow> nat \<Rightarrow> bool \<Rightarrow> string \<Rightarrow> type_expr \<Rightarrow> expr \<Rightarrow> checker \<Rightarrow> checker option" where
  "check_initializer fuel m is_const name t init s = do {
     (declared, s) \<leftarrow> resolve_type fuel m t None s;
     s \<leftarrow> (if is_const then
             Some (if is_literal_expr init then s
                   else complain kAnalyzerInvalidOperation (expr_span init)
                     (quoted ''const '' name '' admits literal expressions only'') s)
           else do {
             (exclusive, visited) \<leftarrow> contains_mut_ref (length (types (ck_store s)) + 2) (ck_store s) declared [];
             Some (if exclusive
                   then complain kAnalyzerInvalidOperation (type_expr_span t)
                     (quoted ''static '' name (quoted '' must not contain '' ''&mut'' [])) s
                   else s)
           });
     let s = push_locals (s\<lparr>ck_in_fn := False\<rparr>);
     s \<leftarrow> check_against (check_expr fuel fuel) m init declared ''item initializer'' s;
     pop_locals s
   }"

definition check_item :: "nat \<Rightarrow> nat \<Rightarrow> item \<Rightarrow> checker \<Rightarrow> checker option" where
  "check_item fuel m it s =
     (case it of
        FnItem fn \<Rightarrow> do {
          s \<leftarrow> check_fn fuel m fn None s;
          if m = tree_root (ck_tree s) \<and> id_name (fn_name fn) = ''main'' then check_main fuel m fn s
          else Some s
        }
      | ImplItem sp pub t methods \<Rightarrow> do {
          (self, s) \<leftarrow> body_self fuel m t s;
          run_each (\<lambda>fn. check_fn fuel m fn self) methods s
        }
      | StaticItem sp pub name t init \<Rightarrow> check_initializer fuel m False (id_name name) t init s
      | ConstItem sp pub name t init \<Rightarrow> check_initializer fuel m True (id_name name) t init s
      | StructItem sp pub name fs \<Rightarrow> Some s
      | EnumItem sp pub name vs \<Rightarrow> Some s
      | ModItem sp pub name its inline \<Rightarrow> Some s
      | UseItem sp pub p has_alias name \<Rightarrow> Some s)"

definition check_bodies :: "nat \<Rightarrow> checker \<Rightarrow> checker option" where
  "check_bodies fuel s =
     run_each (\<lambda>m s. do {
       node \<leftarrow> module_at m s;
       run_each (check_item fuel m) (mn_items node) s
     }) [0 ..< length (tree_modules (ck_tree s))] s"

subsection \<open>The pass\<close>

record checked_package =
  cp_tree :: module_tree
  cp_types :: storage
  cp_modules :: "checked_module list"
  cp_blessed :: "blessed_entry list"

definition check_package ::
  "nat \<Rightarrow> (string \<Rightarrow> name_id) \<Rightarrow> module_tree \<Rightarrow> pointer_width \<Rightarrow> diag_bag \<Rightarrow> (checked_package \<times> diag_bag) option" where
  "check_package fuel pool tree width bag = do {
     s \<leftarrow> check_declarations fuel (new_checker pool tree width bag);
     s \<leftarrow> check_bodies fuel s;
     bag \<leftarrow> validate_cycles (ck_store s) (ck_nominals s) (ck_bag s);
     Some (\<lparr>cp_tree = tree, cp_types = ck_store s, cp_modules = ck_modules s, cp_blessed = ck_blessed s\<rparr>, bag)
   }"

end
