(* ===== verification/Checker_Inv.thy ===== *)
theory Checker_Inv
  imports Checker_Bodies
begin

text \<open>
  The invariant of the type checker and the way its state moves. The tables of the builder only
  grow (\<open>widens\<close>), every index the checker holds is sound, and every entry of the checker's own
  tables points to sound types. An operation \<open>gives\<close> a result when it returns one, reaches
  a state in which the invariant holds, and changes nothing but the tables, the bag, the
  entries and the blessed instances; the rules of that judgement follow the program text.
\<close>

subsection \<open>Growth of the builder\<close>

definition widens :: "storage \<Rightarrow> storage \<Rightarrow> bool" where
  "widens st st' \<longleftrightarrow> grown st st' \<and> prefix (struct_types st) (struct_types st') \<and>
     prefix (enum_types st) (enum_types st') \<and> prefix (enum_variant_types st) (enum_variant_types st')"

lemma widens_refl [simp]: "widens st st"
  by (simp add: widens_def)

lemma widens_trans: "widens a b \<Longrightarrow> widens b c \<Longrightarrow> widens a c"
  by (auto simp: widens_def intro: grown_trans prefix_order.trans)

lemma widens_types:
  "widens st st' \<Longrightarrow> i < length (types st) \<Longrightarrow> i < length (types st') \<and> types st' ! i = types st ! i"
  using grown_types by (auto simp: widens_def)

lemma widens_lengths:
  "widens st st' \<Longrightarrow> length (types st) \<le> length (types st') \<and>
     length (struct_types st) \<le> length (struct_types st') \<and> length (enum_types st) \<le> length (enum_types st') \<and>
     length (enum_variant_types st) \<le> length (enum_variant_types st')"
  by (auto simp: widens_def dest: prefix_length_le grown_length)

lemma widens_nominals:
  assumes "widens st st'"
  shows "d < length (struct_types st) \<Longrightarrow> struct_types st' ! d = struct_types st ! d"
    and "d < length (enum_types st) \<Longrightarrow> enum_types st' ! d = enum_types st ! d"
    and "d < length (enum_variant_types st) \<Longrightarrow> enum_variant_types st' ! d = enum_variant_types st ! d"
  using assms prefix_nth unfolding widens_def by metis+

text \<open>What a filled nominal node may change: only the payloads behind the old tables.\<close>

definition same_nodes :: "storage \<Rightarrow> storage \<Rightarrow> bool" where
  "same_nodes st st' \<longleftrightarrow> grown st st' \<and> length (struct_types st) \<le> length (struct_types st') \<and>
     length (enum_types st) \<le> length (enum_types st')"

lemma widens_same_nodes: "widens st st' \<Longrightarrow> same_nodes st st'"
  by (auto simp: widens_def same_nodes_def dest: prefix_length_le)

subsection \<open>Sound indices\<close>

text \<open>An index in the table whose node, and everything it is built from, has its payload.\<close>

inductive sound :: "storage \<Rightarrow> nat \<Rightarrow> bool" for st where
  soundI: "i < length (types st) \<Longrightarrow> node_ok st i \<Longrightarrow> (\<forall>c \<in> set (components st i). sound st c) \<Longrightarrow> sound st i"

inductive_cases soundE: "sound st i"

lemma sound_in: "sound st i \<Longrightarrow> i < length (types st)"
  by (auto elim: soundE)

lemma sound_node: "sound st i \<Longrightarrow> node_ok st i"
  by (auto elim: soundE)

lemma sound_part: "sound st i \<Longrightarrow> c \<in> set (components st i) \<Longrightarrow> sound st c"
  by (auto elim: soundE)

lemma component_less:
  "node_ok st i \<Longrightarrow> c \<in> set (components st i) \<Longrightarrow> c < i"
  by (auto simp: node_ok_def components_def Let_def tag_of_def pointee_of_def array_of_def elements_of_def
      split: if_splits)

lemma sound_clean: "sound st i \<Longrightarrow> clean st i"
  by (induction rule: sound.induct) (auto intro: cleanI component_less)

lemma sound_leaf:
  "i < length (types st) \<Longrightarrow>
     node_tag (types st ! i) \<notin> {TyRef, TyMutRef, TyArray, TyTuple, TyStruct, TyEnum} \<Longrightarrow> sound st i"
  by (rule soundI) (auto simp: node_ok_def components_def tag_of_def Let_def)

lemma components_grown:
  assumes "grown st st'" and "i < length (types st)" and "node_ok st i"
  shows "components st' i = components st i"
  using grown_types [OF assms(1,2)] grown_tables [OF assms(1), of "node_data (types st ! i)"] assms(3)
  by (auto simp: components_def tag_of_def pointee_of_def array_of_def elements_of_def node_ok_def Let_def)

lemma sound_same_nodes:
  assumes "sound st i" and "same_nodes st st'"
  shows "sound st' i"
  using assms(1)
proof (induction rule: sound.induct)
  case (soundI i)
  have g: "grown st st'" using assms(2) by (simp add: same_nodes_def)
  show ?case
  proof (rule sound.soundI)
    show "i < length (types st')" using grown_types [OF g] soundI by blast
    show "node_ok st' i"
      using node_ok_grown [OF soundI(2) g soundI(1)] assms(2) by (simp add: same_nodes_def)
    show "\<forall>c \<in> set (components st' i). sound st' c"
      using soundI(3) components_grown [OF g soundI(1,2)] by simp
  qed
qed

lemma sound_widens: "sound st i \<Longrightarrow> widens st st' \<Longrightarrow> sound st' i"
  by (blast intro: sound_same_nodes widens_same_nodes)

lemma shape_widens:
  assumes "sound st i" and "widens st st'"
  shows "shape st' i = shape st i"
  using assms(1)
proof (induction rule: sound.induct)
  case (soundI i)
  have g: "grown st st'" using assms(2) by (simp add: widens_def)
  have s: "sound st i" using soundI by (blast intro: sound.soundI)
  have t: "tag_of st' i = tag_of st i" using grown_types [OF g soundI(1)] by (simp add: tag_of_def)
  have c: "components st' i = components st i" by (rule components_grown [OF g soundI(1,2)])
  have parts: "tag_of st i = TyRef \<or> tag_of st i = TyMutRef \<Longrightarrow> pointee_of st' i = pointee_of st i"
    "tag_of st i = TyArray \<Longrightarrow> array_of st' i = array_of st i"
    "tag_of st i = TyTuple \<Longrightarrow> elements_of st' i = elements_of st i"
    using grown_types [OF g soundI(1)] grown_tables [OF g, of "node_data (types st ! i)"] soundI(2)
    by (auto simp: pointee_of_def array_of_def elements_of_def node_ok_def tag_of_def Let_def)
  show ?case
    unfolding shape_unfold [OF sound_clean [OF s]]
      shape_unfold [OF sound_clean [OF sound_widens [OF s assms(2)]]] t Let_def
    using soundI(3) parts by (auto simp: components_def Let_def)
qed

subsection \<open>The storage invariant\<close>

definition rows_ok :: "storage \<Rightarrow> bool" where
  "rows_ok st \<longleftrightarrow>
     (\<forall>r \<in> set (struct_types st). \<forall>f \<in> set (indices (struct_fields r)). sound st f) \<and>
     (\<forall>v \<in> set (enum_variant_types st). \<forall>f \<in> set (indices (enum_variant_info.variant_fields v)). sound st f) \<and>
     (\<forall>e \<in> set (enum_types st). \<forall>v \<in> set (indices (enum_variants e)). v < length (enum_variant_types st))"

definition store_ok :: "storage \<Rightarrow> bool" where
  "store_ok st \<longleftrightarrow> prefix kPrefix (types st) \<and>
     (\<forall>i. length kPrefix \<le> i \<longrightarrow> i < length (types st) \<longrightarrow> sound st i) \<and> rows_ok st"

lemma kPrefix_tags: "map node_tag kPrefix = primitive_tags @ [TyFunction]"
  by code_simp

lemma store_ok_new: "store_ok new_builder"
  by (auto simp: store_ok_def rows_ok_def kPrefix_def new_builder_def intern_primitives_def empty_storage_def)

lemma prefix_node:
  assumes "store_ok st" and "i < 17"
  shows "i < length (types st) \<and> node_tag (types st ! i) = (primitive_tags @ [TyFunction]) ! i"
proof -
  have l: "length kPrefix = 17" by (simp add: kPrimitiveTypeCount_def)
  have "prefix kPrefix (types st)" using assms(1) by (simp add: store_ok_def)
  then have "i < length (types st)" "types st ! i = kPrefix ! i"
    using prefix_nth assms(2) l by metis+
  moreover have "node_tag (kPrefix ! i) = map node_tag kPrefix ! i" using assms(2) l by simp
  ultimately show ?thesis by (simp add: kPrefix_tags)
qed

lemma primitive_sound:
  assumes "store_ok st" and "primitive tag = Some i" and "tag \<noteq> TyRef" and "tag \<noteq> TyMutRef"
  shows "sound st i \<and> node_tag (types st ! i) = tag"
proof -
  have i: "i = primitive_idx tag" "tag \<notin> set composite_tags"
    using assms(2) by (auto simp: primitive_def split: if_splits)
  then have "i < 17 \<and> (primitive_tags @ [TyFunction]) ! i = tag"
    by (cases tag) (simp_all add: primitive_idx_def kPrimitiveTypeCount_def composite_tags_def primitive_tags_def)
  with prefix_node [OF assms(1), of i] have "i < length (types st)" "node_tag (types st ! i) = tag" by auto
  then show ?thesis using assms(3,4) i(2) by (auto intro!: sound_leaf simp: composite_tags_def)
qed

lemma store_ok_sound: "store_ok st \<Longrightarrow> 17 \<le> i \<Longrightarrow> i < length (types st) \<Longrightarrow> sound st i"
  by (simp add: store_ok_def kPrimitiveTypeCount_def)

lemma store_ok_table: "store_ok st \<Longrightarrow> table_ok st"
  by (auto simp: store_ok_def table_ok_def intro: sound_node)

text \<open>Rows are kept when the tables they live in stay and the indices stay sound.\<close>

lemma rows_ok_same:
  assumes "rows_ok st" and "same_nodes st st'" and "struct_types st' = struct_types st"
    and "enum_types st' = enum_types st" and "enum_variant_types st' = enum_variant_types st"
  shows "rows_ok st'"
  using assms sound_same_nodes [OF _ assms(2)] unfolding rows_ok_def by auto

lemma store_ok_append:
  assumes ok: "store_ok st" and w: "same_nodes st st'"
    and new: "\<And>i. length (types st) \<le> i \<Longrightarrow> i < length (types st') \<Longrightarrow> sound st' i"
    and rows: "rows_ok st'"
  shows "store_ok st'"
proof -
  have g: "grown st st'" using w by (simp add: same_nodes_def)
  have "sound st' i" if "length kPrefix \<le> i" "i < length (types st')" for i
    using that new ok sound_same_nodes [OF _ w] by (cases "i < length (types st)") (auto simp: store_ok_def)
  moreover have "prefix kPrefix (types st')"
    using ok g by (auto simp: store_ok_def grown_def intro: prefix_order.trans)
  ultimately show ?thesis using rows by (simp add: store_ok_def)
qed

subsection \<open>The builder keeps the storage invariant\<close>

definition builds :: "(storage \<Rightarrow> nat \<Rightarrow> bool) \<Rightarrow> storage \<Rightarrow> nat \<times> storage \<Rightarrow> bool" where
  "builds P st r \<longleftrightarrow> store_ok (snd r) \<and> widens st (snd r) \<and> sound (snd r) (fst r) \<and> P (snd r) (fst r)"

text \<open>Appending a node behind a payload that was appended before.\<close>

lemma builds_add_node:
  assumes ok: "store_ok st" and w: "widens st st1" and t: "types st1 = types st" and r: "rows_ok st1"
    and n: "node_ok (snd (add_node tag d st1)) (length (types st))"
    and c: "\<And>c. c \<in> set (components (snd (add_node tag d st1)) (length (types st))) \<Longrightarrow> sound st c"
  shows "builds (\<lambda>st' i. tag_of st' i = tag \<and> node_data (types st' ! i) = d \<and> i = length (types st)) st (add_node tag d st1)"
proof -
  let ?st' = "snd (add_node tag d st1)" and ?i = "length (types st)"
  have f: "fst (add_node tag d st1) = ?i" "types ?st' = types st @ [\<lparr>node_tag = tag, node_data = d\<rparr>]"
    using t by (simp_all add: add_node_def)
  have w1: "widens st1 ?st'" by (simp add: widens_def grown_def add_node_def)
  have w': "widens st ?st'" by (rule widens_trans [OF w w1])
  have "sound ?st' ?i"
    using f(2) n c sound_widens [OF _ w'] by (intro soundI) auto
  moreover have "rows_ok ?st'"
    by (rule rows_ok_same [OF r widens_same_nodes [OF w1]]) (simp_all add: add_node_def)
  ultimately have "store_ok ?st'"
    using f(2) by (intro store_ok_append [OF ok widens_same_nodes [OF w']]) (auto simp: less_Suc_eq_le)
  then show ?thesis using w' \<open>sound ?st' ?i\<close> f by (simp add: builds_def tag_of_def nth_append)
qed

text \<open>Appending to a payload table alone.\<close>

lemma widens_payload [simp]:
  "widens st (st\<lparr>struct_types := struct_types st @ xs\<rparr>)" "widens st (st\<lparr>enum_types := enum_types st @ es\<rparr>)"
  "widens st (st\<lparr>ref_types := ref_types st @ rs\<rparr>)" "widens st (st\<lparr>tuple_types := tuple_types st @ ts\<rparr>)"
  "widens st (st\<lparr>enum_variant_types := enum_variant_types st @ vs\<rparr>)" "widens st (st\<lparr>types := types st @ ns\<rparr>)"
  by (simp_all add: widens_def grown_def)

lemma store_ok_rows: "store_ok st \<Longrightarrow> rows_ok st"
  by (simp add: store_ok_def)

lemma scan_types_some:
  "scan_types P st = Some i \<Longrightarrow> 17 \<le> i \<and> i < length (types st) \<and> P (types st ! i)"
  by (auto simp: scan_types_def find_Some_iff kPrimitiveTypeCount_def)

lemma builds_found:
  "store_ok st \<Longrightarrow> scan_types Q st = Some i \<Longrightarrow> (Q (types st ! i) \<Longrightarrow> P st i) \<Longrightarrow> builds P st (i, st)"
  using scan_types_some [of Q st i] store_ok_sound [of st i] by (simp add: builds_def)

lemma builds_mono: "builds P st r \<Longrightarrow> (\<And>st' i. P st' i \<Longrightarrow> Q st' i) \<Longrightarrow> builds Q st r"
  by (auto simp: builds_def)

lemma error_type_builds:
  assumes "store_ok st"
  shows "builds (\<lambda>st' i. tag_of st' i = TyError) st (error_type st)"
proof (cases "scan_types (\<lambda>node. node_tag node = TyError) st")
  case None
  have "builds (\<lambda>st' i. tag_of st' i = TyError \<and> node_data (types st' ! i) = 0 \<and> i = length (types st)) st (add_node TyError 0 st)"
    using assms by (intro builds_add_node)
      (auto simp: store_ok_rows node_ok_def components_def add_node_def tag_of_def nth_append Let_def)
  then show ?thesis using None by (auto simp: error_type_def elim: builds_mono)
next
  case (Some i)
  then show ?thesis using builds_found [OF assms Some] by (simp add: error_type_def tag_of_def)
qed

lemma never_type_builds:
  assumes "store_ok st"
  shows "builds (\<lambda>st' i. tag_of st' i = TyNever) st (never_type st)"
proof (cases "scan_types (\<lambda>node. node_tag node = TyNever) st")
  case None
  have "builds (\<lambda>st' i. tag_of st' i = TyNever \<and> node_data (types st' ! i) = 0 \<and> i = length (types st)) st (add_node TyNever 0 st)"
    using assms by (intro builds_add_node)
      (auto simp: store_ok_rows node_ok_def components_def add_node_def tag_of_def nth_append Let_def)
  then show ?thesis using None by (auto simp: never_type_def elim: builds_mono)
next
  case (Some i)
  then show ?thesis using builds_found [OF assms Some] by (simp add: never_type_def tag_of_def)
qed

lemma rows_ok_widens:
  assumes "store_ok st" and "widens st st'" and "struct_types st' = struct_types st"
    and "enum_types st' = enum_types st" and "enum_variant_types st' = enum_variant_types st"
  shows "rows_ok st'"
  by (rule rows_ok_same [OF store_ok_rows [OF assms(1)] widens_same_nodes [OF assms(2)] assms(3-5)])

lemma reference_type_builds:
  assumes ok: "store_ok st" and p: "sound st p"
  shows "builds (\<lambda>st' i. tag_of st' i = ref_tag is_mut \<and> pointee_of st' i = p) st (reference_type p is_mut st)"
proof (cases "scan_types (ref_node_is st p is_mut) st")
  case None
  let ?st1 = "st\<lparr>ref_types := ref_types st @ [\<lparr>ref_pointee = p\<rparr>]\<rparr>" and ?d = "length (ref_types st)"
  have "builds (\<lambda>st' i. tag_of st' i = ref_tag is_mut \<and> node_data (types st' ! i) = ?d \<and> i = length (types st)) st
      (add_node (ref_tag is_mut) ?d ?st1)"
  proof (rule builds_add_node [OF ok])
    show "rows_ok ?st1" by (rule rows_ok_widens [OF ok]) simp_all
    show "node_ok (snd (add_node (ref_tag is_mut) ?d ?st1)) (length (types st))"
      using sound_in [OF p] by (simp add: node_ok_def add_node_def nth_append ref_tag_def)
    show "sound st c" if "c \<in> set (components (snd (add_node (ref_tag is_mut) ?d ?st1)) (length (types st)))" for c
      using that p by (simp add: components_def add_node_def tag_of_def pointee_of_def nth_append ref_tag_def
          split: if_splits)
  qed simp_all
  moreover have "pointee_of (snd (add_node (ref_tag is_mut) ?d ?st1)) (length (types st)) = p"
    by (simp add: pointee_of_def add_node_def nth_append)
  ultimately show ?thesis using None by (auto simp: reference_type_def builds_def add_node_def)
next
  case (Some i)
  then show ?thesis using builds_found [OF ok Some]
    by (simp add: reference_type_def tag_of_def ref_node_is_def pointee_of_def)
qed

lemma same_elements_indices: "same_elements a b \<Longrightarrow> indices a = indices b"
  by (cases "range_size b = 0") (auto simp: same_elements_def indices_def list_all_iff)

lemma tuple_type_builds:
  assumes ok: "store_ok st" and r: "\<forall>i \<in> set (indices rg). sound st i"
    and l: "range_head rg + range_size rg \<le> length (types st)"
  shows "builds (\<lambda>st' i. tag_of st' i = TyTuple \<and> indices (elements_of st' i) = indices rg) st (tuple_type rg st)"
proof (cases "scan_types (tuple_node_is st rg) st")
  case None
  let ?st1 = "st\<lparr>tuple_types := tuple_types st @ [\<lparr>tuple_elements = rg\<rparr>]\<rparr>" and ?d = "length (tuple_types st)"
  have "builds (\<lambda>st' i. tag_of st' i = TyTuple \<and> node_data (types st' ! i) = ?d \<and> i = length (types st)) st
      (add_node TyTuple ?d ?st1)"
  proof (rule builds_add_node [OF ok])
    show "rows_ok ?st1" by (rule rows_ok_widens [OF ok]) simp_all
    show "node_ok (snd (add_node TyTuple ?d ?st1)) (length (types st))"
      using l by (simp add: node_ok_def add_node_def nth_append)
    show "sound st c" if "c \<in> set (components (snd (add_node TyTuple ?d ?st1)) (length (types st)))" for c
      using that r by (simp add: components_def add_node_def tag_of_def elements_of_def nth_append)
  qed simp_all
  moreover have "elements_of (snd (add_node TyTuple ?d ?st1)) (length (types st)) = rg"
    by (simp add: elements_of_def add_node_def nth_append)
  ultimately show ?thesis using None by (auto simp: tuple_type_def builds_def add_node_def)
next
  case (Some i)
  then have "tuple_node_is st rg (types st ! i)" using scan_types_some by blast
  then have "tag_of st i = TyTuple \<and> indices (elements_of st i) = indices rg"
    by (simp add: tag_of_def tuple_node_is_def elements_of_def same_elements_indices)
  then show ?thesis using builds_found [OF ok Some, of "\<lambda>st' i. tag_of st' i = TyTuple \<and> indices (elements_of st' i) = indices rg"] Some
    by (simp add: tuple_type_def)
qed

text \<open>A copied node stands for the same parts as the node it was copied from.\<close>

lemma sound_copy:
  assumes t: "sound st t" and i: "types st ! i = types st ! t" "t \<le> i" "i < length (types st)"
  shows "sound st i"
proof (rule soundI [OF i(3)])
  have c: "components st i = components st t"
    using i(1) by (simp add: components_def tag_of_def pointee_of_def array_of_def elements_of_def Let_def)
  then show "\<forall>c \<in> set (components st i). sound st c" using sound_part [OF t] by simp
  show "node_ok st i" using sound_node [OF t] i(1,2) by (auto simp: node_ok_def Let_def)
qed

lemma copy_types_builds:
  assumes ok: "store_ok st" and ts: "\<forall>t \<in> set ts. sound st t"
  obtains r st' where "copy_types ts empty_seq st = Some (r, st')" "store_ok st'" "widens st st'"
    "range_size r = length ts" "\<forall>i \<in> set (indices r). sound st' i"
    "range_head r + range_size r \<le> length (types st')"
    "struct_types st' = struct_types st" "enum_types st' = enum_types st"
    "enum_variant_types st' = enum_variant_types st"
proof -
  let ?st' = "st\<lparr>types := types st @ map (\<lambda>t. types st ! t) ts\<rparr>"
  let ?r = "mk_range (if ts \<noteq> [] then length (types st) else 0) (length ts)"
  have l: "list_all (\<lambda>t. t < length (types st)) ts" using ts sound_in by (auto simp: list_all_iff)
  have c: "copy_types ts empty_seq st = Some (?r, ?st')"
    using copy_types_gen [OF l, of empty_seq] by (simp add: empty_seq_def)
  have new: "sound ?st' i" if "length (types st) \<le> i" "i < length (types ?st')" for i
  proof (rule sound_copy [of ?st' "ts ! (i - length (types st))"])
    have k: "ts ! (i - length (types st)) \<in> set ts" using that by auto
    then show "sound ?st' (ts ! (i - length (types st)))"
      using ts by (blast intro: sound_widens widens_payload)
    have "ts ! (i - length (types st)) < length (types st)" using k ts sound_in by blast
    then show "types ?st' ! i = types ?st' ! (ts ! (i - length (types st)))" "ts ! (i - length (types st)) \<le> i"
      using that by (auto simp: nth_append)
  qed (use that in simp)
  have "store_ok ?st'"
    by (rule store_ok_append [OF ok]) (auto intro: new widens_same_nodes rows_ok_widens [OF ok])
  moreover have "\<forall>i \<in> set (indices ?r). sound ?st' i" using new by auto
  ultimately show thesis using that [OF c] by auto
qed

lemma reserve_struct_builds:
  assumes "store_ok st"
  shows "builds (\<lambda>st' i. tag_of st' i = TyStruct \<and> node_data (types st' ! i) = length (struct_types st))
    st (reserve_struct name st)"
proof -
  let ?st1 = "st\<lparr>struct_types := struct_types st @ [\<lparr>struct_name = name, struct_fields = mk_range 0 0\<rparr>]\<rparr>"
  have "rows_ok ?st1"
    using store_ok_rows [OF assms] sound_widens [of st _ ?st1] by (auto simp: rows_ok_def)
  then show ?thesis using assms
    unfolding reserve_struct_def struct_type_def
    by (intro builds_mono [OF builds_add_node])
      (auto simp: node_ok_def components_def add_node_def tag_of_def nth_append Let_def)
qed

lemma enum_type_builds:
  assumes "store_ok st" and "\<forall>v \<in> set (indices vs). v < length (enum_variant_types st)"
  shows "builds (\<lambda>st' i. tag_of st' i = TyEnum \<and> node_data (types st' ! i) = length (enum_types st))
    st (enum_type name vs st)"
proof -
  let ?st1 = "st\<lparr>enum_types := enum_types st @ [\<lparr>enum_name = name, enum_variants = vs\<rparr>]\<rparr>"
  have "rows_ok ?st1"
    using store_ok_rows [OF assms(1)] assms(2) sound_widens [of st _ ?st1] by (auto simp: rows_ok_def)
  then show ?thesis using assms
    unfolding enum_type_def
    by (intro builds_mono [OF builds_add_node])
      (auto simp: node_ok_def components_def add_node_def tag_of_def nth_append Let_def)
qed

lemma reserve_enum_builds:
  "store_ok st \<Longrightarrow> builds (\<lambda>st' i. tag_of st' i = TyEnum \<and> node_data (types st' ! i) = length (enum_types st))
    st (reserve_enum name st)"
  unfolding reserve_enum_def by (rule enum_type_builds) simp_all

lemma enum_variant_builds:
  assumes ok: "store_ok st" and f: "\<forall>f \<in> set (indices fs). sound st f"
    and r: "enum_variant name fs st = (v, st')"
  shows "store_ok st' \<and> widens st st' \<and> v = length (enum_variant_types st) \<and>
    length (enum_variant_types st') = Suc v \<and> struct_types st' = struct_types st \<and> enum_types st' = enum_types st"
proof -
  have st': "v = length (enum_variant_types st)"
      "st' = st\<lparr>enum_variant_types := enum_variant_types st @ [\<lparr>variant_name = name, variant_fields = fs\<rparr>]\<rparr>"
    using r by (simp_all add: enum_variant_def)
  have w: "widens st st'" by (simp add: st')
  have "rows_ok st'"
    using store_ok_rows [OF ok] f sound_widens [OF _ w] by (force simp: rows_ok_def st')
  then have "store_ok st'"
    by (intro store_ok_append [OF ok widens_same_nodes [OF w]]) (simp_all add: st')
  then show ?thesis using w by (simp add: st')
qed

text \<open>Filling the payload of a reserved node.\<close>

lemma fill_struct_ok:
  assumes ok: "store_ok st" and i: "sound st i" "tag_of st i = TyStruct"
    and f: "\<forall>f \<in> set (indices fs). sound st f"
    and old: "widens st0 st" "length (struct_types st0) \<le> node_data (types st ! i)"
  obtains st' where "fill_struct i fs st = Some st'" "store_ok st'" "widens st0 st'" "same_nodes st st'"
    "types st' = types st" "enum_types st' = enum_types st" "enum_variant_types st' = enum_variant_types st"
    "struct_types st' = (struct_types st)[node_data (types st ! i) :=
       (struct_types st ! node_data (types st ! i))\<lparr>struct_fields := fs\<rparr>]"
    "node_data (types st ! i) < length (struct_types st)"
proof -
  let ?d = "node_data (types st ! i)"
  let ?st' = "st\<lparr>struct_types := (struct_types st)[?d := (struct_types st ! ?d)\<lparr>struct_fields := fs\<rparr>]\<rparr>"
  have d: "?d < length (struct_types st)" using sound_node [OF i(1)] i(2) by (simp add: node_ok_def tag_of_def)
  have s: "same_nodes st ?st'" by (simp add: same_nodes_def grown_def)
  have "rows_ok ?st'"
    using store_ok_rows [OF ok] f sound_same_nodes [OF _ s] unfolding rows_ok_def
    by (auto dest!: set_update_subset_insert [THEN subsetD])
  then have "store_ok ?st'" by (intro store_ok_append [OF ok s]) simp_all
  moreover have "widens st0 ?st'"
    using old by (auto simp: widens_def grown_def prefix_def list_update_append)
  moreover have "fill_struct i fs st = Some ?st'"
    using d sound_in [OF i(1)] i(2) by (simp add: fill_struct_def tag_of_def Let_def)
  ultimately show thesis using s d by (intro that [of ?st']) simp_all
qed

lemma fill_enum_ok:
  assumes ok: "store_ok st" and i: "sound st i" "tag_of st i = TyEnum"
    and f: "\<forall>v \<in> set (indices vs). v < length (enum_variant_types st)"
    and old: "widens st0 st" "length (enum_types st0) \<le> node_data (types st ! i)"
  obtains st' where "fill_enum i vs st = Some st'" "store_ok st'" "widens st0 st'" "same_nodes st st'"
    "types st' = types st" "struct_types st' = struct_types st" "enum_variant_types st' = enum_variant_types st"
    "enum_types st' = (enum_types st)[node_data (types st ! i) :=
       (enum_types st ! node_data (types st ! i))\<lparr>enum_variants := vs\<rparr>]"
    "node_data (types st ! i) < length (enum_types st)"
proof -
  let ?d = "node_data (types st ! i)"
  let ?st' = "st\<lparr>enum_types := (enum_types st)[?d := (enum_types st ! ?d)\<lparr>enum_variants := vs\<rparr>]\<rparr>"
  have d: "?d < length (enum_types st)" using sound_node [OF i(1)] i(2) by (simp add: node_ok_def tag_of_def)
  have s: "same_nodes st ?st'" by (simp add: same_nodes_def grown_def)
  have "rows_ok ?st'"
    using store_ok_rows [OF ok] f sound_same_nodes [OF _ s] unfolding rows_ok_def
    by (auto dest!: set_update_subset_insert [THEN subsetD])
  then have "store_ok ?st'" by (intro store_ok_append [OF ok s]) simp_all
  moreover have "widens st0 ?st'"
    using old by (auto simp: widens_def grown_def prefix_def list_update_append)
  moreover have "fill_enum i vs st = Some ?st'"
    using d sound_in [OF i(1)] i(2) by (simp add: fill_enum_def tag_of_def Let_def)
  ultimately show thesis using s d by (intro that [of ?st']) simp_all
qed

end
