(* ===== verification/Checker_Decl.thy ===== *)
theory Checker_Decl
  imports Checker_Inv
begin

text \<open>
  The declaration pass returns: resolving a type never leaves the tables, keeps the invariant of
  the checker and ends, because a nominal type is reserved before its fields are resolved. The
  judgement \<open>gives\<close> says this of an operation; its rules follow the sequencing of the code.
\<close>

subsection \<open>The invariant of the checker\<close>

definition modules_in :: "checker \<Rightarrow> nat" where
  "modules_in s = length (tree_modules (ck_tree s))"

definition payload_of :: "storage \<Rightarrow> nominal_entry \<Rightarrow> nat" where
  "payload_of st e = node_data (types st ! nom_type e)"

definition typed_entry :: "storage \<Rightarrow> nominal_entry \<Rightarrow> bool" where
  "typed_entry st e \<longleftrightarrow> sound st (nom_type e) \<and>
     tag_of st (nom_type e) = (if is_struct_item (nom_item e) then TyStruct else TyEnum)"

definition filled_entry :: "storage \<Rightarrow> nominal_entry \<Rightarrow> bool" where
  "filled_entry st e \<longleftrightarrow>
     (if is_struct_item (nom_item e)
      then range_size (struct_fields (struct_types st ! payload_of st e)) = length (decl_fields (nom_item e))
      else range_size (enum_variants (enum_types st ! payload_of st e)) = length (decl_variants (nom_item e)))"

definition entry_ok :: "nat \<Rightarrow> storage \<Rightarrow> nominal_entry \<Rightarrow> bool" where
  "entry_ok n st e \<longleftrightarrow> (is_struct_item (nom_item e) \<or> is_enum_item (nom_item e)) \<and> nom_module e < n \<and>
     (nom_complete e \<longrightarrow> nom_started e) \<and> (nom_started e \<longrightarrow> typed_entry st e) \<and>
     (nom_complete e \<longrightarrow> filled_entry st e)"

text \<open>No two nominal types of a kind share their payload.\<close>

definition same_kind :: "nominal_entry \<Rightarrow> nominal_entry \<Rightarrow> bool" where
  "same_kind e e' \<longleftrightarrow> nom_started e \<and> nom_started e' \<and> is_struct_item (nom_item e) = is_struct_item (nom_item e')"

definition own_payloads :: "storage \<Rightarrow> nominal_entry list \<Rightarrow> bool" where
  "own_payloads st es \<longleftrightarrow> (\<forall>i < length es. \<forall>j < length es. i \<noteq> j \<longrightarrow> same_kind (es ! i) (es ! j) \<longrightarrow>
     payload_of st (es ! i) \<noteq> payload_of st (es ! j))"

definition blessed_ok :: "storage \<Rightarrow> blessed_entry \<Rightarrow> bool" where
  "blessed_ok st b \<longleftrightarrow> sound st (bl_type b) \<and> (\<forall>a \<in> set (bl_args b). sound st a) \<and>
     length (bl_args b) = (if bl_is_result b then 2 else 1)"

definition sig_ok :: "storage \<Rightarrow> nat list \<Rightarrow> nat \<Rightarrow> bool" where
  "sig_ok st ps r \<longleftrightarrow> (\<forall>p \<in> set ps. sound st p) \<and> sound st r"

definition method_ok :: "storage \<Rightarrow> method_info \<Rightarrow> bool" where
  "method_ok st mt \<longleftrightarrow> sound st (mt_self mt) \<and> sig_ok st (mt_params mt) (mt_ret mt) \<and>
     (mt_receiver mt \<noteq> RecvNone \<longrightarrow> mt_params mt \<noteq> [])"

definition module_ok :: "storage \<Rightarrow> checked_module \<Rightarrow> bool" where
  "module_ok st c \<longleftrightarrow> (\<forall>f \<in> set (cm_functions c). sig_ok st (sig_params f) (sig_ret f)) \<and>
     (\<forall>mt \<in> set (cm_methods c). method_ok st mt) \<and> (\<forall>i \<in> set (cm_statics c). sound st (si_type i))"

definition tree_ok :: "module_tree \<Rightarrow> bool" where
  "tree_ok tree \<longleftrightarrow> tree_root tree < length (tree_modules tree) \<and>
     (\<forall>node \<in> set (tree_modules tree). \<forall>i \<in> set (mn_imports node). im_target i < length (tree_modules tree))"

definition parents_ok :: "checker \<Rightarrow> bool" where
  "parents_ok s \<longleftrightarrow> length (ck_parents s) = modules_in s \<and> (\<forall>p. Some p \<in> set (ck_parents s) \<longrightarrow> p < modules_in s)"

definition scopes_ok :: "storage \<Rightarrow> local_var list list \<Rightarrow> bool" where
  "scopes_ok st scs \<longleftrightarrow> (\<forall>sc \<in> set scs. \<forall>l \<in> set sc. sound st (lv_type l))"

definition checker_ok :: "checker \<Rightarrow> bool" where
  "checker_ok s \<longleftrightarrow> store_ok (ck_store s) \<and> tree_ok (ck_tree s) \<and> parents_ok s \<and>
     (\<forall>e \<in> set (ck_nominals s). entry_ok (modules_in s) (ck_store s) e) \<and>
     own_payloads (ck_store s) (ck_nominals s) \<and>
     (\<forall>b \<in> set (ck_blessed s). blessed_ok (ck_store s) b) \<and>
     (\<forall>c \<in> set (ck_modules s). module_ok (ck_store s) c) \<and>
     scopes_ok (ck_store s) (ck_scopes s) \<and> sound (ck_store s) (ck_fn_ret s)"

text \<open>All of it survives the growth of the tables.\<close>

lemma typed_entry_grows: "typed_entry st e \<Longrightarrow> same_nodes st st' \<Longrightarrow> typed_entry st' e \<and> payload_of st' e = payload_of st e"
  using grown_types [of st st' "nom_type e"] sound_in [of st "nom_type e"]
  by (auto simp: typed_entry_def payload_of_def tag_of_def same_nodes_def intro: sound_same_nodes)

lemma typed_payload:
  "typed_entry st e \<Longrightarrow> payload_of st e < length (if is_struct_item (nom_item e) then map (\<lambda>_. ()) (struct_types st) else map (\<lambda>_. ()) (enum_types st))"
  using sound_node [of st "nom_type e"]
  by (auto simp: typed_entry_def payload_of_def tag_of_def node_ok_def Let_def split: if_splits)

lemma filled_entry_widens:
  assumes "typed_entry st e" and "filled_entry st e" and w: "widens st st'"
  shows "filled_entry st' e"
  using assms(2) typed_entry_grows [OF assms(1) widens_same_nodes [OF w]] typed_payload [OF assms(1)]
    widens_nominals [OF w, of "payload_of st e"] by (auto simp: filled_entry_def split: if_splits)

lemma entry_ok_widens: "entry_ok n st e \<Longrightarrow> widens st st' \<Longrightarrow> entry_ok n st' e"
  using typed_entry_grows [OF _ widens_same_nodes] filled_entry_widens unfolding entry_ok_def by blast

lemma own_payloads_grows:
  assumes "own_payloads st es" and "\<forall>e \<in> set es. nom_started e \<longrightarrow> typed_entry st e" and "same_nodes st st'"
  shows "own_payloads st' es"
proof -
  have "payload_of st' (es ! i) = payload_of st (es ! i)" if "i < length es" "nom_started (es ! i)" for i
    using assms(2) that typed_entry_grows [OF _ assms(3), of "es ! i"] by simp
  then show ?thesis using assms(1) by (simp add: own_payloads_def same_kind_def)
qed

lemma parts_ok_grow:
  assumes "same_nodes st st'"
  shows "blessed_ok st b \<Longrightarrow> blessed_ok st' b" "module_ok st c \<Longrightarrow> module_ok st' c" "scopes_ok st scs \<Longrightarrow> scopes_ok st' scs"
    "sig_ok st ps r \<Longrightarrow> sig_ok st' ps r"
  using sound_same_nodes [OF _ assms]
  by (auto simp: blessed_ok_def module_ok_def method_ok_def sig_ok_def scopes_ok_def)

lemma checker_ok_store:
  assumes "checker_ok s" and "store_ok st" and w: "widens (ck_store s) st"
  shows "checker_ok (s\<lparr>ck_store := st, ck_bag := bag\<rparr>)"
proof -
  have "\<forall>e \<in> set (ck_nominals s). nom_started e \<longrightarrow> typed_entry (ck_store s) e"
    using assms(1) by (auto simp: checker_ok_def entry_ok_def)
  then have "own_payloads st (ck_nominals s)"
    using assms(1) own_payloads_grows [OF _ _ widens_same_nodes [OF w]] by (simp add: checker_ok_def)
  then show ?thesis
    using assms entry_ok_widens [OF _ w] parts_ok_grow [OF widens_same_nodes [OF w]] sound_widens [OF _ w]
    by (auto simp: checker_ok_def parents_ok_def modules_in_def)
qed

lemma checker_ok_bag: "checker_ok s \<Longrightarrow> checker_ok (s\<lparr>ck_bag := bag\<rparr>)"
  by (simp add: checker_ok_def parents_ok_def modules_in_def)

subsection \<open>How the state moves\<close>

definition entry_moves :: "nominal_entry \<Rightarrow> nominal_entry \<Rightarrow> bool" where
  "entry_moves e e' \<longleftrightarrow> nom_module e' = nom_module e \<and> nom_name e' = nom_name e \<and> nom_item e' = nom_item e \<and>
     nom_span e' = nom_span e \<and> (nom_started e \<longrightarrow> nom_started e' \<and> nom_type e' = nom_type e) \<and>
     (nom_complete e \<longrightarrow> nom_complete e')"

definition same_frame :: "checker \<Rightarrow> checker \<Rightarrow> bool" where
  "same_frame s s' \<longleftrightarrow> ck_tree s' = ck_tree s \<and> ck_width s' = ck_width s \<and> ck_intern s' = ck_intern s \<and>
     ck_modules s' = ck_modules s \<and> ck_parents s' = ck_parents s \<and> ck_in_fn s' = ck_in_fn s \<and>
     ck_scopes s' = ck_scopes s \<and> ck_loop_depth s' = ck_loop_depth s \<and> ck_fn_ret s' = ck_fn_ret s"

definition grows :: "checker \<Rightarrow> checker \<Rightarrow> bool" where
  "grows s s' \<longleftrightarrow> same_frame s s' \<and> widens (ck_store s) (ck_store s') \<and>
     list_all2 entry_moves (ck_nominals s) (ck_nominals s') \<and> prefix (ck_blessed s) (ck_blessed s') \<and>
     prefix (entries (ck_bag s)) (entries (ck_bag s'))"

definition pending :: "checker \<Rightarrow> nat set" where
  "pending s = {i. i < length (ck_nominals s) \<and> nom_started (ck_nominals s ! i) \<and> \<not> nom_complete (ck_nominals s ! i)}"

definition step :: "checker \<Rightarrow> checker \<Rightarrow> bool" where
  "step s s' \<longleftrightarrow> grows s s' \<and> pending s' \<subseteq> pending s"

lemma entry_moves_refl [simp]: "entry_moves e e"
  by (simp add: entry_moves_def)

lemma entry_moves_trans: "entry_moves a b \<Longrightarrow> entry_moves b c \<Longrightarrow> entry_moves a c"
  by (simp add: entry_moves_def)

lemma same_frame_refl [simp]: "same_frame s s"
  by (simp add: same_frame_def)

lemma same_frame_trans: "same_frame a b \<Longrightarrow> same_frame b c \<Longrightarrow> same_frame a c"
  by (simp add: same_frame_def)

lemma checker_grows_refl [simp]: "grows s s"
  by (simp add: grows_def list_all2_refl)

lemma checker_grows_trans: "grows a b \<Longrightarrow> grows b c \<Longrightarrow> grows a c"
  using list_all2_trans [of entry_moves entry_moves entry_moves "ck_nominals a" "ck_nominals b" "ck_nominals c"]
  by (auto simp: grows_def intro: same_frame_trans widens_trans prefix_order.trans entry_moves_trans)

lemma step_refl [simp]: "step s s"
  by (simp add: step_def)

lemma step_trans: "step a b \<Longrightarrow> step b c \<Longrightarrow> step a c"
  by (auto simp: step_def intro: checker_grows_trans)

lemma step_store:
  "widens (ck_store s) st \<Longrightarrow> prefix (entries (ck_bag s)) (entries bag) \<Longrightarrow> step s (s\<lparr>ck_store := st, ck_bag := bag\<rparr>)"
  by (simp add: step_def grows_def same_frame_def pending_def list_all2_refl)

subsection \<open>The judgement\<close>

definition gives :: "(checker \<Rightarrow> 'a \<Rightarrow> bool) \<Rightarrow> checker \<Rightarrow> 'a outcome \<Rightarrow> bool" where
  "gives Q s r \<longleftrightarrow> (\<exists>x s'. r = Some (x, s') \<and> step s s' \<and> checker_ok s' \<and> Q s' x)"

definition moves :: "checker \<Rightarrow> checker option \<Rightarrow> bool" where
  "moves s r \<longleftrightarrow> (\<exists>s'. r = Some s' \<and> step s s' \<and> checker_ok s')"

definition idx_ok :: "checker \<Rightarrow> nat \<Rightarrow> bool" where
  "idx_ok s i \<longleftrightarrow> sound (ck_store s) i"

definition opt_ok :: "checker \<Rightarrow> nat option \<Rightarrow> bool" where
  "opt_ok s w \<longleftrightarrow> (\<forall>i. w = Some i \<longrightarrow> idx_ok s i)"

lemma givesI: "r = Some (x, s') \<Longrightarrow> step s s' \<Longrightarrow> checker_ok s' \<Longrightarrow> Q s' x \<Longrightarrow> gives Q s r"
  by (auto simp: gives_def)

lemma gives_bind:
  assumes "gives P s r" and "\<And>x s'. step s s' \<Longrightarrow> checker_ok s' \<Longrightarrow> P s' x \<Longrightarrow> gives Q s' (k x s')"
  shows "gives Q s (Option.bind r (\<lambda>(x, s'). k x s'))"
  using assms unfolding gives_def by (force intro: step_trans)

lemma gives_moves_bind:
  assumes "moves s r" and "\<And>s'. step s s' \<Longrightarrow> checker_ok s' \<Longrightarrow> gives Q s' (k s')"
  shows "gives Q s (Option.bind r k)"
  using assms unfolding gives_def moves_def by (force intro: step_trans)

lemma moves_bind:
  assumes "gives P s r" and "\<And>x s'. step s s' \<Longrightarrow> checker_ok s' \<Longrightarrow> P s' x \<Longrightarrow> moves s' (k x s')"
  shows "moves s (Option.bind r (\<lambda>(x, s'). k x s'))"
  using assms unfolding gives_def moves_def by (force intro: step_trans)

lemma moves_moves_bind:
  assumes "moves s r" and "\<And>s'. step s s' \<Longrightarrow> checker_ok s' \<Longrightarrow> moves s' (k s')"
  shows "moves s (Option.bind r k)"
  using assms unfolding moves_def by (force intro: step_trans)

text \<open>A read that succeeds.\<close>

lemma gives_read: "r = Some x \<Longrightarrow> gives Q s (k x) \<Longrightarrow> gives Q s (Option.bind r k)"
  by simp

lemma moves_read: "r = Some x \<Longrightarrow> moves s (k x) \<Longrightarrow> moves s (Option.bind r k)"
  by simp

lemma gives_done: "checker_ok s \<Longrightarrow> Q s x \<Longrightarrow> gives Q s (Some (x, s))"
  by (auto simp: gives_def)

lemma moves_done: "checker_ok s \<Longrightarrow> moves s (Some s)"
  by (auto simp: moves_def)

lemma gives_mono: "gives P s r \<Longrightarrow> (\<And>s' x. step s s' \<Longrightarrow> P s' x \<Longrightarrow> Q s' x) \<Longrightarrow> gives Q s r"
  by (auto simp: gives_def)

lemma gives_snd: "gives P s r \<Longrightarrow> moves s (map_option snd r)"
  by (auto simp: gives_def moves_def)

lemma gives_found: "gives P s r \<Longrightarrow> (\<And>s' x. P s' x \<Longrightarrow> Q s' (Some x)) \<Longrightarrow> gives Q s (found r)"
  by (auto simp: gives_def found_def)

lemma idx_grows: "idx_ok s i \<Longrightarrow> grows s s' \<Longrightarrow> idx_ok s' i"
  by (auto simp: idx_ok_def grows_def intro: sound_widens)

lemma idx_step: "step s s' \<Longrightarrow> idx_ok s i \<Longrightarrow> idx_ok s' i"
  by (auto simp: step_def intro: idx_grows)

lemma opt_step: "step s s' \<Longrightarrow> opt_ok s w \<Longrightarrow> opt_ok s' w"
  by (auto simp: opt_ok_def intro: idx_step)

lemma opt_ok_simps [simp]: "opt_ok s None" "opt_ok s (Some i) \<longleftrightarrow> idx_ok s i"
  by (simp_all add: opt_ok_def)

lemma step_frame: "step s s' \<Longrightarrow> same_frame s s'"
  by (simp add: step_def grows_def)

lemma step_modules_in [simp]: "step s s' \<Longrightarrow> modules_in s' = modules_in s"
  by (simp add: modules_in_def step_def grows_def same_frame_def)

lemma step_nominals: "step s s' \<Longrightarrow> list_all2 entry_moves (ck_nominals s) (ck_nominals s')"
  by (simp add: step_def grows_def)

lemma step_length [simp]: "step s s' \<Longrightarrow> length (ck_nominals s') = length (ck_nominals s)"
  by (drule step_nominals, drule list_all2_lengthD) simp

text \<open>Using the builder and the bag.\<close>

lemma gives_build:
  assumes "checker_ok s" and "builds P (ck_store s) (f (ck_store s))"
  shows "gives (\<lambda>s' i. idx_ok s' i \<and> P (ck_store s') i) s (build f s)"
proof -
  obtain i st where f: "f (ck_store s) = (i, st)" by fastforce
  then have b: "store_ok st" "widens (ck_store s) st" "sound st i" "P st i"
    using assms(2) by (auto simp: builds_def)
  show ?thesis
    using checker_ok_store [OF assms(1) b(1,2), of "ck_bag s"] step_store [OF b(2), of "ck_bag s"] b(3,4) f
    by (intro givesI [of _ i "s\<lparr>ck_store := st\<rparr>"]) (simp_all add: build_def idx_ok_def)
qed

lemma checker_store_ok: "checker_ok s \<Longrightarrow> store_ok (ck_store s)"
  by (simp add: checker_ok_def)

lemma step_complain: "step s (complain code sp msg s)"
  using step_store [of s "ck_store s" "emit_at SevError code sp msg (ck_bag s)"] by (simp add: complain_def)

lemma checker_ok_complain: "checker_ok s \<Longrightarrow> checker_ok (complain code sp msg s)"
  by (simp add: complain_def checker_ok_bag)

lemma complain_sel [simp]:
  "ck_store (complain code sp msg s) = ck_store s" "ck_nominals (complain code sp msg s) = ck_nominals s"
  "ck_tree (complain code sp msg s) = ck_tree s" "ck_scopes (complain code sp msg s) = ck_scopes s"
  "ck_blessed (complain code sp msg s) = ck_blessed s" "ck_modules (complain code sp msg s) = ck_modules s"
  "ck_parents (complain code sp msg s) = ck_parents s"
  by (simp_all add: complain_def)

lemma gives_complain: "checker_ok s \<Longrightarrow> Q (complain code sp msg s) x \<Longrightarrow> gives Q s (Some (x, complain code sp msg s))"
  by (rule givesI) (auto intro: step_complain checker_ok_complain)

lemma gives_behind_complain:
  assumes "gives Q (complain code sp msg s) r"
  shows "gives Q s r"
  using assms unfolding gives_def by (blast intro: step_trans step_complain)

lemma moves_complain: "checker_ok s \<Longrightarrow> moves s (Some (complain code sp msg s))"
  by (auto simp: moves_def intro: step_complain checker_ok_complain)

lemma gives_error_type:
  "checker_ok s \<Longrightarrow> gives (\<lambda>s' i. idx_ok s' i \<and> tag_of (ck_store s') i = TyError) s (build error_type s)"
  by (rule gives_build) (auto intro: error_type_builds checker_store_ok)

lemma gives_never_type:
  "checker_ok s \<Longrightarrow> gives (\<lambda>s' i. idx_ok s' i \<and> tag_of (ck_store s') i = TyNever) s (build never_type s)"
  by (rule gives_build) (auto intro: never_type_builds checker_store_ok)

lemma gives_reject:
  "checker_ok s \<Longrightarrow> gives (\<lambda>s' i. idx_ok s' i \<and> tag_of (ck_store s') i = TyError) s (reject code sp msg s)"
  unfolding reject_def by (rule gives_behind_complain) (rule gives_error_type [OF checker_ok_complain])

lemma gives_prim:
  assumes "checker_ok s" and "tag \<notin> set composite_tags" and "tag \<noteq> TyRef" and "tag \<noteq> TyMutRef"
  shows "gives (\<lambda>s' i. idx_ok s' i \<and> tag_of (ck_store s') i = tag) s (prim tag s)"
proof -
  have p: "primitive tag = Some (primitive_idx tag)" using assms(2) by (simp add: primitive_def)
  show ?thesis
    using primitive_sound [OF checker_store_ok [OF assms(1)] p assms(3,4)] assms(1) p
    by (intro givesI [of _ "primitive_idx tag" s]) (auto simp: prim_def idx_ok_def tag_of_def)
qed

lemma tag_at_ok: "idx_ok s i \<Longrightarrow> tag_at i s = Some (tag_of (ck_store s) i)"
  by (auto simp: idx_ok_def tag_at_def node_at_def fetch_def tag_of_def dest: sound_in)

lemma pointee_at_ok:
  assumes "idx_ok s i" and "tag_of (ck_store s) i = TyRef \<or> tag_of (ck_store s) i = TyMutRef"
  shows "pointee_at i s = Some (pointee_of (ck_store s) i) \<and> idx_ok s (pointee_of (ck_store s) i) \<and>
    pointee_of (ck_store s) i < i"
proof -
  have s: "sound (ck_store s) i" using assms(1) by (simp add: idx_ok_def)
  have c: "pointee_of (ck_store s) i \<in> set (components (ck_store s) i)"
    using assms(2) by (auto simp: components_def Let_def)
  have "node_data (types (ck_store s) ! i) < length (ref_types (ck_store s))"
    using sound_node [OF s] assms(2) by (auto simp: node_ok_def tag_of_def Let_def)
  then show ?thesis
    using sound_in [OF s] sound_part [OF s c] component_less [OF sound_node [OF s] c] assms(2)
    by (auto simp: pointee_at_def node_at_def fetch_def as_ref_def tag_of_def pointee_of_def idx_ok_def)
qed

text \<open>Rows of results.\<close>

lemma gives_each:
  assumes "checker_ok s" and "I s"
    and "\<And>x s'. x \<in> set xs \<Longrightarrow> checker_ok s' \<Longrightarrow> I s' \<Longrightarrow> gives P s' (f x s')"
    and "\<And>s' s''. I s' \<Longrightarrow> step s' s'' \<Longrightarrow> I s''"
    and "\<And>s' s'' y. P s' y \<Longrightarrow> step s' s'' \<Longrightarrow> P s'' y"
  shows "gives (\<lambda>s' ys. length ys = length xs \<and> (\<forall>y \<in> set ys. P s' y)) s (resolve_each f xs s)"
  using assms(1-3)
proof (induction xs arbitrary: s)
  case Nil
  then show ?case by (simp add: gives_done)
next
  case (Cons x xs)
  show ?case unfolding resolve_each.simps
  proof (rule gives_bind)
    show "gives P s (f x s)" using Cons.prems by simp
    show "gives (\<lambda>s' ys. length ys = length (x # xs) \<and> (\<forall>y \<in> set ys. P s' y)) s'
        (do { (is, s) \<leftarrow> resolve_each f xs s'; Some (y # is, s) })"
      if a: "step s s'" "checker_ok s'" "P s' y" for y s'
    proof (rule gives_bind)
      show "gives (\<lambda>s' ys. length ys = length xs \<and> (\<forall>y \<in> set ys. P s' y)) s' (resolve_each f xs s')"
        using Cons.prems a assms(4) by (intro Cons.IH) auto
    qed (use a(3) assms(5) in \<open>auto intro!: gives_done\<close>)
  qed
qed

lemma moves_each:
  assumes "checker_ok s" and "I s"
    and "\<And>x s'. x \<in> set xs \<Longrightarrow> checker_ok s' \<Longrightarrow> I s' \<Longrightarrow> moves s' (f x s')"
    and "\<And>s' s''. I s' \<Longrightarrow> step s' s'' \<Longrightarrow> I s''"
  shows "moves s (run_each f xs s)"
  using assms(1-3)
proof (induction xs arbitrary: s)
  case (Cons x xs)
  show ?case unfolding run_each.simps
    using Cons.prems assms(4) by (intro moves_moves_bind Cons.IH) auto
qed (simp add: moves_done)

subsection \<open>Rows and variants\<close>

lemma copied_row_ok:
  assumes "checker_ok s" and "\<forall>t \<in> set ts. idx_ok s t"
  shows "gives (\<lambda>s' r. range_size r = length ts \<and> (\<forall>i \<in> set (indices r). idx_ok s' i) \<and>
    range_head r + range_size r \<le> length (types (ck_store s')) \<and>
    enum_variant_types (ck_store s') = enum_variant_types (ck_store s) \<and> ck_nominals s' = ck_nominals s)
    s (copied_row ts s)"
proof -
  obtain r st where "copy_types ts empty_seq (ck_store s) = Some (r, st)" and st: "store_ok st"
      "widens (ck_store s) st" "range_size r = length ts" "\<forall>i \<in> set (indices r). sound st i"
      "range_head r + range_size r \<le> length (types st)"
      "enum_variant_types st = enum_variant_types (ck_store s)"
    using copy_types_builds [OF checker_store_ok [OF assms(1)], of ts] assms(2) unfolding idx_ok_def by metis
  then show ?thesis
    using checker_ok_store [OF assms(1) st(1,2), of "ck_bag s"] step_store [OF st(2), of "ck_bag s"]
    by (intro givesI [of _ r "s\<lparr>ck_store := st\<rparr>"]) (simp_all add: copied_row_def build_checked_def idx_ok_def)
qed

lemma variant_ok:
  assumes "checker_ok s" and "\<forall>i \<in> set (indices fs). idx_ok s i"
  shows "gives (\<lambda>s' v. v = length (enum_variant_types (ck_store s)) \<and>
    length (enum_variant_types (ck_store s')) = Suc v \<and> ck_nominals s' = ck_nominals s)
    s (build (enum_variant name fs) s)"
proof -
  obtain v st where v: "enum_variant name fs (ck_store s) = (v, st)" by fastforce
  then have st: "store_ok st" "widens (ck_store s) st" "v = length (enum_variant_types (ck_store s))"
      "length (enum_variant_types st) = Suc v"
    using enum_variant_builds [OF checker_store_ok [OF assms(1)] _ v] assms(2) by (auto simp: idx_ok_def)
  then show ?thesis
    using checker_ok_store [OF assms(1) st(1,2), of "ck_bag s"] step_store [OF st(2), of "ck_bag s"] v
    by (intro givesI [of _ v "s\<lparr>ck_store := st\<rparr>"]) (simp_all add: build_def)
qed

definition row_follows :: "seq_builder \<Rightarrow> checker \<Rightarrow> bool" where
  "row_follows q s \<longleftrightarrow> seq_count q = 0 \<or> seq_head q + seq_count q = length (enum_variant_types (ck_store s))"

lemma add_variants_ok:
  "checker_ok s \<Longrightarrow> \<forall>v \<in> set vs. \<forall>i \<in> set (snd v). idx_ok s i \<Longrightarrow> row_follows q s \<Longrightarrow>
     gives (\<lambda>s' r. range_size r = seq_count q + length vs \<and>
       (\<forall>i \<in> set (indices r). i < length (enum_variant_types (ck_store s'))) \<and> ck_nominals s' = ck_nominals s)
       s (add_variants vs q s)"
proof (induction vs arbitrary: q s)
  case Nil
  then show ?case by (auto intro!: gives_done simp: seq_finish_def row_follows_def)
next
  case (Cons v vs)
  obtain name payload where v: "v = (name, payload)" by fastforce
  show ?case unfolding v add_variants.simps
  proof (rule gives_bind)
    show "gives (\<lambda>s' r. range_size r = length payload \<and> (\<forall>i \<in> set (indices r). idx_ok s' i) \<and>
        range_head r + range_size r \<le> length (types (ck_store s')) \<and>
        enum_variant_types (ck_store s') = enum_variant_types (ck_store s) \<and> ck_nominals s' = ck_nominals s)
      s (copied_row payload s)"
      using Cons.prems v by (intro copied_row_ok) auto
  next
    fix fs s1
    assume 1: "step s s1" "checker_ok s1" and fs: "range_size fs = length payload \<and> (\<forall>i \<in> set (indices fs). idx_ok s1 i) \<and>
        range_head fs + range_size fs \<le> length (types (ck_store s1)) \<and>
        enum_variant_types (ck_store s1) = enum_variant_types (ck_store s) \<and> ck_nominals s1 = ck_nominals s"
    show "gives (\<lambda>s' r. range_size r = seq_count q + length ((name, payload) # vs) \<and>
        (\<forall>i \<in> set (indices r). i < length (enum_variant_types (ck_store s'))) \<and> ck_nominals s' = ck_nominals s)
      s1 (do {
        (v, s) \<leftarrow> build (enum_variant (ck_intern s1 name) fs) s1;
        q \<leftarrow> seq_push v q;
        add_variants vs q s
      })"
    proof (rule gives_bind [OF variant_ok [OF 1(2)]])
      show "\<forall>i \<in> set (indices fs). idx_ok s1 i" using fs by simp
    next
      fix w s2
      assume 2: "step s1 s2" "checker_ok s2" and w: "w = length (enum_variant_types (ck_store s1)) \<and>
          length (enum_variant_types (ck_store s2)) = Suc w \<and> ck_nominals s2 = ck_nominals s1"
      have "seq_push w q = Some \<lparr>seq_head = (if seq_count q = 0 then w else seq_head q), seq_count = Suc (seq_count q)\<rparr>"
        using Cons.prems(3) w fs by (intro seq_push_next) (auto simp: row_follows_def)
      moreover have "gives (\<lambda>s' r. range_size r = Suc (seq_count q) + length vs \<and>
          (\<forall>i \<in> set (indices r). i < length (enum_variant_types (ck_store s'))) \<and> ck_nominals s' = ck_nominals s2)
        s2 (add_variants vs \<lparr>seq_head = (if seq_count q = 0 then w else seq_head q), seq_count = Suc (seq_count q)\<rparr> s2)"
      proof -
        have "idx_ok s2 i" if "idx_ok s i" for i using that 1(1) 2(1) by (blast intro: idx_step)
        then have "\<forall>v \<in> set vs. \<forall>i \<in> set (snd v). idx_ok s2 i" using Cons.prems(2) by simp
        from Cons.IH [OF 2(2) this, of "\<lparr>seq_head = (if seq_count q = 0 then w else seq_head q), seq_count = Suc (seq_count q)\<rparr>"]
        show ?thesis using Cons.prems(3) w fs by (cases "seq_count q = 0") (simp_all add: row_follows_def)
      qed
      ultimately show "gives (\<lambda>s' r. range_size r = seq_count q + length ((name, payload) # vs) \<and>
          (\<forall>i \<in> set (indices r). i < length (enum_variant_types (ck_store s'))) \<and> ck_nominals s' = ck_nominals s)
        s2 (Option.bind (seq_push w q) (\<lambda>q. add_variants vs q s2))"
        using w fs by (auto elim: gives_mono)
    qed
  qed
qed

subsection \<open>Names\<close>

lemma first_index_hit: "first_index P xs = Some i \<Longrightarrow> i < length xs \<and> P (xs ! i)"
proof (induction xs arbitrary: i)
  case (Cons x xs)
  then show ?case by (cases i) (auto split: if_splits)
qed simp

lemma find_nominal_in:
  "find_nominal m name s = Some e \<Longrightarrow>
     e < length (ck_nominals s) \<and> nom_module (ck_nominals s ! e) = m \<and> nom_name (ck_nominals s ! e) = name"
  by (auto simp: find_nominal_def dest: first_index_hit)

lemma imported_nominal_in: "imported_nominal ims name s = Some e \<Longrightarrow> e < length (ck_nominals s)"
  by (auto simp: imported_nominal_def dest: find_nominal_in split: option.splits)

lemma module_at_ok: "m < modules_in s \<Longrightarrow> module_at m s = Some (tree_modules (ck_tree s) ! m)"
  by (simp add: module_at_def fetch_def modules_in_def)

lemma nominal_in_scope_ok:
  "m < modules_in s \<Longrightarrow>
     \<exists>e. nominal_in_scope m name s = Some e \<and> (\<forall>i. e = Some i \<longrightarrow> i < length (ck_nominals s))"
  by (auto simp: nominal_in_scope_def module_at_ok dest: find_nominal_in imported_nominal_in split: option.split)

lemma child_named_in: "child_named m name s = Some c \<Longrightarrow> c < modules_in s"
  by (auto simp: child_named_def find_Some_iff modules_in_def)

definition target_ok :: "checker \<Rightarrow> nat option \<Rightarrow> bool" where
  "target_ok s t \<longleftrightarrow> (\<forall>m. t = Some m \<longrightarrow> m < modules_in s)"

lemma walk_children_ok:
  "checker_ok s \<Longrightarrow> m < modules_in s \<Longrightarrow> gives target_ok s (walk_children what sp m names s)"
proof (induction names arbitrary: m)
  case Nil
  then show ?case by (auto intro!: gives_done simp: target_ok_def)
next
  case (Cons name names)
  then show ?case
    by (auto simp: target_ok_def intro!: gives_complain split: option.split dest: child_named_in)
qed

lemma walk_module_prefix_ok:
  assumes ok: "checker_ok s" and m: "m < modules_in s" and p: "path_segments p \<noteq> []"
  shows "gives target_ok s (walk_module_prefix what m p s)"
proof -
  have h: "fetch (map id_name (path_segments p)) 0 = Some (id_name (path_segments p ! 0))"
    using p by (simp add: fetch_def)
  have ps: "m < length (ck_parents s)" "\<And>c. Some c \<in> set (ck_parents s) \<Longrightarrow> c < modules_in s"
    using ok m by (auto simp: checker_ok_def parents_ok_def)
  then have u: "parent_of m s = Some (ck_parents s ! m)" and
      up: "\<And>c. ck_parents s ! m = Some c \<Longrightarrow> c < modules_in s"
    using nth_mem [OF ps(1)] by (auto simp: parent_of_def fetch_def)
  have r: "tree_root (ck_tree s) < modules_in s" using ok by (simp add: checker_ok_def tree_ok_def modules_in_def)
  show ?thesis
    using ok m r up
    by (auto simp: walk_module_prefix_def h u Let_def target_ok_def [abs_def]
        intro!: gives_done gives_complain walk_children_ok [unfolded target_ok_def [abs_def]]
        dest: child_named_in split: option.split)
qed

lemma resolve_type_path_ok:
  assumes "checker_ok s" and "m < modules_in s"
  shows "gives (\<lambda>s' r. \<forall>t name. r = Some (t, name) \<longrightarrow> t < modules_in s') s (resolve_type_path m p s)"
  unfolding resolve_type_path_def
  using assms by (auto intro!: gives_done gives_bind [OF walk_module_prefix_ok] simp: target_ok_def)

subsection \<open>How much is left to resolve\<close>

definition item_types :: "item \<Rightarrow> type_expr list" where
  "item_types it = map field_type (decl_fields it) @ concat (map enum_variant.variant_fields (decl_variants it))"

definition decl_depth :: "checker \<Rightarrow> nat" where
  "decl_depth s = Suc (sum_list (map (\<lambda>e. sum_list (map size (item_types (nom_item e)))) (ck_nominals s)))"

definition unstarted :: "checker \<Rightarrow> nat" where
  "unstarted s = length (filter (\<lambda>e. \<not> nom_started e) (ck_nominals s))"

text \<open>
  Enough fuel: each nominal type that has not been started may be entered once, and costs the
  depth of its field types.
\<close>

definition type_room :: "nat \<Rightarrow> checker \<Rightarrow> nat \<Rightarrow> bool" where
  "type_room n s k \<longleftrightarrow> unstarted s * decl_depth s + k < n"

lemma item_types_depth:
  assumes "e < length (ck_nominals s)" and "t \<in> set (item_types (nom_item (ck_nominals s ! e)))"
  shows "size t < decl_depth s"
proof -
  have "size t \<le> sum_list (map size (item_types (nom_item (ck_nominals s ! e))))"
    using assms(2) by (intro member_le_sum_list) auto
  also have "\<dots> \<le> sum_list (map (\<lambda>e. sum_list (map size (item_types (nom_item e)))) (ck_nominals s))"
    using assms(1) by (intro member_le_sum_list) auto
  finally show ?thesis by (simp add: decl_depth_def)
qed

lemma moves_items: "list_all2 entry_moves es es' \<Longrightarrow> map nom_item es' = map nom_item es"
  by (induction rule: list_all2_induct) (simp_all add: entry_moves_def)

lemma moves_unstarted:
  "list_all2 entry_moves es es' \<Longrightarrow>
     length (filter (\<lambda>e. \<not> nom_started e) es') \<le> length (filter (\<lambda>e. \<not> nom_started e) es)"
  by (induction rule: list_all2_induct) (auto simp: entry_moves_def)

lemma grows_depth: "grows s s' \<Longrightarrow> decl_depth s' = decl_depth s"
proof -
  assume "grows s s'"
  then have "map nom_item (ck_nominals s') = map nom_item (ck_nominals s)" by (simp add: grows_def moves_items)
  then have "map g (map nom_item (ck_nominals s')) = map g (map nom_item (ck_nominals s))" for g :: "item \<Rightarrow> nat"
    by simp
  from this [of "\<lambda>it. sum_list (map size (item_types it))"] show ?thesis
    by (simp add: decl_depth_def comp_def)
qed

lemma room_step: "step s s' \<Longrightarrow> type_room n s k \<Longrightarrow> type_room n s' k"
proof -
  assume "step s s'" "type_room n s k"
  then have "decl_depth s' = decl_depth s" "unstarted s' \<le> unstarted s"
    by (auto simp: step_def grows_depth) (auto simp: grows_def unstarted_def moves_unstarted)
  then have "unstarted s' * decl_depth s' \<le> unstarted s * decl_depth s" by simp
  then show ?thesis using \<open>type_room n s k\<close> by (simp add: type_room_def)
qed

lemma room_less: "type_room n s k \<Longrightarrow> j \<le> k \<Longrightarrow> type_room n s j"
  by (simp add: type_room_def)

subsection \<open>Nominal types\<close>

lemma entry_step:
  assumes "step s s'" and "e < length (ck_nominals s)"
  shows "entry_moves (ck_nominals s ! e) (ck_nominals s' ! e)"
  using list_all2_nthD [OF step_nominals [OF assms(1)] assms(2)] .

lemma filter_update_length:
  "e < length xs \<Longrightarrow> P (xs ! e) \<Longrightarrow> \<not> P x \<Longrightarrow> length (filter P xs) = Suc (length (filter P (xs[e := x])))"
proof (induction xs arbitrary: e)
  case (Cons y ys)
  then show ?case by (cases e) auto
qed simp

lemma checker_ok_nominals:
  assumes "checker_ok s" and "store_ok st" and n: "same_nodes (ck_store s) st"
    and "\<forall>x \<in> set es. entry_ok (modules_in s) st x" and "own_payloads st es"
  shows "checker_ok (s\<lparr>ck_store := st, ck_nominals := es\<rparr>)"
proof -
  have "\<forall>b \<in> set (ck_blessed s). blessed_ok st b" "\<forall>c \<in> set (ck_modules s). module_ok st c"
    "scopes_ok st (ck_scopes s)" "sound st (ck_fn_ret s)"
    using assms(1) parts_ok_grow [OF n] sound_same_nodes [OF _ n] unfolding checker_ok_def by blast+
  then show ?thesis using assms by (simp add: checker_ok_def parents_ok_def modules_in_def)
qed

text \<open>Reserving: the entry gets a payload that no other entry has.\<close>

lemma reserve_ok:
  assumes ok: "checker_ok s" and e: "e < length (ck_nominals s)" and entry: "entry = ck_nominals s ! e"
    and un: "\<not> nom_started entry"
    and st: "store_ok st" "widens (ck_store s) st" "sound st t"
    and tag: "tag_of st t = (if is_struct_item (nom_item entry) then TyStruct else TyEnum)"
    and new: "node_data (types st ! t) = (if is_struct_item (nom_item entry)
      then length (struct_types (ck_store s)) else length (enum_types (ck_store s)))"
    and s1: "s1 = set_nominal e (\<lambda>n. n\<lparr>nom_type := t, nom_started := True\<rparr>) (s\<lparr>ck_store := st\<rparr>)"
  shows "checker_ok s1 \<and> grows s s1 \<and> pending s1 \<subseteq> insert e (pending s) \<and> unstarted s = Suc (unstarted s1)"
proof -
  let ?x = "entry\<lparr>nom_type := t, nom_started := True\<rparr>" and ?es = "ck_nominals s"
  have s1': "s1 = s\<lparr>ck_store := st, ck_nominals := ?es[e := ?x]\<rparr>"
    by (simp add: s1 set_nominal_def entry)
  have eok: "entry_ok (modules_in s) (ck_store s) entry" "\<not> nom_complete entry"
    using ok e un entry by (auto simp: checker_ok_def entry_ok_def)
  have typed: "typed_entry st ?x" using st(3) tag by (simp add: typed_entry_def)
  have olds: "typed_entry (ck_store s) (?es ! i)" if "i < length ?es" "nom_started (?es ! i)" for i
    using ok that by (auto simp: checker_ok_def entry_ok_def)
  have pay: "payload_of st (?es ! i) = payload_of (ck_store s) (?es ! i)" if "i < length ?es" "nom_started (?es ! i)" for i
    using typed_entry_grows [OF olds [OF that] widens_same_nodes [OF st(2)]] by simp
  have fresh: "payload_of st (?es ! i) \<noteq> payload_of st ?x" if "i < length ?es" "same_kind (?es ! i) ?x" for i
  proof -
    have n: "nom_started (?es ! i)" "is_struct_item (nom_item (?es ! i)) = is_struct_item (nom_item entry)"
      using that(2) by (simp_all add: same_kind_def)
    have "payload_of (ck_store s) (?es ! i) < (if is_struct_item (nom_item entry)
        then length (struct_types (ck_store s)) else length (enum_types (ck_store s)))"
      using typed_payload [OF olds [OF that(1) n(1)]] n(2) by (auto split: if_splits)
    then show ?thesis using pay [OF that(1) n(1)] new by (simp add: payload_of_def)
  qed
  have own: "own_payloads st (?es[e := ?x])"
    unfolding own_payloads_def
  proof (intro allI impI)
    fix i j assume ij: "i < length (?es[e := ?x])" "j < length (?es[e := ?x])" "i \<noteq> j"
      "same_kind (?es[e := ?x] ! i) (?es[e := ?x] ! j)"
    consider "i = e" | "j = e" "i \<noteq> e" | "i \<noteq> e" "j \<noteq> e" by blast
    then show "payload_of st (?es[e := ?x] ! i) \<noteq> payload_of st (?es[e := ?x] ! j)"
    proof cases
      case 1
      then show ?thesis using ij fresh [of j] by (auto simp: same_kind_def)
    next
      case 2
      then show ?thesis using ij fresh [of i] by (auto simp: same_kind_def)
    next
      case 3
      then have k: "same_kind (?es ! i) (?es ! j)" using ij by simp
      then have "payload_of (ck_store s) (?es ! i) \<noteq> payload_of (ck_store s) (?es ! j)"
        using ok ij by (auto simp: checker_ok_def own_payloads_def)
      then show ?thesis using pay ij k 3 by (simp add: same_kind_def)
    qed
  qed
  have ents: "\<forall>x \<in> set (?es[e := ?x]). entry_ok (modules_in s) st x"
  proof
    fix x assume "x \<in> set (?es[e := ?x])"
    then have "x = ?x \<or> x \<in> set ?es" by (auto dest: set_update_subset_insert [THEN subsetD])
    then show "entry_ok (modules_in s) st x"
      using ok eok typed entry_ok_widens [OF _ st(2)] by (auto simp: checker_ok_def entry_ok_def)
  qed
  have "checker_ok s1"
    unfolding s1' by (rule checker_ok_nominals [OF ok st(1) widens_same_nodes [OF st(2)] ents own])
  moreover have "list_all2 entry_moves ?es (?es[e := ?x])"
    using e entry un eok(2) by (auto simp: list_all2_conv_all_nth nth_list_update entry_moves_def)
  moreover have "unstarted s = Suc (unstarted s1)"
    using e un entry
    by (simp add: unstarted_def s1' filter_update_length)
  ultimately show ?thesis
    using st(2) by (auto simp: grows_def same_frame_def s1' pending_def nth_list_update split: if_splits)
qed

lemma entry_complete_simps [simp]:
  "typed_entry st (x\<lparr>nom_complete := c\<rparr>) = typed_entry st x"
  "filled_entry st (x\<lparr>nom_complete := c\<rparr>) = filled_entry st x"
  "payload_of st (x\<lparr>nom_complete := c\<rparr>) = payload_of st x"
  by (simp_all add: typed_entry_def filled_entry_def payload_of_def)

text \<open>Filling: only the payload of the entry changes.\<close>

lemma fill_ok:
  assumes ok: "checker_ok s2" and e: "e < length (ck_nominals s2)" and x: "x = ck_nominals s2 ! e" "nom_started x"
    and st: "store_ok st" "same_nodes (ck_store s2) st" "widens (ck_store s) st"
    and filled: "filled_entry st x"
    and others: "\<And>y. typed_entry (ck_store s2) y \<Longrightarrow> filled_entry (ck_store s2) y \<Longrightarrow>
      is_struct_item (nom_item y) \<noteq> is_struct_item (nom_item x) \<or> payload_of (ck_store s2) y \<noteq> payload_of (ck_store s2) x \<Longrightarrow>
      filled_entry st y"
    and path: "grows s s1" "step s1 s2" "pending s1 \<subseteq> insert e (pending s)"
    and s3: "s3 = set_nominal e (\<lambda>n. n\<lparr>nom_complete := True\<rparr>) (s2\<lparr>ck_store := st\<rparr>)"
  shows "checker_ok s3 \<and> step s s3"
proof -
  let ?es = "ck_nominals s2" and ?x = "x\<lparr>nom_complete := True\<rparr>"
  have s3': "s3 = s2\<lparr>ck_store := st, ck_nominals := ?es[e := ?x]\<rparr>"
    by (simp add: s3 set_nominal_def x)
  have eoks: "entry_ok (modules_in s2) (ck_store s2) y" if "y \<in> set ?es" for y
    using ok that by (simp add: checker_ok_def)
  have typed: "typed_entry st y \<and> payload_of st y = payload_of (ck_store s2) y" if "y \<in> set ?es" "nom_started y" for y
    using eoks [OF that(1)] that(2) typed_entry_grows [OF _ st(2)] by (simp add: entry_ok_def)
  have xin: "x \<in> set ?es" using e x by simp
  have ents: "entry_ok (modules_in s2) st (?es[e := ?x] ! i)" if i: "i < length ?es" for i
  proof (cases "i = e")
    case True
    have "typed_entry st x" using typed [OF xin x(2)] by simp
    then show ?thesis using True i eoks [OF xin] x(2) filled
      by (simp add: entry_ok_def)
  next
    case False
    let ?y = "?es ! i"
    have y: "?y \<in> set ?es" using i by simp
    have "filled_entry st ?y" if c: "nom_complete ?y"
    proof (rule others)
      have s: "nom_started ?y" using eoks [OF y] c by (simp add: entry_ok_def)
      then show "typed_entry (ck_store s2) ?y" "filled_entry (ck_store s2) ?y"
        using eoks [OF y] c by (auto simp: entry_ok_def)
      have "own_payloads (ck_store s2) ?es" using ok by (simp add: checker_ok_def)
      then show "is_struct_item (nom_item ?y) \<noteq> is_struct_item (nom_item x) \<or>
          payload_of (ck_store s2) ?y \<noteq> payload_of (ck_store s2) x"
        using False i e x s by (auto simp: own_payloads_def same_kind_def)
    qed
    then show ?thesis using False i eoks [OF y] typed [OF y] by (simp add: entry_ok_def)
  qed
  have own: "own_payloads st (?es[e := ?x])"
  proof -
    have "own_payloads st ?es"
      using ok typed own_payloads_grows [OF _ _ st(2)] eoks by (auto simp: checker_ok_def entry_ok_def)
    moreover have "nom_started (?es[e := ?x] ! i) = nom_started (?es ! i) \<and> nom_item (?es[e := ?x] ! i) = nom_item (?es ! i) \<and>
        payload_of st (?es[e := ?x] ! i) = payload_of st (?es ! i)" if "i < length ?es" for i
      using that x(1) by (cases "i = e") simp_all
    ultimately show ?thesis by (simp add: own_payloads_def same_kind_def)
  qed
  have "checker_ok s3"
    unfolding s3' using ents by (intro checker_ok_nominals [OF ok st(1,2) _ own]) (auto simp: in_set_conv_nth)
  moreover have "grows s s3"
  proof -
    have "grows s s2" using path by (auto simp: step_def intro: checker_grows_trans)
    moreover have "list_all2 entry_moves ?es (?es[e := ?x])"
      using e x by (auto simp: list_all2_conv_all_nth nth_list_update entry_moves_def)
    ultimately show ?thesis
      using st(3) list_all2_trans [of entry_moves entry_moves entry_moves "ck_nominals s" ?es "?es[e := ?x]"]
      by (auto simp: grows_def same_frame_def s3' intro: entry_moves_trans)
  qed
  moreover have "pending s3 \<subseteq> pending s2 - {e}"
    using e by (auto simp: pending_def s3' nth_list_update split: if_splits)
  ultimately show ?thesis using path by (auto simp: step_def)
qed

subsection \<open>Resolving\<close>

type_synonym resolver_fn = "nat \<Rightarrow> type_expr \<Rightarrow> nat option \<Rightarrow> checker \<Rightarrow> nat outcome"

definition resolver_ok :: "nat \<Rightarrow> resolver_fn \<Rightarrow> bool" where
  "resolver_ok n resolve \<longleftrightarrow> (\<forall>m t self s. checker_ok s \<longrightarrow> m < modules_in s \<longrightarrow> opt_ok s self \<longrightarrow>
     type_room n s (size t) \<longrightarrow> gives idx_ok s (resolve m t self s))"

lemma resolver_okD:
  "resolver_ok n resolve \<Longrightarrow> checker_ok s \<Longrightarrow> m < modules_in s \<Longrightarrow> opt_ok s self \<Longrightarrow> type_room n s (size t) \<Longrightarrow>
     gives idx_ok s (resolve m t self s)"
  by (simp add: resolver_ok_def)

text \<open>A row of types, for which there is room.\<close>

lemma resolve_each_ok:
  assumes "resolver_ok n resolve" and "checker_ok s" and "m < modules_in s" and "opt_ok s self"
    and "\<forall>t \<in> set ts. type_room n s (size (f t))"
  shows "gives (\<lambda>s' is. length is = length ts \<and> (\<forall>i \<in> set is. idx_ok s' i)) s
    (resolve_each (\<lambda>t. resolve m (f t) self) ts s)"
  by (rule gives_each [where I = "\<lambda>s'. m < modules_in s' \<and> opt_ok s' self \<and> (\<forall>t \<in> set ts. type_room n s' (size (f t)))"])
    (use assms in \<open>auto intro: resolver_okD idx_step opt_step room_step\<close>)

lemma resolve_rows_ok:
  assumes "resolver_ok n resolve" and "checker_ok s" and "m < modules_in s"
    and "\<forall>v \<in> set vs. \<forall>t \<in> set (f v). type_room n s (size t)"
  shows "gives (\<lambda>s' rows. length rows = length vs \<and> (\<forall>r \<in> set rows. \<forall>i \<in> set r. idx_ok s' i)) s
    (resolve_each (\<lambda>v. resolve_each (\<lambda>t. resolve m t None) (f v)) vs s)"
proof (rule gives_each [where I = "\<lambda>s'. m < modules_in s' \<and> (\<forall>v \<in> set vs. \<forall>t \<in> set (f v). type_room n s' (size t))"])
  show "gives (\<lambda>s' is. \<forall>i \<in> set is. idx_ok s' i) s' (resolve_each (\<lambda>t. resolve m t None) (f v) s')"
    if "v \<in> set vs" "checker_ok s'" "m < modules_in s' \<and> (\<forall>v \<in> set vs. \<forall>t \<in> set (f v). type_room n s' (size t))" for v s'
    using that resolve_each_ok [OF assms(1) that(2), of m None "f v" "\<lambda>t. t"] by (auto elim: gives_mono)
qed (use assms in \<open>auto intro: idx_step room_step\<close>)

definition interned :: "nat \<Rightarrow> checker \<Rightarrow> nat \<Rightarrow> bool" where
  "interned e s t \<longleftrightarrow> idx_ok s t \<and> e < length (ck_nominals s) \<and> nom_started (ck_nominals s ! e) \<and>
     nom_type (ck_nominals s ! e) = t \<and>
     tag_of (ck_store s) t = (if is_struct_item (nom_item (ck_nominals s ! e)) then TyStruct else TyEnum)"

lemma nominal_ok:
  "e < length (ck_nominals s) \<Longrightarrow> nominal e s = Some (ck_nominals s ! e)"
  by (simp add: nominal_def fetch_def)

lemma entry_in:
  "checker_ok s \<Longrightarrow> e < length (ck_nominals s) \<Longrightarrow> entry_ok (modules_in s) (ck_store s) (ck_nominals s ! e)"
  by (simp add: checker_ok_def)

lemma interned_started:
  assumes "checker_ok s" and "e < length (ck_nominals s)" and "nom_started (ck_nominals s ! e)"
  shows "interned e s (nom_type (ck_nominals s ! e))"
  using entry_in [OF assms(1,2)] assms(2,3) by (simp add: interned_def entry_ok_def typed_entry_def idx_ok_def)

text \<open>The fields of a struct, and the variants of an enum, resolved and filled in.\<close>

definition fill_entry :: "resolver_fn \<Rightarrow> nominal_entry \<Rightarrow> nat \<Rightarrow> checker \<Rightarrow> checker option" where
  "fill_entry resolve entry t s =
     (if is_struct_item (nom_item entry) then do {
        (fs, s) \<leftarrow> resolve_each (\<lambda>f. resolve (nom_module entry) (field_type f) None)
          (decl_fields (nom_item entry)) s;
        (row, s) \<leftarrow> copied_row fs s;
        change_store (fill_struct t row) s
      }
      else do {
        (payloads, s) \<leftarrow> resolve_each
          (\<lambda>v. resolve_each (\<lambda>f. resolve (nom_module entry) f None) (enum_variant.variant_fields v))
          (decl_variants (nom_item entry)) s;
        (vs, s) \<leftarrow> add_variants
          (zip (map (\<lambda>v. id_name (enum_variant.variant_name v)) (decl_variants (nom_item entry))) payloads)
          empty_seq s;
        change_store (fill_enum t vs) s
      })"

definition reserve_entry :: "nominal_entry \<Rightarrow> checker \<Rightarrow> nat outcome" where
  "reserve_entry entry s =
     (if is_struct_item (nom_item entry) then build (reserve_struct (ck_intern s (nom_name entry))) s
      else build (reserve_enum (ck_intern s (nom_name entry))) s)"

lemma intern_nominal_unfold:
  "intern_nominal resolve e s = do {
     entry \<leftarrow> nominal e s;
     if nom_complete entry \<or> nom_started entry then Some (nom_type entry, s)
     else do {
       (t, s) \<leftarrow> reserve_entry entry s;
       s \<leftarrow> fill_entry resolve entry t (set_nominal e (\<lambda>n. n\<lparr>nom_type := t, nom_started := True\<rparr>) s);
       Some (t, set_nominal e (\<lambda>n. n\<lparr>nom_complete := True\<rparr>) s)
     }
   }"
  unfolding intern_nominal_def fill_entry_def reserve_entry_def Let_def by (rule refl)

lemma reserve_entry_run:
  assumes "checker_ok s"
  obtains t st where "reserve_entry entry s = Some (t, s\<lparr>ck_store := st\<rparr>)" "store_ok st" "widens (ck_store s) st"
    "sound st t" "tag_of st t = (if is_struct_item (nom_item entry) then TyStruct else TyEnum)"
    "node_data (types st ! t) = (if is_struct_item (nom_item entry)
      then length (struct_types (ck_store s)) else length (enum_types (ck_store s)))"
proof (cases "is_struct_item (nom_item entry)")
  case True
  obtain t st where r: "reserve_struct (ck_intern s (nom_name entry)) (ck_store s) = (t, st)" by fastforce
  then show thesis
    using reserve_struct_builds [OF checker_store_ok [OF assms], of "ck_intern s (nom_name entry)"] True
    by (intro that [of t st]) (auto simp: builds_def reserve_entry_def build_def)
next
  case False
  obtain t st where r: "reserve_enum (ck_intern s (nom_name entry)) (ck_store s) = (t, st)" by fastforce
  then show thesis
    using reserve_enum_builds [OF checker_store_ok [OF assms], of "ck_intern s (nom_name entry)"] False
    by (intro that [of t st]) (auto simp: builds_def reserve_entry_def build_def)
qed

end
