(* ===== verification/Checker_Reports.thy ===== *)
theory Checker_Reports
  imports Checker_Bodies
begin

text \<open>
  Whole packages run through the type checker: what is reported for small programs, among them
  programs that the language documents accept. The programs are built from the nodes that the
  parser returns, with empty spans.
\<close>

subsection \<open>Building small packages\<close>

definition id_of :: "string \<Rightarrow> ident" where
  "id_of name = \<lparr>id_name = name, id_span = empty_span\<rparr>"

definition path_of :: "string list \<Rightarrow> ast_path" where
  "path_of names = \<lparr>path_segments = map id_of names, path_span = empty_span\<rparr>"

definition type_of :: "string \<Rightarrow> type_expr" where
  "type_of name = PathType empty_span (path_of [name]) []"

definition i32_type :: type_expr where
  "i32_type = PrimitiveType empty_span PrimI32"

definition number :: "string \<Rightarrow> expr" where
  "number text = LiteralExpr empty_span \<lparr>lit_kind = IntegerLit, lit_span = empty_span, lit_spelling = text\<rparr>"

definition var :: "string list \<Rightarrow> expr" where
  "var names = PathExpr empty_span (path_of names)"

definition bound :: "string \<Rightarrow> pattern" where
  "bound name = IdentPattern empty_span (id_of name)"

definition field_of :: "expr \<Rightarrow> string \<Rightarrow> expr" where
  "field_of e name = FieldExpr empty_span e (id_of name)"

definition fn_of :: "string \<Rightarrow> (string \<times> type_expr) list \<Rightarrow> type_expr option \<Rightarrow> stmt list \<Rightarrow> expr option \<Rightarrow> fn_item" where
  "fn_of name ps result body tail = \<lparr>fn_span = empty_span, fn_is_pub = False, fn_name = id_of name,
     fn_params = map (\<lambda>(p, t). \<lparr>param_pattern = bound p, param_type = t\<rparr>) ps, fn_return_type = result,
     fn_body = Block empty_span body tail\<rparr>"

definition struct_of :: "string \<Rightarrow> (string \<times> type_expr) list \<Rightarrow> item" where
  "struct_of name fs = StructItem empty_span False (id_of name)
     (map (\<lambda>(f, t). \<lparr>field_name = id_of f, field_type = t\<rparr>) fs)"

definition enum_of :: "string \<Rightarrow> (string \<times> type_expr list) list \<Rightarrow> item" where
  "enum_of name vs = EnumItem empty_span False (id_of name)
     (map (\<lambda>(v, ts). \<lparr>enum_variant.variant_name = id_of v, variant_fields = ts\<rparr>) vs)"

definition one_module :: "item list \<Rightarrow> module_tree" where
  "one_module its = \<lparr>tree_modules = [\<lparr>mn_path = [], mn_file = 0, mn_items = its, mn_children = [],
     mn_imports = []\<rparr>], tree_root = 0\<rparr>"

definition reported :: "item list \<Rightarrow> string list option" where
  "reported its = map_option (\<lambda>(p, bag). map diag_message (entries bag))
     (check_package 40 length (one_module its) W64 empty_bag)"

subsection \<open>Literals\<close>

text \<open>\<^verbatim>\<open>fn f() -> i32 { 0xFF }\<close>: the suffix starts at the first letter.\<close>

lemma hexadecimal_literal_rejected:
  "reported [FnItem (fn_of ''f'' [] (Some i32_type) [] (Some (number ''0xFF'')))] =
     Some [quoted ''unsupported literal suffix '' ''xFF'' []]"
  by code_simp

subsection \<open>Calls\<close>

text \<open>\<^verbatim>\<open>impl S { fn new(x: i32) -> S { .. } fn make() -> S { .. } }\<close>\<close>

definition impl_items :: "item list" where
  "impl_items = [struct_of ''S'' [(''x'', i32_type)],
     ImplItem empty_span False (type_of ''S'')
       [fn_of ''new'' [(''x'', i32_type)] (Some (type_of ''S''))
          [] (Some (StructExpr empty_span (path_of [''S'']) [FieldInit (id_of ''x'') (var [''x''])] None)),
        fn_of ''make'' [] (Some (type_of ''S''))
          [] (Some (StructExpr empty_span (path_of [''S'']) [FieldInit (id_of ''x'') (number ''1'')] None))]]"

definition calling :: "string \<Rightarrow> expr list \<Rightarrow> item" where
  "calling name es = FnItem (fn_of ''main'' [] None
     [DeclStmt empty_span (bound ''s'') None (CallExpr empty_span (var [''S'', name]) es)] None)"

text \<open>
  The first parameter of an associated function is taken for a receiver that the caller does
  not write: \<^verbatim>\<open>S::new(1)\<close> has one argument too many, and for \<^verbatim>\<open>S::make()\<close> the number of
  arguments in the message wraps below zero.
\<close>

lemma constructor_call_rejected:
  "reported (impl_items @ [calling ''new'' [number ''1'']]) =
     Some [quoted [] ''new'' '' expects 0 arguments, found 1'']"
  by code_simp

lemma dec_step: "n < 10 \<Longrightarrow> dec n = [digit_char n]" "\<not> n < 10 \<Longrightarrow> dec n = dec (n div 10) @ [digit_char (n mod 10)]"
  by (subst dec.simps, simp)+

lemma digit_chars:
  "map digit_char [0, 1, 2, 3, 4, 5, 6, 7, 8, 9] = ''0123456789''"
  by code_simp

lemma expected_arguments_wraps: "expected_arguments [] 1 = ''18446744073709551615''"
proof -
  have "unat (- 1 :: u64) = 18446744073709551615" by (simp add: unsigned_minus_1_eq_mask mask_eq_exp_minus_1)
  then show ?thesis using digit_chars by (simp add: expected_arguments_def dec_step)
qed

lemma associated_call_underflows:
  "check_call_args ce m [] [] sp ''make'' True s =
     Some (complain kAnalyzerArityError sp
       (quoted [] ''make'' '' expects 18446744073709551615 arguments, found 0'') s)"
proof -
  have "dec 0 = ''0''" using digit_chars by (simp add: dec_step)
  then show ?thesis using expected_arguments_wraps by (simp add: check_call_args_def)
qed

text \<open>A method is also a free function of its module: \<^verbatim>\<open>new(1)\<close> is accepted.\<close>

lemma method_called_freely:
  "reported (impl_items @ [FnItem (fn_of ''main'' [] None
     [DeclStmt empty_span (bound ''s'') None (CallExpr empty_span (var [''new'']) [number ''1''])] None)]) = Some []"
  by code_simp

subsection \<open>Matches\<close>

definition variant_pat :: "string list \<Rightarrow> pattern list \<Rightarrow> pattern" where
  "variant_pat names ps = TuplePattern empty_span (Some (path_of names)) ps"

text \<open>\<^verbatim>\<open>fn f(r: Result<i32, i32>) -> i32 { match r { Ok(v) => v, Err(e) => e } }\<close>\<close>

lemma result_match_never_exhaustive:
  "reported [FnItem (fn_of ''f'' [(''r'', PathType empty_span (path_of [''Result'']) [i32_type, i32_type])] (Some i32_type)
     [] (Some (MatchExpr empty_span (var [''r''])
       [MatchArm (variant_pat [''Ok''] [bound ''v'']) (var [''v'']),
        MatchArm (variant_pat [''Err''] [bound ''e'']) (var [''e''])])))] =
     Some [quoted ''non-exhaustive match over '' ''Result'' []]"
  by code_simp

text \<open>\<^verbatim>\<open>enum E { A(i32) } fn f(e: E) -> i32 { match e { E::A(1) => 1 } }\<close>\<close>

lemma refutable_payload_covers:
  "reported [enum_of ''E'' [(''A'', [i32_type])],
     FnItem (fn_of ''f'' [(''e'', type_of ''E'')] (Some i32_type)
     [] (Some (MatchExpr empty_span (var [''e''])
       [MatchArm (variant_pat [''E'', ''A'']
          [LiteralPattern empty_span \<lparr>lit_kind = IntegerLit, lit_span = empty_span, lit_spelling = ''1''\<rparr>]) (number ''1'')])))] =
     Some []"
  by code_simp

text \<open>
  \<^verbatim>\<open>match e { E::A(x) | E::B(x) => x }\<close>: the names bound before an alternative are counted
  behind the first one.
\<close>

lemma or_pattern_binding_rejected:
  "reported [enum_of ''E'' [(''A'', [i32_type]), (''B'', [i32_type])],
     FnItem (fn_of ''f'' [(''e'', type_of ''E'')] (Some i32_type)
     [] (Some (MatchExpr empty_span (var [''e''])
       [MatchArm (OrPattern empty_span [variant_pat [''E'', ''A''] [bound ''x''], variant_pat [''E'', ''B''] [bound ''x'']])
          (var [''x''])])))] =
     Some [''or-pattern alternatives must bind the same names'']"
  by code_simp

subsection \<open>Fields\<close>

text \<open>\<^verbatim>\<open>struct A { x: i32 } struct B { a: A } fn f(b: B) -> i32 { b.a.x }\<close>\<close>

lemma nested_field_unknown:
  "reported [struct_of ''A'' [(''x'', i32_type)], struct_of ''B'' [(''a'', type_of ''A'')],
     FnItem (fn_of ''f'' [(''b'', type_of ''B'')] (Some i32_type) [] (Some (field_of (field_of (var [''b'']) ''a'') ''x'')))] =
     Some [quoted ''unknown field '' ''x'' []]"
  by code_simp

text \<open>\<^verbatim>\<open>fn f(t: (i32, i32)) -> i32 { t.4294967296 }\<close>: an index is read modulo \<open>2 ^ 32\<close>.\<close>

lemma tuple_field_wraps:
  "reported [FnItem (fn_of ''f'' [(''t'', TupleType empty_span [i32_type, i32_type])] (Some i32_type)
     [] (Some (field_of (var [''t'']) ''4294967296'')))] = Some []"
  by code_simp

subsection \<open>Signatures\<close>

text \<open>\<^verbatim>\<open>fn f(a: T) {}\<close>: both passes resolve the signature and report the unknown type.\<close>

lemma signature_reported_twice:
  "reported [FnItem (fn_of ''f'' [(''a'', type_of ''T'')] None [] None)] =
     Some (replicate 2 (quoted [] ''T'' '' is not a type''))"
  by code_simp

text \<open>\<^verbatim>\<open>impl S { fn g(s: S) { t: Self := s } }\<close>: an annotation in a body does not know the impl type.\<close>

lemma self_in_body_rejected:
  "reported [struct_of ''S'' [(''x'', i32_type)],
     ImplItem empty_span False (type_of ''S'') [fn_of ''g'' [(''s'', type_of ''S'')] None
       [DeclStmt empty_span (bound ''t'') (Some (type_of ''Self'')) (var [''s''])] None]] =
     Some [''Self outside of an impl block'']"
  by code_simp

text \<open>
  A blessed type whose arguments contain a tuple is a new type at each mention, since each
  mention makes its own copy of the elements:
  \<^verbatim>\<open>fn g(o: Option<(i32, i32)>) {} fn f(o: Option<(i32, i32)>) { g(o) }\<close>.
\<close>

definition option_pair :: type_expr where
  "option_pair = PathType empty_span (path_of [''Option'']) [TupleType empty_span [i32_type, i32_type]]"

lemma tuple_argument_mismatch:
  "map_option length (reported [FnItem (fn_of ''g'' [(''o'', option_pair)] None [] None),
     FnItem (fn_of ''f'' [(''o'', option_pair)] None [ExprStmt empty_span (CallExpr empty_span (var [''g'']) [var [''o'']])] None)]) =
     Some 1"
  by code_simp

end
