(* ===== verification/Checker_Types.thy ===== *)
theory Checker_Types
  imports Checker_Decl
begin

text \<open>
  Interning and resolving types: each returns an index that is sound, keeps the invariant of
  the checker, and has completed every nominal type that it started.
\<close>

subsection \<open>Filling a reserved type\<close>

lemma item_types_struct: "is_struct_item it \<Longrightarrow> item_types it = map field_type (decl_fields it)"
  by (cases it) (simp_all add: item_types_def)

lemma item_types_enum: "is_enum_item it \<Longrightarrow> item_types it = concat (map enum_variant.variant_fields (decl_variants it))"
  by (cases it) (simp_all add: item_types_def)

lemma struct_or_enum: "is_struct_item it \<Longrightarrow> \<not> is_enum_item it"
  by (cases it) simp_all

lemma resolve_fields_ok:
  assumes "resolver_ok n resolve" and "checker_ok s" and "m < modules_in s"
    and "\<forall>f \<in> set fs. type_room n s (size (field_type f))"
  shows "gives (\<lambda>s' row. range_size row = length fs \<and> (\<forall>i \<in> set (indices row). idx_ok s' i)) s
    (do { (is, s) \<leftarrow> resolve_each (\<lambda>f. resolve m (field_type f) None) fs s; copied_row is s })"
proof (rule gives_bind [OF resolve_each_ok [OF assms(1-3)]])
  show "opt_ok s None" by simp
  show "\<forall>f \<in> set fs. type_room n s (size (field_type f))" by (rule assms(4))
  show "gives (\<lambda>s' row. range_size row = length fs \<and> (\<forall>i \<in> set (indices row). idx_ok s' i)) s' (copied_row is s')"
    if "checker_ok s'" "length is = length fs \<and> (\<forall>i \<in> set is. idx_ok s' i)" for "is" s'
    using that by (intro gives_mono [OF copied_row_ok]) auto
qed

lemma resolve_variants_ok:
  assumes "resolver_ok n resolve" and "checker_ok s" and "m < modules_in s"
    and "\<forall>v \<in> set vs. \<forall>t \<in> set (enum_variant.variant_fields v). type_room n s (size t)"
  shows "gives (\<lambda>s' row. range_size row = length vs \<and> (\<forall>i \<in> set (indices row). i < length (enum_variant_types (ck_store s')))) s
    (do {
       (payloads, s) \<leftarrow> resolve_each (\<lambda>v. resolve_each (\<lambda>f. resolve m f None) (enum_variant.variant_fields v)) vs s;
       add_variants (zip (map (\<lambda>v. id_name (enum_variant.variant_name v)) vs) payloads) empty_seq s
     })"
proof (rule gives_bind [OF resolve_rows_ok [OF assms]])
  fix payloads s'
  assume "checker_ok s'" and p: "length payloads = length vs \<and> (\<forall>r \<in> set payloads. \<forall>i \<in> set r. idx_ok s' i)"
  moreover have "\<forall>v \<in> set (zip ns payloads). \<forall>i \<in> set (snd v). idx_ok s' i" for ns :: "string list"
    using p by (auto dest: set_zip_rightD)
  ultimately show "gives (\<lambda>s' row. range_size row = length vs \<and> (\<forall>i \<in> set (indices row). i < length (enum_variant_types (ck_store s')))) s'
      (add_variants (zip (map (\<lambda>v. id_name (enum_variant.variant_name v)) vs) payloads) empty_seq s')"
    by (intro gives_mono [OF add_variants_ok]) (auto simp: row_follows_def empty_seq_def)
qed

lemma filled_others_struct:
  assumes "struct_types st' = (struct_types st)[d := (struct_types st ! d)\<lparr>struct_fields := fs\<rparr>]"
    and "enum_types st' = enum_types st" and "types st' = types st"
    and "filled_entry st y" and "\<not> is_struct_item (nom_item y) \<or> payload_of st y \<noteq> d"
  shows "filled_entry st' y"
  using assms by (auto simp: filled_entry_def payload_of_def split: if_splits)

lemma filled_others_enum:
  assumes "enum_types st' = (enum_types st)[d := (enum_types st ! d)\<lparr>enum_variants := vs\<rparr>]"
    and "struct_types st' = struct_types st" and "types st' = types st"
    and "filled_entry st y" and "is_struct_item (nom_item y) \<or> payload_of st y \<noteq> d"
  shows "filled_entry st' y"
  using assms by (auto simp: filled_entry_def payload_of_def split: if_splits)

lemma fill_entry_run:
  assumes r: "resolver_ok n resolve" and ok: "checker_ok s1" and m: "nom_module entry < modules_in s1"
    and room: "\<forall>t \<in> set (item_types (nom_item entry)). type_room n s1 (size t)"
    and kind: "is_struct_item (nom_item entry) \<or> is_enum_item (nom_item entry)"
    and t: "sound (ck_store s1) t" "tag_of (ck_store s1) t = (if is_struct_item (nom_item entry) then TyStruct else TyEnum)"
    and old: "widens st0 (ck_store s1)"
      "(if is_struct_item (nom_item entry) then length (struct_types st0) else length (enum_types st0)) \<le> node_data (types (ck_store s1) ! t)"
  obtains s2 st where "fill_entry resolve entry t s1 = Some (s2\<lparr>ck_store := st\<rparr>)" "step s1 s2" "checker_ok s2"
    "store_ok st" "same_nodes (ck_store s2) st" "widens st0 st"
    "\<And>x. nom_item x = nom_item entry \<Longrightarrow> nom_type x = t \<Longrightarrow> filled_entry st x"
    "\<And>x y. nom_item x = nom_item entry \<Longrightarrow> nom_type x = t \<Longrightarrow> filled_entry (ck_store s2) y \<Longrightarrow>
      is_struct_item (nom_item y) \<noteq> is_struct_item (nom_item x) \<or> payload_of (ck_store s2) y \<noteq> payload_of (ck_store s2) x \<Longrightarrow>
      filled_entry st y"
proof (cases "is_struct_item (nom_item entry)")
  case True
  let ?fs = "decl_fields (nom_item entry)"
  have "\<forall>f \<in> set ?fs. type_room n s1 (size (field_type f))"
    using room True by (simp add: item_types_struct)
  from resolve_fields_ok [OF r ok m this] obtain row s2 where run:
      "(do { (is, s) \<leftarrow> resolve_each (\<lambda>f. resolve (nom_module entry) (field_type f) None) ?fs s1; copied_row is s }) = Some (row, s2)"
      and s2: "step s1 s2" "checker_ok s2" "range_size row = length ?fs" "\<forall>i \<in> set (indices row). idx_ok s2 i"
    unfolding gives_def by blast
  have w: "widens (ck_store s1) (ck_store s2)" using s2(1) by (simp add: step_def grows_def)
  have t2: "sound (ck_store s2) t" "types (ck_store s2) ! t = types (ck_store s1) ! t"
    using t(1) sound_widens [OF _ w] widens_types [OF w] sound_in by blast+
  obtain st where st: "fill_struct t row (ck_store s2) = Some st" "store_ok st" "widens st0 st" "same_nodes (ck_store s2) st"
      "types st = types (ck_store s2)" "enum_types st = enum_types (ck_store s2)"
      "struct_types st = (struct_types (ck_store s2))[node_data (types (ck_store s2) ! t) :=
         (struct_types (ck_store s2) ! node_data (types (ck_store s2) ! t))\<lparr>struct_fields := row\<rparr>]"
      "node_data (types (ck_store s2) ! t) < length (struct_types (ck_store s2))"
    using fill_struct_ok [OF checker_store_ok [OF s2(2)] t2(1), of row st0] True t old t2(2) s2(4) widens_trans [OF old(1) w]
    by (auto simp: tag_of_def idx_ok_def)
  show thesis
  proof (rule that [of st s2])
    show "fill_entry resolve entry t s1 = Some (s2\<lparr>ck_store := st\<rparr>)"
      using run st(1) True by (auto simp: fill_entry_def change_store_def bind_eq_Some_conv split: prod.splits)
    show "filled_entry st x" if "nom_item x = nom_item entry" "nom_type x = t" for x
      using that True st(5,7,8) s2(3) by (simp add: filled_entry_def payload_of_def)
    show "filled_entry st y" if "nom_item x = nom_item entry" "nom_type x = t" "filled_entry (ck_store s2) y"
      "is_struct_item (nom_item y) \<noteq> is_struct_item (nom_item x) \<or> payload_of (ck_store s2) y \<noteq> payload_of (ck_store s2) x" for x y
      using that True by (intro filled_others_struct [OF st(7,6,5)]) (auto simp: payload_of_def)
  qed (use s2 st in auto)
next
  case False
  let ?vs = "decl_variants (nom_item entry)"
  have e: "is_enum_item (nom_item entry)" using kind False by blast
  have "\<forall>v \<in> set ?vs. \<forall>t \<in> set (enum_variant.variant_fields v). type_room n s1 (size t)"
    using room e by (simp add: item_types_enum)
  from resolve_variants_ok [OF r ok m this] obtain row s2 where run:
      "(do { (payloads, s) \<leftarrow> resolve_each (\<lambda>v. resolve_each (\<lambda>f. resolve (nom_module entry) f None) (enum_variant.variant_fields v)) ?vs s1;
         add_variants (zip (map (\<lambda>v. id_name (enum_variant.variant_name v)) ?vs) payloads) empty_seq s }) = Some (row, s2)"
      and s2: "step s1 s2" "checker_ok s2" "range_size row = length ?vs"
        "\<forall>i \<in> set (indices row). i < length (enum_variant_types (ck_store s2))"
    unfolding gives_def by blast
  have w: "widens (ck_store s1) (ck_store s2)" using s2(1) by (simp add: step_def grows_def)
  have t2: "sound (ck_store s2) t" "types (ck_store s2) ! t = types (ck_store s1) ! t"
    using t(1) sound_widens [OF _ w] widens_types [OF w] sound_in by blast+
  obtain st where st: "fill_enum t row (ck_store s2) = Some st" "store_ok st" "widens st0 st" "same_nodes (ck_store s2) st"
      "types st = types (ck_store s2)" "struct_types st = struct_types (ck_store s2)"
      "enum_types st = (enum_types (ck_store s2))[node_data (types (ck_store s2) ! t) :=
         (enum_types (ck_store s2) ! node_data (types (ck_store s2) ! t))\<lparr>enum_variants := row\<rparr>]"
      "node_data (types (ck_store s2) ! t) < length (enum_types (ck_store s2))"
    using fill_enum_ok [OF checker_store_ok [OF s2(2)] t2(1), of row st0] False t old t2(2) s2(4) widens_trans [OF old(1) w]
    by (auto simp: tag_of_def)
  show thesis
  proof (rule that [of st s2])
    show "fill_entry resolve entry t s1 = Some (s2\<lparr>ck_store := st\<rparr>)"
      using run st(1) False by (auto simp: fill_entry_def change_store_def bind_eq_Some_conv split: prod.splits)
    show "filled_entry st x" if "nom_item x = nom_item entry" "nom_type x = t" for x
      using that False st(5,7,8) s2(3) by (simp add: filled_entry_def payload_of_def)
    show "filled_entry st y" if "nom_item x = nom_item entry" "nom_type x = t" "filled_entry (ck_store s2) y"
      "is_struct_item (nom_item y) \<noteq> is_struct_item (nom_item x) \<or> payload_of (ck_store s2) y \<noteq> payload_of (ck_store s2) x" for x y
      using that False by (intro filled_others_enum [OF st(7,6,5)]) (auto simp: payload_of_def)
  qed (use s2 st in auto)
qed

subsection \<open>Nominal types\<close>

definition nominal_room :: "nat \<Rightarrow> checker \<Rightarrow> bool" where
  "nominal_room n s \<longleftrightarrow> unstarted s * decl_depth s \<le> n"

lemma nominal_room_step: "step s s' \<Longrightarrow> nominal_room n s \<Longrightarrow> nominal_room n s'"
  using room_step [of s s' "Suc n" 0] by (simp add: nominal_room_def type_room_def)

lemma room_nominal: "type_room n s k \<Longrightarrow> nominal_room n s"
  by (simp add: type_room_def nominal_room_def)

lemma field_room:
  assumes "nominal_room n s" and "e < length (ck_nominals s)" and "unstarted s = Suc (unstarted s1)" and "grows s s1"
    and "t \<in> set (item_types (nom_item (ck_nominals s ! e)))"
  shows "type_room n s1 (size t)"
proof -
  have "size t < decl_depth s" using item_types_depth [OF assms(2,5)] .
  then have "unstarted s1 * decl_depth s + size t < Suc (unstarted s1) * decl_depth s" by simp
  then show ?thesis using assms(1,3) grows_depth [OF assms(4)] by (simp add: type_room_def nominal_room_def)
qed

text \<open>An entry that is not already open is complete when interning it returns.\<close>

definition closed_now :: "checker \<Rightarrow> nat \<Rightarrow> checker \<Rightarrow> bool" where
  "closed_now s e s' \<longleftrightarrow> (e \<notin> pending s \<longrightarrow> nom_complete (ck_nominals s' ! e))"

lemma intern_fresh_ok:
  assumes r: "resolver_ok n resolve" and ok: "checker_ok s" and e: "e < length (ck_nominals s)"
    and room: "nominal_room n s" and entry: "entry = ck_nominals s ! e" and un: "\<not> nom_started entry"
  shows "gives (\<lambda>s' t. interned e s' t \<and> nom_complete (ck_nominals s' ! e)) s (intern_nominal resolve e s)"
proof -
  obtain t st where res: "reserve_entry entry s = Some (t, s\<lparr>ck_store := st\<rparr>)" "store_ok st" "widens (ck_store s) st"
      "sound st t" "tag_of st t = (if is_struct_item (nom_item entry) then TyStruct else TyEnum)"
      "node_data (types st ! t) = (if is_struct_item (nom_item entry)
        then length (struct_types (ck_store s)) else length (enum_types (ck_store s)))"
    using reserve_entry_run [OF ok] .
  define s1 where "s1 = set_nominal e (\<lambda>n. n\<lparr>nom_type := t, nom_started := True\<rparr>) (s\<lparr>ck_store := st\<rparr>)"
  have s1: "checker_ok s1" "grows s s1" "pending s1 \<subseteq> insert e (pending s)" "unstarted s = Suc (unstarted s1)"
    using reserve_ok [OF ok e entry un res(2-6) s1_def] by simp_all
  have sel: "ck_store s1 = st" "length (ck_nominals s1) = length (ck_nominals s)"
      "ck_nominals s1 ! e = entry\<lparr>nom_type := t, nom_started := True\<rparr>" "modules_in s1 = modules_in s"
    using e entry by (simp_all add: s1_def set_nominal_def modules_in_def)
  have eok: "nom_module entry < modules_in s1" "is_struct_item (nom_item entry) \<or> is_enum_item (nom_item entry)" "\<not> nom_complete entry"
    using entry_in [OF ok e] un entry sel(4) by (auto simp: entry_ok_def)
  have rooms: "\<forall>t \<in> set (item_types (nom_item entry)). type_room n s1 (size t)"
    using field_room [OF room e s1(4,2)] entry by simp
  have old: "widens (ck_store s) (ck_store s1)"
      "(if is_struct_item (nom_item entry) then length (struct_types (ck_store s)) else length (enum_types (ck_store s)))
         \<le> node_data (types (ck_store s1) ! t)"
    using res(3,6) sel(1) by simp_all
  obtain s2 st2 where fill: "fill_entry resolve entry t s1 = Some (s2\<lparr>ck_store := st2\<rparr>)" "step s1 s2" "checker_ok s2"
      "store_ok st2" "same_nodes (ck_store s2) st2" "widens (ck_store s) st2"
      "\<And>x. nom_item x = nom_item entry \<Longrightarrow> nom_type x = t \<Longrightarrow> filled_entry st2 x"
      "\<And>x y. nom_item x = nom_item entry \<Longrightarrow> nom_type x = t \<Longrightarrow> filled_entry (ck_store s2) y \<Longrightarrow>
        is_struct_item (nom_item y) \<noteq> is_struct_item (nom_item x) \<or> payload_of (ck_store s2) y \<noteq> payload_of (ck_store s2) x \<Longrightarrow>
        filled_entry st2 y"
    by (rule fill_entry_run [OF r s1(1) eok(1) rooms eok(2) res(4,5) [folded sel(1)] old], rule that, assumption+)
  define s3 where "s3 = set_nominal e (\<lambda>n. n\<lparr>nom_complete := True\<rparr>) (s2\<lparr>ck_store := st2\<rparr>)"
  define x where "x = ck_nominals s2 ! e"
  have e2: "e < length (ck_nominals s2)" using e sel(2) fill(2) by simp
  have x: "nom_item x = nom_item entry" "nom_type x = t" "nom_started x"
    using entry_step [OF fill(2), of e] e sel(2,3) by (auto simp: x_def entry_moves_def)
  have final: "checker_ok s3 \<and> step s s3"
  proof (rule fill_ok [OF fill(3) e2 x_def x(3) fill(4,5,6) fill(7) [OF x(1,2)] _ s1(2) fill(2) s1(3) s3_def])
    show "filled_entry st2 y" if "typed_entry (ck_store s2) y" "filled_entry (ck_store s2) y"
      "is_struct_item (nom_item y) \<noteq> is_struct_item (nom_item x) \<or> payload_of (ck_store s2) y \<noteq> payload_of (ck_store s2) x" for y
      by (rule fill(8) [OF x(1,2) that(2,3)])
  qed
  have x3: "ck_nominals s3 ! e = x\<lparr>nom_complete := True\<rparr>" "e < length (ck_nominals s3)"
    using e2 by (simp_all add: s3_def set_nominal_def x_def)
  have "intern_nominal resolve e s = Some (t, s3)"
    using res(1) fill(1) un eok(3) entry by (simp add: intern_nominal_unfold nominal_ok [OF e] s1_def s3_def)
  moreover have "interned e s3 t"
    using interned_started [OF conjunct1 [OF final] x3(2)] x3(1) x by simp
  ultimately show ?thesis using final x3(1) by (auto intro: givesI)
qed

lemma intern_nominal_ok:
  assumes "resolver_ok n resolve" and "checker_ok s" and "e < length (ck_nominals s)" and "nominal_room n s"
  shows "gives (\<lambda>s' t. interned e s' t \<and> closed_now s e s') s (intern_nominal resolve e s)"
proof (cases "nom_started (ck_nominals s ! e)")
  case True
  then have "intern_nominal resolve e s = Some (nom_type (ck_nominals s ! e), s)"
    by (simp add: intern_nominal_unfold nominal_ok [OF assms(3)])
  moreover have "closed_now s e s"
    using True assms(3) by (simp add: closed_now_def pending_def)
  ultimately show ?thesis
    using interned_started [OF assms(2,3) True] assms(2) by (simp add: gives_done)
next
  case False
  show ?thesis
    by (rule gives_mono [OF intern_fresh_ok [OF assms(1-4) refl False]]) (simp add: closed_now_def)
qed

lemma interned_idx: "interned e s t \<Longrightarrow> idx_ok s t"
  by (simp add: interned_def)

subsection \<open>Blessed types\<close>

lemma add_blessed_ok:
  assumes "checker_ok s" and "blessed_ok (ck_store s) b"
  shows "checker_ok (s\<lparr>ck_blessed := ck_blessed s @ [b]\<rparr>) \<and> step s (s\<lparr>ck_blessed := ck_blessed s @ [b]\<rparr>)"
proof
  show "checker_ok (s\<lparr>ck_blessed := ck_blessed s @ [b]\<rparr>)"
    using assms by (simp add: checker_ok_def parents_ok_def modules_in_def)
  show "step s (s\<lparr>ck_blessed := ck_blessed s @ [b]\<rparr>)"
  proof -
    have "grows s (s\<lparr>ck_blessed := ck_blessed s @ [b]\<rparr>)"
      by (simp add: grows_def same_frame_def list_all2_refl)
    moreover have "pending (s\<lparr>ck_blessed := ck_blessed s @ [b]\<rparr>) = pending s"
      by (simp add: pending_def)
    ultimately show ?thesis by (simp add: step_def)
  qed
qed

lemma indices_one [simp]: "indices (mk_range i 1) = [i]" "indices (mk_range i (Suc 0)) = [i]"
  by (simp_all add: indices_def mk_range_def)

lemma gives_pair_type:
  assumes "checker_ok s" and a: "\<forall>i \<in> set (indices a). idx_ok s i" and b: "\<forall>i \<in> set (indices b). idx_ok s i"
    and k: "\<And>s' t. step s s' \<Longrightarrow> checker_ok s' \<Longrightarrow> idx_ok s' t \<Longrightarrow> gives Q s' (k t s')"
  shows "gives Q s (do {
     (v1, s) \<leftarrow> build (enum_variant (n1 s) a) s;
     q \<leftarrow> seq_push v1 empty_seq;
     (v2, s) \<leftarrow> build (enum_variant (n2 s) b) s;
     q \<leftarrow> seq_push v2 q;
     (t, s) \<leftarrow> build (enum_type (n3 s) (seq_finish q)) s;
     k t s
   })"
proof (rule gives_bind [OF variant_ok [OF assms(1) a]])
  fix v1 s1
  assume 1: "step s s1" "checker_ok s1" and v1: "v1 = length (enum_variant_types (ck_store s)) \<and>
    length (enum_variant_types (ck_store s1)) = Suc v1 \<and> ck_nominals s1 = ck_nominals s"
  have p1: "seq_push v1 empty_seq = Some \<lparr>seq_head = v1, seq_count = Suc 0\<rparr>"
    by (simp add: seq_push_def empty_seq_def)
  show "gives Q s1 (do {
     q \<leftarrow> seq_push v1 empty_seq;
     (v2, s) \<leftarrow> build (enum_variant (n2 s1) b) s1;
     q \<leftarrow> seq_push v2 q;
     (t, s) \<leftarrow> build (enum_type (n3 s) (seq_finish q)) s;
     k t s
   })"
  proof (rule gives_read [OF p1], rule gives_bind [OF variant_ok [OF 1(2)]])
    show "\<forall>i \<in> set (indices b). idx_ok s1 i" using b idx_step [OF 1(1)] by blast
  next
    fix v2 s2
    assume 2: "step s1 s2" "checker_ok s2" and v2: "v2 = length (enum_variant_types (ck_store s1)) \<and>
      length (enum_variant_types (ck_store s2)) = Suc v2 \<and> ck_nominals s2 = ck_nominals s1"
    let ?q = "\<lparr>seq_head = v1, seq_count = Suc (Suc 0)\<rparr>"
    have p2: "seq_push v2 \<lparr>seq_head = v1, seq_count = Suc 0\<rparr> = Some ?q"
      using v1 v2 by (simp add: seq_push_def)
    have r: "\<forall>v \<in> set (indices (seq_finish ?q)). v < length (enum_variant_types (ck_store s2))"
      using v1 v2 by (auto simp: seq_finish_def)
    show "gives Q s2 (do {
       q \<leftarrow> seq_push v2 \<lparr>seq_head = v1, seq_count = Suc 0\<rparr>;
       (t, s) \<leftarrow> build (enum_type (n3 s2) (seq_finish q)) s2;
       k t s
     })"
    proof (rule gives_read [OF p2])
      have "builds (\<lambda>st' i. tag_of st' i = TyEnum \<and> node_data (types st' ! i) = length (enum_types (ck_store s2)))
          (ck_store s2) (enum_type (n3 s2) (seq_finish ?q) (ck_store s2))"
        by (rule enum_type_builds [OF checker_store_ok [OF 2(2)] r])
      then have "gives (\<lambda>s' i. idx_ok s' i \<and> tag_of (ck_store s') i = TyEnum \<and>
          node_data (types (ck_store s') ! i) = length (enum_types (ck_store s2))) s2
          (build (enum_type (n3 s2) (seq_finish ?q)) s2)"
        by (rule gives_build [OF 2(2)])
      then show "gives Q s2 (do { (t, s) \<leftarrow> build (enum_type (n3 s2) (seq_finish ?q)) s2; k t s })"
        by (rule gives_bind) (use 1 2 k in \<open>blast intro: step_trans\<close>)
    qed
  qed
qed

lemma intern_blessed_ok:
  assumes ok: "checker_ok s" and l: "length args = (if is_result then 2 else 1)" and a: "\<forall>i \<in> set args. idx_ok s i"
  shows "gives idx_ok s (intern_blessed is_result args s)"
proof (cases "find (\<lambda>b. bl_is_result b = is_result \<and> bl_args b = args) (ck_blessed s)")
  case (Some b)
  then have "b \<in> set (ck_blessed s)" by (auto simp: find_Some_iff)
  then have "idx_ok s (bl_type b)" using ok by (auto simp: checker_ok_def blessed_ok_def idx_ok_def)
  then show ?thesis using Some ok by (simp add: intern_blessed_def gives_done)
next
  case None
  have ends: "gives idx_ok s' (Some (t, s'\<lparr>ck_blessed := ck_blessed s' @ [\<lparr>bl_is_result = is_result, bl_args = args, bl_type = t\<rparr>]\<rparr>))"
    if "step s s'" "checker_ok s'" "idx_ok s' t" for s' t
  proof -
    have "blessed_ok (ck_store s') \<lparr>bl_is_result = is_result, bl_args = args, bl_type = t\<rparr>"
      using that(3) a idx_step [OF that(1)] l by (simp add: blessed_ok_def idx_ok_def)
    from add_blessed_ok [OF that(2) this] that(3) show ?thesis by (auto intro!: givesI simp: idx_ok_def)
  qed
  obtain a0 where a0: "fetch args 0 = Some a0" "idx_ok s a0" using l a by (cases args) (auto simp: fetch_def split: if_splits)
  show ?thesis
  proof (cases is_result)
    case True
    then obtain a1 where a1: "fetch args (Suc 0) = Some a1" "idx_ok s a1"
      using l a nth_mem [of 1 args] by (auto simp: fetch_def)
    show ?thesis
      unfolding intern_blessed_def None option.case
      apply (rule gives_read [OF a0(1)])
      using True a1(1) apply simp
      by (rule gives_pair_type [OF ok]) (use a0 a1 ends True in auto)
  next
    case False
    show ?thesis
      unfolding intern_blessed_def None option.case
      apply (rule gives_read [OF a0(1)])
      using False apply simp
      by (rule gives_pair_type [OF ok]) (use a0 ends False in \<open>auto simp: seq_finish_def empty_seq_def\<close>)
  qed
qed

subsection \<open>Resolving a type\<close>

lemma gives_idx: "gives (\<lambda>s' i. idx_ok s' i \<and> P s' i) s r \<Longrightarrow> gives idx_ok s r"
  by (erule gives_mono) simp

lemmas gives_reject_idx = gives_reject [THEN gives_idx]
lemmas gives_error_idx = gives_error_type [THEN gives_idx]

lemma named_ok:
  assumes "resolver_ok n resolve" and "checker_ok s" and "nominal_room n s" and "e < length (ck_nominals s)"
  shows "gives idx_ok s (intern_nominal resolve e s)"
  by (rule gives_mono [OF intern_nominal_ok [OF assms(1,2,4,3)]]) (auto intro: interned_idx)

lemma resolve_nominal_ok:
  assumes r: "resolver_ok n resolve" and ok: "checker_ok s" and m: "m < modules_in s" and room: "nominal_room n s"
  shows "gives idx_ok s (resolve_nominal resolve m sp p args s)"
proof (cases "args = []")
  case False
  then show ?thesis using ok by (simp add: resolve_nominal_def gives_reject_idx)
next
  case True
  let ?named = "\<lambda>target s. case target of
           None \<Rightarrow> build error_type s
         | Some (tm, name) \<Rightarrow> do {
             entry \<leftarrow> (if length (path_segments p) = 1 \<and> find_nominal tm name s = None then do {
                          node \<leftarrow> module_at m s;
                          Some (imported_nominal (mn_imports node) name s)
                        }
                        else Some (find_nominal tm name s));
             (case entry of
                None \<Rightarrow> reject kAnalyzerUnknownType sp (quoted [] name '' is not a type'') s
              | Some e \<Rightarrow> intern_nominal resolve e s)
           }"
  have "gives idx_ok s (do { (target, s) \<leftarrow> resolve_type_path m p s; ?named target s })"
  proof (rule gives_bind [OF resolve_type_path_ok [OF ok m]])
    fix target s'
    assume 1: "step s s'" "checker_ok s'"
    have m': "m < modules_in s'" using 1(1) m by simp
    show "gives idx_ok s' (?named target s')"
      using 1(2) named_ok [OF r 1(2) nominal_room_step [OF 1(1) room]]
      by (auto simp: module_at_ok [OF m'] intro!: gives_error_idx gives_reject_idx dest: imported_nominal_in find_nominal_in
          split: option.split)
  qed
  then show ?thesis using True by (simp add: resolve_nominal_def)
qed

lemma resolve_self_ok:
  "checker_ok s \<Longrightarrow> opt_ok s self \<Longrightarrow> gives idx_ok s (resolve_self sp args self s)"
  by (auto simp: resolve_self_def intro: gives_reject_idx gives_done split: option.split)

lemma resolve_blessed_ok:
  assumes r: "resolver_ok n resolve" and ok: "checker_ok s" and m: "m < modules_in s" and self: "opt_ok s self"
    and room: "\<forall>t \<in> set args. type_room n s (size t)"
  shows "gives idx_ok s (resolve_blessed (\<lambda>t. resolve m t self) sp name args s)"
proof -
  have "gives idx_ok s (do { (is, s) \<leftarrow> resolve_each (\<lambda>t. resolve m t self) args s; intern_blessed (name = ''Result'') is s })"
    if "length args = (if name = ''Result'' then 2 else 1)"
    by (rule gives_bind [OF resolve_each_ok [where f = "\<lambda>t. t", OF r ok m self room]])
      (use that in \<open>auto intro: intern_blessed_ok\<close>)
  then show ?thesis by (auto simp: resolve_blessed_def Let_def intro: gives_reject_idx [OF ok])
qed

lemma primitive_type_ok: "checker_ok s \<Longrightarrow> gives idx_ok s (primitive_type kind sp s)"
  by (cases kind; cases "ck_width s")
    (auto simp: primitive_type_def composite_tags_def intro!: gives_reject_idx gives_prim [THEN gives_idx])

lemma tuple_of_ok:
  assumes ok: "checker_ok s" and ts: "\<forall>i \<in> set is. idx_ok s i"
  shows "gives (\<lambda>s' t. idx_ok s' t \<and> tag_of (ck_store s') t = TyTuple \<and> range_size (elements_of (ck_store s') t) = length is)
    s (do { (row, s) \<leftarrow> copied_row is s; build (tuple_type row) s })"
proof (rule gives_bind [OF copied_row_ok [OF ok ts]])
  fix row s'
  assume s': "checker_ok s'" and row: "range_size row = length is \<and> (\<forall>i \<in> set (indices row). idx_ok s' i) \<and>
    range_head row + range_size row \<le> length (types (ck_store s')) \<and>
    enum_variant_types (ck_store s') = enum_variant_types (ck_store s) \<and> ck_nominals s' = ck_nominals s"
  have "builds (\<lambda>st' i. tag_of st' i = TyTuple \<and> indices (elements_of st' i) = indices row) (ck_store s')
      (tuple_type row (ck_store s'))"
    using row by (intro tuple_type_builds [OF checker_store_ok [OF s']]) (auto simp: idx_ok_def)
  then have "gives (\<lambda>s' t. idx_ok s' t \<and> tag_of (ck_store s') t = TyTuple \<and> indices (elements_of (ck_store s') t) = indices row)
      s' (build (tuple_type row) s')"
    by (rule gives_build [OF s'])
  then show "gives (\<lambda>s' t. idx_ok s' t \<and> tag_of (ck_store s') t = TyTuple \<and> range_size (elements_of (ck_store s') t) = length is)
      s' (build (tuple_type row) s')"
    by (rule gives_mono) (use row in \<open>metis length_indices\<close>)
qed

lemma reference_ok:
  assumes ok: "checker_ok s" and p: "idx_ok s p"
  shows "gives idx_ok s (build (reference_type p is_mut) s)"
proof -
  have "builds (\<lambda>st' i. tag_of st' i = ref_tag is_mut \<and> pointee_of st' i = p) (ck_store s) (reference_type p is_mut (ck_store s))"
    using p by (intro reference_type_builds [OF checker_store_ok [OF ok]]) (simp add: idx_ok_def)
  then have "gives (\<lambda>s' i. idx_ok s' i \<and> tag_of (ck_store s') i = ref_tag is_mut \<and> pointee_of (ck_store s') i = p) s
      (build (reference_type p is_mut) s)"
    by (rule gives_build [OF ok])
  then show ?thesis by (rule gives_mono) simp
qed

lemma resolver_ok_step:
  assumes r: "resolver_ok n resolve"
  shows "resolver_ok (Suc n) (resolve_type_step resolve)"
  unfolding resolver_ok_def
proof (intro allI impI)
  fix m and t :: type_expr and self s
  assume ok: "checker_ok s" and m: "m < modules_in s" and self: "opt_ok s self" and room: "type_room (Suc n) s (size t)"
  have parts: "type_room n s (size t')" if "size t' < size t" for t'
    using room that by (simp add: type_room_def)
  have nom: "nominal_room n s" using room by (simp add: type_room_def nominal_room_def)
  show "gives idx_ok s (resolve_type_step resolve m t self s)"
  proof (cases t)
    case (TupleType sp ts)
    have "\<forall>t' \<in> set ts. type_room n s (size t')"
      using size_in_list [of _ ts size] by (auto simp: TupleType le_imp_less_Suc intro!: parts)
    then have "gives (\<lambda>s' is. length is = length ts \<and> (\<forall>i \<in> set is. idx_ok s' i)) s (resolve_each (\<lambda>t. resolve m t self) ts s)"
      using resolve_each_ok [OF r ok m self, of ts "\<lambda>t. t"] by simp
    then show ?thesis
      unfolding resolve_type_step_def TupleType type_expr.case
      by (rule gives_bind) (auto intro: gives_mono [OF tuple_of_ok])
  next
    case (PathType sp p args)
    have "\<forall>t' \<in> set args. type_room n s (size t')"
      using size_in_list [of _ args size] by (auto simp: PathType le_imp_less_Suc intro!: parts)
    then show ?thesis
      using resolve_self_ok [OF ok self] resolve_blessed_ok [OF r ok m self] resolve_nominal_ok [OF r ok m nom]
      by (simp add: resolve_type_step_def PathType Let_def)
  next
    case (RefType sp is_mut inner)
    have "gives idx_ok s (resolve m inner self s)"
      using resolver_okD [OF r ok m self] parts [of inner] by (simp add: RefType)
    then show ?thesis
      unfolding resolve_type_step_def RefType type_expr.case
      by (rule gives_bind) (rule reference_ok)
  qed (auto simp: resolve_type_step_def composite_tags_def ok
      intro!: primitive_type_ok gives_prim [THEN gives_idx] gives_never_type [THEN gives_idx])
qed

lemma resolver_ok_type: "resolver_ok n (resolve_type n)"
proof (induction n)
  case 0
  then show ?case by (simp add: resolver_ok_def type_room_def)
next
  case (Suc n)
  have "resolve_type (Suc n) = resolve_type_step (resolve_type n)" by (intro ext) simp
  then show ?case using resolver_ok_step [OF Suc] by simp
qed

lemma resolve_type_ok:
  "checker_ok s \<Longrightarrow> m < modules_in s \<Longrightarrow> opt_ok s self \<Longrightarrow> type_room n s (size t) \<Longrightarrow>
     gives idx_ok s (resolve_type n m t self s)"
  by (rule resolver_okD [OF resolver_ok_type])

end
