(* ===== verification/Checker_Pass.thy ===== *)
theory Checker_Pass
  imports Checker_Types
begin

text \<open>
  The declaration pass: it returns, keeps the invariant of the checker and leaves every
  registered type complete. The judgement \<open>runs\<close> is \<open>moves\<close> for operations that also fill
  the table of checked modules.
\<close>

subsection \<open>Operations that add to the checked modules\<close>

definition passes :: "checker \<Rightarrow> checker \<Rightarrow> bool" where
  "passes s s' \<longleftrightarrow> step s (s'\<lparr>ck_modules := ck_modules s\<rparr>) \<and> length (ck_modules s) = length (ck_modules s')"

definition runs :: "(checker \<Rightarrow> bool) \<Rightarrow> checker \<Rightarrow> checker option \<Rightarrow> bool" where
  "runs Q s r \<longleftrightarrow> (\<exists>s'. r = Some s' \<and> passes s s' \<and> checker_ok s' \<and> Q s')"

lemma modules_irrelevant [simp]:
  "pending (s\<lparr>ck_modules := ms\<rparr>) = pending s" "unstarted (s\<lparr>ck_modules := ms\<rparr>) = unstarted s"
  "decl_depth (s\<lparr>ck_modules := ms\<rparr>) = decl_depth s" "modules_in (s\<lparr>ck_modules := ms\<rparr>) = modules_in s"
  "idx_ok (s\<lparr>ck_modules := ms\<rparr>) = idx_ok s"
  by (auto simp: pending_def unstarted_def decl_depth_def modules_in_def idx_ok_def)

lemma step_with_modules: "step s s' \<Longrightarrow> step (s\<lparr>ck_modules := ms\<rparr>) (s'\<lparr>ck_modules := ms\<rparr>)"
  by (simp add: step_def grows_def same_frame_def)

lemma step_passes: "step s s' \<Longrightarrow> passes s s'"
proof -
  assume s: "step s s'"
  then have m: "ck_modules s' = ck_modules s" by (simp add: step_def grows_def same_frame_def)
  then have eq: "s'\<lparr>ck_modules := ck_modules s\<rparr> = s'" by simp
  show ?thesis unfolding passes_def eq using s m by simp
qed

lemma passes_trans: "passes a b \<Longrightarrow> passes b c \<Longrightarrow> passes a c"
  using step_trans [of a "b\<lparr>ck_modules := ck_modules a\<rparr>" "c\<lparr>ck_modules := ck_modules a\<rparr>"]
    step_with_modules [of b "c\<lparr>ck_modules := ck_modules b\<rparr>" "ck_modules a"]
  by (simp add: passes_def)

lemma passes_refl [simp]: "passes s s"
  by (simp add: step_passes)

lemma passes_keeps:
  assumes "passes s s'"
  shows "modules_in s' = modules_in s" and "pending s' \<subseteq> pending s" and "idx_ok s i \<Longrightarrow> idx_ok s' i"
    and "type_room n s k \<Longrightarrow> type_room n s' k" and "nominal_room n s \<Longrightarrow> nominal_room n s'"
    and "length (ck_modules s') = length (ck_modules s)" and "opt_ok s w \<Longrightarrow> opt_ok s' w"
    and "list_all2 entry_moves (ck_nominals s) (ck_nominals s')" and "ck_tree s' = ck_tree s"
    and "prefix (entries (ck_bag s)) (entries (ck_bag s'))" and "widens (ck_store s) (ck_store s')"
proof -
  let ?t = "s'\<lparr>ck_modules := ck_modules s\<rparr>"
  have t: "step s ?t" using assms by (simp add: passes_def)
  show "modules_in s' = modules_in s" using step_modules_in [OF t] by simp
  show "pending s' \<subseteq> pending s" using t by (simp add: step_def)
  show i: "idx_ok s' i" if "idx_ok s i" for i using idx_step [OF t that] by simp
  show "opt_ok s' w" if "opt_ok s w" using that i by (simp add: opt_ok_def)
  show "type_room n s' k" if "type_room n s k"
    using room_step [OF t that] by (simp add: type_room_def)
  show "nominal_room n s'" if "nominal_room n s"
    using nominal_room_step [OF t that] by (simp add: nominal_room_def)
  show "length (ck_modules s') = length (ck_modules s)" using assms by (simp add: passes_def)
  show "list_all2 entry_moves (ck_nominals s) (ck_nominals s')" using t by (simp add: step_def grows_def)
  show "ck_tree s' = ck_tree s" using t by (simp add: step_def grows_def same_frame_def)
  show "prefix (entries (ck_bag s)) (entries (ck_bag s'))" "widens (ck_store s) (ck_store s')"
    using t by (simp_all add: step_def grows_def)
qed

lemma runs_bind:
  assumes "gives P s r" and "\<And>x s'. passes s s' \<Longrightarrow> checker_ok s' \<Longrightarrow> P s' x \<Longrightarrow> runs Q s' (k x s')"
  shows "runs Q s (Option.bind r (\<lambda>(x, s'). k x s'))"
proof -
  obtain x s' where r: "r = Some (x, s')" "step s s'" "checker_ok s'" "P s' x" using assms(1) by (auto simp: gives_def)
  have p: "passes s s'" by (rule step_passes [OF r(2)])
  obtain t where "k x s' = Some t" "passes s' t" "checker_ok t" "Q t"
    using assms(2) [OF p r(3,4)] by (auto simp: runs_def)
  then show ?thesis using r(1) passes_trans [OF p] by (auto simp: runs_def)
qed

lemma runs_seq:
  assumes "runs P s r" and "\<And>s'. passes s s' \<Longrightarrow> checker_ok s' \<Longrightarrow> P s' \<Longrightarrow> runs Q s' (k s')"
  shows "runs Q s (Option.bind r k)"
proof -
  obtain s' where r: "r = Some s'" "passes s s'" "checker_ok s'" "P s'" using assms(1) by (auto simp: runs_def)
  obtain t where "k s' = Some t" "passes s' t" "checker_ok t" "Q t"
    using assms(2) [OF r(2-4)] by (auto simp: runs_def)
  then show ?thesis using r(1) passes_trans [OF r(2)] by (auto simp: runs_def)
qed

lemma runs_done: "checker_ok s \<Longrightarrow> Q s \<Longrightarrow> runs Q s (Some s)"
  by (simp add: runs_def)

lemma runs_mono: "runs P s r \<Longrightarrow> (\<And>s'. passes s s' \<Longrightarrow> P s' \<Longrightarrow> Q s') \<Longrightarrow> runs Q s r"
  by (auto simp: runs_def)

lemma runs_true: "runs P s r \<Longrightarrow> runs (\<lambda>_. True) s r"
  by (erule runs_mono) simp

lemma runs_each:
  assumes "checker_ok s" and "I s"
    and f: "\<And>x s'. x \<in> set xs \<Longrightarrow> checker_ok s' \<Longrightarrow> I s' \<Longrightarrow> runs (Q x) s' (f x s')"
    and I: "\<And>s' s''. I s' \<Longrightarrow> passes s' s'' \<Longrightarrow> I s''"
    and Q: "\<And>x s' s''. Q x s' \<Longrightarrow> passes s' s'' \<Longrightarrow> Q x s''"
  shows "runs (\<lambda>s'. I s' \<and> (\<forall>x \<in> set xs. Q x s')) s (run_each f xs s)"
  using assms(1,2) f
proof (induction xs arbitrary: s)
  case Nil
  then show ?case by (simp add: runs_done)
next
  case (Cons x xs)
  show ?case unfolding run_each.simps
  proof (rule runs_seq)
    show "runs (Q x) s (f x s)" using Cons.prems by simp
    show "runs (\<lambda>s'. I s' \<and> (\<forall>x \<in> set (x # xs). Q x s')) s' (run_each f xs s')"
      if "passes s s'" "checker_ok s'" "Q x s'" for s'
      by (rule runs_mono [OF Cons.IH]) (use Cons.prems that I Q in auto)
  qed
qed

lemma set_module_runs:
  assumes ok: "checker_ok s" and m: "m < length (ck_modules s)" and c: "module_ok (ck_store s) (f (ck_modules s ! m))"
  shows "runs (\<lambda>s'. ck_nominals s' = ck_nominals s) s (Some (set_module m f s))"
proof -
  let ?s = "set_module m f s"
  have s: "?s = s\<lparr>ck_modules := (ck_modules s)[m := f (ck_modules s ! m)]\<rparr>" by (simp add: set_module_def)
  have "\<forall>c \<in> set ((ck_modules s)[m := f (ck_modules s ! m)]). module_ok (ck_store s) c"
    using ok c by (auto simp: checker_ok_def dest!: set_update_subset_insert [THEN subsetD])
  then have "checker_ok ?s" using ok by (simp add: s checker_ok_def parents_ok_def modules_in_def)
  moreover have "?s\<lparr>ck_modules := ck_modules s\<rparr> = s" by (simp add: s)
  then have "passes s ?s" by (simp add: passes_def) (simp add: s)
  ultimately show ?thesis by (simp add: runs_def s)
qed

lemma module_in: "checker_ok s \<Longrightarrow> m < length (ck_modules s) \<Longrightarrow> module_ok (ck_store s) (ck_modules s ! m)"
  by (simp add: checker_ok_def)

subsection \<open>Signatures\<close>

definition fn_types :: "fn_item \<Rightarrow> type_expr list" where
  "fn_types fn = map fn_param.param_type (fn_params fn) @ (case fn_return_type fn of None \<Rightarrow> [] | Some t \<Rightarrow> [t])"

fun sig_types :: "item \<Rightarrow> type_expr list" where
  "sig_types (FnItem fn) = fn_types fn"
| "sig_types (StaticItem sp pub name t init) = [t]"
| "sig_types (ConstItem sp pub name t init) = [t]"
| "sig_types (ImplItem sp pub t methods) = concat (map fn_types methods)"
| "sig_types _ = []"

definition rooms :: "nat \<Rightarrow> checker \<Rightarrow> type_expr list \<Rightarrow> bool" where
  "rooms n s ts \<longleftrightarrow> (\<forall>t \<in> set ts. type_room n s (size t))"

lemma rooms_step: "step s s' \<Longrightarrow> rooms n s ts \<Longrightarrow> rooms n s' ts"
  by (auto simp: rooms_def intro: room_step)

lemma rooms_pass: "passes s s' \<Longrightarrow> rooms n s ts \<Longrightarrow> rooms n s' ts"
  by (auto simp: rooms_def intro: passes_keeps)

lemma sig_ok_idx: "sig_ok (ck_store s) ps r \<longleftrightarrow> (\<forall>p \<in> set ps. idx_ok s p) \<and> idx_ok s r"
  by (simp add: sig_ok_def idx_ok_def)

lemma resolve_signature_ok:
  assumes ok: "checker_ok s" and m: "m < modules_in s" and self: "opt_ok s self" and room: "rooms n s (fn_types fn)"
  shows "gives (\<lambda>s' (ps, r). sig_ok (ck_store s') ps r) s (resolve_signature n m fn self s)"
  unfolding resolve_signature_def
proof (rule gives_bind)
  show "gives (\<lambda>s' is. length is = length (fn_params fn) \<and> (\<forall>i \<in> set is. idx_ok s' i)) s
      (resolve_each (\<lambda>p. resolve_type n m (fn_param.param_type p) self) (fn_params fn) s)"
    using room by (intro resolve_each_ok [OF resolver_ok_type ok m self]) (simp add: rooms_def fn_types_def)
next
  fix ps s1
  assume 1: "step s s1" "checker_ok s1" and ps: "length ps = length (fn_params fn) \<and> (\<forall>i \<in> set ps. idx_ok s1 i)"
  show "gives (\<lambda>s' (ps, r). sig_ok (ck_store s') ps r) s1 (do {
     (unit_type, s) \<leftarrow> prim TyVoid s1;
     (case fn_return_type fn of
        None \<Rightarrow> Some ((ps, unit_type), s)
      | Some t \<Rightarrow> do { (r, s) \<leftarrow> resolve_type n m t self s; Some ((ps, r), s) })
   })"
  proof (rule gives_bind [OF gives_prim [OF 1(2), of TyVoid]])
    fix u s2
    assume 2: "step s1 s2" "checker_ok s2" and u: "idx_ok s2 u \<and> tag_of (ck_store s2) u = TyVoid"
    have ps2: "\<forall>i \<in> set ps. idx_ok s2 i" using ps idx_step [OF 2(1)] by blast
    show "gives (\<lambda>s' (ps, r). sig_ok (ck_store s') ps r) s2 (case fn_return_type fn of
        None \<Rightarrow> Some ((ps, u), s2)
      | Some t \<Rightarrow> do { (r, s) \<leftarrow> resolve_type n m t self s2; Some ((ps, r), s) })"
    proof (cases "fn_return_type fn")
      case None
      then show ?thesis using 2(2) u ps2 by (auto intro!: gives_done simp: sig_ok_def idx_ok_def)
    next
      case (Some t)
      have s: "step s s2" using 1(1) 2(1) by (rule step_trans)
      have "type_room n s2 (size t)" using rooms_step [OF s room] Some by (simp add: rooms_def fn_types_def)
      then have "gives idx_ok s2 (resolve_type n m t self s2)"
        using m opt_step [OF s self] s by (intro resolve_type_ok [OF 2(2)]) simp_all
      then show ?thesis unfolding Some option.case
        by (rule gives_bind) (use ps2 idx_step in \<open>auto intro!: gives_done simp: sig_ok_idx\<close>)
    qed
  qed (simp_all add: composite_tags_def)
qed

lemma add_fn_sig_runs:
  assumes "checker_ok s" and "m < length (ck_modules s)" and "sig_ok (ck_store s) (sig_params sg) (sig_ret sg)"
  shows "runs (\<lambda>s'. ck_nominals s' = ck_nominals s) s (Some (add_fn_sig m sg s))"
  unfolding add_fn_sig_def
  using module_in [OF assms(1,2)] assms(3) by (intro set_module_runs [OF assms(1,2)]) (auto simp: module_ok_def)

lemma process_fn_runs:
  assumes "checker_ok s" and "m < modules_in s" and "rooms n s (fn_types fn)" and "m < length (ck_modules s)"
  shows "runs (\<lambda>_. True) s (process_fn n m fn s)"
  unfolding process_fn_def
proof (rule runs_bind [OF resolve_signature_ok [OF assms(1,2) _ assms(3)]])
  show "runs (\<lambda>_. True) s' ((case x of (params, r) \<Rightarrow>
      \<lambda>s. Some (add_fn_sig m \<lparr>sig_name = id_name (fn_name fn), sig_params = params, sig_ret = r\<rparr> s)) s')"
    if "passes s s'" "checker_ok s'" "case x of (ps, r) \<Rightarrow> sig_ok (ck_store s') ps r" for x s'
    using that assms(4) passes_keeps(6) [OF that(1)] by (auto intro!: add_fn_sig_runs [THEN runs_true])
qed simp

lemma process_static_runs:
  assumes "checker_ok s" and "m < modules_in s" and "rooms n s [t]" and "m < length (ck_modules s)"
  shows "runs (\<lambda>_. True) s (process_static n m name t s)"
  unfolding process_static_def
proof (rule runs_bind)
  show "gives idx_ok s (resolve_type n m t None s)"
    using assms by (intro resolve_type_ok) (simp_all add: rooms_def)
  show "runs (\<lambda>_. True) s' (Some (set_module m (\<lambda>c. c\<lparr>cm_statics := cm_statics c @ [\<lparr>si_name = name, si_type = i\<rparr>]\<rparr>) s'))"
    if "passes s s'" "checker_ok s'" "idx_ok s' i" for i s'
  proof -
    have m: "m < length (ck_modules s')" using assms(4) passes_keeps(6) [OF that(1)] by simp
    show ?thesis
      using module_in [OF that(2) m] that(3)
      by (intro set_module_runs [OF that(2) m, THEN runs_true]) (auto simp: module_ok_def idx_ok_def)
  qed
qed

subsection \<open>Impl blocks\<close>

lemma classify_receiver_ok: "idx_ok s p \<Longrightarrow> \<exists>k. classify_receiver p self s = Some k"
  using pointee_at_ok [of s p] tag_at_ok [of s p] by (auto simp: classify_receiver_def)

lemma receiver_of_ok:
  assumes "\<forall>p \<in> set ps. idx_ok s p"
  obtains k where "receiver_of self ps s = Some k" "k \<noteq> RecvNone \<longrightarrow> ps \<noteq> []"
proof (cases ps)
  case Nil
  then show thesis by (intro that [of RecvNone]) (simp_all add: receiver_of_def split: option.split)
next
  case (Cons p qs)
  then show thesis
    using assms that classify_receiver_ok [of s p] by (cases self) (force simp: receiver_of_def)+
qed

lemma add_method_runs:
  assumes "checker_ok s" and "m < length (ck_modules s)" and "method_ok (ck_store s) mt"
  shows "runs (\<lambda>_. True) s (Some (set_module m (\<lambda>c. c\<lparr>cm_methods := cm_methods c @ [mt]\<rparr>) s))"
  using module_in [OF assms(1,2)] assms(3)
  by (intro set_module_runs [OF assms(1,2), THEN runs_true]) (auto simp: module_ok_def)

lemma runs_from: "passes s s' \<Longrightarrow> runs Q s' r \<Longrightarrow> runs Q s r"
  by (auto simp: runs_def intro: passes_trans)

lemma process_method_runs:
  assumes ok: "checker_ok s" and m: "m < modules_in s" and self: "opt_ok s self" and room: "rooms n s (fn_types fn)"
    and c: "m < length (ck_modules s)"
  shows "runs (\<lambda>_. True) s (process_method n m self fn s)"
proof -
  obtain ps r s1 where sg: "resolve_signature n m fn self s = Some ((ps, r), s1)" "step s s1" "checker_ok s1"
      "sig_ok (ck_store s1) ps r"
    using resolve_signature_ok [OF ok m self room] unfolding gives_def by auto
  let ?sg = "\<lparr>sig_name = id_name (fn_name fn), sig_params = ps, sig_ret = r\<rparr>"
  define s2 where "s2 = add_fn_sig m ?sg s1"
  have p1: "passes s s1" by (rule step_passes [OF sg(2)])
  have 2: "passes s1 s2" "checker_ok s2"
    using add_fn_sig_runs [OF sg(3), of m ?sg] c passes_keeps(6) [OF p1] sg(4) by (simp_all add: runs_def s2_def)
  have st2: "ck_store s2 = ck_store s1" by (simp add: s2_def add_fn_sig_def set_module_def)
  have sig2: "\<forall>p \<in> set ps. idx_ok s2 p" "idx_ok s2 r" using sg(4) st2 by (auto simp: sig_ok_def idx_ok_def)
  have p2: "passes s s2" using p1 2(1) by (rule passes_trans)
  obtain k where k: "receiver_of self ps s2 = Some k" "k \<noteq> RecvNone \<longrightarrow> ps \<noteq> []"
    using receiver_of_ok [OF sig2(1), of self] .
  have selfs: "gives idx_ok s2 (case self of Some t \<Rightarrow> Some (t, s2) | None \<Rightarrow> build error_type s2)"
    using 2(2) passes_keeps(7) [OF p2 self] by (auto intro!: gives_done gives_error_idx split: option.split)
  have "runs (\<lambda>_. True) s2 (do {
      (self_type, s) \<leftarrow> (case self of Some t \<Rightarrow> Some (t, s2) | None \<Rightarrow> build error_type s2);
      Some (set_module m (\<lambda>c. c\<lparr>cm_methods := cm_methods c @
        [\<lparr>mt_self = self_type, mt_name = id_name (fn_name fn), mt_params = ps, mt_ret = r, mt_receiver = k\<rparr>]\<rparr>) s)
    })"
  proof (rule runs_bind [OF selfs])
    fix t s3
    assume 3: "passes s2 s3" "checker_ok s3" "idx_ok s3 t"
    have "\<forall>p \<in> set ps. idx_ok s3 p" "idx_ok s3 r" using sig2 passes_keeps(3) [OF 3(1)] by blast+
    then have "method_ok (ck_store s3) \<lparr>mt_self = t, mt_name = id_name (fn_name fn), mt_params = ps, mt_ret = r, mt_receiver = k\<rparr>"
      using 3(3) k(2) by (simp add: method_ok_def sig_ok_def idx_ok_def)
    then show "runs (\<lambda>_. True) s3 (Some (set_module m (\<lambda>c. c\<lparr>cm_methods := cm_methods c @
        [\<lparr>mt_self = t, mt_name = id_name (fn_name fn), mt_params = ps, mt_ret = r, mt_receiver = k\<rparr>]\<rparr>) s3))"
      using c passes_keeps(6) [OF p2] passes_keeps(6) [OF 3(1)] by (intro add_method_runs [OF 3(2)]) simp
  qed
  from runs_from [OF p2 this] show ?thesis
    using sg(1) k(1) unfolding s2_def by (simp add: process_method_def Let_def)
qed

lemma impl_self_ok:
  assumes ok: "checker_ok s" and m: "m < modules_in s" and room: "nominal_room n s"
  shows "gives opt_ok s (impl_self n m t s)"
proof (cases t)
  case (PathType sp p args)
  let ?not = "complain kAnalyzerUnknownType sp ''inherent impl requires a nominal type''"
  have "gives opt_ok s (do {
      (target, s) \<leftarrow> resolve_type_path m p s;
      (case target of
         None \<Rightarrow> Some (None, s)
       | Some (tm, name) \<Rightarrow>
           (case find_nominal tm name s of
              None \<Rightarrow> Some (None, ?not s)
            | Some e \<Rightarrow> do { (self, s) \<leftarrow> intern_nominal (resolve_type n) e s; Some (Some self, s) }))
    })"
  proof (rule gives_bind [OF resolve_type_path_ok [OF ok m]])
    fix target s'
    assume 1: "step s s'" "checker_ok s'"
    have "gives opt_ok s' (do { (self, s) \<leftarrow> intern_nominal (resolve_type n) e s'; Some (Some self, s) })"
      if "e < length (ck_nominals s')" for e
      by (rule gives_bind [OF named_ok [OF resolver_ok_type 1(2) nominal_room_step [OF 1(1) room] that]])
        (simp add: gives_done)
    then show "gives opt_ok s' (case target of
         None \<Rightarrow> Some (None, s')
       | Some (tm, name) \<Rightarrow>
           (case find_nominal tm name s' of
              None \<Rightarrow> Some (None, ?not s')
            | Some e \<Rightarrow> do { (self, s) \<leftarrow> intern_nominal (resolve_type n) e s'; Some (Some self, s) }))"
      using 1(2) by (auto intro!: gives_done gives_complain dest: find_nominal_in split: option.split)
  qed
  then show ?thesis using ok by (auto simp: impl_self_def PathType intro!: gives_complain)
qed (auto simp: impl_self_def ok intro!: gives_complain)

lemma process_impl_runs:
  assumes ok: "checker_ok s" and m: "m < modules_in s" and nom: "nominal_room n s"
    and room: "rooms n s (concat (map fn_types methods))" and c: "m < length (ck_modules s)"
  shows "runs (\<lambda>_. True) s (process_impl n m t methods s)"
  unfolding process_impl_def
proof (rule runs_bind [OF gives_error_type [OF ok]], rule runs_bind [OF impl_self_ok])
  fix err s1
  assume 1: "passes s s1" "checker_ok s1"
  then show "checker_ok s1" "m < modules_in s1" "nominal_room n s1"
    using m nom passes_keeps(1,5) [OF 1(1)] by simp_all
  fix self s2
  assume 2: "passes s1 s2" "checker_ok s2" "opt_ok s2 self"
  have p: "passes s s2" using 1(1) 2(1) by (rule passes_trans)
  show "runs (\<lambda>_. True) s2 (run_each (process_method n m self) methods s2)"
  proof (rule runs_true, rule runs_each [where Q = "\<lambda>_ _. True" and
      I = "\<lambda>s. m < modules_in s \<and> opt_ok s self \<and> rooms n s (concat (map fn_types methods)) \<and> m < length (ck_modules s)"])
    show "m < modules_in s2 \<and> opt_ok s2 self \<and> rooms n s2 (concat (map fn_types methods)) \<and> m < length (ck_modules s2)"
      using m c 2(3) rooms_pass [OF p room] passes_keeps(1,6) [OF p] by simp
    show "runs (\<lambda>_. True) s' (process_method n m self x s')"
      if "x \<in> set methods" "checker_ok s'" "m < modules_in s' \<and> opt_ok s' self \<and>
        rooms n s' (concat (map fn_types methods)) \<and> m < length (ck_modules s')" for x s'
      using that by (intro process_method_runs) (auto simp: rooms_def)
  qed (use 2(2) passes_keeps(1,6,7) rooms_pass in auto)
qed

subsection \<open>Nominal types and items\<close>

definition complete_at :: "checker \<Rightarrow> nat \<Rightarrow> bool" where
  "complete_at s e \<longleftrightarrow> e < length (ck_nominals s) \<and> nom_complete (ck_nominals s ! e)"

lemma complete_passes: "complete_at s e \<Longrightarrow> passes s s' \<Longrightarrow> complete_at s' e"
  using passes_keeps(8) [of s s'] by (auto simp: complete_at_def entry_moves_def list_all2_conv_all_nth)

lemma set_module_sel [simp]:
  "ck_nominals (set_module m f s) = ck_nominals s" "length (ck_modules (set_module m f s)) = length (ck_modules s)"
  "ck_store (set_module m f s) = ck_store s" "pending (set_module m f s) = pending s"
  by (simp_all add: set_module_def)

lemma same_find_nominal:
  assumes "list_all2 entry_moves (ck_nominals s) (ck_nominals s')"
  shows "find_nominal m name s' = find_nominal m name s"
proof -
  have "first_index P es' = first_index P es"
    if "list_all2 entry_moves es es'" and "\<And>e e'. entry_moves e e' \<Longrightarrow> P e' = P e" for es es' P
    using that(1) by (induction rule: list_all2_induct) (simp_all add: that(2))
  from this [OF assms] show ?thesis by (simp add: find_nominal_def entry_moves_def)
qed

lemmas passes_find_nominal = same_find_nominal [OF passes_keeps(8)]

definition declared_done :: "nat \<Rightarrow> item \<Rightarrow> checker \<Rightarrow> bool" where
  "declared_done m it s \<longleftrightarrow>
     (\<forall>name e. nominal_ident it = Some name \<longrightarrow> find_nominal m (id_name name) s = Some e \<longrightarrow> complete_at s e)"

lemma declared_done_passes: "declared_done m it s \<Longrightarrow> passes s s' \<Longrightarrow> declared_done m it s'"
  by (auto simp: declared_done_def passes_find_nominal complete_passes)

lemma add_type_runs:
  assumes "checker_ok s" and "m < length (ck_modules s)"
  shows "runs (\<lambda>s'. ck_nominals s' = ck_nominals s) s (Some (set_module m (\<lambda>c. c\<lparr>cm_types := cm_types c @ ts\<rparr>) s))"
    and "runs (\<lambda>s'. ck_nominals s' = ck_nominals s) s (Some (set_module m (\<lambda>c. c\<lparr>cm_structs := cm_structs c @ ss\<rparr>) s))"
  using module_in [OF assms] by (auto intro!: set_module_runs [OF assms] simp: module_ok_def)

lemma process_nominal_runs:
  assumes ok: "checker_ok s" and c: "m < length (ck_modules s)" and room: "nominal_room n s" and none: "pending s = {}"
  shows "runs (\<lambda>s'. \<forall>e. find_nominal m name s = Some e \<longrightarrow> complete_at s' e) s (process_nominal n m it name s)"
proof (cases "find_nominal m name s")
  case None
  then show ?thesis using ok by (simp add: process_nominal_def runs_done)
next
  case (Some e)
  have e: "e < length (ck_nominals s)" using find_nominal_in [OF Some] by simp
  obtain t s1 where run: "intern_nominal (resolve_type n) e s = Some (t, s1)" "step s s1" "checker_ok s1"
      "nom_complete (ck_nominals s1 ! e)"
    using intern_nominal_ok [OF resolver_ok_type ok e room] none unfolding gives_def closed_now_def by auto
  have p: "passes s s1" by (rule step_passes [OF run(2)])
  have c1: "m < length (ck_modules s1)" using c passes_keeps(6) [OF p] by simp
  have done1: "complete_at s1 e" using run(2,4) e by (simp add: complete_at_def)
  define s2 where "s2 = set_module m (\<lambda>c. c\<lparr>cm_types := cm_types c @ [(nom_name (ck_nominals s ! e), t)]\<rparr>) s1"
  have 2: "passes s1 s2" "checker_ok s2" "m < length (ck_modules s2)"
    using add_type_runs(1) [OF run(3) c1] c1 by (simp_all add: runs_def s2_def)
  define s3 where "s3 = (if is_struct_item it then set_module m (\<lambda>c. c\<lparr>cm_structs := cm_structs c @
      [(t, map (\<lambda>f. id_name (field_name f)) (decl_fields it))]\<rparr>) s2 else s2)"
  have 3: "passes s2 s3" "checker_ok s3"
    using add_type_runs(2) [OF 2(2,3)] 2(2) by (simp_all add: runs_def s3_def)
  have "process_nominal n m it name s = Some s3"
    unfolding process_nominal_def Some option.case nominal_ok [OF e]
    using run(1) by (simp add: s3_def s2_def Let_def)
  moreover have "passes s s3" using p 2(1) 3(1) by (blast intro: passes_trans)
  moreover have "complete_at s3 e" using complete_passes [OF done1 passes_trans [OF 2(1) 3(1)]] .
  ultimately show ?thesis using Some 3(2) by (simp add: runs_def)
qed

definition pass_ready :: "nat \<Rightarrow> nat \<Rightarrow> checker \<Rightarrow> bool" where
  "pass_ready n m s \<longleftrightarrow> m < modules_in s \<and> m < length (ck_modules s) \<and> nominal_room n s \<and> pending s = {}"

lemma pass_ready_passes: "pass_ready n m s \<Longrightarrow> passes s s' \<Longrightarrow> pass_ready n m s'"
  using passes_keeps(1,2,5,6) [of s s'] by (auto simp: pass_ready_def)

lemma process_item_runs:
  assumes ok: "checker_ok s" and ready: "pass_ready n m s" and room: "rooms n s (sig_types it)"
  shows "runs (declared_done m it) s (process_item n m it s)"
proof (cases it)
  case (FnItem fn)
  then show ?thesis using process_fn_runs [OF ok, of m n fn] ready room
    by (auto simp: process_item_def pass_ready_def declared_done_def elim: runs_mono)
next
  case (StructItem sp pub name fs)
  then show ?thesis
    using ready runs_mono [OF process_nominal_runs [OF ok, of m n "id_name name" it]]
    by (auto simp: process_item_def pass_ready_def declared_done_def passes_find_nominal)
next
  case (EnumItem sp pub name vs)
  then show ?thesis
    using ready runs_mono [OF process_nominal_runs [OF ok, of m n "id_name name" it]]
    by (auto simp: process_item_def pass_ready_def declared_done_def passes_find_nominal)
next
  case (ImplItem sp pub t methods)
  then show ?thesis using process_impl_runs [OF ok, of m n methods t] ready room
    by (auto simp: process_item_def pass_ready_def declared_done_def elim: runs_mono)
next
  case (StaticItem sp pub name t init)
  then show ?thesis using process_static_runs [OF ok, of m n t "id_name name"] ready room
    by (auto simp: process_item_def pass_ready_def declared_done_def elim: runs_mono)
next
  case (ConstItem sp pub name t init)
  then show ?thesis using process_static_runs [OF ok, of m n t "id_name name"] ready room
    by (auto simp: process_item_def pass_ready_def declared_done_def elim: runs_mono)
qed (use ok in \<open>auto simp: process_item_def declared_done_def intro: runs_done\<close>)

subsection \<open>Registered types\<close>

definition key_of_entry :: "nominal_entry \<Rightarrow> nat \<times> string" where
  "key_of_entry e = (nom_module e, nom_name e)"

definition fresh_entry :: "module_tree \<Rightarrow> nominal_entry \<Rightarrow> bool" where
  "fresh_entry tree e \<longleftrightarrow> \<not> nom_started e \<and> \<not> nom_complete e \<and> nom_module e < length (tree_modules tree) \<and>
     nom_item e \<in> set (mn_items (tree_modules tree ! nom_module e)) \<and>
     (\<exists>name. nominal_ident (nom_item e) = Some name \<and> id_name name = nom_name e)"

definition registered :: "checker \<Rightarrow> checker \<Rightarrow> bool" where
  "registered s0 s \<longleftrightarrow> (\<forall>e \<in> set (ck_nominals s). fresh_entry (ck_tree s) e) \<and>
     distinct (map key_of_entry (ck_nominals s)) \<and> prefix (entries (ck_bag s0)) (entries (ck_bag s)) \<and>
     s = s0\<lparr>ck_nominals := ck_nominals s, ck_bag := ck_bag s\<rparr>"

lemma first_index_miss: "first_index P xs = None \<longleftrightarrow> (\<forall>x \<in> set xs. \<not> P x)"
  by (induction xs) auto

lemma registered_complain: "registered s0 s \<Longrightarrow> registered s0 (complain code sp msg s)"
  by (cases s; cases s0) (auto simp: registered_def complain_def intro: prefix_order.trans)

lemma register_item_keeps:
  assumes "m < length (tree_modules (ck_tree s0))" and "it \<in> set (mn_items (tree_modules (ck_tree s0) ! m))"
    and r: "registered s0 s"
  shows "registered s0 (register_item m it s)"
proof -
  have tree: "ck_tree s = ck_tree s0" using r by (cases s; cases s0) (simp add: registered_def)
  have "registered s0 (s\<lparr>ck_nominals := ck_nominals s @ [\<lparr>nom_module = m, nom_name = id_name name, nom_item = it,
      nom_span = id_span name, nom_type = 0, nom_started = False, nom_complete = False\<rparr>]\<rparr>)"
    if "nominal_ident it = Some name" "find_nominal m (id_name name) s = None" for name
  proof -
    have "(m, id_name name) \<notin> key_of_entry ` set (ck_nominals s)"
      using that(2) by (auto simp: find_nominal_def first_index_miss key_of_entry_def)
    moreover have "s = s0\<lparr>ck_nominals := ck_nominals s, ck_bag := ck_bag s\<rparr>" using r by (simp add: registered_def)
    then have "s\<lparr>ck_nominals := xs\<rparr> = s0\<lparr>ck_nominals := xs, ck_bag := ck_bag s\<rparr>" for xs
      by (cases s; cases s0) simp
    ultimately show ?thesis
      using r that(1) assms(1,2) tree by (simp add: registered_def fresh_entry_def key_of_entry_def)
  qed
  then show ?thesis
    using r by (auto simp: register_item_def registered_complain split: option.split)
qed

lemma register_nominals_registered:
  assumes "ck_nominals s = []"
  shows "registered s (register_nominals s)"
  unfolding register_nominals_def
proof (rule fold_invariant [where Q = "\<lambda>x. fst x < length (tree_modules (ck_tree s)) \<and> snd x = tree_modules (ck_tree s) ! fst x"])
  show "registered s s" using assms by (simp add: registered_def)
  show "registered s ((\<lambda>(m, node) s. fold (register_item m) (mn_items node) s) x s')"
    if x: "fst x < length (tree_modules (ck_tree s)) \<and> snd x = tree_modules (ck_tree s) ! fst x" and s': "registered s s'" for x s'
  proof -
    obtain m node where n: "x = (m, node)" by fastforce
    have "registered s (fold (register_item m) (mn_items node) s')"
    proof (rule fold_invariant [where Q = "\<lambda>it. it \<in> set (mn_items node)"])
      show "registered s (register_item m it s'')" if "it \<in> set (mn_items node)" "registered s s''" for it s''
        using that x n by (intro register_item_keeps) simp_all
    qed (use s' in simp_all)
    then show ?thesis by (simp add: n)
  qed
qed (auto simp: in_set_enumerate_eq)

lemma find_own_entry:
  assumes "distinct (map key_of_entry (ck_nominals s))" and "i < length (ck_nominals s)"
  shows "find_nominal (nom_module (ck_nominals s ! i)) (nom_name (ck_nominals s ! i)) s = Some i"
proof -
  have "first_index (\<lambda>e. key_of_entry e = key_of_entry (es ! i)) es = Some i"
    if "distinct (map key_of_entry es)" "i < length es" for es i
    using that
  proof (induction es arbitrary: i)
    case (Cons e es)
    then show ?case by (cases i) auto
  qed simp
  from this [OF assms] show ?thesis by (simp add: find_nominal_def key_of_entry_def)
qed

lemma parents_of_tree_ok:
  "length (parents_of_tree tree) = length (tree_modules tree) \<and>
   (\<forall>p. Some p \<in> set (parents_of_tree tree) \<longrightarrow> p < length (tree_modules tree))"
proof -
  let ?ok = "\<lambda>ps. length ps = length (tree_modules tree) \<and> (\<forall>p. Some p \<in> set ps \<longrightarrow> p < length (tree_modules tree))"
  have one: "?ok (ps[c := Some m])" if "m < length (tree_modules tree)" "?ok ps" for m c ps
    using that by (auto dest!: set_update_subset_insert [THEN subsetD])
  have inner: "?ok (fold (\<lambda>c ps. ps[c := Some m]) cs ps)" if "m < length (tree_modules tree)" "?ok ps" for m cs ps
  proof (rule fold_invariant [where Q = "\<lambda>_. True" and P = ?ok])
    show "?ok ps" by (rule that(2))
    show "?ok (ps'[c := Some m])" if "?ok ps'" for c ps' by (rule one [OF \<open>m < length (tree_modules tree)\<close> that])
  qed simp
  show ?thesis
    unfolding parents_of_tree_def
  proof (rule fold_invariant [where Q = "\<lambda>x. fst x < length (tree_modules tree)" and P = ?ok])
    show "?ok ((\<lambda>(m, node) ps. fold (\<lambda>c ps. ps[c := Some m]) (mn_children node) ps) x ps)"
      if "fst x < length (tree_modules tree)" "?ok ps" for x ps
      unfolding case_prod_beta by (rule inner [OF that])
    show "fst x < length (tree_modules tree)" if "x \<in> set (List.enumerate 0 (tree_modules tree))" for x
      using that by (auto simp: in_set_enumerate_eq)
    show "?ok (replicate (length (tree_modules tree)) None)" by simp
  qed
qed

subsection \<open>The pass\<close>

definition signature_depth :: "module_tree \<Rightarrow> nat" where
  "signature_depth tree = sum_list (map (\<lambda>node. sum_list (map (\<lambda>it. sum_list (map size (sig_types it))) (mn_items node))) (tree_modules tree))"

text \<open>Enough fuel for every type position of a package, computed behind the registration.\<close>

definition declaration_fuel :: "checker \<Rightarrow> nat" where
  "declaration_fuel s = (let s = register_nominals s in unstarted s * decl_depth s + signature_depth (ck_tree s) + 1)"

lemma signature_depth_le:
  assumes "m < length (tree_modules tree)" and "it \<in> set (mn_items (tree_modules tree ! m))" and "t \<in> set (sig_types it)"
  shows "size t \<le> signature_depth tree"
proof -
  let ?it = "\<lambda>it. sum_list (map size (sig_types it))"
  have "size t \<le> ?it it" using assms(3) by (intro member_le_sum_list) auto
  also have "\<dots> \<le> sum_list (map ?it (mn_items (tree_modules tree ! m)))"
    using assms(2) by (intro member_le_sum_list) auto
  also have "\<dots> \<le> signature_depth tree"
    unfolding signature_depth_def using assms(1) by (intro member_le_sum_list) auto
  finally show ?thesis .
qed

definition items_at :: "checker \<Rightarrow> nat \<Rightarrow> item list" where
  "items_at s m = mn_items (tree_modules (ck_tree s) ! m)"

text \<open>The state in front of module \<open>k\<close>.\<close>

definition declaring :: "nat \<Rightarrow> checker \<Rightarrow> nat \<Rightarrow> checker \<Rightarrow> bool" where
  "declaring n s0 k s \<longleftrightarrow> checker_ok s \<and> length (ck_modules s) = k \<and> pending s = {} \<and> nominal_room n s \<and>
     (\<forall>m < modules_in s. \<forall>it \<in> set (items_at s m). rooms n s (sig_types it) \<and> (m < k \<longrightarrow> declared_done m it s)) \<and>
     ck_tree s = ck_tree s0 \<and> list_all2 entry_moves (ck_nominals s0) (ck_nominals s) \<and>
     prefix (entries (ck_bag s0)) (entries (ck_bag s))"

lemma process_module_declares:
  assumes d: "declaring n s0 k s" and k: "k < modules_in s"
  shows "\<exists>s'. process_module n k s = Some s' \<and> declaring n s0 (Suc k) s' \<and> modules_in s' = modules_in s"
proof -
  define s1 where "s1 = s\<lparr>ck_modules := ck_modules s @ [empty_module k]\<rparr>"
  have "checker_ok s" using d by (simp add: declaring_def)
  then have ok1: "checker_ok s1"
    by (simp add: s1_def checker_ok_def parents_ok_def modules_in_def module_ok_def empty_module_def)
  have sel: "modules_in s1 = modules_in s" "pending s1 = pending s" "ck_tree s1 = ck_tree s" "ck_nominals s1 = ck_nominals s"
      "ck_bag s1 = ck_bag s" "length (ck_modules s1) = Suc (length (ck_modules s))" "nominal_room n s1 = nominal_room n s"
      "rooms n s1 ts = rooms n s ts" for ts
    by (simp_all add: s1_def nominal_room_def rooms_def type_room_def)
  have ready: "pass_ready n k s1" using d k by (simp add: pass_ready_def declaring_def sel)
  let ?I = "\<lambda>s. pass_ready n k s \<and> (\<forall>it \<in> set (items_at s1 k). rooms n s (sig_types it))"
  have "runs (\<lambda>s'. ?I s' \<and> (\<forall>it \<in> set (items_at s1 k). declared_done k it s')) s1
      (run_each (process_item n k) (items_at s1 k) s1)"
  proof (rule runs_each [OF ok1])
    show "?I s1" using ready d k by (auto simp: declaring_def sel items_at_def)
  qed (auto intro: process_item_runs pass_ready_passes rooms_pass declared_done_passes)
  then obtain s' where s': "run_each (process_item n k) (items_at s1 k) s1 = Some s'" "passes s1 s'" "checker_ok s'"
      "pass_ready n k s'" "\<forall>it \<in> set (items_at s1 k). declared_done k it s'"
    by (auto simp: runs_def)
  have run: "process_module n k s = Some s'"
    using s'(1) k by (simp add: process_module_def Let_def s1_def [symmetric] module_at_ok sel(1) items_at_def)
  have tree: "ck_tree s' = ck_tree s" using passes_keeps(9) [OF s'(2)] sel(3) by simp
  have mods: "modules_in s' = modules_in s" using passes_keeps(1) [OF s'(2)] sel(1) by simp
  have "rooms n s' (sig_types it)" "m < Suc k \<Longrightarrow> declared_done m it s'" if "m < modules_in s'" "it \<in> set (items_at s' m)" for m it
  proof -
    have it: "m < modules_in s" "it \<in> set (items_at s m)" using that mods tree by (simp_all add: items_at_def)
    then have "rooms n s1 (sig_types it)" using d by (simp add: declaring_def sel)
    then show "rooms n s' (sig_types it)" by (rule rooms_pass [OF s'(2)])
    show "declared_done m it s'" if "m < Suc k"
    proof (cases "m = k")
      case True
      then show ?thesis using s'(5) it by (simp add: items_at_def sel)
    next
      case False
      then have "declared_done m it s" using d it that by (simp add: declaring_def)
      then have "declared_done m it s1" by (simp add: declared_done_def find_nominal_def complete_at_def sel)
      then show ?thesis by (rule declared_done_passes [OF _ s'(2)])
    qed
  qed
  moreover have "list_all2 entry_moves (ck_nominals s0) (ck_nominals s')"
    using d passes_keeps(8) [OF s'(2)] list_all2_trans [of entry_moves entry_moves entry_moves "ck_nominals s0" "ck_nominals s" "ck_nominals s'"]
    by (auto simp: declaring_def sel intro: entry_moves_trans)
  moreover have "prefix (entries (ck_bag s0)) (entries (ck_bag s'))"
    using d passes_keeps(10) [OF s'(2)] by (auto simp: declaring_def sel intro: prefix_order.trans)
  ultimately have "declaring n s0 (Suc k) s'"
    using d s'(3,4) passes_keeps(6) [OF s'(2)] tree by (simp add: declaring_def pass_ready_def sel)
  then show ?thesis using run mods by blast
qed

lemma run_each_append: "run_each f (xs @ ys) s = Option.bind (run_each f xs s) (run_each f ys)"
  by (induction xs arbitrary: s) (auto split: Option.bind_split)

lemma process_modules_declare:
  "declaring n s0 0 s \<Longrightarrow> k \<le> modules_in s \<Longrightarrow>
     \<exists>s'. run_each (process_module n) [0 ..< k] s = Some s' \<and> declaring n s0 k s' \<and> modules_in s' = modules_in s"
proof (induction k)
  case (Suc k)
  then obtain s1 where s1: "run_each (process_module n) [0 ..< k] s = Some s1" "declaring n s0 k s1" "modules_in s1 = modules_in s"
    by auto
  have "\<exists>s'. process_module n k s1 = Some s' \<and> declaring n s0 (Suc k) s' \<and> modules_in s' = modules_in s1"
    using Suc.prems(2) s1(3) by (intro process_module_declares [OF s1(2)]) simp
  then show ?case using s1 by (auto simp: run_each_append)
qed simp

lemma declaring_start:
  assumes tree: "tree_ok tree" and s: "s = new_checker pool tree width bag"
    and s0: "s0 = (register_nominals s)\<lparr>ck_parents := parents_of_tree (ck_tree (register_nominals s))\<rparr>"
    and n: "declaration_fuel s \<le> n"
  shows "declaring n s0 0 s0" and "registered s (register_nominals s)" and "ck_tree s0 = tree"
proof -
  let ?r = "register_nominals s"
  show r: "registered s ?r" using register_nominals_registered [of s] by (simp add: s new_checker_def)
  have eq: "?r = s\<lparr>ck_nominals := ck_nominals ?r, ck_bag := ck_bag ?r\<rparr>" using r by (simp add: registered_def)
  have sel: "ck_tree ?r = tree" "ck_store ?r = new_builder" "ck_blessed ?r = []" "ck_modules ?r = []"
      "ck_scopes ?r = []" "ck_fn_ret ?r = 0"
    by (subst eq, simp add: s new_checker_def)+
  then show t: "ck_tree s0 = tree" by (simp add: s0)
  have fresh: "\<forall>e \<in> set (ck_nominals s0). fresh_entry tree e" using r sel(1) by (simp add: registered_def s0)
  have items: "is_struct_item it \<or> is_enum_item it" if "nominal_ident it = Some name" for it name
    using that by (cases it) simp_all
  have un: "\<not> nom_started e \<and> \<not> nom_complete e" if "e \<in> set (ck_nominals s0)" for e
    using fresh that by (simp add: fresh_entry_def)
  have "sound new_builder 0"
    by (rule sound_leaf) (simp_all add: new_builder_def intern_primitives_def kPrefix_def empty_storage_def primitive_tags_def)
  moreover have "own_payloads st (ck_nominals s0)" for st
    using un by (auto simp: own_payloads_def same_kind_def)
  moreover have "\<forall>e \<in> set (ck_nominals s0). entry_ok (modules_in s0) new_builder e"
    using fresh items t by (fastforce simp: entry_ok_def fresh_entry_def modules_in_def)
  ultimately have ok: "checker_ok s0"
    using tree sel t parents_of_tree_ok [of tree] store_ok_new
    by (simp add: s0 checker_ok_def parents_ok_def modules_in_def scopes_ok_def)
  have same: "unstarted s0 = unstarted ?r" "decl_depth s0 = decl_depth ?r"
    by (simp_all add: s0 unstarted_def decl_depth_def)
  have d: "unstarted s0 * decl_depth s0 + signature_depth tree < n"
    using n same sel(1) by (simp add: declaration_fuel_def Let_def)
  have "rooms n s0 (sig_types it)" if "m < modules_in s0" "it \<in> set (items_at s0 m)" for m it
    unfolding rooms_def type_room_def using d signature_depth_le [of m tree it] that t
    by (fastforce simp: modules_in_def items_at_def)
  moreover have "pending s0 = {}" using un by (auto simp: pending_def)
  moreover have "ck_modules s0 = []" using sel(4) by (simp add: s0)
  ultimately show "declaring n s0 0 s0"
    using ok d by (simp add: declaring_def nominal_room_def list_all2_refl)
qed

lemma check_declarations_run:
  assumes "tree_ok tree" and n: "declaration_fuel (new_checker pool tree width bag) \<le> n"
  obtains s where "check_declarations n (new_checker pool tree width bag) = Some s" "checker_ok s" "ck_tree s = tree"
    "\<forall>e \<in> set (ck_nominals s). nom_complete e" "length (ck_modules s) = length (tree_modules tree)"
    "prefix (entries bag) (entries (ck_bag s))"
proof -
  define s where "s = new_checker pool tree width bag"
  define s0 where "s0 = (register_nominals s)\<lparr>ck_parents := parents_of_tree (ck_tree (register_nominals s))\<rparr>"
  note start = declaring_start [OF assms(1) s_def s0_def n [folded s_def]]
  obtain s' where s': "run_each (process_module n) [0 ..< modules_in s0] s0 = Some s'" "declaring n s0 (modules_in s0) s'"
      "modules_in s' = modules_in s0"
    using process_modules_declare [OF start(1) order_refl] by blast
  have "check_declarations n s = Some s'"
    using s'(1) by (simp add: check_declarations_def Let_def s0_def [symmetric] modules_in_def) (simp add: s0_def)
  moreover have "nom_complete (ck_nominals s' ! i)" if i: "i < length (ck_nominals s')" for i
  proof -
    have moves: "list_all2 entry_moves (ck_nominals s0) (ck_nominals s')" using s'(2) by (simp add: declaring_def)
    then have i0: "i < length (ck_nominals s0)" using i list_all2_lengthD by force
    let ?e = "ck_nominals s0 ! i"
    have r: "distinct (map key_of_entry (ck_nominals s0))" "fresh_entry tree ?e"
      using start(2) i0 start(3) by (simp_all add: registered_def s0_def)
    then obtain name where name: "nominal_ident (nom_item ?e) = Some name" "id_name name = nom_name ?e"
        "nom_module ?e < modules_in s'" "nom_item ?e \<in> set (items_at s' (nom_module ?e))"
      using start(3) s'(2,3) by (auto simp: fresh_entry_def modules_in_def declaring_def items_at_def)
    have "declared_done (nom_module ?e) (nom_item ?e) s'"
      using s'(2,3) name(3,4) by (simp add: declaring_def)
    moreover have "find_nominal (nom_module ?e) (nom_name ?e) s' = Some i"
      using same_find_nominal [OF moves] find_own_entry [OF r(1) i0] by simp
    ultimately show ?thesis using name(1,2) by (simp add: declared_done_def complete_at_def)
  qed
  then have "\<forall>e \<in> set (ck_nominals s'). nom_complete e" by (auto simp: in_set_conv_nth)
  moreover have "prefix (entries bag) (entries (ck_bag s'))"
    using s'(2) start(2) by (auto simp: declaring_def registered_def s0_def s_def new_checker_def intro: prefix_order.trans)
  ultimately show thesis
    using that [of s'] s'(2) start(3) by (auto simp: s_def declaring_def modules_in_def)
qed

end
