(* ===== verification/Checker_Cycles.thy ===== *)
theory Checker_Cycles
  imports Checker_Pass
begin

text \<open>
  Value cycles. The search keeps the path from its root on a stack and stops at the first type
  that is on it; on the tables that the declaration pass builds its fuel is enough, and it says
  yes exactly for the types that hold themselves by value.
\<close>

lemma kPrefix_plain: "\<forall>t \<in> set (primitive_tags @ [TyFunction]). t \<noteq> TyStruct \<and> t \<noteq> TyEnum \<and> t \<noteq> TyTuple \<and> t \<noteq> TyArray"
  by code_simp

lemma length_tags: "length (primitive_tags @ [TyFunction]) = 17"
  by code_simp

lemma value_parts_in:
  assumes ok: "store_ok st" and i: "i < length (types st)" and c: "c \<in> set (value_parts st i)"
  shows "c < length (types st)"
proof (cases "17 \<le> i")
  case False
  then have i17: "i < 17" by simp
  have "tag_of st i = (primitive_tags @ [TyFunction]) ! i"
    using prefix_node [OF ok i17] by (simp only: tag_of_def)
  moreover have "i < length (primitive_tags @ [TyFunction])" by (rule i17 [folded length_tags])
  ultimately have "tag_of st i \<in> set (primitive_tags @ [TyFunction])" by (metis nth_mem)
  then have "tag_of st i \<noteq> TyStruct \<and> tag_of st i \<noteq> TyEnum \<and> tag_of st i \<noteq> TyTuple \<and> tag_of st i \<noteq> TyArray"
    by (rule bspec [OF kPrefix_plain])
  then show ?thesis using c by (simp add: value_parts_def Let_def)
next
  case True
  have s: "sound st i" using store_ok_sound [OF ok True i] .
  have r: "rows_ok st" using ok by (rule store_ok_rows)
  have "sound st c"
  proof -
    consider "tag_of st i = TyStruct" | "tag_of st i = TyEnum" | "c \<in> set (components st i)"
      using c by (auto simp: value_parts_def components_def Let_def split: if_splits)
    then show ?thesis
    proof cases
      case 1
      then have "node_data (types st ! i) < length (struct_types st)"
        using sound_node [OF s] by (simp add: node_ok_def tag_of_def)
      then show ?thesis using r c 1 nth_mem unfolding rows_ok_def
        by (fastforce simp: value_parts_def struct_fields_of_def)
    next
      case 2
      then have d: "node_data (types st ! i) < length (enum_types st)"
        using sound_node [OF s] by (simp add: node_ok_def tag_of_def)
      obtain v where v: "v \<in> set (indices (enum_variants (enum_types st ! node_data (types st ! i))))"
          "c \<in> set (indices (enum_variant_info.variant_fields (enum_variant_types st ! v)))"
        using c 2 by (auto simp: value_parts_def variant_fields_of_def)
      then have "v < length (enum_variant_types st)" using r d nth_mem unfolding rows_ok_def by blast
      then show ?thesis using r v(2) nth_mem unfolding rows_ok_def by blast
    next
      case 3
      then show ?thesis by (rule sound_part [OF s])
    qed
  qed
  then show ?thesis by (rule sound_in)
qed

subsection \<open>The search\<close>

lemma any_true_one: "any_true r [c] = r c"
  by (auto split: option.split bool.split)

lemma has_value_cycle_parts:
  "has_value_cycle (Suc n) st stack i =
     (if i \<in> set stack then Some True else any_true (has_value_cycle n st (stack @ [i])) (value_parts st i))"
  by (auto simp: Let_def value_parts_def any_true_one simp del: any_true.simps(2))

lemma any_true_total: "(\<And>c. c \<in> set cs \<Longrightarrow> r c \<noteq> None) \<Longrightarrow> any_true r cs \<noteq> None"
  by (induction cs) (auto split: option.split bool.split)

lemma any_true_False: "any_true r cs = Some False \<Longrightarrow> c \<in> set cs \<Longrightarrow> r c = Some False"
  by (induction cs) (auto split: option.splits bool.splits)

lemma any_true_True: "any_true r cs = Some True \<Longrightarrow> \<exists>c \<in> set cs. r c = Some True"
  by (induction cs) (auto split: option.splits bool.splits)

definition part_of :: "storage \<Rightarrow> (nat \<times> nat) set" where
  "part_of st = {(i, c). c \<in> set (value_parts st i)}"

lemma cycle_not_finite: "no_value_cycle st i \<Longrightarrow> (i, j) \<in> (part_of st)\<^sup>* \<Longrightarrow> (j, j) \<notin> (part_of st)\<^sup>+"
proof (induction arbitrary: j rule: no_value_cycle.induct)
  case (finite_value i)
  show ?case
  proof
    assume j: "(j, j) \<in> (part_of st)\<^sup>+"
    obtain c where c: "(i, c) \<in> part_of st" "(c, j) \<in> (part_of st)\<^sup>*"
    proof (cases "i = j")
      case True
      then show thesis using tranclD [OF j] that by blast
    next
      case False
      then show thesis using finite_value.prems that by (blast elim: converse_rtranclE)
    qed
    then show False using finite_value.IH j by (auto simp: part_of_def)
  qed
qed

lemma has_value_cycle_total:
  assumes "store_ok st"
  shows "i < length (types st) \<Longrightarrow> distinct stack \<Longrightarrow> set stack \<subseteq> {..< length (types st)} \<Longrightarrow>
    length (types st) + 1 < fuel + length stack \<Longrightarrow> has_value_cycle fuel st stack i \<noteq> None"
proof (induction fuel arbitrary: stack i)
  case 0
  then have "length stack \<le> length (types st)"
    using card_mono [of "{..< length (types st)}" "set stack"] by (simp add: distinct_card)
  then show ?case using 0 by simp
next
  case (Suc fuel)
  show ?case
  proof (cases "i \<in> set stack")
    case False
    have "has_value_cycle fuel st (stack @ [i]) c \<noteq> None" if "c \<in> set (value_parts st i)" for c
      using Suc.prems False value_parts_in [OF assms Suc.prems(1) that] by (intro Suc.IH) auto
    then show ?thesis using False by (simp add: has_value_cycle_parts any_true_total del: has_value_cycle.simps)
  qed simp
qed

lemma has_value_cycle_no: "has_value_cycle fuel st stack i = Some False \<Longrightarrow> no_value_cycle st i"
proof (induction fuel arbitrary: stack i)
  case (Suc fuel)
  then have "\<forall>c \<in> set (value_parts st i). no_value_cycle st c"
    by (auto simp: has_value_cycle_parts simp del: has_value_cycle.simps split: if_splits dest: any_true_False)
  then show ?case by (rule finite_value)
qed simp

lemma has_value_cycle_yes:
  "has_value_cycle fuel st stack i = Some True \<Longrightarrow> \<forall>x \<in> set stack. (x, i) \<in> (part_of st)\<^sup>+ \<Longrightarrow> \<not> no_value_cycle st i"
proof (induction fuel arbitrary: stack i)
  case (Suc fuel)
  show ?case
  proof (cases "i \<in> set stack")
    case True
    then show ?thesis using Suc.prems(2) cycle_not_finite [of st i i] by blast
  next
    case False
    then obtain c where c: "c \<in> set (value_parts st i)" "has_value_cycle fuel st (stack @ [i]) c = Some True"
      using Suc.prems(1) by (auto simp: has_value_cycle_parts simp del: has_value_cycle.simps dest: any_true_True)
    have "\<forall>x \<in> set (stack @ [i]). (x, c) \<in> (part_of st)\<^sup>+"
      using Suc.prems(2) c(1) by (auto simp: part_of_def intro: trancl_into_trancl)
    from Suc.IH [OF c(2) this] show ?thesis using c(1) by (auto elim: no_value_cycle.cases)
  qed
qed simp

lemma has_value_cycle_decides:
  assumes "store_ok st" and "i < length (types st)"
  shows "has_value_cycle (length (types st) + 2) st [] i = Some (\<not> no_value_cycle st i)"
proof -
  obtain b where "has_value_cycle (length (types st) + 2) st [] i = Some b"
    using has_value_cycle_total [OF assms(1,2), of "[]" "length (types st) + 2"] by auto
  then show ?thesis
    using has_value_cycle_no [of "length (types st) + 2" st "[]" i] has_value_cycle_yes [of "length (types st) + 2" st "[]" i]
    by (cases b) auto
qed

subsection \<open>What is reported\<close>

definition recursive_diag :: "nominal_entry \<Rightarrow> diagnostic" where
  "recursive_diag e = mk_diag SevError kAnalyzerRecursiveType (Some (nom_span e))
     (quoted ''recursive type '' (nom_name e) '' without indirection'')"

lemma check_cycle_run:
  assumes "store_ok st" and "nom_complete e \<Longrightarrow> nom_type e < length (types st)"
  obtains bag1 where "check_cycle st e bag = Some bag1"
    "entries bag1 = entries bag @ (if nom_complete e \<and> \<not> no_value_cycle st (nom_type e) then [recursive_diag e] else [])"
proof (cases "nom_complete e")
  case True
  note d = has_value_cycle_decides [OF assms(1) assms(2) [OF True]]
  show thesis
    by (rule that) (use True in \<open>simp_all only: check_cycle_def d, auto simp: recursive_diag_def\<close>)
next
  case False
  then show thesis by (intro that [of bag]) (simp_all add: check_cycle_def)
qed

lemma validate_cycles_run:
  assumes "store_ok st"
  shows "\<forall>e \<in> set es. nom_complete e \<longrightarrow> nom_type e < length (types st) \<Longrightarrow>
    \<exists>bag'. validate_cycles st es bag = Some bag' \<and>
      entries bag' = entries bag @ map recursive_diag (filter (\<lambda>e. nom_complete e \<and> \<not> no_value_cycle st (nom_type e)) es)"
proof (induction es arbitrary: bag)
  case (Cons e es)
  obtain bag1 where b: "check_cycle st e bag = Some bag1"
      "entries bag1 = entries bag @ (if nom_complete e \<and> \<not> no_value_cycle st (nom_type e) then [recursive_diag e] else [])"
    using check_cycle_run [OF assms, of e bag] Cons.prems by auto
  then show ?case using Cons.IH [of bag1] Cons.prems by auto
qed simp

lemma complete_in_table:
  "checker_ok s \<Longrightarrow> e \<in> set (ck_nominals s) \<Longrightarrow> nom_complete e \<Longrightarrow> nom_type e < length (types (ck_store s))"
  by (auto simp: checker_ok_def entry_ok_def typed_entry_def dest: sound_in)

subsection \<open>Declarations\<close>

text \<open>
  C3. The declaration pass returns for every module tree whose imports lie in the tree: no
  read leaves a table and no recursion runs out of fuel, whatever the types mention, cyclic
  types included. It leaves the tables and the signatures well formed, every registered struct
  and enum complete, and the diagnostics that were there before in place.
\<close>

theorem check_declarations_returns:
  assumes "tree_ok tree" and "declaration_fuel (new_checker pool tree width bag) \<le> n"
  shows "\<exists>s. check_declarations n (new_checker pool tree width bag) = Some s \<and> checker_ok s \<and>
    (\<forall>e \<in> set (ck_nominals s). nom_complete e) \<and> length (ck_modules s) = length (tree_modules tree) \<and>
    prefix (entries bag) (entries (ck_bag s))"
  using assms by (rule check_declarations_run) blast


subsection \<open>A cyclic package\<close>

text \<open>\<^verbatim>\<open>struct S { s: S } enum E { A(Option<E>), B(T) } struct T { r: &S }\<close>\<close>

definition named :: "string \<Rightarrow> ident" where
  "named name = \<lparr>id_name = name, id_span = empty_span\<rparr>"

definition named_type :: "string \<Rightarrow> type_expr list \<Rightarrow> type_expr" where
  "named_type name args = PathType empty_span \<lparr>path_segments = [named name], path_span = empty_span\<rparr> args"

definition cyclic_items :: "item list" where
  "cyclic_items =
     [StructItem empty_span False (named ''S'') [\<lparr>field_name = named ''s'', field_type = named_type ''S'' []\<rparr>],
      EnumItem empty_span False (named ''E'')
        [\<lparr>enum_variant.variant_name = named ''A'', variant_fields = [named_type ''Option'' [named_type ''E'' []]]\<rparr>,
         \<lparr>enum_variant.variant_name = named ''B'', variant_fields = [named_type ''T'' []]\<rparr>],
      StructItem empty_span False (named ''T'')
        [\<lparr>field_name = named ''r'', field_type = RefType empty_span False (named_type ''S'' [])\<rparr>]]"

definition cyclic_tree :: module_tree where
  "cyclic_tree = \<lparr>tree_modules = [\<lparr>mn_path = [], mn_file = 0, mn_items = cyclic_items, mn_children = [],
     mn_imports = []\<rparr>], tree_root = 0\<rparr>"

lemma cyclic_tree_ok: "tree_ok cyclic_tree"
  by (simp add: tree_ok_def cyclic_tree_def)

lemma cyclic_tree_fuel: "declaration_fuel (new_checker length cyclic_tree W64 empty_bag) \<le> 60"
  by code_simp

theorem check_declarations_returns_witness:
  "\<exists>s. check_declarations 60 (new_checker length cyclic_tree W64 empty_bag) = Some s \<and> checker_ok s \<and>
    (\<forall>e \<in> set (ck_nominals s). nom_complete e) \<and> length (ck_modules s) = length (tree_modules cyclic_tree) \<and>
    prefix (entries empty_bag) (entries (ck_bag s))"
  by (rule check_declarations_returns [OF cyclic_tree_ok cyclic_tree_fuel])


text \<open>The two cyclic types of the sample are reported, the one behind a reference is not.\<close>

lemma cyclic_package_reported:
  "map_option (\<lambda>s. map_option (\<lambda>bag. map diag_message (entries bag))
     (validate_cycles (ck_store s) (ck_nominals s) (ck_bag s)))
     (check_declarations 60 (new_checker length cyclic_tree W64 empty_bag)) =
   Some (Some [quoted ''recursive type '' ''S'' '' without indirection'', quoted ''recursive type '' ''E'' '' without indirection''])"
  by code_simp

end
