(* ===== verification/Pipeline.thy ===== *)
theory Pipeline
  imports Pkg_Resolve Render "HOL-Library.Char_ord" "HOL-Library.List_Lexorder"
begin

text \<open>
  Source discovery and the project flow (\<^verbatim>\<open>src/pipeline/pipeline.h\<close>,
  \<^verbatim>\<open>src/pipeline/pipeline.cc\<close>). The directory calls of the two platforms are the record
  \<open>host\<close>: reading the names of a directory and the kind of a path that is not followed
  (\<^verbatim>\<open>opendir\<close>, \<^verbatim>\<open>readdir\<close>, \<^verbatim>\<open>lstat\<close>), or the entries with two attributes
  (\<^verbatim>\<open>FindFirstFileA\<close>, \<^verbatim>\<open>FindNextFileA\<close>). The walk carries fuel for the depth of the tree;
  \<open>None\<close> is running out of it.
\<close>

subsection \<open>The code\<close>

datatype file_kind = KindDirectory | KindRegular | KindOther

record found_file =
  ff_name :: string
  ff_is_dir :: bool
  ff_is_link :: bool

record 'h host = "'h io" +
  host_names :: "string \<Rightarrow> string list option"
  host_kind :: "string \<Rightarrow> file_kind option"
  host_find :: "string \<Rightarrow> found_file list option"

definition kPipelineIoError :: u32 where "kPipelineIoError = 2200"
definition kSourceExtension :: string where "kSourceExtension = ''.al''"

definition has_source_extension :: "string \<Rightarrow> bool" where
  "has_source_extension p \<longleftrightarrow>
     \<not> length p < length kSourceExtension \<and> drop (length p - length kSourceExtension) p = kSourceExtension"

definition is_nested_package :: "bool \<Rightarrow> 'h host \<Rightarrow> path \<Rightarrow> bool" where
  "is_nested_package win h dir \<longleftrightarrow> io_open (io.truncate h) (as_view (join win dir kManifestFileName)) \<noteq> None"

text \<open>What the two loops do with an entry: walk into it, test its extension, or pass over it.\<close>

datatype entry_kind = SubDirectory | Candidate | PassedOver

definition posix_entry :: "'h host \<Rightarrow> path \<Rightarrow> string \<Rightarrow> entry_kind" where
  "posix_entry h full name =
     (case host_kind h (as_view full) of
        None \<Rightarrow> PassedOver
      | Some KindDirectory \<Rightarrow> SubDirectory
      | Some KindRegular \<Rightarrow> Candidate
      | Some KindOther \<Rightarrow> PassedOver)"

definition windows_entry :: "found_file \<Rightarrow> entry_kind" where
  "windows_entry f =
     (if ff_is_dir f \<and> \<not> ff_is_link f then SubDirectory else if \<not> ff_is_dir f then Candidate else PassedOver)"

definition dir_entries :: "bool \<Rightarrow> 'h host \<Rightarrow> path \<Rightarrow> (string \<times> entry_kind) list option" where
  "dir_entries win h dir =
     (if win then map_option (map (\<lambda>f. (ff_name f, windows_entry f)))
        (host_find h (as_view dir @ [kDefaultPathSeparator] @ ''*''))
      else map_option (map (\<lambda>name. (name, posix_entry h (join win dir name) name))) (host_names h (as_view dir)))"

fun walk_entries ::
  "(path \<Rightarrow> path list \<Rightarrow> (bool \<times> path list) option) \<Rightarrow> bool \<Rightarrow> 'h host \<Rightarrow> path \<Rightarrow>
     (string \<times> entry_kind) list \<Rightarrow> path list \<Rightarrow> path list option" where
  "walk_entries sub win h dir [] paths = Some paths"
| "walk_entries sub win h dir ((name, kind) # es) paths =
     (if name = ''.'' \<or> name = ''..'' then walk_entries sub win h dir es paths
      else let full = join win dir name in
        (case kind of
           SubDirectory \<Rightarrow>
             if is_nested_package win h full then walk_entries sub win h dir es paths
             else (case sub full paths of
                     None \<Rightarrow> None
                   | Some (opened, paths) \<Rightarrow> walk_entries sub win h dir es paths)
         | Candidate \<Rightarrow>
             walk_entries sub win h dir es (if has_source_extension (as_view full) then paths @ [full] else paths)
         | PassedOver \<Rightarrow> walk_entries sub win h dir es paths))"

fun walk_sources :: "nat \<Rightarrow> bool \<Rightarrow> 'h host \<Rightarrow> path \<Rightarrow> path list \<Rightarrow> (bool \<times> path list) option" where
  "walk_sources 0 win h dir paths = None"
| "walk_sources (Suc fuel) win h dir paths =
     (case dir_entries win h dir of
        None \<Rightarrow> Some (False, paths)
      | Some es \<Rightarrow> map_option (Pair True) (walk_entries (walk_sources fuel win h) win h dir es paths))"

definition fetch_source :: "source_manager \<Rightarrow> file_id \<Rightarrow> source_text" where
  "fetch_source sm fid =
     (if unat fid \<ge> file_count sm then \<lparr>st_name = [], st_bytes = []\<rparr>
      else \<lparr>st_name = name_of sm fid, st_bytes = bytes_of sm fid\<rparr>)"

record discovered_sources =
  ds_root :: string
  ds_files :: "file_id list"

fun load_sources ::
  "'h io \<Rightarrow> path list \<Rightarrow> file_id list \<Rightarrow> source_manager \<Rightarrow> diag_bag \<Rightarrow>
     file_id list fallible \<times> source_manager \<times> diag_bag" where
  "load_sources fs [] ids sm bag = (Inr ids, sm, bag)"
| "load_sources fs (p # ps) ids sm bag =
     (case load fs sm (as_view p) of
        (Inl e, sm) \<Rightarrow> (Inl Fatal, sm,
          emit SevError kPipelineIoError (quoted ''cannot read source file'' (as_view p)) bag)
      | (Inr fid, sm) \<Rightarrow> load_sources fs ps (ids @ [fid]) sm bag)"

definition discover_sources ::
  "nat \<Rightarrow> bool \<Rightarrow> 'h host \<Rightarrow> string \<Rightarrow> source_manager \<Rightarrow> diag_bag \<Rightarrow>
     (discovered_sources fallible \<times> source_manager \<times> diag_bag) option" where
  "discover_sources fuel win h dir sm bag =
     (case from_native win dir of
        Inl e \<Rightarrow> Some (Inl Fatal, sm, emit SevError kPipelineIoError (quoted ''invalid source directory'' dir) bag)
      | Inr root \<Rightarrow>
          (case walk_sources fuel win h root [] of
             None \<Rightarrow> None
           | Some (False, paths) \<Rightarrow> Some (Inl Fatal, sm,
               emit SevError kPipelineIoError (quoted ''source directory'' dir @ '' is not accessible'') bag)
           | Some (True, paths) \<Rightarrow>
               if paths = [] then Some (Inl Fatal, sm,
                 emit SevError kPipelineIoError (quoted ''no source files found under'' dir) bag)
               else (case load_sources (io.truncate h) (sort_key as_view paths) [] sm bag of
                       (Inl e, sm, bag) \<Rightarrow> Some (Inl Fatal, sm, bag)
                     | (Inr ids, sm, bag) \<Rightarrow> Some (Inr \<lparr>ds_root = as_view root, ds_files = ids\<rparr>, sm, bag))))"

record project_build =
  pb_packages :: u32
  pb_files_loaded :: u32

fun compile_packages ::
  "nat \<Rightarrow> bool \<Rightarrow> 'h host \<Rightarrow> resolved_package list \<Rightarrow> project_build \<Rightarrow> source_manager \<Rightarrow> diag_bag \<Rightarrow>
     (project_build fallible \<times> source_manager \<times> diag_bag) option" where
  "compile_packages fuel win h [] built sm bag = Some (Inr built, sm, bag)"
| "compile_packages fuel win h (p # ps) built sm bag =
     (case discover_sources fuel win h (as_view (res_dir p)) sm bag of
        None \<Rightarrow> None
      | Some (Inl e, sm, bag) \<Rightarrow> Some (Inl Fatal, sm, bag)
      | Some (Inr d, sm, bag) \<Rightarrow>
          compile_packages fuel win h ps
            \<lparr>pb_packages = pb_packages built + 1, pb_files_loaded = pb_files_loaded built + of_nat (length (ds_files d))\<rparr>
            sm bag)"

definition compile_project ::
  "nat \<Rightarrow> bool \<Rightarrow> 'h host \<Rightarrow> resolved_package list \<Rightarrow> source_manager \<Rightarrow> diag_bag \<Rightarrow>
     (project_build fallible \<times> source_manager \<times> diag_bag) option" where
  "compile_project fuel win h ps = compile_packages fuel win h ps \<lparr>pb_packages = 0, pb_files_loaded = 0\<rparr>"

subsection \<open>The walk\<close>

text \<open>The source files of a directory: those of its plain files and those of the directories that are no packages.\<close>

definition entered :: "string \<Rightarrow> bool" where
  "entered name \<longleftrightarrow> name \<noteq> ''.'' \<and> name \<noteq> ''..''"

fun sources_in :: "bool \<Rightarrow> path \<Rightarrow> (string \<times> entry_kind) list \<Rightarrow> path set" where
  "sources_in win dir [] = {}"
| "sources_in win dir ((name, kind) # es) =
     (if entered name \<and> kind = Candidate \<and> has_source_extension (as_view (join win dir name))
      then {join win dir name} else {}) \<union> sources_in win dir es"

fun dirs_in :: "bool \<Rightarrow> 'h host \<Rightarrow> path \<Rightarrow> (string \<times> entry_kind) list \<Rightarrow> path set" where
  "dirs_in win h dir [] = {}"
| "dirs_in win h dir ((name, kind) # es) =
     (if entered name \<and> kind = SubDirectory \<and> \<not> is_nested_package win h (join win dir name)
      then {join win dir name} else {}) \<union> dirs_in win h dir es"

definition entries_of :: "bool \<Rightarrow> 'h host \<Rightarrow> path \<Rightarrow> (string \<times> entry_kind) list" where
  "entries_of win h dir = (case dir_entries win h dir of None \<Rightarrow> [] | Some es \<Rightarrow> es)"

inductive source_below :: "bool \<Rightarrow> 'h host \<Rightarrow> path \<Rightarrow> path \<Rightarrow> bool" for win h where
  source_here: "p \<in> sources_in win dir (entries_of win h dir) \<Longrightarrow> source_below win h dir p"
| source_deeper: "full \<in> dirs_in win h dir (entries_of win h dir) \<Longrightarrow> source_below win h full p \<Longrightarrow> source_below win h dir p"

text \<open>A directory tree of bounded depth.\<close>

fun shallow :: "nat \<Rightarrow> bool \<Rightarrow> 'h host \<Rightarrow> path \<Rightarrow> bool" where
  "shallow 0 win h dir = False"
| "shallow (Suc n) win h dir = (\<forall>full \<in> dirs_in win h dir (entries_of win h dir). shallow n win h full)"

lemma source_below_iff:
  "source_below win h dir p \<longleftrightarrow> p \<in> sources_in win dir (entries_of win h dir) \<or>
     (\<exists>full \<in> dirs_in win h dir (entries_of win h dir). source_below win h full p)"
  by (auto elim: source_below.cases intro: source_below.intros)

lemma walk_entries_run:
  "(\<And>full paths. full \<in> dirs_in win h dir es \<Longrightarrow> \<exists>b new. sub full paths = Some (b, paths @ new) \<and> set new = Below full) \<Longrightarrow>
   \<exists>new. walk_entries sub win h dir es paths = Some (paths @ new) \<and>
     set new = sources_in win dir es \<union> \<Union> (Below ` dirs_in win h dir es)"
proof (induction es arbitrary: paths)
  case (Cons e es)
  obtain name kind where e: "e = (name, kind)" by fastforce
  let ?full = "join win dir name" and ?rest = "sources_in win dir es \<union> \<Union> (Below ` dirs_in win h dir es)"
  have IH: "\<exists>new. walk_entries sub win h dir es paths' = Some (paths' @ new) \<and> set new = ?rest" for paths'
    using Cons.prems by (intro Cons.IH) (simp add: e)
  consider (skip) "\<not> entered name \<or> kind = PassedOver \<or> (kind = SubDirectory \<and> is_nested_package win h ?full)
      \<or> (kind = Candidate \<and> \<not> has_source_extension (as_view ?full))"
    | (source) "entered name" "kind = Candidate" "has_source_extension (as_view ?full)"
    | (sub) "entered name" "kind = SubDirectory" "\<not> is_nested_package win h ?full"
    by (cases kind) auto
  then show ?case
  proof cases
    case skip
    then have "walk_entries sub win h dir (e # es) paths = walk_entries sub win h dir es paths"
      by (auto simp: e Let_def entered_def split: entry_kind.split)
    moreover have "sources_in win dir (e # es) = sources_in win dir es" "dirs_in win h dir (e # es) = dirs_in win h dir es"
      using skip by (auto simp: e)
    ultimately show ?thesis using IH [of paths] by simp
  next
    case source
    then have "walk_entries sub win h dir (e # es) paths = walk_entries sub win h dir es (paths @ [?full])"
      by (simp add: e Let_def entered_def)
    moreover obtain new where "walk_entries sub win h dir es (paths @ [?full]) = Some ((paths @ [?full]) @ new)" "set new = ?rest"
      using IH by blast
    ultimately show ?thesis using source by (intro exI [of _ "?full # new"]) (simp add: e)
  next
    case sub
    then have "?full \<in> dirs_in win h dir (e # es)" by (simp add: e)
    from Cons.prems [OF this] obtain b new1 where s: "sub ?full paths = Some (b, paths @ new1)" "set new1 = Below ?full"
      by blast
    have "walk_entries sub win h dir (e # es) paths = walk_entries sub win h dir es (paths @ new1)"
      using sub s(1) by (simp add: e Let_def entered_def)
    moreover obtain new where "walk_entries sub win h dir es (paths @ new1) = Some ((paths @ new1) @ new)" "set new = ?rest"
      using IH by blast
    ultimately show ?thesis using sub s(2) by (intro exI [of _ "new1 @ new"]) (auto simp: e)
  qed
qed simp

lemma walk_sources_run:
  "shallow n win h dir \<Longrightarrow>
     \<exists>new. walk_sources n win h dir paths = Some (dir_entries win h dir \<noteq> None, paths @ new) \<and>
       set new = {p. source_below win h dir p}"
proof (induction n arbitrary: dir paths)
  case (Suc n)
  show ?case
  proof (cases "dir_entries win h dir")
    case None
    then have "{p. source_below win h dir p} = {}"
      by (simp add: source_below_iff [of win h dir] entries_of_def)
    then show ?thesis using None by simp
  next
    case (Some es)
    have "\<exists>b new. walk_sources n win h full paths' = Some (b, paths' @ new) \<and> set new = {p. source_below win h full p}"
      if "full \<in> dirs_in win h dir es" for full paths'
      using Suc.prems that Suc.IH [of full paths'] by (auto simp: entries_of_def Some)
    from walk_entries_run [of win h dir es "walk_sources n win h" "\<lambda>full. {p. source_below win h full p}" paths, OF this]
    obtain new where "walk_entries (walk_sources n win h) win h dir es paths = Some (paths @ new)"
        "set new = sources_in win dir es \<union> (\<Union>full \<in> dirs_in win h dir es. {p. source_below win h full p})" by blast
    moreover have "{p. source_below win h dir p} = sources_in win dir es \<union> (\<Union>full \<in> dirs_in win h dir es. {p. source_below win h full p})"
      by (auto simp: source_below_iff [of win h dir] entries_of_def Some)
    ultimately show ?thesis using Some by simp
  qed
qed simp

subsection \<open>Loading\<close>

lemma name_of_append: "unat fid < length sm \<Longrightarrow> name_of (sm @ es) fid = name_of sm fid"
  by (simp add: name_of_def nth_append)

lemma load_sources_grows: "load_sources fs ps ids sm bag = (r, sm', bag') \<Longrightarrow> length sm \<le> length sm'"
proof (induction ps arbitrary: ids sm)
  case (Cons p ps)
  obtain r1 sm1 where l: "load fs sm (as_view p) = (r1, sm1)" by fastforce
  have le: "length sm \<le> length sm1" using load_length [of fs sm "as_view p"] by (simp add: l)
  show ?case
  proof (cases r1)
    case (Inl e)
    then show ?thesis using Cons.prems le by (simp add: l)
  next
    case (Inr fid)
    then show ?thesis using Cons.IH [of "ids @ [fid]" sm1] Cons.prems le by (simp add: l)
  qed
qed simp

definition new_error :: "diag_bag \<Rightarrow> diag_bag \<Rightarrow> bool" where
  "new_error bag bag' \<longleftrightarrow> (\<exists>d. entries bag' = entries bag @ [d] \<and> is_error d)"

lemma new_error_emit [simp]: "new_error bag (emit SevError code msg bag)"
  by (simp add: new_error_def)

lemma load_sources_reports:
  "load_sources fs ps ids sm bag = (r, sm', bag') \<Longrightarrow> (case r of Inl e \<Rightarrow> new_error bag bag' | Inr _ \<Rightarrow> bag' = bag)"
proof (induction ps arbitrary: ids sm)
  case (Cons p ps)
  obtain r1 sm1 where l: "load fs sm (as_view p) = (r1, sm1)" by fastforce
  show ?case using Cons by (cases r1) (auto simp: l)
qed auto

lemma load_sources_names:
  "sm_inv sm \<Longrightarrow> load_sources fs ps ids sm bag = (Inr out, sm', bag') \<Longrightarrow> length sm' < 2 ^ 32 - 1 \<Longrightarrow>
     sm_inv sm' \<and> (\<exists>es. sm' = sm @ es) \<and> (\<exists>new. out = ids @ new \<and> map (name_of sm') new = map as_view ps)"
proof (induction ps arbitrary: ids sm)
  case (Cons p ps)
  obtain r1 sm1 where l: "load fs sm (as_view p) = (r1, sm1)" by fastforce
  then obtain fid where r1: "r1 = Inr fid" using Cons.prems(2) by (cases r1) auto
  then have rest: "load_sources fs ps (ids @ [fid]) sm1 bag = (Inr out, sm', bag')" using Cons.prems(2) l by simp
  have len: "length sm < 2 ^ 32 - 1"
    using load_sources_grows [OF rest] load_length [of fs sm "as_view p"] Cons.prems(3) l by simp
  note ok = load_ok [OF Cons.prems(1) l [unfolded r1] len]
  obtain es1 where es1: "sm1 = sm @ es1" using load_ext [OF Cons.prems(1) l] by blast
  obtain es2 new where IH: "sm_inv sm'" "sm' = sm1 @ es2" "out = (ids @ [fid]) @ new" "map (name_of sm') new = map as_view ps"
    using Cons.IH [OF conjunct1 [OF ok] rest Cons.prems(3)] by blast
  have "name_of sm' fid = as_view p" using ok IH(2) by (simp add: name_of_append)
  then show ?case using IH es1 by auto
qed simp

subsection \<open>Discovery\<close>

lemma discover_sources_run:
  assumes "from_native win dir = Inr root" and "shallow n win h root" and "sm_inv sm"
  obtains (found) d sm' paths where "discover_sources n win h dir sm bag = Some (Inr d, sm', bag)"
    "ds_root d = as_view root" "set paths = {p. source_below win h root p}" "paths \<noteq> []" "sorted (map as_view paths)"
    "file_count sm' < 2 ^ 32 - 1 \<Longrightarrow> map (name_of sm') (ds_files d) = map as_view paths"
  | (failed) sm' bag' where "discover_sources n win h dir sm bag = Some (Inl Fatal, sm', bag')" "new_error bag bag'"
    "dir_entries win h root = None \<or> {p. source_below win h root p} = {} \<or>
      (\<exists>p sm1. source_below win h root p \<and> fst (load (io.truncate h) sm1 (as_view p)) \<in> range Inl)"
proof -
  obtain paths where w: "walk_sources n win h root [] = Some (dir_entries win h root \<noteq> None, paths)"
      "set paths = {p. source_below win h root p}"
    using walk_sources_run [OF assms(2), of "[]"] by auto
  let ?ps = "sort_key as_view paths"
  consider "dir_entries win h root = None" | "dir_entries win h root \<noteq> None" "paths = []"
    | "dir_entries win h root \<noteq> None" "paths \<noteq> []" by blast
  then show thesis
  proof cases
    case 1
    then show thesis using w assms(1) by (intro failed) (auto simp: discover_sources_def)
  next
    case 2
    then show thesis using w assms(1) by (intro failed) (auto simp: discover_sources_def)
  next
    case 3
    obtain r sm' bag' where l: "load_sources (io.truncate h) ?ps [] sm bag = (r, sm', bag')" by (metis prod_cases3)
    show thesis
    proof (cases r)
      case (Inl e)
      have "\<exists>p sm1. p \<in> set qs \<and> fst (load fs sm1 (as_view p)) \<in> range Inl"
        if "load_sources fs qs ids sm0 bag = (Inl e, sm', bag')" for fs :: "'a io" and qs ids sm0
        using that
      proof (induction qs arbitrary: ids sm0)
        case (Cons q qs)
        obtain r1 sm1 where l: "load fs sm0 (as_view q) = (r1, sm1)" by fastforce
        show ?case
        proof (cases r1)
          case (Inl e1)
          then show ?thesis using l by (intro exI [of _ q] exI [of _ sm0]) simp
        next
          case (Inr fid)
          then show ?thesis using Cons l by fastforce
        qed
      qed simp
      from this [OF l [unfolded Inl]] have "\<exists>p sm1. source_below win h root p \<and> fst (load (io.truncate h) sm1 (as_view p)) \<in> range Inl"
        using w(2) by auto
      moreover have "discover_sources n win h dir sm bag = Some (Inl Fatal, sm', bag')"
        using w(1) assms(1) 3 l Inl by (auto simp: discover_sources_def)
      ultimately show thesis using load_sources_reports [OF l] Inl by (intro failed) simp_all
    next
      case (Inr ids)
      have "bag' = bag" using load_sources_reports [OF l] Inr by simp
      then have "discover_sources n win h dir sm bag = Some (Inr \<lparr>ds_root = as_view root, ds_files = ids\<rparr>, sm', bag)"
        using w(1) assms(1) 3 l Inr by (auto simp: discover_sources_def)
      then show thesis
        using w(2) 3(2) load_sources_names [OF assms(3) l [unfolded Inr]] set_empty [of ?ps]
        by (intro found [of _ sm' ?ps]) (auto simp: file_count_def simp del: set_empty)
    qed
  qed
qed

definition discovered_ok :: "bool \<Rightarrow> 'h host \<Rightarrow> path \<Rightarrow> source_manager \<Rightarrow> discovered_sources \<Rightarrow> bool" where
  "discovered_ok win h root sm d \<longleftrightarrow> ds_root d = as_view root \<and>
     (\<exists>paths. paths \<noteq> [] \<and> set paths = {p. source_below win h root p} \<and> sorted (map as_view paths) \<and>
        (file_count sm < 2 ^ 32 - 1 \<longrightarrow> map (name_of sm) (ds_files d) = map as_view paths))"

definition undiscoverable :: "bool \<Rightarrow> 'h host \<Rightarrow> path \<Rightarrow> bool" where
  "undiscoverable win h root \<longleftrightarrow> dir_entries win h root = None \<or> (\<nexists>p. source_below win h root p) \<or>
     (\<exists>p sm e. source_below win h root p \<and> fst (load (io.truncate h) sm (as_view p)) = Inl e)"


subsection \<open>A sample tree\<close>

text \<open>
  A package directory with two sources, a text file, a nested package and a link to itself.
\<close>

definition sample_host :: "string host" where
  "sample_host = \<lparr>
     io_open = (\<lambda>p. if p \<in> {''p/src/b.al'', ''p/src/a.al'', ''p/dep/alcy.toml'', ''p/dep/x.al''} then Some p else None),
     io_size = (\<lambda>_. 1), io_map = (\<lambda>p n. Some ''x''),
     host_names = (\<lambda>p. if p = ''p'' then Some [''.'', ''..'', ''src'', ''dep'', ''loop'']
        else if p = ''p/src'' then Some [''b.al'', ''note.txt'', ''a.al''] else None),
     host_kind = (\<lambda>p. if p \<in> {''p/src'', ''p/dep''} then Some KindDirectory
        else if p = ''p/loop'' then Some KindOther else Some KindRegular),
     host_find = (\<lambda>p. None)\<rparr>"

lemma sample_shallow: "shallow 3 False sample_host (Path ''p'')"
  by code_simp


lemma sample_discovered:
  "map_option (\<lambda>(r, sm, bag). (case r of Inl e \<Rightarrow> [] | Inr d \<Rightarrow> map (name_of sm) (ds_files d)))
     (discover_sources 3 False sample_host ''p'' [] empty_bag) = Some [''p/src/a.al'', ''p/src/b.al'']"
  by code_simp

end
