(* ===== verification/Driver.thy ===== *)
theory Driver
  imports Pipeline Checker_Cycles
begin

text \<open>
  The command line driver (\<^verbatim>\<open>src/app\<close>): parsing outcomes, the subcommands \<open>build\<close>, \<open>check\<close>
  and \<open>new\<close>, and their exit codes. The argument parser, its formatters and the terminal are a
  library: what they answer are parameters. The lines given to the logger are returned in
  order. \<open>None\<close> is an \<^verbatim>\<open>UNREACHABLE\<close> that is reached, or fuel that runs out.
\<close>

subsection \<open>Result codes and configuration\<close>

datatype result_code = Success | ArgParseError | NotImplemented | BuildFailed | CheckFailed

fun code_number :: "result_code \<Rightarrow> nat" where
  "code_number Success = 0"
| "code_number ArgParseError = 1"
| "code_number NotImplemented = 2"
| "code_number BuildFailed = 3"
| "code_number CheckFailed = 4"

datatype subcommand = NoCommand | Build | Test | Run | New | Check

datatype color_mode = ColorAuto | ColorAlways | ColorNever | ColorUnknown

record driver_config =
  cfg_time_trace :: bool
  cfg_color_mode :: color_mode
  cfg_subcommand :: subcommand
  cfg_release :: bool
  cfg_target_dir :: string

definition default_config :: driver_config where
  "default_config = \<lparr>cfg_time_trace = False, cfg_color_mode = ColorAuto, cfg_subcommand = NoCommand,
     cfg_release = False, cfg_target_dir = []\<rparr>"

text \<open>The converter of the \<^verbatim>\<open>--color\<close> argument.\<close>

definition color_from_string :: "string \<Rightarrow> color_mode option" where
  "color_from_string v =
     (if v = ''auto'' then Some ColorAuto else if v = ''always'' then Some ColorAlways
      else if v = ''never'' then Some ColorNever else None)"

subsection \<open>Command line parsing\<close>

text \<open>What the argument library answers about a parsed command line.\<close>

record arg_matches =
  am_flag :: "string \<Rightarrow> bool option"
  am_text :: "string \<Rightarrow> string option"
  am_selected :: string
  am_positionals :: "string list"

datatype 'e parse_result = ParseSuccess arg_matches | ParseErrors "'e list" | ParseHelp | ParseVersion

datatype 'e parse_outcome =
  Config driver_config | HelpRequested | VersionRequested | NoSubcommand | UnknownSubcommand string
  | ParseFailure "'e list"

fun unwrap_or :: "'a option \<Rightarrow> 'a \<Rightarrow> 'a" where
  "unwrap_or (Some x) d = x"
| "unwrap_or None d = d"

definition extract_from_matches :: "arg_matches \<Rightarrow> driver_config" where
  "extract_from_matches m =
     (let selected = am_selected m in
      \<lparr>cfg_time_trace = unwrap_or (am_flag m ''time-trace'') (cfg_time_trace default_config),
       cfg_color_mode = unwrap_or (Option.bind (am_text m ''color'') color_from_string) (cfg_color_mode default_config),
       cfg_subcommand =
         (if selected = ''build'' then Build else if selected = ''test'' then Test
          else if selected = ''run'' then Run else if selected = ''new'' then New
          else if selected = ''check'' then Check else NoCommand),
       cfg_release = unwrap_or (am_flag m ''release'') False,
       cfg_target_dir = (case am_positionals m of [] \<Rightarrow> [] | p # ps \<Rightarrow> p)\<rparr>)"

definition to_outcome :: "'e parse_result \<Rightarrow> 'e parse_outcome" where
  "to_outcome r =
     (case r of
        ParseSuccess m \<Rightarrow>
          (let c = extract_from_matches m in
           if cfg_subcommand c = NoCommand then
             (if cfg_target_dir c \<noteq> [] then UnknownSubcommand (cfg_target_dir c) else NoSubcommand)
           else Config c)
      | ParseErrors es \<Rightarrow> ParseFailure es
      | ParseHelp \<Rightarrow> HelpRequested
      | ParseVersion \<Rightarrow> VersionRequested)"

text \<open>The arguments behind the program name; a null argument is \<open>None\<close>.\<close>

fun scan_colors :: "(string \<Rightarrow> color_mode) \<Rightarrow> string option list \<Rightarrow> color_mode \<Rightarrow> color_mode" where
  "scan_colors str [] mode = mode"
| "scan_colors str (None # as) mode = scan_colors str as mode"
| "scan_colors str [Some a] mode =
     (if a = ''--color'' then mode
      else if take 8 a = ''--color='' then
        (if str (drop 8 a) \<noteq> ColorUnknown then str (drop 8 a) else mode)
      else mode)"
| "scan_colors str (Some a # None # as) mode =
     (if a \<noteq> ''--color'' \<and> take 8 a = ''--color='' \<and> str (drop 8 a) \<noteq> ColorUnknown
      then scan_colors str as (str (drop 8 a)) else scan_colors str as mode)"
| "scan_colors str (Some a # Some v # as) mode =
     (if a = ''--color'' then scan_colors str as (if str v \<noteq> ColorUnknown then str v else mode)
      else if take 8 a = ''--color='' then
        scan_colors str (Some v # as) (if str (drop 8 a) \<noteq> ColorUnknown then str (drop 8 a) else mode)
      else scan_colors str (Some v # as) mode)"

definition scan_color_mode :: "(string \<Rightarrow> color_mode) \<Rightarrow> string option list option \<Rightarrow> color_mode" where
  "scan_color_mode str argv = (case argv of None \<Rightarrow> ColorAuto | Some args \<Rightarrow> scan_colors str (tl args) ColorAuto)"

text \<open>The formatters of the argument library, for a given style.\<close>

record 'e formatters =
  fm_name :: string
  fm_help :: string
  fm_version :: string
  fm_errors :: "'e list \<Rightarrow> string"

definition render_outcome :: "'e formatters \<Rightarrow> 'e parse_outcome \<Rightarrow> string" where
  "render_outcome f r =
     (case r of
        Config c \<Rightarrow> []
      | HelpRequested \<Rightarrow> fm_help f
      | NoSubcommand \<Rightarrow> fm_help f
      | VersionRequested \<Rightarrow> fm_version f
      | UnknownSubcommand name \<Rightarrow>
          Module_Resolve.quoted ''unknown subcommand '' name (''; see '' @ [CHR 0x27] @ fm_name f @ '' --help'' @ [CHR 0x27])
      | ParseFailure es \<Rightarrow> fm_errors f es)"

definition interruption_exit_code :: "'e parse_outcome \<Rightarrow> result_code option" where
  "interruption_exit_code r =
     (case r of
        Config c \<Rightarrow> None
      | HelpRequested \<Rightarrow> Some Success
      | VersionRequested \<Rightarrow> Some Success
      | NoSubcommand \<Rightarrow> Some Success
      | _ \<Rightarrow> Some ArgParseError)"

subsection \<open>The context of a run\<close>

definition kDriverNoManifest :: u32 where "kDriverNoManifest = 3000"
definition kDriverIoError :: u32 where "kDriverIoError = 3001"
definition kDriverNotImplemented :: u32 where "kDriverNotImplemented = 3002"
definition kDriverNoTargets :: u32 where "kDriverNoTargets = 3003"

record driver_context =
  dc_sources :: source_manager
  dc_bag :: diag_bag

definition new_context :: driver_context where
  "new_context = \<lparr>dc_sources = [], dc_bag = empty_bag\<rparr>"

definition driver_error :: "severity \<Rightarrow> u32 \<Rightarrow> string \<Rightarrow> driver_context \<Rightarrow> driver_context" where
  "driver_error sev code message c = c\<lparr>dc_bag := emit sev code message (dc_bag c)\<rparr>"

definition report :: "driver_context \<Rightarrow> string list" where
  "report c = map (render (\<lambda>s t. t) False (Some (fetch_source (dc_sources c)))) (entries (dc_bag c))"

text \<open>A run: its result code, its final context and what it logged.\<close>

type_synonym command_run = "result_code \<times> driver_context \<times> string list"

definition fail_run :: "result_code \<Rightarrow> driver_context \<Rightarrow> command_run" where
  "fail_run code c = (code, c, report c)"

text \<open>The parts of the machine and of the libraries that a run depends on.\<close>

record 'h machine =
  mc_win :: bool
  mc_host :: "'h host"
  mc_toml :: toml_parser
  mc_pool :: "string \<Rightarrow> name_id"
  mc_fuel :: nat

definition load_file :: "'h machine \<Rightarrow> string \<Rightarrow> driver_context \<Rightarrow> (source_error + file_id) \<times> driver_context" where
  "load_file mc p c = (case load (io.truncate (mc_host mc)) (dc_sources c) p of (r, sm) \<Rightarrow> (r, c\<lparr>dc_sources := sm\<rparr>))"

definition discover :: "'h machine \<Rightarrow> path \<Rightarrow> driver_context \<Rightarrow> (discovered_sources fallible \<times> driver_context) option" where
  "discover mc root c =
     (case discover_sources (mc_fuel mc) (mc_win mc) (mc_host mc) (as_view root) (dc_sources c) (dc_bag c) of
        None \<Rightarrow> None
      | Some (r, sm, bag) \<Rightarrow> Some (r, \<lparr>dc_sources = sm, dc_bag = bag\<rparr>))"

definition target_of :: "driver_config \<Rightarrow> string" where
  "target_of cfg = (if cfg_target_dir cfg = [] then ''.'' else cfg_target_dir cfg)"

subsection \<open>Building\<close>

definition build_packages :: "'h machine \<Rightarrow> path \<Rightarrow> driver_context \<Rightarrow> command_run option" where
  "build_packages mc root c =
     (case resolve_package (mc_fuel mc) (io.truncate (mc_host mc)) (mc_toml mc) (mc_win mc) (as_view root) (dc_sources c) (dc_bag c) of
        None \<Rightarrow> None
      | Some (Inl e, sm, bag) \<Rightarrow> Some (fail_run BuildFailed \<lparr>dc_sources = sm, dc_bag = bag\<rparr>)
      | Some (Inr ps, sm, bag) \<Rightarrow>
          (case compile_project (mc_fuel mc) (mc_win mc) (mc_host mc) ps sm bag of
             None \<Rightarrow> None
           | Some (built, sm, bag) \<Rightarrow>
               (let c = \<lparr>dc_sources = sm, dc_bag = bag\<rparr> in
                Some (case built of
                  Inl e \<Rightarrow> fail_run BuildFailed c
                | Inr b \<Rightarrow>
                    if has_errors bag then fail_run BuildFailed c
                    else (Success, c, report c @ [''built '' @ dec32 (pb_files_loaded b) @ '' file(s) from '' @
                      dec32 (pb_packages b) @ '' package(s)''])))))"

definition build_directory :: "'h machine \<Rightarrow> path \<Rightarrow> string \<Rightarrow> driver_context \<Rightarrow> command_run option" where
  "build_directory mc root raw_dir c =
     (let c = driver_error SevWarning kDriverNoManifest
        (Module_Resolve.quoted ''no manifest found at '' raw_dir ''; building directory directly'') c in
      case discover mc root c of
        None \<Rightarrow> None
      | Some (discovered, c) \<Rightarrow>
          Some (case discovered of
            Inl e \<Rightarrow> fail_run BuildFailed c
          | Inr d \<Rightarrow>
              if has_errors (dc_bag c) then fail_run BuildFailed c
              else (Success, c, report c @ [''built '' @ dec (length (ds_files d)) @ '' file(s)''])))"

definition run_build :: "'h machine \<Rightarrow> driver_config \<Rightarrow> command_run option" where
  "run_build mc cfg =
     (let c = new_context; raw_dir = target_of cfg in
      case from_native (mc_win mc) raw_dir of
        Inl e \<Rightarrow> Some (fail_run BuildFailed
          (driver_error SevError kDriverIoError (Module_Resolve.quoted ''invalid target directory '' raw_dir []) c))
      | Inr root \<Rightarrow>
          (case load_file mc (as_view (join (mc_win mc) root kManifestFileName)) c of
             (Inr fid, c) \<Rightarrow> build_packages mc root c
           | (Inl e, c) \<Rightarrow> build_directory mc root raw_dir c))"

subsection \<open>Checking\<close>

definition kCheckWidth :: pointer_width where "kCheckWidth = W64"

definition finish_check :: "'h machine \<Rightarrow> driver_context \<Rightarrow> module_tree \<Rightarrow> nat \<Rightarrow> command_run option" where
  "finish_check mc c tree count =
     (case check_package (mc_fuel mc) (mc_pool mc) tree kCheckWidth (dc_bag c) of
        None \<Rightarrow> None
      | Some (checked, bag) \<Rightarrow>
          (let c = c\<lparr>dc_bag := bag\<rparr> in
           Some (if has_errors bag then fail_run CheckFailed c
             else (Success, c, report c @ [''checked '' @ dec count @ '' file(s), '' @
               dec (length (cp_modules checked)) @ '' module(s)'']))))"

text \<open>Module resolution and what follows it, in both modes.\<close>

definition check_modules ::
  "'h machine \<Rightarrow> file_id \<Rightarrow> file_id list \<Rightarrow> string \<Rightarrow> driver_context \<Rightarrow> command_run option" where
  "check_modules mc root files package c =
     (case resolve_modules (mc_win mc) (dc_sources c) root files package (dc_bag c) of
        Some (Inr (tree, bag)) \<Rightarrow>
          (let c = c\<lparr>dc_bag := bag\<rparr> in
           if has_errors bag then Some (fail_run CheckFailed c)
           else finish_check mc c tree (length files))
      | _ \<Rightarrow> None)"

definition find_file :: "source_manager \<Rightarrow> string \<Rightarrow> file_id list \<Rightarrow> file_id" where
  "find_file sm name ids = (case find (\<lambda>i. name_of sm i = name) ids of None \<Rightarrow> kUnknownFile | Some i \<Rightarrow> i)"

definition check_manifest :: "'h machine \<Rightarrow> path \<Rightarrow> file_id \<Rightarrow> string \<Rightarrow> driver_context \<Rightarrow> command_run option" where
  "check_manifest mc root manifest_file manifest_name c =
     (case parse_manifest (mc_toml mc) (bytes_of (dc_sources c) manifest_file) manifest_name manifest_file (dc_bag c) of
        (Inl e, bag) \<Rightarrow> Some (fail_run CheckFailed (c\<lparr>dc_bag := bag\<rparr>))
      | (Inr m, bag) \<Rightarrow>
          (let c = c\<lparr>dc_bag := bag\<rparr> in
           if length (pkg_bins m) = 0 then
             Some (fail_run CheckFailed (driver_error SevError kDriverNoTargets
               (Module_Resolve.quoted ''manifest '' manifest_name '' declares no [[bin]] targets'') c))
           else if length (pkg_bins m) > 1 then
             Some (fail_run CheckFailed (driver_error SevError kDriverNoTargets
               (Module_Resolve.quoted ''manifest '' manifest_name ('' declares '' @ dec (length (pkg_bins m)) @
                 '' [[bin]] targets; only one is supported'')) c))
           else
             (case discover mc root c of
                None \<Rightarrow> None
              | Some (Inl e, c) \<Rightarrow> Some (fail_run CheckFailed c)
              | Some (Inr discovered, c) \<Rightarrow>
                  (let wanted = bin_path (hd (pkg_bins m));
                       bin_file = find_file (dc_sources c) (as_view (join (mc_win mc) root wanted)) (ds_files discovered) in
                   if bin_file = kUnknownFile then
                     Some (fail_run CheckFailed (driver_error SevError kDriverNoTargets
                       (Module_Resolve.quoted ''bin target '' wanted '' was not discovered'') c))
                   else check_modules mc bin_file (ds_files discovered) (pkg_name m) c))))"

definition check_single_file :: "'h machine \<Rightarrow> path \<Rightarrow> string \<Rightarrow> driver_context \<Rightarrow> command_run option" where
  "check_single_file mc target_path raw_target c =
     (if length raw_target < 4 \<or> drop (length raw_target - 3) raw_target \<noteq> ''.al'' then
        Some (fail_run CheckFailed (driver_error SevError kDriverNoManifest
          (Module_Resolve.quoted ''no manifest found at '' raw_target ''; check a file or add alcy.toml'') c))
      else
        (case load_file mc (as_view target_path) c of
           (Inl e, c) \<Rightarrow> Some (fail_run CheckFailed (driver_error SevError kDriverIoError
             (Module_Resolve.quoted ''cannot read '' raw_target []) c))
         | (Inr root, c) \<Rightarrow> check_modules mc root [root] [] c))"

definition run_check :: "'h machine \<Rightarrow> driver_config \<Rightarrow> command_run option" where
  "run_check mc cfg =
     (let c = new_context; raw_target = target_of cfg in
      case from_native (mc_win mc) raw_target of
        Inl e \<Rightarrow> Some (fail_run CheckFailed
          (driver_error SevError kDriverIoError (Module_Resolve.quoted ''invalid target '' raw_target []) c))
      | Inr target_path \<Rightarrow>
          (let manifest_path = as_view (join (mc_win mc) target_path kManifestFileName) in
           case load_file mc manifest_path c of
             (Inr fid, c) \<Rightarrow> check_manifest mc target_path fid manifest_path c
           | (Inl e, c) \<Rightarrow> check_single_file mc target_path raw_target c))"

subsection \<open>New packages\<close>

text \<open>Making a directory, and the number of bytes written to a file that could be opened.\<close>

record 's disk_ops =
  dk_mkdir :: "string \<Rightarrow> 's \<Rightarrow> 's"
  dk_write :: "string \<Rightarrow> string \<Rightarrow> 's \<Rightarrow> nat option \<times> 's"

fun make_dirs :: "(string \<Rightarrow> 's \<Rightarrow> 's) \<Rightarrow> string \<Rightarrow> string \<Rightarrow> 's \<Rightarrow> 's" where
  "make_dirs mkdir current [] s = (if current \<noteq> [] then mkdir current s else s)"
| "make_dirs mkdir current (c # cs) s =
     make_dirs mkdir (current @ [c]) cs
       (if c = kDefaultPathSeparator \<and> current \<noteq> [] then mkdir current s else s)"

definition write_text_file :: "'s disk_ops \<Rightarrow> string \<Rightarrow> string \<Rightarrow> 's \<Rightarrow> bool \<times> 's" where
  "write_text_file dk p content s =
     (case dk_write dk p content s of (None, s) \<Rightarrow> (False, s) | (Some written, s) \<Rightarrow> (written = length content, s))"

definition is_name_char :: "char \<Rightarrow> bool" where
  "is_name_char c \<longleftrightarrow> (CHR ''a'' \<le> c \<and> c \<le> CHR ''z'') \<or> (CHR ''A'' \<le> c \<and> c \<le> CHR ''Z'') \<or>
     (CHR ''0'' \<le> c \<and> c \<le> CHR ''9'') \<or> c = CHR ''_'' \<or> c = CHR ''-''"

definition valid_package_name :: "string \<Rightarrow> bool" where
  "valid_package_name name \<longleftrightarrow> name \<noteq> [] \<and> list_all is_name_char name"

definition manifest_text :: "string \<Rightarrow> string" where
  "manifest_text name = ''[package]'' @ [newline] @ ''name = '' @ [CHR 0x22] @ name @ [CHR 0x22, newline] @
     ''version = '' @ [CHR 0x22] @ ''0.1.0'' @ [CHR 0x22, newline, newline] @ ''[[bin]]'' @ [newline] @
     ''path = '' @ [CHR 0x22] @ ''src/main.al'' @ [CHR 0x22, newline]"

definition kMainText :: string where
  "kMainText = ''// Write your code here.'' @ [newline]"

definition run_new :: "bool \<Rightarrow> 's disk_ops \<Rightarrow> string \<Rightarrow> 's \<Rightarrow> command_run \<times> 's" where
  "run_new win dk target_dir s =
     (if \<not> valid_package_name target_dir then
        ((ArgParseError, new_context,
          [Module_Resolve.quoted ''invalid package name '' target_dir ''; use [A-Za-z0-9_-] only'']), s)
      else
        (case from_native win target_dir of
           Inl e \<Rightarrow> (fail_run BuildFailed (driver_error SevError kDriverIoError
             (Module_Resolve.quoted ''cannot create package '' target_dir []) new_context), s)
         | Inr package_dir \<Rightarrow>
             (let src_dir = join win package_dir ''src'';
                  s = make_dirs (dk_mkdir dk) [] (as_view src_dir) s;
                  (ok1, s) = write_text_file dk (as_view (join win package_dir kManifestFileName))
                    (manifest_text (as_view package_dir)) s;
                  (ok2, s) = (if ok1 then write_text_file dk (as_view (join win src_dir ''main.al'')) kMainText s
                              else (False, s)) in
              if \<not> ok1 \<or> \<not> ok2 then
                (fail_run BuildFailed (driver_error SevError kDriverIoError
                   (Module_Resolve.quoted ''cannot create package '' (as_view package_dir) []) new_context), s)
              else ((Success, new_context, [Module_Resolve.quoted ''created package '' (as_view package_dir) []]), s))))"

subsection \<open>The driver\<close>

definition not_implemented :: "string \<Rightarrow> command_run" where
  "not_implemented name = fail_run NotImplemented (driver_error SevError kDriverNotImplemented
     (Module_Resolve.quoted [] (''alcy '' @ name) '' is not implemented yet'') new_context)"

definition dispatch :: "'h machine \<Rightarrow> 's disk_ops \<Rightarrow> driver_config \<Rightarrow> 's \<Rightarrow> (command_run \<times> 's) option" where
  "dispatch mc dk cfg s =
     (case cfg_subcommand cfg of
        Build \<Rightarrow> map_option (\<lambda>r. (r, s)) (run_build mc cfg)
      | New \<Rightarrow> Some (run_new (mc_win mc) dk (cfg_target_dir cfg) s)
      | Test \<Rightarrow> Some (not_implemented ''test'', s)
      | Run \<Rightarrow> Some (not_implemented ''run'', s)
      | Check \<Rightarrow> map_option (\<lambda>r. (r, s)) (run_check mc cfg)
      | NoCommand \<Rightarrow> None)"

definition run_interruption :: "'e formatters \<Rightarrow> 'e parse_outcome \<Rightarrow> result_code \<Rightarrow> command_run" where
  "run_interruption f r code =
     (let text = render_outcome f r in (code, new_context, if text \<noteq> [] then [text] else []))"

definition driver_main ::
  "(color_mode \<Rightarrow> 'e formatters) \<Rightarrow> (string \<Rightarrow> color_mode) \<Rightarrow> 'h machine \<Rightarrow> 's disk_ops \<Rightarrow> 'e parse_result \<Rightarrow>
     string option list option \<Rightarrow> 's \<Rightarrow> (command_run \<times> 's) option" where
  "driver_main formats str mc dk parsed argv s =
     (let r = to_outcome parsed in
      case interruption_exit_code r of
        Some code \<Rightarrow> Some (run_interruption (formats (scan_color_mode str argv)) r code, s)
      | None \<Rightarrow> (case r of Config cfg \<Rightarrow> dispatch mc dk cfg s | _ \<Rightarrow> None))"

end
