(* ===== verification/Driver_Spec.thy ===== *)
theory Driver_Spec
  imports Driver
begin

text \<open>
  What the driver promises: a run fails exactly when an error was reported, what is printed is
  the bag, and \<open>new\<close> makes exactly the directories and files of a package.
\<close>

subsection \<open>Reports of the stages\<close>

lemma discover_sources_bag:
  "discover_sources n win h dir sm bag = Some (r, sm', bag') \<Longrightarrow> (case r of Inl e \<Rightarrow> new_error bag bag' | Inr d \<Rightarrow> bag' = bag)"
  using load_sources_reports
  by (fastforce simp: discover_sources_def split: sum.splits option.splits if_splits prod.splits bool.splits)

lemma compile_packages_bag:
  "compile_packages n win h ps b sm bag = Some (r, sm', bag') \<Longrightarrow>
     (case r of Inl e \<Rightarrow> new_error bag bag'
      | Inr built \<Rightarrow> bag' = bag \<and> pb_packages built = pb_packages b + of_nat (length ps))"
proof (induction ps arbitrary: b sm)
  case (Cons p ps)
  then obtain r1 sm1 bag1 where d: "discover_sources n win h (as_view (res_dir p)) sm bag = Some (r1, sm1, bag1)"
    by (auto split: option.splits)
  show ?case
  proof (cases r1)
    case (Inl e)
    then show ?thesis using Cons.prems d discover_sources_bag [OF d] by (auto split: fatal.splits)
  next
    case (Inr f)
    then have "bag1 = bag" using discover_sources_bag [OF d] by simp
    then show ?thesis using Cons.prems d Inr Cons.IH by (auto split: sum.splits)
  qed
qed auto

lemma resolve_package_bag:
  "resolve_package n fs tp win dir sm bag = Some (r, sm', bag') \<Longrightarrow> (case r of Inl e \<Rightarrow> new_error bag bag' | Inr ps \<Rightarrow> bag' = bag)"
  by (auto simp: resolve_package_def reports_def new_error_def split: sum.splits option.splits dest!: resolve_into_reports)

subsection \<open>Verdicts\<close>

text \<open>The bag holds an error: counted, or listed.\<close>

definition failing :: "driver_context \<Rightarrow> bool" where
  "failing c \<longleftrightarrow> has_errors (dc_bag c) \<or> (\<exists>d \<in> set (entries (dc_bag c)). is_error d)"

definition verdict :: "result_code \<Rightarrow> command_run \<Rightarrow> bool" where
  "verdict bad r \<longleftrightarrow> (case r of (code, c, log) \<Rightarrow>
     (code = Success \<and> \<not> has_errors (dc_bag c) \<and> (\<exists>line. log = report c @ [line])) \<or>
     (code = bad \<and> failing c \<and> log = report c))"

lemma verdict_fail: "failing c \<Longrightarrow> verdict bad (fail_run bad c)"
  by (simp add: verdict_def fail_run_def)

lemma failing_new_error: "new_error bag (dc_bag c) \<Longrightarrow> failing c"
  by (auto simp: new_error_def failing_def)

lemma failing_error: "failing (driver_error SevError code msg c)"
  by (rule failing_new_error [of "dc_bag c"]) (simp add: driver_error_def)

lemma failing_counted: "has_errors (dc_bag c) \<Longrightarrow> failing c"
  by (simp add: failing_def)

lemma failing_intros [intro]:
  "has_errors bag \<Longrightarrow> failing (c\<lparr>dc_bag := bag\<rparr>)" "has_errors bag \<Longrightarrow> failing \<lparr>dc_sources = sm, dc_bag = bag\<rparr>"
  by (simp_all add: failing_def)

lemma verdict_success: "\<not> has_errors (dc_bag c) \<Longrightarrow> verdict bad (Success, c, report c @ [line])"
  by (simp add: verdict_def)

lemma discover_failing:
  "discover mc root c = Some (Inl e, c') \<Longrightarrow> failing c'"
  using discover_sources_bag by (fastforce simp: discover_def intro: failing_new_error split: option.splits)

lemma resolve_failing:
  "resolve_package n fs tp win dir sm bag = Some (Inl e, sm', bag') \<Longrightarrow> failing \<lparr>dc_sources = sm', dc_bag = bag'\<rparr>"
  using resolve_package_bag [of n fs tp win dir sm bag "Inl e" sm' bag'] by (intro failing_new_error [of bag]) simp

lemma compile_failing:
  "compile_project n win h ps sm bag = Some (Inl e, sm', bag') \<Longrightarrow> failing \<lparr>dc_sources = sm', dc_bag = bag'\<rparr>"
  using compile_packages_bag [of n win h ps "\<lparr>pb_packages = 0, pb_files_loaded = 0\<rparr>" sm bag "Inl e" sm' bag']
  by (intro failing_new_error [of bag]) (simp add: compile_project_def)

lemma manifest_failing:
  "parse_manifest tp bytes f fid (dc_bag c) = (Inl e, bag') \<Longrightarrow> failing (c\<lparr>dc_bag := bag'\<rparr>)"
  using parse_manifest_bag(2) [of tp bytes f fid "dc_bag c" e bag']
  by (intro failing_new_error [of "dc_bag c"]) (simp add: new_error_def)

lemma build_packages_verdict: "build_packages mc root c = Some r \<Longrightarrow> verdict BuildFailed r"
  by (auto simp: build_packages_def Let_def intro!: verdict_fail verdict_success split: option.splits sum.splits if_splits)
    (erule resolve_failing compile_failing failing_intros)+

lemma build_directory_verdict: "build_directory mc root raw c = Some r \<Longrightarrow> verdict BuildFailed r"
  by (auto simp: build_directory_def Let_def intro!: verdict_fail verdict_success intro: failing_counted discover_failing
      split: option.splits sum.splits if_splits)

lemma finish_check_verdict: "finish_check mc c tree k = Some r \<Longrightarrow> verdict CheckFailed r"
  by (auto simp: finish_check_def Let_def verdict_fail verdict_success failing_intros split: option.splits if_splits)

lemma check_modules_verdict: "check_modules mc root fs pkg c = Some r \<Longrightarrow> verdict CheckFailed r"
  by (auto simp: check_modules_def Let_def verdict_fail failing_intros
      intro: finish_check_verdict split: option.splits sum.splits if_splits)

lemma check_manifest_verdict: "check_manifest mc root f name c = Some r \<Longrightarrow> verdict CheckFailed r"
  by (auto simp: check_manifest_def Let_def intro!: verdict_fail failing_error
      intro: manifest_failing discover_failing check_modules_verdict split: option.splits sum.splits prod.splits if_splits)

lemma check_single_file_verdict: "check_single_file mc p raw c = Some r \<Longrightarrow> verdict CheckFailed r"
  by (auto simp: check_single_file_def intro!: verdict_fail failing_error
      intro: check_modules_verdict split: sum.splits prod.splits if_splits)


subsection \<open>New packages\<close>

lemma name_char_plain:
  "is_name_char c \<Longrightarrow> c \<noteq> CHR ''/'' \<and> c \<noteq> CHR ''.'' \<and> c \<noteq> CHR 0x00 \<and> c \<noteq> kWindowsPathSeparator"
  by (auto simp: is_name_char_def kWindowsPathSeparator_def less_eq_char_def)

lemma package_name_valid:
  assumes "valid_package_name name"
  shows "valid_name name" and "kWindowsPathSeparator \<notin> set name" and "CHR 0x00 \<notin> set name" and "CHR ''/'' \<notin> set name"
  using assms name_char_plain by (auto simp: valid_package_name_def valid_name_def list_all_iff dest: name_char_plain)

lemma canonical_names:
  assumes "canonical p" and "canon_of (as_view p) = Canon False 0 ns"
  shows "as_view p = show_canon (Canon False 0 ns)"
  using assms by (metis canonical_def normalize_eq)

lemma show_names [simp]:
  "show_canon (Canon False 0 [a]) = a" "show_canon (Canon False 0 [a, b]) = a @ CHR ''/'' # b"
  "show_canon (Canon False 0 [a, b, c]) = a @ CHR ''/'' # b @ CHR ''/'' # c"
  if "a \<noteq> []"
  using that by (simp_all add: show_canon_def show_body_def canon_parts_def)

lemma native_name:
  assumes "valid_package_name name"
  shows "from_native win name = Inr (Path name)" and "canonical (Path name)" and "canon_of name = Canon False 0 [name]"
proof -
  note v = package_name_valid [OF assms]
  have wf: "wf_canon (Canon False 0 [name])" using v(1) by (simp add: wf_canon_def)
  have ne: "name \<noteq> []" using v(1) by (simp add: valid_name_def)
  show c: "canon_of name = Canon False 0 [name]" using canon_show [OF wf] ne by simp
  then have n: "normalize_canonical name = name" using ne by (simp add: normalize_eq)
  then show "canonical (Path name)" by (simp add: canonical_def)
  have "(if win then fold_separators name else name) = name"
    using v(2) by (auto simp: fold_separators_def intro!: map_idI)
  then show "from_native win name = Inr (Path name)" using v(3) n by (simp add: from_native_def)
qed

lemma make_dirs_name: "kDefaultPathSeparator \<notin> set b \<Longrightarrow> make_dirs mk cur b s = (if cur @ b \<noteq> [] then mk (cur @ b) s else s)"
  by (induction b arbitrary: cur) auto

lemma make_dirs_two:
  "kDefaultPathSeparator \<notin> set a \<Longrightarrow> cur @ a \<noteq> [] \<Longrightarrow>
     make_dirs mk cur (a @ kDefaultPathSeparator # b) s = make_dirs mk (cur @ a @ [kDefaultPathSeparator]) b (mk (cur @ a) s)"
  by (induction a arbitrary: cur) auto

definition created_package :: "'s disk_ops \<Rightarrow> string \<Rightarrow> 's \<Rightarrow> command_run \<times> 's" where
  "created_package dk name s =
     (let s1 = dk_mkdir dk (name @ ''/src'') (dk_mkdir dk name s);
          (w1, s2) = dk_write dk (name @ ''/alcy.toml'') (manifest_text name) s1;
          (w2, s3) = dk_write dk (name @ ''/src/main.al'') kMainText s2;
          failed = fail_run BuildFailed (driver_error SevError kDriverIoError
            (Module_Resolve.quoted ''cannot create package '' name []) new_context)
      in if w1 \<noteq> Some (length (manifest_text name)) then (failed, s2)
         else if w2 \<noteq> Some (length kMainText) then (failed, s3)
         else ((Success, new_context, [Module_Resolve.quoted ''created package '' name []]), s3))"

text \<open>
  C32. For a valid name, \<^verbatim>\<open>alcy new\<close> makes the directory and its \<^verbatim>\<open>src\<close> in this order, then
  writes the manifest and then the main file, under exactly those paths, stops at the first
  write that is not complete, and reports success only when both are.
\<close>

theorem run_new_creates:
  assumes "valid_package_name name"
  shows "run_new win dk name s = created_package dk name s"
proof -
  note v = package_name_valid [OF assms] and n = native_name [OF assms]
  have ne: "name \<noteq> []" using v(1) by (simp add: valid_name_def)
  have simple: "valid_name ''src'' \<and> kWindowsPathSeparator \<notin> set ''src''"
      "valid_name ''alcy.toml'' \<and> kWindowsPathSeparator \<notin> set ''alcy.toml''"
      "valid_name ''main.al'' \<and> kWindowsPathSeparator \<notin> set ''main.al''"
    by code_simp+
  have joined: "as_view (join win (Path name) m) = name @ CHR ''/'' # m" "canonical (join win (Path name) m)"
      "canon_of (as_view (join win (Path name) m)) = Canon False 0 [name, m]"
    if "valid_name m \<and> kWindowsPathSeparator \<notin> set m" for m
  proof -
    show c: "canonical (join win (Path name) m)" by (rule canonical_join)
    show o: "canon_of (as_view (join win (Path name) m)) = Canon False 0 [name, m]"
      using canon_of_join_name [OF n(2)] that n(3) by simp
    show "as_view (join win (Path name) m) = name @ CHR ''/'' # m"
      using canonical_names [OF c o] ne by simp
  qed
  have main: "as_view (join win (join win (Path name) ''src'') ''main.al'') = name @ ''/src/main.al''"
  proof -
    have "canon_of (as_view (join win (join win (Path name) ''src'') ''main.al'')) = Canon False 0 [name, ''src'', ''main.al'']"
      using canon_of_join_name [OF joined(2) [OF simple(1)]] simple(3) joined(3) [OF simple(1)] by simp
    from canonical_names [OF canonical_join this] show ?thesis using ne by simp
  qed
  have dirs: "make_dirs (dk_mkdir dk) [] (name @ ''/src'') s = dk_mkdir dk (name @ ''/src'') (dk_mkdir dk name s)"
    using make_dirs_two [of name "[]" "dk_mkdir dk" "''src''" s] make_dirs_name [of "''src''" "dk_mkdir dk" "name @ [CHR ''/'']"] v(4) ne
    by (simp add: kDefaultPathSeparator_def)
  have views: "as_view (join win (Path name) ''src'') = name @ ''/src''"
      "as_view (join win (Path name) kManifestFileName) = name @ ''/alcy.toml''"
    using joined(1) [OF simple(1)] joined(1) [OF simple(2)] by (simp_all add: kManifestFileName_def)
  show ?thesis
    using assms n(1)
    by (auto simp: run_new_def created_package_def write_text_file_def views main dirs Let_def
        split: prod.split option.split)
qed

subsection \<open>Sample runs\<close>

text \<open>The sample tree has no manifest: its two sources are built with a warning.\<close>

definition sample_machine :: "string machine" where
  "sample_machine = \<lparr>mc_win = False, mc_host = sample_host, mc_toml = (\<lambda>_ _. Inr []), mc_pool = length, mc_fuel = 3\<rparr>"

definition building :: "string \<Rightarrow> driver_config" where
  "building dir = default_config\<lparr>cfg_subcommand := Build, cfg_target_dir := dir\<rparr>"

text \<open>A disk that keeps a list of what was done to it.\<close>

definition kept_disk :: "string list disk_ops" where
  "kept_disk = \<lparr>dk_mkdir = (\<lambda>p s. s @ [p]), dk_write = (\<lambda>p text s. (Some (length text), s @ [p]))\<rparr>"

lemma sample_build:
  "map_option (\<lambda>((code, c, log), s). (code, map (name_of (dc_sources c)) [0, 1], last log))
     (dispatch sample_machine kept_disk (building ''p'') []) =
   Some (Success, [''p/src/a.al'', ''p/src/b.al''], ''built 2 file(s)'')"
  by code_simp


theorem run_new_creates_witness:
  "run_new False kept_disk ''demo'' [] = created_package kept_disk ''demo'' [] \<and>
   snd (created_package kept_disk ''demo'' []) = [''demo'', ''demo/src'', ''demo/alcy.toml'', ''demo/src/main.al'']"
proof
  have "valid_package_name ''demo''" by code_simp
  then show "run_new False kept_disk ''demo'' [] = created_package kept_disk ''demo'' []" by (rule run_new_creates)
  show "snd (created_package kept_disk ''demo'' []) = [''demo'', ''demo/src'', ''demo/alcy.toml'', ''demo/src/main.al'']"
    by code_simp
qed

text \<open>The command line never selects a command that the driver cannot dispatch.\<close>

lemma outcome_dispatches: "to_outcome r = Config cfg \<Longrightarrow> cfg_subcommand cfg \<noteq> NoCommand"
  by (auto simp: to_outcome_def Let_def split: parse_result.splits if_splits)

lemma driver_main_stuck:
  assumes "driver_main formats str mc dk parsed argv s = None"
  obtains cfg where "to_outcome parsed = Config cfg" "cfg_subcommand cfg = Build \<and> run_build mc cfg = None \<or>
    cfg_subcommand cfg = Check \<and> run_check mc cfg = None"
  using assms outcome_dispatches [of parsed]
  by (auto simp: driver_main_def dispatch_def interruption_exit_code_def Let_def
      split: parse_outcome.splits subcommand.splits)

end
