(* ===== verification/Codegen.thy ===== *)
theory Codegen
  imports Ir_Verifier "HOL-Library.Monad_Syntax"
begin

text \<open>
  The LLVM back end (\<^verbatim>\<open>src/codegen_llvm\<close>): one definition per case of the emitter's switches,
  over the tables of \<^verbatim>\<open>llvm_ir_storage.h\<close> and the state of the library. LLVM itself is the
  parameter record \<open>llvm\<close>: it answers every call of the builder, which is a value of the
  datatype \<open>call\<close> (or \<open>amend\<close>, for the calls that change an instruction already made). A
  pointer that may be null is an option. \<open>None\<close> of a definition is a read outside a table, a
  failed \<^verbatim>\<open>DCHECK\<close> or cast, an inactive union member, or an \<^verbatim>\<open>UNREACHABLE\<close> that is reached.
\<close>

subsection \<open>The library\<close>

datatype prim_type =
  VoidTy | Int1Ty | Int8Ty | Int16Ty | Int32Ty | Int64Ty | FloatTy | DoubleTy | PtrTy

datatype predicate =
  ICMP_EQ | ICMP_NE | ICMP_SLT | ICMP_ULT | ICMP_SLE | ICMP_ULE | ICMP_SGT | ICMP_UGT | ICMP_SGE | ICMP_UGE
  | FCMP_OEQ | FCMP_ONE | FCMP_OLT | FCMP_OLE | FCMP_OGT | FCMP_OGE
  | BAD_ICMP_PREDICATE | BAD_FCMP_PREDICATE

datatype rmw_bin_op = BinAdd | BinSub | BinAnd | BinOr | BinXor | BinXchg

text \<open>A floating point constant: the double that has the value of these bits.\<close>

datatype fp_value = OfF32 "32 word" | OfF64 "64 word"

text \<open>The methods of one shape are one constructor with the operation as its argument.\<close>

datatype binary_op =
  CreateAdd | CreateSub | CreateMul | CreateSDiv | CreateUDiv | CreateSRem | CreateURem | CreateAnd | CreateOr
  | CreateXor | CreateShl | CreateAShr | CreateLShr

datatype cast_op =
  CreateTrunc | CreateSExt | CreateZExt | CreateSIToFP | CreateUIToFP | CreateFPToSI | CreateFPToUI
  | CreateFPCast | CreateIntToPtr | CreatePtrToInt

datatype ('v, 'b, 'f, 't) call =
  CreateBinary binary_op 'v 'v | CreateNot 'v | CreateBitReverse 't 'v
  | CreateICmp predicate 'v 'v | CreateFCmp predicate 'v 'v | CreateCast cast_op 'v 't | CreateSelect 'v 'v 'v
  | CreateAlloca 't 'v | CreateLoad 't 'v | CreateStore 'v 'v | CreateGEP 't 'v "'v list"
  | CreateExtractValue 'v "u32 list" | CreateInsertValue 'v 'v "u32 list"
  | CreateAtomicRMW rmw_bin_op 'v 'v | CreateAtomicCmpXchg 'v 'v 'v | CreateFence
  | CreateBr 'b | CreateCondBr 'v 'b 'b | CreateSwitch 'v 'b | CreateCall 'f "'v list"
  | CreateRetVoid | CreateRet 'v | CreateUnreachable | CreatePHI 't

datatype ('v, 'b) amend = SetAtomic 'v | AddIncoming 'v 'v 'b | AddCase 'v 'v 'b

text \<open>
  What the library answers. \<open>'m\<close> is its state: the module and the builder with its point of
  insertion. The \<open>is\<close> fields are the dynamic casts.
\<close>

record ('m, 'v, 'b, 'f, 't) llvm =
  ll_prim :: "prim_type \<Rightarrow> 't"
  ll_struct :: "'t list \<Rightarrow> 't"
  ll_array :: "'t \<Rightarrow> u64 \<Rightarrow> 't"
  ll_int_bits :: "'t \<Rightarrow> nat"
  ll_type_of :: "'v \<Rightarrow> 't"
  ll_of_block :: "'b \<Rightarrow> 'v"
  ll_is_constant_int :: "'v \<Rightarrow> bool"
  ll_is_phi :: "'v \<Rightarrow> bool"
  ll_constant_int :: "'t \<Rightarrow> u64 \<Rightarrow> bool \<Rightarrow> 'v"
  ll_constant_fp :: "'t \<Rightarrow> fp_value \<Rightarrow> 'v"
  ll_global_string :: "string \<Rightarrow> 'm \<Rightarrow> 'v \<times> 'm"
  ll_function :: "'t \<Rightarrow> 't list \<Rightarrow> string \<Rightarrow> 'm \<Rightarrow> 'f \<times> 'm"
  ll_basic_block :: "'f \<Rightarrow> 'm \<Rightarrow> 'b \<times> 'm"
  ll_set_insert_point :: "'b \<Rightarrow> 'm \<Rightarrow> 'm"
  ll_insert_block :: "'m \<Rightarrow> 'b"
  ll_create :: "('v option, 'b option, 'f option, 't) call \<Rightarrow> 'm \<Rightarrow> 'v \<times> 'm"
  ll_amend :: "('v option, 'b option) amend \<Rightarrow> 'm \<Rightarrow> 'm"
  ll_broken_function :: "'f \<Rightarrow> 'm \<Rightarrow> bool"
  ll_broken_module :: "'m \<Rightarrow> bool"

subsection \<open>The tables (\<^verbatim>\<open>llvm_ir_storage.h\<close>)\<close>

record ('m, 'v, 'b, 'f, 't) emitter =
  em_functions :: "'f option list"
  em_registers :: "'v option list"
  em_blocks :: "'b option list"
  em_immutables :: "'v option list"
  em_externals :: "'f option list"
  em_alloca_types :: "'t option list"
  em_state :: 'm

definition new_emitter :: "storage \<Rightarrow> 'm \<Rightarrow> ('m, 'v, 'b, 'f, 't) emitter" where
  "new_emitter st m =
     \<lparr>em_functions = replicate (length (function_table st)) None,
      em_registers = replicate (length (registers st)) None,
      em_blocks = replicate (length (blocks st)) None,
      em_immutables = replicate (length (immutables st)) None,
      em_externals = replicate (length (external_functions st)) None,
      em_alloca_types = replicate (length (registers st)) None, em_state = m\<rparr>"

text \<open>An entry of a table, and writing one that is not null.\<close>

definition entry :: "'a list \<Rightarrow> nat \<Rightarrow> 'a option" where
  "entry xs i = (if i < length xs then Some (xs ! i) else None)"

definition fill :: "nat \<Rightarrow> 'a option \<Rightarrow> 'a option list \<Rightarrow> 'a option list option" where
  "fill i v xs = (if v \<noteq> None \<and> i < length xs then Some (xs[i := v]) else None)"

type_synonym ('m, 'v, 'b, 'f, 't) step = "('m, 'v, 'b, 'f, 't) emitter \<Rightarrow> ('m, 'v, 'b, 'f, 't) emitter option"

definition add_function :: "nat \<Rightarrow> 'f option \<Rightarrow> ('m, 'v, 'b, 'f, 't) step" where
  "add_function i f s = map_option (\<lambda>xs. s\<lparr>em_functions := xs\<rparr>) (fill i f (em_functions s))"

definition add_register :: "nat \<Rightarrow> 'v option \<Rightarrow> ('m, 'v, 'b, 'f, 't) step" where
  "add_register i v s = map_option (\<lambda>xs. s\<lparr>em_registers := xs\<rparr>) (fill i v (em_registers s))"

definition add_block :: "nat \<Rightarrow> 'b option \<Rightarrow> ('m, 'v, 'b, 'f, 't) step" where
  "add_block i b s = map_option (\<lambda>xs. s\<lparr>em_blocks := xs\<rparr>) (fill i b (em_blocks s))"

definition add_immutable :: "nat \<Rightarrow> 'v option \<Rightarrow> ('m, 'v, 'b, 'f, 't) step" where
  "add_immutable i v s = map_option (\<lambda>xs. s\<lparr>em_immutables := xs\<rparr>) (fill i v (em_immutables s))"

definition add_external_function :: "nat \<Rightarrow> 'f option \<Rightarrow> ('m, 'v, 'b, 'f, 't) step" where
  "add_external_function i f s = map_option (\<lambda>xs. s\<lparr>em_externals := xs\<rparr>) (fill i f (em_externals s))"

definition add_alloca_type :: "nat \<Rightarrow> 't option \<Rightarrow> ('m, 'v, 'b, 'f, 't) step" where
  "add_alloca_type i t s = map_option (\<lambda>xs. s\<lparr>em_alloca_types := xs\<rparr>) (fill i t (em_alloca_types s))"

subsection \<open>Types\<close>

fun prim_of :: "type_tag \<Rightarrow> prim_type option" where
  "prim_of TyVoid = Some VoidTy" | "prim_of TyI1 = Some Int1Ty" | "prim_of TyI8 = Some Int8Ty"
| "prim_of TyI16 = Some Int16Ty" | "prim_of TyI32 = Some Int32Ty" | "prim_of TyI64 = Some Int64Ty"
| "prim_of TyF32 = Some FloatTy" | "prim_of TyF64 = Some DoubleTy" | "prim_of TyPtr = Some PtrTy"
| "prim_of TyRef = Some PtrTy" | "prim_of TyMutRef = Some PtrTy" | "prim_of _ = None"

fun each_option :: "('a \<Rightarrow> 'b option) \<Rightarrow> 'a list \<Rightarrow> 'b list option" where
  "each_option f [] = Some []"
| "each_option f (x # xs) = do { y \<leftarrow> f x; ys \<leftarrow> each_option f xs; Some (y # ys) }"


fun each_step :: "('a \<Rightarrow> 's \<Rightarrow> 's option) \<Rightarrow> 'a list \<Rightarrow> 's \<Rightarrow> 's option" where
  "each_step f [] s = Some s"
| "each_step f (x # xs) s = do { s \<leftarrow> f x s; each_step f xs s }"

text \<open>The recursion follows the table; a type that holds itself by value does not end.\<close>

fun lower_type :: "nat \<Rightarrow> ('m, 'v, 'b, 'f, 't) llvm \<Rightarrow> storage \<Rightarrow> nat \<Rightarrow> 't option" where
  "lower_type 0 ll st i = None"
| "lower_type (Suc fuel) ll st i = do {
     node \<leftarrow> entry (types st) i;
     (case node_tag node of
        TyStruct \<Rightarrow> do {
          struct_type \<leftarrow> entry (struct_types st) (node_data node);
          field_types \<leftarrow> each_option (lower_type fuel ll st) (indices (struct_fields struct_type));
          Some (ll_struct ll field_types)
        }
      | TyArray \<Rightarrow> do {
          array_type \<leftarrow> entry (array_types st) (node_data node);
          element \<leftarrow> lower_type fuel ll st (array_element array_type);
          Some (ll_array ll element (array_count array_type))
        }
      | tag \<Rightarrow> map_option (ll_prim ll) (prim_of tag))
   }"

definition llvm_type :: "('m, 'v, 'b, 'f, 't) llvm \<Rightarrow> storage \<Rightarrow> nat \<Rightarrow> 't option" where
  "llvm_type ll st = lower_type (Suc (length (types st))) ll st"

definition tag_at :: "storage \<Rightarrow> nat \<Rightarrow> type_tag option" where
  "tag_at st i = map_option node_tag (entry (types st) i)"

definition register_type :: "storage \<Rightarrow> nat \<Rightarrow> nat option" where
  "register_type st r = map_option reg_type (entry (registers st) r)"

subsection \<open>Operands\<close>

definition resolve_operand_value ::
  "('m, 'v, 'b, 'f, 't) llvm \<Rightarrow> ('m, 'v, 'b, 'f, 't) emitter \<Rightarrow> operand \<Rightarrow> 'v option option" where
  "resolve_operand_value ll s oper =
     (case op_data oper of
        OpRegister r \<Rightarrow> entry (em_registers s) r
      | OpBlock b \<Rightarrow> map_option (map_option (ll_of_block ll)) (entry (em_blocks s) b)
      | OpImmutable i \<Rightarrow> entry (em_immutables s) i
      | _ \<Rightarrow> None)"

definition resolve_operand_function :: "('m, 'v, 'b, 'f, 't) emitter \<Rightarrow> operand \<Rightarrow> 'f option option" where
  "resolve_operand_function s oper =
     (case op_data oper of
        OpFunction f \<Rightarrow> entry (em_functions s) f
      | OpExternal e \<Rightarrow> entry (em_externals s) e
      | _ \<Rightarrow> None)"

text \<open>The operand at an offset of an instruction's range, its value, and the block it names.\<close>

definition nth_operand :: "storage \<Rightarrow> instruction \<Rightarrow> nat \<Rightarrow> operand option" where
  "nth_operand st i k = entry (operands st) (range_head (instr_operands i) + k)"

definition nth_value ::
  "('m, 'v, 'b, 'f, 't) llvm \<Rightarrow> storage \<Rightarrow> instruction \<Rightarrow> ('m, 'v, 'b, 'f, 't) emitter \<Rightarrow> nat \<Rightarrow> 'v option option" where
  "nth_value ll st i s k = do { oper \<leftarrow> nth_operand st i k; resolve_operand_value ll s oper }"

definition block_of :: "operand \<Rightarrow> nat option" where
  "block_of oper = (case op_data oper of OpBlock b \<Rightarrow> Some b | _ \<Rightarrow> None)"

definition nth_block :: "storage \<Rightarrow> instruction \<Rightarrow> ('m, 'v, 'b, 'f, 't) emitter \<Rightarrow> nat \<Rightarrow> 'b option option" where
  "nth_block st i s k = do { oper \<leftarrow> nth_operand st i k; b \<leftarrow> block_of oper; entry (em_blocks s) b }"

definition check :: "bool \<Rightarrow> unit option" where
  "check c = (if c then Some () else None)"

definition operand_count :: "instruction \<Rightarrow> nat" where
  "operand_count i = range_size (instr_operands i)"

text \<open>A call of the builder; with a destination its value becomes the register.\<close>

definition create ::
  "('m, 'v, 'b, 'f, 't) llvm \<Rightarrow> ('v option, 'b option, 'f option, 't) call \<Rightarrow>
     ('m, 'v, 'b, 'f, 't) emitter \<Rightarrow> 'v \<times> ('m, 'v, 'b, 'f, 't) emitter" where
  "create ll c s = (case ll_create ll c (em_state s) of (v, m) \<Rightarrow> (v, s\<lparr>em_state := m\<rparr>))"

definition amend ::
  "('m, 'v, 'b, 'f, 't) llvm \<Rightarrow> ('v option, 'b option) amend \<Rightarrow>
     ('m, 'v, 'b, 'f, 't) emitter \<Rightarrow> ('m, 'v, 'b, 'f, 't) emitter" where
  "amend ll a s = s\<lparr>em_state := ll_amend ll a (em_state s)\<rparr>"

definition set_dst :: "instruction \<Rightarrow> 'v \<Rightarrow> ('m, 'v, 'b, 'f, 't) step" where
  "set_dst i v s = (case instr_dst i of None \<Rightarrow> Some s | Some dst \<Rightarrow> add_register dst (Some v) s)"

definition create_into ::
  "('m, 'v, 'b, 'f, 't) llvm \<Rightarrow> instruction \<Rightarrow> ('v option, 'b option, 'f option, 't) call \<Rightarrow>
     ('m, 'v, 'b, 'f, 't) step" where
  "create_into ll i c s = (case create ll c s of (v, s) \<Rightarrow> set_dst i v s)"

subsection \<open>Computing (\<^verbatim>\<open>llvm_ir_emitter_compute.cc\<close>)\<close>

fun int_predicate :: "opcode \<Rightarrow> bool \<Rightarrow> predicate" where
  "int_predicate Eq is_signed = ICMP_EQ"
| "int_predicate Ne is_signed = ICMP_NE"
| "int_predicate Lt is_signed = (if is_signed then ICMP_SLT else ICMP_ULT)"
| "int_predicate Le is_signed = (if is_signed then ICMP_SLE else ICMP_ULE)"
| "int_predicate Gt is_signed = (if is_signed then ICMP_SGT else ICMP_UGT)"
| "int_predicate Ge is_signed = (if is_signed then ICMP_SGE else ICMP_UGE)"
| "int_predicate _ is_signed = BAD_ICMP_PREDICATE"

fun float_predicate :: "opcode \<Rightarrow> predicate" where
  "float_predicate Eq = FCMP_OEQ"
| "float_predicate Ne = FCMP_ONE"
| "float_predicate Lt = FCMP_OLT"
| "float_predicate Le = FCMP_OLE"
| "float_predicate Gt = FCMP_OGT"
| "float_predicate Ge = FCMP_OGE"
| "float_predicate _ = BAD_FCMP_PREDICATE"

text \<open>The operation of each binary case.\<close>

fun binary_call :: "opcode \<Rightarrow> binary_op option" where
  "binary_call IntAdd = Some CreateAdd"
| "binary_call IntSub = Some CreateSub"
| "binary_call IntMul = Some CreateMul"
| "binary_call IntDiv = Some CreateSDiv"
| "binary_call UintDiv = Some CreateUDiv"
| "binary_call IntRem = Some CreateSRem"
| "binary_call UintRem = Some CreateURem"
| "binary_call And = Some CreateAnd"
| "binary_call Or = Some CreateOr"
| "binary_call Xor = Some CreateXor"
| "binary_call ShiftLeft = Some CreateShl"
| "binary_call ArithmeticShiftRight = Some CreateAShr"
| "binary_call LogicalShiftRight = Some CreateLShr"
| "binary_call _ = None"

definition emit_binary ::
  "('m, 'v, 'b, 'f, 't) llvm \<Rightarrow> storage \<Rightarrow> instruction \<Rightarrow> binary_op \<Rightarrow>
     ('m, 'v, 'b, 'f, 't) step" where
  "emit_binary ll st i op s = do {
     check (operand_count i = 2);
     lhs \<leftarrow> nth_operand st i 0;
     rhs \<leftarrow> nth_operand st i 1;
     (case instr_dst i of
        None \<Rightarrow> Some s
      | Some dst \<Rightarrow> do {
          a \<leftarrow> resolve_operand_value ll s lhs;
          b \<leftarrow> resolve_operand_value ll s rhs;
          create_into ll i (CreateBinary op a b) s
        })
   }"

definition emit_not :: "('m, 'v, 'b, 'f, 't) llvm \<Rightarrow> storage \<Rightarrow> instruction \<Rightarrow> ('m, 'v, 'b, 'f, 't) step" where
  "emit_not ll st i s = do {
     check (operand_count i = 1);
     lhs \<leftarrow> nth_operand st i 0;
     (case instr_dst i of
        None \<Rightarrow> Some s
      | Some dst \<Rightarrow> do { v \<leftarrow> resolve_operand_value ll s lhs; create_into ll i (CreateNot v) s })
   }"

definition emit_bit_reverse :: "('m, 'v, 'b, 'f, 't) llvm \<Rightarrow> storage \<Rightarrow> instruction \<Rightarrow> ('m, 'v, 'b, 'f, 't) step" where
  "emit_bit_reverse ll st i s = do {
     check (operand_count i = 1);
     v \<leftarrow> nth_value ll st i s 0;
     (case instr_dst i of
        None \<Rightarrow> Some s
      | Some dst \<Rightarrow> do { value \<leftarrow> v; create_into ll i (CreateBitReverse (ll_type_of ll value) (Some value)) s })
   }"

text \<open>The comparison an operand type asks for.\<close>

definition compare_call :: "opcode \<Rightarrow> type_tag \<Rightarrow> 'v \<Rightarrow> 'v \<Rightarrow> ('v, 'b, 'f, 't) call option" where
  "compare_call op tag lhs rhs =
     (if is_integer_type tag then Some (CreateICmp (int_predicate op (is_signed_integer_type tag)) lhs rhs)
      else if is_float_type tag then Some (CreateFCmp (float_predicate op) lhs rhs)
      else if tag = TyPtr \<and> (op = Eq \<or> op = Ne) then Some (CreateICmp (int_predicate op False) lhs rhs)
      else None)"

definition emit_compare :: "('m, 'v, 'b, 'f, 't) llvm \<Rightarrow> storage \<Rightarrow> instruction \<Rightarrow> ('m, 'v, 'b, 'f, 't) step" where
  "emit_compare ll st i s = do {
     check (operand_count i = 2);
     lhs \<leftarrow> nth_operand st i 0;
     rhs \<leftarrow> nth_operand st i 1;
     tag \<leftarrow> tag_at st (op_type lhs);
     lhs_val \<leftarrow> resolve_operand_value ll s lhs;
     rhs_val \<leftarrow> resolve_operand_value ll s rhs;
     comparison \<leftarrow> compare_call (instr_op i) tag lhs_val rhs_val;
     create_into ll i comparison s
   }"

text \<open>The conversion between two types: none, a call, or an unsupported pair.\<close>

datatype conversion = KeepValue | Convert cast_op

definition conversion_of ::
  "('m, 'v, 'b, 'f, 't) llvm \<Rightarrow> type_tag \<Rightarrow> type_tag \<Rightarrow> 'v option \<Rightarrow> 't \<Rightarrow> conversion option" where
  "conversion_of ll src_tag dst_tag val dst_ty =
     (if src_tag = dst_tag then Some KeepValue
      else if is_integer_type src_tag \<and> is_integer_type dst_tag then do {
        v \<leftarrow> val;
        Some (Convert (if ll_int_bits ll dst_ty < ll_int_bits ll (ll_type_of ll v) then CreateTrunc
          else if is_signed_integer_type src_tag then CreateSExt else CreateZExt))
      }
      else if is_integer_type src_tag \<and> is_float_type dst_tag then
        Some (Convert (if is_signed_integer_type src_tag then CreateSIToFP else CreateUIToFP))
      else if is_float_type src_tag \<and> is_integer_type dst_tag then
        Some (Convert (if is_signed_integer_type dst_tag then CreateFPToSI else CreateFPToUI))
      else if is_float_type src_tag \<and> is_float_type dst_tag then Some (Convert CreateFPCast)
      else if is_integer_type src_tag \<and> dst_tag = TyPtr then Some (Convert CreateIntToPtr)
      else if src_tag = TyPtr \<and> is_integer_type dst_tag then Some (Convert CreatePtrToInt)
      else None)"

definition emit_cast :: "('m, 'v, 'b, 'f, 't) llvm \<Rightarrow> storage \<Rightarrow> instruction \<Rightarrow> ('m, 'v, 'b, 'f, 't) step" where
  "emit_cast ll st i s = do {
     check (operand_count i = 1);
     (case instr_dst i of
        None \<Rightarrow> Some s
      | Some dst \<Rightarrow> do {
          src \<leftarrow> nth_operand st i 0;
          src_tag \<leftarrow> tag_at st (op_type src);
          dst_type \<leftarrow> register_type st dst;
          dst_tag \<leftarrow> tag_at st dst_type;
          val \<leftarrow> resolve_operand_value ll s src;
          dst_ty \<leftarrow> llvm_type ll st dst_type;
          conversion \<leftarrow> conversion_of ll src_tag dst_tag val dst_ty;
          (case conversion of
             KeepValue \<Rightarrow> add_register dst val s
           | Convert op \<Rightarrow> create_into ll i (CreateCast op val dst_ty) s)
        })
   }"

definition emit_select :: "('m, 'v, 'b, 'f, 't) llvm \<Rightarrow> storage \<Rightarrow> instruction \<Rightarrow> ('m, 'v, 'b, 'f, 't) step" where
  "emit_select ll st i s = do {
     check (operand_count i = 3);
     cond \<leftarrow> nth_value ll st i s 0;
     true_val \<leftarrow> nth_value ll st i s 1;
     false_val \<leftarrow> nth_value ll st i s 2;
     (case instr_dst i of
        None \<Rightarrow> Some s
      | Some dst \<Rightarrow> create_into ll i (CreateSelect cond true_val false_val) s)
   }"

definition emit_move :: "('m, 'v, 'b, 'f, 't) llvm \<Rightarrow> storage \<Rightarrow> instruction \<Rightarrow> ('m, 'v, 'b, 'f, 't) step" where
  "emit_move ll st i s = do {
     check (operand_count i = 1);
     (case instr_dst i of
        None \<Rightarrow> Some s
      | Some dst \<Rightarrow> do { v \<leftarrow> nth_value ll st i s 0; add_register dst v s })
   }"

definition emit_drop :: "instruction \<Rightarrow> ('m, 'v, 'b, 'f, 't) step" where
  "emit_drop i s = do { check (operand_count i \<le> 1); Some s }"

definition is_comparison :: "opcode \<Rightarrow> bool" where
  "is_comparison op \<longleftrightarrow> op \<in> set [Eq, Ne, Lt, Le, Gt, Ge]"

definition emit_compute :: "('m, 'v, 'b, 'f, 't) llvm \<Rightarrow> storage \<Rightarrow> instruction \<Rightarrow> ('m, 'v, 'b, 'f, 't) step" where
  "emit_compute ll st i s =
     (case binary_call (instr_op i) of
        Some op \<Rightarrow> emit_binary ll st i op s
      | None \<Rightarrow>
          if instr_op i = Not then emit_not ll st i s
          else if instr_op i = BitReverse then emit_bit_reverse ll st i s
          else if is_comparison (instr_op i) then emit_compare ll st i s
          else if instr_op i = TypeCast then emit_cast ll st i s
          else if instr_op i = Select then emit_select ll st i s
          else if instr_op i = Move then emit_move ll st i s
          else if instr_op i = Drop then emit_drop i s
          else None)"

subsection \<open>Memory (\<^verbatim>\<open>llvm_ir_emitter_memory.cc\<close>)\<close>

fun rmw_bin_op_of :: "atomic_rmw_op \<Rightarrow> rmw_bin_op" where
  "rmw_bin_op_of RmwAdd = BinAdd"
| "rmw_bin_op_of RmwSub = BinSub"
| "rmw_bin_op_of RmwAnd = BinAnd"
| "rmw_bin_op_of RmwOr = BinOr"
| "rmw_bin_op_of RmwXor = BinXor"
| "rmw_bin_op_of RmwExchange = BinXchg"

definition emit_alloca :: "('m, 'v, 'b, 'f, 't) llvm \<Rightarrow> storage \<Rightarrow> instruction \<Rightarrow> ('m, 'v, 'b, 'f, 't) step" where
  "emit_alloca ll st i s = do {
     check (operand_count i = 1);
     (case instr_dst i of
        None \<Rightarrow> Some s
      | Some dst \<Rightarrow> do {
          size_op \<leftarrow> nth_operand st i 0;
          elem_type \<leftarrow> register_type st dst;
          elem_ty \<leftarrow> llvm_type ll st elem_type;
          size \<leftarrow> resolve_operand_value ll s size_op;
          s \<leftarrow> create_into ll i (CreateAlloca elem_ty size) s;
          add_alloca_type dst (Some elem_ty) s
        })
   }"

definition emit_load :: "('m, 'v, 'b, 'f, 't) llvm \<Rightarrow> storage \<Rightarrow> instruction \<Rightarrow> ('m, 'v, 'b, 'f, 't) step" where
  "emit_load ll st i s = do {
     check (operand_count i = 1);
     (case instr_dst i of
        None \<Rightarrow> Some s
      | Some dst \<Rightarrow> do {
          ptr_op \<leftarrow> nth_operand st i 0;
          dst_type \<leftarrow> register_type st dst;
          load_ty \<leftarrow> llvm_type ll st dst_type;
          ptr \<leftarrow> resolve_operand_value ll s ptr_op;
          create_into ll i (CreateLoad load_ty ptr) s
        })
   }"

definition emit_store :: "('m, 'v, 'b, 'f, 't) llvm \<Rightarrow> storage \<Rightarrow> instruction \<Rightarrow> ('m, 'v, 'b, 'f, 't) step" where
  "emit_store ll st i s = do {
     check (operand_count i = 2);
     a \<leftarrow> nth_value ll st i s 0;
     b \<leftarrow> nth_value ll st i s 1;
     create_into ll i (CreateStore a b) s
   }"

definition values_from ::
  "('m, 'v, 'b, 'f, 't) llvm \<Rightarrow> storage \<Rightarrow> instruction \<Rightarrow> ('m, 'v, 'b, 'f, 't) emitter \<Rightarrow> nat \<Rightarrow> 'v option list option" where
  "values_from ll st i s k = each_option (nth_value ll st i s) [k ..< operand_count i]"

definition emit_gep :: "('m, 'v, 'b, 'f, 't) llvm \<Rightarrow> storage \<Rightarrow> instruction \<Rightarrow> ('m, 'v, 'b, 'f, 't) step" where
  "emit_gep ll st i s = do {
     check (operand_count i \<ge> 2);
     base_op \<leftarrow> nth_operand st i 0;
     (case op_data base_op of
        OpRegister base_reg \<Rightarrow> do {
          alloca_type \<leftarrow> entry (em_alloca_types s) base_reg;
          elem_ty \<leftarrow> alloca_type;
          indices1 \<leftarrow> values_from ll st i s 1;
          base \<leftarrow> resolve_operand_value ll s base_op;
          create_into ll i (CreateGEP elem_ty base indices1) s
        }
      | _ \<Rightarrow> None)
   }"

text \<open>An index of an aggregate, truncated to 32 bits.\<close>

definition constant_index :: "storage \<Rightarrow> operand \<Rightarrow> u32 option" where
  "constant_index st index_op =
     (case op_data index_op of
        OpImmutable k \<Rightarrow> do {
          imm \<leftarrow> entry (immutables st) k;
          tag \<leftarrow> tag_at st (imm_type imm);
          check (is_integer_type tag);
          n \<leftarrow> as_u64_integer tag (imm_value imm);
          Some (ucast n)
        }
      | _ \<Rightarrow> None)"

definition constant_indices :: "storage \<Rightarrow> instruction \<Rightarrow> nat \<Rightarrow> u32 list option" where
  "constant_indices st i k =
     each_option (\<lambda>j. do { index_op \<leftarrow> nth_operand st i j; constant_index st index_op }) [k ..< operand_count i]"

definition emit_extract :: "('m, 'v, 'b, 'f, 't) llvm \<Rightarrow> storage \<Rightarrow> instruction \<Rightarrow> ('m, 'v, 'b, 'f, 't) step" where
  "emit_extract ll st i s = do {
     check (operand_count i \<ge> 2);
     agg \<leftarrow> nth_value ll st i s 0;
     indices1 \<leftarrow> constant_indices st i 1;
     (case instr_dst i of
        None \<Rightarrow> Some s
      | Some dst \<Rightarrow> create_into ll i (CreateExtractValue agg indices1) s)
   }"

definition emit_insert :: "('m, 'v, 'b, 'f, 't) llvm \<Rightarrow> storage \<Rightarrow> instruction \<Rightarrow> ('m, 'v, 'b, 'f, 't) step" where
  "emit_insert ll st i s = do {
     check (operand_count i \<ge> 3);
     agg \<leftarrow> nth_value ll st i s 0;
     field_value \<leftarrow> nth_value ll st i s 1;
     indices1 \<leftarrow> constant_indices st i 2;
     (case instr_dst i of
        None \<Rightarrow> Some s
      | Some dst \<Rightarrow> create_into ll i (CreateInsertValue agg field_value indices1) s)
   }"

definition emit_atomic_load :: "('m, 'v, 'b, 'f, 't) llvm \<Rightarrow> storage \<Rightarrow> instruction \<Rightarrow> ('m, 'v, 'b, 'f, 't) step" where
  "emit_atomic_load ll st i s = do {
     check (operand_count i = 1);
     (case instr_dst i of
        None \<Rightarrow> Some s
      | Some dst \<Rightarrow> do {
          ptr_op \<leftarrow> nth_operand st i 0;
          dst_type \<leftarrow> register_type st dst;
          load_ty \<leftarrow> llvm_type ll st dst_type;
          ptr \<leftarrow> resolve_operand_value ll s ptr_op;
          (case create ll (CreateLoad load_ty ptr) s of
             (load, s) \<Rightarrow> add_register dst (Some load) (amend ll (SetAtomic (Some load)) s))
        })
   }"

definition emit_atomic_store :: "('m, 'v, 'b, 'f, 't) llvm \<Rightarrow> storage \<Rightarrow> instruction \<Rightarrow> ('m, 'v, 'b, 'f, 't) step" where
  "emit_atomic_store ll st i s = do {
     check (operand_count i = 2);
     a \<leftarrow> nth_value ll st i s 0;
     b \<leftarrow> nth_value ll st i s 1;
     (case create ll (CreateStore a b) s of
        (store, s) \<Rightarrow> set_dst i store (amend ll (SetAtomic (Some store)) s))
   }"

definition emit_atomic_rmw :: "('m, 'v, 'b, 'f, 't) llvm \<Rightarrow> storage \<Rightarrow> instruction \<Rightarrow> ('m, 'v, 'b, 'f, 't) step" where
  "emit_atomic_rmw ll st i s = do {
     check (operand_count i = 2);
     ptr \<leftarrow> nth_value ll st i s 0;
     val \<leftarrow> nth_value ll st i s 1;
     create_into ll i (CreateAtomicRMW (rmw_bin_op_of (rmw_op (instr_flags i))) ptr val) s
   }"

definition emit_cmpxchg :: "('m, 'v, 'b, 'f, 't) llvm \<Rightarrow> storage \<Rightarrow> instruction \<Rightarrow> ('m, 'v, 'b, 'f, 't) step" where
  "emit_cmpxchg ll st i s = do {
     check (operand_count i = 3);
     ptr \<leftarrow> nth_value ll st i s 0;
     cmp \<leftarrow> nth_value ll st i s 1;
     new_val \<leftarrow> nth_value ll st i s 2;
     create_into ll i (CreateAtomicCmpXchg ptr cmp new_val) s
   }"

definition emit_fence :: "('m, 'v, 'b, 'f, 't) llvm \<Rightarrow> instruction \<Rightarrow> ('m, 'v, 'b, 'f, 't) step" where
  "emit_fence ll i s = do { check (operand_count i = 0); Some (snd (create ll CreateFence s)) }"

definition emit_memory :: "('m, 'v, 'b, 'f, 't) llvm \<Rightarrow> storage \<Rightarrow> instruction \<Rightarrow> ('m, 'v, 'b, 'f, 't) step" where
  "emit_memory ll st i s =
     (case instr_op i of
        Alloca \<Rightarrow> emit_alloca ll st i s
      | Load \<Rightarrow> emit_load ll st i s
      | Store \<Rightarrow> emit_store ll st i s
      | GetElementPtr \<Rightarrow> emit_gep ll st i s
      | ExtractValue \<Rightarrow> emit_extract ll st i s
      | InsertValue \<Rightarrow> emit_insert ll st i s
      | AtomicLoad \<Rightarrow> emit_atomic_load ll st i s
      | AtomicStore \<Rightarrow> emit_atomic_store ll st i s
      | AtomicRmw \<Rightarrow> emit_atomic_rmw ll st i s
      | AtomicCompareExchange \<Rightarrow> emit_cmpxchg ll st i s
      | Fence \<Rightarrow> emit_fence ll i s
      | _ \<Rightarrow> None)"

subsection \<open>Control (\<^verbatim>\<open>llvm_ir_emitter.cc\<close>)\<close>

text \<open>
  The incoming values of a branch: the argument of a parameter is read at the parameter's
  index in the table of all block parameters, behind the target.
\<close>

definition branch_argument :: "storage \<Rightarrow> instruction \<Rightarrow> nat \<Rightarrow> operand option" where
  "branch_argument st i param_idx = nth_operand st i (1 + param_idx)"

definition add_incoming ::
  "('m, 'v, 'b, 'f, 't) llvm \<Rightarrow> storage \<Rightarrow> instruction \<Rightarrow> 'b \<Rightarrow> nat \<Rightarrow> ('m, 'v, 'b, 'f, 't) step" where
  "add_incoming ll st i current param_idx s = do {
     param \<leftarrow> entry (block_param_table st) param_idx;
     reg_val \<leftarrow> entry (em_registers s) (param_reg param);
     phi \<leftarrow> reg_val;
     check (ll_is_phi ll phi);
     arg_op \<leftarrow> branch_argument st i param_idx;
     arg_val \<leftarrow> resolve_operand_value ll s arg_op;
     Some (amend ll (AddIncoming (Some phi) arg_val (Some current)) s)
   }"

definition emit_br :: "('m, 'v, 'b, 'f, 't) llvm \<Rightarrow> storage \<Rightarrow> instruction \<Rightarrow> ('m, 'v, 'b, 'f, 't) step" where
  "emit_br ll st i s = do {
     check (operand_count i \<noteq> 0);
     target_op \<leftarrow> nth_operand st i 0;
     target_idx \<leftarrow> block_of target_op;
     target \<leftarrow> entry (em_blocks s) target_idx;
     let current = ll_insert_block ll (em_state s);
     let s = snd (create ll (CreateBr target) s);
     target_block \<leftarrow> entry (blocks st) target_idx;
     each_step (add_incoming ll st i current) (indices (block_params target_block)) s
   }"

definition emit_cond_br :: "('m, 'v, 'b, 'f, 't) llvm \<Rightarrow> storage \<Rightarrow> instruction \<Rightarrow> ('m, 'v, 'b, 'f, 't) step" where
  "emit_cond_br ll st i s = do {
     check (operand_count i = 3);
     cond \<leftarrow> nth_value ll st i s 0;
     true_block \<leftarrow> nth_block st i s 1;
     false_block \<leftarrow> nth_block st i s 2;
     Some (snd (create ll (CreateCondBr cond true_block false_block) s))
   }"

definition add_case ::
  "('m, 'v, 'b, 'f, 't) llvm \<Rightarrow> storage \<Rightarrow> instruction \<Rightarrow> 'v \<Rightarrow> nat \<Rightarrow> ('m, 'v, 'b, 'f, 't) step" where
  "add_case ll st i switch_inst k s = do {
     case_val \<leftarrow> nth_value ll st i s k;
     case_value \<leftarrow> case_val;
     check (ll_is_constant_int ll case_value);
     case_block \<leftarrow> nth_block st i s (k + 1);
     Some (amend ll (AddCase (Some switch_inst) (Some case_value) case_block) s)
   }"

text \<open>The offsets of the case values: from 2 in steps of two, while a block follows.\<close>

definition case_offsets :: "nat \<Rightarrow> nat list" where
  "case_offsets n = map (\<lambda>k. 2 + 2 * k) [0 ..< (n - 2) div 2]"

definition emit_switch :: "('m, 'v, 'b, 'f, 't) llvm \<Rightarrow> storage \<Rightarrow> instruction \<Rightarrow> ('m, 'v, 'b, 'f, 't) step" where
  "emit_switch ll st i s = do {
     check (operand_count i \<ge> 2);
     val \<leftarrow> nth_value ll st i s 0;
     default_block \<leftarrow> nth_block st i s 1;
     (case create ll (CreateSwitch val default_block) s of
        (switch_inst, s) \<Rightarrow> each_step (add_case ll st i switch_inst) (case_offsets (operand_count i)) s)
   }"

definition emit_call :: "('m, 'v, 'b, 'f, 't) llvm \<Rightarrow> storage \<Rightarrow> instruction \<Rightarrow> ('m, 'v, 'b, 'f, 't) step" where
  "emit_call ll st i s = do {
     check (operand_count i \<ge> 1);
     callee_op \<leftarrow> nth_operand st i 0;
     callee \<leftarrow> resolve_operand_function s callee_op;
     args \<leftarrow> values_from ll st i s 1;
     create_into ll i (CreateCall callee args) s
   }"

definition emit_ret :: "('m, 'v, 'b, 'f, 't) llvm \<Rightarrow> storage \<Rightarrow> instruction \<Rightarrow> ('m, 'v, 'b, 'f, 't) step" where
  "emit_ret ll st i s = do {
     check (operand_count i \<le> 1);
     (if operand_count i = 0 then Some (snd (create ll CreateRetVoid s))
      else do { v \<leftarrow> nth_value ll st i s 0; Some (snd (create ll (CreateRet v) s)) })
   }"

definition emit_unreachable :: "('m, 'v, 'b, 'f, 't) llvm \<Rightarrow> instruction \<Rightarrow> ('m, 'v, 'b, 'f, 't) step" where
  "emit_unreachable ll i s = do { check (operand_count i = 0); Some (snd (create ll CreateUnreachable s)) }"

definition emit_control :: "('m, 'v, 'b, 'f, 't) llvm \<Rightarrow> storage \<Rightarrow> instruction \<Rightarrow> ('m, 'v, 'b, 'f, 't) step" where
  "emit_control ll st i s =
     (case instr_op i of
        Br \<Rightarrow> emit_br ll st i s
      | CondBr \<Rightarrow> emit_cond_br ll st i s
      | Switch \<Rightarrow> emit_switch ll st i s
      | Call \<Rightarrow> emit_call ll st i s
      | Ret \<Rightarrow> emit_ret ll st i s
      | Unreachable \<Rightarrow> emit_unreachable ll i s
      | _ \<Rightarrow> None)"

definition is_compute_op :: "opcode \<Rightarrow> bool" where
  "is_compute_op op \<longleftrightarrow> op \<in> set [IntAdd, IntSub, IntMul, IntDiv, UintDiv, IntRem, UintRem, And, Or, Xor, ShiftLeft,
     ArithmeticShiftRight, LogicalShiftRight, Not, BitReverse, Eq, Ne, Le, Lt, Ge, Gt, TypeCast, Select, Move, Drop]"

definition is_memory_op :: "opcode \<Rightarrow> bool" where
  "is_memory_op op \<longleftrightarrow> op \<in> set [Alloca, Load, Store, GetElementPtr, ExtractValue, InsertValue, AtomicLoad,
     AtomicStore, AtomicRmw, AtomicCompareExchange, Fence]"

definition emit_instruction :: "('m, 'v, 'b, 'f, 't) llvm \<Rightarrow> storage \<Rightarrow> instruction \<Rightarrow> ('m, 'v, 'b, 'f, 't) step" where
  "emit_instruction ll st i s =
     (if instr_op i = Noop then Some s
      else if is_compute_op (instr_op i) then emit_compute ll st i s
      else if is_memory_op (instr_op i) then emit_memory ll st i s
      else emit_control ll st i s)"

subsection \<open>Blocks and functions\<close>

definition emit_nth_instruction :: "('m, 'v, 'b, 'f, 't) llvm \<Rightarrow> storage \<Rightarrow> nat \<Rightarrow> ('m, 'v, 'b, 'f, 't) step" where
  "emit_nth_instruction ll st k s = do { i \<leftarrow> entry (instrs st) k; emit_instruction ll st i s }"

definition emit_block :: "('m, 'v, 'b, 'f, 't) llvm \<Rightarrow> storage \<Rightarrow> block \<Rightarrow> ('m, 'v, 'b, 'f, 't) step" where
  "emit_block ll st b s = each_step (emit_nth_instruction ll st) (indices (block_instrs b)) s"

definition declare_block :: "('m, 'v, 'b, 'f, 't) llvm \<Rightarrow> 'f \<Rightarrow> nat \<Rightarrow> ('m, 'v, 'b, 'f, 't) step" where
  "declare_block ll f b s = (case ll_basic_block ll f (em_state s) of (bb, m) \<Rightarrow> add_block b (Some bb) (s\<lparr>em_state := m\<rparr>))"

definition emit_phi :: "('m, 'v, 'b, 'f, 't) llvm \<Rightarrow> storage \<Rightarrow> nat \<Rightarrow> ('m, 'v, 'b, 'f, 't) step" where
  "emit_phi ll st p s = do {
     param \<leftarrow> entry (block_param_table st) p;
     ty \<leftarrow> llvm_type ll st (param_type param);
     (case create ll (CreatePHI ty) s of (phi, s) \<Rightarrow> add_register (param_reg param) (Some phi) s)
   }"

text \<open>Positioning at a block that was declared, with the block of the IR.\<close>

definition enter_block ::
  "('m, 'v, 'b, 'f, 't) llvm \<Rightarrow> storage \<Rightarrow> nat \<Rightarrow> ('m, 'v, 'b, 'f, 't) emitter \<Rightarrow>
     (block \<times> ('m, 'v, 'b, 'f, 't) emitter) option" where
  "enter_block ll st b s = do {
     ir_block \<leftarrow> entry (blocks st) b;
     slot \<leftarrow> entry (em_blocks s) b;
     bb \<leftarrow> slot;
     Some (ir_block, s\<lparr>em_state := ll_set_insert_point ll bb (em_state s)\<rparr>)
   }"

definition emit_phis :: "('m, 'v, 'b, 'f, 't) llvm \<Rightarrow> storage \<Rightarrow> nat \<Rightarrow> ('m, 'v, 'b, 'f, 't) step" where
  "emit_phis ll st b s = do {
     (ir_block, s) \<leftarrow> enter_block ll st b s;
     each_step (emit_phi ll st) (indices (block_params ir_block)) s
   }"

definition emit_body :: "('m, 'v, 'b, 'f, 't) llvm \<Rightarrow> storage \<Rightarrow> nat \<Rightarrow> ('m, 'v, 'b, 'f, 't) step" where
  "emit_body ll st b s = do { (ir_block, s) \<leftarrow> enter_block ll st b s; emit_block ll st ir_block s }"

definition emit_function ::
  "bool \<Rightarrow> ('m, 'v, 'b, 'f, 't) llvm \<Rightarrow> storage \<Rightarrow> 'f \<Rightarrow> ir_function \<Rightarrow> ('m, 'v, 'b, 'f, 't) step" where
  "emit_function debug ll st f fn s = do {
     s \<leftarrow> each_step (declare_block ll f) (indices (fn_blocks fn)) s;
     s \<leftarrow> each_step (emit_phis ll st) (indices (fn_blocks fn)) s;
     s \<leftarrow> each_step (emit_body ll st) (indices (fn_blocks fn)) s;
     check (\<not> (debug \<and> ll_broken_function ll f (em_state s)));
     Some s
   }"

subsection \<open>The module\<close>

definition create_function ::
  "('m, 'v, 'b, 'f, 't) llvm \<Rightarrow> (name_id \<Rightarrow> string) \<Rightarrow> storage \<Rightarrow> function_meta \<Rightarrow>
     ('m, 'v, 'b, 'f, 't) emitter \<Rightarrow> ('f \<times> ('m, 'v, 'b, 'f, 't) emitter) option" where
  "create_function ll pool st meta s = do {
     parameter_types \<leftarrow> each_option (llvm_type ll st) (indices (param_types meta));
     result_type \<leftarrow> llvm_type ll st (return_type meta);
     (case ll_function ll result_type parameter_types (pool (meta_name meta)) (em_state s) of
        (f, m) \<Rightarrow> Some (f, s\<lparr>em_state := m\<rparr>))
   }"

text \<open>\<^verbatim>\<open>as_f64_fp\<close>: reading the member of the union that is active.\<close>

definition as_f64_fp :: "type_tag \<Rightarrow> imm_data \<Rightarrow> fp_value option" where
  "as_f64_fp tag d =
     (case d of
        ImmF32 v \<Rightarrow> if tag = TyF32 then Some (OfF32 v) else None
      | ImmF64 v \<Rightarrow> if tag = TyF64 then Some (OfF64 v) else None
      | _ \<Rightarrow> None)"

definition emit_immutable ::
  "('m, 'v, 'b, 'f, 't) llvm \<Rightarrow> (name_id \<Rightarrow> string) \<Rightarrow> storage \<Rightarrow> nat \<Rightarrow> ('m, 'v, 'b, 'f, 't) step" where
  "emit_immutable ll pool st k s = do {
     imm \<leftarrow> entry (immutables st) k;
     tag \<leftarrow> tag_at st (imm_type imm);
     (if is_integer_type tag then do {
        ty \<leftarrow> llvm_type ll st (imm_type imm);
        n \<leftarrow> as_u64_integer tag (imm_value imm);
        add_immutable k (Some (ll_constant_int ll ty n (is_signed_integer_type tag))) s
      }
      else if is_float_type tag then do {
        ty \<leftarrow> llvm_type ll st (imm_type imm);
        x \<leftarrow> as_f64_fp tag (imm_value imm);
        add_immutable k (Some (ll_constant_fp ll ty x)) s
      }
      else if tag = TyStr then
        (case imm_value imm of
           ImmStr name \<Rightarrow>
             (case ll_global_string ll (pool name) (em_state s) of
                (c, m) \<Rightarrow> add_immutable k (Some c) (s\<lparr>em_state := m\<rparr>))
         | _ \<Rightarrow> None)
      else None)
   }"

definition setup_immutables ::
  "('m, 'v, 'b, 'f, 't) llvm \<Rightarrow> (name_id \<Rightarrow> string) \<Rightarrow> storage \<Rightarrow> ('m, 'v, 'b, 'f, 't) step" where
  "setup_immutables ll pool st = each_step (emit_immutable ll pool st) [0 ..< length (immutables st)]"

definition emit_external ::
  "('m, 'v, 'b, 'f, 't) llvm \<Rightarrow> (name_id \<Rightarrow> string) \<Rightarrow> storage \<Rightarrow> nat \<Rightarrow> ('m, 'v, 'b, 'f, 't) step" where
  "emit_external ll pool st k s = do {
     ext \<leftarrow> entry (external_functions st) k;
     (f, s) \<leftarrow> create_function ll pool st (ext_meta ext) s;
     add_external_function k (Some f) s
   }"

definition setup_external_functions ::
  "('m, 'v, 'b, 'f, 't) llvm \<Rightarrow> (name_id \<Rightarrow> string) \<Rightarrow> storage \<Rightarrow> ('m, 'v, 'b, 'f, 't) step" where
  "setup_external_functions ll pool st = each_step (emit_external ll pool st) [0 ..< length (external_functions st)]"

definition emit_nth_function ::
  "bool \<Rightarrow> ('m, 'v, 'b, 'f, 't) llvm \<Rightarrow> (name_id \<Rightarrow> string) \<Rightarrow> storage \<Rightarrow> nat \<Rightarrow> ('m, 'v, 'b, 'f, 't) step" where
  "emit_nth_function debug ll pool st k s = do {
     fn \<leftarrow> entry (function_table st) k;
     (f, s) \<leftarrow> create_function ll pool st (fn_meta fn) s;
     s \<leftarrow> add_function k (Some f) s;
     emit_function debug ll st f fn s
   }"

definition emit_module ::
  "bool \<Rightarrow> ('m, 'v, 'b, 'f, 't) llvm \<Rightarrow> (name_id \<Rightarrow> string) \<Rightarrow> storage \<Rightarrow> 'm \<Rightarrow> ('m, 'v, 'b, 'f, 't) emitter option" where
  "emit_module debug ll pool st m = do {
     s \<leftarrow> setup_immutables ll pool st (new_emitter st m);
     s \<leftarrow> setup_external_functions ll pool st s;
     s \<leftarrow> each_step (emit_nth_function debug ll pool st) [0 ..< length (function_table st)] s;
     check (\<not> (debug \<and> verify_storage st \<noteq> Inr ()));
     check (\<not> (debug \<and> ll_broken_module ll (em_state s)));
     Some s
   }"

end
