(* ===== verification/Codegen_Spec.thy ===== *)
theory Codegen_Spec
  imports Codegen Ir_Wf
begin

text \<open>
  What the emitter promises. The types it can lower are characterised by an inductive
  predicate. For the storages that the verifier accepts and that respect the conventions of
  \<open>emittable\<close>, emission returns, hands no null pointer to the library and closes every block
  with one terminator. The samples show verified storages outside the conventions.
\<close>

subsection \<open>Lowered types\<close>

text \<open>The types with an LLVM counterpart: finite trees of supported tags.\<close>

inductive lowerable :: "storage \<Rightarrow> nat \<Rightarrow> bool" for st where
  lower_prim: "i < length (types st) \<Longrightarrow> prim_of (node_tag (types st ! i)) \<noteq> None \<Longrightarrow> lowerable st i"
| lower_struct: "i < length (types st) \<Longrightarrow> types st ! i = \<lparr>node_tag = TyStruct, node_data = d\<rparr> \<Longrightarrow>
    d < length (struct_types st) \<Longrightarrow>
    (\<And>k. k \<in> set (indices (struct_fields (struct_types st ! d))) \<Longrightarrow> lowerable st k) \<Longrightarrow> lowerable st i"
| lower_array: "i < length (types st) \<Longrightarrow> types st ! i = \<lparr>node_tag = TyArray, node_data = d\<rparr> \<Longrightarrow>
    d < length (array_types st) \<Longrightarrow> lowerable st (array_element (array_types st ! d)) \<Longrightarrow> lowerable st i"

definition lowered :: "('m, 'v, 'b, 'f, 't) llvm \<Rightarrow> storage \<Rightarrow> nat \<Rightarrow> nat set" where
  "lowered ll st n = {i. lower_type n ll st i \<noteq> None}"

lemma each_option_ok: "each_option f xs \<noteq> None \<longleftrightarrow> (\<forall>x \<in> set xs. f x \<noteq> None)"
  by (induction xs) (auto split: Option.bind_splits)

lemma each_option_cong_set: "(\<And>x. x \<in> set xs \<Longrightarrow> f x = g x) \<Longrightarrow> each_option f xs = each_option g xs"
  by (induction xs) (auto intro: Option.bind_cong)

text \<open>One unfolding, on the set of types that are lowered with some fuel.\<close>

definition lower_step :: "storage \<Rightarrow> nat set \<Rightarrow> nat set" where
  "lower_step st S = {i. i < length (types st) \<and>
     (if node_tag (types st ! i) = TyStruct then
        node_data (types st ! i) < length (struct_types st) \<and>
        set (indices (struct_fields (struct_types st ! node_data (types st ! i)))) \<subseteq> S
      else if node_tag (types st ! i) = TyArray then
        node_data (types st ! i) < length (array_types st) \<and>
        array_element (array_types st ! node_data (types st ! i)) \<in> S
      else prim_of (node_tag (types st ! i)) \<noteq> None)}"

lemma lowered_Suc: "lowered ll st (Suc n) = lower_step st (lowered ll st n)"
proof (rule set_eqI)
  fix i
  show "i \<in> lowered ll st (Suc n) \<longleftrightarrow> i \<in> lower_step st (lowered ll st n)"
  proof (cases "node_tag (types st ! i) = TyStruct")
    case True
    have "lower_type (Suc n) ll st i \<noteq> None \<longleftrightarrow> i < length (types st) \<and> node_data (types st ! i) < length (struct_types st) \<and>
        each_option (lower_type n ll st) (indices (struct_fields (struct_types st ! node_data (types st ! i)))) \<noteq> None"
      using True by (auto simp: entry_def split: Option.bind_splits)
    then show ?thesis unfolding each_option_ok using True by (auto simp: lowered_def lower_step_def)
  next
    case False
    then show ?thesis
      by (cases "node_tag (types st ! i)") (auto simp: lowered_def lower_step_def entry_def split: Option.bind_splits)
  qed
qed

lemma lowered_0: "lowered ll st 0 = {}"
  by (simp add: lowered_def)

lemma lower_step_mono: assumes "S \<subseteq> T" shows "lower_step st S \<subseteq> lower_step st T"
  using assms by (auto simp: lower_step_def)

lemma lowered_mono: "mono (lowered ll st)"
proof (rule mono_iff_le_Suc [THEN iffD2], rule allI)
  fix n show "lowered ll st n \<le> lowered ll st (Suc n)"
    by (induction n) (simp_all add: lowered_0 lowered_Suc lower_step_mono)
qed

lemma lowered_sub: "lowered ll st n \<subseteq> {..< length (types st)}"
  by (cases n) (auto simp: lowered_0 lowered_Suc lower_step_def)

lemma lowered_all: "lowered ll st (length (types st)) = (\<Union>n. lowered ll st n)"
proof -
  have "finite (range (lowered ll st))"
    by (rule finite_subset [of _ "Pow {..< length (types st)}"]) (use lowered_sub in auto)
  then have "\<exists>N. (\<forall>n\<le>N. \<forall>m\<le>N. m < n \<longrightarrow> lowered ll st m < lowered ll st n) \<and> (\<forall>n\<ge>N. lowered ll st N = lowered ll st n)"
    by (rule finite_mono_remains_stable_implies_strict_prefix [OF _ lowered_mono]) (metis lowered_Suc)
  from finite_mono_strict_prefix_implies_finite_fixpoint [OF lowered_sub finite_lessThan this]
  show ?thesis by simp
qed

lemma lower_step_lowerable: "i \<in> lower_step st {k. lowerable st k} \<Longrightarrow> lowerable st i"
proof -
  assume i: "i \<in> lower_step st {k. lowerable st k}"
  obtain tag d where n: "types st ! i = \<lparr>node_tag = tag, node_data = d\<rparr>" by (cases "types st ! i") auto
  consider "tag = TyStruct" | "tag = TyArray" | "tag \<noteq> TyStruct" "tag \<noteq> TyArray" by blast
  then show ?thesis
  proof cases
    case 1
    then show ?thesis using i n by (intro lower_struct [of i st d]) (simp_all add: lower_step_def subset_eq)
  next
    case 2
    then show ?thesis using i n by (intro lower_array [of i st d]) (simp_all add: lower_step_def)
  next
    case 3
    have "prim_of tag \<noteq> None" using i 3 by (simp add: lower_step_def n)
    then show ?thesis using i by (intro lower_prim [of i st]) (simp_all add: n lower_step_def)
  qed
qed

lemma lowered_lowerable: "lowered ll st n \<subseteq> {k. lowerable st k}"
proof (induction n)
  case (Suc n)
  then show ?case using lower_step_mono [OF Suc.IH, of st] lower_step_lowerable [of _ st] by (simp add: lowered_Suc) blast
qed (simp add: lowered_0)

lemma lowered_fixpoint: "lower_step st (lowered ll st (length (types st))) \<subseteq> lowered ll st (length (types st))"
  unfolding lowered_Suc [symmetric] by (subst lowered_all) auto

lemma lowerable_lowered: "lowerable st i \<Longrightarrow> i \<in> lowered ll st (length (types st))"
proof (induction rule: lowerable.induct)
  case (lower_prim i)
  then have "i \<in> lower_step st (lowered ll st (length (types st)))"
    by (auto simp: lower_step_def)
  then show ?case using lowered_fixpoint by blast
next
  case (lower_struct i d)
  then have "i \<in> lower_step st (lowered ll st (length (types st)))"
    by (simp add: lower_step_def subset_eq)
  then show ?case using lowered_fixpoint by blast
next
  case (lower_array i d)
  then have "i \<in> lower_step st (lowered ll st (length (types st)))"
    by (simp add: lower_step_def)
  then show ?case using lowered_fixpoint by blast
qed

lemma llvm_type_ok: "(\<exists>t. llvm_type ll st i = Some t) \<longleftrightarrow> lowerable st i"
proof -
  have "lowered ll st (length (types st)) \<subseteq> lowered ll st (Suc (length (types st)))"
    using lowered_mono by (rule monoD) simp
  then have "lowered ll st (Suc (length (types st))) = lowered ll st (length (types st))"
    using lowered_fixpoint unfolding lowered_Suc by blast
  then have "(\<exists>t. llvm_type ll st i = Some t) \<longleftrightarrow> i \<in> lowered ll st (length (types st))"
    by (auto simp: llvm_type_def lowered_def simp del: lower_type.simps)
  then show ?thesis using lowerable_lowered lowered_lowerable by blast
qed

subsection \<open>The log of a run\<close>

text \<open>The library that also writes down what it is asked for.\<close>

datatype ('v, 'b, 'f, 't) event =
  Created "('v option, 'b option, 'f option, 't) call" | Amended "('v option, 'b option) amend"
  | Positioned 'b | Added

type_synonym ('m, 'v, 'b, 'f, 't) recording = "'m \<times> ('v, 'b, 'f, 't) event list"

definition noting :: "('m, 'v, 'b, 'f, 't) recording \<Rightarrow> ('v, 'b, 'f, 't) event \<Rightarrow> ('m \<Rightarrow> 'a \<times> 'm) \<Rightarrow>
    'a \<times> ('m, 'v, 'b, 'f, 't) recording" where
  "noting r e f = (case f (fst r) of (x, m) \<Rightarrow> (x, (m, snd r @ [e])))"

definition logged :: "('m, 'v, 'b, 'f, 't) llvm \<Rightarrow> (('m, 'v, 'b, 'f, 't) recording, 'v, 'b, 'f, 't) llvm" where
  "logged ll = \<lparr>ll_prim = ll_prim ll, ll_struct = ll_struct ll, ll_array = ll_array ll, ll_int_bits = ll_int_bits ll,
     ll_type_of = ll_type_of ll, ll_of_block = ll_of_block ll, ll_is_constant_int = ll_is_constant_int ll,
     ll_is_phi = ll_is_phi ll, ll_constant_int = ll_constant_int ll, ll_constant_fp = ll_constant_fp ll,
     ll_global_string = (\<lambda>x r. noting r Added (ll_global_string ll x)),
     ll_function = (\<lambda>t ts x r. noting r Added (ll_function ll t ts x)),
     ll_basic_block = (\<lambda>f r. noting r Added (ll_basic_block ll f)),
     ll_set_insert_point = (\<lambda>b r. (ll_set_insert_point ll b (fst r), snd r @ [Positioned b])),
     ll_insert_block = (\<lambda>r. ll_insert_block ll (fst r)),
     ll_create = (\<lambda>c r. noting r (Created c) (ll_create ll c)),
     ll_amend = (\<lambda>a r. (ll_amend ll a (fst r), snd r @ [Amended a])),
     ll_broken_function = (\<lambda>f r. ll_broken_function ll f (fst r)),
     ll_broken_module = (\<lambda>r. ll_broken_module ll (fst r))\<rparr>"

definition log :: "(('m, 'v, 'b, 'f, 't) recording, 'v, 'b, 'f, 't) emitter \<Rightarrow> ('v, 'b, 'f, 't) event list" where
  "log s = snd (em_state s)"

text \<open>Events without a null pointer, instructions that end a block, and the sections of a log.\<close>

fun null_free :: "('v, 'b, 'f, 't) event \<Rightarrow> bool" where
  "null_free (Created c) \<longleftrightarrow> None \<notin> set1_call c \<and> None \<notin> set2_call c \<and> None \<notin> set3_call c"
| "null_free (Amended a) \<longleftrightarrow> None \<notin> set1_amend a \<and> None \<notin> set2_amend a"
| "null_free (Positioned b) = True"
| "null_free Added = True"

fun closes :: "('v, 'b, 'f, 't) call \<Rightarrow> bool" where
  "closes (CreateBr b) = True" | "closes (CreateCondBr c t e) = True" | "closes (CreateSwitch v d) = True"
| "closes CreateRetVoid = True" | "closes (CreateRet v) = True" | "closes CreateUnreachable = True"
| "closes _ = False"

definition body_event :: "('v, 'b, 'f, 't) event \<Rightarrow> bool" where
  "body_event e \<longleftrightarrow> null_free e \<and>
     (case e of
        Created c \<Rightarrow> \<not> closes c \<and> (\<forall>t. c \<noteq> CreatePHI t)
      | Amended a \<Rightarrow> (\<exists>v. a = SetAtomic v)
      | _ \<Rightarrow> False)"

definition closing :: "('v, 'b, 'f, 't) event list \<Rightarrow> bool" where
  "closing es \<longleftrightarrow> (\<exists>c as. es = Created c # map Amended as \<and> closes c \<and> list_all null_free es)"

inductive well_emitted :: "nat \<Rightarrow> ('v, 'b, 'f, 't) event list \<Rightarrow> bool" where
  log_empty: "well_emitted 0 []"
| log_added: "well_emitted n es \<Longrightarrow> well_emitted n (es @ [Added])"
| log_phis: "well_emitted n es \<Longrightarrow> well_emitted n (es @ Positioned b # map (\<lambda>t. Created (CreatePHI t)) ts)"
| log_block: "well_emitted n es \<Longrightarrow> list_all body_event ins \<Longrightarrow> closing close \<Longrightarrow>
    well_emitted (Suc n) (es @ Positioned b # ins @ close)"

lemma well_emitted_null_free: "well_emitted n es \<Longrightarrow> list_all null_free es"
proof (induction rule: well_emitted.induct)
  case (log_block n es ins close b)
  then show ?case by (auto simp: closing_def list_all_iff body_event_def)
qed (auto simp: list_all_iff)

subsection \<open>The conventions of the back end\<close>

text \<open>The operand counts that the cases demand.\<close>

definition arity_ok :: "opcode \<Rightarrow> nat \<Rightarrow> bool" where
  "arity_ok op n \<longleftrightarrow>
     (if binary_call op \<noteq> None \<or> is_comparison op \<or> op \<in> set [Store, AtomicStore, AtomicRmw] then n = 2
      else if op \<in> set [Not, BitReverse, TypeCast, Move, Alloca, Load, AtomicLoad] then n = 1
      else if op \<in> set [Select, AtomicCompareExchange] then n = 3
      else if op \<in> set [Drop, Ret] then n \<le> 1
      else if op \<in> set [Fence, Unreachable] then n = 0
      else True)"

text \<open>The operands that are read as values, and those that name a block to jump to.\<close>

definition value_operands :: "opcode \<Rightarrow> 'a list \<Rightarrow> 'a list" where
  "value_operands op ops =
     (if op \<in> set [Noop, Drop, Fence, Unreachable] then []
      else if op \<in> set [Br, Call] then tl ops
      else if op \<in> set [CondBr, Switch, ExtractValue] then take 1 ops
      else if op = InsertValue then take 2 ops
      else ops)"

definition jump_operands :: "opcode \<Rightarrow> operand list \<Rightarrow> operand list" where
  "jump_operands op ops =
     (if op = Br then take 1 ops else if op \<in> set [CondBr, Switch] then filter is_block_operand (tl ops) else [])"

text \<open>
  A value is available: a register of \<open>D\<close>, an immediate, or a block of the function \<open>Bs\<close>.
\<close>

definition available :: "nat set \<Rightarrow> nat set \<Rightarrow> operand \<Rightarrow> bool" where
  "available Bs D oper \<longleftrightarrow>
     (case op_data oper of OpRegister r \<Rightarrow> r \<in> D | OpImmutable k \<Rightarrow> True | OpBlock b \<Rightarrow> b \<in> Bs | _ \<Rightarrow> False)"

definition imm_tag :: "storage \<Rightarrow> nat \<Rightarrow> type_tag" where
  "imm_tag st k = node_tag (types st ! imm_type (immutables st ! k))"

definition integer_immediates :: "storage \<Rightarrow> operand list \<Rightarrow> bool" where
  "integer_immediates st ops \<longleftrightarrow>
     (\<forall>oper \<in> set ops. case op_data oper of OpImmutable k \<Rightarrow> is_integer_type (imm_tag st k) | _ \<Rightarrow> True)"

definition convertible :: "type_tag \<Rightarrow> type_tag \<Rightarrow> bool" where
  "convertible a b \<longleftrightarrow> a = b \<or>
     (is_integer_type a \<or> is_float_type a) \<and> (is_integer_type b \<or> is_float_type b) \<or>
     is_integer_type a \<and> b = TyPtr \<or> a = TyPtr \<and> is_integer_type b"

definition comparable :: "opcode \<Rightarrow> type_tag \<Rightarrow> bool" where
  "comparable op tag \<longleftrightarrow> is_integer_type tag \<or> is_float_type tag \<or> tag = TyPtr \<and> (op = Eq \<or> op = Ne)"

text \<open>The arguments of a branch: its target's parameters, if any, are the first of the whole table.\<close>

definition branch_ok :: "storage \<Rightarrow> operand list \<Rightarrow> bool" where
  "branch_ok st ops \<longleftrightarrow>
     (\<forall>b. op_data (hd ops) = OpBlock b \<longrightarrow>
        range_size (block_params (blocks st ! b)) = 0 \<or>
        range_head (block_params (blocks st ! b)) = 0 \<and> range_size (block_params (blocks st ! b)) < length ops)"

definition typed_ok :: "storage \<Rightarrow> nat \<Rightarrow> nat set \<Rightarrow> instruction \<Rightarrow> bool" where
  "typed_ok st j A i \<longleftrightarrow>
     (let ops = operand_list st i; op = instr_op i in
      (op = Call \<longrightarrow> (\<forall>f. op_data (hd ops) = OpFunction f \<longrightarrow> f \<le> j)) \<and>
      (op = Br \<longrightarrow> branch_ok st ops) \<and>
      (is_comparison op \<longrightarrow> comparable op (type_of_operand st (hd ops))) \<and>
      (op \<in> set [Alloca, Load, AtomicLoad, TypeCast] \<longrightarrow>
         (\<forall>d. instr_dst i = Some d \<longrightarrow> lowerable st (reg_type (registers st ! d)))) \<and>
      (op = TypeCast \<longrightarrow> (\<forall>d. instr_dst i = Some d \<longrightarrow>
         convertible (type_of_operand st (hd ops)) (node_tag (types st ! reg_type (registers st ! d))))) \<and>
      (op = GetElementPtr \<longrightarrow> (\<forall>r. op_data (hd ops) = OpRegister r \<longrightarrow> r \<in> A)) \<and>
      (op \<in> set [ExtractValue, InsertValue] \<longrightarrow> integer_immediates st (drop (if op = ExtractValue then 1 else 2) ops)) \<and>
      (op = Switch \<longrightarrow> integer_immediates st (drop 2 ops)))"

definition emittable_instr :: "storage \<Rightarrow> nat \<Rightarrow> nat set \<Rightarrow> nat set \<Rightarrow> nat set \<Rightarrow> instruction \<Rightarrow> bool" where
  "emittable_instr st j Bs D A i \<longleftrightarrow>
     arity_ok (instr_op i) (length (operand_list st i)) \<and>
     (\<forall>oper \<in> set (value_operands (instr_op i) (operand_list st i)). available Bs D oper) \<and>
     (\<forall>oper \<in> set (jump_operands (instr_op i) (operand_list st i)). \<forall>b. op_data oper = OpBlock b \<longrightarrow> b \<in> Bs) \<and>
     typed_ok st j A i"

text \<open>The registers an instruction leaves a value in, and the allocations.\<close>

definition kept :: "instruction \<Rightarrow> nat list" where
  "kept i = (if instr_op i \<in> set [Noop, Drop, Fence, Br, CondBr, Switch, Ret, Unreachable] then [] else dst_list i)"

definition allocated :: "instruction \<Rightarrow> nat list" where
  "allocated i = (if instr_op i = Alloca then dst_list i else [])"

fun emittable_code :: "storage \<Rightarrow> nat \<Rightarrow> nat set \<Rightarrow> nat set \<Rightarrow> nat set \<Rightarrow> instruction list \<Rightarrow> bool" where
  "emittable_code st j Bs D A [] \<longleftrightarrow> True"
| "emittable_code st j Bs D A (i # is) \<longleftrightarrow> emittable_instr st j Bs D A i \<and>
     emittable_code st j Bs (D \<union> set (kept i)) (A \<union> set (allocated i)) is"

definition fn_params :: "storage \<Rightarrow> ir_function \<Rightarrow> nat list" where
  "fn_params st fn = concat (map (\<lambda>b. map (\<lambda>p. param_reg (block_param_table st ! p)) (indices (block_params (blocks st ! b))))
     (indices (fn_blocks fn)))"

definition fn_code :: "storage \<Rightarrow> ir_function \<Rightarrow> instruction list" where
  "fn_code st fn = concat (map (\<lambda>b. instr_list st (blocks st ! b)) (indices (fn_blocks fn)))"

definition readable_immediate :: "storage \<Rightarrow> nat \<Rightarrow> bool" where
  "readable_immediate st k \<longleftrightarrow>
     (let tag = imm_tag st k; val = imm_value (immutables st ! k) in
      if is_integer_type tag then prim_of tag \<noteq> None \<and> as_u64_integer tag val \<noteq> None
      else if is_float_type tag then as_f64_fp tag val \<noteq> None
      else tag = TyStr \<and> (\<exists>name. val = ImmStr name))"

definition lowerable_signature :: "storage \<Rightarrow> function_meta \<Rightarrow> bool" where
  "lowerable_signature st meta \<longleftrightarrow> lowerable st (return_type meta) \<and> (\<forall>t \<in> set (indices (param_types meta)). lowerable st t)"

definition emittable :: "storage \<Rightarrow> bool" where
  "emittable st \<longleftrightarrow>
     (\<forall>k < length (immutables st). readable_immediate st k) \<and>
     (\<forall>e \<in> set (external_functions st). lowerable_signature st (ext_meta e)) \<and>
     (\<forall>p \<in> set (block_param_table st). lowerable st (param_type p)) \<and>
     (\<forall>j < length (function_table st). let fn = function_table st ! j in
        lowerable_signature st (fn_meta fn) \<and>
        emittable_code st j (set (indices (fn_blocks fn))) (set (fn_params st fn)) {} (fn_code st fn))"

end
