(* ===== verification/Codegen_Emit.thy ===== *)
theory Codegen_Emit
  imports Codegen_Spec
begin

text \<open>
  Emission step by step: the state in which every available register, block and function has
  its value, and for each instruction of a verified storage that keeps the conventions the
  events it adds to the log. \<open>emit_module\<close> is the composition.
\<close>

subsection \<open>The state of the tables\<close>

text \<open>The casts of the library answer what was made.\<close>

definition casts_answered :: "('m, 'v, 'b, 'f, 't) llvm \<Rightarrow> bool" where
  "casts_answered ll \<longleftrightarrow>
     (\<forall>t m. ll_is_phi ll (fst (ll_create ll (CreatePHI t) m))) \<and>
     (\<forall>t n b. ll_is_constant_int ll (ll_constant_int ll t n b))"

text \<open>
  The tables in the function \<open>j\<close> with the declared blocks \<open>Bs\<close>, the parameter registers \<open>P\<close>,
  the registers \<open>D\<close> that have a value and the allocations \<open>A\<close>.
\<close>

definition filled :: "'a option list \<Rightarrow> nat set \<Rightarrow> bool" where
  "filled xs S \<longleftrightarrow> (\<forall>i \<in> S. i < length xs \<and> xs ! i \<noteq> None)"

definition sized :: "storage \<Rightarrow> ('m, 'v, 'b, 'f, 't) emitter \<Rightarrow> bool" where
  "sized st s \<longleftrightarrow> length (em_functions s) = length (function_table st) \<and>
     length (em_registers s) = length (registers st) \<and> length (em_blocks s) = length (blocks st) \<and>
     length (em_immutables s) = length (immutables st) \<and>
     length (em_externals s) = length (external_functions st) \<and>
     length (em_alloca_types s) = length (registers st)"

definition ready ::
  "('m, 'v, 'b, 'f, 't) llvm \<Rightarrow> storage \<Rightarrow> nat \<Rightarrow> nat set \<Rightarrow> nat set \<Rightarrow> nat set \<Rightarrow> nat set \<Rightarrow>
     (('m, 'v, 'b, 'f, 't) recording, 'v, 'b, 'f, 't) emitter \<Rightarrow> bool" where
  "ready ll st j Bs P D A s \<longleftrightarrow> sized st s \<and>
     (\<forall>k < length (immutables st). \<exists>v. em_immutables s ! k = Some v \<and>
        (is_integer_type (imm_tag st k) \<longrightarrow> ll_is_constant_int ll v)) \<and>
     filled (em_externals s) {..< length (external_functions st)} \<and>
     filled (em_functions s) {f. f < length (function_table st) \<and> f \<le> j} \<and>
     filled (em_blocks s) Bs \<and> filled (em_registers s) D \<and> filled (em_alloca_types s) A \<and>
     (\<forall>r \<in> P. r < length (registers st) \<and> (\<exists>v. em_registers s ! r = Some v \<and> ll_is_phi ll v))"

lemma logged_sel [simp]:
  "ll_prim (logged ll) = ll_prim ll" "ll_struct (logged ll) = ll_struct ll" "ll_array (logged ll) = ll_array ll"
  "ll_int_bits (logged ll) = ll_int_bits ll" "ll_type_of (logged ll) = ll_type_of ll"
  "ll_of_block (logged ll) = ll_of_block ll" "ll_is_constant_int (logged ll) = ll_is_constant_int ll"
  "ll_is_phi (logged ll) = ll_is_phi ll" "ll_constant_int (logged ll) = ll_constant_int ll"
  "ll_constant_fp (logged ll) = ll_constant_fp ll"
  by (simp_all add: logged_def)

lemma create_logged:
  obtains v m where "create (logged ll) c s = (v, s\<lparr>em_state := (m, log s @ [Created c])\<rparr>)"
    and "v = fst (ll_create ll c (fst (em_state s)))"
proof (rule that)
  show "create (logged ll) c s = (fst (ll_create ll c (fst (em_state s))),
      s\<lparr>em_state := (snd (ll_create ll c (fst (em_state s))), log s @ [Created c])\<rparr>)"
    by (simp add: create_def logged_def noting_def log_def split: prod.split)
qed (rule refl)

lemma amend_logged:
  obtains m where "amend (logged ll) a s = s\<lparr>em_state := (m, log s @ [Amended a])\<rparr>"
  by (rule that [of "ll_amend ll a (fst (em_state s))"]) (simp add: amend_def logged_def log_def)

lemma log_update [simp]: "log (s\<lparr>em_state := (m, es)\<rparr>) = es"
  by (simp add: log_def)

lemma log_fields [simp]:
  "log (s\<lparr>em_registers := xs\<rparr>) = log s" "log (s\<lparr>em_alloca_types := ts\<rparr>) = log s"
  "log (s\<lparr>em_blocks := bs\<rparr>) = log s" "log (s\<lparr>em_functions := fs\<rparr>) = log s"
  "log (s\<lparr>em_externals := fs\<rparr>) = log s" "log (s\<lparr>em_immutables := xs\<rparr>) = log s"
  by (simp_all add: log_def)

lemma ready_state [simp]: "ready ll st j Bs P D A (s\<lparr>em_state := r\<rparr>) \<longleftrightarrow> ready ll st j Bs P D A s"
  by (simp add: ready_def sized_def)

lemma filled_update: "filled xs S \<Longrightarrow> i < length xs \<Longrightarrow> v \<noteq> None \<Longrightarrow> filled (xs[i := v]) (insert i S)"
  by (auto simp: filled_def nth_list_update)

lemma filled_mono: "filled xs T \<Longrightarrow> S \<subseteq> T \<Longrightarrow> filled xs S"
  by (auto simp: filled_def)

lemma ready_register:
  assumes "ready ll st j Bs P D A s" and "r < length (registers st)" and "r \<notin> P"
  shows "\<exists>s'. add_register r (Some v) s = Some s' \<and> log s' = log s \<and> ready ll st j Bs P (insert r D) A s'"
proof -
  have r: "r < length (em_registers s)" using assms by (simp add: ready_def sized_def)
  then have "add_register r (Some v) s = Some (s\<lparr>em_registers := (em_registers s)[r := Some v]\<rparr>)"
    by (simp add: add_register_def fill_def)
  moreover have "ready ll st j Bs P (insert r D) A (s\<lparr>em_registers := (em_registers s)[r := Some v]\<rparr>)"
    using assms r by (auto simp: ready_def sized_def nth_list_update intro: filled_update)
  ultimately show ?thesis by simp
qed

lemma ready_alloca:
  assumes "ready ll st j Bs P D A s" and "r < length (registers st)"
  shows "\<exists>s'. add_alloca_type r (Some t) s = Some s' \<and> log s' = log s \<and> ready ll st j Bs P D (insert r A) s'"
proof -
  have r: "r < length (em_alloca_types s)" using assms by (simp add: ready_def sized_def)
  then have "add_alloca_type r (Some t) s = Some (s\<lparr>em_alloca_types := (em_alloca_types s)[r := Some t]\<rparr>)"
    by (simp add: add_alloca_type_def fill_def)
  moreover have "ready ll st j Bs P D (insert r A) (s\<lparr>em_alloca_types := (em_alloca_types s)[r := Some t]\<rparr>)"
    using assms r by (auto simp: ready_def sized_def intro: filled_update)
  ultimately show ?thesis by simp
qed

subsection \<open>Operands of a verified instruction\<close>

lemma nth_operand_ok:
  assumes "range_in_bounds (instr_operands i) (length (operands st))" and "k < operand_count i"
  shows "nth_operand st i k = Some (operand_list st i ! k)"
  using assms by (simp add: nth_operand_def entry_def range_in_bounds_def operand_count_def operand_list_def)

lemma resolve_value_ok:
  assumes "ready ll st j Bs P D A s" and "wf_operand st defs oper" and "available Bs D oper"
  shows "\<exists>v. resolve_operand_value (logged ll) s oper = Some (Some v)"
  using assms
  by (auto simp: resolve_operand_value_def available_def ready_def sized_def filled_def entry_def wf_operand_def
      split: operand_data.splits)

lemma resolve_integer_ok:
  assumes "ready ll st j Bs P D A s" and "wf_operand st defs oper"
    and "op_data oper = OpImmutable k" and "is_integer_type (imm_tag st k)"
  shows "\<exists>v. resolve_operand_value (logged ll) s oper = Some (Some v) \<and> ll_is_constant_int ll v"
  using assms by (auto simp: resolve_operand_value_def ready_def sized_def entry_def wf_operand_def)

lemma resolve_function_ok:
  assumes "ready ll st j Bs P D A s" and "wf_operand st defs oper"
    and "callee_arity st oper \<noteq> None" and "\<And>f. op_data oper = OpFunction f \<Longrightarrow> f \<le> j"
  shows "\<exists>f. resolve_operand_function s oper = Some (Some f)"
  using assms
  by (auto simp: resolve_operand_function_def callee_arity_def ready_def sized_def filled_def entry_def wf_operand_def
      split: operand_data.splits)

subsection \<open>What an instruction adds\<close>

definition params_of :: "storage \<Rightarrow> nat set \<Rightarrow> nat set" where
  "params_of st Bs = (\<Union>b \<in> Bs. (\<lambda>p. param_reg (block_param_table st ! p)) ` set (indices (block_params (blocks st ! b))))"

definition emission ::
  "('m, 'v, 'b, 'f, 't) llvm \<Rightarrow> storage \<Rightarrow> nat \<Rightarrow> nat set \<Rightarrow> nat set \<Rightarrow> nat set \<Rightarrow> nat set \<Rightarrow>
     (('m, 'v, 'b, 'f, 't) recording, 'v, 'b, 'f, 't) emitter \<Rightarrow> instruction \<Rightarrow> bool" where
  "emission ll st j Bs P D A s i \<longleftrightarrow> casts_answered ll \<and> ready ll st j Bs P D A s \<and>
     wf_instr st (set (all_defs st)) i \<and> emittable_instr st j Bs D A i \<and>
     wf_storage st \<and> (\<forall>k < length (immutables st). readable_immediate st k) \<and> params_of st Bs \<subseteq> P \<and>
     (\<forall>r \<in> set (dst_list i). r < length (registers st) \<and> r \<notin> P)"

definition emits ::
  "('m, 'v, 'b, 'f, 't) llvm \<Rightarrow> storage \<Rightarrow> nat \<Rightarrow> nat set \<Rightarrow> nat set \<Rightarrow> nat set \<Rightarrow> nat set \<Rightarrow>
     (('m, 'v, 'b, 'f, 't) recording, 'v, 'b, 'f, 't) emitter \<Rightarrow> instruction \<Rightarrow>
     (('v, 'b, 'f, 't) event list \<Rightarrow> bool) \<Rightarrow> (('m, 'v, 'b, 'f, 't) recording, 'v, 'b, 'f, 't) emitter option \<Rightarrow> bool" where
  "emits ll st j Bs P D A s i good R \<longleftrightarrow>
     (\<exists>s' es. R = Some s' \<and> log s' = log s @ es \<and> good es \<and>
        ready ll st j Bs P (D \<union> set (kept i)) (A \<union> set (allocated i)) s')"

lemma emitsI:
  "R = Some s' \<Longrightarrow> log s' = log s @ es \<Longrightarrow> good es \<Longrightarrow>
     ready ll st j Bs P (D \<union> set (kept i)) (A \<union> set (allocated i)) s' \<Longrightarrow> emits ll st j Bs P D A s i good R"
  unfolding emits_def by blast

lemma emission_ready: "emission ll st j Bs P D A s i \<Longrightarrow> ready ll st j Bs P D A s"
  by (simp add: emission_def)

lemma emission_dst: "emission ll st j Bs P D A s i \<Longrightarrow> \<forall>r \<in> set (dst_list i). r < length (registers st) \<and> r \<notin> P"
  unfolding emission_def by blast

lemma emits_nothing:
  "emission ll st j Bs P D A s i \<Longrightarrow> kept i = [] \<Longrightarrow> allocated i = [] \<Longrightarrow>
     emits ll st j Bs P D A s i (list_all body_event) (Some s)"
  by (rule emitsI [OF refl, where es = "[]"]) (simp_all add: emission_ready)

lemma set_dst_ok:
  assumes "ready ll st j Bs P D A s" and "\<forall>r \<in> set (dst_list i). r < length (registers st) \<and> r \<notin> P"
  shows "\<exists>s'. set_dst i v s = Some s' \<and> log s' = log s \<and> ready ll st j Bs P (D \<union> set (dst_list i)) A s'"
  using assms ready_register [of ll st j Bs P D A s] by (auto simp: set_dst_def dst_list_def split: option.splits)

lemma create_into_ok:
  assumes "emission ll st j Bs P D A s i"
  shows "\<exists>s'. create_into (logged ll) i c s = Some s' \<and> log s' = log s @ [Created c] \<and>
    ready ll st j Bs P (D \<union> set (dst_list i)) A s'"
proof -
  obtain v m where c: "create (logged ll) c s = (v, s\<lparr>em_state := (m, log s @ [Created c])\<rparr>)"
    by (rule create_logged)
  have "ready ll st j Bs P D A (s\<lparr>em_state := (m, log s @ [Created c])\<rparr>)" using emission_ready [OF assms] by simp
  from set_dst_ok [OF this emission_dst [OF assms], of v] obtain s' where
      "set_dst i v (s\<lparr>em_state := (m, log s @ [Created c])\<rparr>) = Some s'"
      "log s' = log s @ [Created c]" "ready ll st j Bs P (D \<union> set (dst_list i)) A s'"
    unfolding log_update by blast
  then have "create_into (logged ll) i c s = Some s' \<and> log s' = log s @ [Created c] \<and>
      ready ll st j Bs P (D \<union> set (dst_list i)) A s'"
    by (simp add: create_into_def c)
  then show ?thesis by blast
qed

lemma emits_into:
  assumes "emission ll st j Bs P D A s i" and "kept i = dst_list i" and "allocated i = []" and "body_event (Created c)"
  shows "emits ll st j Bs P D A s i (list_all body_event) (create_into (logged ll) i c s)"
proof -
  obtain s' where s': "create_into (logged ll) i c s = Some s'" "log s' = log s @ [Created c]"
      "ready ll st j Bs P (D \<union> set (dst_list i)) A s'"
    using create_into_ok [OF assms(1)] by blast
  show ?thesis using assms s'(3) by (intro emitsI [OF s'(1,2)]) simp_all
qed

lemma emits_amended:
  assumes "emission ll st j Bs P D A s i" and "kept i = dst_list i" and "allocated i = []" and "body_event (Created c)"
  shows "emits ll st j Bs P D A s i (list_all body_event)
    (case create (logged ll) c s of (x, s) \<Rightarrow> set_dst i x (amend (logged ll) (SetAtomic (Some x)) s))"
proof -
  obtain v m where c: "create (logged ll) c s = (v, s\<lparr>em_state := (m, log s @ [Created c])\<rparr>)"
    by (rule create_logged)
  obtain m' where a: "amend (logged ll) (SetAtomic (Some v)) (s\<lparr>em_state := (m, log s @ [Created c])\<rparr>) =
      s\<lparr>em_state := (m', log s @ [Created c, Amended (SetAtomic (Some v))])\<rparr>"
    by (rule amend_logged [of ll "SetAtomic (Some v)" "s\<lparr>em_state := (m, log s @ [Created c])\<rparr>"]) simp
  have "ready ll st j Bs P D A (s\<lparr>em_state := (m', log s @ [Created c, Amended (SetAtomic (Some v))])\<rparr>)"
    using emission_ready [OF assms(1)] by simp
  from set_dst_ok [OF this emission_dst [OF assms(1)], of v] obtain s' where
      s': "set_dst i v (s\<lparr>em_state := (m', log s @ [Created c, Amended (SetAtomic (Some v))])\<rparr>) = Some s'"
      "log s' = log s @ [Created c, Amended (SetAtomic (Some v))]" "ready ll st j Bs P (D \<union> set (dst_list i)) A s'"
    unfolding log_update by blast
  show ?thesis using assms s'
    by (intro emitsI [where s' = s' and es = "[Created c, Amended (SetAtomic (Some v))]"])
       (simp_all add: c a body_event_def)
qed

lemma emits_last:
  assumes "emission ll st j Bs P D A s i" and "kept i = []" and "allocated i = []" and "null_free (Created c)" and "closes c"
  shows "emits ll st j Bs P D A s i closing (Some (snd (create (logged ll) c s)))"
proof -
  obtain v m where c: "create (logged ll) c s = (v, s\<lparr>em_state := (m, log s @ [Created c])\<rparr>)"
    by (rule create_logged)
  have "closing [Created c]" unfolding closing_def
    by (intro exI [of _ c] exI [of _ "[]"]) (use assms(4,5) in simp)
  then show ?thesis using assms(2,3) emission_ready [OF assms(1)]
    by (intro emitsI [where s' = "s\<lparr>em_state := (m, log s @ [Created c])\<rparr>" and es = "[Created c]"]) (simp_all add: c)
qed

text \<open>Operands of an instruction that is ready to be emitted.\<close>

lemma operand_ok: "emission ll st j Bs P D A s i \<Longrightarrow> k < operand_count i \<Longrightarrow> nth_operand st i k = Some (operand_list st i ! k)"
  by (simp add: nth_operand_ok emission_def wf_instr_def)

lemma operand_wf: "emission ll st j Bs P D A s i \<Longrightarrow> k < operand_count i \<Longrightarrow> wf_operand st (set (all_defs st)) (operand_list st i ! k)"
  by (auto simp: emission_def wf_instr_def operand_count_def)

lemma value_ok:
  assumes "emission ll st j Bs P D A s i" and "k < operand_count i" and "available Bs D (operand_list st i ! k)"
  shows "\<exists>v. resolve_operand_value (logged ll) s (operand_list st i ! k) = Some (Some v)"
  by (rule resolve_value_ok [OF emission_ready [OF assms(1)] operand_wf [OF assms(1,2)] assms(3)])

lemma nth_value_ok:
  assumes "emission ll st j Bs P D A s i" and "k < operand_count i" and "available Bs D (operand_list st i ! k)"
  shows "\<exists>v. nth_value (logged ll) st i s k = Some (Some v)"
  using value_ok [OF assms] operand_ok [OF assms(1,2)] by (simp add: nth_value_def)

lemma available_values:
  "emission ll st j Bs P D A s i \<Longrightarrow> oper \<in> set (value_operands (instr_op i) (operand_list st i)) \<Longrightarrow> available Bs D oper"
  by (simp add: emission_def emittable_instr_def)

lemma arity: "emission ll st j Bs P D A s i \<Longrightarrow> arity_ok (instr_op i) (operand_count i)"
  by (simp add: emission_def emittable_instr_def operand_count_def)

lemma typed: "emission ll st j Bs P D A s i \<Longrightarrow> typed_ok st j A i"
  by (simp add: emission_def emittable_instr_def)

lemma all_values:
  assumes "emission ll st j Bs P D A s i" and "value_operands (instr_op i) (operand_list st i) = operand_list st i"
    and "k < operand_count i"
  shows "\<exists>v. resolve_operand_value (logged ll) s (operand_list st i ! k) = Some (Some v)"
    and "\<exists>v. nth_value (logged ll) st i s k = Some (Some v)"
proof -
  have "available Bs D (operand_list st i ! k)"
    using available_values [OF assms(1)] assms(2,3) by (simp add: operand_count_def)
  then show "\<exists>v. resolve_operand_value (logged ll) s (operand_list st i ! k) = Some (Some v)"
    "\<exists>v. nth_value (logged ll) st i s k = Some (Some v)"
    using value_ok [OF assms(1,3)] nth_value_ok [OF assms(1,3)] by blast+
qed

subsection \<open>Computing\<close>

lemmas op_class = kept_def allocated_def value_operands_def arity_ok_def is_comparison_def

lemma check_true [simp]: "check True = Some ()"
  by (simp add: check_def)

lemma binary_class:
  assumes "binary_call op = Some f"
  shows "value_operands op ops = ops" and "arity_ok op n \<longleftrightarrow> n = 2"
    and "op \<notin> set [Noop, Drop, Fence, Br, CondBr, Switch, Ret, Unreachable]" and "op \<noteq> Alloca"
  using assms by (cases op; simp add: value_operands_def arity_ok_def)+

lemma emit_binary_ok:
  assumes e: "emission ll st j Bs P D A s i" and f: "binary_call (instr_op i) = Some f"
  shows "emits ll st j Bs P D A s i (list_all body_event) (emit_binary (logged ll) st i f s)"
proof -
  note cl = binary_class [OF f]
  have n: "operand_count i = 2" using arity [OF e] cl(2) by simp
  have k: "kept i = dst_list i" "allocated i = []" using cl(3,4) by (simp_all add: kept_def allocated_def)
  obtain a b where ab: "resolve_operand_value (logged ll) s (operand_list st i ! 0) = Some (Some a)"
      "resolve_operand_value (logged ll) s (operand_list st i ! 1) = Some (Some b)"
    using all_values(1) [OF e, of 0] all_values(1) [OF e, of 1] n cl(1) by force
  show ?thesis
  proof (cases "instr_dst i")
    case None
    then have "kept i = []" by (simp add: k dst_list_def)
    then show ?thesis using emits_nothing [OF e _ k(2)] None n
      by (simp add: emit_binary_def operand_ok [OF e])
  next
    case (Some d)
    have "body_event (Created (CreateBinary f (Some a) (Some b)))" by (simp add: body_event_def)
    then show ?thesis using emits_into [OF e k] Some n ab
      by (simp add: emit_binary_def operand_ok [OF e])
  qed
qed

lemma emit_not_ok:
  assumes e: "emission ll st j Bs P D A s i" and op: "instr_op i = Not"
  shows "emits ll st j Bs P D A s i (list_all body_event) (emit_not (logged ll) st i s)"
proof -
  have n: "operand_count i = 1" using arity [OF e] op by (simp add: op_class)
  have k: "kept i = dst_list i" "allocated i = []" using op by (auto simp: op_class)
  obtain a where a: "resolve_operand_value (logged ll) s (operand_list st i ! 0) = Some (Some a)"
    using all_values(1) [OF e, of 0] n op by (force simp: op_class)
  show ?thesis
  proof (cases "instr_dst i")
    case None
    then have "kept i = []" by (simp add: k dst_list_def)
    then show ?thesis using emits_nothing [OF e _ k(2)] None n
      by (simp add: emit_not_def operand_ok [OF e])
  next
    case (Some d)
    have "body_event (Created (CreateNot (Some a)))" by (simp add: body_event_def)
    then show ?thesis using emits_into [OF e k] Some n a
      by (simp add: emit_not_def operand_ok [OF e])
  qed
qed

lemma emit_bit_reverse_ok:
  assumes e: "emission ll st j Bs P D A s i" and op: "instr_op i = BitReverse"
  shows "emits ll st j Bs P D A s i (list_all body_event) (emit_bit_reverse (logged ll) st i s)"
proof -
  have n: "operand_count i = 1" using arity [OF e] op by (simp add: op_class)
  have k: "kept i = dst_list i" "allocated i = []" using op by (auto simp: op_class)
  obtain a where a: "nth_value (logged ll) st i s 0 = Some (Some a)"
    using all_values(2) [OF e, of 0] n op by (force simp: op_class)
  show ?thesis
  proof (cases "instr_dst i")
    case None
    then have "kept i = []" by (simp add: k dst_list_def)
    then show ?thesis using emits_nothing [OF e _ k(2)] None n a by (simp add: emit_bit_reverse_def)
  next
    case (Some d)
    have "body_event (Created (CreateBitReverse (ll_type_of ll a) (Some a)))" by (simp add: body_event_def)
    then show ?thesis using emits_into [OF e k] Some n a by (simp add: emit_bit_reverse_def)
  qed
qed

lemma tag_entry_ok: "i < length (types st) \<Longrightarrow> tag_at st i = Some (node_tag (types st ! i))"
  by (simp add: tag_at_def entry_def)

lemma operand_tag:
  "emission ll st j Bs P D A s i \<Longrightarrow> k < operand_count i \<Longrightarrow>
     tag_at st (op_type (operand_list st i ! k)) = Some (type_of_operand st (operand_list st i ! k))"
  using operand_wf [of ll st j Bs P D A s i k] by (simp add: tag_entry_ok type_of_operand_def wf_operand_def)

lemma compare_call_ok:
  "comparable op tag \<Longrightarrow> \<exists>c. compare_call op tag (Some a) (Some b) = Some c \<and> body_event (Created c)"
  by (auto simp: compare_call_def comparable_def body_event_def)

lemma hd_operand_list: "emission ll st j Bs P D A s i \<Longrightarrow> operand_count i \<noteq> 0 \<Longrightarrow> hd (operand_list st i) = operand_list st i ! 0"
  by (rule hd_conv_nth) (auto simp: operand_count_def)

lemma emit_compare_ok:
  fixes ll :: "('m, 'v, 'b, 'f, 't) llvm"
  assumes e: "emission ll st j Bs P D A s i" and op: "is_comparison (instr_op i)"
  shows "emits ll st j Bs P D A s i (list_all body_event) (emit_compare (logged ll) st i s)"
proof -
  have n: "operand_count i = 2" using arity [OF e] op by (simp add: arity_ok_def)
  have k: "kept i = dst_list i" "allocated i = []" and v: "value_operands (instr_op i) (operand_list st i) = operand_list st i"
    using op by (auto simp: op_class)
  obtain a b where ab: "resolve_operand_value (logged ll) s (operand_list st i ! 0) = Some (Some a)"
      "resolve_operand_value (logged ll) s (operand_list st i ! 1) = Some (Some b)"
    using all_values(1) [OF e v, of 0] all_values(1) [OF e v, of 1] n by auto
  have "comparable (instr_op i) (type_of_operand st (operand_list st i ! 0))"
    using typed [OF e] op n hd_operand_list [OF e] by (simp add: typed_ok_def Let_def)
  from compare_call_ok [OF this] obtain c :: "('v option, 'b option, 'f option, 't) call" where
      c: "compare_call (instr_op i) (type_of_operand st (operand_list st i ! 0)) (Some a) (Some b) = Some c"
      "body_event (Created c)" by metis
  from emits_into [OF e k c(2)] show ?thesis
    using n ab c(1) by (simp add: emit_compare_def operand_ok [OF e] operand_tag [OF e])
qed

lemma emits_if_dst:
  assumes e: "emission ll st j Bs P D A s i" and k: "kept i = dst_list i" "allocated i = []" and "body_event (Created c)"
  shows "emits ll st j Bs P D A s i (list_all body_event)
    (case instr_dst i of None \<Rightarrow> Some s | Some dst \<Rightarrow> create_into (logged ll) i c s)"
proof (cases "instr_dst i")
  case None
  then have "kept i = []" by (simp add: k dst_list_def)
  then show ?thesis using emits_nothing [OF e _ k(2)] None by simp
next
  case (Some d)
  then show ?thesis using emits_into [OF assms] by simp
qed

text \<open>A register that gets the value of an operand; nothing is created.\<close>

lemma emits_alias:
  assumes e: "emission ll st j Bs P D A s i" and k: "kept i = dst_list i" "allocated i = []" and d: "instr_dst i = Some d"
  shows "emits ll st j Bs P D A s i (list_all body_event) (add_register d (Some v) s)"
proof -
  have "d < length (registers st)" "d \<notin> P" using emission_dst [OF e] d by (simp_all add: dst_list_def)
  from ready_register [OF emission_ready [OF e] this, of v] obtain s' where
      s': "add_register d (Some v) s = Some s'" "log s' = log s" "ready ll st j Bs P (insert d D) A s'"
    by (elim exE conjE)
  show ?thesis using s'(3) k d by (intro emitsI [OF s'(1), where es = "[]"]) (simp_all add: s'(2) dst_list_def)
qed

lemma conversion_ok:
  assumes "convertible src dst"
  shows "\<exists>c. conversion_of ll src dst (Some v) t = Some c"
  using assms by (auto simp: convertible_def conversion_of_def)

lemma dst_register:
  assumes "emission ll st j Bs P D A s i" and "instr_dst i = Some d"
  shows "register_type st d = Some (reg_type (registers st ! d))"
  using emission_dst [OF assms(1)] assms(2) by (simp add: register_type_def entry_def dst_list_def)

lemma lowerable_bound: "lowerable st i \<Longrightarrow> i < length (types st)"
  by (erule lowerable.cases) simp_all

lemma dst_lowered:
  assumes "emission ll st j Bs P D A s i" and "instr_dst i = Some d"
    and "instr_op i \<in> set [Alloca, Load, AtomicLoad, TypeCast]"
  shows "\<exists>t. llvm_type (logged ll) st (reg_type (registers st ! d)) = Some t"
    and "tag_at st (reg_type (registers st ! d)) = Some (node_tag (types st ! reg_type (registers st ! d)))"
proof -
  have "lowerable st (reg_type (registers st ! d))"
    using typed [OF assms(1)] assms(2,3) unfolding typed_ok_def Let_def by blast
  then show "\<exists>t. llvm_type (logged ll) st (reg_type (registers st ! d)) = Some t"
    "tag_at st (reg_type (registers st ! d)) = Some (node_tag (types st ! reg_type (registers st ! d)))"
    using lowerable_bound by (simp_all add: llvm_type_ok tag_entry_ok)
qed

lemma emit_cast_ok:
  assumes e: "emission ll st j Bs P D A s i" and op: "instr_op i = TypeCast"
  shows "emits ll st j Bs P D A s i (list_all body_event) (emit_cast (logged ll) st i s)"
proof -
  have n: "operand_count i = 1" using arity [OF e] op by (simp add: op_class)
  have k: "kept i = dst_list i" "allocated i = []" using op by (auto simp: op_class)
  obtain a where a: "resolve_operand_value (logged ll) s (operand_list st i ! 0) = Some (Some a)"
    using all_values(1) [OF e, of 0] n op by (force simp: op_class)
  show ?thesis
  proof (cases "instr_dst i")
    case None
    then have "kept i = []" by (simp add: k dst_list_def)
    then show ?thesis using emits_nothing [OF e _ k(2)] None n by (simp add: emit_cast_def)
  next
    case (Some d)
    let ?src = "type_of_operand st (operand_list st i ! 0)" and ?dst = "node_tag (types st ! reg_type (registers st ! d))"
    have "convertible ?src ?dst"
      using typed [OF e] op Some hd_operand_list [OF e] n unfolding typed_ok_def Let_def by simp
    moreover obtain t where t: "llvm_type (logged ll) st (reg_type (registers st ! d)) = Some t"
      using dst_lowered(1) [OF e Some] op by auto
    ultimately obtain c where c: "conversion_of (logged ll) ?src ?dst (Some a) t = Some c"
      using conversion_ok by metis
    have eq: "emit_cast (logged ll) st i s = (case c of KeepValue \<Rightarrow> add_register d (Some a) s
        | Convert f \<Rightarrow> create_into (logged ll) i (CreateCast f (Some a) t) s)"
      using n Some a t c dst_register [OF e Some] dst_lowered(2) [OF e Some] op
      by (simp add: emit_cast_def operand_ok [OF e] operand_tag [OF e])
    have "body_event (Created (CreateCast f (Some a) t))" for f by (simp add: body_event_def)
    from emits_into [OF e k this] emits_alias [OF e k Some] show ?thesis by (cases c) (simp_all add: eq)
  qed
qed

lemma emit_select_ok:
  assumes e: "emission ll st j Bs P D A s i" and op: "instr_op i = Select"
  shows "emits ll st j Bs P D A s i (list_all body_event) (emit_select (logged ll) st i s)"
proof -
  have n: "operand_count i = 3" using arity [OF e] op by (simp add: op_class)
  have k: "kept i = dst_list i" "allocated i = []" and v: "value_operands (instr_op i) (operand_list st i) = operand_list st i"
    using op by (auto simp: op_class)
  obtain a b c where abc: "nth_value (logged ll) st i s 0 = Some (Some a)" "nth_value (logged ll) st i s 1 = Some (Some b)"
      "nth_value (logged ll) st i s 2 = Some (Some c)"
    using all_values(2) [OF e v, of 0] all_values(2) [OF e v, of 1] all_values(2) [OF e v, of 2] n by auto
  have "body_event (Created (CreateSelect (Some a) (Some b) (Some c)))" by (simp add: body_event_def)
  from emits_if_dst [OF e k this] show ?thesis using n abc by (simp add: emit_select_def)
qed

lemma emit_move_ok:
  assumes e: "emission ll st j Bs P D A s i" and op: "instr_op i = Move"
  shows "emits ll st j Bs P D A s i (list_all body_event) (emit_move (logged ll) st i s)"
proof -
  have n: "operand_count i = 1" using arity [OF e] op by (simp add: op_class)
  have k: "kept i = dst_list i" "allocated i = []" using op by (auto simp: op_class)
  obtain a where a: "nth_value (logged ll) st i s 0 = Some (Some a)"
    using all_values(2) [OF e, of 0] n op by (force simp: op_class)
  show ?thesis
  proof (cases "instr_dst i")
    case None
    then have "kept i = []" by (simp add: k dst_list_def)
    then show ?thesis using emits_nothing [OF e _ k(2)] None n by (simp add: emit_move_def)
  next
    case (Some d)
    from emits_alias [OF e k Some] show ?thesis using n a Some by (simp add: emit_move_def)
  qed
qed

lemma emit_drop_ok:
  assumes e: "emission ll st j Bs P D A s i" and op: "instr_op i = Drop"
  shows "emits ll st j Bs P D A s i (list_all body_event) (emit_drop i s)"
proof -
  have "operand_count i \<le> 1" using arity [OF e] op by (simp add: op_class)
  moreover have "kept i = []" "allocated i = []" using op by (auto simp: op_class)
  ultimately show ?thesis using emits_nothing [OF e] by (simp add: emit_drop_def)
qed

lemma emit_compute_ok:
  assumes e: "emission ll st j Bs P D A s i" and op: "is_compute_op (instr_op i)"
  shows "emits ll st j Bs P D A s i (list_all body_event) (emit_compute (logged ll) st i s)"
proof (cases "binary_call (instr_op i)")
  case None
  then have "instr_op i \<in> set [Not, BitReverse, TypeCast, Select, Move, Drop] \<or> is_comparison (instr_op i)"
    using op by (cases "instr_op i") (simp_all add: is_compute_op_def is_comparison_def)
  then show ?thesis
    using None emit_not_ok [OF e] emit_bit_reverse_ok [OF e] emit_cast_ok [OF e] emit_select_ok [OF e]
      emit_move_ok [OF e] emit_drop_ok [OF e] emit_compare_ok [OF e]
    by (auto simp: emit_compute_def is_comparison_def)
next
  case (Some f)
  then show ?thesis using emit_binary_ok [OF e Some] by (simp add: emit_compute_def)
qed

subsection \<open>Memory\<close>

lemma emit_alloca_ok:
  assumes e: "emission ll st j Bs P D A s i" and op: "instr_op i = Alloca"
  shows "emits ll st j Bs P D A s i (list_all body_event) (emit_alloca (logged ll) st i s)"
proof -
  have n: "operand_count i = 1" using arity [OF e] op by (simp add: op_class)
  have k: "kept i = dst_list i" "allocated i = dst_list i" using op by (auto simp: op_class)
  obtain a where a: "resolve_operand_value (logged ll) s (operand_list st i ! 0) = Some (Some a)"
    using all_values(1) [OF e, of 0] n op by (force simp: op_class)
  show ?thesis
  proof (cases "instr_dst i")
    case None
    then have "kept i = []" "allocated i = []" by (simp_all add: k dst_list_def)
    then show ?thesis using emits_nothing [OF e] None n by (simp add: emit_alloca_def)
  next
    case (Some d)
    obtain t where t: "llvm_type (logged ll) st (reg_type (registers st ! d)) = Some t"
      using dst_lowered(1) [OF e Some] op by auto
    from create_into_ok [OF e, of "CreateAlloca t (Some a)"] obtain s1 where
        s1: "create_into (logged ll) i (CreateAlloca t (Some a)) s = Some s1" "log s1 = log s @ [Created (CreateAlloca t (Some a))]"
        "ready ll st j Bs P (D \<union> set (dst_list i)) A s1"
      by (elim exE conjE)
    have "d < length (registers st)" using emission_dst [OF e] Some by (simp add: dst_list_def)
    from ready_alloca [OF s1(3) this, of t] obtain s2 where
        s2: "add_alloca_type d (Some t) s1 = Some s2" "log s2 = log s1" "ready ll st j Bs P (D \<union> set (dst_list i)) (insert d A) s2"
      by (elim exE conjE)
    have "emit_alloca (logged ll) st i s = Some s2"
      using n a t s1(1) s2(1) Some dst_register [OF e Some] by (simp add: emit_alloca_def operand_ok [OF e])
    then show ?thesis
      by (rule emitsI [where es = "[Created (CreateAlloca t (Some a))]"])
         (use s1(2) s2 k Some in \<open>simp_all add: body_event_def dst_list_def\<close>)
  qed
qed

lemma emit_load_ok:
  assumes e: "emission ll st j Bs P D A s i" and op: "instr_op i = Load"
  shows "emits ll st j Bs P D A s i (list_all body_event) (emit_load (logged ll) st i s)"
proof -
  have n: "operand_count i = 1" using arity [OF e] op by (simp add: op_class)
  have k: "kept i = dst_list i" "allocated i = []" using op by (auto simp: op_class)
  obtain a where a: "resolve_operand_value (logged ll) s (operand_list st i ! 0) = Some (Some a)"
    using all_values(1) [OF e, of 0] n op by (force simp: op_class)
  show ?thesis
  proof (cases "instr_dst i")
    case None
    then have "kept i = []" by (simp add: k dst_list_def)
    then show ?thesis using emits_nothing [OF e _ k(2)] None n by (simp add: emit_load_def)
  next
    case (Some d)
    obtain t where t: "llvm_type (logged ll) st (reg_type (registers st ! d)) = Some t"
      using dst_lowered(1) [OF e Some] op by auto
    have "body_event (Created (CreateLoad t (Some a)))" by (simp add: body_event_def)
    from emits_into [OF e k this] show ?thesis
      using n a t Some dst_register [OF e Some] by (simp add: emit_load_def operand_ok [OF e])
  qed
qed

lemma emit_atomic_load_ok:
  assumes e: "emission ll st j Bs P D A s i" and op: "instr_op i = AtomicLoad"
  shows "emits ll st j Bs P D A s i (list_all body_event) (emit_atomic_load (logged ll) st i s)"
proof -
  have n: "operand_count i = 1" using arity [OF e] op by (simp add: op_class)
  have k: "kept i = dst_list i" "allocated i = []" using op by (auto simp: op_class)
  obtain a where a: "resolve_operand_value (logged ll) s (operand_list st i ! 0) = Some (Some a)"
    using all_values(1) [OF e, of 0] n op by (force simp: op_class)
  show ?thesis
  proof (cases "instr_dst i")
    case None
    then have "kept i = []" by (simp add: k dst_list_def)
    then show ?thesis using emits_nothing [OF e _ k(2)] None n by (simp add: emit_atomic_load_def)
  next
    case (Some d)
    obtain t where t: "llvm_type (logged ll) st (reg_type (registers st ! d)) = Some t"
      using dst_lowered(1) [OF e Some] op by auto
    have "body_event (Created (CreateLoad t (Some a)))" by (simp add: body_event_def)
    from emits_amended [OF e k this] show ?thesis
      using n a t Some dst_register [OF e Some] by (simp add: emit_atomic_load_def operand_ok [OF e] set_dst_def)
  qed
qed

text \<open>The instructions that hand two or three operands to one call.\<close>

lemma emit_stores_ok:
  assumes e: "emission ll st j Bs P D A s i" and op: "instr_op i \<in> set [Store, AtomicStore, AtomicRmw]"
  shows "instr_op i = Store \<Longrightarrow> emits ll st j Bs P D A s i (list_all body_event) (emit_store (logged ll) st i s)"
    and "instr_op i = AtomicStore \<Longrightarrow> emits ll st j Bs P D A s i (list_all body_event) (emit_atomic_store (logged ll) st i s)"
    and "instr_op i = AtomicRmw \<Longrightarrow> emits ll st j Bs P D A s i (list_all body_event) (emit_atomic_rmw (logged ll) st i s)"
proof -
  have n: "operand_count i = 2" using arity [OF e] op by (auto simp: op_class)
  have k: "kept i = dst_list i" "allocated i = []" and v: "value_operands (instr_op i) (operand_list st i) = operand_list st i"
    using op by (auto simp: op_class)
  obtain a b where ab: "nth_value (logged ll) st i s 0 = Some (Some a)" "nth_value (logged ll) st i s 1 = Some (Some b)"
    using all_values(2) [OF e v, of 0] all_values(2) [OF e v, of 1] n by auto
  have "body_event (Created (CreateStore (Some a) (Some b)))" by (simp add: body_event_def)
  from emits_into [OF e k this] emits_amended [OF e k this]
  show "emits ll st j Bs P D A s i (list_all body_event) (emit_store (logged ll) st i s)"
    "emits ll st j Bs P D A s i (list_all body_event) (emit_atomic_store (logged ll) st i s)"
    using n ab by (simp_all add: emit_store_def emit_atomic_store_def)
  have "body_event (Created (CreateAtomicRMW f (Some a) (Some b)))" for f by (simp add: body_event_def)
  from emits_into [OF e k this]
  show "emits ll st j Bs P D A s i (list_all body_event) (emit_atomic_rmw (logged ll) st i s)"
    using n ab by (simp add: emit_atomic_rmw_def)
qed

lemma emit_cmpxchg_ok:
  assumes e: "emission ll st j Bs P D A s i" and op: "instr_op i = AtomicCompareExchange"
  shows "emits ll st j Bs P D A s i (list_all body_event) (emit_cmpxchg (logged ll) st i s)"
proof -
  have n: "operand_count i = 3" using arity [OF e] op by (simp add: op_class)
  have k: "kept i = dst_list i" "allocated i = []" and v: "value_operands (instr_op i) (operand_list st i) = operand_list st i"
    using op by (auto simp: op_class)
  obtain a b c where abc: "nth_value (logged ll) st i s 0 = Some (Some a)" "nth_value (logged ll) st i s 1 = Some (Some b)"
      "nth_value (logged ll) st i s 2 = Some (Some c)"
    using all_values(2) [OF e v, of 0] all_values(2) [OF e v, of 1] all_values(2) [OF e v, of 2] n by auto
  have "body_event (Created (CreateAtomicCmpXchg (Some a) (Some b) (Some c)))" by (simp add: body_event_def)
  from emits_into [OF e k this] show ?thesis using n abc by (simp add: emit_cmpxchg_def)
qed

lemma emission_wf:
  assumes "emission ll st j Bs P D A s i"
  shows "wf_storage st" and "wf_shape st (instr_op i) (operand_list st i)" and "casts_answered ll"
    and "params_of st Bs \<subseteq> P" and "k < length (immutables st) \<Longrightarrow> readable_immediate st k"
  using assms by (simp_all add: emission_def wf_instr_def)

lemma nth_in_operands: "k < operand_count i \<Longrightarrow> operand_list st i ! k \<in> set (operand_list st i)"
  by (simp add: operand_count_def)

lemma each_option_values:
  "(\<And>x. x \<in> set xs \<Longrightarrow> \<exists>v. f x = Some (Some v)) \<Longrightarrow> \<exists>vs. each_option f xs = Some (map Some vs)"
proof (induction xs)
  case (Cons x xs)
  obtain v where v: "f x = Some (Some v)" using Cons.prems by force
  obtain vs where vs: "each_option f xs = Some (map Some vs)" using Cons by auto
  show ?case by (intro exI [of _ "v # vs"]) (simp add: v vs)
qed simp

lemma values_from_ok:
  assumes "emission ll st j Bs P D A s i" and "\<And>m. k \<le> m \<Longrightarrow> m < operand_count i \<Longrightarrow> available Bs D (operand_list st i ! m)"
  shows "\<exists>vs. values_from (logged ll) st i s k = Some (map Some vs)"
proof -
  have "\<exists>v. nth_value (logged ll) st i s m = Some (Some v)" if "m \<in> set [k ..< operand_count i]" for m
    by (rule nth_value_ok [OF assms(1) _ assms(2)]) (use that in simp_all)
  then show ?thesis unfolding values_from_def by (rule each_option_values)
qed

text \<open>Elements behind the first ones of a list.\<close>

lemma nth_in_drop: "k \<le> m \<Longrightarrow> m < length xs \<Longrightarrow> xs ! m \<in> set (drop k xs)"
  unfolding in_set_conv_nth by (intro exI [of _ "m - k"]) simp

lemma emit_gep_ok:
  assumes e: "emission ll st j Bs P D A s i" and op: "instr_op i = GetElementPtr"
  shows "emits ll st j Bs P D A s i (list_all body_event) (emit_gep (logged ll) st i s)"
proof -
  have k: "kept i = dst_list i" "allocated i = []" and v: "value_operands (instr_op i) (operand_list st i) = operand_list st i"
    using op by (auto simp: op_class)
  obtain b ixs where ops: "operand_list st i = b # ixs" "ixs \<noteq> []" "is_register_operand b"
    using emission_wf(2) [OF e] op by (auto simp: wf_shape_def)
  then have n: "operand_count i \<ge> 2"
    unfolding operand_count_def length_operand_list [symmetric, of i st] by (cases ixs) auto
  obtain r where r: "op_data b = OpRegister r" using ops(3) by (auto simp: is_register_operand_def split: operand_data.splits)
  have "r \<in> A" using typed [OF e] op r ops(1) by (simp add: typed_ok_def Let_def)
  then obtain t where t: "entry (em_alloca_types s) r = Some (Some t)"
    using emission_ready [OF e] by (auto simp: ready_def filled_def entry_def)
  have av: "available Bs D (operand_list st i ! m)" if "m < operand_count i" for m
    using available_values [OF e] v nth_in_operands [OF that] by simp
  obtain vs where vs: "values_from (logged ll) st i s 1 = Some (map Some vs)" using values_from_ok [OF e av] by blast
  obtain a where a: "resolve_operand_value (logged ll) s b = Some (Some a)"
    using value_ok [OF e _ av, of 0] n ops(1) by auto
  have "nth_operand st i 0 = Some b" using operand_ok [OF e, of 0] n ops(1) by simp
  moreover have "body_event (Created (CreateGEP t (Some a) (map Some vs)))" by (auto simp: body_event_def)
  from emits_into [OF e k this] show ?thesis
    using n r t vs a calculation by (simp add: emit_gep_def)
qed

text \<open>The indices of an aggregate access are integer immediates that can be read.\<close>

lemma constant_index_ok:
  assumes e: "emission ll st j Bs P D A s i" and m: "m < operand_count i"
    and "is_immutable_operand (operand_list st i ! m)" and "integer_immediates st (drop k (operand_list st i))" and "k \<le> m"
  shows "\<exists>n. constant_index st (operand_list st i ! m) = Some n"
proof -
  obtain x where x: "op_data (operand_list st i ! m) = OpImmutable x"
    using assms(3) by (auto simp: is_immutable_operand_def split: operand_data.splits)
  have "operand_list st i ! m \<in> set (drop k (operand_list st i))"
    by (rule nth_in_drop [OF assms(5)]) (use m in \<open>simp add: operand_count_def\<close>)
  then have int: "is_integer_type (imm_tag st x)" using assms(4) x by (force simp: integer_immediates_def)
  have lt: "x < length (immutables st)" using operand_wf [OF e m] x by (simp add: wf_operand_def)
  then have "imm_type (immutables st ! x) < length (types st)"
    using emission_wf(1) [OF e] by (simp add: wf_storage_def)
  moreover have "as_u64_integer (imm_tag st x) (imm_value (immutables st ! x)) \<noteq> None"
    using emission_wf(5) [OF e lt] int by (simp add: readable_immediate_def Let_def)
  ultimately show ?thesis using x lt int
    by (auto simp: constant_index_def entry_def tag_entry_ok imm_tag_def)
qed

lemma constant_indices_ok:
  assumes e: "emission ll st j Bs P D A s i" and "integer_immediates st (drop k (operand_list st i))"
    and "\<And>oper. oper \<in> set (drop k (operand_list st i)) \<Longrightarrow> is_immutable_operand oper"
  shows "\<exists>ns. constant_indices st i k = Some ns"
proof -
  have "\<exists>n. Option.bind (nth_operand st i m) (constant_index st) = Some n" if "m \<in> set [k ..< operand_count i]" for m
  proof -
    have m: "k \<le> m" "m < operand_count i" using that by simp_all
    then have "is_immutable_operand (operand_list st i ! m)"
      by (intro assms(3) nth_in_drop) (simp_all add: operand_count_def)
    from constant_index_ok [OF e m(2) this assms(2) m(1)] show ?thesis by (simp add: operand_ok [OF e m(2)])
  qed
  then show ?thesis using each_option_ok [of "\<lambda>m. Option.bind (nth_operand st i m) (constant_index st)" "[k ..< operand_count i]"]
    by (auto simp: constant_indices_def)
qed

lemma first_available:
  assumes "emission ll st j Bs P D A s i" and "value_operands (instr_op i) (operand_list st i) = take k (operand_list st i)"
    and "m < k" and "m < operand_count i"
  shows "\<exists>v. nth_value (logged ll) st i s m = Some (Some v)"
proof -
  have "operand_list st i ! m \<in> set (take k (operand_list st i))"
    unfolding in_set_conv_nth by (intro exI [of _ m]) (use assms(3,4) in \<open>simp add: operand_count_def\<close>)
  then show ?thesis using nth_value_ok [OF assms(1,4)] available_values [OF assms(1)] assms(2) by simp
qed

lemma emit_extract_ok:
  assumes e: "emission ll st j Bs P D A s i" and op: "instr_op i = ExtractValue"
  shows "emits ll st j Bs P D A s i (list_all body_event) (emit_extract (logged ll) st i s)"
proof -
  have k: "kept i = dst_list i" "allocated i = []" and v: "value_operands (instr_op i) (operand_list st i) = take 1 (operand_list st i)"
    using op by (auto simp: op_class)
  obtain a1 ixs where ops: "operand_list st i = a1 # ixs" "ixs \<noteq> []" "\<forall>x \<in> set ixs. is_immutable_operand x"
    using emission_wf(2) [OF e] op by (auto simp: wf_shape_def)
  then have n: "operand_count i \<ge> 2"
    unfolding operand_count_def length_operand_list [symmetric, of i st] by (cases ixs) auto
  obtain a where a: "nth_value (logged ll) st i s 0 = Some (Some a)" using first_available [OF e v, of 0] n by auto
  have "integer_immediates st (drop 1 (operand_list st i))" using typed [OF e] op by (simp add: typed_ok_def Let_def)
  from constant_indices_ok [OF e this] obtain ns where ns: "constant_indices st i 1 = Some ns" using ops by auto
  have "body_event (Created (CreateExtractValue (Some a) ns))" by (simp add: body_event_def)
  from emits_if_dst [OF e k this] show ?thesis using n a ns by (simp add: emit_extract_def)
qed

lemma emit_insert_ok:
  assumes e: "emission ll st j Bs P D A s i" and op: "instr_op i = InsertValue"
  shows "emits ll st j Bs P D A s i (list_all body_event) (emit_insert (logged ll) st i s)"
proof -
  have k: "kept i = dst_list i" "allocated i = []" and v: "value_operands (instr_op i) (operand_list st i) = take 2 (operand_list st i)"
    using op by (auto simp: op_class)
  obtain a1 b1 ixs where ops: "operand_list st i = a1 # b1 # ixs" "ixs \<noteq> []" "\<forall>x \<in> set ixs. is_immutable_operand x"
    using emission_wf(2) [OF e] op by (auto simp: wf_shape_def)
  then have n: "operand_count i \<ge> 3"
    unfolding operand_count_def length_operand_list [symmetric, of i st] by (cases ixs) auto
  obtain a b where ab: "nth_value (logged ll) st i s 0 = Some (Some a)" "nth_value (logged ll) st i s 1 = Some (Some b)"
    using first_available [OF e v, of 0] first_available [OF e v, of 1] n by auto
  have "integer_immediates st (drop 2 (operand_list st i))" using typed [OF e] op by (simp add: typed_ok_def Let_def)
  from constant_indices_ok [OF e this] obtain ns where ns: "constant_indices st i 2 = Some ns" using ops by auto
  have "body_event (Created (CreateInsertValue (Some a) (Some b) ns))" by (simp add: body_event_def)
  from emits_if_dst [OF e k this] show ?thesis using n ab ns by (simp add: emit_insert_def)
qed

lemma emit_fence_ok:
  assumes e: "emission ll st j Bs P D A s i" and op: "instr_op i = Fence"
  shows "emits ll st j Bs P D A s i (list_all body_event) (emit_fence (logged ll) i s)"
proof -
  have n: "operand_count i = 0" using arity [OF e] op by (simp add: op_class)
  have k: "kept i = []" "allocated i = []" using op by (auto simp: op_class)
  obtain v m where c: "create (logged ll) CreateFence s = (v, s\<lparr>em_state := (m, log s @ [Created CreateFence])\<rparr>)"
    by (rule create_logged)
  show ?thesis using emission_ready [OF e]
    by (intro emitsI [where s' = "s\<lparr>em_state := (m, log s @ [Created CreateFence])\<rparr>" and es = "[Created CreateFence]"])
       (simp_all add: emit_fence_def n c k body_event_def)
qed

lemma emit_memory_ok:
  assumes e: "emission ll st j Bs P D A s i" and op: "is_memory_op (instr_op i)"
  shows "emits ll st j Bs P D A s i (list_all body_event) (emit_memory (logged ll) st i s)"
  using op emit_alloca_ok [OF e] emit_load_ok [OF e] emit_stores_ok [OF e] emit_gep_ok [OF e] emit_extract_ok [OF e]
    emit_insert_ok [OF e] emit_atomic_load_ok [OF e] emit_cmpxchg_ok [OF e] emit_fence_ok [OF e]
  by (cases "instr_op i") (simp_all add: is_memory_op_def emit_memory_def)

subsection \<open>Control\<close>

lemma emit_call_ok:
  assumes e: "emission ll st j Bs P D A s i" and op: "instr_op i = Call"
  shows "emits ll st j Bs P D A s i (list_all body_event) (emit_control (logged ll) st i s)"
proof -
  have k: "kept i = dst_list i" "allocated i = []" and v: "value_operands (instr_op i) (operand_list st i) = tl (operand_list st i)"
    using op by (auto simp: op_class)
  have shape: "operand_list st i \<noteq> []" "callee_arity st (hd (operand_list st i)) \<noteq> None"
    using emission_wf(2) [OF e] op by (auto simp: wf_shape_def)
  then have n: "operand_count i \<ge> 1" by (simp add: operand_count_def)
  have hd: "hd (operand_list st i) = operand_list st i ! 0" using hd_operand_list [OF e] n by simp
  have "\<exists>f. resolve_operand_function s (operand_list st i ! 0) = Some (Some f)"
  proof (rule resolve_function_ok [OF emission_ready [OF e] operand_wf [OF e]])
    show "0 < operand_count i" "callee_arity st (operand_list st i ! 0) \<noteq> None" using n shape hd by simp_all
    show "f \<le> j" if "op_data (operand_list st i ! 0) = OpFunction f" for f
      using typed [OF e] op that hd by (simp add: typed_ok_def Let_def)
  qed
  then obtain f where f: "resolve_operand_function s (operand_list st i ! 0) = Some (Some f)" ..
  have "available Bs D (operand_list st i ! m)" if "1 \<le> m" "m < operand_count i" for m
    using available_values [OF e] v nth_in_drop [OF that(1), of "operand_list st i"] that(2)
    by (simp add: drop_Suc operand_count_def)
  then obtain vs where vs: "values_from (logged ll) st i s 1 = Some (map Some vs)" using values_from_ok [OF e] by blast
  have "body_event (Created (CreateCall (Some f) (map Some vs)))" by (auto simp: body_event_def)
  from emits_into [OF e k this] show ?thesis
    using n f vs op by (simp add: emit_control_def emit_call_def operand_ok [OF e])
qed

lemma emit_exits_ok:
  assumes e: "emission ll st j Bs P D A s i" and op: "instr_op i \<in> set [Ret, Unreachable]"
  shows "emits ll st j Bs P D A s i closing (emit_control (logged ll) st i s)"
proof (cases "instr_op i = Unreachable")
  case True
  have n: "operand_count i = 0" using arity [OF e] True by (simp add: op_class)
  have "emits ll st j Bs P D A s i closing (Some (snd (create (logged ll) CreateUnreachable s)))"
    using True by (intro emits_last [OF e]) (simp_all add: op_class)
  then show ?thesis using n True by (simp add: emit_control_def emit_unreachable_def)
next
  case False
  then have op: "instr_op i = Ret" using op by simp
  have n: "operand_count i \<le> 1" using arity [OF e] op by (simp add: op_class)
  have last: "emits ll st j Bs P D A s i closing (Some (snd (create (logged ll) c s)))"
    if "null_free (Created c)" "closes c" for c
    using op that by (intro emits_last [OF e]) (simp_all add: op_class)
  show ?thesis
  proof (cases "operand_count i = 0")
    case True
    then show ?thesis using last [of CreateRetVoid] op by (simp add: emit_control_def emit_ret_def)
  next
    case False
    then obtain a where "nth_value (logged ll) st i s 0 = Some (Some a)"
      using all_values(2) [OF e, of 0] op by (auto simp: op_class)
    then show ?thesis using last [of "CreateRet (Some a)"] op n False by (simp add: emit_control_def emit_ret_def)
  qed
qed

lemma state_irrelevant [simp]:
  "resolve_operand_value ll (s\<lparr>em_state := r\<rparr>) oper = resolve_operand_value ll s oper"
  "nth_value ll st i (s\<lparr>em_state := r\<rparr>) k = nth_value ll st i s k"
  "nth_block st i (s\<lparr>em_state := r\<rparr>) k = nth_block st i s k"
  by (simp_all add: resolve_operand_value_def nth_value_def nth_block_def cong: operand_data.case_cong)

lemma nth_block_ok:
  assumes e: "emission ll st j Bs P D A s i" and "k < operand_count i"
    and "op_data (operand_list st i ! k) = OpBlock b" and "b \<in> Bs"
  shows "\<exists>bb. nth_block st i s k = Some (Some bb)"
  using assms emission_ready [OF e] operand_ok [OF e assms(2)]
  by (auto simp: nth_block_def block_of_def ready_def filled_def entry_def)

text \<open>A jump operand names a block of the function.\<close>

lemma jump_ok:
  assumes e: "emission ll st j Bs P D A s i" and "k < operand_count i"
    and "operand_list st i ! k \<in> set (jump_operands (instr_op i) (operand_list st i))" and "is_block_operand (operand_list st i ! k)"
  shows "\<exists>bb. nth_block st i s k = Some (Some bb)"
proof -
  obtain b where b: "op_data (operand_list st i ! k) = OpBlock b"
    using assms(4) by (auto simp: is_block_operand_def split: operand_data.splits)
  have "b \<in> Bs" using e assms(3) b unfolding emission_def emittable_instr_def by blast
  then show ?thesis by (rule nth_block_ok [OF e assms(2) b])
qed

lemma plain_is_block: "plain_target st t \<Longrightarrow> is_block_operand t"
  by (auto simp: plain_target_def is_block_operand_def split: operand_data.splits)

lemma each_amends:
  fixes f :: "'a \<Rightarrow> (('m, 'v, 'b, 'f, 't) recording, 'v, 'b, 'f, 't) step"
  assumes "\<And>x. x \<in> set xs \<Longrightarrow> \<exists>a. None \<notin> set1_amend a \<and> None \<notin> set2_amend a \<and>
    (\<forall>r. f x (s\<lparr>em_state := r\<rparr>) = Some (amend (logged ll) a (s\<lparr>em_state := r\<rparr>)))"
  shows "\<exists>m as. each_step f xs (s\<lparr>em_state := (m0, es)\<rparr>) = Some (s\<lparr>em_state := (m, es @ map Amended as)\<rparr>) \<and>
    (\<forall>a \<in> set as. None \<notin> set1_amend a \<and> None \<notin> set2_amend a)"
  using assms
proof (induction xs arbitrary: m0 es)
  case Nil
  show ?case by (intro exI [of _ m0] exI [of _ "[]"]) simp
next
  case (Cons x xs)
  obtain a where a: "None \<notin> set1_amend a" "None \<notin> set2_amend a"
      "\<And>r. f x (s\<lparr>em_state := r\<rparr>) = Some (amend (logged ll) a (s\<lparr>em_state := r\<rparr>))"
    using Cons.prems [of x] by auto
  obtain m1 where m1: "amend (logged ll) a (s\<lparr>em_state := (m0, es)\<rparr>) = s\<lparr>em_state := (m1, es @ [Amended a])\<rparr>"
    by (rule amend_logged [of ll a "s\<lparr>em_state := (m0, es)\<rparr>"]) simp
  obtain m as where r: "each_step f xs (s\<lparr>em_state := (m1, es @ [Amended a])\<rparr>) =
        Some (s\<lparr>em_state := (m, (es @ [Amended a]) @ map Amended as)\<rparr>)"
      "\<forall>a \<in> set as. None \<notin> set1_amend a \<and> None \<notin> set2_amend a"
    using Cons.IH [of m1 "es @ [Amended a]"] Cons.prems by (metis list.set_intros(2))
  show ?case
    by (intro exI [of _ m] exI [of _ "a # as"]) (use a r m1 in simp)
qed

text \<open>A terminator with the amendments behind it.\<close>

lemma emits_amends:
  assumes e: "emission ll st j Bs P D A s i" and k: "kept i = []" "allocated i = []"
    and c: "None \<notin> set1_call c" "None \<notin> set2_call c" "None \<notin> set3_call c" "closes c"
    and R: "R = Some (s\<lparr>em_state := (m, log s @ Created c # map Amended as)\<rparr>)"
    and as: "\<forall>a \<in> set as. None \<notin> set1_amend a \<and> None \<notin> set2_amend a"
  shows "emits ll st j Bs P D A s i closing R"
proof (rule emitsI [OF R])
  show "closing (Created c # map Amended as)"
    unfolding closing_def by (intro exI [of _ c] exI [of _ as]) (use c as in \<open>simp add: list_all_iff\<close>)
  show "ready ll st j Bs P (D \<union> set (kept i)) (A \<union> set (allocated i)) (s\<lparr>em_state := (m, log s @ Created c # map Amended as)\<rparr>)"
    using emission_ready [OF e] by (simp add: k)
qed simp

lemma emit_cond_br_ok:
  assumes e: "emission ll st j Bs P D A s i" and op: "instr_op i = CondBr"
  shows "emits ll st j Bs P D A s i closing (emit_cond_br (logged ll) st i s)"
proof -
  obtain c t f where ops: "operand_list st i = [c, t, f]" "plain_target st t" "plain_target st f"
    using emission_wf(2) [OF e] op by (auto simp: wf_shape_def)
  then have n: "operand_count i = 3"
    unfolding operand_count_def length_operand_list [symmetric, of i st] by simp
  have v: "value_operands (instr_op i) (operand_list st i) = take 1 (operand_list st i)" using op by (simp add: op_class)
  obtain a where a: "nth_value (logged ll) st i s 0 = Some (Some a)" using first_available [OF e v, of 0] n by auto
  have j: "jump_operands (instr_op i) (operand_list st i) = [t, f]"
    using op ops plain_is_block by (simp add: jump_operands_def)
  obtain bt bf where b: "nth_block st i s 1 = Some (Some bt)" "nth_block st i s 2 = Some (Some bf)"
    using jump_ok [OF e, of 1] jump_ok [OF e, of 2] n j ops plain_is_block by auto
  have "emits ll st j Bs P D A s i closing (Some (snd (create (logged ll) (CreateCondBr (Some a) (Some bt) (Some bf)) s)))"
    using op by (intro emits_last [OF e]) (simp_all add: op_class)
  then show ?thesis using n a b by (simp add: emit_cond_br_def)
qed

lemma wf_cases_nth:
  "wf_cases st xs \<Longrightarrow> Suc (2 * q) < length xs \<Longrightarrow> is_immutable_operand (xs ! (2 * q)) \<and> plain_target st (xs ! Suc (2 * q))"
proof (induction st xs arbitrary: q rule: wf_cases.induct)
  case (3 st v t rest)
  then show ?case by (cases q) auto
qed auto

lemma emit_switch_ok:
  fixes ll :: "('m, 'v, 'b, 'f, 't) llvm"
  assumes e: "emission ll st j Bs P D A s i" and op: "instr_op i = Switch"
  shows "emits ll st j Bs P D A s i closing (emit_switch (logged ll) st i s)"
proof -
  obtain v d cs where ops: "operand_list st i = v # d # cs" "plain_target st d" "wf_cases st cs"
    using emission_wf(2) [OF e] op by (auto simp: wf_shape_def)
  have n: "operand_count i = length cs + 2"
    using ops(1) unfolding operand_count_def length_operand_list [symmetric, of i st] by simp
  have vo: "value_operands (instr_op i) (operand_list st i) = take 1 (operand_list st i)" using op by (simp add: op_class)
  obtain a where a: "nth_value (logged ll) st i s 0 = Some (Some a)" using first_available [OF e vo, of 0] n by auto
  have jo: "jump_operands (instr_op i) (operand_list st i) = filter is_block_operand (d # cs)"
    using op ops(1) by (simp add: jump_operands_def)
  obtain bd where bd: "nth_block st i s 1 = Some (Some bd)"
    using jump_ok [OF e, of 1] n jo ops plain_is_block by auto
  let ?c = "CreateSwitch (Some a) (Some bd) :: ('v option, 'b option, 'f option, 't) call"
  obtain x m0 where c: "create (logged ll) ?c s = (x, s\<lparr>em_state := (m0, log s @ [Created ?c])\<rparr>)"
    by (rule create_logged)
  have int: "integer_immediates st cs" using typed [OF e] op ops(1) by (simp add: typed_ok_def Let_def)
  have "\<exists>w. None \<notin> set1_amend w \<and> None \<notin> set2_amend w \<and>
      (\<forall>r. add_case (logged ll) st i x k (s\<lparr>em_state := r\<rparr>) = Some (amend (logged ll) w (s\<lparr>em_state := r\<rparr>)))"
    if "k \<in> set (case_offsets (operand_count i))" for k
  proof -
    from that obtain q where q: "k = 2 + 2 * q" "q \<in> set [0 ..< (operand_count i - 2) div 2]"
      unfolding case_offsets_def set_map by (rule imageE)
    then have "q < length cs div 2" by (simp add: n)
    then have lt: "Suc (2 * q) < length cs" by linarith
    have k: "operand_list st i ! k = cs ! (2 * q)" "operand_list st i ! Suc k = cs ! Suc (2 * q)"
      "k < operand_count i" "Suc k < operand_count i" using q lt n ops(1) by simp_all
    from wf_cases_nth [OF ops(3) lt] obtain imm where imm: "op_data (operand_list st i ! k) = OpImmutable imm"
      by (auto simp: k is_immutable_operand_def split: operand_data.splits)
    have "cs ! (2 * q) \<in> set cs" using lt by simp
    then have "is_integer_type (imm_tag st imm)" using int imm k(1) by (force simp: integer_immediates_def)
    from resolve_integer_ok [OF emission_ready [OF e] operand_wf [OF e k(3)] imm this]
    obtain y where y: "nth_value (logged ll) st i s k = Some (Some y)" "ll_is_constant_int ll y"
      by (auto simp: nth_value_def operand_ok [OF e k(3)])
    have "is_block_operand (operand_list st i ! Suc k)"
      using wf_cases_nth [OF ops(3) lt] plain_is_block unfolding k(2) by blast
    moreover have "operand_list st i ! Suc k \<in> set (jump_operands (instr_op i) (operand_list st i))"
      using calculation lt unfolding jo k(2) by simp
    ultimately obtain bb where bb: "nth_block st i s (Suc k) = Some (Some bb)"
      using jump_ok [OF e k(4)] by blast
    show ?thesis
      by (intro exI [of _ "AddCase (Some x) (Some y) (Some bb)"]) (simp add: add_case_def y bb)
  qed
  from each_amends [of "case_offsets (operand_count i)" "add_case (logged ll) st i x" s ll m0 "log s @ [Created ?c]", OF this]
  obtain m as where r: "each_step (add_case (logged ll) st i x) (case_offsets (operand_count i)) (s\<lparr>em_state := (m0, log s @ [Created ?c])\<rparr>) =
        Some (s\<lparr>em_state := (m, log s @ Created ?c # map Amended as)\<rparr>)"
      "\<forall>a \<in> set as. None \<notin> set1_amend a \<and> None \<notin> set2_amend a"
    by auto
  have "emit_switch (logged ll) st i s = Some (s\<lparr>em_state := (m, log s @ Created ?c # map Amended as)\<rparr>)"
    using n a bd c r(1) by (simp add: emit_switch_def)
  then show ?thesis using r(2) op by (intro emits_amends [OF e _ _ _ _ _ _ _ r(2)]) (simp_all add: op_class)
qed

text \<open>One incoming value: the parameters of a target of the function are phis, the arguments are available.\<close>

lemma add_incoming_ok:
  assumes e: "emission ll st j Bs P D A s i" and op: "instr_op i = Br" and n: "operand_count i \<noteq> 0"
    and b: "op_data (operand_list st i ! 0) = OpBlock b" "b \<in> Bs" and p: "p \<in> set (indices (block_params (blocks st ! b)))"
  shows "\<exists>w. None \<notin> set1_amend w \<and> None \<notin> set2_amend w \<and>
    (\<forall>r. add_incoming (logged ll) st i current p (s\<lparr>em_state := r\<rparr>) = Some (amend (logged ll) w (s\<lparr>em_state := r\<rparr>)))"
proof -
  have "b < length (blocks st)" using emission_ready [OF e] b(2) by (auto simp: ready_def filled_def sized_def)
  then have "wf_block_ranges st (blocks st ! b)" using emission_wf(1) [OF e] by (simp add: wf_storage_def)
  then have param: "entry (block_param_table st) p = Some (block_param_table st ! p)"
    using p by (auto simp: wf_block_ranges_def range_in_bounds_def entry_def)
  have "param_reg (block_param_table st ! p) \<in> P" using emission_wf(4) [OF e] b(2) p unfolding params_of_def by blast
  then obtain phi where phi: "entry (em_registers s) (param_reg (block_param_table st ! p)) = Some (Some phi)" "ll_is_phi ll phi"
    using emission_ready [OF e] by (auto simp: ready_def sized_def entry_def)
  have "branch_ok st (operand_list st i)" using typed [OF e] op by (simp add: typed_ok_def Let_def)
  then have "p < range_size (block_params (blocks st ! b)) \<and> range_size (block_params (blocks st ! b)) < operand_count i"
    using b(1) p n hd_operand_list [OF e] by (auto simp: branch_ok_def operand_count_def)
  then have lt: "Suc p < operand_count i" by linarith
  have "operand_list st i ! Suc p \<in> set (tl (operand_list st i))"
    using nth_in_drop [of 1 "Suc p" "operand_list st i"] lt by (simp add: drop_Suc operand_count_def)
  then have "available Bs D (operand_list st i ! Suc p)"
    using available_values [OF e] op by (simp add: value_operands_def)
  from value_ok [OF e lt this] obtain v where v: "resolve_operand_value (logged ll) s (operand_list st i ! Suc p) = Some (Some v)" ..
  show ?thesis
    by (intro exI [of _ "AddIncoming (Some phi) (Some v) (Some current)"])
       (simp add: add_incoming_def branch_argument_def param phi v operand_ok [OF e lt])
qed

lemma emit_br_ok:
  fixes ll :: "('m, 'v, 'b, 'f, 't) llvm"
  assumes e: "emission ll st j Bs P D A s i" and op: "instr_op i = Br"
  shows "emits ll st j Bs P D A s i closing (emit_br (logged ll) st i s)"
proof -
  have shape: "operand_list st i \<noteq> []" "is_block_operand (hd (operand_list st i))"
    using emission_wf(2) [OF e] op by (auto simp: wf_shape_def)
  then have n: "operand_count i \<noteq> 0" by (simp add: operand_count_def)
  then obtain b where b: "op_data (operand_list st i ! 0) = OpBlock b"
    using shape(2) hd_operand_list [OF e n] by (auto simp: is_block_operand_def split: operand_data.splits)
  have "operand_list st i ! 0 \<in> set (jump_operands (instr_op i) (operand_list st i))"
    using op shape(1) by (simp add: jump_operands_def hd_conv_nth take_Suc)
  then have bs: "b \<in> Bs" using e b unfolding emission_def emittable_instr_def by blast
  obtain bb where bb: "b < length (blocks st)" "entry (em_blocks s) b = Some (Some bb)"
    using emission_ready [OF e] bs by (auto simp: ready_def filled_def sized_def entry_def)
  let ?c = "CreateBr (Some bb) :: ('v option, 'b option, 'f option, 't) call"
  obtain x m0 where c: "create (logged ll) ?c s = (x, s\<lparr>em_state := (m0, log s @ [Created ?c])\<rparr>)"
    by (rule create_logged)
  let ?f = "add_incoming (logged ll) st i (ll_insert_block (logged ll) (em_state s))"
  from each_amends [of "indices (block_params (blocks st ! b))" ?f s ll m0 "log s @ [Created ?c]",
      OF add_incoming_ok [OF e op n b bs]]
  obtain m as where r: "each_step ?f (indices (block_params (blocks st ! b))) (s\<lparr>em_state := (m0, log s @ [Created ?c])\<rparr>) =
        Some (s\<lparr>em_state := (m, log s @ Created ?c # map Amended as)\<rparr>)"
      "\<forall>a \<in> set as. None \<notin> set1_amend a \<and> None \<notin> set2_amend a"
    by auto
  have "nth_operand st i 0 = Some (operand_list st i ! 0)" using operand_ok [OF e] n by simp
  moreover have "entry (blocks st) b = Some (blocks st ! b)" using bb(1) by (simp add: entry_def)
  ultimately have "emit_br (logged ll) st i s = Some (s\<lparr>em_state := (m, log s @ Created ?c # map Amended as)\<rparr>)"
    using n b bb(2) c r(1) by (simp add: emit_br_def block_of_def Let_def)
  then show ?thesis using r(2) op by (intro emits_amends [OF e _ _ _ _ _ _ _ r(2)]) (simp_all add: op_class)
qed

subsection \<open>Instructions and blocks\<close>

lemma emit_instruction_ok:
  assumes e: "emission ll st j Bs P D A s i"
  shows "emits ll st j Bs P D A s i (if is_terminator (instr_op i) then closing else list_all body_event)
    (emit_instruction (logged ll) st i s)"
proof -
  consider (noop) "instr_op i = Noop" | (compute) "is_compute_op (instr_op i)" | (memory) "is_memory_op (instr_op i)"
    | (call) "instr_op i = Call" | (last) "instr_op i \<in> set [Ret, Unreachable]"
    | (br) "instr_op i = Br" | (cond) "instr_op i = CondBr" | (switch) "instr_op i = Switch"
    by (cases "instr_op i") (simp_all add: is_compute_op_def is_memory_op_def)
  then show ?thesis
  proof cases
    case noop
    then show ?thesis using emits_nothing [OF e] by (simp add: emit_instruction_def is_terminator_def op_class)
  next
    case compute
    then have "\<not> is_terminator (instr_op i)" "instr_op i \<noteq> Noop" by (auto simp: is_compute_op_def is_terminator_def)
    then show ?thesis using emit_compute_ok [OF e compute] compute by (simp add: emit_instruction_def)
  next
    case memory
    then have "\<not> is_terminator (instr_op i)" "instr_op i \<noteq> Noop" "\<not> is_compute_op (instr_op i)"
      by (auto simp: is_memory_op_def is_compute_op_def is_terminator_def)
    then show ?thesis using emit_memory_ok [OF e memory] memory by (simp add: emit_instruction_def)
  next
    case call
    then show ?thesis using emit_call_ok [OF e]
      by (simp add: emit_instruction_def is_compute_op_def is_memory_op_def is_terminator_def)
  next
    case last
    then show ?thesis using emit_exits_ok [OF e]
      by (auto simp: emit_instruction_def is_compute_op_def is_memory_op_def is_terminator_def)
  next
    case br
    then show ?thesis using emit_br_ok [OF e]
      by (simp add: emit_instruction_def emit_control_def is_compute_op_def is_memory_op_def is_terminator_def)
  next
    case cond
    then show ?thesis using emit_cond_br_ok [OF e]
      by (simp add: emit_instruction_def emit_control_def is_compute_op_def is_memory_op_def is_terminator_def)
  next
    case switch
    then show ?thesis using emit_switch_ok [OF e]
      by (simp add: emit_instruction_def emit_control_def is_compute_op_def is_memory_op_def is_terminator_def)
  qed
qed

definition fit :: "('m, 'v, 'b, 'f, 't) llvm \<Rightarrow> storage \<Rightarrow> nat set \<Rightarrow> nat set \<Rightarrow> bool" where
  "fit ll st Bs P \<longleftrightarrow> casts_answered ll \<and> wf_storage st \<and>
     (\<forall>k < length (immutables st). readable_immediate st k) \<and> params_of st Bs \<subseteq> P"

definition placed :: "storage \<Rightarrow> nat set \<Rightarrow> nat \<Rightarrow> bool" where
  "placed st P k \<longleftrightarrow> k < length (instrs st) \<and> wf_instr st (set (all_defs st)) (instrs st ! k) \<and>
     (\<forall>r \<in> set (dst_list (instrs st ! k)). r < length (registers st) \<and> r \<notin> P)"

lemma emission_of:
  assumes "fit ll st Bs P" and "placed st P k" and "ready ll st j Bs P D A s" and "emittable_instr st j Bs D A (instrs st ! k)"
  shows "emission ll st j Bs P D A s (instrs st ! k)"
  using assms by (simp add: fit_def placed_def emission_def)

text \<open>Running instructions: the log grows by what they emit, and what follows is still emittable.\<close>

lemma emit_nth_ok:
  fixes ll :: "('m, 'v, 'b, 'f, 't) llvm"
  assumes "fit ll st Bs P" and "placed st P k" and "ready ll st j Bs P D A s"
    and "emittable_code st j Bs D A (instrs st ! k # rest)"
  obtains s' es D' A' where "emit_nth_instruction (logged ll) st k s = Some s'" and "log s' = log s @ es"
    and "(if is_terminator (instr_op (instrs st ! k)) then closing else list_all body_event) es"
    and "ready ll st j Bs P D' A' s'" and "emittable_code st j Bs D' A' rest"
proof -
  have "emission ll st j Bs P D A s (instrs st ! k)" using assms by (intro emission_of) simp_all
  from emit_instruction_ok [OF this] obtain s' es where
    "emit_instruction (logged ll) st (instrs st ! k) s = Some s'" "log s' = log s @ es"
    "(if is_terminator (instr_op (instrs st ! k)) then closing else list_all body_event) es"
    "ready ll st j Bs P (D \<union> set (kept (instrs st ! k))) (A \<union> set (allocated (instrs st ! k))) s'"
    unfolding emits_def by (elim exE conjE)
  then show thesis using assms(2,4)
    by (intro that [of s' es "D \<union> set (kept (instrs st ! k))" "A \<union> set (allocated (instrs st ! k))"])
       (simp_all add: emit_nth_instruction_def entry_def placed_def)
qed

lemma emit_plain_ok:
  fixes ll :: "('m, 'v, 'b, 'f, 't) llvm"
  assumes "fit ll st Bs P" and "\<And>k. k \<in> set ks \<Longrightarrow> placed st P k \<and> \<not> is_terminator (instr_op (instrs st ! k))"
    and "ready ll st j Bs P D A s" and "emittable_code st j Bs D A (map (\<lambda>k. instrs st ! k) ks @ rest)"
  obtains s' es D' A' where "each_step (emit_nth_instruction (logged ll) st) ks s = Some s'" and "log s' = log s @ es"
    and "list_all body_event es" and "ready ll st j Bs P D' A' s'" and "emittable_code st j Bs D' A' rest"
  using assms(2-4)
proof (induction ks arbitrary: s D A thesis)
  case Nil
  then show ?case by (intro Nil.prems(1) [of s "[]" D A]) simp_all
next
  case (Cons k ks)
  have k: "placed st P k" "\<not> is_terminator (instr_op (instrs st ! k))" using Cons.prems(2) by simp_all
  have "emittable_code st j Bs D A (instrs st ! k # map (\<lambda>k. instrs st ! k) ks @ rest)" using Cons.prems(4) by simp
  from emit_nth_ok [OF assms(1) k(1) Cons.prems(3) this] obtain s1 es1 D1 A1 where
    s1: "emit_nth_instruction (logged ll) st k s = Some s1" "log s1 = log s @ es1"
      "(if is_terminator (instr_op (instrs st ! k)) then closing else list_all body_event) es1"
      "ready ll st j Bs P D1 A1 s1" "emittable_code st j Bs D1 A1 (map (\<lambda>k. instrs st ! k) ks @ rest)" .
  obtain s2 es2 D2 A2 where
    s2: "each_step (emit_nth_instruction (logged ll) st) ks s1 = Some s2" "log s2 = log s1 @ es2"
      "list_all body_event es2" "ready ll st j Bs P D2 A2 s2" "emittable_code st j Bs D2 A2 rest"
    by (rule Cons.IH [OF _ _ s1(4,5)]) (use Cons.prems(2) in simp_all)
  show ?case
    by (rule Cons.prems(1) [OF _ _ _ s2(4,5), of "es1 @ es2"]) (use s1 s2 k in simp_all)
qed

lemma each_step_append: "each_step f (xs @ ys) s = Option.bind (each_step f xs s) (each_step f ys)"
  by (induction xs arbitrary: s) (auto split: Option.bind_splits)

lemma emit_block_ok:
  fixes ll :: "('m, 'v, 'b, 'f, 't) llvm"
  assumes "fit ll st Bs P" and b: "b < length (blocks st)"
    and "\<And>k. k \<in> set (indices (block_instrs (blocks st ! b))) \<Longrightarrow> placed st P k"
    and "ready ll st j Bs P D A s" and "emittable_code st j Bs D A (instr_list st (blocks st ! b) @ rest)"
  obtains s' ins close D' A' where "emit_block (logged ll) st (blocks st ! b) s = Some s'"
    and "log s' = log s @ ins @ close" and "list_all body_event ins" and "closing close"
    and "ready ll st j Bs P D' A' s'" and "emittable_code st j Bs D' A' rest"
proof -
  let ?ks = "indices (block_instrs (blocks st ! b))"
  have "wf_block st (set (all_defs st)) (blocks st ! b)" using assms(1) b by (simp add: fit_def wf_storage_def)
  then have wf: "?ks \<noteq> []" "is_terminator (instr_op (instrs st ! last ?ks))"
      "\<forall>k \<in> set (butlast ?ks). \<not> is_terminator (instr_op (instrs st ! k))"
    by (auto simp: wf_block_def instr_list_def Let_def last_map map_butlast [symmetric])
  have ks: "?ks = butlast ?ks @ [last ?ks]" using wf(1) by simp
  have code: "instr_list st (blocks st ! b) @ rest = map (\<lambda>k. instrs st ! k) (butlast ?ks) @ instrs st ! last ?ks # rest"
    unfolding instr_list_def by (subst ks) simp
  obtain s1 es1 D1 A1 where
    s1: "each_step (emit_nth_instruction (logged ll) st) (butlast ?ks) s = Some s1" "log s1 = log s @ es1"
      "list_all body_event es1" "ready ll st j Bs P D1 A1 s1" "emittable_code st j Bs D1 A1 (instrs st ! last ?ks # rest)"
    by (rule emit_plain_ok [OF assms(1) _ assms(4), of "butlast ?ks" "instrs st ! last ?ks # rest"])
       (use assms(3,5) wf(3) code in \<open>auto dest: in_set_butlastD\<close>)
  have "placed st P (last ?ks)" using assms(3) wf(1) last_in_set by blast
  from emit_nth_ok [OF assms(1) this s1(4,5)] obtain s2 es2 D2 A2 where
    s2: "emit_nth_instruction (logged ll) st (last ?ks) s1 = Some s2" "log s2 = log s1 @ es2"
      "(if is_terminator (instr_op (instrs st ! last ?ks)) then closing else list_all body_event) es2"
      "ready ll st j Bs P D2 A2 s2" "emittable_code st j Bs D2 A2 rest" .
  have "emit_block (logged ll) st (blocks st ! b) s = Some s2"
    unfolding emit_block_def by (subst ks) (simp add: each_step_append s1(1) s2(1))
  then show thesis by (rule that [OF _ _ s1(3) _ s2(4,5), of es2]) (use s1 s2 wf(2) in simp_all)
qed

end
