(* ===== verification/Codegen_Module.thy ===== *)
theory Codegen_Module
  imports Codegen_Emit
begin

text \<open>
  Functions and the whole module: the blocks are declared, their parameters become phis, the
  bodies follow, and every table entry is there when it is read. At the end stand the
  contract of the emitter and samples of verified storages that it does not cover.
\<close>

subsection \<open>Single definitions\<close>

lemma distinct_concat_disjoint:
  "distinct (concat xss) \<Longrightarrow> i < j \<Longrightarrow> j < length xss \<Longrightarrow> set (xss ! i) \<inter> set (xss ! j) = {}"
proof (induction xss arbitrary: i j)
  case (Cons xs xss)
  show ?case
  proof (cases i)
    case 0
    then have "xss ! (j - 1) \<in> set xss" "j \<noteq> 0" using Cons.prems(2,3) by auto
    then show ?thesis using Cons.prems(1) 0 by (auto simp: nth_Cons')
  next
    case (Suc i')
    then show ?thesis using Cons.IH [of i' "j - 1"] Cons.prems by (simp add: nth_Cons')
  qed
qed simp

lemma defs_of_one_block:
  assumes "wf_storage st" and "b < length (blocks st)" and "c < length (blocks st)"
    and "r \<in> set (block_defs st (blocks st ! b))" and "r \<in> set (block_defs st (blocks st ! c))"
  shows "b = c"
proof (rule ccontr)
  assume "b \<noteq> c"
  have d: "distinct (concat (map (block_defs st) (blocks st)))" using assms(1) by (simp add: wf_storage_def all_defs_def)
  have "set (block_defs st (blocks st ! min b c)) \<inter> set (block_defs st (blocks st ! max b c)) = {}"
    using distinct_concat_disjoint [OF d, of "min b c" "max b c"] assms(2,3) \<open>b \<noteq> c\<close> by (simp add: min_def max_def)
  then show False using assms(4,5) by (auto simp: min_def max_def split: if_splits)
qed

lemma param_is_def:
  "p \<in> set (indices (block_params b)) \<Longrightarrow> param_reg (block_param_table st ! p) \<in> set (block_defs st b)"
  by (simp add: block_defs_def)

lemma dst_is_def:
  "k \<in> set (indices (block_instrs b)) \<Longrightarrow> r \<in> set (dst_list (instrs st ! k)) \<Longrightarrow> r \<in> set (block_defs st b)"
  by (auto simp: block_defs_def)

lemma param_not_dst:
  assumes wf: "wf_storage st" and "b < length (blocks st)" and "c < length (blocks st)"
    and p: "p \<in> set (indices (block_params (blocks st ! b)))"
    and k: "k \<in> set (indices (block_instrs (blocks st ! c)))" and r: "r \<in> set (dst_list (instrs st ! k))"
  shows "param_reg (block_param_table st ! p) \<noteq> r"
proof
  assume eq: "param_reg (block_param_table st ! p) = r"
  then have "b = c" using defs_of_one_block [OF assms(1-3)] param_is_def [OF p] dst_is_def [OF k r] by blast
  have "distinct (block_defs st (blocks st ! b))"
    using wf assms(2) by (auto simp: wf_storage_def all_defs_def distinct_concat_iff)
  then have "set (map (\<lambda>p. param_reg (block_param_table st ! p)) (indices (block_params (blocks st ! b)))) \<inter>
      set (concat (map (\<lambda>i. dst_list (instrs st ! i)) (indices (block_instrs (blocks st ! b))))) = {}"
    by (simp add: block_defs_def)
  moreover have "r \<in> set (map (\<lambda>p. param_reg (block_param_table st ! p)) (indices (block_params (blocks st ! b))))"
    using p eq by (auto simp del: set_indices)
  moreover have "r \<in> set (concat (map (\<lambda>i. dst_list (instrs st ! i)) (indices (block_instrs (blocks st ! b)))))"
    using k r \<open>b = c\<close> by (auto simp del: set_indices)
  ultimately show False by blast
qed

lemma defs_bounded:
  "wf_storage st \<Longrightarrow> b < length (blocks st) \<Longrightarrow> r \<in> set (block_defs st (blocks st ! b)) \<Longrightarrow> r < length (registers st)"
proof -
  assume wf: "wf_storage st" and "b < length (blocks st)" "r \<in> set (block_defs st (blocks st ! b))"
  then have "r \<in> set (all_defs st)" by (auto simp: all_defs_def)
  then show "r < length (registers st)" using wf by (auto simp: wf_storage_def)
qed

text \<open>The blocks of a verified function lie in the table, and their instructions are placed.\<close>

lemma placed_instr:
  assumes wf: "wf_storage st" and Bs: "Bs \<subseteq> {..< length (blocks st)}" and b: "b \<in> Bs"
    and k: "k \<in> set (indices (block_instrs (blocks st ! b)))"
  shows "placed st (params_of st Bs) k"
proof -
  have lt: "b < length (blocks st)" using Bs b by blast
  then have "wf_block_ranges st (blocks st ! b)" "wf_block st (set (all_defs st)) (blocks st ! b)"
    using wf by (simp_all add: wf_storage_def)
  then have "k < length (instrs st)" "wf_instr st (set (all_defs st)) (instrs st ! k)"
    using k by (auto simp: wf_block_ranges_def range_in_bounds_def wf_block_def Let_def instr_list_def)
  moreover have "r < length (registers st) \<and> r \<notin> params_of st Bs" if "r \<in> set (dst_list (instrs st ! k))" for r
  proof
    show "r < length (registers st)" using defs_bounded [OF wf lt dst_is_def [OF k that]] .
    have "param_reg (block_param_table st ! p) \<noteq> r" if "c \<in> Bs" "p \<in> set (indices (block_params (blocks st ! c)))" for c p
      using param_not_dst [OF wf _ lt that(2) k \<open>r \<in> set (dst_list (instrs st ! k))\<close>] that(1) Bs by blast
    then show "r \<notin> params_of st Bs" unfolding params_of_def by blast
  qed
  ultimately show ?thesis by (simp add: placed_def)
qed

lemma fn_params_set: "set (fn_params st fn) = params_of st (set (indices (fn_blocks fn)))"
  by (simp add: fn_params_def params_of_def del: set_indices)

subsection \<open>Blocks\<close>

lemma declare_block_ok:
  assumes "ready ll st j Bs P D A s" and "b < length (blocks st)"
  obtains s' where "declare_block (logged ll) f b s = Some s'" and "log s' = log s @ [Added]"
    and "ready ll st j (insert b Bs) P D A s'"
proof -
  obtain bb m where m1: "ll_basic_block ll f (fst (em_state s)) = (bb, m)" by fastforce
  then have m: "ll_basic_block (logged ll) f (em_state s) = (bb, (m, log s @ [Added]))"
    by (simp add: logged_def noting_def log_def)
  have b: "b < length (em_blocks s)" using assms by (simp add: ready_def sized_def)
  let ?s = "s\<lparr>em_state := (m, log s @ [Added]), em_blocks := (em_blocks s)[b := Some bb]\<rparr>"
  have "declare_block (logged ll) f b s = Some ?s" using b by (simp add: declare_block_def m add_block_def fill_def)
  moreover have "ready ll st j (insert b Bs) P D A ?s"
    using assms(1) b by (auto simp: ready_def sized_def intro: filled_update)
  ultimately show thesis by (intro that) (simp_all add: log_def)
qed

lemma declare_blocks_ok:
  assumes "ready ll st j Bs P D A s" and "\<And>b. b \<in> set bs \<Longrightarrow> b < length (blocks st)" and "well_emitted n (log s)"
  obtains s' where "each_step (declare_block (logged ll) f) bs s = Some s'" and "well_emitted n (log s')"
    and "ready ll st j (Bs \<union> set bs) P D A s'"
  using assms
proof (induction bs arbitrary: s Bs thesis)
  case (Cons b bs)
  obtain s1 where s1: "declare_block (logged ll) f b s = Some s1" "log s1 = log s @ [Added]" "ready ll st j (insert b Bs) P D A s1"
    by (rule declare_block_ok [OF Cons.prems(2), of b]) (use Cons.prems(3) in simp_all)
  have "well_emitted n (log s1)" unfolding s1(2) by (rule log_added [OF Cons.prems(4)])
  then obtain s2 where s2: "each_step (declare_block (logged ll) f) bs s1 = Some s2" "well_emitted n (log s2)"
      "ready ll st j (insert b Bs \<union> set bs) P D A s2"
    using Cons.IH [OF _ s1(3)] Cons.prems(3) by auto
  show ?case using s1(1) s2 by (intro Cons.prems(1) [of s2]) simp_all
qed simp

lemma enter_block_ok:
  assumes "ready ll st j Bs P D A s" and "b \<in> Bs"
  obtains bb m where "enter_block (logged ll) st b s = Some (blocks st ! b, s\<lparr>em_state := (m, log s @ [Positioned bb])\<rparr>)"
proof -
  obtain bb where bb: "b < length (blocks st)" "em_blocks s ! b = Some bb" "b < length (em_blocks s)"
    using assms by (auto simp: ready_def sized_def filled_def)
  then show thesis by (intro that) (simp add: enter_block_def entry_def logged_def log_def)
qed

lemma emit_phi_ok:
  assumes c: "casts_answered ll" and r: "ready ll st j Bs P D A s" and p: "p < length (block_param_table st)"
    and "param_reg (block_param_table st ! p) < length (registers st)" and "lowerable st (param_type (block_param_table st ! p))"
  obtains s' t where "emit_phi (logged ll) st p s = Some s'" and "log s' = log s @ [Created (CreatePHI t)]"
    and "ready ll st j Bs (insert (param_reg (block_param_table st ! p)) P) (insert (param_reg (block_param_table st ! p)) D) A s'"
proof -
  let ?r = "param_reg (block_param_table st ! p)"
  obtain t where t: "llvm_type (logged ll) st (param_type (block_param_table st ! p)) = Some t"
    by (rule exE [OF iffD2 [OF llvm_type_ok assms(5)]])
  obtain v m where v: "create (logged ll) (CreatePHI t) s = (v, s\<lparr>em_state := (m, log s @ [Created (CreatePHI t)])\<rparr>)"
      "v = fst (ll_create ll (CreatePHI t) (fst (em_state s)))" by (rule create_logged)
  have phi: "ll_is_phi ll v" using c v(2) by (simp add: casts_answered_def)
  have lt: "?r < length (em_registers s)" using r assms(4) by (simp add: ready_def sized_def)
  let ?s = "s\<lparr>em_state := (m, log s @ [Created (CreatePHI t)]), em_registers := (em_registers s)[?r := Some v]\<rparr>"
  have "emit_phi (logged ll) st p s = Some ?s"
    using p lt t by (simp add: emit_phi_def entry_def v(1) add_register_def fill_def)
  moreover have "ready ll st j Bs (insert ?r P) (insert ?r D) A ?s"
    using r lt phi by (auto simp: ready_def sized_def nth_list_update intro: filled_update)
  ultimately show thesis by (intro that [of ?s t]) (simp_all add: log_def)
qed

lemma emit_phi_list_ok:
  assumes c: "casts_answered ll" and "ready ll st j Bs P D A s"
    and "\<And>p. p \<in> set ps \<Longrightarrow> p < length (block_param_table st) \<and> param_reg (block_param_table st ! p) < length (registers st) \<and>
      lowerable st (param_type (block_param_table st ! p))"
  obtains s' ts where "each_step (emit_phi (logged ll) st) ps s = Some s'" and "log s' = log s @ map (\<lambda>t. Created (CreatePHI t)) ts"
    and "ready ll st j Bs (P \<union> (\<lambda>p. param_reg (block_param_table st ! p)) ` set ps)
      (D \<union> (\<lambda>p. param_reg (block_param_table st ! p)) ` set ps) A s'"
  using assms(2-)
proof (induction ps arbitrary: s P D thesis)
  case Nil
  then show ?case by (intro Nil.prems(1) [of s "[]"]) simp_all
next
  case (Cons p ps)
  obtain s1 t where s1: "emit_phi (logged ll) st p s = Some s1" "log s1 = log s @ [Created (CreatePHI t)]"
      "ready ll st j Bs (insert (param_reg (block_param_table st ! p)) P) (insert (param_reg (block_param_table st ! p)) D) A s1"
    by (rule emit_phi_ok [OF c Cons.prems(2), of p]) (use Cons.prems(3) in simp_all)
  obtain s2 ts where s2: "each_step (emit_phi (logged ll) st) ps s1 = Some s2" "log s2 = log s1 @ map (\<lambda>t. Created (CreatePHI t)) ts"
      "ready ll st j Bs (insert (param_reg (block_param_table st ! p)) P \<union> (\<lambda>p. param_reg (block_param_table st ! p)) ` set ps)
        (insert (param_reg (block_param_table st ! p)) D \<union> (\<lambda>p. param_reg (block_param_table st ! p)) ` set ps) A s2"
    by (rule Cons.IH [OF _ s1(3)]) (use Cons.prems(3) in simp_all)
  show ?case using s1 s2 by (intro Cons.prems(1) [of s2 "t # ts"]) simp_all
qed

subsection \<open>Functions\<close>

text \<open>The parameters of the blocks \<open>bs\<close> become phis.\<close>

lemma emit_phis_ok:
  assumes c: "casts_answered ll" and wf: "wf_storage st" and low: "\<forall>p \<in> set (block_param_table st). lowerable st (param_type p)"
    and r: "ready ll st j Bs P D A s" and b: "b \<in> Bs" and n: "well_emitted n (log s)"
  obtains s' where "emit_phis (logged ll) st b s = Some s'" and "well_emitted n (log s')"
    and "ready ll st j Bs (P \<union> params_of st {b}) (D \<union> params_of st {b}) A s'"
proof -
  have lt: "b < length (blocks st)" using r b by (auto simp: ready_def sized_def filled_def)
  obtain bb m where en: "enter_block (logged ll) st b s = Some (blocks st ! b, s\<lparr>em_state := (m, log s @ [Positioned bb])\<rparr>)"
    by (rule enter_block_ok [OF r b])
  let ?s1 = "s\<lparr>em_state := (m, log s @ [Positioned bb])\<rparr>"
  have "p < length (block_param_table st) \<and> param_reg (block_param_table st ! p) < length (registers st) \<and>
      lowerable st (param_type (block_param_table st ! p))" if "p \<in> set (indices (block_params (blocks st ! b)))" for p
  proof -
    have "wf_block_ranges st (blocks st ! b)" using wf lt by (simp add: wf_storage_def)
    then have "p < length (block_param_table st)" using that by (simp add: wf_block_ranges_def range_in_bounds_def)
    then show ?thesis using low defs_bounded [OF wf lt param_is_def [OF that]] by simp
  qed
  then obtain s2 ts where s2: "each_step (emit_phi (logged ll) st) (indices (block_params (blocks st ! b))) ?s1 = Some s2"
      "log s2 = log ?s1 @ map (\<lambda>t. Created (CreatePHI t)) ts"
      "ready ll st j Bs (P \<union> (\<lambda>p. param_reg (block_param_table st ! p)) ` set (indices (block_params (blocks st ! b))))
        (D \<union> (\<lambda>p. param_reg (block_param_table st ! p)) ` set (indices (block_params (blocks st ! b)))) A s2"
    by (rule emit_phi_list_ok [OF c iffD2 [OF ready_state r]])
  have "well_emitted n (log s @ Positioned bb # map (\<lambda>t. Created (CreatePHI t)) ts)" by (rule log_phis [OF n])
  then show thesis using s2 by (intro that [of s2]) (simp_all add: emit_phis_def en params_of_def del: set_indices)
qed

lemma params_of_Cons: "params_of st (set (b # bs)) = params_of st {b} \<union> params_of st (set bs)"
  by (simp add: params_of_def)

lemma all_phis_ok:
  assumes c: "casts_answered ll" and wf: "wf_storage st" and low: "\<forall>p \<in> set (block_param_table st). lowerable st (param_type p)"
    and "ready ll st j Bs P D A s" and "set bs \<subseteq> Bs" and "well_emitted n (log s)"
  obtains s' where "each_step (emit_phis (logged ll) st) bs s = Some s'" and "well_emitted n (log s')"
    and "ready ll st j Bs (P \<union> params_of st (set bs)) (D \<union> params_of st (set bs)) A s'"
  using assms(4-)
proof (induction bs arbitrary: s P D thesis)
  case Nil
  then show ?case by (intro Nil.prems(1) [of s]) (simp_all add: params_of_def)
next
  case (Cons b bs)
  obtain s1 where s1: "emit_phis (logged ll) st b s = Some s1" "well_emitted n (log s1)"
      "ready ll st j Bs (P \<union> params_of st {b}) (D \<union> params_of st {b}) A s1"
    by (rule emit_phis_ok [OF c wf low Cons.prems(2) _ Cons.prems(4), of b]) (use Cons.prems(3) in simp_all)
  obtain s2 where s2: "each_step (emit_phis (logged ll) st) bs s1 = Some s2" "well_emitted n (log s2)"
      "ready ll st j Bs (P \<union> params_of st {b} \<union> params_of st (set bs)) (D \<union> params_of st {b} \<union> params_of st (set bs)) A s2"
    by (rule Cons.IH [OF _ s1(3) _ s1(2)]) (use Cons.prems(3) in simp_all)
  show ?case unfolding params_of_Cons
    by (rule Cons.prems(1) [of s2]) (use s1(1) s2 in \<open>simp_all only: params_of_Cons Un_assoc each_step.simps bind.bind_lunit\<close>)
qed

text \<open>The bodies of the blocks \<open>bs\<close>, one closed section each.\<close>

lemma all_bodies_ok:
  assumes fit: "fit ll st Bs P" and P: "P = params_of st Bs" and Bs: "Bs \<subseteq> {..< length (blocks st)}"
    and "ready ll st j Bs P D A s" and "set bs \<subseteq> Bs" and "well_emitted n (log s)"
    and "emittable_code st j Bs D A (concat (map (\<lambda>b. instr_list st (blocks st ! b)) bs))"
  obtains s' D' A' where "each_step (emit_body (logged ll) st) bs s = Some s'" and "well_emitted (n + length bs) (log s')"
    and "ready ll st j Bs P D' A' s'"
  using assms(4-)
proof (induction bs arbitrary: s D A n thesis)
  case Nil
  then show ?case by (intro Nil.prems(1) [of s D A]) simp_all
next
  case (Cons b bs)
  have b: "b \<in> Bs" "b < length (blocks st)" using Cons.prems(3) Bs by auto
  obtain bb m where en: "enter_block (logged ll) st b s = Some (blocks st ! b, s\<lparr>em_state := (m, log s @ [Positioned bb])\<rparr>)"
    by (rule enter_block_ok [OF Cons.prems(2) b(1)])
  let ?s1 = "s\<lparr>em_state := (m, log s @ [Positioned bb])\<rparr>"
  have wf: "wf_storage st" using fit by (simp add: fit_def)
  have pl: "placed st P k" if "k \<in> set (indices (block_instrs (blocks st ! b)))" for k
    unfolding P by (rule placed_instr [OF wf Bs b(1) that])
  have r1: "ready ll st j Bs P D A ?s1" using Cons.prems(2) by simp
  have code: "emittable_code st j Bs D A
      (instr_list st (blocks st ! b) @ concat (map (\<lambda>b. instr_list st (blocks st ! b)) bs))"
    using Cons.prems(5) by simp
  obtain s2 ins close D2 A2 where
    s2: "emit_block (logged ll) st (blocks st ! b) ?s1 = Some s2" "log s2 = log ?s1 @ ins @ close"
      "list_all body_event ins" "closing close" "ready ll st j Bs P D2 A2 s2"
      "emittable_code st j Bs D2 A2 (concat (map (\<lambda>b. instr_list st (blocks st ! b)) bs))"
    by (rule emit_block_ok [OF fit b(2) pl r1 code])
  have "well_emitted (Suc n) (log s @ Positioned bb # ins @ close)" by (rule log_block [OF Cons.prems(4) s2(3,4)])
  then have n2: "well_emitted (Suc n) (log s2)" by (simp add: s2(2))
  have sub: "set bs \<subseteq> Bs" using Cons.prems(3) by simp
  obtain s3 D3 A3 where s3: "each_step (emit_body (logged ll) st) bs s2 = Some s3"
      "well_emitted (Suc n + length bs) (log s3)" "ready ll st j Bs P D3 A3 s3"
    by (rule Cons.IH [OF _ s2(5) sub n2 s2(6)])
  have "emit_body (logged ll) st b s = Some s2" by (simp add: emit_body_def en s2(1))
  then show ?case using s3 by (intro Cons.prems(1) [of s3 D3 A3]) simp_all
qed

text \<open>Between two functions: the first \<open>n\<close> functions exist.\<close>

definition based :: "('m, 'v, 'b, 'f, 't) llvm \<Rightarrow> storage \<Rightarrow> nat \<Rightarrow> (('m, 'v, 'b, 'f, 't) recording, 'v, 'b, 'f, 't) emitter \<Rightarrow> bool" where
  "based ll st n s \<longleftrightarrow> sized st s \<and>
     (\<forall>k < length (immutables st). \<exists>v. em_immutables s ! k = Some v \<and>
        (is_integer_type (imm_tag st k) \<longrightarrow> ll_is_constant_int ll v)) \<and>
     filled (em_externals s) {..< length (external_functions st)} \<and> filled (em_functions s) {..< n}"

lemma ready_based: "ready ll st j Bs P D A s \<Longrightarrow> j < length (function_table st) \<Longrightarrow> based ll st (Suc j) s"
  by (auto simp: ready_def based_def filled_def sized_def)

lemma based_ready:
  assumes "based ll st j s" and "j < length (function_table st)"
  shows "ready ll st j {} {} {} {} (s\<lparr>em_functions := (em_functions s)[j := Some f], em_state := r\<rparr>)"
  using assms by (auto simp: ready_def based_def filled_def sized_def nth_list_update)

text \<open>A verified storage that keeps the conventions.\<close>

definition contract :: "('m, 'v, 'b, 'f, 't) llvm \<Rightarrow> storage \<Rightarrow> bool" where
  "contract ll st \<longleftrightarrow> casts_answered ll \<and> wf_storage st \<and> emittable st"

lemma emit_function_ok:
  assumes c: "contract ll st" and j: "j < length (function_table st)"
    and r: "ready ll st j {} {} {} {} s" and n: "well_emitted n (log s)"
  obtains s' where "emit_function False (logged ll) st f (function_table st ! j) s = Some s'"
    and "well_emitted (n + range_size (fn_blocks (function_table st ! j))) (log s')" and "based ll st (Suc j) s'"
proof -
  let ?fn = "function_table st ! j"
  let ?bs = "indices (fn_blocks ?fn)"
  let ?P = "params_of st (set ?bs)"
  have wf: "wf_storage st" and cast: "casts_answered ll" and em: "emittable st" using c by (simp_all add: contract_def)
  have "wf_function st ?fn" using wf j by (simp add: wf_storage_def)
  then have bs: "set ?bs \<subseteq> {..< length (blocks st)}" by (auto simp: wf_function_def range_in_bounds_def)
  have low: "\<forall>p \<in> set (block_param_table st). lowerable st (param_type p)"
    and code: "emittable_code st j (set ?bs) ?P {} (fn_code st ?fn)"
    using em j unfolding emittable_def Let_def fn_params_set by blast+
  have imm: "fit ll st (set ?bs) ?P" using em wf cast by (simp add: fit_def emittable_def)
  obtain s1 where s1: "each_step (declare_block (logged ll) f) ?bs s = Some s1" "well_emitted n (log s1)"
      "ready ll st j ({} \<union> set ?bs) {} {} {} s1"
    by (rule declare_blocks_ok [OF r _ n]) (use bs in blast)+
  obtain s2 where s2: "each_step (emit_phis (logged ll) st) ?bs s1 = Some s2" "well_emitted n (log s2)"
      "ready ll st j ({} \<union> set ?bs) ({} \<union> ?P) ({} \<union> ?P) {} s2"
    by (rule all_phis_ok [OF cast wf low s1(3) Un_upper2 s1(2)])
  have r2: "ready ll st j (set ?bs) ?P ?P {} s2" using s2(3) by (simp del: set_indices)
  obtain s3 D A where s3: "each_step (emit_body (logged ll) st) ?bs s2 = Some s3" "well_emitted (n + length ?bs) (log s3)"
      "ready ll st j (set ?bs) ?P D A s3"
    by (rule all_bodies_ok [OF imm refl bs r2 subset_refl s2(2) code [unfolded fn_code_def]])
  have "emit_function False (logged ll) st f ?fn s = Some s3"
    by (simp add: emit_function_def s1(1) s2(1) s3(1))
  then show thesis using s3(2) ready_based [OF s3(3) j] by (intro that) simp_all
qed

lemma create_function_ok:
  assumes "lowerable_signature st meta"
  obtains f m where "create_function (logged ll) pool st meta s = Some (f, s\<lparr>em_state := (m, log s @ [Added])\<rparr>)"
proof -
  have "\<forall>t \<in> set (indices (param_types meta)). llvm_type (logged ll) st t \<noteq> None"
    using assms llvm_type_ok by (fastforce simp: lowerable_signature_def)
  then obtain ts where ts: "each_option (llvm_type (logged ll) st) (indices (param_types meta)) = Some ts"
    using each_option_ok by blast
  obtain t where t: "llvm_type (logged ll) st (return_type meta) = Some t"
    by (rule exE [OF iffD2 [OF llvm_type_ok assms [unfolded lowerable_signature_def, THEN conjunct1]]])
  obtain f m where "ll_function ll t ts (pool (meta_name meta)) (fst (em_state s)) = (f, m)" by fastforce
  then have "ll_function (logged ll) t ts (pool (meta_name meta)) (em_state s) = (f, (m, log s @ [Added]))"
    by (simp add: logged_def noting_def log_def)
  then show thesis by (intro that) (simp add: create_function_def ts t)
qed

lemma emit_nth_function_ok:
  assumes c: "contract ll st" and j: "j < length (function_table st)"
    and b: "based ll st j s" and n: "well_emitted n (log s)"
  obtains s' where "emit_nth_function False (logged ll) pool st j s = Some s'"
    and "well_emitted (n + range_size (fn_blocks (function_table st ! j))) (log s')" and "based ll st (Suc j) s'"
proof -
  have "lowerable_signature st (fn_meta (function_table st ! j))"
    using c j by (simp add: contract_def emittable_def Let_def)
  then obtain f m where cf: "create_function (logged ll) pool st (fn_meta (function_table st ! j)) s =
      Some (f, s\<lparr>em_state := (m, log s @ [Added])\<rparr>)" by (rule create_function_ok)
  let ?s1 = "s\<lparr>em_functions := (em_functions s)[j := Some f], em_state := (m, log s @ [Added])\<rparr>"
  have "well_emitted n (log ?s1)" using log_added [OF n] by simp
  from emit_function_ok [OF c j based_ready [OF b j] this] obtain s2 where
    s2: "emit_function False (logged ll) st f (function_table st ! j) ?s1 = Some s2"
      "well_emitted (n + range_size (fn_blocks (function_table st ! j))) (log s2)" "based ll st (Suc j) s2" .
  have "add_function j (Some f) (s\<lparr>em_state := (m, log s @ [Added])\<rparr>) = Some ?s1"
    using b j by (simp add: add_function_def fill_def based_def sized_def)
  then show thesis using s2 j by (intro that [of s2]) (simp_all add: emit_nth_function_def entry_def cf)
qed

lemma all_functions_ok:
  assumes c: "contract ll st" and "k \<le> length (function_table st)" and "based ll st 0 s" and "well_emitted 0 (log s)"
  shows "\<exists>s'. each_step (emit_nth_function False (logged ll) pool st) [0 ..< k] s = Some s' \<and> based ll st k s' \<and>
    well_emitted (\<Sum>fn \<leftarrow> take k (function_table st). range_size (fn_blocks fn)) (log s')"
  using assms(2)
proof (induction k)
  case 0
  then show ?case using assms(3,4) by simp
next
  case (Suc k)
  then obtain s1 where s1: "each_step (emit_nth_function False (logged ll) pool st) [0 ..< k] s = Some s1" "based ll st k s1"
      "well_emitted (\<Sum>fn \<leftarrow> take k (function_table st). range_size (fn_blocks fn)) (log s1)"
    by auto
  have k: "k < length (function_table st)" using Suc.prems by simp
  from emit_nth_function_ok [OF c k s1(2,3)] obtain s2 where
    s2: "emit_nth_function False (logged ll) pool st k s1 = Some s2"
      "well_emitted ((\<Sum>fn \<leftarrow> take k (function_table st). range_size (fn_blocks fn)) + range_size (fn_blocks (function_table st ! k))) (log s2)"
      "based ll st (Suc k) s2" .
  show ?case using s1(1) s2 k by (intro exI [of _ s2]) (simp add: each_step_append take_Suc_conv_app_nth)
qed

subsection \<open>The module\<close>

text \<open>While the tables of immediates and external functions fill.\<close>

definition staged ::
  "('m, 'v, 'b, 'f, 't) llvm \<Rightarrow> storage \<Rightarrow> nat \<Rightarrow> nat \<Rightarrow> (('m, 'v, 'b, 'f, 't) recording, 'v, 'b, 'f, 't) emitter \<Rightarrow> bool" where
  "staged ll st k e s \<longleftrightarrow> sized st s \<and>
     (\<forall>i < k. \<exists>v. em_immutables s ! i = Some v \<and> (is_integer_type (imm_tag st i) \<longrightarrow> ll_is_constant_int ll v)) \<and>
     filled (em_externals s) {..< e}"

lemma staged_immutable:
  assumes "staged ll st k e s" and "k < length (immutables st)" and "is_integer_type (imm_tag st k) \<longrightarrow> ll_is_constant_int ll v"
  obtains s' where "add_immutable k (Some v) (s\<lparr>em_state := r\<rparr>) = Some s'" and "staged ll st (Suc k) e s'" and "log s' = snd r"
proof -
  let ?s = "s\<lparr>em_immutables := (em_immutables s)[k := Some v], em_state := r\<rparr>"
  have "k < length (em_immutables s)" using assms by (simp add: staged_def sized_def)
  then have "add_immutable k (Some v) (s\<lparr>em_state := r\<rparr>) = Some ?s" "staged ll st (Suc k) e ?s"
    using assms by (auto simp: add_immutable_def fill_def staged_def sized_def nth_list_update less_Suc_eq)
  then show thesis by (intro that [of ?s]) (simp_all add: log_def)
qed

lemma emit_immutable_ok:
  assumes c: "contract ll st" and k: "k < length (immutables st)" and s: "staged ll st k e s" and n: "well_emitted n (log s)"
  shows "\<exists>s'. emit_immutable (logged ll) pool st k s = Some s' \<and> staged ll st (Suc k) e s' \<and> well_emitted n (log s')"
proof -
  let ?imm = "immutables st ! k" and ?tag = "imm_tag st k"
  have lt: "imm_type ?imm < length (types st)" using c k by (simp add: contract_def wf_storage_def)
  have tag: "tag_at st (imm_type ?imm) = Some ?tag" by (simp add: tag_entry_ok [OF lt] imm_tag_def)
  have rd: "readable_immediate st k" using c k by (simp add: contract_def emittable_def)
  have entry: "entry (immutables st) k = Some ?imm" using k by (simp add: entry_def)
  have ty: "\<exists>t. llvm_type (logged ll) st (imm_type ?imm) = Some t" if "prim_of ?tag \<noteq> None"
    unfolding llvm_type_ok using lt that by (intro lower_prim) (simp_all add: imm_tag_def)
  have same: "s\<lparr>em_state := em_state s\<rparr> = s" by simp
  consider (int) "is_integer_type ?tag" | (float) "\<not> is_integer_type ?tag" "is_float_type ?tag"
    | (str) "\<not> is_integer_type ?tag" "\<not> is_float_type ?tag" by blast
  then show ?thesis
  proof cases
    case int
    then obtain x where x: "as_u64_integer ?tag (imm_value ?imm) = Some x" and p: "prim_of ?tag \<noteq> None"
      using rd by (auto simp: readable_immediate_def Let_def)
    obtain t where t: "llvm_type (logged ll) st (imm_type ?imm) = Some t" using ty [OF p] by (elim exE)
    let ?v = "ll_constant_int ll t x (is_signed_integer_type ?tag)"
    have "ll_is_constant_int ll ?v" using c by (simp add: contract_def casts_answered_def)
    then obtain s' where "add_immutable k (Some ?v) (s\<lparr>em_state := em_state s\<rparr>) = Some s'" "staged ll st (Suc k) e s'"
        "log s' = snd (em_state s)"
      by (rule staged_immutable [OF s k impI, of ?v])
    then show ?thesis using int x t n tag entry by (intro exI [of _ s']) (simp add: emit_immutable_def log_def)
  next
    case float
    then obtain x where x: "as_f64_fp ?tag (imm_value ?imm) = Some x" using rd by (auto simp: readable_immediate_def Let_def)
    have "prim_of ?tag \<noteq> None" using float(2) by (auto simp: is_float_type_def)
    then obtain t where t: "llvm_type (logged ll) st (imm_type ?imm) = Some t" using ty by (elim exE meta_impE)
    let ?v = "ll_constant_fp ll t x"
    obtain s' where "add_immutable k (Some ?v) (s\<lparr>em_state := em_state s\<rparr>) = Some s'" "staged ll st (Suc k) e s'"
        "log s' = snd (em_state s)"
      by (rule staged_immutable [OF s k, of ?v "em_state s"]) (use float in simp_all)
    then show ?thesis using float x t n tag entry by (intro exI [of _ s']) (simp add: emit_immutable_def log_def)
  next
    case str
    then obtain name where name: "?tag = TyStr" "imm_value ?imm = ImmStr name"
      using rd by (auto simp: readable_immediate_def Let_def)
    obtain v m where "ll_global_string ll (pool name) (fst (em_state s)) = (v, m)" by fastforce
    then have g: "ll_global_string (logged ll) (pool name) (em_state s) = (v, (m, log s @ [Added]))"
      by (simp add: logged_def noting_def log_def)
    obtain s' where "add_immutable k (Some v) (s\<lparr>em_state := (m, log s @ [Added])\<rparr>) = Some s'" "staged ll st (Suc k) e s'"
        "log s' = snd (m, log s @ [Added])"
      by (rule staged_immutable [OF s k, of v "(m, log s @ [Added])"]) (use str in simp_all)
    then show ?thesis using name g tag entry str log_added [OF n]
      by (intro exI [of _ s']) (simp add: emit_immutable_def)
  qed
qed

lemma emit_external_ok:
  assumes c: "contract ll st" and e: "e < length (external_functions st)" and s: "staged ll st k e s" and n: "well_emitted n (log s)"
  shows "\<exists>s'. emit_external (logged ll) pool st e s = Some s' \<and> staged ll st k (Suc e) s' \<and> well_emitted n (log s')"
proof -
  have "lowerable_signature st (ext_meta (external_functions st ! e))"
    using c e by (simp add: contract_def emittable_def)
  then obtain f m where cf: "create_function (logged ll) pool st (ext_meta (external_functions st ! e)) s =
      Some (f, s\<lparr>em_state := (m, log s @ [Added])\<rparr>)" by (rule create_function_ok)
  let ?s = "s\<lparr>em_externals := (em_externals s)[e := Some f], em_state := (m, log s @ [Added])\<rparr>"
  have lt: "e < length (em_externals s)" using s e by (simp add: staged_def sized_def)
  then have "emit_external (logged ll) pool st e s = Some ?s"
    using e cf by (simp add: emit_external_def entry_def add_external_function_def fill_def)
  moreover have "staged ll st k (Suc e) ?s"
    using s lt by (auto simp: staged_def sized_def filled_def nth_list_update less_Suc_eq)
  ultimately show ?thesis using log_added [OF n] by (intro exI [of _ ?s]) simp
qed

lemma stages_ok:
  assumes "\<And>k s. k < n \<Longrightarrow> Q k s \<Longrightarrow> \<exists>s'. f k s = Some s' \<and> Q (Suc k) s'" and "Q 0 s"
  shows "\<exists>s'. each_step f [0 ..< n] s = Some s' \<and> Q n s'"
  using assms
proof (induction n)
  case (Suc n)
  then obtain s1 where s1: "each_step f [0 ..< n] s = Some s1" "Q n s1" by (metis less_SucI)
  from Suc.prems(1) [OF lessI s1(2)] obtain s2 where s2: "f n s1 = Some s2" "Q (Suc n) s2" by (elim exE conjE)
  show ?case using s1 s2 by (intro exI [of _ s2]) (simp add: each_step_append)
qed simp

lemma emit_module_runs:
  assumes c: "contract ll st"
  shows "\<exists>s. emit_module False (logged ll) pool st (m, []) = Some s \<and>
    well_emitted (\<Sum>fn \<leftarrow> function_table st. range_size (fn_blocks fn)) (log s)"
proof -
  have s0: "staged ll st 0 0 (new_emitter st (m, [])) \<and> well_emitted 0 (log (new_emitter st (m, [])))"
    by (simp add: staged_def sized_def filled_def new_emitter_def log_def log_empty)
  have "\<exists>s1. each_step (emit_immutable (logged ll) pool st) [0 ..< length (immutables st)] (new_emitter st (m, [])) = Some s1 \<and>
      staged ll st (length (immutables st)) 0 s1 \<and> well_emitted 0 (log s1)"
    by (rule stages_ok [where Q = "\<lambda>k s. staged ll st k 0 s \<and> well_emitted 0 (log s)", OF _ s0])
       (elim conjE, rule emit_immutable_ok [OF c])
  then obtain s1 where s1: "setup_immutables (logged ll) pool st (new_emitter st (m, [])) = Some s1"
      "staged ll st (length (immutables st)) 0 s1" "well_emitted 0 (log s1)"
    unfolding setup_immutables_def by (elim exE conjE)
  have "\<exists>s2. each_step (emit_external (logged ll) pool st) [0 ..< length (external_functions st)] s1 = Some s2 \<and>
      staged ll st (length (immutables st)) (length (external_functions st)) s2 \<and> well_emitted 0 (log s2)"
    by (rule stages_ok [where Q = "\<lambda>e s. staged ll st (length (immutables st)) e s \<and> well_emitted 0 (log s)", OF _ conjI [OF s1(2,3)]])
       (elim conjE, rule emit_external_ok [OF c])
  then obtain s2 where s2: "setup_external_functions (logged ll) pool st s1 = Some s2"
      "staged ll st (length (immutables st)) (length (external_functions st)) s2" "well_emitted 0 (log s2)"
    unfolding setup_external_functions_def by (elim exE conjE)
  have "based ll st 0 s2" using s2(2) by (auto simp: staged_def based_def filled_def)
  from all_functions_ok [OF c order_refl this s2(3), of pool] obtain s3 where
    s3: "each_step (emit_nth_function False (logged ll) pool st) [0 ..< length (function_table st)] s2 = Some s3"
      "well_emitted (\<Sum>fn \<leftarrow> take (length (function_table st)) (function_table st). range_size (fn_blocks fn)) (log s3)"
    by (elim exE conjE)
  have "emit_module False (logged ll) pool st (m, []) = Some s3"
    by (simp add: emit_module_def s1(1) s2(1) s3(1))
  then show ?thesis using s3(2) by (intro exI [of _ s3] conjI) simp_all
qed


subsection \<open>Samples\<close>

text \<open>A library that numbers what it makes.\<close>

definition counting_llvm :: "(nat, nat, nat, nat, nat) llvm" where
  "counting_llvm = \<lparr>ll_prim = (\<lambda>_. 0), ll_struct = (\<lambda>_. 1), ll_array = (\<lambda>_ _. 2), ll_int_bits = (\<lambda>_. 32),
     ll_type_of = (\<lambda>_. 0), ll_of_block = (\<lambda>b. b), ll_is_constant_int = (\<lambda>_. True), ll_is_phi = (\<lambda>_. True),
     ll_constant_int = (\<lambda>_ _ _. 0), ll_constant_fp = (\<lambda>_ _. 0), ll_global_string = (\<lambda>_ m. (m, Suc m)),
     ll_function = (\<lambda>_ _ _ m. (m, Suc m)), ll_basic_block = (\<lambda>_ m. (m, Suc m)), ll_set_insert_point = (\<lambda>_ m. m),
     ll_insert_block = (\<lambda>m. m), ll_create = (\<lambda>_ m. (m, Suc m)), ll_amend = (\<lambda>_ m. m),
     ll_broken_function = (\<lambda>_ _. False), ll_broken_module = (\<lambda>_. False)\<rparr>"

definition no_flags_instr :: "opcode \<Rightarrow> nat option \<Rightarrow> nat \<Rightarrow> nat \<Rightarrow> instruction" where
  "no_flags_instr op dst h n = \<lparr>instr_op = op, instr_flags = default_flags, instr_dst = dst, instr_operands = mk_range h n\<rparr>"

text \<open>A function that jumps into a loop: its one parameter starts at 1 and grows by 1.\<close>

definition loop_storage :: storage where
  "loop_storage =
     \<lparr>function_table = [\<lparr>fn_meta = \<lparr>return_type = 0, param_types = mk_range 0 0, meta_name = 0\<rparr>, fn_blocks = mk_range 0 2\<rparr>],
      blocks = [\<lparr>block_instrs = mk_range 0 1, block_params = mk_range 0 0\<rparr>,
        \<lparr>block_instrs = mk_range 1 2, block_params = mk_range 0 1\<rparr>],
      block_param_table = [\<lparr>param_type = 0, param_reg = 0\<rparr>],
      instrs = [no_flags_instr Br None 0 2, no_flags_instr IntAdd (Some 1) 2 2, no_flags_instr Br None 4 2],
      immutables = [\<lparr>imm_type = 0, imm_value = ImmI32 1\<rparr>],
      registers = [\<lparr>reg_type = 0, reg_def = 0\<rparr>, \<lparr>reg_type = 0, reg_def = 1\<rparr>],
      external_functions = [],
      operands = [\<lparr>op_data = OpBlock 1, op_type = 0\<rparr>, \<lparr>op_data = OpImmutable 0, op_type = 0\<rparr>,
        \<lparr>op_data = OpRegister 0, op_type = 0\<rparr>, \<lparr>op_data = OpImmutable 0, op_type = 0\<rparr>,
        \<lparr>op_data = OpBlock 1, op_type = 0\<rparr>, \<lparr>op_data = OpRegister 1, op_type = 0\<rparr>],
      types = [\<lparr>node_tag = TyI32, node_data = 0\<rparr>, \<lparr>node_tag = TyU32, node_data = 0\<rparr>], struct_types = [],
      array_types = [], enum_types = [], enum_variant_types = [], ref_types = [], tuple_types = []\<rparr>"

text \<open>The same loop behind an entry block that takes the argument of the function.\<close>

definition argument_storage :: storage where
  "argument_storage = loop_storage\<lparr>
     block_param_table := [\<lparr>param_type = 0, param_reg = 2\<rparr>, \<lparr>param_type = 0, param_reg = 0\<rparr>],
     blocks := [\<lparr>block_instrs = mk_range 0 1, block_params = mk_range 0 1\<rparr>,
       \<lparr>block_instrs = mk_range 1 1, block_params = mk_range 1 1\<rparr>],
     instrs := [no_flags_instr Br None 0 2, no_flags_instr Ret None 2 1],
     registers := replicate 3 \<lparr>reg_type = 0, reg_def = 0\<rparr>\<rparr>"

text \<open>Two functions of one block, of which the first calls the second.\<close>

definition forward_storage :: storage where
  "forward_storage = loop_storage\<lparr>
     function_table := map (\<lambda>k. \<lparr>fn_meta = \<lparr>return_type = 0, param_types = mk_range 0 0, meta_name = k\<rparr>, fn_blocks = mk_range k 1\<rparr>) [0, 1],
     blocks := [\<lparr>block_instrs = mk_range 0 2, block_params = mk_range 0 0\<rparr>,
       \<lparr>block_instrs = mk_range 2 1, block_params = mk_range 0 0\<rparr>],
     block_param_table := [],
     instrs := [no_flags_instr Call (Some 0) 0 1, no_flags_instr Ret None 1 1, no_flags_instr Ret None 2 1],
     operands := [\<lparr>op_data = OpFunction 1, op_type = 0\<rparr>, \<lparr>op_data = OpRegister 0, op_type = 0\<rparr>,
       \<lparr>op_data = OpImmutable 0, op_type = 0\<rparr>]\<rparr>"

definition run_log :: "storage \<Rightarrow> (nat, nat, nat, nat) event list option" where
  "run_log st = map_option log (emit_module False (logged counting_llvm) (\<lambda>_. []) st (0, []))"

lemma sample_logs:
  "run_log argument_storage = Some [Added, Added, Added, Positioned 1, Created (CreatePHI 0), Positioned 2,
     Created (CreatePHI 0), Positioned 1, Created (CreateBr (Some 2)),
     Amended (AddIncoming (Some 4) (Some 4) (Some 5)), Positioned 2, Created (CreateRet (Some 4))]"
  "run_log forward_storage = Some [Added, Added, Positioned 1, Positioned 1, Created (CreateCall None []),
     Created (CreateRet (Some 2)), Added, Added, Positioned 5, Positioned 5, Created (CreateRet (Some 0))]"
  by code_simp+


lemma loop_lowerable: "lowerable loop_storage 0"
  by (rule lower_prim) (simp_all add: loop_storage_def)

lemma loop_code:
  "fn_code loop_storage (function_table loop_storage ! 0) =
     [no_flags_instr Br None 0 2, no_flags_instr IntAdd (Some 1) 2 2, no_flags_instr Br None 4 2]"
  by code_simp

lemma loop_emittable: "emittable loop_storage"
proof -
  have "emittable_code loop_storage 0 {0, 1} {0} {} (fn_code loop_storage (function_table loop_storage ! 0))"
    unfolding loop_code
    by (simp add: emittable_instr_def arity_ok_def value_operands_def jump_operands_def typed_ok_def branch_ok_def
        available_def kept_def allocated_def is_comparison_def operand_list_def indices_def upt_rec dst_list_def
        no_flags_instr_def loop_storage_def Let_def)
  moreover have "readable_immediate loop_storage 0"
    by (simp add: readable_immediate_def imm_tag_def loop_storage_def is_integer_type_def as_u64_integer_def Let_def)
  moreover have "set (indices (fn_blocks (function_table loop_storage ! 0))) = {0, 1}"
      "set (fn_params loop_storage (function_table loop_storage ! 0)) = {0}" by code_simp+
  ultimately show ?thesis using loop_lowerable
    by (simp add: emittable_def lowerable_signature_def less_Suc_eq Let_def del: set_indices)
       (simp add: loop_storage_def)
qed


end
